(* ===== verification/GitPrelude.thy ===== *)
theory GitPrelude
  imports Main "HOL-Library.Word" "HOL-Library.Signed_Division"
begin

text \<open>
  Shared vocabulary of the development: the machine types of the 32-bit kernel, the status codes
  of \<^verbatim>\<open>src/src/kernel/common/status.h\<close>, the result type of an operation that may run into
  undefined behaviour or a panic, bounds-checked access to C objects, and the list lemmas that the
  component theories use.

  A C object (a string, a buffer, an array) is a list of its cells.  Reading or writing outside of
  it is a \<open>fault\<close>, so every theorem that concludes \<open>Inr\<close> also states that the code stays inside its
  objects.  A C \<open>int\<close> is an \<open>int\<close> of HOL where no overflow can matter, and \<open>size_t\<close>, \<open>uint32_t\<close> and
  addresses are \<open>32 word\<close>s (or the \<open>nat\<close> they denote, for loop counters).
\<close>

unbundle bit_operations_syntax

section \<open>Machine types\<close>

type_synonym byte = "8 word"
type_synonym u16 = "16 word"
type_synonym u32 = "32 word"
type_synonym u64 = "64 word"

section \<open>Status codes\<close>

definition ALL_OK :: int where "ALL_OK = 0"
definition EIO :: int where "EIO = 1"
definition EINVARG :: int where "EINVARG = 2"
definition ENOMEM :: int where "ENOMEM = 3"
definition ENOTIMPL :: int where "ENOTIMPL = 4"
definition EINFORMAT :: int where "EINFORMAT = 5"
definition EISTKN :: int where "EISTKN = 8"

definition ISERR :: "int \<Rightarrow> bool" where "ISERR value = (value < 0)"

lemmas status_defs = ALL_OK_def EIO_def EINVARG_def ENOMEM_def ENOTIMPL_def EINFORMAT_def
  EISTKN_def ISERR_def

section \<open>Faulting computations\<close>

text \<open>What an execution can end in besides returning: an access outside of an object, a division by
  zero, a signed overflow, a failed \<open>assert\<close>, a call of \<open>kernel_panic\<close>, or a loop that never ends.\<close>

datatype fault = Bad_Read | Bad_Write | Null_Deref | Div_By_Zero | Overflow | Assert_Failed | Panic | Diverges

definition cbind :: "fault + 'a \<Rightarrow> ('a \<Rightarrow> fault + 'b) \<Rightarrow> fault + 'b" where
  "cbind m f = (case m of Inl e \<Rightarrow> Inl e | Inr x \<Rightarrow> f x)"

lemma cbind_simps [simp]: "cbind (Inl e) f = Inl e" "cbind (Inr x) f = f x"
  by (simp_all add: cbind_def)

lemma cbind_cong [fundef_cong]:
  "m = m' \<Longrightarrow> (\<And>x. m' = Inr x \<Longrightarrow> f x = f' x) \<Longrightarrow> cbind m f = cbind m' f'"
  by (cases m') auto

lemma cbind_eq_Inr: "cbind m f = Inr y \<longleftrightarrow> (\<exists>x. m = Inr x \<and> f x = Inr y)"
  by (cases m) auto

lemma cbind_assoc: "cbind (cbind m f) g = cbind m (\<lambda>x. cbind (f x) g)"
  by (cases m) auto

lemma cbind_Inr_right [simp]: "cbind m Inr = m"
  by (cases m) auto

definition cassert :: "bool \<Rightarrow> fault + unit" where
  "cassert b = (if b then Inr () else Inl Assert_Failed)"

lemma cassert_simps [simp]: "cassert True = Inr ()" "cassert False = Inl Assert_Failed"
  by (simp_all add: cassert_def)

section \<open>Bounds-checked objects\<close>

definition rd :: "'a list \<Rightarrow> nat \<Rightarrow> fault + 'a" where
  "rd xs i = (if i < length xs then Inr (xs ! i) else Inl Bad_Read)"

definition wr :: "'a list \<Rightarrow> nat \<Rightarrow> 'a \<Rightarrow> fault + 'a list" where
  "wr xs i v = (if i < length xs then Inr (xs[i := v]) else Inl Bad_Write)"

lemma rd_Inr [simp]: "i < length xs \<Longrightarrow> rd xs i = Inr (xs ! i)"
  by (simp add: rd_def)

lemma wr_Inr [simp]: "i < length xs \<Longrightarrow> wr xs i v = Inr (xs[i := v])"
  by (simp add: wr_def)

lemma rd_out [simp]: "length xs \<le> i \<Longrightarrow> rd xs i = Inl Bad_Read"
  by (simp add: rd_def)

lemma wr_out [simp]: "length xs \<le> i \<Longrightarrow> wr xs i v = Inl Bad_Write"
  by (simp add: wr_def)

lemma rd_eq_Inr: "rd xs i = Inr x \<longleftrightarrow> i < length xs \<and> x = xs ! i"
  by (auto simp: rd_def)

lemma wr_eq_Inr: "wr xs i v = Inr ys \<longleftrightarrow> i < length xs \<and> ys = xs[i := v]"
  by (auto simp: wr_def)

section \<open>Block updates\<close>

text \<open>\<open>blit xs i ys\<close> is the object \<open>xs\<close> after \<open>ys\<close> was stored at index \<open>i\<close>.\<close>

definition blit :: "'a list \<Rightarrow> nat \<Rightarrow> 'a list \<Rightarrow> 'a list" where
  "blit xs i ys = take i xs @ ys @ drop (i + length ys) xs"

lemma length_blit [simp]: "i + length ys \<le> length xs \<Longrightarrow> length (blit xs i ys) = length xs"
  by (simp add: blit_def)

lemma blit_Nil [simp]: "blit xs i [] = xs"
  by (simp add: blit_def)

lemma blit_snoc:
  assumes "i + length ys < length xs"
  shows "(blit xs i ys)[i + length ys := y] = blit xs i (ys @ [y])"
proof -
  have "drop (i + length ys) xs = xs ! (i + length ys) # drop (Suc (i + length ys)) xs"
    using assms by (simp add: Cons_nth_drop_Suc)
  then show ?thesis
    using assms by (simp add: blit_def list_update_append)
qed

lemma blit_Cons:
  assumes "i + length ys < length xs"
  shows "blit (xs[i := y]) (Suc i) ys = blit xs i (y # ys)"
  using assms by (simp add: blit_def take_Suc_conv_app_nth list_update_append)

lemma nth_blit:
  assumes "i + length ys \<le> length xs" and "k < length xs"
  shows "blit xs i ys ! k = (if i \<le> k \<and> k < i + length ys then ys ! (k - i) else xs ! k)"
  using assms by (auto simp: blit_def nth_append min_def)

lemma blit_append: "i + length xs + length ys \<le> length zs \<Longrightarrow>
   blit (blit zs i xs) (i + length xs) ys = blit zs i (xs @ ys)"
  by (simp add: blit_def ac_simps)

lemma blit_full: "length ys = length xs \<Longrightarrow> blit xs 0 ys = ys"
  by (simp add: blit_def)

lemma take_drop_blit [simp]:
  "i + length ys \<le> length xs \<Longrightarrow> take (length ys) (drop i (blit xs i ys)) = ys"
  by (simp add: blit_def)

lemma rd_drop: "drop f fmt = c # cs \<Longrightarrow> rd fmt f = Inr c \<and> drop (Suc f) fmt = cs"
proof -
  assume d: "drop f fmt = c # cs"
  then have f: "f < length fmt" by (metis drop_all leI list.distinct(1))
  then show ?thesis using d by (simp add: Cons_nth_drop_Suc [symmetric])
qed

section \<open>Strings in memory\<close>

text \<open>\<open>cstr s\<close> is the C string at the start of the object \<open>s\<close>; it exists when the object holds a
  terminator.\<close>

definition cstr :: "byte list \<Rightarrow> byte list" where
  "cstr s = takeWhile (\<lambda>c. c \<noteq> 0) s"

definition has_nul :: "byte list \<Rightarrow> bool" where
  "has_nul s = (0 \<in> set s)"

lemma cstr_length_le: "length (cstr s) \<le> length s"
  by (simp add: cstr_def length_takeWhile_le)

lemma cstr_length: "has_nul s \<longleftrightarrow> length (cstr s) < length s"
proof
  assume "has_nul s"
  then show "length (cstr s) < length s"
    unfolding has_nul_def cstr_def by (induction s) auto
next
  assume "length (cstr s) < length s"
  then have "s ! length (cstr s) = 0"
    unfolding cstr_def using nth_length_takeWhile by blast
  then show "has_nul s"
    using \<open>length (cstr s) < length s\<close> unfolding has_nul_def by (metis nth_mem)
qed

lemma cstr_nul: "has_nul s \<Longrightarrow> s ! length (cstr s) = 0"
  using cstr_length nth_length_takeWhile unfolding cstr_def by blast

lemma cstr_nth: "i < length (cstr s) \<Longrightarrow> cstr s ! i = s ! i"
  unfolding cstr_def by (simp add: takeWhile_nth)

lemma cstr_nonzero: "i < length (cstr s) \<Longrightarrow> s ! i \<noteq> 0"
  using nth_mem [of i "cstr s"] cstr_nth [of i s] unfolding cstr_def
  by (auto dest: set_takeWhileD)

lemma cstr_no_nul: "0 \<notin> set (cstr s)"
  unfolding cstr_def by (auto dest: set_takeWhileD)

lemma cstr_take: "take (length (cstr s)) s = cstr s"
  unfolding cstr_def by (metis takeWhile_eq_take)

lemma cstr_append_nul: "0 \<notin> set xs \<Longrightarrow> cstr (xs @ 0 # ys) = xs"
  unfolding cstr_def by (induction xs) auto

lemma has_nul_append_nul [simp]: "has_nul (xs @ 0 # ys)"
  by (simp add: has_nul_def)

section \<open>Words and the numbers they denote\<close>

lemma unat_of_nat_small: "n < 2 ^ 32 \<Longrightarrow> unat (word_of_nat n :: u32) = n"
  by (simp add: unsigned_of_nat take_bit_nat_eq_self)

lemma unat_of_int_small: "0 \<le> k \<Longrightarrow> k < 2 ^ 32 \<Longrightarrow> unat (word_of_int k :: u32) = nat k"
  by (simp add: unsigned_of_int take_bit_int_eq_self)

lemma unat_add_small: "unat (a :: u32) + unat b < 2 ^ 32 \<Longrightarrow> unat (a + b) = unat a + unat b"
  by (simp add: unat_word_ariths)

lemma unat_mult_small: "unat (a :: u32) * unat b < 2 ^ 32 \<Longrightarrow> unat (a * b) = unat a * unat b"
  by (simp add: unat_word_ariths)

lemma sint_small: "unat (w :: u32) = n \<Longrightarrow> n < 2 ^ 31 \<Longrightarrow> sint w = int n"
proof -
  assume "unat w = n" and n: "n < 2 ^ 31"
  then have "uint w = int n" by auto
  then show ?thesis using n by (simp add: sint_uint signed_take_bit_int_eq_self)
qed

lemma sint_big:
  assumes "2 ^ 31 \<le> unat (a :: u32)"
  shows "sint a = uint a - 2 ^ 32"
proof -
  have u: "uint a = int (unat a)" "uint a < 2 ^ 32" using unsigned_less [of a, where ?'a = int] by simp_all
  have "(4294967296 :: u32) = 0" by transfer simp
  then have "(word_of_int (uint a - 2 ^ 32) :: u32) = a" by simp
  then have "sint a = sint (word_of_int (uint a - 2 ^ 32) :: u32)" by (simp only:)
  also have "\<dots> = signed_take_bit 31 (uint a - 2 ^ 32)" by (simp only: signed_of_int) simp
  also have "\<dots> = uint a - 2 ^ 32"
  proof (rule signed_take_bit_int_eq_self)
    have "int (2 ^ 31) \<le> int (unat a)" using assms by (simp only: of_nat_le_iff)
    then show "- (2 ^ 31) \<le> uint a - 2 ^ 32" unfolding u(1) by simp
  qed (use u(2) in simp)
  finally show ?thesis .
qed

lemma sdiv_smod_of_nat:
  "(int n) sdiv (int b) = int (n div b)" "(int n) smod (int b) = int (n mod b)"
  by (cases "n = 0"; cases "b = 0"; simp add: signed_divide_int_def signed_modulo_int_def
      of_nat_div of_nat_mod)+

section \<open>Little-endian encodings\<close>

definition le16 :: "byte list \<Rightarrow> nat \<Rightarrow> fault + u16" where
  "le16 b i = cbind (rd b i) (\<lambda>b0. cbind (rd b (i + 1)) (\<lambda>b1.
     Inr (ucast b0 OR push_bit 8 (ucast b1))))"

definition le32 :: "byte list \<Rightarrow> nat \<Rightarrow> fault + u32" where
  "le32 b i = cbind (rd b i) (\<lambda>b0. cbind (rd b (i + 1)) (\<lambda>b1.
     cbind (rd b (i + 2)) (\<lambda>b2. cbind (rd b (i + 3)) (\<lambda>b3.
     Inr (ucast b0 OR push_bit 8 (ucast b1) OR push_bit 16 (ucast b2) OR push_bit 24 (ucast b3))))))"

definition enc32 :: "u32 \<Rightarrow> byte list" where
  "enc32 w = [ucast w, ucast (drop_bit 8 w), ucast (drop_bit 16 w), ucast (drop_bit 24 w)]"

definition enc16 :: "u16 \<Rightarrow> byte list" where
  "enc16 w = [ucast w, ucast (drop_bit 8 w)]"

lemma length_enc [simp]: "length (enc32 w) = 4" "length (enc16 v) = 2"
  by (simp_all add: enc32_def enc16_def)

lemma join_bytes32:
  "ucast (ucast (w :: u32) :: byte) OR push_bit 8 (ucast (ucast (drop_bit 8 w) :: byte))
    OR push_bit 16 (ucast (ucast (drop_bit 16 w) :: byte))
    OR push_bit 24 (ucast (ucast (drop_bit 24 w) :: byte)) = w" (is "?w = w")
proof (rule bit_word_eqI)
  fix n :: nat
  assume "n < LENGTH(32)"
  then consider "n < 8" | "8 \<le> n" "n < 16" | "16 \<le> n" "n < 24" | "24 \<le> n" "n < 32"
    by fastforce
  then show "bit ?w n = bit w n"
    by cases (auto simp: bit_simps)
qed

lemma join_bytes16:
  "ucast (ucast (w :: u16) :: byte) OR push_bit 8 (ucast (ucast (drop_bit 8 w) :: byte)) = w"
  (is "?w = w")
proof (rule bit_word_eqI)
  fix n :: nat
  assume "n < LENGTH(16)"
  then consider "n < 8" | "8 \<le> n" "n < 16"
    by fastforce
  then show "bit ?w n = bit w n"
    by cases (auto simp: bit_simps)
qed

lemma le32_enc32: "le32 (xs @ enc32 w @ ys) (length xs) = Inr w"
  by (simp add: le32_def enc32_def nth_append join_bytes32)

lemma le16_enc16: "le16 (xs @ enc16 w @ ys) (length xs) = Inr w"
  by (simp add: le16_def enc16_def nth_append join_bytes16)

section \<open>Evaluation of witnesses\<close>

text \<open>A quantifier over the indices of a list of known length is a conjunction.\<close>

lemma all_less_upt: "(\<forall>k<n. P k) = list_all P [0..<n]"
  by (auto simp: list_all_iff)

lemma length_3: "length xs = 3 \<Longrightarrow> \<exists>a b c. xs = [a, b, c]"
  by (auto simp: length_Suc_conv eval_nat_numeral)

end
