(* ===== verification/Memory.thy ===== *)
theory Memory
  imports GitPrelude
begin

text \<open>
  The block operations of \<^verbatim>\<open>src/src/kernel/memory/memory.c\<close> (the userland copies in
  \<^verbatim>\<open>stdlib/string.c\<close> are the same code): \<open>memset\<close>, \<open>memcpy\<close> and \<open>memcmp\<close>, byte loop by byte loop.
  A pointer that is written through is an object and an offset into it.  \<open>memcpy\<close> between different
  objects is \<open>memcpy\<close>; \<open>memcpy_within\<close> is the same loop with source and destination in one object,
  which is how the screen drivers scroll.
\<close>

section \<open>Definitions\<close>

function memset_loop :: "byte list \<Rightarrow> nat \<Rightarrow> byte \<Rightarrow> nat \<Rightarrow> nat \<Rightarrow> fault + byte list" where
  "memset_loop buf p c sz i =
     (if i < sz then cbind (wr buf (p + i) c) (\<lambda>buf'. memset_loop buf' p c sz (Suc i))
      else Inr buf)"
  by pat_completeness auto
termination
  by (relation "measure (\<lambda>(buf, p, c, sz, i). sz - i)") auto

definition memset :: "byte list \<Rightarrow> nat \<Rightarrow> int \<Rightarrow> nat \<Rightarrow> fault + byte list" where
  "memset buf p c sz = memset_loop buf p (word_of_int c) sz 0"

function memcpy_loop ::
  "byte list \<Rightarrow> nat \<Rightarrow> byte list \<Rightarrow> nat \<Rightarrow> nat \<Rightarrow> nat \<Rightarrow> fault + byte list" where
  "memcpy_loop dst d src s sz i =
     (if i < sz
      then cbind (rd src (s + i)) (\<lambda>c. cbind (wr dst (d + i) c)
             (\<lambda>dst'. memcpy_loop dst' d src s sz (Suc i)))
      else Inr dst)"
  by pat_completeness auto
termination
  by (relation "measure (\<lambda>(dst, d, src, s, sz, i). sz - i)") auto

definition memcpy :: "byte list \<Rightarrow> nat \<Rightarrow> byte list \<Rightarrow> nat \<Rightarrow> nat \<Rightarrow> fault + byte list" where
  "memcpy dst d src s sz = memcpy_loop dst d src s sz 0"

function memcpy_within_loop :: "byte list \<Rightarrow> nat \<Rightarrow> nat \<Rightarrow> nat \<Rightarrow> nat \<Rightarrow> fault + byte list" where
  "memcpy_within_loop buf d s sz i =
     (if i < sz
      then cbind (rd buf (s + i)) (\<lambda>c. cbind (wr buf (d + i) c)
             (\<lambda>buf'. memcpy_within_loop buf' d s sz (Suc i)))
      else Inr buf)"
  by pat_completeness auto
termination
  by (relation "measure (\<lambda>(buf, d, s, sz, i). sz - i)") auto

definition memcpy_within :: "byte list \<Rightarrow> nat \<Rightarrow> nat \<Rightarrow> nat \<Rightarrow> fault + byte list" where
  "memcpy_within buf d s sz = memcpy_within_loop buf d s sz 0"

text \<open>\<open>while (len-- > 0)\<close> with both pointers advanced in the comparison.\<close>

fun memcmp_loop :: "byte list \<Rightarrow> byte list \<Rightarrow> nat \<Rightarrow> nat \<Rightarrow> fault + int" where
  "memcmp_loop c1 c2 i 0 = Inr 0"
| "memcmp_loop c1 c2 i (Suc len) =
     cbind (rd c1 i) (\<lambda>a. cbind (rd c2 i) (\<lambda>b.
       if a \<noteq> b then Inr (if a < b then -1 else 1) else memcmp_loop c1 c2 (Suc i) len))"

definition memcmp :: "byte list \<Rightarrow> byte list \<Rightarrow> nat \<Rightarrow> fault + int" where
  "memcmp ptr1 ptr2 len = memcmp_loop ptr1 ptr2 0 len"

declare memset_loop.simps [simp del] memcpy_loop.simps [simp del]
  memcpy_within_loop.simps [simp del]

section \<open>What the loops compute\<close>

lemma memset_loop_spec:
  assumes "p + sz \<le> length buf" and "i \<le> sz"
  shows "memset_loop buf p c sz i = Inr (blit buf (p + i) (replicate (sz - i) c))"
  using assms
proof (induction buf p c sz i rule: memset_loop.induct)
  case (1 buf p c sz i)
  show ?case
  proof (cases "i < sz")
    case True
    then have w: "wr buf (p + i) c = Inr (buf[p + i := c])"
      using "1.prems" by simp
    have "memset_loop (buf[p + i := c]) p c sz (Suc i)
        = Inr (blit (buf[p + i := c]) (p + Suc i) (replicate (sz - Suc i) c))"
      using "1.IH" [OF True w] "1.prems" True by simp
    also have "blit (buf[p + i := c]) (p + Suc i) (replicate (sz - Suc i) c)
        = blit buf (p + i) (c # replicate (sz - Suc i) c)"
      using "1.prems" True blit_Cons [of "p + i" "replicate (sz - Suc i) c" buf c] by simp
    also have "c # replicate (sz - Suc i) c = replicate (sz - i) c"
      using True by (metis Suc_diff_Suc replicate_Suc)
    finally show ?thesis
      using True w by (simp add: memset_loop.simps [of buf])
  next
    case False
    then show ?thesis
      using "1.prems" by (simp add: memset_loop.simps [of buf])
  qed
qed

lemma memset_spec:
  "p + sz \<le> length buf \<Longrightarrow> memset buf p c sz = Inr (blit buf p (replicate sz (word_of_int c)))"
  by (simp add: memset_def memset_loop_spec)

lemma memset_full: "memset buf 0 c (length buf) = Inr (replicate (length buf) (word_of_int c))"
  by (simp add: memset_spec blit_full)

lemma memcpy_loop_spec:
  assumes "s + sz \<le> length src" and "d + sz \<le> length dst" and "i \<le> sz"
  shows "memcpy_loop dst d src s sz i
    = Inr (blit dst (d + i) (take (sz - i) (drop (s + i) src)))"
  using assms
proof (induction dst d src s sz i rule: memcpy_loop.induct)
  case (1 dst d src s sz i)
  show ?case
  proof (cases "i < sz")
    case True
    then have r: "rd src (s + i) = Inr (src ! (s + i))"
      and w: "wr dst (d + i) (src ! (s + i)) = Inr (dst[d + i := src ! (s + i)])"
      using "1.prems" by simp_all
    let ?rest = "take (sz - Suc i) (drop (s + Suc i) src)"
    have "memcpy_loop (dst[d + i := src ! (s + i)]) d src s sz (Suc i)
        = Inr (blit (dst[d + i := src ! (s + i)]) (d + Suc i) ?rest)"
      using "1.IH" [OF True r w] "1.prems" True by simp
    also have "blit (dst[d + i := src ! (s + i)]) (d + Suc i) ?rest
        = blit dst (d + i) (src ! (s + i) # ?rest)"
      using "1.prems" True blit_Cons [of "d + i" ?rest dst] by simp
    also have "src ! (s + i) # ?rest = take (sz - i) (drop (s + i) src)"
      using "1.prems" True
      by (metis Cons_nth_drop_Suc Suc_diff_Suc add_Suc_right add_less_cancel_left
          order_less_le_trans take_Suc_Cons)
    finally show ?thesis
      using True r w by (simp add: memcpy_loop.simps [of dst])
  next
    case False
    then show ?thesis
      using "1.prems" by (simp add: memcpy_loop.simps [of dst])
  qed
qed

lemma memcpy_spec:
  "s + sz \<le> length src \<Longrightarrow> d + sz \<le> length dst \<Longrightarrow>
   memcpy dst d src s sz = Inr (blit dst d (take sz (drop s src)))"
  by (simp add: memcpy_def memcpy_loop_spec)

lemma memcpy_within_loop_spec:
  assumes "d \<le> s" and "s + sz \<le> length buf" and "i \<le> sz"
  shows "memcpy_within_loop buf d s sz i
    = Inr (blit buf (d + i) (take (sz - i) (drop (s + i) buf)))"
  using assms
proof (induction buf d s sz i rule: memcpy_within_loop.induct)
  case (1 buf d s sz i)
  show ?case
  proof (cases "i < sz")
    case True
    let ?c = "buf ! (s + i)"
    have r: "rd buf (s + i) = Inr ?c" and w: "wr buf (d + i) ?c = Inr (buf[d + i := ?c])"
      using "1.prems" True by simp_all
    let ?rest = "take (sz - Suc i) (drop (s + Suc i) buf)"
    have "memcpy_within_loop (buf[d + i := ?c]) d s sz (Suc i)
        = Inr (blit (buf[d + i := ?c]) (d + Suc i)
            (take (sz - Suc i) (drop (s + Suc i) (buf[d + i := ?c]))))"
      using "1.IH" [OF True r w] "1.prems" True by simp
    also have "drop (s + Suc i) (buf[d + i := ?c]) = drop (s + Suc i) buf"
      using "1.prems" by simp
    also have "blit (buf[d + i := ?c]) (d + Suc i) ?rest = blit buf (d + i) (?c # ?rest)"
      using "1.prems" True blit_Cons [of "d + i" ?rest buf] by simp
    also have "?c # ?rest = take (sz - i) (drop (s + i) buf)"
      using "1.prems" True
      by (metis Cons_nth_drop_Suc Suc_diff_Suc add_Suc_right add_less_cancel_left
          order_less_le_trans take_Suc_Cons)
    finally show ?thesis
      using True r w by (simp add: memcpy_within_loop.simps [of buf])
  next
    case False
    then show ?thesis
      using "1.prems" by (simp add: memcpy_within_loop.simps [of buf])
  qed
qed

text \<open>A forward copy towards lower addresses moves the block even when the ranges overlap.\<close>

lemma memcpy_within_spec:
  "d \<le> s \<Longrightarrow> s + sz \<le> length buf \<Longrightarrow>
   memcpy_within buf d s sz = Inr (blit buf d (take sz (drop s buf)))"
  by (simp add: memcpy_within_def memcpy_within_loop_spec)

lemma memcmp_loop_spec:
  assumes "i + len \<le> length c1" and "i + len \<le> length c2"
  shows "\<exists>r. memcmp_loop c1 c2 i len = Inr r
    \<and> (r = 0 \<longleftrightarrow> (\<forall>j<len. c1 ! (i + j) = c2 ! (i + j)))
    \<and> (r < 0 \<longleftrightarrow> (\<exists>k<len. (\<forall>j<k. c1 ! (i + j) = c2 ! (i + j)) \<and> c1 ! (i + k) < c2 ! (i + k)))"
  using assms
proof (induction len arbitrary: i)
  case 0
  then show ?case by simp
next
  case (Suc len)
  show ?case
  proof (cases "c1 ! i = c2 ! i")
    case True
    have "Suc i + len \<le> length c1" "Suc i + len \<le> length c2"
      using Suc.prems by simp_all
    from Suc.IH [OF this] obtain r where r: "memcmp_loop c1 c2 (Suc i) len = Inr r"
      and z: "r = 0 \<longleftrightarrow> (\<forall>j<len. c1 ! (Suc i + j) = c2 ! (Suc i + j))"
      and n: "r < 0 \<longleftrightarrow> (\<exists>k<len. (\<forall>j<k. c1 ! (Suc i + j) = c2 ! (Suc i + j))
        \<and> c1 ! (Suc i + k) < c2 ! (Suc i + k))"
      by blast
    have "memcmp_loop c1 c2 i (Suc len) = Inr r"
      using r Suc.prems True by simp
    moreover have "r = 0 \<longleftrightarrow> (\<forall>j<Suc len. c1 ! (i + j) = c2 ! (i + j))"
      using z True by (simp add: All_less_Suc2)
    moreover have "r < 0 \<longleftrightarrow> (\<exists>k<Suc len. (\<forall>j<k. c1 ! (i + j) = c2 ! (i + j))
        \<and> c1 ! (i + k) < c2 ! (i + k))"
      using n True by (simp add: Ex_less_Suc2 All_less_Suc2)
    ultimately show ?thesis by blast
  next
    case False
    then have "memcmp_loop c1 c2 i (Suc len) = Inr (if c1 ! i < c2 ! i then -1 else 1)"
      using Suc.prems by simp
    moreover have "\<not> (\<forall>j<Suc len. c1 ! (i + j) = c2 ! (i + j))"
      using False by (auto simp: All_less_Suc2)
    moreover have "c1 ! i < c2 ! i \<longleftrightarrow> (\<exists>k<Suc len. (\<forall>j<k. c1 ! (i + j) = c2 ! (i + j))
        \<and> c1 ! (i + k) < c2 ! (i + k))"
      using False by (auto simp: Ex_less_Suc2 All_less_Suc2)
    ultimately show ?thesis by auto
  qed
qed

lemma memcmp_spec:
  assumes "len \<le> length c1" and "len \<le> length c2"
  obtains r where "memcmp c1 c2 len = Inr r"
    and "r = 0 \<longleftrightarrow> take len c1 = take len c2"
    and "r < 0 \<longleftrightarrow> (\<exists>k<len. take k c1 = take k c2 \<and> c1 ! k < c2 ! k)"
proof -
  have eq: "(\<forall>j<k. c1 ! j = c2 ! j) \<longleftrightarrow> take k c1 = take k c2" if "k \<le> len" for k
    using that assms by (auto simp: list_eq_iff_nth_eq)
  obtain r where r: "memcmp_loop c1 c2 0 len = Inr r"
    and z: "r = 0 \<longleftrightarrow> (\<forall>j<len. c1 ! j = c2 ! j)"
    and n: "r < 0 \<longleftrightarrow> (\<exists>k<len. (\<forall>j<k. c1 ! j = c2 ! j) \<and> c1 ! k < c2 ! k)"
    using memcmp_loop_spec [of 0 len c1 c2] assms by auto
  have "r = 0 \<longleftrightarrow> take len c1 = take len c2"
    using z eq by simp
  moreover have "r < 0 \<longleftrightarrow> (\<exists>k<len. take k c1 = take k c2 \<and> c1 ! k < c2 ! k)"
    using n eq by (metis less_imp_le)
  ultimately show thesis
    using that r by (simp add: memcmp_def)
qed

end
