(* ===== verification/KHeap.thy ===== *)
theory KHeap
  imports Memory "HOL-Library.Signed_Division"
begin

text \<open>
  The block allocator of the kernel, \<^verbatim>\<open>src/src/kernel/memory/heap/heap.c\<close> and \<^verbatim>\<open>hkeap.c\<close>.  A heap is
  a run of 4096-byte blocks from \<open>start_address\<close> on and a table with one byte per block: bit 0 says
  the block is taken, bit 7 that the allocation goes on in the next block.  The table is a C object
  of its own (at \<open>HEAP_TABLE_ADDRESS\<close>), so writing past its end is a fault here and a corruption of
  whatever follows it in the kernel.
\<close>

section \<open>Definitions\<close>

definition HEAP_BLOCK_TABLE_ENTRY_TAKEN :: byte where "HEAP_BLOCK_TABLE_ENTRY_TAKEN = 0x01"
definition HEAP_BLOCK_TABLE_ENTRY_FREE :: byte where "HEAP_BLOCK_TABLE_ENTRY_FREE = 0x00"
definition HEAP_BLOCK_HAS_NEXT :: byte where "HEAP_BLOCK_HAS_NEXT = 0x80"

lemmas heap_flag_defs = HEAP_BLOCK_TABLE_ENTRY_TAKEN_def HEAP_BLOCK_TABLE_ENTRY_FREE_def
  HEAP_BLOCK_HAS_NEXT_def

record heap_table =
  entries :: "byte list"
  total :: u32

record heap =
  table :: heap_table
  start_address :: u32

definition heap_validate_table :: "u32 \<Rightarrow> u32 \<Rightarrow> heap_table \<Rightarrow> int" where
  "heap_validate_table ptr end_ptr tab =
     (let table_size = end_ptr - ptr; total_blocks = table_size div 4096
      in if total tab \<noteq> total_blocks then - EINVARG else 0)"

definition heap_validate_alignment :: "u32 \<Rightarrow> bool" where
  "heap_validate_alignment ptr = (ptr mod 4096 = 0)"

definition heap_align_size :: "u32 \<Rightarrow> u32" where
  "heap_align_size val = (if val mod 4096 = 0 then val else (val - val mod 4096) + 4096)"

definition heap_get_entry_type :: "byte \<Rightarrow> byte" where
  "heap_get_entry_type entry = entry AND 0x0f"

definition heap_block_to_address :: "heap \<Rightarrow> int \<Rightarrow> u32" where
  "heap_block_to_address h block = start_address h + 4096 * word_of_int block"

text \<open>Pointer differences are \<open>ptrdiff_t\<close>, signed; the division truncates.\<close>

definition heap_address_to_block :: "heap \<Rightarrow> u32 \<Rightarrow> int" where
  "heap_address_to_block h ptr = sint (ptr - start_address h) sdiv 4096"

function get_start_loop :: "byte list \<Rightarrow> nat \<Rightarrow> int \<Rightarrow> nat \<Rightarrow> int \<Rightarrow> int \<Rightarrow> fault + int" where
  "get_start_loop es tot total_blocks i current_block start_block =
     (if i < tot
      then cbind (rd es i) (\<lambda>entry.
        if heap_get_entry_type entry \<noteq> HEAP_BLOCK_TABLE_ENTRY_FREE
        then get_start_loop es tot total_blocks (Suc i) 0 (- 1)
        else let start_block' = (if start_block = - 1 then int i else start_block);
                 current_block' = current_block + 1
             in if current_block' = total_blocks then Inr start_block'
                else get_start_loop es tot total_blocks (Suc i) current_block' start_block')
      else Inr start_block)"
  by pat_completeness auto
termination
  by (relation "measure (\<lambda>(es, tot, n, i, c, s). tot - i)") auto

definition heap_get_start_block :: "heap \<Rightarrow> int \<Rightarrow> fault + int" where
  "heap_get_start_block h total_blocks =
     cbind (get_start_loop (entries (table h)) (unat (total (table h))) total_blocks 0 0 (- 1))
       (\<lambda>start_block. Inr (if start_block = - 1 then - ENOMEM else start_block))"

function mark_taken_loop :: "byte list \<Rightarrow> int \<Rightarrow> int \<Rightarrow> nat \<Rightarrow> fault + byte list" where
  "mark_taken_loop es start_block total_blocks i =
     (if int i < total_blocks
      then let k = nat (start_block + int i) in
        cbind (rd es k) (\<lambda>e. cbind (wr es k (e OR HEAP_BLOCK_TABLE_ENTRY_TAKEN)) (\<lambda>es1.
        cbind (if int i + 1 < total_blocks
               then cbind (rd es1 k) (\<lambda>e1. wr es1 k (e1 OR HEAP_BLOCK_HAS_NEXT))
               else Inr es1) (\<lambda>es2.
        mark_taken_loop es2 start_block total_blocks (Suc i))))
      else Inr es)"
  by pat_completeness auto
termination
  by (relation "measure (\<lambda>(es, s, n, i). nat n - i)") auto

definition heap_mark_blocks_taken :: "heap \<Rightarrow> int \<Rightarrow> int \<Rightarrow> fault + heap" where
  "heap_mark_blocks_taken h start_block total_blocks =
     cbind (mark_taken_loop (entries (table h)) start_block total_blocks 0)
       (\<lambda>es. Inr (h\<lparr>table := (table h)\<lparr>entries := es\<rparr>\<rparr>))"

function mark_free_loop :: "byte list \<Rightarrow> nat \<Rightarrow> nat \<Rightarrow> fault + byte list" where
  "mark_free_loop es tot i =
     (if i < tot
      then cbind (rd es i) (\<lambda>entry. cbind (wr es i HEAP_BLOCK_TABLE_ENTRY_FREE) (\<lambda>es'.
        if entry AND HEAP_BLOCK_HAS_NEXT = 0 then Inr es' else mark_free_loop es' tot (Suc i)))
      else Inr es)"
  by pat_completeness auto
termination
  by (relation "measure (\<lambda>(es, tot, i). tot - i)") auto

text \<open>The loop variable is a \<open>size_t\<close>: a negative block number becomes a huge one.\<close>

definition heap_mark_blocks_free :: "heap \<Rightarrow> int \<Rightarrow> fault + heap" where
  "heap_mark_blocks_free h start_block =
     cbind (mark_free_loop (entries (table h)) (unat (total (table h)))
              (unat (word_of_int start_block :: u32)))
       (\<lambda>es. Inr (h\<lparr>table := (table h)\<lparr>entries := es\<rparr>\<rparr>))"

text \<open>The null pointer is address 0.\<close>

definition heap_malloc_blocks :: "heap \<Rightarrow> int \<Rightarrow> fault + (u32 \<times> heap)" where
  "heap_malloc_blocks h total_blocks =
     cbind (heap_get_start_block h total_blocks) (\<lambda>start_block.
       if start_block < 0 then Inr (0, h)
       else let ptr = heap_block_to_address h start_block in
         cbind (heap_mark_blocks_taken h start_block total_blocks) (\<lambda>h'. Inr (ptr, h')))"

definition heap_create :: "heap \<Rightarrow> heap_table \<Rightarrow> u32 \<Rightarrow> u32 \<Rightarrow> fault + (int \<times> heap)" where
  "heap_create h tab ptr end_ptr =
     (if \<not> heap_validate_alignment ptr \<or> \<not> heap_validate_alignment end_ptr
      then Inr (- EINVARG, h)
      else let h1 = h\<lparr>start_address := ptr, table := tab\<rparr> in
        if heap_validate_table ptr end_ptr tab \<noteq> 0 then Inr (- EINVARG, h1)
        else cbind (memset (entries tab) 0 (uint HEAP_BLOCK_TABLE_ENTRY_FREE) (unat (total tab)))
          (\<lambda>es. Inr (0, h1\<lparr>table := tab\<lparr>entries := es\<rparr>\<rparr>)))"

definition heap_malloc :: "heap \<Rightarrow> u32 \<Rightarrow> fault + (u32 \<times> heap)" where
  "heap_malloc h sz =
     (let aligned_size = heap_align_size sz; total_blocks = sint (aligned_size div 4096)
      in heap_malloc_blocks h total_blocks)"

definition heap_free :: "heap \<Rightarrow> u32 \<Rightarrow> fault + heap" where
  "heap_free h ptr = heap_mark_blocks_free h (heap_address_to_block h ptr)"

text \<open>\<open>kheap_init\<close>: \<open>table_memory\<close> is the memory at \<open>HEAP_TABLE_ADDRESS\<close>, whatever it holds.\<close>

definition kheap_init :: "heap \<Rightarrow> byte list \<Rightarrow> u32 \<Rightarrow> u32 \<Rightarrow> fault + (int \<times> heap)" where
  "kheap_init kernel_heap table_memory start sz =
     (let total_table_entries = sz div 4096;
          kernel_heap_table = \<lparr>entries = table_memory, total = total_table_entries\<rparr>;
          end_ptr = start + sz
      in heap_create kernel_heap kernel_heap_table start end_ptr)"

declare get_start_loop.simps [simp del] mark_taken_loop.simps [simp del]
  mark_free_loop.simps [simp del]

section \<open>The table: free runs and allocations\<close>

definition is_free :: "byte \<Rightarrow> bool" where
  "is_free e = (heap_get_entry_type e = HEAP_BLOCK_TABLE_ENTRY_FREE)"

definition free_run :: "byte list \<Rightarrow> nat \<Rightarrow> nat \<Rightarrow> bool" where
  "free_run es s n = (s + n \<le> length es \<and> (\<forall>k. s \<le> k \<and> k < s + n \<longrightarrow> is_free (es ! k)))"

text \<open>The entries of an allocation of \<open>n\<close> blocks.\<close>

definition run_marks :: "nat \<Rightarrow> byte list" where
  "run_marks n = map (\<lambda>k. if Suc k < n then 0x81 else 0x01) [0..<n]"

text \<open>An allocation of \<open>n\<close> blocks starts at block \<open>s\<close>.\<close>

definition is_alloc :: "byte list \<Rightarrow> nat \<Rightarrow> nat \<Rightarrow> bool" where
  "is_alloc es s n = (0 < n \<and> s + n \<le> length es \<and> take n (drop s es) = run_marks n
     \<and> (s = 0 \<or> es ! (s - 1) \<noteq> 0x81))"

text \<open>Every entry is free, the last block of an allocation or an inner one, and an inner one is
  followed by a taken one.\<close>

definition table_wf :: "byte list \<Rightarrow> bool" where
  "table_wf es = ((\<forall>k<length es. es ! k = 0 \<or> es ! k = 0x01 \<or> es ! k = 0x81)
     \<and> (\<forall>k<length es. es ! k = 0x81 \<longrightarrow> Suc k < length es \<and> es ! Suc k \<noteq> 0))"

section \<open>What the loops compute\<close>

lemma get_start_loop_first:
  assumes run: "free_run es t n" and min: "\<And>s. s < t \<Longrightarrow> \<not> free_run es s n" and "0 < n"
    and st: "(st = - 1 \<and> cur = 0 \<and> i \<le> t) \<or>
      (\<exists>s. st = int s \<and> cur = int (i - s) \<and> s < i \<and> i < s + n \<and> s \<le> t
         \<and> (\<forall>k. s \<le> k \<and> k < i \<longrightarrow> is_free (es ! k)))"
  shows "get_start_loop es (length es) (int n) i cur st = Inr (int t)"
  using st
proof (induction "length es - i" arbitrary: i cur st rule: less_induct)
  case less
  note IH = less.hyps and prems = less.prems
  have tl: "t + n \<le> length es" and tf: "\<And>k. t \<le> k \<Longrightarrow> k < t + n \<Longrightarrow> is_free (es ! k)"
    using run by (auto simp: free_run_def)
  have i: "i < length es" using prems tl assms(3) by auto
  then have r: "rd es i = Inr (es ! i)" by simp
  show ?case
  proof (cases "is_free (es ! i)")
    case False
    then have "i \<le> t \<Longrightarrow> Suc i \<le> t" using tf [of i] assms(3) by (cases "i = t") auto
    moreover have "i \<le> t" using prems tf [of i] False by (cases "t \<le> i") auto
    ultimately have "get_start_loop es (length es) (int n) (Suc i) 0 (- 1) = Inr (int t)"
      using IH [of "Suc i" "- 1" 0] i False by (simp add: is_free_def)
    then show ?thesis
      using i r False by (simp add: get_start_loop.simps [of es] is_free_def)
  next
    case True
    define s where "s = (if st = - 1 then i else nat st)"
    have s: "(if st = - 1 then int i else st) = int s" "s \<le> i" "s \<le> t" "i < s + n"
      "cur + 1 = int (Suc i - s)"
      using prems assms(3) by (auto simp: s_def)
    have fr: "\<forall>k. s \<le> k \<and> k < Suc i \<longrightarrow> is_free (es ! k)"
      using prems True by (auto simp: s_def less_Suc_eq)
    show ?thesis
    proof (cases "cur + 1 = int n")
      case full: True
      then have "Suc i = s + n" using s by linarith
      then have "free_run es s n" using fr i by (auto simp: free_run_def)
      then have "s = t" using min s(3) by (metis le_neq_implies_less)
      then show ?thesis
        using i r True full s(1) by (simp add: get_start_loop.simps [of es] is_free_def)
    next
      case more: False
      then have "Suc i < s + n" using s by linarith
      then have "get_start_loop es (length es) (int n) (Suc i) (cur + 1) (int s) = Inr (int t)"
        using IH [of "Suc i" "int s" "cur + 1"] i True more s fr by (auto simp: is_free_def algebra_simps)
      then show ?thesis
        using i r True more s(1) by (simp add: get_start_loop.simps [of es] is_free_def)
    qed
  qed
qed

lemma get_start_loop_none:
  assumes none: "\<And>s. \<not> free_run es s n" and "0 < n" and "i \<le> length es"
    and st: "(st = - 1 \<and> cur = 0 \<and> (i = 0 \<or> \<not> is_free (es ! (i - 1)))) \<or>
      (\<exists>s. st = int s \<and> cur = int (i - s) \<and> s < i \<and> i < s + n
         \<and> (\<forall>k. s \<le> k \<and> k < i \<longrightarrow> is_free (es ! k)))"
  shows "\<exists>r. get_start_loop es (length es) (int n) i cur st = Inr r \<and>
    ((r = - 1 \<and> (es = [] \<or> \<not> is_free (last es))) \<or>
     (\<exists>s. r = int s \<and> s < length es \<and> length es < s + n
        \<and> (\<forall>k. s \<le> k \<and> k < length es \<longrightarrow> is_free (es ! k))))"
  using assms(3) st
proof (induction "length es - i" arbitrary: i cur st rule: less_induct)
  case less
  note IH = less.hyps and prems = less.prems
  show ?case
  proof (cases "i < length es")
    case False
    then have "i = length es" using prems by simp
    then show ?thesis
      using prems(2) by (auto simp: get_start_loop.simps [of es] last_conv_nth)
  next
    case i: True
    then have r: "rd es i = Inr (es ! i)" by simp
    show ?thesis
    proof (cases "is_free (es ! i)")
      case False
      then show ?thesis
        using IH [of "Suc i" "- 1" 0] i r
        by (simp add: get_start_loop.simps [of es _ _ i] is_free_def)
    next
      case True
      define s where "s = (if st = - 1 then i else nat st)"
      have s: "(if st = - 1 then int i else st) = int s" "s \<le> i" "i < s + n"
        "cur + 1 = int (Suc i - s)"
        using prems assms(2) by (auto simp: s_def)
      have fr: "\<forall>k. s \<le> k \<and> k < Suc i \<longrightarrow> is_free (es ! k)"
        using prems True by (auto simp: s_def less_Suc_eq)
      have "Suc i \<noteq> s + n"
      proof
        assume "Suc i = s + n"
        then have "free_run es s n" using fr i by (auto simp: free_run_def)
        then show False using none by blast
      qed
      then have more: "Suc i < s + n" "cur + 1 \<noteq> int n" using s by linarith+
      show ?thesis
        using IH [of "Suc i" "int s" "cur + 1"] i r True more s fr
        by (auto simp: get_start_loop.simps [of es _ _ i] is_free_def algebra_simps)
    qed
  qed
qed

lemma run_marks_nth: "k < n \<Longrightarrow> run_marks n ! k = (if Suc k < n then 0x81 else 0x01)"
  by (simp add: run_marks_def)

lemma run_marks_length [simp]: "length (run_marks n) = n"
  by (simp add: run_marks_def)

lemma mark_taken_loop_spec:
  assumes "s + n \<le> length es" and "i \<le> n" and "\<And>k. s + i \<le> k \<Longrightarrow> k < s + n \<Longrightarrow> es ! k = 0"
  shows "mark_taken_loop es (int s) (int n) i = Inr (blit es (s + i) (drop i (run_marks n)))"
  using assms
proof (induction "n - i" arbitrary: es i)
  case 0
  then show ?case by (simp add: mark_taken_loop.simps [of es])
next
  case (Suc m)
  then have i: "i < n" by simp
  have k: "nat (int s + int i) = s + i" by simp
  have sl: "s + i < length es" and z: "es ! (s + i) = 0" using Suc.prems i by auto
  let ?v = "run_marks n ! i"
  let ?e = "es[s + i := ?v]"
  have ih: "mark_taken_loop ?e (int s) (int n) (Suc i)
      = Inr (blit ?e (s + Suc i) (drop (Suc i) (run_marks n)))"
    using Suc.prems Suc.hyps(2) i by (intro Suc.hyps(1)) auto
  have "blit ?e (s + Suc i) (drop (Suc i) (run_marks n)) = blit es (s + i) (drop i (run_marks n))"
    using blit_Cons [of "s + i" "drop (Suc i) (run_marks n)" es ?v] Suc.prems i
    by (simp add: Cons_nth_drop_Suc)
  moreover have "mark_taken_loop es (int s) (int n) i = mark_taken_loop ?e (int s) (int n) (Suc i)"
    using i sl z k
    by (subst mark_taken_loop.simps)
      (simp add: heap_flag_defs run_marks_nth Let_def)
  ultimately show ?case using ih by simp
qed

lemma mark_taken_loop_overrun:
  assumes "length es < s + n" and "s + i \<le> length es"
  shows "mark_taken_loop es (int s) (int n) i = Inl Bad_Read"
  using assms
proof (induction "length es - (s + i)" arbitrary: es i)
  case 0
  then show ?case by (subst mark_taken_loop.simps) (simp add: nat_add_distrib)
next
  case (Suc m)
  have k: "nat (int s + int i) = s + i" by simp
  have sl: "s + i < length es" using Suc by simp
  have n: "int i < int n" using Suc by linarith
  have "mark_taken_loop (es[s + i := v]) (int s) (int n) (Suc i) = Inl Bad_Read" for v
    using Suc by (intro Suc.hyps(1)) auto
  then show ?case
    using n sl k by (subst mark_taken_loop.simps) (simp add: Let_def)
qed


section \<open>The table as a set of allocations\<close>

lemma is_free_wf: "table_wf es \<Longrightarrow> k < length es \<Longrightarrow> is_free (es ! k) \<longleftrightarrow> es ! k = 0"
proof -
  assume "table_wf es" "k < length es"
  then consider "es ! k = 0" | "es ! k = 0x01" | "es ! k = 0x81"
    by (auto simp: table_wf_def)
  then show ?thesis
    by cases (simp_all add: is_free_def heap_get_entry_type_def heap_flag_defs)
qed

lemma is_alloc_nth:
  "is_alloc es s n \<longleftrightarrow> 0 < n \<and> s + n \<le> length es
     \<and> (\<forall>k. s \<le> k \<and> k < s + n \<longrightarrow> es ! k = (if Suc k < s + n then 0x81 else 0x01))
     \<and> (s = 0 \<or> es ! (s - 1) \<noteq> 0x81)"
proof -
  have "take n (drop s es) = run_marks n
      \<longleftrightarrow> (\<forall>k. s \<le> k \<and> k < s + n \<longrightarrow> es ! k = (if Suc k < s + n then 0x81 else 0x01))"
    if "s + n \<le> length es"
  proof
    assume eq: "take n (drop s es) = run_marks n"
    have "es ! k = (if Suc k < s + n then 0x81 else 0x01)" if k: "s \<le> k" "k < s + n" for k
    proof -
      have "run_marks n ! (k - s) = es ! k"
        using k \<open>s + n \<le> length es\<close> by (simp flip: eq)
      then show ?thesis using k by (auto simp: run_marks_nth split: if_splits)
    qed
    then show "\<forall>k. s \<le> k \<and> k < s + n \<longrightarrow> es ! k = (if Suc k < s + n then 0x81 else 0x01)" by blast
  next
    assume "\<forall>k. s \<le> k \<and> k < s + n \<longrightarrow> es ! k = (if Suc k < s + n then 0x81 else 0x01)"
    then show "take n (drop s es) = run_marks n"
      using that by (intro nth_equalityI) (auto simp: run_marks_nth)
  qed
  then show ?thesis by (auto simp: is_alloc_def)
qed

lemma alloc_bounds: "is_alloc es s n \<Longrightarrow> 0 < n \<and> s + n \<le> length es"
  by (simp add: is_alloc_nth)

lemma alloc_entry:
  "is_alloc es s n \<Longrightarrow> s \<le> k \<Longrightarrow> k < s + n \<Longrightarrow> es ! k = (if Suc k < s + n then 0x81 else 0x01)"
  by (simp add: is_alloc_nth)

lemma alloc_entry_nz: "is_alloc es s n \<Longrightarrow> s \<le> k \<Longrightarrow> k < s + n \<Longrightarrow> es ! k \<noteq> 0"
  using alloc_entry [of es s n k] by (simp split: if_splits)

lemma alloc_pred: "is_alloc es s n \<Longrightarrow> 0 < s \<Longrightarrow> es ! (s - 1) \<noteq> 0x81"
  by (simp add: is_alloc_nth)

lemma alloc_disjoint:
  assumes a: "is_alloc es s n" and b: "is_alloc es t m" and k: "s \<le> k" "k < s + n" "t \<le> k" "k < t + m"
  shows "s = t \<and> n = m"
proof -
  have inner: False if "is_alloc es p i" "is_alloc es q j" "p < q" "q < p + i" for p q i j
  proof -
    have "p \<le> q - 1" "q - 1 < p + i" "Suc (q - 1) < p + i" using that by auto
    then have "es ! (q - 1) = 0x81" using alloc_entry [OF that(1), of "q - 1"] by simp
    then show False using alloc_pred [OF that(2)] that by simp
  qed
  have st: "s = t"
    using inner [OF a b] inner [OF b a] k by (cases s t rule: linorder_cases) auto
  have len: False if "is_alloc es p i" "is_alloc es p j" "i < j" for p i j
  proof -
    have k: "p \<le> p + i - 1" "p + i - 1 < p + i" "\<not> Suc (p + i - 1) < p + i"
      "p + i - 1 < p + j" "Suc (p + i - 1) < p + j"
      using that alloc_bounds [OF that(1)] by auto
    show False
      using alloc_entry [OF that(1) k(1) k(2)] alloc_entry [OF that(2) k(1) k(4)] k by simp
  qed
  show ?thesis using len [of s n m] len [of s m n] a b st by (cases n m rule: linorder_cases) auto
qed

lemma blit_run_nth:
  assumes "t + n \<le> length es" and "k < length es"
  shows "blit es t (run_marks n) ! k
    = (if t \<le> k \<and> k < t + n then (if Suc k < t + n then 0x81 else 0x01) else es ! k)"
  using assms by (auto simp: nth_blit run_marks_nth)

lemma alloc_wf:
  assumes wf: "table_wf es" and run: "free_run es t n" and n: "0 < n"
  shows "table_wf (blit es t (run_marks n))"
proof -
  have b: "t + n \<le> length es" using run by (simp add: free_run_def)
  have "es ! Suc k = 0" if "Suc k < length es" "t \<le> Suc k" "Suc k < t + n" for k
    using run is_free_wf [OF wf that(1)] that by (simp add: free_run_def)
  then show ?thesis
    using wf b n unfolding table_wf_def
    by (auto simp: blit_run_nth)
qed

lemma alloc_adds:
  assumes wf: "table_wf es" and run: "free_run es t n" and n: "0 < n"
  shows "is_alloc (blit es t (run_marks n)) s m \<longleftrightarrow> is_alloc es s m \<or> (s = t \<and> m = n)"
proof -
  let ?es = "blit es t (run_marks n)"
  have b: "t + n \<le> length es" using run by (simp add: free_run_def)
  have z: "es ! k = 0" if "t \<le> k" "k < t + n" for k
    using run is_free_wf [OF wf, of k] that b by (simp add: free_run_def)
  have pre: "es ! (t - 1) \<noteq> 0x81" if "0 < t"
  proof
    assume "es ! (t - 1) = 0x81"
    moreover have "t - 1 < length es" using that b n by simp
    ultimately have "es ! Suc (t - 1) \<noteq> 0" using wf unfolding table_wf_def by blast
    then show False using z [of t] that n by simp
  qed
  have new: "is_alloc ?es t n"
    using b n pre by (auto simp: is_alloc_nth blit_run_nth)
  have away: "is_alloc ?es s m \<longleftrightarrow> is_alloc es s m"
    if "s + m \<le> t \<or> t + n \<le> s" "0 < m"
  proof (cases "s + m \<le> length es")
    case True
    have "?es ! k = es ! k" if "s \<le> k" "k < s + m" for k
      using that \<open>s + m \<le> t \<or> t + n \<le> s\<close> True b by (auto simp: blit_run_nth)
    moreover have "?es ! (s - 1) \<noteq> 0x81 \<longleftrightarrow> es ! (s - 1) \<noteq> 0x81" if "0 < s"
      using that \<open>s + m \<le> t \<or> t + n \<le> s\<close> True b z [of "s - 1"] by (auto simp: blit_run_nth)
    ultimately show ?thesis using b by (auto simp: is_alloc_nth)
  next
    case False
    then show ?thesis using b by (simp add: is_alloc_nth)
  qed
  have old: False if "is_alloc es s m" "\<not> (s + m \<le> t \<or> t + n \<le> s)"
  proof -
    have "es ! (max s t) = 0" using z that(2) n by (simp add: max_def)
    moreover have "es ! (max s t) \<noteq> 0"
      using that alloc_bounds [OF that(1)] by (intro alloc_entry_nz [OF that(1)]) auto
    ultimately show False by simp
  qed
  have over: "s = t \<and> m = n" if o: "is_alloc ?es s m" "\<not> (s + m \<le> t \<or> t + n \<le> s)"
    by (rule alloc_disjoint [OF o(1) new, of "max s t"]) (use o n in \<open>auto simp: is_alloc_nth max_def\<close>)
  show ?thesis
  proof (cases "0 < m")
    case False
    then show ?thesis using n by (auto dest: alloc_bounds)
  next
    case True
    then show ?thesis
      using away old over new n by (cases "s + m \<le> t \<or> t + n \<le> s") auto
  qed
qed

lemma free_removes:
  assumes wf: "table_wf es" and al: "is_alloc es t n"
  shows "table_wf (blit es t (replicate n 0))"
    and "is_alloc (blit es t (replicate n 0)) s m \<longleftrightarrow> is_alloc es s m \<and> \<not> (s = t \<and> m = n)"
    and "free_run (blit es t (replicate n 0)) t n"
proof -
  let ?es = "blit es t (replicate n (0 :: byte))"
  have b: "t + n \<le> length es" "0 < n" and pre: "t = 0 \<or> es ! (t - 1) \<noteq> 0x81"
    using al by (auto simp: is_alloc_nth)
  have nth: "?es ! k = (if t \<le> k \<and> k < t + n then 0 else es ! k)" if "k < length es" for k
    using that b by (auto simp: nth_blit)
  show "table_wf ?es"
    unfolding table_wf_def
  proof (intro conjI allI impI)
    fix k assume "k < length ?es"
    then show "?es ! k = 0 \<or> ?es ! k = 1 \<or> ?es ! k = 129"
      using wf nth [of k] b by (auto simp: table_wf_def)
  next
    fix k assume k: "k < length ?es" "?es ! k = 0x81"
    then have out: "\<not> (t \<le> k \<and> k < t + n)" "es ! k = 0x81"
      using nth [of k] b by (auto split: if_splits)
    then show "Suc k < length ?es" using wf k b by (auto simp: table_wf_def)
    then have "es ! Suc k \<noteq> 0" "Suc k \<noteq> t \<or> t = 0"
      using wf k b pre out by (auto simp: table_wf_def)
    then show "?es ! Suc k \<noteq> 0"
      using nth [of "Suc k"] out \<open>Suc k < length ?es\<close> b by auto
  qed
  show "free_run ?es t n"
    using b nth by (auto simp: free_run_def is_free_def heap_get_entry_type_def heap_flag_defs)
  show "is_alloc ?es s m \<longleftrightarrow> is_alloc es s m \<and> \<not> (s = t \<and> m = n)"
  proof (cases "0 < m \<and> s + m \<le> length es")
    case False
    then show ?thesis using b by (auto simp: is_alloc_nth)
  next
    case m: True
    show ?thesis
    proof (cases "s + m \<le> t \<or> t + n \<le> s")
      case True
      have "?es ! k = es ! k" if "s \<le> k" "k < s + m" for k
        using that True m nth [of k] by auto
      moreover have "?es ! (s - 1) \<noteq> 0x81 \<longleftrightarrow> es ! (s - 1) \<noteq> 0x81" if "0 < s"
      proof (cases "s = t + n")
        case True
        then have k: "t \<le> s - 1" "s - 1 < t + n" "\<not> Suc (s - 1) < t + n" "s - 1 < length es"
          using b m by auto
        then have "es ! (s - 1) = 0x01" using al by (simp add: is_alloc_nth)
        then show ?thesis using nth [OF k(4)] k by simp
      next
        case False
        then have "\<not> (t \<le> s - 1 \<and> s - 1 < t + n)" "s - 1 < length es"
          using True m that by auto
        then have "?es ! (s - 1) = es ! (s - 1)" by (simp only: nth if_False)
        then show ?thesis by simp
      qed
      ultimately show ?thesis using m b True by (auto simp: is_alloc_nth)
    next
      case False
      have "\<not> is_alloc ?es s m"
      proof
        assume a: "is_alloc ?es s m"
        have "?es ! (max s t) \<noteq> 0"
          using False m b by (intro alloc_entry_nz [OF a]) auto
        moreover have "t \<le> max s t" "max s t < t + n" "max s t < length es"
          using False m b by auto
        ultimately show False using nth [of "max s t"] by simp
      qed
      moreover have "s = t \<and> m = n" if "is_alloc es s m"
        by (rule alloc_disjoint [OF that al, of "max s t"]) (use False m b in \<open>auto simp: max_def\<close>)
      ultimately show ?thesis by auto
    qed
  qed
qed

lemma mark_free_loop_spec:
  assumes "is_alloc es s n" and "i < n"
    and "length fs = length es" and "\<And>k. s + i \<le> k \<Longrightarrow> k < s + n \<Longrightarrow> fs ! k = es ! k"
  shows "mark_free_loop fs (length es) (s + i) = Inr (blit fs (s + i) (replicate (n - i) 0))"
  using assms(2-4)
proof (induction "n - i" arbitrary: i fs)
  case 0
  then show ?case by simp
next
  case (Suc m)
  have len: "s + i < length fs" "s + n \<le> length fs" using assms(1) Suc by (auto simp: is_alloc_nth)
  have v: "fs ! (s + i) = (if Suc (s + i) < s + n then 0x81 else 0x01)"
    using assms(1) Suc by (auto simp: is_alloc_nth)
  have rep: "replicate (n - i) (0 :: byte) = 0 # replicate (n - Suc i) 0"
    using Suc.prems(1) by (simp flip: replicate_Suc add: Suc_diff_Suc)
  have one: "blit (fs[s + i := 0]) (Suc (s + i)) (replicate (n - Suc i) 0)
      = blit fs (s + i) (replicate (n - i) 0)"
    using blit_Cons [of "s + i" "replicate (n - Suc i) 0" fs 0] len Suc.prems(1) rep by simp
  show ?case
  proof (cases "Suc i < n")
    case True
    have "mark_free_loop (fs[s + i := 0]) (length es) (s + Suc i)
        = Inr (blit (fs[s + i := 0]) (s + Suc i) (replicate (n - Suc i) 0))"
      using Suc True by (intro Suc.hyps(1)) auto
    then show ?thesis
      using True len v one Suc.prems(2)
      by (subst mark_free_loop.simps) (simp add: heap_flag_defs)
  next
    case False
    then have "n = Suc i" using Suc.prems by simp
    then show ?thesis
      using len v one Suc.prems(2)
      by (subst mark_free_loop.simps) (simp add: heap_flag_defs)
  qed
qed

section \<open>Heaps\<close>

text \<open>A heap is well formed when its table is, one entry describes each block, the blocks are page
  aligned, lie behind the null page and inside of the address space, and take at most 2 GiB (pointer
  differences are signed).\<close>

definition heap_wf :: "heap \<Rightarrow> bool" where
  "heap_wf h = (table_wf (entries (table h)) \<and> length (entries (table h)) = unat (total (table h))
     \<and> start_address h mod 4096 = 0 \<and> start_address h \<noteq> 0
     \<and> unat (start_address h) + 4096 * unat (total (table h)) \<le> 2 ^ 32
     \<and> unat (total (table h)) \<le> 2 ^ 19)"

definition blocks_for :: "u32 \<Rightarrow> nat" where
  "blocks_for sz = (unat sz + 4095) div 4096"

definition block_ptr :: "heap \<Rightarrow> nat \<Rightarrow> u32" where
  "block_ptr h s = start_address h + 4096 * word_of_nat s"

definition with_entries :: "heap \<Rightarrow> byte list \<Rightarrow> heap" where
  "with_entries h es = h\<lparr>table := (table h)\<lparr>entries := es\<rparr>\<rparr>"

lemma with_entries_simps [simp]:
  "entries (table (with_entries h es)) = es" "total (table (with_entries h es)) = total (table h)"
  "start_address (with_entries h es) = start_address h"
  "with_entries (with_entries h es) fs = with_entries h fs"
  "with_entries h (entries (table h)) = h"
  "block_ptr (with_entries h es) s = block_ptr h s"
  by (simp_all add: with_entries_def block_ptr_def)

lemma with_entries_wf:
  "heap_wf h \<Longrightarrow> table_wf es \<Longrightarrow> length es = length (entries (table h)) \<Longrightarrow> heap_wf (with_entries h es)"
  by (simp add: heap_wf_def)

lemma round_up: "(n + 4095 :: nat) div 4096 = n div 4096 + (if n mod 4096 = 0 then 0 else 1)"
proof (rule div_nat_eqI)
  have n: "n = 4096 * (n div 4096) + n mod 4096" "n mod 4096 < 4096" by simp_all
  then show "4096 * (n div 4096 + (if n mod 4096 = 0 then 0 else 1)) \<le> n + 4095"
    by (simp; linarith)
  show "n + 4095 < 4096 * Suc (n div 4096 + (if n mod 4096 = 0 then 0 else 1))"
    using n by (simp; linarith)
qed

lemma unat_align_size:
  assumes "unat (sz :: u32) + 4095 < 2 ^ 32"
  shows "unat (heap_align_size sz) = 4096 * blocks_for sz"
proof -
  have m: "unat (sz mod 4096) = unat sz mod 4096" by (simp add: unat_mod)
  show ?thesis
  proof (cases "unat sz mod 4096 = 0")
    case True
    then have "sz mod 4096 = 0" using m by (simp add: unat_eq_zero)
    moreover have "unat sz = 4096 * ((unat sz + 4095) div 4096)" using True by (auto simp: round_up)
    ultimately show ?thesis by (simp add: heap_align_size_def blocks_for_def)
  next
    case False
    then have ne: "sz mod 4096 \<noteq> 0" using m by (metis unat_0)
    have le: "sz mod 4096 \<le> sz" using m by (simp add: word_le_nat_alt)
    have "unat (sz - sz mod 4096) = unat sz - unat sz mod 4096"
      using le m by (simp add: unat_sub)
    moreover have "unat sz - unat sz mod 4096 + 4096 = 4096 * ((unat sz + 4095) div 4096)"
      using False by (simp add: round_up minus_mod_eq_mult_div)
    moreover have "4096 * ((unat sz + 4095) div 4096) < 2 ^ 32" using assms by linarith
    ultimately have "unat (sz - sz mod 4096 + 4096) = 4096 * ((unat sz + 4095) div 4096)"
      by (simp add: unat_word_ariths)
    then show ?thesis using ne by (simp add: heap_align_size_def blocks_for_def)
  qed
qed

lemma total_blocks_eq:
  assumes "unat (sz :: u32) + 4095 < 2 ^ 32"
  shows "sint (heap_align_size sz div 4096) = int (blocks_for sz)"
proof (rule sint_small)
  show "unat (heap_align_size sz div 4096) = blocks_for sz"
    using unat_align_size [OF assms] by (simp add: unat_div)
  show "blocks_for sz < 2 ^ 31" using assms by (simp add: blocks_for_def)
qed

lemma block_ptr_unat:
  assumes "heap_wf h" and "s < length (entries (table h))"
  shows "unat (block_ptr h s) = unat (start_address h) + 4096 * s"
proof -
  have "4096 * s < 2 ^ 32" "unat (start_address h) + 4096 * s < 2 ^ 32" "s < 2 ^ 32"
    using assms by (auto simp: heap_wf_def)
  then show ?thesis
    by (simp add: block_ptr_def unat_word_ariths unsigned_of_nat take_bit_nat_eq_self)
qed

lemma block_ptr_nonzero:
  assumes "heap_wf h" and "s < length (entries (table h))"
  shows "block_ptr h s \<noteq> 0"
proof
  assume "block_ptr h s = 0"
  then have "unat (start_address h) = 0" using block_ptr_unat [OF assms] by simp
  then show False using assms(1) by (simp add: heap_wf_def unat_eq_zero)
qed

lemma block_ptr_aligned:
  assumes "heap_wf h" and "s < length (entries (table h))"
  shows "unat (block_ptr h s) mod 4096 = 0"
proof -
  have "unat (start_address h mod 4096) = 0" using assms by (simp add: heap_wf_def)
  then have "unat (start_address h) mod 4096 = 0" by (simp add: unat_mod)
  then show ?thesis using block_ptr_unat [OF assms] by simp
qed

lemma block_ptr_inject:
  assumes "heap_wf h" and "s < length (entries (table h))" and "t < length (entries (table h))"
    and "block_ptr h s = block_ptr h t"
  shows "s = t"
proof -
  have "unat (start_address h) + 4096 * s = unat (start_address h) + 4096 * t"
    using block_ptr_unat [OF assms(1,2)] block_ptr_unat [OF assms(1,3)] assms(4) by metis
  then show ?thesis by simp
qed

lemma address_to_block_ptr:
  assumes "heap_wf h" and "s < length (entries (table h))"
  shows "heap_address_to_block h (block_ptr h s) = int s"
proof -
  have s: "4096 * s < 2 ^ 31" using assms by (auto simp: heap_wf_def)
  have "block_ptr h s - start_address h = word_of_nat (4096 * s)"
    by (simp add: block_ptr_def)
  moreover have "unat (word_of_nat (4096 * s) :: u32) = 4096 * s"
    using s by (intro unat_of_nat_small) simp
  ultimately have "unat (block_ptr h s - start_address h) = 4096 * s" by simp
  then have "sint (block_ptr h s - start_address h) = 4096 * int s"
    using s sint_small by fastforce
  then show ?thesis
    by (simp add: heap_address_to_block_def signed_divide_int_eq_divide_int sgn_if)
qed

lemma malloc_first_fit:
  assumes wf: "heap_wf h" and sz: "0 < blocks_for sz" "unat sz + 4095 < 2 ^ 32"
    and run: "free_run (entries (table h)) t (blocks_for sz)"
    and min: "\<And>s. s < t \<Longrightarrow> \<not> free_run (entries (table h)) s (blocks_for sz)"
  shows "heap_malloc h sz
    = Inr (block_ptr h t, with_entries h (blit (entries (table h)) t (run_marks (blocks_for sz))))"
proof -
  let ?es = "entries (table h)" and ?n = "blocks_for sz"
  have len: "length ?es = unat (total (table h))" using wf by (simp add: heap_wf_def)
  have "get_start_loop ?es (length ?es) (int ?n) 0 0 (- 1) = Inr (int t)"
    using get_start_loop_first [OF run min sz(1)] by simp
  then have st: "heap_get_start_block h (int ?n) = Inr (int t)"
    using len by (simp add: heap_get_start_block_def)
  have twf: "table_wf ?es" using wf by (simp add: heap_wf_def)
  have "mark_taken_loop ?es (int t) (int ?n) 0 = Inr (blit ?es t (run_marks ?n))"
    using run is_free_wf [OF twf] mark_taken_loop_spec [of t ?n ?es 0] by (auto simp: free_run_def)
  then show ?thesis
    using st total_blocks_eq [OF sz(2)]
    by (simp add: heap_malloc_def heap_malloc_blocks_def heap_mark_blocks_taken_def
        heap_block_to_address_def block_ptr_def with_entries_def Let_def)
qed

lemma malloc_no_run:
  assumes wf: "heap_wf h" and sz: "0 < blocks_for sz" "unat sz + 4095 < 2 ^ 32"
    and none: "\<And>s. \<not> free_run (entries (table h)) s (blocks_for sz)"
  shows "heap_malloc h sz = (if entries (table h) = [] \<or> last (entries (table h)) \<noteq> 0
    then Inr (0, h) else Inl Bad_Read)"
proof -
  let ?es = "entries (table h)" and ?n = "blocks_for sz"
  have len: "length ?es = unat (total (table h))" and twf: "table_wf ?es"
    using wf by (simp_all add: heap_wf_def)
  obtain r where r: "get_start_loop ?es (length ?es) (int ?n) 0 0 (- 1) = Inr r"
    and cases: "(r = - 1 \<and> (?es = [] \<or> \<not> is_free (last ?es))) \<or>
     (\<exists>s. r = int s \<and> s < length ?es \<and> length ?es < s + ?n
        \<and> (\<forall>k. s \<le> k \<and> k < length ?es \<longrightarrow> is_free (?es ! k)))"
    using get_start_loop_none [OF none sz(1), of 0 "- 1" 0] by auto
  have st: "heap_get_start_block h (int ?n) = Inr (if r = - 1 then - ENOMEM else r)"
    using r len by (simp add: heap_get_start_block_def)
  have last_free: "is_free (last ?es) \<longleftrightarrow> last ?es = 0" if "?es \<noteq> []"
    using is_free_wf [OF twf, of "length ?es - 1"] that by (simp add: last_conv_nth)
  from cases show ?thesis
  proof
    assume c: "r = - 1 \<and> (?es = [] \<or> \<not> is_free (last ?es))"
    then have "?es = [] \<or> last ?es \<noteq> 0" using last_free by blast
    then show ?thesis
      using st c total_blocks_eq [OF sz(2)]
      by (simp add: heap_malloc_def heap_malloc_blocks_def Let_def status_defs)
  next
    assume "\<exists>s. r = int s \<and> s < length ?es \<and> length ?es < s + ?n
      \<and> (\<forall>k. s \<le> k \<and> k < length ?es \<longrightarrow> is_free (?es ! k))"
    then obtain s where s: "r = int s" "s < length ?es" "length ?es < s + ?n"
      and fr: "\<And>k. s \<le> k \<Longrightarrow> k < length ?es \<Longrightarrow> is_free (?es ! k)" by blast
    have "mark_taken_loop ?es (int s) (int ?n) 0 = Inl Bad_Read"
      using s by (intro mark_taken_loop_overrun) simp_all
    moreover have "\<not> (?es = [] \<or> last ?es \<noteq> 0)"
    proof -
      have ne: "?es \<noteq> []" using s(2) by auto
      then have "is_free (last ?es)" using fr [of "length ?es - 1"] s(2) by (simp add: last_conv_nth)
      then show ?thesis using ne last_free by simp
    qed
    ultimately show ?thesis
      using st s total_blocks_eq [OF sz(2)]
      by (auto simp: heap_malloc_def heap_malloc_blocks_def heap_mark_blocks_taken_def Let_def)
  qed
qed

lemma free_alloc:
  assumes wf: "heap_wf h" and al: "is_alloc (entries (table h)) s n"
  shows "heap_free h (block_ptr h s) = Inr (with_entries h (blit (entries (table h)) s (replicate n 0)))"
proof -
  let ?es = "entries (table h)"
  have b: "0 < n" "s + n \<le> length ?es" using alloc_bounds [OF al] by auto
  have len: "length ?es = unat (total (table h))" using wf by (simp add: heap_wf_def)
  have sl: "s < length ?es" using b by simp
  then have "s < 2 ^ 32" using wf by (auto simp: heap_wf_def)
  then have u: "unat (word_of_int (int s) :: u32) = s"
    by (simp add: unsigned_of_nat take_bit_nat_eq_self)
  have "mark_free_loop ?es (length ?es) s = Inr (blit ?es s (replicate n 0))"
    using mark_free_loop_spec [OF al b(1), of ?es] by simp
  then show ?thesis
    using address_to_block_ptr [OF wf sl] u len
    by (simp add: heap_free_def heap_mark_blocks_free_def with_entries_def)
qed


lemma alloc_covers:
  assumes wf: "table_wf es" and k: "k < length es" "es ! k \<noteq> 0"
  shows "\<exists>s n. is_alloc es s n \<and> s \<le> k \<and> k < s + n"
proof -
  have left: "\<exists>s\<le>k. (s = 0 \<or> es ! (s - 1) \<noteq> 0x81) \<and> (\<forall>j. s \<le> j \<and> j < k \<longrightarrow> es ! j = 0x81)"
    using k
  proof (induction k)
    case 0
    then show ?case by auto
  next
    case (Suc k)
    show ?case
    proof (cases "es ! k = 0x81")
      case False
      then show ?thesis by (intro exI [of _ "Suc k"]) auto
    next
      case True
      then obtain s where "s \<le> k" "s = 0 \<or> es ! (s - 1) \<noteq> 0x81"
        "\<forall>j. s \<le> j \<and> j < k \<longrightarrow> es ! j = 0x81"
        using Suc.IH Suc.prems by auto
      then show ?thesis using True by (intro exI [of _ s]) (auto simp: less_Suc_eq)
    qed
  qed
  have right: "\<exists>e\<ge>k. e < length es \<and> es ! e = 0x01 \<and> (\<forall>j. k \<le> j \<and> j < e \<longrightarrow> es ! j = 0x81)"
    using k
  proof (induction "length es - k" arbitrary: k)
    case 0
    then show ?case by simp
  next
    case (Suc d)
    show ?case
    proof (cases "es ! k = 0x81")
      case False
      then have "es ! k = 0x01" using wf Suc.prems by (auto simp: table_wf_def)
      then show ?thesis using Suc.prems by (intro exI [of _ k]) auto
    next
      case True
      then have n: "Suc k < length es" "es ! Suc k \<noteq> 0" using wf Suc.prems by (auto simp: table_wf_def)
      have "d = length es - Suc k" using Suc.hyps(2) by linarith
      then obtain e where e: "Suc k \<le> e" "e < length es" "es ! e = 0x01"
        and m: "\<And>j. Suc k \<le> j \<Longrightarrow> j < e \<Longrightarrow> es ! j = 0x81"
        using Suc.hyps(1) [of "Suc k"] n by blast
      have "es ! j = 0x81" if "k \<le> j" "j < e" for j
        using m [of j] True that by (cases "j = k") auto
      then show ?thesis using e by (intro exI [of _ e]) auto
    qed
  qed
  obtain s where s: "s \<le> k" "s = 0 \<or> es ! (s - 1) \<noteq> 0x81" "\<And>j. s \<le> j \<Longrightarrow> j < k \<Longrightarrow> es ! j = 0x81"
    using left by blast
  obtain e where e: "k \<le> e" "e < length es" "es ! e = 0x01" "\<And>j. k \<le> j \<Longrightarrow> j < e \<Longrightarrow> es ! j = 0x81"
    using right by blast
  have "is_alloc es s (Suc e - s)"
    unfolding is_alloc_nth
  proof (intro conjI allI impI)
    fix j assume j: "s \<le> j \<and> j < s + (Suc e - s)"
    show "es ! j = (if Suc j < s + (Suc e - s) then 0x81 else 0x01)"
      using j s(1,3) e by (cases "j < k"; cases "j < e") (auto simp: less_Suc_eq)
  qed (use s e in auto)
  then show ?thesis using s(1) e(1) by (intro exI [of _ s] exI [of _ "Suc e - s"]) auto
qed

section \<open>The kernel heap and the memory it manages\<close>

text \<open>The kernel runs on identity-mapped memory, one byte per 32-bit address; all of it can be written.\<close>

record kmem =
  kernel_heap :: heap
  ram :: "u32 \<Rightarrow> byte"

primrec ram_memset_loop :: "(u32 \<Rightarrow> byte) \<Rightarrow> u32 \<Rightarrow> byte \<Rightarrow> nat \<Rightarrow> (u32 \<Rightarrow> byte)" where
  "ram_memset_loop m ptr c 0 = m"
| "ram_memset_loop m ptr c (Suc n) = (ram_memset_loop m ptr c n)(ptr + word_of_nat n := c)"

definition ram_memset :: "(u32 \<Rightarrow> byte) \<Rightarrow> u32 \<Rightarrow> int \<Rightarrow> u32 \<Rightarrow> (u32 \<Rightarrow> byte)" where
  "ram_memset m ptr c sz = ram_memset_loop m ptr (word_of_int c) (unat sz)"

definition kmalloc :: "'a kmem_scheme \<Rightarrow> u32 \<Rightarrow> fault + (u32 \<times> 'a kmem_scheme)" where
  "kmalloc s sz = cbind (heap_malloc (kernel_heap s) sz) (\<lambda>(ptr, h). Inr (ptr, s\<lparr>kernel_heap := h\<rparr>))"

definition kzalloc :: "'a kmem_scheme \<Rightarrow> u32 \<Rightarrow> fault + (u32 \<times> 'a kmem_scheme)" where
  "kzalloc s sz = cbind (kmalloc s sz) (\<lambda>(ptr, s').
     if ptr = 0 then Inr (0, s') else Inr (ptr, s'\<lparr>ram := ram_memset (ram s') ptr 0 sz\<rparr>))"

definition kfree :: "'a kmem_scheme \<Rightarrow> u32 \<Rightarrow> fault + 'a kmem_scheme" where
  "kfree s ptr = cbind (heap_free (kernel_heap s) ptr) (\<lambda>h. Inr (s\<lparr>kernel_heap := h\<rparr>))"

lemma ram_memset_loop_apply:
  "n \<le> 2 ^ 32 \<Longrightarrow> ram_memset_loop m ptr c n a = (if unat (a - ptr) < n then c else m a)"
proof (induction n)
  case 0
  then show ?case by simp
next
  case (Suc n)
  have "a = ptr + word_of_nat n \<longleftrightarrow> unat (a - ptr) = n"
  proof
    assume "unat (a - ptr) = n"
    then have "a - ptr = word_of_nat n" by auto
    then show "a = ptr + word_of_nat n" by (simp add: algebra_simps)
  next
    assume "a = ptr + word_of_nat n"
    then show "unat (a - ptr) = n" using Suc.prems by (simp add: unat_of_nat_small)
  qed
  then show ?case using Suc by (auto simp: less_Suc_eq)
qed

lemma ram_memset_apply:
  "ram_memset m ptr c sz a = (if unat (a - ptr) < unat sz then word_of_int c else m a)"
proof -
  have "unat sz \<le> 2 ^ 32" using unsigned_less [of sz, where ?'a = nat] by simp
  then show ?thesis by (simp add: ram_memset_def ram_memset_loop_apply)
qed

section \<open>The allocator interface\<close>

text \<open>The addresses of a region of \<open>n\<close> pages at \<open>p\<close>.\<close>

definition region :: "u32 \<Rightarrow> nat \<Rightarrow> u32 set" where
  "region p n = {a. unat p \<le> unat a \<and> unat a < unat p + 4096 * n}"

text \<open>What a component that asks for zeroed pages relies on: every page it gets is new, aligned, zeroed
  and overlaps no region handed out before; nothing else in memory changes; and a request is served
  while a page is left.\<close>

locale page_allocator =
  fixes inv :: "'s \<Rightarrow> bool"
    and owned :: "'s \<Rightarrow> (u32 \<times> nat) set"
    and room :: "'s \<Rightarrow> nat"
    and memory :: "'s \<Rightarrow> u32 \<Rightarrow> byte"
    and zalloc :: "'s \<Rightarrow> u32 \<Rightarrow> fault + (u32 \<times> 's)"
  assumes owned_disjoint: "inv s \<Longrightarrow> (p, n) \<in> owned s \<Longrightarrow> (q, m) \<in> owned s \<Longrightarrow> (p, n) \<noteq> (q, m)
      \<Longrightarrow> region p n \<inter> region q m = {}"
    and owned_aligned: "inv s \<Longrightarrow> (p, n) \<in> owned s \<Longrightarrow> unat p mod 4096 = 0 \<and> p \<noteq> 0 \<and> 0 < n"
    and zalloc_serves: "inv s \<Longrightarrow> 0 < room s \<Longrightarrow> 0 < unat sz \<Longrightarrow> unat sz \<le> 4096 \<Longrightarrow>
      \<exists>p s'. zalloc s sz = Inr (p, s') \<and> inv s' \<and> room s = Suc (room s')
        \<and> (p, 1) \<notin> owned s \<and> owned s' = insert (p, 1) (owned s)
        \<and> memory s' = (\<lambda>a. if unat (a - p) < unat sz then 0 else memory s a)"
begin

lemma zalloc_page:
  assumes "inv s" and "0 < room s" and "0 < unat sz" and "unat sz \<le> 4096"
  obtains p s' where "zalloc s sz = Inr (p, s')" and "inv s'" and "room s = Suc (room s')"
    and "owned s' = insert (p, 1) (owned s)" and "unat p mod 4096 = 0" and "p \<noteq> 0"
    and "\<And>q n. (q, n) \<in> owned s \<Longrightarrow> region p 1 \<inter> region q n = {}"
    and "memory s' = (\<lambda>a. if unat (a - p) < unat sz then 0 else memory s a)"
proof -
  obtain p s' where z: "zalloc s sz = Inr (p, s')" "inv s'" "room s = Suc (room s')"
    "(p, 1) \<notin> owned s" "owned s' = insert (p, 1) (owned s)"
    "memory s' = (\<lambda>a. if unat (a - p) < unat sz then 0 else memory s a)"
    using zalloc_serves [OF assms] by blast
  have new: "(p, 1) \<in> owned s'" using z(5) by simp
  have disj: "region p 1 \<inter> region q n = {}" if o: "(q, n) \<in> owned s" for q n
  proof (rule owned_disjoint [OF z(2) new])
    show "(q, n) \<in> owned s'" using o z(5) by simp
    show "(p, 1) \<noteq> (q, n)" using o z(4) by auto
  qed
  have al: "unat p mod 4096 = 0" "p \<noteq> 0" using owned_aligned [OF z(2) new] by auto
  show thesis by (rule that [OF z(1-3,5) al disj z(6)])
qed

end

text \<open>The kernel heap provides this interface.\<close>

definition kmem_inv :: "'a kmem_scheme \<Rightarrow> bool" where
  "kmem_inv s = heap_wf (kernel_heap s)"

definition heap_owned :: "heap \<Rightarrow> (u32 \<times> nat) set" where
  "heap_owned h = {(block_ptr h s, n) | s n. is_alloc (entries (table h)) s n}"

definition kmem_owned :: "'a kmem_scheme \<Rightarrow> (u32 \<times> nat) set" where
  "kmem_owned s = heap_owned (kernel_heap s)"

definition heap_room :: "heap \<Rightarrow> nat" where
  "heap_room h = count_list (entries (table h)) 0"

definition kmem_room :: "'a kmem_scheme \<Rightarrow> nat" where
  "kmem_room s = heap_room (kernel_heap s)"

lemma heap_owned_disjoint:
  assumes wf: "heap_wf h" and a: "(p, n) \<in> heap_owned h" and b: "(q, m) \<in> heap_owned h"
    and ne: "(p, n) \<noteq> (q, m)"
  shows "region p n \<inter> region q m = {}"
proof -
  let ?es = "entries (table h)"
  obtain s t where s: "p = block_ptr h s" "is_alloc ?es s n" and t: "q = block_ptr h t" "is_alloc ?es t m"
    using a b by (auto simp: heap_owned_def)
  have u: "unat p = unat (start_address h) + 4096 * s" "unat q = unat (start_address h) + 4096 * t"
    using block_ptr_unat [OF wf] s t alloc_bounds [OF s(2)] alloc_bounds [OF t(2)] by auto
  have "s + n \<le> t \<or> t + m \<le> s"
  proof (rule ccontr)
    assume o: "\<not> (s + n \<le> t \<or> t + m \<le> s)"
    then have "s = t \<and> n = m"
      using alloc_bounds [OF s(2)] alloc_bounds [OF t(2)]
      by (intro alloc_disjoint [OF s(2) t(2), of "max s t"]) auto
    then show False using ne s t by simp
  qed
  then show ?thesis using u by (auto simp: region_def)
qed

lemma heap_owned_aligned:
  "heap_wf h \<Longrightarrow> (p, n) \<in> heap_owned h \<Longrightarrow> unat p mod 4096 = 0 \<and> p \<noteq> 0 \<and> 0 < n"
proof -
  assume wf: "heap_wf h" and "(p, n) \<in> heap_owned h"
  then obtain s where s: "p = block_ptr h s" "is_alloc (entries (table h)) s n"
    by (auto simp: heap_owned_def)
  then have "s < length (entries (table h))" "0 < n" using alloc_bounds [OF s(2)] by auto
  then show ?thesis using s block_ptr_aligned [OF wf] block_ptr_nonzero [OF wf] by simp
qed

lemma heap_owned_alloc:
  assumes "table_wf (entries (table h))" and "free_run (entries (table h)) t n" and "0 < n"
  shows "heap_owned (with_entries h (blit (entries (table h)) t (run_marks n)))
    = insert (block_ptr h t, n) (heap_owned h)"
  using alloc_adds [OF assms] by (auto simp: heap_owned_def)

lemma count_list_update_0:
  "k < length xs \<Longrightarrow> xs ! k = 0 \<Longrightarrow> v \<noteq> 0 \<Longrightarrow> count_list xs 0 = Suc (count_list (xs[k := v]) (0 :: byte))"
proof (induction xs arbitrary: k)
  case (Cons x xs)
  then show ?case by (cases k) auto
qed simp

lemma malloc_one_block:
  assumes wf: "heap_wf h" and room: "0 < heap_room h" and sz: "0 < unat sz" "unat sz \<le> 4096"
  obtains t where "heap_malloc h sz = Inr (block_ptr h t, with_entries h ((entries (table h))[t := 0x01]))"
    and "t < length (entries (table h))" and "entries (table h) ! t = 0"
    and "heap_wf (with_entries h ((entries (table h))[t := 0x01]))"
    and "heap_owned (with_entries h ((entries (table h))[t := 0x01])) = insert (block_ptr h t, 1) (heap_owned h)"
proof -
  let ?es = "entries (table h)"
  have twf: "table_wf ?es" using wf by (simp add: heap_wf_def)
  have one: "blocks_for sz = 1"
    unfolding blocks_for_def using sz by (intro div_nat_eqI) auto
  have fr: "free_run ?es s 1 \<longleftrightarrow> s < length ?es \<and> ?es ! s = 0" for s
    using is_free_wf [OF twf, of s] by (auto simp: free_run_def le_less_Suc_eq)
  have "0 \<in> set ?es" using room by (auto simp: heap_room_def count_list_0_iff intro: ccontr)
  then have "\<exists>s. s < length ?es \<and> ?es ! s = 0" by (simp add: in_set_conv_nth)
  then obtain t where t: "t < length ?es" "?es ! t = 0" and min: "\<And>s. s < t \<Longrightarrow> \<not> (s < length ?es \<and> ?es ! s = 0)"
    using exists_least_iff [of "\<lambda>s. s < length ?es \<and> ?es ! s = 0"] by blast
  have run: "free_run ?es t 1" using t fr by blast
  have marks: "blit ?es t (run_marks 1) = ?es[t := 0x01]"
    using t blit_snoc [of t "[]" ?es 1] by (simp add: run_marks_def)
  have "heap_malloc h sz = Inr (block_ptr h t, with_entries h (blit ?es t (run_marks 1)))"
    using malloc_first_fit [OF wf, of sz t] one run min fr sz by auto
  moreover have "heap_wf (with_entries h (?es[t := 0x01]))"
    using alloc_wf [OF twf run] marks wf by (intro with_entries_wf) auto
  moreover have "heap_owned (with_entries h (?es[t := 0x01])) = insert (block_ptr h t, 1) (heap_owned h)"
    using heap_owned_alloc [OF twf run] marks by simp
  ultimately show thesis using that t marks by auto
qed

interpretation kz: page_allocator "kmem_inv :: 'a kmem_scheme \<Rightarrow> bool" kmem_owned kmem_room ram kzalloc
proof unfold_locales
  fix s :: "'a kmem_scheme" and p q n m
  assume "kmem_inv s" "(p, n) \<in> kmem_owned s" "(q, m) \<in> kmem_owned s" "(p, n) \<noteq> (q, m)"
  then show "region p n \<inter> region q m = {}"
    unfolding kmem_inv_def kmem_owned_def by (rule heap_owned_disjoint)
next
  fix s :: "'a kmem_scheme" and p n
  assume "kmem_inv s" "(p, n) \<in> kmem_owned s"
  then show "unat p mod 4096 = 0 \<and> p \<noteq> 0 \<and> 0 < n"
    unfolding kmem_inv_def kmem_owned_def by (rule heap_owned_aligned)
next
  fix s :: "'a kmem_scheme" and sz :: u32
  assume a: "kmem_inv s" "0 < kmem_room s" "0 < unat sz" "unat sz \<le> 4096"
  let ?h = "kernel_heap s" let ?es = "entries (table (kernel_heap s))"
  have wf: "heap_wf ?h" and rm: "0 < heap_room ?h" using a by (auto simp: kmem_inv_def kmem_room_def)
  obtain t where t: "heap_malloc ?h sz = Inr (block_ptr ?h t, with_entries ?h (?es[t := 0x01]))"
    "t < length ?es" "?es ! t = 0" "heap_wf (with_entries ?h (?es[t := 0x01]))"
    "heap_owned (with_entries ?h (?es[t := 0x01])) = insert (block_ptr ?h t, 1) (heap_owned ?h)"
    by (rule malloc_one_block [OF wf rm a(3,4)])
  let ?s' = "s\<lparr>kernel_heap := with_entries ?h (?es[t := 0x01]),
    ram := ram_memset (ram s) (block_ptr ?h t) 0 sz\<rparr>"
  have "kzalloc s sz = Inr (block_ptr ?h t, ?s')"
    using t(1) block_ptr_nonzero [OF wf t(2)] by (simp add: kzalloc_def kmalloc_def)
  moreover have "kmem_inv ?s'" using t(4) by (simp add: kmem_inv_def)
  moreover have "kmem_room s = Suc (kmem_room ?s')"
    using count_list_update_0 [OF t(2,3), of 1] by (simp add: kmem_room_def heap_room_def)
  moreover have "(block_ptr ?h t, 1) \<notin> kmem_owned s"
  proof
    assume "(block_ptr ?h t, 1) \<in> kmem_owned s"
    then obtain u where u: "block_ptr ?h t = block_ptr ?h u" "is_alloc ?es u 1"
      by (auto simp: kmem_owned_def heap_owned_def)
    then have "t = u" using block_ptr_inject [OF wf t(2)] alloc_bounds [OF u(2)] by auto
    then show False using alloc_entry_nz [OF u(2), of t] t(3) by simp
  qed
  moreover have "kmem_owned ?s' = insert (block_ptr ?h t, 1) (kmem_owned s)"
    using t(5) by (simp add: kmem_owned_def)
  moreover have "ram ?s' = (\<lambda>a. if unat (a - block_ptr ?h t) < unat sz then 0 else ram s a)"
    by (rule ext) (simp add: ram_memset_apply)
  ultimately show "\<exists>p s'. kzalloc s sz = Inr (p, s') \<and> kmem_inv s' \<and> kmem_room s = Suc (kmem_room s')
        \<and> (p, 1) \<notin> kmem_owned s \<and> kmem_owned s' = insert (p, 1) (kmem_owned s)
        \<and> ram s' = (\<lambda>a. if unat (a - p) < unat sz then 0 else ram s a)"
    by blast
qed

section \<open>Reachable heaps\<close>

text \<open>A size of 0, and a size that wraps when it is rounded up, ask for no block: the heap does not change,
  whatever pointer comes back.\<close>

lemma malloc_empty_request:
  assumes "sint (heap_align_size sz div 4096) = 0" and "heap_malloc h sz = Inr (p, h')"
  shows "h' = h"
  using assms by (auto simp: heap_malloc_def heap_malloc_blocks_def heap_mark_blocks_taken_def Let_def
      mark_taken_loop.simps cbind_eq_Inr split: if_splits)

lemma blocks_for_pos: "0 < unat sz \<Longrightarrow> 0 < blocks_for sz"
  unfolding blocks_for_def using div_le_mono [of 4096 "unat sz + 4095" 4096] by simp

lemma align_size_wraps:
  assumes "2 ^ 32 \<le> unat sz + 4095 \<or> blocks_for sz = 0"
  shows "heap_align_size sz = 0"
proof -
  have b: "unat sz < 2 ^ 32" using unsigned_less [of sz, where ?'a = nat] by simp
  show ?thesis
  proof (cases "unat sz = 0")
    case True
    then show ?thesis by (simp add: heap_align_size_def unat_eq_zero)
  next
    case False
    then have "blocks_for sz \<noteq> 0" using blocks_for_pos [of sz] by simp
    then have big: "2 ^ 32 \<le> unat sz + 4095" using assms by simp
    have m: "unat (sz mod 4096) = unat sz mod 4096" by (simp add: unat_mod)
    have le: "sz mod 4096 \<le> sz" using m by (simp add: word_le_nat_alt)
    have d: "unat sz div 4096 = 1048575" using big b by (intro div_nat_eqI) auto
    have nz: "unat sz mod 4096 \<noteq> 0"
    proof
      assume "unat sz mod 4096 = 0"
      then have "unat sz = 4294963200" using d mult_div_mod_eq [of 4096 "unat sz"] by simp
      then show False using big by simp
    qed
    have "unat (sz - sz mod 4096) = unat sz - unat sz mod 4096"
      using le m by (simp only: unat_sub)
    also have "\<dots> = 4096 * (unat sz div 4096)" by (rule minus_mod_eq_mult_div)
    also have "\<dots> = 4294963200" using d by simp
    finally have "unat (sz - sz mod 4096 + 4096) = 0" by (simp add: unat_word_ariths)
    moreover have "sz mod 4096 \<noteq> 0" using m nz by (metis unat_0)
    ultimately show ?thesis by (simp add: heap_align_size_def unat_eq_zero)
  qed
qed

text \<open>What a call of \<open>heap_malloc\<close> on a well-formed heap can do.\<close>

lemma malloc_cases:
  assumes wf: "heap_wf h" and m: "heap_malloc h sz = Inr (p, h')"
  obtains "h' = h"
  | t where "free_run (entries (table h)) t (blocks_for sz)" and "0 < blocks_for sz" and "p = block_ptr h t"
    and "h' = with_entries h (blit (entries (table h)) t (run_marks (blocks_for sz)))"
proof (cases "2 ^ 32 \<le> unat sz + 4095 \<or> blocks_for sz = 0")
  case True
  then show thesis using malloc_empty_request [of sz h p h'] align_size_wraps m that(1) by simp
next
  case False
  then have sz: "0 < blocks_for sz" "unat sz + 4095 < 2 ^ 32" by auto
  show thesis
  proof (cases "\<exists>s. free_run (entries (table h)) s (blocks_for sz)")
    case True
    then obtain t where run: "free_run (entries (table h)) t (blocks_for sz)"
      and min: "\<And>s. s < t \<Longrightarrow> \<not> free_run (entries (table h)) s (blocks_for sz)"
      using exists_least_iff [of "\<lambda>s. free_run (entries (table h)) s (blocks_for sz)"] by blast
    have "heap_malloc h sz
      = Inr (block_ptr h t, with_entries h (blit (entries (table h)) t (run_marks (blocks_for sz))))"
      by (rule malloc_first_fit [OF wf sz run min])
    then show thesis using that(2) run sz(1) m by auto
  next
    case False
    then show thesis using malloc_no_run [OF wf sz] m that(1) by (auto split: if_splits)
  qed
qed

text \<open>The heaps the kernel can get into: it allocates any size, and frees what it was given.\<close>

inductive heap_reachable :: "heap \<Rightarrow> heap \<Rightarrow> bool" for h0 :: heap where
  created: "heap_reachable h0 h0"
| malloced: "heap_reachable h0 h \<Longrightarrow> heap_malloc h sz = Inr (p, h') \<Longrightarrow> heap_reachable h0 h'"
| freed: "heap_reachable h0 h \<Longrightarrow> (p, n) \<in> heap_owned h \<Longrightarrow> heap_free h p = Inr h' \<Longrightarrow> heap_reachable h0 h'"

inductive_cases heap_reachable_cases: "heap_reachable h0 h"

lemma malloc_keeps_wf:
  assumes wf: "heap_wf h" and m: "heap_malloc h sz = Inr (p, h')"
  shows "heap_wf h'"
proof -
  have twf: "table_wf (entries (table h))" using wf by (simp add: heap_wf_def)
  show ?thesis
    using m
  proof (rule malloc_cases [OF wf])
    assume "h' = h"
    then show ?thesis using wf by simp
  next
    fix t assume "free_run (entries (table h)) t (blocks_for sz)" "0 < blocks_for sz"
      "h' = with_entries h (blit (entries (table h)) t (run_marks (blocks_for sz)))"
    then show ?thesis using with_entries_wf [OF wf alloc_wf [OF twf]] by (auto simp: free_run_def)
  qed
qed

lemma free_keeps_wf:
  assumes wf: "heap_wf h" and al: "is_alloc (entries (table h)) s n"
  shows "heap_wf (with_entries h (blit (entries (table h)) s (replicate n 0)))"
proof -
  have twf: "table_wf (entries (table h))" using wf by (simp add: heap_wf_def)
  show ?thesis
    using with_entries_wf [OF wf free_removes(1) [OF twf al]] alloc_bounds [OF al] by simp
qed

lemma heap_reachable_wf:
  assumes "heap_reachable h0 h" and "heap_wf h0"
  shows "heap_wf h"
  using assms
proof (induction rule: heap_reachable.induct)
  case (freed h p n h')
  then obtain s where s: "p = block_ptr h s" "is_alloc (entries (table h)) s n"
    by (auto simp: heap_owned_def)
  then show ?case using freed free_alloc [OF _ s(2)] free_keeps_wf [OF _ s(2)] by simp
qed (auto intro: malloc_keeps_wf)

section \<open>Properties\<close>

text \<open>C19: When some run of free blocks is long enough, \<open>heap_malloc\<close> takes the first one: the pointer is not
  null and page aligned, the heap stays well formed and its allocations are the old ones and the new one.\<close>

theorem heap_malloc_first_fit:
  assumes "heap_wf h" and "0 < unat sz" and "unat sz + 4095 < 2 ^ 32"
    and "free_run (entries (table h)) t (blocks_for sz)"
    and "\<And>s. s < t \<Longrightarrow> \<not> free_run (entries (table h)) s (blocks_for sz)"
  shows "\<exists>h'. heap_malloc h sz = Inr (block_ptr h t, h') \<and> heap_wf h'
    \<and> block_ptr h t \<noteq> 0 \<and> unat (block_ptr h t) mod 4096 = 0
    \<and> (\<forall>s n. is_alloc (entries (table h')) s n
        = (is_alloc (entries (table h)) s n \<or> (s = t \<and> n = blocks_for sz)))"
proof -
  have pos: "0 < blocks_for sz" by (rule blocks_for_pos [OF assms(2)])
  have twf: "table_wf (entries (table h))" using assms(1) by (simp add: heap_wf_def)
  have t: "t < length (entries (table h))" using assms(4) pos by (simp add: free_run_def)
  note m = malloc_first_fit [OF assms(1) pos assms(3,4,5)]
  show ?thesis
    using m malloc_keeps_wf [OF assms(1) m] block_ptr_nonzero [OF assms(1) t]
      block_ptr_aligned [OF assms(1) t] alloc_adds [OF twf assms(4) pos] by auto
qed

definition small_heap :: heap where
  "small_heap = \<lparr>table = \<lparr>entries = [1, 0, 0x81, 1, 0, 0], total = 6\<rparr>, start_address = 0x1000000\<rparr>"

lemma free_run_code [code]:
  "free_run es s n = (s + n \<le> length es \<and> list_all is_free (take n (drop s es)))"
proof -
  have "(\<forall>k. s \<le> k \<and> k < s + n \<longrightarrow> is_free (es ! k)) = list_all is_free (take n (drop s es))"
    if "s + n \<le> length es"
  proof
    assume a: "list_all is_free (take n (drop s es))"
    have "is_free (es ! k)" if "s \<le> k" "k < s + n" for k
      using a that \<open>s + n \<le> length es\<close> by (auto simp: list_all_length dest!: spec [of _ "k - s"])
    then show "\<forall>k. s \<le> k \<and> k < s + n \<longrightarrow> is_free (es ! k)" by blast
  qed (use that in \<open>auto simp: list_all_length\<close>)
  then show ?thesis by (auto simp: free_run_def)
qed

lemma small_heap_wf: "heap_wf small_heap"
proof -
  have "table_wf (entries (table small_heap))" by code_simp
  then show ?thesis by (simp add: heap_wf_def small_heap_def)
qed

lemma small_heap_runs: "\<forall>s<6. free_run (entries (table small_heap)) s 2 = (s = 4)"
  "\<forall>s<4. \<not> free_run (entries (table small_heap)) s 3"
  by (simp_all add: all_less_upt upt_rec small_heap_def free_run_code is_free_def heap_get_entry_type_def heap_flag_defs)

lemma small_heap_alloc: "is_alloc (entries (table small_heap)) 2 2"
  by code_simp

lemma small_heap_blocks: "blocks_for 5000 = 2" "blocks_for 8193 = 3" "blocks_for 4096 = 1" "blocks_for 100 = 1"
  by (simp_all add: blocks_for_def)

theorem heap_malloc_first_fit_witness:
  "\<exists>h'. heap_malloc small_heap 5000 = Inr (block_ptr small_heap 4, h') \<and> heap_wf h'
    \<and> block_ptr small_heap 4 \<noteq> 0 \<and> unat (block_ptr small_heap 4) mod 4096 = 0
    \<and> (\<forall>s n. is_alloc (entries (table h')) s n
        = (is_alloc (entries (table small_heap)) s n \<or> (s = 4 \<and> n = blocks_for 5000)))"
  using small_heap_runs(1) by (intro heap_malloc_first_fit) (auto simp: small_heap_wf small_heap_blocks)

text \<open>C37: When no run of free blocks is long enough, \<open>heap_malloc\<close> returns NULL and leaves the heap as it was
  if the table is empty or its last block is taken.  If its last block is free, the search hands out the free
  blocks at the end although they are too few, and marking them runs past the end of the table.\<close>

theorem heap_malloc_exhausted:
  assumes "heap_wf h" and "0 < unat sz" and "unat sz + 4095 < 2 ^ 32"
    and "\<And>s. \<not> free_run (entries (table h)) s (blocks_for sz)"
  shows "heap_malloc h sz = (if entries (table h) = [] \<or> last (entries (table h)) \<noteq> 0
    then Inr (0, h) else Inl Bad_Read)"
  by (rule malloc_no_run [OF assms(1) blocks_for_pos [OF assms(2)] assms(3,4)])

theorem heap_malloc_exhausted_witness:
  "heap_malloc small_heap 8193 = (if entries (table small_heap) = [] \<or> last (entries (table small_heap)) \<noteq> 0
    then Inr (0, small_heap) else Inl Bad_Read)"
proof (rule heap_malloc_exhausted [OF small_heap_wf])
  show "\<not> free_run (entries (table small_heap)) s (blocks_for 8193)" for s
    using small_heap_runs(2) by (cases "s < 4") (auto simp: small_heap_blocks free_run_def small_heap_def)
qed simp_all

text \<open>\<open>heap_free\<close> of a pointer that was handed out frees exactly that allocation: all its blocks are free
  again, every other allocation is untouched, and the heap stays well formed.\<close>

theorem heap_free_exact:
  assumes "heap_wf h" and "is_alloc (entries (table h)) t n"
  shows "\<exists>h'. heap_free h (block_ptr h t) = Inr h' \<and> heap_wf h' \<and> free_run (entries (table h')) t n
    \<and> (\<forall>s m. is_alloc (entries (table h')) s m = (is_alloc (entries (table h)) s m \<and> \<not> (s = t \<and> m = n)))"
proof -
  have twf: "table_wf (entries (table h))" using assms(1) by (simp add: heap_wf_def)
  show ?thesis
    using free_alloc [OF assms] free_keeps_wf [OF assms] free_removes(2,3) [OF twf assms(2)] by auto
qed

theorem heap_free_exact_witness:
  "\<exists>h'. heap_free small_heap (block_ptr small_heap 2) = Inr h' \<and> heap_wf h' \<and> free_run (entries (table h')) 2 2
    \<and> (\<forall>s m. is_alloc (entries (table h')) s m
        = (is_alloc (entries (table small_heap)) s m \<and> \<not> (s = 2 \<and> m = 2)))"
  by (rule heap_free_exact [OF small_heap_wf small_heap_alloc])

text \<open>Freeing what was just allocated restores the heap, table and all.\<close>

theorem heap_malloc_free:
  assumes "heap_wf h" and "0 < unat sz" and "unat sz + 4095 < 2 ^ 32"
    and "free_run (entries (table h)) t (blocks_for sz)"
  shows "\<exists>p h'. heap_malloc h sz = Inr (p, h') \<and> p \<noteq> 0 \<and> h' \<noteq> h \<and> heap_free h' p = Inr h"
proof -
  let ?es = "entries (table h)" and ?n = "blocks_for sz"
  have pos: "0 < ?n" by (rule blocks_for_pos [OF assms(2)])
  have twf: "table_wf ?es" using assms(1) by (simp add: heap_wf_def)
  obtain t where run: "free_run ?es t ?n" and min: "\<And>s. s < t \<Longrightarrow> \<not> free_run ?es s ?n"
    using exists_least_iff [of "\<lambda>s. free_run ?es s ?n"] assms(4) by blast
  let ?fs = "blit ?es t (run_marks ?n)"
  have b: "t + ?n \<le> length ?es" using run by (simp add: free_run_def)
  have z: "?es ! k = 0" if "t \<le> k" "k < t + ?n" for k
    using run is_free_wf [OF twf, of k] that b by (simp add: free_run_def)
  note m = malloc_first_fit [OF assms(1) pos assms(3) run min]
  have al: "is_alloc ?fs t ?n" using alloc_adds [OF twf run pos] by blast
  have wf': "heap_wf (with_entries h ?fs)" by (rule malloc_keeps_wf [OF assms(1) m])
  have "blit ?fs t (replicate ?n 0) = ?es"
    using b z by (intro nth_equalityI) (auto simp: nth_blit)
  moreover have "?fs \<noteq> ?es" using alloc_entry_nz [OF al, of t] z [of t] pos by auto
  then have "with_entries h ?fs \<noteq> h" by (metis with_entries_simps(1))
  ultimately show ?thesis
    using m free_alloc [OF wf', of t ?n] al block_ptr_nonzero [OF assms(1), of t] b pos
    by (intro exI conjI) auto
qed

theorem heap_malloc_free_witness:
  "\<exists>p h'. heap_malloc small_heap 4096 = Inr (p, h') \<and> p \<noteq> 0 \<and> h' \<noteq> small_heap \<and> heap_free h' p = Inr small_heap"
proof (rule heap_malloc_free [OF small_heap_wf])
  show "free_run (entries (table small_heap)) 1 (blocks_for 4096)"
    unfolding small_heap_blocks
    by (simp add: small_heap_def free_run_code is_free_def heap_get_entry_type_def heap_flag_defs)
qed simp_all


lemma count_list_replicate: "count_list (replicate n x) x = n"
  by (induction n) simp_all

lemma small_heap_malloced:
  "heap_malloc small_heap 100 = Inr (0x1001000, with_entries small_heap [1, 1, 0x81, 1, 0, 0])"
  by code_simp


text \<open>\<open>kheap_init\<close> refuses a range that is not page aligned, and turns any other range behind the null
  page, of at most 2 GiB and within memory that holds the table, into a well-formed heap with no allocation
  and a block for each page.\<close>

theorem kheap_init_result:
  assumes "unat start + unat sz < 2 ^ 32" and "0 < unat start" and "unat sz \<le> 2 ^ 31"
    and "length table_memory = unat sz div 4096"
  shows "\<exists>h. if unat start mod 4096 \<noteq> 0 \<or> unat sz mod 4096 \<noteq> 0
    then kheap_init h0 table_memory start sz = Inr (- EINVARG, h0)
    else kheap_init h0 table_memory start sz = Inr (0, h) \<and> heap_wf h \<and> heap_owned h = {}
      \<and> start_address h = start \<and> heap_room h = unat sz div 4096"
proof -
  have e: "unat (start + sz) = unat start + unat sz" using assms(1) by (rule unat_add_small)
  have al: "heap_validate_alignment a \<longleftrightarrow> unat a mod 4096 = 0" for a
    by (simp add: heap_validate_alignment_def unat_mod flip: unat_eq_zero)
  let ?es = "replicate (unat sz div 4096) (0 :: byte)"
  let ?h = "\<lparr>table = \<lparr>entries = ?es, total = sz div 4096\<rparr>, start_address = start\<rparr>"
  have tot: "unat (sz div 4096) = unat sz div 4096" by (simp add: unat_div)
  show ?thesis
  proof (cases "unat start mod 4096 \<noteq> 0 \<or> unat sz mod 4096 \<noteq> 0")
    case True
    then have "unat start mod 4096 \<noteq> 0 \<or> unat (start + sz) mod 4096 \<noteq> 0"
      unfolding e by (cases "unat start mod 4096 = 0") (simp_all add: mod_add_eq [symmetric, of "unat start"])
    then show ?thesis using True al by (auto simp: kheap_init_def heap_create_def Let_def)
  next
    case False
    then have "heap_validate_alignment start" "heap_validate_alignment (start + sz)"
      using e al by auto
    moreover have "memset table_memory 0 0 (unat sz div 4096) = Inr ?es"
      using memset_full [of table_memory] assms(4) by simp
    ultimately have k: "kheap_init h0 table_memory start sz
        = Inr (0, h0\<lparr>start_address := start, table := \<lparr>entries = ?es, total = sz div 4096\<rparr>\<rparr>)"
      using tot by (simp add: kheap_init_def heap_create_def heap_validate_table_def Let_def heap_flag_defs)
    have "h0\<lparr>start_address := start, table := \<lparr>entries = ?es, total = sz div 4096\<rparr>\<rparr> = ?h" by simp
    moreover have "heap_wf ?h"
      using assms(1-3) tot False al \<open>heap_validate_alignment start\<close>
      by (auto simp: heap_wf_def table_wf_def heap_validate_alignment_def)
    moreover have "heap_owned ?h = {}"
    proof -
      have False if "is_alloc ?es s n" for s n
        using alloc_entry_nz [OF that, of s] alloc_bounds [OF that] by simp
      then show ?thesis by (auto simp: heap_owned_def)
    qed
    moreover have "heap_room ?h = unat sz div 4096" by (simp add: heap_room_def count_list_replicate)
    ultimately show ?thesis using k False by (intro exI [of _ ?h]) simp
  qed
qed

theorem kheap_init_result_witness:
  "\<exists>h. if unat (0x1000000 :: u32) mod 4096 \<noteq> 0 \<or> unat (0x3000 :: u32) mod 4096 \<noteq> 0
    then kheap_init small_heap [7, 8, 9] 0x1000000 0x3000 = Inr (- EINVARG, small_heap)
    else kheap_init small_heap [7, 8, 9] 0x1000000 0x3000 = Inr (0, h) \<and> heap_wf h \<and> heap_owned h = {}
      \<and> start_address h = 0x1000000 \<and> heap_room h = unat (0x3000 :: u32) div 4096"
  by (rule kheap_init_result) simp_all

end
