(* ===== verification/KString.thy ===== *)
theory KString
  imports Memory "HOL-Library.Signed_Division"
begin

text \<open>
  The string library of the kernel, \<^verbatim>\<open>src/src/kernel/common/string.c\<close>.  A \<open>const char*\<close> is the
  object it points into, from the pointed-to byte on; a \<open>char*\<close> that is written through is an object
  and an offset.  All loops read and write through \<open>rd\<close> and \<open>wr\<close>, so a missing terminator or a
  short destination shows as a fault.  The loops stop because each round moves an index up in an
  object, which faults at its end.
\<close>

section \<open>Lengths\<close>

function strlen_loop :: "byte list \<Rightarrow> nat \<Rightarrow> fault + nat" where
  "strlen_loop str len =
     cbind (rd str len) (\<lambda>c. if c \<noteq> 0 then strlen_loop str (Suc len) else Inr len)"
  by pat_completeness auto
termination
  by (relation "measure (\<lambda>(str, len). length str - len)") (auto simp: rd_eq_Inr)

definition strlen :: "byte list \<Rightarrow> fault + nat" where
  "strlen str = strlen_loop str 0"

function strnlen_loop :: "byte list \<Rightarrow> nat \<Rightarrow> nat \<Rightarrow> fault + nat" where
  "strnlen_loop str max_len len =
     (if len < max_len
      then cbind (rd str len) (\<lambda>c. if c = 0 then Inr len else strnlen_loop str max_len (Suc len))
      else Inr max_len)"
  by pat_completeness auto
termination
  by (relation "measure (\<lambda>(str, max_len, len). max_len - len)") auto

definition strnlen :: "byte list \<Rightarrow> nat \<Rightarrow> fault + nat" where
  "strnlen str max_len = strnlen_loop str max_len 0"

function strnlen_terminator_loop :: "byte list \<Rightarrow> nat \<Rightarrow> byte \<Rightarrow> nat \<Rightarrow> fault + nat" where
  "strnlen_terminator_loop str m terminator i =
     (if i < m
      then cbind (rd str i) (\<lambda>c. if c = 0 \<or> c = terminator then Inr i
             else strnlen_terminator_loop str m terminator (Suc i))
      else Inr i)"
  by pat_completeness auto
termination
  by (relation "measure (\<lambda>(str, m, t, i). m - i)") auto

definition strnlen_terminator :: "byte list \<Rightarrow> int \<Rightarrow> byte \<Rightarrow> fault + nat" where
  "strnlen_terminator str m terminator = strnlen_terminator_loop str (nat m) terminator 0"

section \<open>Copying and reversing\<close>

function strcpy_loop :: "byte list \<Rightarrow> nat \<Rightarrow> byte list \<Rightarrow> nat \<Rightarrow> fault + byte list" where
  "strcpy_loop dest d src k =
     cbind (rd src k) (\<lambda>c.
       if c \<noteq> 0 then cbind (wr dest (d + k) c) (\<lambda>dest'. strcpy_loop dest' d src (Suc k))
       else wr dest (d + k) 0)"
  by pat_completeness auto
termination
  by (relation "measure (\<lambda>(dest, d, src, k). length src - k)") (auto simp: rd_eq_Inr)

definition strcpy :: "byte list \<Rightarrow> nat \<Rightarrow> byte list \<Rightarrow> fault + byte list" where
  "strcpy dest d src = strcpy_loop dest d src 0"

function strncpy_loop :: "byte list \<Rightarrow> nat \<Rightarrow> byte list \<Rightarrow> int \<Rightarrow> nat \<Rightarrow> fault + byte list" where
  "strncpy_loop dest d src n i =
     (if int i < n - 1
      then cbind (rd src i) (\<lambda>c.
             if c = 0 then wr dest (d + i) 0
             else cbind (wr dest (d + i) c) (\<lambda>dest'. strncpy_loop dest' d src n (Suc i)))
      else wr dest (d + i) 0)"
  by pat_completeness auto
termination
  by (relation "measure (\<lambda>(dest, d, src, n, i). nat (n - 1) - i)") auto

definition strncpy :: "byte list \<Rightarrow> nat \<Rightarrow> byte list \<Rightarrow> int \<Rightarrow> fault + byte list" where
  "strncpy dest d src n = strncpy_loop dest d src n 0"

function strrev_loop :: "byte list \<Rightarrow> nat \<Rightarrow> nat \<Rightarrow> fault + byte list" where
  "strrev_loop str i j =
     (if j < i
      then cbind (rd str i) (\<lambda>ch. cbind (rd str j) (\<lambda>c. cbind (wr str i c) (\<lambda>str1.
           cbind (wr str1 j ch) (\<lambda>str2. strrev_loop str2 (i - 1) (Suc j)))))
      else Inr str)"
  by pat_completeness auto
termination
  by (relation "measure (\<lambda>(str, i, j). i - j)") auto

text \<open>\<open>strrev\<close> of a non-null pointer; the null pointer is returned unchanged by the code.\<close>

definition strrev :: "byte list \<Rightarrow> fault + byte list" where
  "strrev str =
     cbind (rd str 0) (\<lambda>c. if c = 0 then Inr str
       else cbind (strlen str) (\<lambda>n. strrev_loop str (n - 1) 0))"

section \<open>Comparing\<close>

fun strncmp_loop :: "byte list \<Rightarrow> byte list \<Rightarrow> nat \<Rightarrow> nat \<Rightarrow> fault + int" where
  "strncmp_loop str1 str2 i 0 = Inr 0"
| "strncmp_loop str1 str2 i (Suc n) =
     cbind (rd str1 i) (\<lambda>u1. cbind (rd str2 i) (\<lambda>u2.
       if u1 \<noteq> u2 then Inr (uint u1 - uint u2)
       else if u1 = 0 then Inr 0
       else strncmp_loop str1 str2 (Suc i) n))"

definition strncmp :: "byte list \<Rightarrow> byte list \<Rightarrow> int \<Rightarrow> fault + int" where
  "strncmp str1 str2 n = strncmp_loop str1 str2 0 (nat n)"

definition strcmp :: "byte list \<Rightarrow> byte list \<Rightarrow> fault + int" where
  "strcmp str1 str2 = cbind (strlen str1) (\<lambda>n. strncmp str1 str2 (int n))"

text \<open>\<open>char\<close> is signed on this target.\<close>

definition tolower :: "byte \<Rightarrow> byte" where
  "tolower c = (if 65 \<le> sint c \<and> sint c \<le> 90 then c + 32 else c)"

fun istrncmp_loop :: "byte list \<Rightarrow> byte list \<Rightarrow> nat \<Rightarrow> nat \<Rightarrow> fault + int" where
  "istrncmp_loop str1 str2 i 0 = Inr 0"
| "istrncmp_loop str1 str2 i (Suc n) =
     cbind (rd str1 i) (\<lambda>u1. cbind (rd str2 i) (\<lambda>u2.
       if u1 \<noteq> u2 \<and> tolower u1 \<noteq> tolower u2 then Inr (uint u1 - uint u2)
       else if u1 = 0 then Inr 0
       else istrncmp_loop str1 str2 (Suc i) n))"

definition istrncmp :: "byte list \<Rightarrow> byte list \<Rightarrow> int \<Rightarrow> fault + int" where
  "istrncmp str1 str2 n = istrncmp_loop str1 str2 0 (nat n)"

definition is_digit :: "byte \<Rightarrow> bool" where
  "is_digit c = (48 \<le> sint c \<and> sint c \<le> 57)"

definition to_numeric_digit :: "byte \<Rightarrow> int" where
  "to_numeric_digit c = sint c - 48"

section \<open>Numbers to strings\<close>

text \<open>\<open>(rem > 9) ? (rem-10) + 'a' : rem + '0'\<close>\<close>

definition digit_char :: "int \<Rightarrow> byte" where
  "digit_char r = word_of_int (if 9 < r then r - 10 + 97 else r + 48)"

text \<open>\<open>long\<close> is 32 bits wide; \<open>num\<close> is its value.  The quotient and remainder truncate towards zero.
  \<open>LONG_MIN\<close> has no negation, and no quotient by \<open>-1\<close>.\<close>

function itoa_loop :: "byte list \<Rightarrow> nat \<Rightarrow> int \<Rightarrow> int \<Rightarrow> fault + (byte list \<times> nat)" where
  "itoa_loop str idx num base =
     (if num \<noteq> 0
      then if base = 0 then Inl Div_By_Zero
           else if num = - (2 ^ 31) \<and> base = - 1 then Inl Overflow
           else cbind (wr str idx (digit_char (num smod base)))
                  (\<lambda>str'. itoa_loop str' (Suc idx) (num sdiv base) base)
      else Inr (str, idx))"
  by pat_completeness auto
termination
  by (relation "measure (\<lambda>(str, idx, num, base). length str - idx)") (auto simp: wr_eq_Inr)

definition itoa :: "int \<Rightarrow> byte list \<Rightarrow> int \<Rightarrow> fault + byte list" where
  "itoa num str base =
     (if num = 0 then cbind (wr str 0 48) (\<lambda>str'. wr str' 1 0)
      else let negative = (num < 0 \<and> base = 10) in
        cbind (if negative then if num = - (2 ^ 31) then Inl Overflow else Inr (- num) else Inr num)
          (\<lambda>num'. cbind (itoa_loop str 0 num' base) (\<lambda>(str1, idx).
           cbind (if negative then cbind (wr str1 idx 45) (\<lambda>s. Inr (s, Suc idx))
                  else Inr (str1, idx)) (\<lambda>(str2, idx2).
           cbind (wr str2 idx2 0) strrev))))"

text \<open>\<open>base\<close> is converted to \<open>unsigned long\<close> for the division, the remainder back to \<open>long\<close>.\<close>

function uitoa_loop :: "byte list \<Rightarrow> nat \<Rightarrow> u32 \<Rightarrow> int \<Rightarrow> fault + (byte list \<times> nat)" where
  "uitoa_loop str idx num base =
     (if num \<noteq> 0
      then if word_of_int base = (0 :: u32) then Inl Div_By_Zero
           else cbind (wr str idx (digit_char (sint (num mod word_of_int base))))
                  (\<lambda>str'. uitoa_loop str' (Suc idx) (num div word_of_int base) base)
      else Inr (str, idx))"
  by pat_completeness auto
termination
  by (relation "measure (\<lambda>(str, idx, num, base). length str - idx)") (auto simp: wr_eq_Inr)

definition uitoa :: "u32 \<Rightarrow> byte list \<Rightarrow> int \<Rightarrow> fault + byte list" where
  "uitoa num str base =
     (if num = 0 then cbind (wr str 0 48) (\<lambda>str'. wr str' 1 0)
      else cbind (uitoa_loop str 0 num base) (\<lambda>(str1, idx). cbind (wr str1 idx 0) strrev))"

declare strlen_loop.simps [simp del] strnlen_loop.simps [simp del]
  strnlen_terminator_loop.simps [simp del] strcpy_loop.simps [simp del]
  strncpy_loop.simps [simp del] strrev_loop.simps [simp del] itoa_loop.simps [simp del]
  uitoa_loop.simps [simp del]

section \<open>What the functions compute\<close>

lemma strlen_loop_spec:
  assumes "has_nul s" and "k \<le> length (cstr s)"
  shows "strlen_loop s k = Inr (length (cstr s))"
  using assms
proof (induction s k rule: strlen_loop.induct)
  case (1 str len)
  show ?case
  proof (cases "len = length (cstr str)")
    case True
    then show ?thesis
      using "1.prems" cstr_length cstr_nul by (simp add: strlen_loop.simps [of str])
  next
    case False
    then have l: "len < length (cstr str)" using "1.prems" by simp
    then have "rd str len = Inr (str ! len)" and "str ! len \<noteq> 0"
      using cstr_length_le [of str] cstr_nonzero by auto
    then show ?thesis
      using "1.IH" "1.prems" l by (simp add: strlen_loop.simps [of str])
  qed
qed

lemma strlen_loop_fault:
  assumes "\<not> has_nul s"
  shows "strlen_loop s k = Inl Bad_Read"
  using assms
proof (induction s k rule: strlen_loop.induct)
  case (1 str len)
  show ?case
  proof (cases "len < length str")
    case True
    then have "str ! len \<noteq> 0" using "1.prems" nth_mem unfolding has_nul_def by force
    then show ?thesis
      using "1.IH" "1.prems" True by (simp add: strlen_loop.simps [of str])
  next
    case False
    then show ?thesis by (simp add: strlen_loop.simps [of str])
  qed
qed

lemma strlen_spec: "strlen s = (if has_nul s then Inr (length (cstr s)) else Inl Bad_Read)"
  by (simp add: strlen_def strlen_loop_spec strlen_loop_fault)

lemma strcpy_loop_spec:
  assumes "has_nul src" and "k \<le> length (cstr src)" and "d + length (cstr src) < length dest"
  shows "strcpy_loop dest d src k = Inr (blit dest (d + k) (drop k (cstr src) @ [0]))"
  using assms
proof (induction dest d src k rule: strcpy_loop.induct)
  case (1 dest d src k)
  have r: "rd src k = Inr (src ! k)"
    using "1.prems" cstr_length [of src] by simp
  show ?case
  proof (cases "k = length (cstr src)")
    case True
    then have "src ! k = 0" using "1.prems" cstr_nul by simp
    moreover have "dest[d + k := 0] = blit dest (d + k) [0]"
      using blit_snoc [of "d + k" "[]" dest 0] True "1.prems" by simp
    ultimately show ?thesis
      using r True "1.prems" by (simp add: strcpy_loop.simps [of dest])
  next
    case False
    then have k: "k < length (cstr src)" using "1.prems" by simp
    then have nz: "src ! k \<noteq> 0" using cstr_nonzero by blast
    have w: "wr dest (d + k) (src ! k) = Inr (dest[d + k := src ! k])"
      using "1.prems" k by simp
    have "strcpy_loop (dest[d + k := src ! k]) d src (Suc k)
        = Inr (blit (dest[d + k := src ! k]) (d + Suc k) (drop (Suc k) (cstr src) @ [0]))"
      using "1.IH" [OF r nz w] "1.prems" k by simp
    also have "\<dots> = Inr (blit dest (d + k) (src ! k # drop (Suc k) (cstr src) @ [0]))"
      using "1.prems" k blit_Cons [of "d + k" "drop (Suc k) (cstr src) @ [0]" dest "src ! k"]
      by simp
    also have "src ! k # drop (Suc k) (cstr src) = drop k (cstr src)"
      using k by (metis Cons_nth_drop_Suc cstr_nth)
    then have "src ! k # drop (Suc k) (cstr src) @ [0] = drop k (cstr src) @ [0]"
      by (metis append_Cons)
    finally show ?thesis
      using r nz w by (simp add: strcpy_loop.simps [of dest])
  qed
qed

lemma strcpy_spec:
  "has_nul src \<Longrightarrow> d + length (cstr src) < length dest \<Longrightarrow>
   strcpy dest d src = Inr (blit dest d (cstr src @ [0]))"
  by (simp add: strcpy_def strcpy_loop_spec)

lemma strncpy_loop_spec:
  assumes "int i \<le> max 0 (n - 1)" and "i \<le> length (cstr src)"
    and "int (length (cstr src)) < n - 1 \<longrightarrow> has_nul src"
    and "d + min (length (cstr src)) (nat (n - 1)) < length dest"
  shows "strncpy_loop dest d src n i
    = Inr (blit dest (d + i) (drop i (take (nat (n - 1)) (cstr src)) @ [0]))"
  using assms
proof (induction dest d src n i rule: strncpy_loop.induct)
  case (1 dest d src n i)
  have fin: "dest[d + i := 0] = blit dest (d + i) [0]" if "d + i < length dest"
    using blit_snoc [of "d + i" "[]" dest 0] that by simp
  show ?case
  proof (cases "int i < n - 1")
    case True
    show ?thesis
    proof (cases "i = length (cstr src)")
      case True2: True
      then have "has_nul src" using "1.prems" True by simp
      then have "rd src i = Inr 0"
        using True2 cstr_length cstr_nul by (simp add: rd_def)
      moreover have "d + i < length dest" using "1.prems" True True2 by simp
      ultimately show ?thesis
        using True True2 fin by (simp add: strncpy_loop.simps [of dest])
    next
      case False
      then have i: "i < length (cstr src)" using "1.prems" by simp
      then have r: "rd src i = Inr (src ! i)" and nz: "src ! i \<noteq> 0"
        using cstr_length_le [of src] cstr_nonzero by auto
      have "i < nat (n - 1)" using True by simp
      then have di: "d + i < length dest" using "1.prems"(4) i by linarith
      then have w: "wr dest (d + i) (src ! i) = Inr (dest[d + i := src ! i])" by simp
      let ?t = "take (nat (n - 1)) (cstr src)"
      have "length ?t = min (length (cstr src)) (nat (n - 1))" by simp
      then have it: "i < length ?t" using i \<open>i < nat (n - 1)\<close> by simp
      have sp: "d + i + length (drop (Suc i) ?t @ [0::byte]) < length dest"
        using "1.prems"(4) it by (simp add: min_def split: if_splits)
      have "strncpy_loop (dest[d + i := src ! i]) d src n (Suc i)
          = Inr (blit (dest[d + i := src ! i]) (d + Suc i) (drop (Suc i) ?t @ [0]))"
        using "1.IH" [OF True r nz w] "1.prems" i True by simp
      also have "\<dots> = Inr (blit dest (d + i) (src ! i # drop (Suc i) ?t @ [0]))"
        using sp blit_Cons [of "d + i" "drop (Suc i) ?t @ [0]" dest "src ! i"] by simp
      also have "src ! i # drop (Suc i) ?t = drop i ?t"
        using it cstr_nth [OF i] by (metis Cons_nth_drop_Suc \<open>i < nat (n - 1)\<close> nth_take)
      then have "src ! i # drop (Suc i) ?t @ [0] = drop i ?t @ [0]"
        by (metis append_Cons)
      finally show ?thesis
        using True r nz w by (simp add: strncpy_loop.simps [of dest])
    qed
  next
    case False
    then have "d + i < length dest" using "1.prems" by linarith
    moreover have "drop i (take (nat (n - 1)) (cstr src)) = []" using False by simp
    ultimately show ?thesis
      using False fin by (simp add: strncpy_loop.simps [of dest])
  qed
qed

lemma strncpy_spec:
  assumes "int (length (cstr src)) < n - 1 \<longrightarrow> has_nul src"
    and "d + min (length (cstr src)) (nat (n - 1)) < length dest"
  shows "strncpy dest d src n = Inr (blit dest d (take (nat (n - 1)) (cstr src) @ [0]))"
  using strncpy_loop_spec [of 0 n src d dest] assms by (simp add: strncpy_def)


lemma strrev_loop_spec:
  assumes "i < length str"
  shows "\<exists>r. strrev_loop str i j = Inr r \<and> length r = length str
    \<and> (\<forall>k<length str. r ! k = (if j \<le> k \<and> k \<le> i then str ! (i + j - k) else str ! k))"
  using assms
proof (induction str i j rule: strrev_loop.induct)
  case (1 str i j)
  show ?case
  proof (cases "j < i")
    case True
    let ?s1 = "str[i := str ! j]" and ?s2 = "str[i := str ! j, j := str ! i]"
    have j: "j < length str" using True "1.prems" by simp
    have "\<exists>r. strrev_loop ?s2 (i - 1) (Suc j) = Inr r \<and> length r = length ?s2
      \<and> (\<forall>k<length ?s2. r ! k
            = (if Suc j \<le> k \<and> k \<le> i - 1 then ?s2 ! (i - 1 + Suc j - k) else ?s2 ! k))"
      using "1.IH" [OF True, of "str ! i" "str ! j" ?s1 ?s2] "1.prems" j by simp
    then obtain r where r: "strrev_loop ?s2 (i - 1) (Suc j) = Inr r" "length r = length str"
      and n: "\<And>k. k < length str \<Longrightarrow> r ! k
        = (if Suc j \<le> k \<and> k \<le> i - 1 then ?s2 ! (i - 1 + Suc j - k) else ?s2 ! k)"
      by auto
    have "r ! k = (if j \<le> k \<and> k \<le> i then str ! (i + j - k) else str ! k)"
      if "k < length str" for k
      using n [OF that] True "1.prems" j by (auto simp: nth_list_update)
    then show ?thesis
      using r True "1.prems" j by (auto simp: strrev_loop.simps [of str])
  next
    case False
    have "str ! k = (if j \<le> k \<and> k \<le> i then str ! (i + j - k) else str ! k)" for k
    proof (cases "j \<le> k \<and> k \<le> i")
      case True
      then have "k = i" "j = i" using False by simp_all
      then show ?thesis by simp
    qed auto
    then show ?thesis using False by (simp add: strrev_loop.simps [of str])
  qed
qed

lemma strrev_spec:
  assumes "has_nul str"
  shows "strrev str = Inr (rev (cstr str) @ drop (length (cstr str)) str)"
proof (cases "str ! 0 = 0")
  case True
  have "0 < length str" using assms by (auto simp: has_nul_def)
  moreover from this True have "cstr str = []" unfolding cstr_def by (cases str) auto
  ultimately show ?thesis using True by (simp add: strrev_def)
next
  case False
  let ?n = "length (cstr str)"
  have len: "?n < length str" using assms cstr_length by blast
  have r0: "rd str 0 = Inr (str ! 0)" by (intro rd_Inr) (use len in linarith)
  have "0 < ?n" using False cstr_nul [OF assms] by (cases "?n") auto
  then have "\<exists>r. strrev_loop str (?n - 1) 0 = Inr r \<and> length r = length str
    \<and> (\<forall>k<length str. r ! k = (if 0 \<le> k \<and> k \<le> ?n - 1 then str ! (?n - 1 + 0 - k) else str ! k))"
    using len by (intro strrev_loop_spec) simp
  then obtain r where r: "strrev_loop str (?n - 1) 0 = Inr r" "length r = length str"
    and n: "\<And>k. k < length str \<Longrightarrow> r ! k = (if k \<le> ?n - 1 then str ! (?n - 1 - k) else str ! k)"
    by auto
  have "r = rev (cstr str) @ drop ?n str"
  proof (rule nth_equalityI)
    show "length r = length (rev (cstr str) @ drop ?n str)" using r len by simp
    fix k assume k: "k < length r"
    show "r ! k = (rev (cstr str) @ drop ?n str) ! k"
    proof (cases "k < ?n")
      case True
      then have "k \<le> ?n - 1" by simp
      then have "r ! k = str ! (?n - 1 - k)" using n k r by simp
      also have "\<dots> = cstr str ! (?n - 1 - k)" using True by (simp add: cstr_nth)
      also have "\<dots> = rev (cstr str) ! k" using True by (simp add: rev_nth)
      finally show ?thesis using True by (simp add: nth_append)
    next
      case False
      then have "\<not> k \<le> ?n - 1" using \<open>0 < ?n\<close> by linarith
      then show ?thesis using False n k r len by (simp add: nth_append)
    qed
  qed
  then show ?thesis
    using r False assms r0 by (simp add: strrev_def strlen_spec)
qed

lemma strncmp_loop_spec:
  assumes "has_nul s1 \<or> i + n \<le> length s1" and "has_nul s2 \<or> i + n \<le> length s2"
    and "i \<le> length (cstr s1)" and "i \<le> length (cstr s2)"
  shows "\<exists>r. strncmp_loop s1 s2 i n = Inr r
    \<and> (r = 0 \<longleftrightarrow> take n (drop i (cstr s1)) = take n (drop i (cstr s2)))"
  using assms
proof (induction n arbitrary: i)
  case 0
  then show ?case by simp
next
  case (Suc n)
  have rd1: "i < length s1" using Suc.prems cstr_length [of s1] cstr_length_le [of s1] by linarith
  have rd2: "i < length s2" using Suc.prems cstr_length [of s2] cstr_length_le [of s2] by linarith
  have nz1: "s1 ! i \<noteq> 0 \<longleftrightarrow> i < length (cstr s1)"
    using Suc.prems(3) rd1 cstr_nonzero [of i s1] cstr_nul [of s1] cstr_length [of s1]
    by (metis cstr_nonzero le_neq_implies_less)
  have nz2: "s2 ! i \<noteq> 0 \<longleftrightarrow> i < length (cstr s2)"
    using Suc.prems(4) rd2 cstr_nonzero [of i s2] cstr_nul [of s2] cstr_length [of s2]
    by (metis cstr_nonzero le_neq_implies_less)
  have d1: "drop i (cstr s1) = s1 ! i # drop (Suc i) (cstr s1)" if "i < length (cstr s1)"
    using that by (metis Cons_nth_drop_Suc cstr_nth)
  have d2: "drop i (cstr s2) = s2 ! i # drop (Suc i) (cstr s2)" if "i < length (cstr s2)"
    using that by (metis Cons_nth_drop_Suc cstr_nth)
  show ?case
  proof (cases "s1 ! i = s2 ! i")
    case False
    then have "take (Suc n) (drop i (cstr s1)) \<noteq> take (Suc n) (drop i (cstr s2))"
      using d1 d2 nz1 nz2 Suc.prems by (cases "s1 ! i = 0"; cases "s2 ! i = 0") auto
    moreover have "uint (s1 ! i) - uint (s2 ! i) \<noteq> 0"
      using False by (simp add: word_uint_eq_iff)
    ultimately show ?thesis using False rd1 rd2 by simp
  next
    case True
    show ?thesis
    proof (cases "s1 ! i = 0")
      case zero: True
      then have "drop i (cstr s1) = []" "drop i (cstr s2) = []" using True nz1 nz2 by auto
      then show ?thesis using True zero rd1 rd2 by simp
    next
      case nz: False
      have "\<exists>r. strncmp_loop s1 s2 (Suc i) n = Inr r
        \<and> (r = 0 \<longleftrightarrow> take n (drop (Suc i) (cstr s1)) = take n (drop (Suc i) (cstr s2)))"
        using Suc.prems nz True nz1 nz2 by (intro Suc.IH) auto
      then show ?thesis using True nz rd1 rd2 d1 d2 nz1 nz2 by auto
    qed
  qed
qed

lemma strncmp_spec:
  assumes "has_nul s1 \<or> n \<le> int (length s1)" and "has_nul s2 \<or> n \<le> int (length s2)"
  obtains r where "strncmp s1 s2 n = Inr r"
    and "r = 0 \<longleftrightarrow> take (nat n) (cstr s1) = take (nat n) (cstr s2)"
proof -
  have "has_nul s1 \<or> 0 + nat n \<le> length s1" "has_nul s2 \<or> 0 + nat n \<le> length s2"
    using assms by auto
  from strncmp_loop_spec [OF this] that show thesis
    by (auto simp: strncmp_def)
qed

lemma strcmp_spec:
  assumes "has_nul s1" and "has_nul s2"
  obtains r where "strcmp s1 s2 = Inr r"
    and "r = 0 \<longleftrightarrow> take (length (cstr s1)) (cstr s2) = cstr s1"
proof -
  have "has_nul s1 \<or> int (length (cstr s1)) \<le> int (length s1)"
    "has_nul s2 \<or> int (length (cstr s1)) \<le> int (length s2)" using assms by simp_all
  then obtain r where "strncmp s1 s2 (int (length (cstr s1))) = Inr r"
    and "r = 0 \<longleftrightarrow> take (length (cstr s1)) (cstr s1) = take (length (cstr s1)) (cstr s2)"
    by (rule strncmp_spec) simp
  then show thesis
    using that assms by (auto simp: strcmp_def strlen_spec)
qed

lemma tolower_zero: "tolower c = tolower 0 \<longleftrightarrow> c = 0"
proof
  assume t: "tolower c = tolower 0"
  show "c = 0"
  proof (cases "65 \<le> sint c \<and> sint c \<le> 90")
    case True
    then have "c + 32 = 0" using t by (simp add: tolower_def)
    then have "c = - 32" by (simp add: eq_neg_iff_add_eq_0)
    then have "sint c = - 32" by simp
    then show ?thesis using True by simp
  next
    case False
    then show ?thesis using t by (simp add: tolower_def split: if_splits)
  qed
qed simp

text \<open>Equality of the first \<open>n\<close> characters up to the case of ASCII letters.\<close>

lemma istrncmp_loop_spec:
  assumes "has_nul s1 \<or> i + n \<le> length s1" and "has_nul s2 \<or> i + n \<le> length s2"
    and "i \<le> length (cstr s1)" and "i \<le> length (cstr s2)"
  shows "\<exists>r. istrncmp_loop s1 s2 i n = Inr r
    \<and> (r = 0 \<longleftrightarrow> map tolower (take n (drop i (cstr s1))) = map tolower (take n (drop i (cstr s2))))"
  using assms
proof (induction n arbitrary: i)
  case 0
  then show ?case by simp
next
  case (Suc n)
  have rd1: "i < length s1" using Suc.prems cstr_length [of s1] cstr_length_le [of s1] by linarith
  have rd2: "i < length s2" using Suc.prems cstr_length [of s2] cstr_length_le [of s2] by linarith
  have nz1: "s1 ! i \<noteq> 0 \<longleftrightarrow> i < length (cstr s1)"
    using Suc.prems(3) rd1 cstr_nul [of s1] cstr_length [of s1]
    by (metis cstr_nonzero le_neq_implies_less)
  have nz2: "s2 ! i \<noteq> 0 \<longleftrightarrow> i < length (cstr s2)"
    using Suc.prems(4) rd2 cstr_nul [of s2] cstr_length [of s2]
    by (metis cstr_nonzero le_neq_implies_less)
  have d1: "drop i (cstr s1) = s1 ! i # drop (Suc i) (cstr s1)" if "i < length (cstr s1)"
    using that by (metis Cons_nth_drop_Suc cstr_nth)
  have d2: "drop i (cstr s2) = s2 ! i # drop (Suc i) (cstr s2)" if "i < length (cstr s2)"
    using that by (metis Cons_nth_drop_Suc cstr_nth)
  have tl0: "tolower c = tolower 0 \<longleftrightarrow> c = 0" for c
    by (rule tolower_zero)
  show ?case
  proof (cases "tolower (s1 ! i) = tolower (s2 ! i)")
    case False
    then have "map tolower (take (Suc n) (drop i (cstr s1)))
        \<noteq> map tolower (take (Suc n) (drop i (cstr s2)))"
      using d1 d2 nz1 nz2 Suc.prems by (cases "s1 ! i = 0"; cases "s2 ! i = 0") auto
    moreover have "s1 ! i \<noteq> s2 ! i" using False by auto
    moreover from this have "uint (s1 ! i) - uint (s2 ! i) \<noteq> 0"
      by (simp add: word_uint_eq_iff)
    ultimately show ?thesis using False rd1 rd2 by simp
  next
    case True
    show ?thesis
    proof (cases "s1 ! i = 0")
      case zero: True
      then have "s2 ! i = 0" using True tl0 by metis
      then have "drop i (cstr s1) = []" "drop i (cstr s2) = []" using zero nz1 nz2 by auto
      then show ?thesis using True zero rd1 rd2 by simp
    next
      case nz: False
      then have nz': "s2 ! i \<noteq> 0" using True tl0 by metis
      have "\<exists>r. istrncmp_loop s1 s2 (Suc i) n = Inr r
        \<and> (r = 0 \<longleftrightarrow> map tolower (take n (drop (Suc i) (cstr s1)))
          = map tolower (take n (drop (Suc i) (cstr s2))))"
        using Suc.prems nz nz' nz1 nz2 by (intro Suc.IH) auto
      then show ?thesis using True nz nz' rd1 rd2 d1 d2 nz1 nz2 by auto
    qed
  qed
qed

lemma istrncmp_spec:
  assumes "has_nul s1 \<or> n \<le> int (length s1)" and "has_nul s2 \<or> n \<le> int (length s2)"
  obtains r where "istrncmp s1 s2 n = Inr r"
    and "r = 0 \<longleftrightarrow> map tolower (take (nat n) (cstr s1)) = map tolower (take (nat n) (cstr s2))"
proof -
  have "has_nul s1 \<or> 0 + nat n \<le> length s1" "has_nul s2 \<or> 0 + nat n \<le> length s2"
    using assms by auto
  from istrncmp_loop_spec [OF this] that show thesis
    by (auto simp: istrncmp_def)
qed

section \<open>Numbers\<close>

text \<open>The digits of a number, least significant first, and the number a digit string denotes.\<close>

fun udigits :: "nat \<Rightarrow> nat \<Rightarrow> nat list" where
  "udigits b n = (if n = 0 \<or> b < 2 then [] else (n mod b) # udigits b (n div b))"

declare udigits.simps [simp del]

definition char_digit :: "byte \<Rightarrow> nat" where
  "char_digit c = (if uint c < 58 then nat (uint c - 48) else nat (uint c - 87))"

definition parse_num :: "nat \<Rightarrow> byte list \<Rightarrow> nat" where
  "parse_num b s = foldl (\<lambda>acc c. acc * b + char_digit c) 0 s"

lemma char_digit_char:
  assumes "r < 36"
  shows "char_digit (digit_char (int r)) = r"
proof -
  have "uint (word_of_int k :: byte) = k" if "0 \<le> k" "k < 256" for k
    using that by (simp add: unsigned_of_int take_bit_int_eq_self)
  then show ?thesis
    using assms by (auto simp: char_digit_def digit_char_def)
qed

lemma digit_char_nonzero: "r < 36 \<Longrightarrow> digit_char (int r) \<noteq> 0"
proof -
  assume r: "r < 36"
  have "uint (digit_char (int r)) = (if 9 < int r then int r + 87 else int r + 48)"
    using r by (auto simp: digit_char_def unsigned_of_int take_bit_int_eq_self)
  then have "0 < uint (digit_char (int r))" by simp
  then show ?thesis by auto
qed

lemma parse_num_snoc: "parse_num b (s @ [c]) = parse_num b s * b + char_digit c"
  by (simp add: parse_num_def)

lemma mod_less_36: "2 \<le> b \<Longrightarrow> b \<le> 36 \<Longrightarrow> (n :: nat) mod b < 36"
  by (rule less_le_trans [OF mod_less_divisor]) auto

lemma udigits_parse:
  assumes "2 \<le> b" and "b \<le> 36"
  shows "parse_num b (rev (map (\<lambda>d. digit_char (int d)) (udigits b n))) = n"
proof (induction n rule: less_induct)
  case (less n)
  show ?case
  proof (cases "n = 0")
    case True
    then show ?thesis by (simp add: udigits.simps [of b 0] parse_num_def)
  next
    case False
    have "n div b < n" using False assms by simp
    from less.IH [OF this]
    have "parse_num b (rev (map (\<lambda>d. digit_char (int d)) (udigits b n)))
        = (n div b) * b + char_digit (digit_char (int (n mod b)))"
      using False assms by (simp add: udigits.simps [of b n] parse_num_snoc)
    also have "char_digit (digit_char (int (n mod b))) = n mod b"
      using mod_less_36 [OF assms] by (rule char_digit_char)
    finally show ?thesis by simp
  qed
qed

lemma udigits_length: "2 \<le> b \<Longrightarrow> n < b ^ k \<Longrightarrow> length (udigits b n) \<le> k"
proof (induction k arbitrary: n)
  case 0
  then show ?case by (simp add: udigits.simps)
next
  case (Suc k)
  then have "n div b < b ^ k" by (intro less_mult_imp_div_less) (simp add: mult.commute)
  then show ?case
    using Suc by (simp add: udigits.simps [of b n])
qed

lemma udigits_less: "d \<in> set (udigits b n) \<Longrightarrow> d < b"
proof (induction n rule: less_induct)
  case (less n)
  show ?case
  proof (cases "n = 0 \<or> b < 2")
    case True
    then show ?thesis using less.prems by (simp add: udigits.simps [of b n])
  next
    case False
    then have "n div b < n" by simp
    then show ?thesis using less False by (auto simp: udigits.simps [of b n])
  qed
qed

definition num_chars :: "nat \<Rightarrow> nat \<Rightarrow> byte list" where
  "num_chars b n = map (\<lambda>d. digit_char (int d)) (udigits b n)"

lemma num_chars_no_nul: "b \<le> 36 \<Longrightarrow> 0 \<notin> set (num_chars b n)"
proof
  assume b: "b \<le> 36" and "0 \<in> set (num_chars b n)"
  then obtain d where d: "d \<in> set (udigits b n)" "digit_char (int d) = 0"
    by (auto simp: num_chars_def)
  then have "d < 36" using udigits_less [OF d(1)] b by simp
  then show False using d(2) digit_char_nonzero by blast
qed

lemma num_chars_length: "2 \<le> b \<Longrightarrow> n < b ^ k \<Longrightarrow> length (num_chars b n) \<le> k"
  by (simp add: num_chars_def udigits_length)

lemma num_chars_length_32: "2 \<le> b \<Longrightarrow> n < 2 ^ 32 \<Longrightarrow> length (num_chars b n) \<le> 32"
  using num_chars_length [of b n 32] power_mono [of 2 b 32] by simp

lemma num_chars_step:
  "n \<noteq> 0 \<Longrightarrow> 2 \<le> b \<Longrightarrow> num_chars b n = digit_char (int (n mod b)) # num_chars b (n div b)"
  by (simp add: num_chars_def udigits.simps [of b n])

lemma num_chars_0 [simp]: "num_chars b 0 = []"
  by (simp add: num_chars_def udigits.simps [of b 0])

lemma parse_num_chars: "2 \<le> b \<Longrightarrow> b \<le> 36 \<Longrightarrow> parse_num b (rev (num_chars b n)) = n"
  by (simp add: num_chars_def udigits_parse)

lemma blit_step:
  assumes "idx + length (c # cs) \<le> length str"
  shows "blit (str[idx := c]) (Suc idx) cs = blit str idx (c # cs)"
  using assms blit_Cons [of idx cs str c] by simp

lemma uitoa_loop_spec:
  assumes "2 \<le> b" and "b \<le> 36" and "idx + length (num_chars b (unat num)) \<le> length str"
  shows "uitoa_loop str idx num (int b)
    = Inr (blit str idx (num_chars b (unat num)), idx + length (num_chars b (unat num)))"
  using assms(3)
proof (induction str idx num "int b" rule: uitoa_loop.induct)
  case (1 str idx num)
  have ub: "unat (word_of_nat b :: u32) = b"
    using assms by (simp add: unsigned_of_nat take_bit_nat_eq_self)
  then have nz: "word_of_int (int b) \<noteq> (0 :: u32)" using assms by auto
  show ?case
  proof (cases "num = 0")
    case True
    then show ?thesis by (simp add: uitoa_loop.simps [of str])
  next
    case False
    then have un: "unat num \<noteq> 0" by (simp add: unat_eq_zero)
    note st = num_chars_step [OF un assms(1)]
    have m: "sint (num mod word_of_int (int b)) = int (unat num mod b)"
    proof -
      have "unat (num mod word_of_int (int b)) = unat num mod b" by (simp add: unat_mod ub)
      moreover have "unat num mod b < 36" using assms(1,2) by (rule mod_less_36)
      ultimately show ?thesis by (intro sint_small) simp_all
    qed
    have d: "unat (num div word_of_int (int b)) = unat num div b" by (simp add: unat_div ub)
    have w: "wr str idx (digit_char (sint (num mod word_of_int (int b))))
        = Inr (str[idx := digit_char (int (unat num mod b))])"
      using "1.prems" st m by simp
    have "uitoa_loop (str[idx := digit_char (int (unat num mod b))]) (Suc idx)
        (num div word_of_int (int b)) (int b)
      = Inr (blit (str[idx := digit_char (int (unat num mod b))]) (Suc idx) (num_chars b (unat num div b)),
             Suc idx + length (num_chars b (unat num div b)))"
      using "1.hyps" [OF False nz w] "1.prems" st d by simp
    also have "\<dots> = Inr (blit str idx (num_chars b (unat num)), idx + length (num_chars b (unat num)))"
      using "1.prems" st blit_step [of idx _ "num_chars b (unat num div b)" str] by simp
    finally show ?thesis
      using False nz w by (simp add: uitoa_loop.simps [of str])
  qed
qed


text \<open>Terminating and reversing the digits, the end of both conversions.\<close>

lemma finish_number:
  assumes "0 \<notin> set ds" and "length ds < length str" and "ds \<noteq> []"
  shows "cbind (wr (blit str 0 ds) (length ds) 0) strrev
    = Inr (rev ds @ 0 # drop (Suc (length ds)) str)"
proof -
  let ?s = "blit str 0 (ds @ [0])"
  have s: "?s = ds @ 0 # drop (Suc (length ds)) str" by (simp add: blit_def)
  then have c: "cstr ?s = ds" using assms(1) by (simp add: cstr_append_nul)
  have "wr (blit str 0 ds) (length ds) 0 = Inr ?s"
    using blit_snoc [of 0 ds str 0] assms(2) by simp
  moreover have "strrev ?s = Inr (rev ds @ 0 # drop (Suc (length ds)) str)"
    using strrev_spec [of ?s] c s by simp
  ultimately show ?thesis by simp
qed

definition unsigned_text :: "nat \<Rightarrow> u32 \<Rightarrow> byte list" where
  "unsigned_text b num = (if num = 0 then [48] else rev (num_chars b (unat num)))"

lemma uitoa_spec:
  assumes "2 \<le> b" and "b \<le> 36" and "length (num_chars b (unat num)) < length str" and "2 \<le> length str"
  shows "\<exists>rest. uitoa num str (int b) = Inr (unsigned_text b num @ 0 # rest)
    \<and> length (unsigned_text b num) + length rest + 1 = length str"
proof (cases "num = 0")
  case True
  have l: "0 < length str" "1 < length str" using assms(4) by linarith+
  then have "uitoa num str (int b) = Inr (str[0 := 48, 1 := 0])"
    using True by (simp add: uitoa_def)
  also have "str[0 := 48, 1 := 0] = [48] @ 0 # drop 2 str"
    using l by (cases str; cases "tl str") auto
  finally show ?thesis using True l by (auto simp: unsigned_text_def)
next
  case False
  let ?ds = "num_chars b (unat num)"
  have "uitoa_loop str 0 num (int b) = Inr (blit str 0 ?ds, length ?ds)"
    using uitoa_loop_spec [of b 0 num str] assms by simp
  moreover have "?ds \<noteq> []"
    using False assms num_chars_step [of "unat num" b] by (simp add: unat_eq_zero)
  ultimately show ?thesis
    using False finish_number [OF num_chars_no_nul] assms by (auto simp: uitoa_def unsigned_text_def)
qed

lemma itoa_loop_spec:
  assumes "2 \<le> b" and "b \<le> 36" and "idx + length (num_chars b n) \<le> length str"
  shows "itoa_loop str idx (int n) (int b)
    = Inr (blit str idx (num_chars b n), idx + length (num_chars b n))"
  using assms(3)
proof (induction n arbitrary: str idx rule: less_induct)
  case (less n)
  show ?case
  proof (cases "n = 0")
    case True
    then show ?thesis by (simp add: itoa_loop.simps [of str])
  next
    case False
    note st = num_chars_step [OF False assms(1)]
    have w: "wr str idx (digit_char (int (n mod b))) = Inr (str[idx := digit_char (int (n mod b))])"
      using less.prems st by simp
    have "itoa_loop (str[idx := digit_char (int (n mod b))]) (Suc idx) (int (n div b)) (int b)
      = Inr (blit (str[idx := digit_char (int (n mod b))]) (Suc idx) (num_chars b (n div b)),
             Suc idx + length (num_chars b (n div b)))"
      using less.IH [of "n div b"] less.prems st False assms by simp
    also have "\<dots> = Inr (blit str idx (num_chars b n), idx + length (num_chars b n))"
      using less.prems st blit_step [of idx _ "num_chars b (n div b)" str] by simp
    finally show ?thesis
      using False w assms
      by (simp add: itoa_loop.simps [of str _ "int n"] sdiv_smod_of_nat del: of_nat_mod of_nat_div)
  qed
qed

definition decimal :: "int \<Rightarrow> byte list" where
  "decimal k = (if k = 0 then [48]
    else (if k < 0 then [45] else []) @ rev (num_chars 10 (nat \<bar>k\<bar>)))"

lemma itoa_10_spec:
  assumes "- (2 ^ 31) < num" and "length (decimal num) < length str" and "2 \<le> length str"
  shows "\<exists>rest. itoa num str 10 = Inr (decimal num @ 0 # rest)
    \<and> length (decimal num) + length rest + 1 = length str"
proof (cases "num = 0")
  case True
  have l: "0 < length str" "1 < length str" using assms(3) by linarith+
  then have "itoa num str 10 = Inr (str[0 := 48, 1 := 0])"
    using True by (simp add: itoa_def)
  also have "str[0 := 48, 1 := 0] = [48] @ 0 # drop 2 str"
    using l by (cases str; cases "tl str") auto
  finally show ?thesis using True l by (auto simp: decimal_def)
next
  case False
  let ?n = "nat \<bar>num\<bar>" and ?ds = "num_chars 10 (nat \<bar>num\<bar>)"
  have ne: "?ds \<noteq> []" using False num_chars_step [of ?n 10] by simp
  have nn: "0 \<notin> set ?ds" by (rule num_chars_no_nul) simp
  have len: "length ?ds < length str" "num < 0 \<Longrightarrow> Suc (length ?ds) < length str"
    using assms(2) False by (auto simp: decimal_def split: if_splits)
  have loop: "itoa_loop str 0 \<bar>num\<bar> 10 = Inr (blit str 0 ?ds, length ?ds)"
    using itoa_loop_spec [of 10 0 ?n str] len by simp
  show ?thesis
  proof (cases "num < 0")
    case True
    have "wr (blit str 0 ?ds) (length ?ds) 45 = Inr (blit str 0 (?ds @ [45]))"
      using blit_snoc [of 0 ?ds str 45] len by simp
    then have "itoa num str 10 = cbind (wr (blit str 0 (?ds @ [45])) (Suc (length ?ds)) 0) strrev"
      using True False loop assms(1) by (simp add: itoa_def)
    also have "\<dots> = Inr (rev (?ds @ [45]) @ 0 # drop (Suc (length (?ds @ [45]))) str)"
      using finish_number [of "?ds @ [45]" str] nn len True by simp
    finally show ?thesis using True False len by (auto simp: decimal_def)
  next
    case nonneg: False
    then have "itoa num str 10 = cbind (wr (blit str 0 ?ds) (length ?ds) 0) strrev"
      using False loop by (simp add: itoa_def)
    also have "\<dots> = Inr (rev ?ds @ 0 # drop (Suc (length ?ds)) str)"
      using finish_number [OF nn] len ne by simp
    finally show ?thesis using nonneg False len by (auto simp: decimal_def)
  qed
qed

section \<open>Properties\<close>

text \<open>\<open>uitoa\<close> writes a terminated string whose digits, read back in the same base, are the number it was
  given, for every 32-bit number and every base from 2 to 36, in any buffer of 34 bytes.\<close>

theorem uitoa_reads_back:
  assumes "2 \<le> b" and "b \<le> 36" and "34 \<le> length str"
  shows "\<exists>out. uitoa num str (int b) = Inr out \<and> has_nul out \<and> parse_num b (cstr out) = unat num"
proof -
  have "length (num_chars b (unat num)) \<le> 32"
    using assms unsigned_less [of num] by (intro num_chars_length_32) auto
  then obtain rest where o: "uitoa num str (int b) = Inr (unsigned_text b num @ 0 # rest)"
    using uitoa_spec [of b num str] assms by fastforce
  have "0 \<notin> set (unsigned_text b num)"
    using num_chars_no_nul [of b] assms by (auto simp: unsigned_text_def)
  moreover have "parse_num b (unsigned_text b num) = unat num"
    using assms parse_num_chars [of b] by (simp add: unsigned_text_def parse_num_def char_digit_def)
  ultimately show ?thesis using o by (simp add: cstr_append_nul)
qed

theorem uitoa_reads_back_witness:
  "\<exists>out. uitoa 48879 (replicate 34 0) 16 = Inr out \<and> has_nul out \<and> parse_num 16 (cstr out) = unat (48879 :: u32)"
  using uitoa_reads_back [of 16 "replicate 34 0" 48879] by simp

text \<open>\<open>itoa\<close> in base 10 writes the decimal notation of every \<open>long\<close> but \<open>LONG_MIN\<close> (a minus sign for a
  negative number, then its digits without leading zeros) into any buffer of 12 bytes.\<close>

theorem itoa_decimal:
  assumes "- (2 ^ 31) < num" and "num < 2 ^ 31" and "12 \<le> length str"
  shows "\<exists>out. itoa num str 10 = Inr out \<and> has_nul out \<and> cstr out = decimal num"
proof -
  have "length (num_chars 10 (nat \<bar>num\<bar>)) \<le> 10"
    using assms by (intro num_chars_length) auto
  then have "length (decimal num) < length str"
    using assms(3) by (auto simp: decimal_def)
  then obtain rest where "itoa num str 10 = Inr (decimal num @ 0 # rest)"
    using itoa_10_spec [of num str] assms by fastforce
  moreover have "0 \<notin> set (decimal num)"
    using num_chars_no_nul [of 10] by (auto simp: decimal_def)
  ultimately show ?thesis by (simp add: cstr_append_nul)
qed

theorem itoa_decimal_witness:
  "\<exists>out. itoa (- 305) (replicate 12 0) 10 = Inr out \<and> has_nul out \<and> cstr out = decimal (- 305)"
  using itoa_decimal [of "- 305" "replicate 12 0"] by simp

text \<open>\<open>strcmp\<close> returns 0 exactly when its first argument is a prefix of the second, not only when the
  strings are equal as its comment says; the callers that want equality compare the lengths as well.\<close>

theorem strcmp_zero_iff_prefix:
  assumes "has_nul s1" and "has_nul s2"
  shows "\<exists>r. strcmp s1 s2 = Inr r \<and> (r = 0 \<longleftrightarrow> take (length (cstr s1)) (cstr s2) = cstr s1)"
  using strcmp_spec [OF assms] by blast

theorem strcmp_zero_iff_prefix_witness:
  "\<exists>r. strcmp [48, 58, 0] [48, 58, 47, 0] = Inr r
    \<and> (r = 0 \<longleftrightarrow> take (length (cstr [48, 58, 0])) (cstr [48, 58, 47, 0]) = cstr [48, 58, 0])"
  by (rule strcmp_zero_iff_prefix) (simp_all add: has_nul_def)

text \<open>\<open>strncpy\<close> stores at most \<open>n\<close> bytes: the first \<open>n - 1\<close> characters of the source and a terminator, and
  leaves the rest of the destination alone.\<close>

theorem strncpy_truncates:
  assumes "has_nul src" and "1 \<le> n" and "d + nat n \<le> length dest"
  shows "strncpy dest d src n = Inr (blit dest d (take (nat n - 1) (cstr src) @ [0]))
    \<and> length (take (nat n - 1) (cstr src) @ [0]) \<le> nat n"
proof -
  have "nat (n - 1) = nat n - 1" using assms(2) by simp
  moreover have "d + min (length (cstr src)) (nat (n - 1)) < length dest"
    using assms by (auto simp: min_def)
  moreover have "Suc (min (length (cstr src)) (nat n - 1)) \<le> nat n"
    using assms(2) by (auto simp: min_def)
  ultimately show ?thesis
    using strncpy_spec [of src n d dest] assms(1) by auto
qed

theorem strncpy_truncates_witness:
  "strncpy [9, 9, 9, 9] 0 [65, 66, 67, 0] 3 = Inr (blit [9, 9, 9, 9] 0 (take (nat 3 - 1) (cstr [65, 66, 67, 0]) @ [0]))
    \<and> length (take (nat 3 - 1) (cstr [65, 66, 67, 0]) @ [0]) \<le> nat 3"
  by (rule strncpy_truncates) (simp_all add: has_nul_def)

end
