(* ===== verification/KPrintf.thy ===== *)
theory KPrintf
  imports KString
begin

text \<open>
  Formatted output: \<^verbatim>\<open>kvsprintf\<close> and \<^verbatim>\<open>ksprintf\<close> of \<^verbatim>\<open>src/src/kernel/common/string.c\<close> and the buffer
  \<^verbatim>\<open>kprintf\<close> of \<^verbatim>\<open>src/src/kernel/kernel.cpp\<close> fills.  The variable arguments are the words of the call's
  stack, the memory that pointer arguments point to is a function from addresses to objects.  The
  specification splits a format into directives (\<open>parse_format\<close>) and gives the text they stand for
  (\<open>format_text\<close>); the loop is proved to write that text and nothing else.
\<close>

section \<open>Definitions\<close>

text \<open>The state of a call: the output object and the index \<open>buf\<close> points to, the 512-byte internal buffer,
  and the words on the stack that \<open>args\<close> still has to visit.\<close>

record kv =
  out :: "byte list"
  pos :: nat
  internal_buffer :: "byte list"
  args :: "u32 list"

text \<open>\<open>va_arg\<close> takes one stack word for an \<open>int\<close>, \<open>long\<close> or pointer and two, low word first, for a
  \<open>long long\<close>.  Taking a word that was not passed is a fault.\<close>

definition va_arg32 :: "kv \<Rightarrow> fault + (u32 \<times> kv)" where
  "va_arg32 st = (case args st of [] \<Rightarrow> Inl Bad_Read | a # as \<Rightarrow> Inr (a, st\<lparr>args := as\<rparr>))"

definition va_arg64 :: "kv \<Rightarrow> fault + (u64 \<times> kv)" where
  "va_arg64 st = cbind (va_arg32 st) (\<lambda>(lo, st1). cbind (va_arg32 st1) (\<lambda>(hi, st2).
     Inr (ucast lo OR push_bit 32 (ucast hi), st2)))"

definition put_char :: "byte \<Rightarrow> kv \<Rightarrow> fault + kv" where
  "put_char c st = cbind (wr (out st) (pos st) c) (\<lambda>o'. Inr (st\<lparr>out := o', pos := Suc (pos st)\<rparr>))"

text \<open>The block every numeric conversion repeats: clear the internal buffer, convert into it, copy its
  text out.\<close>

definition put_number :: "(byte list \<Rightarrow> fault + byte list) \<Rightarrow> kv \<Rightarrow> fault + kv" where
  "put_number convert st =
     cbind (memset (internal_buffer st) 0 0 512) (\<lambda>ib.
     cbind (convert ib) (\<lambda>ib'.
     cbind (strlen ib') (\<lambda>sz.
     cbind (memcpy (out st) (pos st) ib' 0 sz) (\<lambda>o'.
     Inr (st\<lparr>out := o', pos := pos st + sz, internal_buffer := ib'\<rparr>)))))"

text \<open>The conversions after \<open>%\<close> and \<open>%l\<close>; \<open>itoa\<close> takes a \<open>long\<close>, so an unsigned argument is
  reinterpreted.  An unknown conversion prints nothing.\<close>

definition conv32 :: "byte \<Rightarrow> kv \<Rightarrow> fault + kv" where
  "conv32 c st =
     (if c = 105 \<or> c = 100 then cbind (va_arg32 st) (\<lambda>(a, st'). put_number (\<lambda>b. itoa (sint a) b 10) st')
      else if c = 117 then cbind (va_arg32 st) (\<lambda>(a, st'). put_number (\<lambda>b. itoa (sint a) b 10) st')
      else if c = 120 then cbind (va_arg32 st) (\<lambda>(a, st'). put_number (\<lambda>b. uitoa a b 16) st')
      else if c = 98 then cbind (va_arg32 st) (\<lambda>(a, st'). put_number (\<lambda>b. uitoa a b 2) st')
      else if c = 112 then cbind (va_arg32 st) (\<lambda>(a, st'). put_number (\<lambda>b. uitoa a b 16) st')
      else Inr st)"

text \<open>The conversions after \<open>%ll\<close>: the 64-bit argument is truncated to the 32 bits of \<open>long\<close>.\<close>

definition conv64 :: "byte \<Rightarrow> kv \<Rightarrow> fault + kv" where
  "conv64 c st =
     (if c = 105 \<or> c = 100
      then cbind (va_arg64 st) (\<lambda>(a, st'). put_number (\<lambda>b. itoa (sint (ucast a :: u32)) b 10) st')
      else if c = 117
      then cbind (va_arg64 st) (\<lambda>(a, st'). put_number (\<lambda>b. itoa (sint (ucast a :: u32)) b 10) st')
      else if c = 120 then cbind (va_arg64 st) (\<lambda>(a, st'). put_number (\<lambda>b. uitoa (ucast a) b 16) st')
      else if c = 98 then cbind (va_arg64 st) (\<lambda>(a, st'). put_number (\<lambda>b. uitoa (ucast a) b 2) st')
      else if c = 112 then cbind (va_arg64 st) (\<lambda>(a, st'). put_number (\<lambda>b. uitoa (ucast a) b 16) st')
      else Inr st)"

text \<open>\<open>strs p\<close> is the object the pointer \<open>p\<close> points to.\<close>

definition put_string :: "(u32 \<Rightarrow> byte list) \<Rightarrow> kv \<Rightarrow> fault + kv" where
  "put_string strs st = cbind (va_arg32 st) (\<lambda>(s, st').
     cbind (strlen (strs s)) (\<lambda>sz.
     cbind (memcpy (out st') (pos st') (strs s) 0 sz) (\<lambda>o'.
     Inr (st'\<lparr>out := o', pos := pos st' + sz\<rparr>))))"

text \<open>One conversion; \<open>f\<close> is the index of the character behind the percent sign.  The result also says where
  \<open>fmt\<close> points to afterwards.\<close>

definition kv_directive :: "(u32 \<Rightarrow> byte list) \<Rightarrow> byte list \<Rightarrow> nat \<Rightarrow> kv \<Rightarrow> fault + (nat \<times> kv)" where
  "kv_directive strs fmt f st =
     cbind (rd fmt f) (\<lambda>c.
       if c = 37 then cbind (put_char 37 st) (\<lambda>st'. Inr (f + 1, st'))
       else if c = 99
       then cbind (va_arg32 st) (\<lambda>(a, st'). cbind (put_char (ucast a) st') (\<lambda>st''. Inr (f + 1, st'')))
       else if c = 115 then cbind (put_string strs st) (\<lambda>st'. Inr (f + 1, st'))
       else if c = 108
       then cbind (rd fmt (f + 1)) (\<lambda>c1.
         if c1 = 108
         then cbind (rd fmt (f + 2)) (\<lambda>c2. cbind (conv64 c2 st) (\<lambda>st'. Inr (f + 3, st')))
         else cbind (conv32 c1 st) (\<lambda>st'. Inr (f + 2, st')))
       else cbind (conv32 c st) (\<lambda>st'. Inr (f + 1, st')))"

lemma kv_directive_advances: "kv_directive strs fmt f st = Inr (g, st') \<Longrightarrow> f < length fmt \<and> f < g"
  by (auto simp: kv_directive_def cbind_eq_Inr rd_eq_Inr split: if_splits)

function kvsprintf_loop :: "(u32 \<Rightarrow> byte list) \<Rightarrow> byte list \<Rightarrow> nat \<Rightarrow> kv \<Rightarrow> fault + kv" where
  "kvsprintf_loop strs fmt f st =
     cbind (rd fmt f) (\<lambda>c.
       if c = 0 then Inr st
       else if c \<noteq> 37 then cbind (put_char c st) (\<lambda>st'. kvsprintf_loop strs fmt (f + 1) st')
       else cbind (kv_directive strs fmt (f + 1) st) (\<lambda>(g, st'). kvsprintf_loop strs fmt g st'))"
  by pat_completeness auto
termination
  by (relation "measure (\<lambda>(strs, fmt, f, st). length fmt - f)")
    (auto simp: rd_eq_Inr dest!: kv_directive_advances)

declare kvsprintf_loop.simps [simp del]

definition kvsprintf :: "(u32 \<Rightarrow> byte list) \<Rightarrow> byte list \<Rightarrow> nat \<Rightarrow> byte list \<Rightarrow> byte list \<Rightarrow> u32 list
    \<Rightarrow> fault + byte list" where
  "kvsprintf strs buf p stack fmt as =
     cbind (kvsprintf_loop strs fmt 0 \<lparr>out = buf, pos = p, internal_buffer = stack, args = as\<rparr>)
       (\<lambda>st. Inr (out st))"

definition ksprintf :: "(u32 \<Rightarrow> byte list) \<Rightarrow> byte list \<Rightarrow> nat \<Rightarrow> byte list \<Rightarrow> byte list \<Rightarrow> u32 list
    \<Rightarrow> fault + byte list" where
  "ksprintf strs buf p stack fmt as = kvsprintf strs buf p stack fmt as"

text \<open>\<open>kprintf\<close> up to the call of \<open>ser_PrintString\<close>: the text it hands to the serial port.\<close>

definition kprintf :: "(u32 \<Rightarrow> byte list) \<Rightarrow> byte list \<Rightarrow> byte list \<Rightarrow> byte list \<Rightarrow> u32 list \<Rightarrow> fault + byte list" where
  "kprintf strs internal_buf stack fmt as =
     cbind (memset internal_buf 0 0 1024) (\<lambda>b. kvsprintf strs b 0 stack fmt as)"

section \<open>The text a format stands for\<close>

datatype directive = Literal byte | Character | String | Word32 byte | Word64 byte

text \<open>A format without its terminator, as directives; none when it ends inside of a directive.\<close>

fun parse_directive :: "byte list \<Rightarrow> (directive \<times> byte list) option" where
  "parse_directive [] = None"
| "parse_directive (c # cs) =
     (if c = 37 then Some (Literal 37, cs)
      else if c = 99 then Some (Character, cs)
      else if c = 115 then Some (String, cs)
      else if c = 108 then (case cs of [] \<Rightarrow> None
        | d # ds \<Rightarrow> if d = 108 then (case ds of [] \<Rightarrow> None | e # es \<Rightarrow> Some (Word64 e, es))
            else Some (Word32 d, ds))
      else Some (Word32 c, cs))"

lemma parse_directive_shorter: "parse_directive cs = Some (d, ds) \<Longrightarrow> length ds < length cs"
  by (cases cs) (auto split: if_splits list.splits)

function parse_format :: "byte list \<Rightarrow> directive list option" where
  "parse_format [] = Some []"
| "parse_format (c # cs) =
     (if c \<noteq> 37 then map_option (Cons (Literal c)) (parse_format cs)
      else case parse_directive cs of None \<Rightarrow> None
        | Some (d, ds) \<Rightarrow> map_option (Cons d) (parse_format ds))"
  by pat_completeness auto
termination
  by (relation "measure length") (auto dest!: parse_directive_shorter)

text \<open>The text of a 32-bit number; none for a signed conversion of \<open>LONG_MIN\<close>, whose negation overflows.\<close>

definition number_text :: "byte \<Rightarrow> u32 \<Rightarrow> byte list option" where
  "number_text c a =
     (if c = 105 \<or> c = 100 \<or> c = 117 then if a = 0x80000000 then None else Some (decimal (sint a))
      else if c = 98 then Some (unsigned_text 2 a) else Some (unsigned_text 16 a))"

definition is_number_conv :: "byte \<Rightarrow> bool" where
  "is_number_conv c = (c \<in> {105, 100, 117, 120, 98, 112})"

fun directive_text :: "(u32 \<Rightarrow> byte list) \<Rightarrow> directive \<Rightarrow> u32 list \<Rightarrow> (byte list \<times> u32 list) option" where
  "directive_text strs (Literal c) as = Some ([c], as)"
| "directive_text strs Character (a # as) = Some ([ucast a], as)"
| "directive_text strs String (a # as) = (if has_nul (strs a) then Some (cstr (strs a), as) else None)"
| "directive_text strs (Word32 c) as =
     (if is_number_conv c
      then case as of [] \<Rightarrow> None | a # as' \<Rightarrow> map_option (\<lambda>t. (t, as')) (number_text c a)
      else Some ([], as))"
| "directive_text strs (Word64 c) as =
     (if is_number_conv c
      then case as of lo # hi # as' \<Rightarrow> map_option (\<lambda>t. (t, as')) (number_text c lo) | _ \<Rightarrow> None
      else Some ([], as))"
| "directive_text strs _ _ = None"

fun format_text :: "(u32 \<Rightarrow> byte list) \<Rightarrow> directive list \<Rightarrow> u32 list \<Rightarrow> byte list option" where
  "format_text strs [] as = Some []"
| "format_text strs (d # ds) as =
     (case directive_text strs d as of None \<Rightarrow> None
      | Some (t, as') \<Rightarrow> map_option (append t) (format_text strs ds as'))"

section \<open>Refinement\<close>

definition emits :: "byte list \<Rightarrow> u32 list \<Rightarrow> kv \<Rightarrow> kv \<Rightarrow> bool" where
  "emits t as st st' = (out st' = blit (out st) (pos st) t \<and> pos st' = pos st + length t
     \<and> args st' = as \<and> length (internal_buffer st') = 512)"

lemma put_char_spec:
  "pos st < length (out st) \<Longrightarrow> length (internal_buffer st) = 512 \<Longrightarrow>
   \<exists>st'. put_char c st = Inr st' \<and> emits [c] (args st) st st'"
  using blit_snoc [of "pos st" "[]" "out st" c] by (simp add: put_char_def emits_def)

lemma put_number_spec:
  assumes "convert (replicate 512 0) = Inr (t @ 0 # rest)" and "length t + length rest + 1 = 512"
    and "0 \<notin> set t" and "pos st + length t \<le> length (out st)" and "length (internal_buffer st) = 512"
  shows "\<exists>st'. put_number convert st = Inr st' \<and> emits t (args st) st st'"
proof -
  have "memset (internal_buffer st) 0 0 512 = Inr (replicate 512 0)"
    using memset_full [of "internal_buffer st" 0] assms(5) by simp
  then show ?thesis
    using assms by (simp add: put_number_def strlen_spec cstr_append_nul memcpy_spec emits_def)
qed

lemma sint_min: "sint (a :: u32) = - (2 ^ 31) \<Longrightarrow> a = 0x80000000"
proof -
  assume "sint a = - (2 ^ 31)"
  then have "sint a = sint (0x80000000 :: u32)" by simp
  then show ?thesis by (simp only: signed_word_eqI)
qed

lemma itoa_internal:
  assumes "a \<noteq> 0x80000000"
  shows "\<exists>rest. itoa (sint (a :: u32)) (replicate 512 0) 10 = Inr (decimal (sint a) @ 0 # rest)
    \<and> length (decimal (sint a)) + length rest + 1 = 512" and "0 \<notin> set (decimal (sint a))"
proof -
  have r: "- (2 ^ 31) \<le> sint a" "sint a < 2 ^ 31"
    using sint_greater_eq [of a] sint_lt [of a] by simp_all
  have n: "- (2 ^ 31) < sint a" using r assms sint_min [of a] by linarith
  have "length (num_chars 10 (nat \<bar>sint a\<bar>)) \<le> 10"
    using r by (intro num_chars_length) auto
  then have "length (decimal (sint a)) < 512" by (auto simp: decimal_def)
  then show "\<exists>rest. itoa (sint a) (replicate 512 0) 10 = Inr (decimal (sint a) @ 0 # rest)
    \<and> length (decimal (sint a)) + length rest + 1 = 512"
    using itoa_10_spec [OF n, of "replicate 512 0"] by auto
  show "0 \<notin> set (decimal (sint a))"
    using num_chars_no_nul [of 10] by (auto simp: decimal_def)
qed

lemma uitoa_internal:
  assumes "2 \<le> b" and "b \<le> 36"
  shows "\<exists>rest. uitoa a (replicate 512 0) (int b) = Inr (unsigned_text b a @ 0 # rest)
    \<and> length (unsigned_text b a) + length rest + 1 = 512" and "0 \<notin> set (unsigned_text b a)"
proof -
  have "length (num_chars b (unat a)) \<le> 32"
    using assms unsigned_less [of a] by (intro num_chars_length_32) auto
  then show "\<exists>rest. uitoa a (replicate 512 0) (int b) = Inr (unsigned_text b a @ 0 # rest)
    \<and> length (unsigned_text b a) + length rest + 1 = 512"
    using uitoa_spec [OF assms, of a "replicate 512 0"] by auto
  show "0 \<notin> set (unsigned_text b a)"
    using num_chars_no_nul [OF assms(2)] by (auto simp: unsigned_text_def)
qed

text \<open>How a numeric conversion runs, as one number or none.\<close>

definition convert32 :: "byte \<Rightarrow> u32 \<Rightarrow> byte list \<Rightarrow> fault + byte list" where
  "convert32 c a = (if c = 105 \<or> c = 100 \<or> c = 117 then (\<lambda>b. itoa (sint a) b 10)
     else if c = 98 then (\<lambda>b. uitoa a b 2) else (\<lambda>b. uitoa a b 16))"

lemma conv32_eq: "conv32 c st = (if is_number_conv c
    then cbind (va_arg32 st) (\<lambda>(a, st'). put_number (convert32 c a) st') else Inr st)"
  by (auto simp: conv32_def is_number_conv_def convert32_def)

lemma conv64_eq: "conv64 c st = (if is_number_conv c
    then cbind (va_arg64 st) (\<lambda>(a, st'). put_number (convert32 c (ucast a)) st') else Inr st)"
  by (auto simp: conv64_def is_number_conv_def convert32_def)

lemma put_converted:
  assumes "number_text c a = Some t" and "pos st + length t \<le> length (out st)"
    and "length (internal_buffer st) = 512"
  shows "\<exists>st'. put_number (convert32 c a) st = Inr st' \<and> emits t (args st) st st'"
proof (cases "c = 105 \<or> c = 100 \<or> c = 117")
  case True
  then have t: "a \<noteq> 0x80000000" "t = decimal (sint a)"
    using assms(1) by (auto simp: number_text_def split: if_splits)
  then obtain rest where "convert32 c a (replicate 512 0) = Inr (t @ 0 # rest)"
    "length t + length rest + 1 = 512" "0 \<notin> set t"
    using True itoa_internal [OF t(1)] by (auto simp: convert32_def)
  then show ?thesis by (rule put_number_spec [OF _ _ _ assms(2,3)])
next
  case False
  define b :: nat where "b = (if c = 98 then 2 else 16)"
  have b: "2 \<le> b" "b \<le> 36" "int b = (if c = 98 then 2 else 16)" by (simp_all add: b_def)
  have "t = unsigned_text b a" using False assms(1) by (auto simp: number_text_def b_def)
  then obtain rest where "convert32 c a (replicate 512 0) = Inr (t @ 0 # rest)"
    "length t + length rest + 1 = 512" "0 \<notin> set t"
    using False uitoa_internal [OF b(1,2), of a] b(3) by (auto simp: convert32_def split: if_splits)
  then show ?thesis by (rule put_number_spec [OF _ _ _ assms(2,3)])
qed


lemma kv_conv32:
  assumes "directive_text strs (Word32 c) (args st) = Some (t, as')"
    and "pos st + length t \<le> length (out st)" and "length (internal_buffer st) = 512"
  shows "\<exists>st'. conv32 c st = Inr st' \<and> emits t as' st st'"
proof (cases "is_number_conv c")
  case False
  then show ?thesis using assms by (auto simp: conv32_eq emits_def)
next
  case True
  then obtain a where a: "args st = a # as'" "number_text c a = Some t"
    using assms(1) by (auto split: list.splits)
  then show ?thesis
    using put_converted [of c a t "st\<lparr>args := as'\<rparr>"] True assms(2,3)
    by (auto simp: conv32_eq va_arg32_def emits_def)
qed

lemma low_word: "ucast (ucast (lo :: u32) OR push_bit 32 (ucast (hi :: u32)) :: u64) = lo"
  by (rule bit_word_eqI) (auto simp: bit_simps)

lemma kv_conv64:
  assumes "directive_text strs (Word64 c) (args st) = Some (t, as')"
    and "pos st + length t \<le> length (out st)" and "length (internal_buffer st) = 512"
  shows "\<exists>st'. conv64 c st = Inr st' \<and> emits t as' st st'"
proof (cases "is_number_conv c")
  case False
  then show ?thesis using assms by (auto simp: conv64_eq emits_def)
next
  case True
  then obtain lo hi where a: "args st = lo # hi # as'" "number_text c lo = Some t"
    using assms(1) by (auto split: list.splits)
  then show ?thesis
    using put_converted [of c lo t "st\<lparr>args := as'\<rparr>"] True assms(2,3)
    by (auto simp: conv64_eq va_arg64_def va_arg32_def emits_def low_word)
qed

lemma kv_directive_spec:
  assumes "drop f fmt = cs @ 0 # rest" and "parse_directive cs = Some (d, ds)"
    and "directive_text strs d (args st) = Some (t, as')"
    and "pos st + length t \<le> length (out st)" and "length (internal_buffer st) = 512"
  shows "\<exists>g st'. kv_directive strs fmt f st = Inr (g, st') \<and> emits t as' st st'
    \<and> drop g fmt = ds @ 0 # rest"
proof -
  obtain c cs' where cs: "cs = c # cs'" using assms(2) by (cases cs) auto
  then have r: "rd fmt f = Inr c" "drop (Suc f) fmt = cs' @ 0 # rest"
    using rd_drop [of f fmt c] assms(1) by auto
  consider (pct) "c = 37" | (chr) "c = 99" | (str) "c = 115" | (l) "c = 108"
    | (conv) "c \<noteq> 37" "c \<noteq> 99" "c \<noteq> 115" "c \<noteq> 108" by blast
  then show ?thesis
  proof cases
    case pct
    then show ?thesis
      using assms cs r put_char_spec [of st 37] by (auto simp: kv_directive_def)
  next
    case chr
    then obtain a where "args st = a # as'" "t = [ucast a]" "d = Character" "ds = cs'"
      using assms cs by (cases "args st") auto
    then show ?thesis
      using chr assms(4,5) r put_char_spec [of "st\<lparr>args := as'\<rparr>" "ucast a"]
      by (auto simp: kv_directive_def va_arg32_def emits_def)
  next
    case str
    then obtain a where "args st = a # as'" "t = cstr (strs a)" "has_nul (strs a)" "d = String" "ds = cs'"
      using assms cs by (cases "args st") (auto split: if_splits)
    then show ?thesis
      using str assms(4,5) r cstr_take [of "strs a"] cstr_length_le [of "strs a"]
      by (auto simp: kv_directive_def put_string_def va_arg32_def emits_def strlen_spec memcpy_spec)
  next
    case conv
    then have "d = Word32 c" "ds = cs'" using assms(2) cs by auto
    then show ?thesis
      using conv r kv_conv32 [of strs c st t as'] assms(3-5) by (auto simp: kv_directive_def)
  next
    case l
    then obtain c1 cs1 where c1: "cs' = c1 # cs1" using assms(2) cs by (cases cs') auto
    then have r1: "rd fmt (f + 1) = Inr c1" "drop (f + 2) fmt = cs1 @ 0 # rest"
      using rd_drop [of "Suc f" fmt c1] r(2) by auto
    show ?thesis
    proof (cases "c1 = 108")
      case False
      then have "d = Word32 c1" "ds = cs1" using assms(2) cs l c1 by auto
      then show ?thesis
        using False l r r1 kv_conv32 [of strs c1 st t as'] assms(3-5) by (auto simp: kv_directive_def)
    next
      case True
      then obtain c2 cs2 where c2: "cs1 = c2 # cs2" using assms(2) cs l c1 by (cases cs1) auto
      then have r2: "rd fmt (f + 2) = Inr c2" "drop (f + 3) fmt = cs2 @ 0 # rest"
        using rd_drop [of "f + 2" fmt c2] r1(2) by (auto simp: eval_nat_numeral)
      have "d = Word64 c2" "ds = cs2" using assms(2) cs l c1 c2 True by auto
      then show ?thesis
        using True l r r1 r2 kv_conv64 [of strs c2 st t as'] assms(3-5) by (auto simp: kv_directive_def)
    qed
  qed
qed

lemma kvsprintf_loop_spec:
  assumes "drop f fmt = cs @ 0 # rest" and "0 \<notin> set cs" and "parse_format cs = Some ds"
    and "format_text strs ds (args st) = Some t"
    and "pos st + length t \<le> length (out st)" and "length (internal_buffer st) = 512"
  shows "\<exists>st'. kvsprintf_loop strs fmt f st = Inr st' \<and> out st' = blit (out st) (pos st) t"
  using assms
proof (induction "length cs" arbitrary: f cs ds st t rule: less_induct)
  case less
  note prems = less.prems
  show ?case
  proof (cases cs)
    case Nil
    then have "rd fmt f = Inr 0" using prems(1) rd_drop [of f fmt 0] by auto
    then show ?thesis using Nil prems by (auto simp: kvsprintf_loop.simps [of strs])
  next
    case (Cons c cs')
    then have r: "rd fmt f = Inr c" "drop (Suc f) fmt = cs' @ 0 # rest" "c \<noteq> 0" "0 \<notin> set cs'"
      using prems(1,2) rd_drop [of f fmt c] by auto
    obtain d es g st1 t1 as1 where d: "parse_format es = Some (tl ds)" "ds = d # tl ds"
        "length es < length cs" "0 \<notin> set es" "drop g fmt = es @ 0 # rest"
        "emits t1 as1 st st1" "directive_text strs d (args st) = Some (t1, as1)"
        "kvsprintf_loop strs fmt f st = kvsprintf_loop strs fmt g st1"
    proof (cases "c = 37")
      case False
      then obtain es where e: "parse_format cs' = Some es" "ds = Literal c # es"
        using prems(3) Cons by auto
      have room: "pos st < length (out st)" using prems(4,5) e by (auto split: option.splits)
      obtain st1 where st1: "put_char c st = Inr st1" "emits [c] (args st) st st1"
        using put_char_spec [OF room prems(6)] by blast
      show thesis
        by (rule that [of cs' "Literal c" "Suc f" "[c]" "args st" st1])
          (use e Cons r st1 False in \<open>auto simp: kvsprintf_loop.simps [of strs fmt f]\<close>)
    next
      case True
      then obtain d es fs where e: "parse_directive cs' = Some (d, fs)" "parse_format fs = Some es" "ds = d # es"
        using prems(3) Cons by (auto split: option.splits)
      obtain t1 as1 where t1: "directive_text strs d (args st) = Some (t1, as1)"
        "pos st + length t1 \<le> length (out st)"
        using prems(4,5) e by (auto split: option.splits)
      obtain g st1 where g: "kv_directive strs fmt (Suc f) st = Inr (g, st1)" "emits t1 as1 st st1"
        "drop g fmt = fs @ 0 # rest"
        using kv_directive_spec [OF r(2) e(1) t1 prems(6)] by blast
      have "set fs \<subseteq> set cs'" using e(1) by (cases cs') (auto split: if_splits list.splits)
      then show thesis
        by (intro that [of fs d g t1 as1 st1])
          (use e Cons r g t1 True parse_directive_shorter [OF e(1)] in
            \<open>auto simp: kvsprintf_loop.simps [of strs fmt f]\<close>)
    qed
    obtain t2 where t2: "format_text strs (tl ds) as1 = Some t2" "t = t1 @ t2"
      using prems(4) d(2,7) by (cases ds) (auto split: option.splits)
    have s1: "out st1 = blit (out st) (pos st) t1" "pos st1 = pos st + length t1" "args st1 = as1"
      "length (internal_buffer st1) = 512" using d(6) by (simp_all add: emits_def)
    have "\<exists>st'. kvsprintf_loop strs fmt g st1 = Inr st' \<and> out st' = blit (out st1) (pos st1) t2"
      by (rule less.hyps [OF d(3) d(5) d(4) d(1)]) (use t2 s1 prems(5) in auto)
    then show ?thesis
      using d(8) s1 t2 blit_append [of "pos st" t1 t2 "out st"] prems(5) by auto
  qed
qed


lemma kvsprintf_loop_run:
  assumes "0 \<notin> set cs" and "parse_format cs = Some ds" and "format_text strs ds as = Some t"
    and "p + length t \<le> length buf" and "length stack = 512"
  shows "kvsprintf strs buf p stack (cs @ 0 # rest) as = Inr (blit buf p t)"
  using kvsprintf_loop_spec [of 0 "cs @ 0 # rest" cs rest ds strs
      "\<lparr>out = buf, pos = p, internal_buffer = stack, args = as\<rparr>" t] assms
  by (auto simp: kvsprintf_def)

text \<open>A percent sign at the end of the format takes the loop past the terminator.\<close>

lemma kvsprintf_trailing_percent:
  assumes "length stack = 512"
  shows "kvsprintf strs buf p stack [37, 0] as = Inl Bad_Read"
  by (simp add: kvsprintf_def kvsprintf_loop.simps [of strs "[37, 0]"] kv_directive_def conv32_def)

lemma decimal_length: "length (decimal (sint (a :: u32))) \<le> 11"
proof -
  have "- (2 ^ 31) \<le> sint a" "sint a < 2 ^ 31"
    using sint_greater_eq [of a] sint_lt [of a] by simp_all
  then have "length (num_chars 10 (nat \<bar>sint a\<bar>)) \<le> 10"
    by (intro num_chars_length) auto
  then show ?thesis by (auto simp: decimal_def)
qed

section \<open>Properties\<close>

text \<open>C22: \<open>kvsprintf\<close> writes exactly the text its format and arguments stand for, at the place it is given, and
  changes no other byte of the output (in particular it writes no terminator), whenever the format parses, the
  arguments are there and the text fits.\<close>

theorem kvsprintf_formats:
  assumes "0 \<notin> set cs" and "parse_format cs = Some ds" and "format_text strs ds as = Some t"
    and "p + length t \<le> length buf" and "length stack = 512"
  shows "kvsprintf strs buf p stack (cs @ 0 # rest) as = Inr (blit buf p t)"
  by (rule kvsprintf_loop_run [OF assms])

lemma decimal_42: "decimal 42 = [52, 50]"
  by (simp add: decimal_def num_chars_step digit_char_def)

text \<open>The format \<^verbatim>\<open>%s=%d\<close>, with a string at address 7.\<close>

theorem kvsprintf_formats_witness:
  "kvsprintf (\<lambda>_. [65, 66, 0]) (replicate 8 9) 1 (replicate 512 7) ([37, 115, 61, 37, 100] @ 0 # []) [7, 42]
    = Inr (blit (replicate 8 9) 1 [65, 66, 61, 52, 50])"
  by (rule kvsprintf_formats [where ds = "[String, Literal 61, Word32 100]"])
    (simp_all add: number_text_def is_number_conv_def decimal_42 has_nul_def cstr_def)

text \<open>\<open>kprintf\<close> hands a terminated string, the formatted text, to the serial port as long as that text is
  shorter than 1024 bytes.\<close>

theorem kprintf_text:
  assumes "0 \<notin> set cs" and "parse_format cs = Some ds" and "format_text strs ds as = Some t"
    and "length t < 1024" and "length stack = 512" and "length internal_buf = 1024"
  shows "\<exists>b. kprintf strs internal_buf stack (cs @ 0 # rest) as = Inr b \<and> has_nul b \<and> cstr b = cstr t"
proof -
  have b: "blit (replicate 1024 0) 0 t = t @ 0 # replicate (1023 - length t) (0 :: byte)"
    using assms(4) by (simp add: blit_def Suc_diff_Suc flip: replicate_Suc)
  have "memset internal_buf 0 0 1024 = Inr (replicate 1024 0)"
    using memset_full [of internal_buf 0] assms(6) by simp
  moreover have "kvsprintf strs (replicate 1024 0) 0 stack (cs @ 0 # rest) as = Inr (blit (replicate 1024 0) 0 t)"
    by (rule kvsprintf_loop_run [OF assms(1-3)]) (use assms in simp_all)
  moreover have "cstr (t @ 0 # ys) = cstr t" for ys
    by (induction t) (auto simp: cstr_def)
  ultimately show ?thesis by (simp add: kprintf_def b)
qed

theorem kprintf_text_witness:
  "\<exists>b. kprintf (\<lambda>_. []) (replicate 1024 9) (replicate 512 7) ([79, 75, 37, 120] @ 0 # []) [255] = Inr b \<and> has_nul b
    \<and> cstr b = cstr ([79, 75] @ unsigned_text 16 255)"
proof (rule kprintf_text [where ds = "[Literal 79, Literal 75, Word32 120]"])
  have "length (num_chars 16 255) \<le> 2" by (rule num_chars_length) simp_all
  then show "length ([79, 75] @ unsigned_text 16 255) < 1024" by (simp add: unsigned_text_def)
qed (simp_all add: number_text_def is_number_conv_def)

text \<open>\<open>%u\<close> does not print an unsigned number: from \<open>2 ^ 31 + 1\<close> on the argument comes out negative, with a
  minus sign, because it is converted by the signed \<open>itoa\<close>.\<close>

theorem kvsprintf_unsigned_is_signed:
  assumes "0x80000000 < unat a" and "p + 11 \<le> length buf" and "length stack = 512"
  shows "\<exists>t. kvsprintf strs buf p stack [37, 117, 0] [a] = Inr (blit buf p (45 # t))
    \<and> 45 # t = decimal (uint a - 2 ^ 32) \<and> uint a - 2 ^ 32 < 0"
proof -
  have u: "uint a = int (unat a)" by simp
  have lt: "uint a < 2 ^ 32" using unsigned_less [of a, where ?'a = int] by simp
  have s: "sint a = uint a - 2 ^ 32" using sint_big [of a] assms(1) by simp
  have neg: "uint a - 2 ^ 32 < 0" using lt by simp
  have ne: "a \<noteq> 0x80000000" using assms(1) by auto
  have len: "length (decimal (sint a)) \<le> 11"
    by (rule decimal_length)
  have "kvsprintf strs buf p stack ([37, 117] @ 0 # []) [a] = Inr (blit buf p (decimal (sint a)))"
    by (rule kvsprintf_loop_run [where ds = "[Word32 117]"])
      (use ne len assms in \<open>simp_all add: number_text_def is_number_conv_def\<close>)
  then show ?thesis using s neg by (auto simp: decimal_def)
qed

theorem kvsprintf_unsigned_is_signed_witness:
  "\<exists>t. kvsprintf (\<lambda>_. []) (replicate 16 0) 0 (replicate 512 0) [37, 117, 0] [0xFFFFFFFF]
      = Inr (blit (replicate 16 0) 0 (45 # t))
    \<and> 45 # t = decimal (uint (0xFFFFFFFF :: u32) - 2 ^ 32) \<and> uint (0xFFFFFFFF :: u32) - 2 ^ 32 < 0"
  by (rule kvsprintf_unsigned_is_signed) simp_all

end
