(* ===== verification/Paging.thy ===== *)
theory Paging
  imports KHeap
begin

text \<open>
  Page directories, \<^verbatim>\<open>src/src/kernel/memory/paging/paging.c\<close>.  A directory is a page of 1024 words; entry
  \<open>i\<close> holds the address of a page table, a page of 1024 words of its own, and flags in its low bits.  The
  model works on the bytes of memory.  The allocator is the interface of \<open>KHeap\<close>: what is proved about
  building and freeing a directory is proved over it and instantiated with the kernel heap.  The hardware
  (loading \<open>cr3\<close>) is a field of the state.
\<close>

section \<open>Words in memory\<close>

definition load32 :: "(u32 \<Rightarrow> byte) \<Rightarrow> u32 \<Rightarrow> u32" where
  "load32 m a = ucast (m a) OR push_bit 8 (ucast (m (a + 1))) OR push_bit 16 (ucast (m (a + 2)))
     OR push_bit 24 (ucast (m (a + 3)))"

definition store32 :: "(u32 \<Rightarrow> byte) \<Rightarrow> u32 \<Rightarrow> u32 \<Rightarrow> (u32 \<Rightarrow> byte)" where
  "store32 m a v = m(a := ucast v, a + 1 := ucast (drop_bit 8 v), a + 2 := ucast (drop_bit 16 v),
     a + 3 := ucast (drop_bit 24 v))"

text \<open>Entry \<open>k\<close> of an array of words at \<open>p\<close>.\<close>

definition slot :: "u32 \<Rightarrow> nat \<Rightarrow> u32" where
  "slot p k = p + 4 * word_of_nat k"

definition page :: "u32 \<Rightarrow> bool" where
  "page p = (unat p mod 4096 = 0)"

lemma page_bound: "page p \<Longrightarrow> unat p + 4096 \<le> 2 ^ 32"
proof -
  assume "page p"
  then obtain q where q: "unat p = 4096 * q" by (auto simp: page_def elim: dvdE)
  have "unat p < 2 ^ 32" using unsigned_less [of p, where ?'a = nat] by simp
  then have "q < 1048576" using q by simp
  then show ?thesis using q by simp
qed

lemma slot_unat: "page p \<Longrightarrow> k < 1024 \<Longrightarrow> unat (slot p k) = unat p + 4 * k"
  using page_bound [of p] by (simp add: slot_def unat_word_ariths unat_of_nat_small)

text \<open>Byte \<open>b\<close> of entry \<open>k\<close>.\<close>

definition slot_byte :: "u32 \<Rightarrow> nat \<Rightarrow> nat \<Rightarrow> u32" where
  "slot_byte p k b = slot p k + word_of_nat b"

lemma slot_byte_unat:
  "page p \<Longrightarrow> k < 1024 \<Longrightarrow> b < 4 \<Longrightarrow> unat (slot_byte p k b) = unat p + 4 * k + b"
  using page_bound [of p] by (simp add: slot_byte_def slot_unat unat_word_ariths unat_of_nat_small)

lemma slot_byte_inject:
  assumes "page p" "page q" "k < 1024" "l < 1024" "b < 4" "c < 4"
  shows "slot_byte p k b = slot_byte q l c \<longleftrightarrow> p = q \<and> k = l \<and> b = c"
proof
  assume "slot_byte p k b = slot_byte q l c"
  then have e: "unat p + 4 * k + b = unat q + 4 * l + c"
    using slot_byte_unat [of p k b] slot_byte_unat [of q l c] assms by simp
  obtain i j where ij: "unat p = 4096 * i" "unat q = 4096 * j"
    using assms(1,2) by (auto simp: page_def elim!: dvdE)
  have d: "(4096 * i + 4 * k + b) div 4096 = i" "(4096 * j + 4 * l + c) div 4096 = j"
    using assms by (intro div_nat_eqI; simp)+
  then have "i = j" using e ij by metis
  moreover have "(4 * k + b) div 4 = k" "(4 * l + c) div 4 = l"
    using assms by (intro div_nat_eqI; simp)+
  moreover have "4 * k + b = 4 * l + c" using e ij \<open>i = j\<close> by simp
  ultimately have "k = l" by metis
  then show "p = q \<and> k = l \<and> b = c" using e ij \<open>i = j\<close> by (auto simp: word_unat_eq_iff)
qed auto

lemma load_slot:
  "load32 m (slot p k) = ucast (m (slot_byte p k 0)) OR push_bit 8 (ucast (m (slot_byte p k 1)))
    OR push_bit 16 (ucast (m (slot_byte p k 2))) OR push_bit 24 (ucast (m (slot_byte p k 3)))"
  by (simp add: load32_def slot_byte_def)

lemma store_slot:
  "store32 m (slot p k) v = m(slot_byte p k 0 := ucast v, slot_byte p k 1 := ucast (drop_bit 8 v),
     slot_byte p k 2 := ucast (drop_bit 16 v), slot_byte p k 3 := ucast (drop_bit 24 v))"
  by (simp add: store32_def slot_byte_def)

lemma load_store_slot:
  assumes "page p" "page q" "k < 1024" "l < 1024"
  shows "load32 (store32 m (slot p k) v) (slot q l) = (if p = q \<and> k = l then v else load32 m (slot q l))"
  unfolding load_slot store_slot
  using assms by (auto simp: slot_byte_inject join_bytes32)

lemma slot_in_page:
  assumes "page p" "page q" "k < 1024" "b < 4"
  shows "slot_byte q k b \<in> region p 1 \<longleftrightarrow> p = q"
proof
  assume "slot_byte q k b \<in> region p 1"
  then have r: "unat p \<le> unat q + 4 * k + b" "unat q + 4 * k + b < unat p + 4096"
    using slot_byte_unat [of q k b] assms by (auto simp: region_def)
  obtain i j where ij: "unat p = 4096 * i" "unat q = 4096 * j"
    using assms(1,2) by (auto simp: page_def elim!: dvdE)
  have "(unat q + 4 * k + b) div 4096 = i" using r ij by (intro div_nat_eqI) auto
  moreover have "(unat q + 4 * k + b) div 4096 = j" using assms ij by (intro div_nat_eqI) auto
  ultimately have "i = j" by simp
  then show "p = q" using ij by (simp add: word_unat_eq_iff)
next
  assume "p = q"
  then show "slot_byte q k b \<in> region p 1"
    using slot_byte_unat [of q k b] assms by (simp add: region_def)
qed

lemma store_slot_outside:
  assumes "page p" "k < 1024" "a \<notin> region p 1"
  shows "store32 m (slot p k) v a = m a"
proof -
  have "a \<noteq> slot_byte p k b" if "b < 4" for b
    using slot_in_page [OF assms(1,1,2) that] assms(3) by auto
  then show ?thesis unfolding store_slot by simp
qed

lemma in_page_iff: "page p \<Longrightarrow> a \<in> region p 1 \<longleftrightarrow> unat (a - p) < 4096"
proof -
  assume p: "page p"
  show ?thesis
  proof
    assume "a \<in> region p 1"
    then have "unat p \<le> unat a" "unat a < unat p + 4096" by (auto simp: region_def)
    then show "unat (a - p) < 4096" by (simp add: unat_sub word_le_nat_alt)
  next
    assume s: "unat (a - p) < 4096"
    have "unat (a - p + p) = unat (a - p) + unat p"
      using s page_bound [OF p] by (intro unat_add_small) simp
    then show "a \<in> region p 1" using s by (simp add: region_def)
  qed
qed

lemma load_zeroed_slot:
  assumes "page p" "page q" "k < 1024"
  shows "load32 (\<lambda>a. if unat (a - p) < 4096 then 0 else m a) (slot q k) = (if p = q then 0 else load32 m (slot q k))"
proof -
  have "unat (slot_byte q k b - p) < 4096 \<longleftrightarrow> p = q" if "b < 4" for b
    using slot_in_page [OF assms that] in_page_iff [OF assms(1)] by simp
  then show ?thesis unfolding load_slot by simp
qed

section \<open>Definitions\<close>

definition PAGING_CACHE_DISABLED :: byte where "PAGING_CACHE_DISABLED = 0b00010000"
definition PAGING_WRITE_THROUGH :: byte where "PAGING_WRITE_THROUGH = 0b00001000"
definition PAGING_ACCESS_FROM_ALL :: byte where "PAGING_ACCESS_FROM_ALL = 0b00000100"
definition PAGING_IS_WRITEABLE :: byte where "PAGING_IS_WRITEABLE = 0b00000010"
definition PAGING_IS_PRESENT :: byte where "PAGING_IS_PRESENT = 0b00000001"

record paging_state = kmem +
  current_directory :: u32
  cr3 :: u32

definition paging_is_aligned :: "u32 \<Rightarrow> bool" where
  "paging_is_aligned addr = (addr mod 4096 = 0)"

text \<open>The status, or the two indexes.\<close>

definition paging_get_indexes :: "u32 \<Rightarrow> int + (u32 \<times> u32)" where
  "paging_get_indexes virtual_address =
     (if \<not> paging_is_aligned virtual_address then Inl (- EINVARG)
      else Inr (virtual_address div (1024 * 4096), (virtual_address mod (1024 * 4096)) div 4096))"

definition paging_load_directory :: "'a paging_state_scheme \<Rightarrow> u32 \<Rightarrow> 'a paging_state_scheme" where
  "paging_load_directory s directory = s\<lparr>cr3 := directory\<rparr>"

text \<open>A chunk is the address of its only field, \<open>directory_entry\<close>.\<close>

definition paging_get_directory :: "(u32 \<Rightarrow> byte) \<Rightarrow> u32 \<Rightarrow> u32" where
  "paging_get_directory m chunk = load32 m chunk"

text \<open>The loop over the entries of a table, after \<open>j\<close> rounds; \<open>offset\<close> and \<open>j * PAGING_PAGE_SIZE\<close> are
  \<open>int\<close>s that wrap on the machine.\<close>

primrec fill_table_loop :: "(u32 \<Rightarrow> byte) \<Rightarrow> u32 \<Rightarrow> u32 \<Rightarrow> byte \<Rightarrow> nat \<Rightarrow> (u32 \<Rightarrow> byte)" where
  "fill_table_loop m page_table offset flags 0 = m"
| "fill_table_loop m page_table offset flags (Suc j) =
     store32 (fill_table_loop m page_table offset flags j) (page_table + 4 * word_of_nat j)
       ((offset + word_of_nat j * 4096) OR ucast flags)"

text \<open>The loop over the directory, after \<open>i\<close> rounds, with the allocator as a parameter.\<close>

primrec new_directory_loop :: "('a kmem_scheme \<Rightarrow> u32 \<Rightarrow> fault + (u32 \<times> 'a kmem_scheme)) \<Rightarrow> byte \<Rightarrow> u32 \<Rightarrow> nat
    \<Rightarrow> 'a kmem_scheme \<Rightarrow> fault + (u32 \<times> 'a kmem_scheme)" where
  "new_directory_loop zalloc flags page_directories 0 s = Inr (0, s)"
| "new_directory_loop zalloc flags page_directories (Suc i) s =
     cbind (new_directory_loop zalloc flags page_directories i s) (\<lambda>(offset, s1).
     cbind (zalloc s1 (4 * 1024)) (\<lambda>(page_table, s2).
       let m = fill_table_loop (ram s2) page_table offset flags 1024;
           m' = store32 m (page_directories + 4 * word_of_nat i)
                  (page_table OR ucast flags OR ucast PAGING_IS_WRITEABLE)
       in Inr (offset + 1024 * 4096, s2\<lparr>ram := m'\<rparr>)))"

definition new_directory :: "('a kmem_scheme \<Rightarrow> u32 \<Rightarrow> fault + (u32 \<times> 'a kmem_scheme)) \<Rightarrow> byte
    \<Rightarrow> 'a kmem_scheme \<Rightarrow> fault + (u32 \<times> 'a kmem_scheme)" where
  "new_directory zalloc flags s =
     cbind (zalloc s (4 * 1024)) (\<lambda>(page_directories, s1).
     cbind (new_directory_loop zalloc flags page_directories 1024 s1) (\<lambda>(offset, s2).
     cbind (zalloc s2 4) (\<lambda>(chunk, s3).
       Inr (chunk, s3\<lparr>ram := store32 (ram s3) chunk page_directories\<rparr>))))"

definition paging_new_directory :: "byte \<Rightarrow> 'a kmem_scheme \<Rightarrow> fault + (u32 \<times> 'a kmem_scheme)" where
  "paging_new_directory = new_directory kzalloc"

primrec free_tables_loop :: "('a kmem_scheme \<Rightarrow> u32 \<Rightarrow> fault + 'a kmem_scheme) \<Rightarrow> u32 \<Rightarrow> nat
    \<Rightarrow> 'a kmem_scheme \<Rightarrow> fault + 'a kmem_scheme" where
  "free_tables_loop free chunk 0 s = Inr s"
| "free_tables_loop free chunk (Suc i) s =
     cbind (free_tables_loop free chunk i s) (\<lambda>s1.
       let entry = load32 (ram s1) (load32 (ram s1) chunk + 4 * word_of_nat i)
       in free s1 (entry AND 0xfffff000))"

definition free_directory :: "('a kmem_scheme \<Rightarrow> u32 \<Rightarrow> fault + 'a kmem_scheme) \<Rightarrow> u32
    \<Rightarrow> 'a kmem_scheme \<Rightarrow> fault + 'a kmem_scheme" where
  "free_directory free chunk s =
     cbind (free_tables_loop free chunk 1024 s) (\<lambda>s1.
     cbind (free s1 (load32 (ram s1) chunk)) (\<lambda>s2. free s2 chunk))"

definition paging_free_directory :: "u32 \<Rightarrow> 'a kmem_scheme \<Rightarrow> fault + 'a kmem_scheme" where
  "paging_free_directory = free_directory kfree"

definition paging_switch :: "'a paging_state_scheme \<Rightarrow> u32 \<Rightarrow> 'a paging_state_scheme" where
  "paging_switch s chunk =
     (let s1 = paging_load_directory s (load32 (ram s) chunk)
      in s1\<lparr>current_directory := load32 (ram s) chunk\<rparr>)"

definition paging_set_page :: "(u32 \<Rightarrow> byte) \<Rightarrow> u32 \<Rightarrow> u32 \<Rightarrow> u32 \<Rightarrow> int \<times> (u32 \<Rightarrow> byte)" where
  "paging_set_page m directory virtual_address value =
     (if \<not> paging_is_aligned virtual_address then (- EINVARG, m)
      else case paging_get_indexes virtual_address of
        Inl res \<Rightarrow> (res, m)
      | Inr (directory_index, page_table_index) \<Rightarrow>
          let page_directory_entry = load32 m (directory + 4 * directory_index);
              page_table = page_directory_entry AND 0xfffff000
          in (0, store32 m (page_table + 4 * page_table_index) value))"

definition paging_get_page :: "(u32 \<Rightarrow> byte) \<Rightarrow> u32 \<Rightarrow> u32 \<Rightarrow> u32" where
  "paging_get_page m directory virtual_address =
     (if \<not> paging_is_aligned virtual_address then word_of_int (- EINVARG)
      else case paging_get_indexes virtual_address of
        Inl res \<Rightarrow> word_of_int res
      | Inr (directory_index, page_table_index) \<Rightarrow>
          let page_directory_entry = load32 m (directory + 4 * directory_index);
              page_table = page_directory_entry AND 0xfffff000
          in load32 m (page_table + 4 * page_table_index))"

definition paging_align_address :: "u32 \<Rightarrow> u32" where
  "paging_align_address ptr = (if ptr mod 4096 \<noteq> 0 then ptr + 4096 - ptr mod 4096 else ptr)"

definition paging_align_address_to_lower_page :: "u32 \<Rightarrow> u32" where
  "paging_align_address_to_lower_page ptr = ptr - ptr mod 4096"

definition paging_map :: "(u32 \<Rightarrow> byte) \<Rightarrow> u32 \<Rightarrow> u32 \<Rightarrow> u32 \<Rightarrow> int \<Rightarrow> int \<times> (u32 \<Rightarrow> byte)" where
  "paging_map m chunk virtual physical flags =
     (if virtual mod 4096 \<noteq> 0 \<or> physical mod 4096 \<noteq> 0 then (- EINVARG, m)
      else paging_set_page m (load32 m chunk) virtual (physical OR word_of_int flags))"

primrec map_range_loop :: "(u32 \<Rightarrow> byte) \<Rightarrow> u32 \<Rightarrow> u32 \<Rightarrow> u32 \<Rightarrow> nat \<Rightarrow> int \<Rightarrow> int \<Rightarrow> int \<times> (u32 \<Rightarrow> byte)" where
  "map_range_loop m directory virtual physical 0 flags res = (res, m)"
| "map_range_loop m directory virtual physical (Suc n) flags res =
     (let (res', m') = paging_map m directory virtual physical flags
      in if res' < 0 then (res', m')
         else map_range_loop m' directory (virtual + 4096) (physical + 4096) n flags res')"

definition paging_map_range :: "(u32 \<Rightarrow> byte) \<Rightarrow> u32 \<Rightarrow> u32 \<Rightarrow> u32 \<Rightarrow> int \<Rightarrow> int \<Rightarrow> int \<times> (u32 \<Rightarrow> byte)" where
  "paging_map_range m directory virtual physical count flags =
     map_range_loop m directory virtual physical (nat count) flags 0"

definition paging_map_to :: "(u32 \<Rightarrow> byte) \<Rightarrow> u32 \<Rightarrow> u32 \<Rightarrow> u32 \<Rightarrow> u32 \<Rightarrow> int \<Rightarrow> int \<times> (u32 \<Rightarrow> byte)" where
  "paging_map_to m chunk virtual_address physical_address physical_end flags =
     (if virtual_address mod 4096 \<noteq> 0 then (- EINVARG, m)
      else if physical_address mod 4096 \<noteq> 0 then (- EINVARG, m)
      else if physical_end mod 4096 \<noteq> 0 then (- EINVARG, m)
      else if physical_end < physical_address then (- EINVARG, m)
      else let total_bytes = physical_end - physical_address;
               total_pages = sint (total_bytes div 4096)
           in paging_map_range m chunk virtual_address physical_address total_pages flags)"

section \<open>Translating addresses\<close>

definition dir_index :: "u32 \<Rightarrow> nat" where "dir_index v = unat v div 4194304"
definition tab_index :: "u32 \<Rightarrow> nat" where "tab_index v = unat v mod 4194304 div 4096"

text \<open>The directory at \<open>pd\<close> has the page tables \<open>pts\<close>, all of them different pages.\<close>

definition has_tables :: "(u32 \<Rightarrow> byte) \<Rightarrow> u32 \<Rightarrow> u32 list \<Rightarrow> bool" where
  "has_tables m pd pts = (page pd \<and> length pts = 1024 \<and> distinct (pd # pts) \<and> list_all page pts
     \<and> (\<forall>i<1024. load32 m (slot pd i) AND 0xfffff000 = pts ! i))"

text \<open>A chunk that points to such a directory.\<close>

definition address_space :: "(u32 \<Rightarrow> byte) \<Rightarrow> u32 \<Rightarrow> u32 \<Rightarrow> u32 list \<Rightarrow> bool" where
  "address_space m chunk pd pts = (page chunk \<and> chunk \<notin> set (pd # pts) \<and> load32 m chunk = pd
     \<and> has_tables m pd pts)"

lemma aligned_page: "paging_is_aligned v \<longleftrightarrow> page v"
  by (simp add: paging_is_aligned_def page_def unat_mod flip: unat_eq_zero)

lemma mod_page: "v mod 4096 = 0 \<longleftrightarrow> page v"
  using aligned_page by (simp add: paging_is_aligned_def)

lemma index_bounds [simp]: "dir_index v < 1024" "tab_index v < 1024"
proof -
  have "unat v < 2 ^ 32" using unsigned_less [of v, where ?'a = nat] by simp
  then show "dir_index v < 1024" by (simp add: dir_index_def less_mult_imp_div_less)
  show "tab_index v < 1024" by (simp add: tab_index_def less_mult_imp_div_less)
qed

lemma word_of_nat_unat: "word_of_nat (unat (w :: u32)) = w"
  by simp

lemma get_indexes_page:
  assumes "page v"
  obtains d t where "paging_get_indexes v = Inr (d, t)" "p + 4 * d = slot p (dir_index v)"
    "q + 4 * t = slot q (tab_index v)"
proof -
  have "unat (v div 4194304) = dir_index v" "unat ((v mod 4194304) div 4096) = tab_index v"
    by (simp_all add: dir_index_def tab_index_def unat_div unat_mod)
  then have "v div 4194304 = word_of_nat (dir_index v)" "(v mod 4194304) div 4096 = word_of_nat (tab_index v)"
    by (metis word_of_nat_unat)+
  then show thesis
    using assms by (intro that) (auto simp: paging_get_indexes_def aligned_page slot_def)
qed

lemma page_index: "page v \<Longrightarrow> unat v = 4194304 * dir_index v + 4096 * tab_index v"
proof -
  assume "page v"
  then have "unat v mod 4194304 mod 4096 = 0" by (simp add: page_def mod_mod_cancel)
  then have "unat v mod 4194304 = 4096 * tab_index v"
    using mult_div_mod_eq [of 4096 "unat v mod 4194304"] by (simp add: tab_index_def)
  then show ?thesis using mult_div_mod_eq [of 4194304 "unat v"] by (simp add: dir_index_def)
qed

lemma index_inject:
  assumes "page v" "page w" "dir_index v = dir_index w" "tab_index v = tab_index w"
  shows "v = w"
  using page_index [OF assms(1)] page_index [OF assms(2)] assms(3,4) by (simp add: word_unat_eq_iff)

lemma get_page_eq:
  assumes "has_tables m pd pts" and "page v"
  shows "paging_get_page m pd v = load32 m (slot (pts ! dir_index v) (tab_index v))"
proof -
  obtain d t where i: "paging_get_indexes v = Inr (d, t)" "pd + 4 * d = slot pd (dir_index v)"
    "pts ! dir_index v + 4 * t = slot (pts ! dir_index v) (tab_index v)"
    using assms(2) by (rule get_indexes_page)
  then show ?thesis
    using assms by (simp add: paging_get_page_def aligned_page has_tables_def)
qed

lemma set_page_eq:
  assumes "has_tables m pd pts" and "page v"
  shows "paging_set_page m pd v x = (0, store32 m (slot (pts ! dir_index v) (tab_index v)) x)"
proof -
  obtain d t where i: "paging_get_indexes v = Inr (d, t)" "pd + 4 * d = slot pd (dir_index v)"
    "pts ! dir_index v + 4 * t = slot (pts ! dir_index v) (tab_index v)"
    using assms(2) by (rule get_indexes_page)
  then show ?thesis
    using assms by (simp add: paging_set_page_def aligned_page has_tables_def)
qed

lemma table_page: "has_tables m pd pts \<Longrightarrow> i < 1024 \<Longrightarrow> page (pts ! i) \<and> pts ! i \<noteq> pd"
  by (auto simp: has_tables_def list_all_length)

lemma table_inject: "has_tables m pd pts \<Longrightarrow> i < 1024 \<Longrightarrow> j < 1024 \<Longrightarrow> pts ! i = pts ! j \<longleftrightarrow> i = j"
  by (auto simp: has_tables_def nth_eq_iff_index_eq)

lemma set_keeps_tables:
  assumes "has_tables m pd pts" and "i < 1024" and "j < 1024"
  shows "has_tables (store32 m (slot (pts ! i) j) x) pd pts"
  using assms table_page [OF assms(1,2)] by (auto simp: has_tables_def load_store_slot)

lemma get_set_page:
  assumes "has_tables m pd pts" and "page v" and "page w"
  shows "paging_get_page (snd (paging_set_page m pd v x)) pd w = (if w = v then x else paging_get_page m pd w)"
proof -
  have "paging_get_page (store32 m (slot (pts ! dir_index v) (tab_index v)) x) pd w
      = load32 (store32 m (slot (pts ! dir_index v) (tab_index v)) x) (slot (pts ! dir_index w) (tab_index w))"
    by (rule get_page_eq [OF set_keeps_tables [OF assms(1)] assms(3)]) simp_all
  then show ?thesis
    using assms table_page [OF assms(1)] table_inject [OF assms(1), of "dir_index v" "dir_index w"]
      index_inject [OF assms(2,3)]
    by (auto simp: set_page_eq get_page_eq load_store_slot)
qed


section \<open>Mapping ranges\<close>

lemma page_add: "page v \<Longrightarrow> page (v + 4096)"
proof -
  assume "page v"
  then have "unat (v + 4096) mod 4096 = (unat v + 4096) mod 2 ^ 32 mod 4096" by (simp add: unat_word_ariths)
  also have "\<dots> = (unat v + 4096) mod 4096" by (intro mod_mod_cancel) simp
  finally show ?thesis using \<open>page v\<close> by (simp add: page_def)
qed

lemma space_map:
  assumes "address_space m chunk pd pts" and "page virt" and "page phys"
  shows "fst (paging_map m chunk virt phys flags) = 0"
    and "address_space (snd (paging_map m chunk virt phys flags)) chunk pd pts"
    and "page w \<Longrightarrow> paging_get_page (snd (paging_map m chunk virt phys flags)) pd w
      = (if w = virt then phys OR word_of_int flags else paging_get_page m pd w)"
proof -
  let ?p = "pts ! dir_index virt"
  have t: "has_tables m pd pts" "load32 m chunk = pd" "page chunk" "chunk \<notin> set (pd # pts)"
    using assms(1) by (auto simp: address_space_def)
  have p: "page ?p" "?p \<noteq> chunk"
    using table_page [OF t(1), of "dir_index virt"] t by (auto simp: has_tables_def)
  have eq: "paging_map m chunk virt phys flags = paging_set_page m pd virt (phys OR word_of_int flags)"
    using assms(2,3) t(2) by (simp add: paging_map_def mod_page)
  have set: "paging_set_page m pd virt x = (0, store32 m (slot ?p (tab_index virt)) x)" for x
    by (rule set_page_eq [OF t(1) assms(2)])
  show "fst (paging_map m chunk virt phys flags) = 0" by (simp add: eq set)
  have "load32 (store32 m (slot ?p (tab_index virt)) x) (slot chunk 0) = load32 m (slot chunk 0)" for x
    using load_store_slot [OF p(1) t(3), of "tab_index virt" 0] p(2) by simp
  then have "load32 (store32 m (slot ?p (tab_index virt)) x) chunk = pd" for x
    using t(2) by (simp add: slot_def)
  then show "address_space (snd (paging_map m chunk virt phys flags)) chunk pd pts"
    using t set_keeps_tables [OF t(1)] by (simp add: eq set address_space_def)
  show "paging_get_page (snd (paging_map m chunk virt phys flags)) pd w
      = (if w = virt then phys OR word_of_int flags else paging_get_page m pd w)" if "page w"
    unfolding eq by (rule get_set_page [OF t(1) assms(2) that])
qed

text \<open>The pages of a range, and the page at a distance.\<close>

definition nth_page :: "u32 \<Rightarrow> nat \<Rightarrow> u32" where
  "nth_page v i = v + 4096 * word_of_nat i"

lemma nth_page_Suc: "nth_page v (Suc i) = nth_page (v + 4096) i"
  by (simp add: nth_page_def algebra_simps)

lemma nth_page_0 [simp]: "nth_page v 0 = v"
  by (simp add: nth_page_def)

lemma nth_page_ne:
  assumes "0 < i" and "i < 2 ^ 20"
  shows "nth_page v i \<noteq> v"
proof
  assume "nth_page v i = v"
  then have "4096 * word_of_nat i = (0 :: u32)" by (simp add: nth_page_def)
  moreover have "unat (4096 * word_of_nat i :: u32) = 4096 * i"
    using assms(2) by (simp add: unat_word_ariths unat_of_nat_small)
  ultimately show False using assms(1) by simp
qed

lemma map_range_loop_spec:
  assumes "address_space m chunk pd pts" and "page virt" and "page phys" and "n \<le> 2 ^ 20" and "0 \<le> res" and "res \<le> 0"
  shows "\<exists>m'. map_range_loop m chunk virt phys n flags res = (0, m') \<and> address_space m' chunk pd pts
    \<and> (\<forall>i<n. paging_get_page m' pd (nth_page virt i) = nth_page phys i OR word_of_int flags)
    \<and> (\<forall>w. page w \<longrightarrow> (\<forall>i<n. w \<noteq> nth_page virt i) \<longrightarrow> paging_get_page m' pd w = paging_get_page m pd w)"
  using assms
proof (induction n arbitrary: m virt phys res)
  case 0
  then show ?case by auto
next
  case (Suc n)
  obtain m1 where r: "paging_map m chunk virt phys flags = (0, m1)"
    using space_map(1) [OF Suc.prems(1-3), of flags] by (cases "paging_map m chunk virt phys flags") auto
  have sp: "address_space m1 chunk pd pts"
    using space_map(2) [OF Suc.prems(1-3), of flags] r by simp
  have get: "paging_get_page m1 pd w = (if w = virt then phys OR word_of_int flags else paging_get_page m pd w)"
    if "page w" for w using space_map(3) [OF Suc.prems(1-3) that, of flags] r by simp
  obtain m' where m': "map_range_loop m1 chunk (virt + 4096) (phys + 4096) n flags 0 = (0, m')"
    "address_space m' chunk pd pts"
    "\<forall>i<n. paging_get_page m' pd (nth_page (virt + 4096) i) = nth_page (phys + 4096) i OR word_of_int flags"
    "\<forall>w. page w \<longrightarrow> (\<forall>i<n. w \<noteq> nth_page (virt + 4096) i) \<longrightarrow> paging_get_page m' pd w = paging_get_page m1 pd w"
    using Suc.IH [OF sp page_add [OF Suc.prems(2)] page_add [OF Suc.prems(3)]] Suc.prems(4) by auto
  have first: "paging_get_page m' pd virt = phys OR word_of_int flags"
  proof -
    have "virt \<noteq> nth_page (virt + 4096) i" if "i < n" for i
      using nth_page_ne [of "Suc i" virt] that Suc.prems(4) by (simp add: nth_page_Suc)
    then show ?thesis using m'(4) get [of virt] Suc.prems(2) by auto
  qed
  have "paging_get_page m' pd (nth_page virt i) = nth_page phys i OR word_of_int flags" if "i < Suc n" for i
    using that first m'(3) by (cases i) (auto simp: nth_page_Suc)
  moreover have "paging_get_page m' pd w = paging_get_page m pd w"
    if "page w" "\<forall>i<Suc n. w \<noteq> nth_page virt i" for w
  proof -
    have "w \<noteq> virt" using that(2) by (metis nth_page_0 zero_less_Suc)
    moreover have "\<forall>i<n. w \<noteq> nth_page (virt + 4096) i"
      using that(2) by (metis Suc_mono nth_page_Suc)
    ultimately show ?thesis using m'(4) that(1) get [of w] by simp
  qed
  ultimately show ?case using m'(1,2) by (auto simp: r)
qed

lemma map_to_eq:
  "paging_map_to m chunk virt phys phys_end flags =
     (if \<not> page virt \<or> \<not> page phys \<or> \<not> page phys_end \<or> phys_end < phys then (- EINVARG, m)
      else map_range_loop m chunk virt phys ((unat phys_end - unat phys) div 4096) flags 0)"
proof -
  have "sint ((phys_end - phys) div 4096) = int ((unat phys_end - unat phys) div 4096)" if "phys \<le> phys_end"
  proof (rule sint_small)
    show "unat ((phys_end - phys) div 4096) = (unat phys_end - unat phys) div 4096"
      using that by (simp add: unat_div unat_sub)
    have "unat phys_end < 2 ^ 32" using unsigned_less [of phys_end, where ?'a = nat] by simp
    then show "(unat phys_end - unat phys) div 4096 < 2 ^ 31" by (simp add: less_mult_imp_div_less)
  qed
  then show ?thesis
    by (auto simp: paging_map_to_def paging_map_range_def mod_page Let_def not_less)
qed

section \<open>Building a directory\<close>

lemma fill_table_spec:
  assumes "page p" and "page q" and "n \<le> 1024" and "j < 1024"
  shows "load32 (fill_table_loop m p off fl n) (slot q j)
    = (if q = p \<and> j < n then (off + word_of_nat j * 4096) OR ucast fl else load32 m (slot q j))"
  using assms(3)
proof (induction n)
  case (Suc n)
  have "p + 4 * word_of_nat n = slot p n" by (simp add: slot_def)
  then show ?case
    using Suc load_store_slot [OF assms(1,2) _ assms(4), of n] by (auto simp: less_Suc_eq)
qed simp

lemma fill_table_outside:
  assumes "page p" and "n \<le> 1024" and "a \<notin> region p 1"
  shows "fill_table_loop m p off fl n a = m a"
  using assms(2)
proof (induction n)
  case (Suc n)
  have "p + 4 * word_of_nat n = slot p n" by (simp add: slot_def)
  then show ?case using Suc store_slot_outside [OF assms(1) _ assms(3), of n] by simp
qed simp

lemma load_other_page:
  assumes "page p" "page q" "k < 1024" "p \<noteq> q" "n \<le> 4096"
    and "m' = (\<lambda>a. if unat (a - p) < n then 0 else m a)"
  shows "load32 m' (slot q k) = load32 m (slot q k)"
proof -
  have "\<not> unat (slot_byte q k b - p) < n" if "b < 4" for b
    using slot_in_page [OF assms(1-3) that] in_page_iff [OF assms(1)] assms(4,5) by (meson order_less_le_trans)
  then show ?thesis unfolding load_slot assms(6) by simp
qed

lemma page_low_bits: "page p \<Longrightarrow> n < 12 \<Longrightarrow> \<not> bit p n"
proof -
  assume p: "page p" "n < 12"
  have "unat (take_bit 12 p) = take_bit 12 (unat p)" by (simp add: unsigned_take_bit_eq)
  also have "\<dots> = 0" using p(1) by (simp add: page_def take_bit_eq_mod)
  finally have "take_bit 12 p = 0" by (simp add: unat_eq_zero)
  then have "\<not> bit (take_bit 12 p) n" by simp
  then show ?thesis using p(2) by (simp add: bit_take_bit_iff)
qed

lemma mask_entry:
  assumes "page p"
  shows "(p OR ucast (f :: byte) OR ucast (g :: byte)) AND 0xfffff000 = p"
proof (rule bit_word_eqI)
  fix n :: nat
  assume "n < LENGTH(32)"
  have f: "(0xfffff000 :: u32) = NOT (mask 12)" by (simp add: mask_eq_exp_minus_1)
  have "\<not> bit (ucast f :: u32) n" "\<not> bit (ucast g :: u32) n" if "12 \<le> n"
    using that bit_imp_le_length [of f n] bit_imp_le_length [of g n] by (auto simp: bit_unsigned_iff)
  then show "bit ((p OR ucast f OR ucast g) AND 0xfffff000) n = bit p n"
    using page_low_bits [OF assms, of n] \<open>n < LENGTH(32)\<close> unfolding f
    by (cases "n < 12") (auto simp: bit_simps not_less)
qed


text \<open>What building and freeing a directory relies on: the page allocator, whose books do not depend on the
  contents of memory.\<close>

locale kernel_pages = page_allocator inv owned room ram zalloc
  for inv :: "'a kmem_scheme \<Rightarrow> bool"
    and owned :: "'a kmem_scheme \<Rightarrow> (u32 \<times> nat) set"
    and room :: "'a kmem_scheme \<Rightarrow> nat"
    and zalloc :: "'a kmem_scheme \<Rightarrow> u32 \<Rightarrow> fault + (u32 \<times> 'a kmem_scheme)" +
  assumes inv_ram: "inv (s\<lparr>ram := m\<rparr>) = inv s"
    and owned_ram: "owned (s\<lparr>ram := m\<rparr>) = owned s"
    and room_ram: "room (s\<lparr>ram := m\<rparr>) = room s"
begin

lemma owned_page: "inv s \<Longrightarrow> (p, n) \<in> owned s \<Longrightarrow> page p"
  using owned_aligned by (simp add: page_def)

text \<open>The page tables after \<open>i\<close> rounds.\<close>

definition tables_built :: "'a kmem_scheme \<Rightarrow> byte \<Rightarrow> u32 \<Rightarrow> u32 list \<Rightarrow> 'a kmem_scheme \<Rightarrow> bool" where
  "tables_built s0 flags pd pts s = (inv s \<and> room s0 = room s + length pts
     \<and> owned s = owned s0 \<union> (\<lambda>p. (p, 1)) ` set pts \<and> distinct pts
     \<and> (\<forall>p\<in>set pts. (p, 1) \<notin> owned s0)
     \<and> (\<forall>i<length pts. load32 (ram s) (slot pd i) = pts ! i OR ucast flags OR ucast PAGING_IS_WRITEABLE)
     \<and> (\<forall>i<length pts. \<forall>j<1024. load32 (ram s) (slot (pts ! i) j)
          = (word_of_nat i * 4194304 + word_of_nat j * 4096) OR ucast flags)
     \<and> (\<forall>a. a \<notin> region pd 1 \<longrightarrow> (\<forall>p\<in>set pts. a \<notin> region p 1) \<longrightarrow> ram s a = ram s0 a))"

lemma new_directory_loop_step:
  assumes built: "tables_built s0 flags pd pts s" and room: "0 < room s" and len: "length pts < 1024"
    and pd: "(pd, 1) \<in> owned s0"
  obtains p s2 where "zalloc s 4096 = Inr (p, s2)"
    and "tables_built s0 flags pd (pts @ [p]) (s2\<lparr>ram :=
      store32 (fill_table_loop (ram s2) p (word_of_nat (length pts) * 4194304) flags 1024)
        (pd + 4 * word_of_nat (length pts)) (p OR ucast flags OR ucast PAGING_IS_WRITEABLE)\<rparr>)"
proof -
  have b: "inv s" "owned s = owned s0 \<union> (\<lambda>p. (p, 1)) ` set pts" "distinct pts"
    "\<And>i. i < length pts \<Longrightarrow> load32 (ram s) (slot pd i) = pts ! i OR ucast flags OR ucast PAGING_IS_WRITEABLE"
    "\<And>i j. i < length pts \<Longrightarrow> j < 1024 \<Longrightarrow> load32 (ram s) (slot (pts ! i) j)
          = (word_of_nat i * 4194304 + word_of_nat j * 4096) OR ucast flags"
    "\<And>a. a \<notin> region pd 1 \<Longrightarrow> \<forall>p\<in>set pts. a \<notin> region p 1 \<Longrightarrow> ram s a = ram s0 a"
    "\<And>p. p \<in> set pts \<Longrightarrow> (p, 1) \<notin> owned s0" "room s0 = room s + length pts"
    using built unfolding tables_built_def by blast+
  obtain p s2 where z: "zalloc s 4096 = Inr (p, s2)" "inv s2" "room s = Suc (room s2)"
    "owned s2 = insert (p, 1) (owned s)" "unat p mod 4096 = 0"
    "\<And>q n. (q, n) \<in> owned s \<Longrightarrow> region p 1 \<inter> region q n = {}"
    "ram s2 = (\<lambda>a. if unat (a - p) < 4096 then 0 else ram s a)"
    by (rule zalloc_page [OF b(1) room, of 4096]) auto
  have pg: "page p" using z(5) by (simp add: page_def)
  have own: "(q, 1) \<in> owned s" "page q" if "q = pd \<or> q \<in> set pts" for q
    using that b(2) pd owned_page [OF b(1), of q 1] by auto
  have ne: "p \<noteq> q" if "(q, 1) \<in> owned s" for q
  proof
    assume "p = q"
    then have "p \<in> region q 1" by (simp add: region_def)
    then show False using z(6) [OF that] \<open>p = q\<close> by auto
  qed
  define m where "m = fill_table_loop (ram s2) p (word_of_nat (length pts) * 4194304) flags 1024"
  define m' where "m' = store32 m (slot pd (length pts)) (p OR ucast flags OR ucast PAGING_IS_WRITEABLE)"
  have other: "load32 m (slot q j) = load32 (ram s) (slot q j)" if "page q" "j < 1024" "p \<noteq> q" for q j
    unfolding m_def using that load_other_page [OF pg that(1,2,3), of 4096 "ram s2" "ram s"] z(7)
    by (simp add: fill_table_spec [OF pg])
  have load: "load32 m' (slot q j) = (if q = pd \<and> j = length pts then p OR ucast flags OR ucast PAGING_IS_WRITEABLE
      else load32 m (slot q j))" if "page q" "j < 1024" for q j
    unfolding m'_def using load_store_slot [OF own(2) that(1) len that(2), of pd] by auto
  have new: "load32 m' (slot p j) = (word_of_nat (length pts) * 4194304 + word_of_nat j * 4096) OR ucast flags"
    if "j < 1024" for j
    using load [OF pg that] ne [of pd] own(1) [of pd] fill_table_spec [OF pg pg, of 1024 j] that by (simp add: m_def)
  have dir: "load32 m' (slot pd i) = (pts @ [p]) ! i OR ucast flags OR ucast PAGING_IS_WRITEABLE"
    if "i < Suc (length pts)" for i
    using load [of pd i] other [of pd i] own [of pd] ne [of pd] b(4) [of i] that len
    by (cases "i = length pts") (auto simp: nth_append)
  have tab: "load32 m' (slot ((pts @ [p]) ! i) j) = (word_of_nat i * 4194304 + word_of_nat j * 4096) OR ucast flags"
    if "i < Suc (length pts)" "j < 1024" for i j
  proof (cases "i = length pts")
    case True
    then show ?thesis using new [OF that(2)] by simp
  next
    case False
    then have i: "i < length pts" using that by simp
    have q: "pts ! i \<in> set pts" using i by simp
    have "pts ! i \<noteq> pd" using b(7) [OF q] pd by auto
    then show ?thesis
      using load [of "pts ! i" j] other [of "pts ! i" j] own [of "pts ! i"] ne [of "pts ! i"] b(5) [OF i that(2)] i q that(2)
      by (simp add: nth_append)
  qed
  have frame: "m' a = ram s0 a" if "a \<notin> region pd 1" "\<forall>q\<in>set (pts @ [p]). a \<notin> region q 1" for a
  proof -
    have "m' a = m a" unfolding m'_def by (rule store_slot_outside [OF own(2) len that(1)]) simp
    moreover have "m a = ram s2 a" unfolding m_def using that(2) by (intro fill_table_outside [OF pg]) auto
    moreover have "ram s2 a = ram s a" using in_page_iff [OF pg, of a] that(2) z(7) by simp
    ultimately show ?thesis using b(6) that by simp
  qed
  have "tables_built s0 flags pd (pts @ [p]) (s2\<lparr>ram := m'\<rparr>)"
    unfolding tables_built_def
  proof (intro conjI)
    show "owned (s2\<lparr>ram := m'\<rparr>) = owned s0 \<union> (\<lambda>p. (p, 1)) ` set (pts @ [p])"
      using z(4) b(2) by (auto simp: owned_ram)
    show "distinct (pts @ [p])" using b(3) ne own(1) by auto
    show "\<forall>q\<in>set (pts @ [p]). (q, 1) \<notin> owned s0" using b(2,7) ne by auto
    show "inv (s2\<lparr>ram := m'\<rparr>)" using z(2) by (simp add: inv_ram)
    show "room s0 = room (s2\<lparr>ram := m'\<rparr>) + length (pts @ [p])" using z(3) b(8) by (simp add: room_ram)
  qed (use dir tab frame in auto)
  then show thesis
    using that [of p s2] z(1) by (simp add: m_def m'_def slot_def)
qed

lemma new_directory_loop_spec:
  assumes "inv s0" and "n \<le> 1024" and "n \<le> room s0" and pd: "(pd, 1) \<in> owned s0"
  shows "\<exists>pts s. new_directory_loop zalloc flags pd n s0 = Inr (word_of_nat n * 4194304, s)
    \<and> length pts = n \<and> tables_built s0 flags pd pts s"
  using assms(2,3)
proof (induction n)
  case 0
  then show ?case using assms(1) by (auto simp: tables_built_def)
next
  case (Suc n)
  then obtain pts s where s: "new_directory_loop zalloc flags pd n s0 = Inr (word_of_nat n * 4194304, s)"
    "length pts = n" "tables_built s0 flags pd pts s" by auto
  have "0 < room s" using s(2,3) Suc.prems(2) by (simp add: tables_built_def)
  moreover have "length pts < 1024" using s(2) Suc.prems(1) by simp
  ultimately obtain p s2 where p: "zalloc s 4096 = Inr (p, s2)"
    "tables_built s0 flags pd (pts @ [p]) (s2\<lparr>ram :=
      store32 (fill_table_loop (ram s2) p (word_of_nat (length pts) * 4194304) flags 1024)
        (pd + 4 * word_of_nat (length pts)) (p OR ucast flags OR ucast PAGING_IS_WRITEABLE)\<rparr>)"
    using new_directory_loop_step [OF s(3) _ _ pd] by blast
  let ?s' = "s2\<lparr>ram :=
      store32 (fill_table_loop (ram s2) p (word_of_nat (length pts) * 4194304) flags 1024)
        (pd + 4 * word_of_nat (length pts)) (p OR ucast flags OR ucast PAGING_IS_WRITEABLE)\<rparr>"
  have "new_directory_loop zalloc flags pd (Suc n) s0 = Inr (word_of_nat (Suc n) * 4194304, ?s')"
    using s p(1) by (simp add: distrib_right)
  then show ?case using p(2) s(2) by (intro exI [of _ "pts @ [p]"] exI [of _ ?s']) simp
qed

text \<open>What the new directory is: an address space on fresh pages which maps every page to itself.\<close>

definition directory_built :: "'a kmem_scheme \<Rightarrow> byte \<Rightarrow> u32 \<Rightarrow> u32 \<Rightarrow> u32 list \<Rightarrow> 'a kmem_scheme \<Rightarrow> bool" where
  "directory_built s flags chunk pd pts s' = (inv s' \<and> room s = room s' + 1026
     \<and> address_space (ram s') chunk pd pts
     \<and> owned s' = owned s \<union> (\<lambda>p. (p, 1)) ` set (chunk # pd # pts)
     \<and> (\<forall>p\<in>set (chunk # pd # pts). (p, 1) \<notin> owned s)
     \<and> (\<forall>v. page v \<longrightarrow> paging_get_page (ram s') pd v = v OR ucast flags)
     \<and> (\<forall>q n. (q, n) \<in> owned s \<longrightarrow> (\<forall>a\<in>region q n. ram s' a = ram s a)))"

lemma page_word: "page v \<Longrightarrow> word_of_nat (dir_index v) * 4194304 + word_of_nat (tab_index v) * 4096 = v"
proof -
  assume "page v"
  then have "unat v = dir_index v * 4194304 + tab_index v * 4096" by (simp add: page_index)
  then have "word_of_nat (unat v) = (word_of_nat (dir_index v * 4194304 + tab_index v * 4096) :: u32)" by simp
  then show ?thesis by (simp add: word_of_nat_unat)
qed

lemma new_directory_spec:
  assumes "inv s" and "1026 \<le> room s"
  shows "\<exists>chunk pd pts s'. new_directory zalloc flags s = Inr (chunk, s')
    \<and> directory_built s flags chunk pd pts s'"
proof -
  obtain pd s1 where pd: "zalloc s 4096 = Inr (pd, s1)" "inv s1" "room s = Suc (room s1)"
    "owned s1 = insert (pd, 1) (owned s)" "unat pd mod 4096 = 0"
    "\<And>q n. (q, n) \<in> owned s \<Longrightarrow> region pd 1 \<inter> region q n = {}"
    "ram s1 = (\<lambda>a. if unat (a - pd) < unat (4096 :: u32) then 0 else ram s a)"
    by (rule zalloc_page [OF assms(1), of 4096]) (use assms(2) in auto)
  obtain pts s2 where s2: "new_directory_loop zalloc flags pd 1024 s1 = Inr (word_of_nat 1024 * 4194304, s2)"
    "length pts = 1024" "tables_built s1 flags pd pts s2"
    using new_directory_loop_spec [OF pd(2), of 1024 pd flags] assms(2) pd(3,4) by auto
  have b: "inv s2" "room s1 = room s2 + 1024" "owned s2 = owned s1 \<union> (\<lambda>p. (p, 1)) ` set pts" "distinct pts"
    "\<And>p. p \<in> set pts \<Longrightarrow> (p, 1) \<notin> owned s1"
    "\<And>i. i < 1024 \<Longrightarrow> load32 (ram s2) (slot pd i) = pts ! i OR ucast flags OR ucast PAGING_IS_WRITEABLE"
    "\<And>i j. i < 1024 \<Longrightarrow> j < 1024 \<Longrightarrow> load32 (ram s2) (slot (pts ! i) j)
          = (word_of_nat i * 4194304 + word_of_nat j * 4096) OR ucast flags"
    "\<And>a. a \<notin> region pd 1 \<Longrightarrow> \<forall>p\<in>set pts. a \<notin> region p 1 \<Longrightarrow> ram s2 a = ram s1 a"
    using s2(2,3) unfolding tables_built_def by auto
  obtain ch s3 where ch: "zalloc s2 4 = Inr (ch, s3)" "inv s3" "room s2 = Suc (room s3)"
    "owned s3 = insert (ch, 1) (owned s2)" "unat ch mod 4096 = 0"
    "\<And>q n. (q, n) \<in> owned s2 \<Longrightarrow> region ch 1 \<inter> region q n = {}"
    "ram s3 = (\<lambda>a. if unat (a - ch) < unat (4 :: u32) then 0 else ram s2 a)"
    by (rule zalloc_page [OF b(1), of 4]) (use assms(2) pd(3) b(2) in auto)
  have pgs: "page pd" "page ch" "page p" if "p \<in> set pts" for p
    using pd(5) ch(5) owned_page [OF b(1), of p 1] b(3) that by (auto simp: page_def)
  have pgpd: "page pd" "page ch" using pd(5) ch(5) by (auto simp: page_def)
  have own2: "(q, 1) \<in> owned s2" if "q = pd \<or> q \<in> set pts" for q using that b(3) pd(4) by auto
  have chne: "ch \<noteq> q" if "(q, 1) \<in> owned s2" for q
  proof
    assume "ch = q"
    then have "ch \<in> region q 1" by (simp add: region_def)
    then show False using ch(6) [OF that] \<open>ch = q\<close> by auto
  qed
  define m where "m = store32 (ram s3) (slot ch 0) pd"
  have load: "load32 m (slot q j) = load32 (ram s2) (slot q j)" if "q = pd \<or> q \<in> set pts" "j < 1024" for q j
  proof -
    have q: "page q" "ch \<noteq> q" using that(1) pgpd pgs(3) chne [OF own2 [OF that(1)]] by auto
    have "load32 m (slot q j) = load32 (ram s3) (slot q j)"
      unfolding m_def using load_store_slot [OF pgpd(2) q(1) _ that(2), of 0] q(2) by simp
    also have "\<dots> = load32 (ram s2) (slot q j)"
      by (rule load_other_page [OF pgpd(2) q(1) that(2) q(2), of 4]) (simp_all add: ch(7))
    finally show ?thesis .
  qed
  have pts_ne: "pd \<notin> set pts" using b(5) [of pd] pd(4) by auto
  have tabs: "has_tables m pd pts"
    unfolding has_tables_def
  proof (intro conjI allI impI)
    fix i :: nat assume "i < 1024"
    then show "load32 m (slot pd i) AND 0xfffff000 = pts ! i"
      using load [of pd i] b(6) [of i] mask_entry pgs(3) [of "pts ! i"] s2(2) by simp
  qed (use pgpd s2(2) b(4) pts_ne pgs(3) in \<open>auto simp: list_all_iff\<close>)
  have "load32 m (slot ch 0) = pd" unfolding m_def using load_store_slot [OF pgpd(2,2), of 0 0] by simp
  then have space: "address_space m ch pd pts"
    using tabs pgpd chne own2 by (auto simp: address_space_def slot_def)
  have ident: "paging_get_page m pd v = v OR ucast flags" if "page v" for v
  proof -
    have "pts ! dir_index v \<in> set pts" using s2(2) by simp
    then show ?thesis
      using get_page_eq [OF tabs that] load [of "pts ! dir_index v" "tab_index v"]
        b(7) [of "dir_index v" "tab_index v"] page_word [OF that] by simp
  qed
  have frame: "m a = ram s a" if o: "(q, n) \<in> owned s" and a: "a \<in> region q n" for q n a
  proof -
    have o1: "(q, n) \<in> owned s1" and o2: "(q, n) \<in> owned s2" using o pd(4) b(3) by auto
    have out: "a \<notin> region p 1" if "p \<in> set pts" for p
    proof -
      have "(p, 1) \<in> owned s2" "(p, 1) \<noteq> (q, n)" using that b(3,5) o1 by auto
      then show ?thesis using owned_disjoint [OF b(1) _ o2] a by blast
    qed
    have outs: "a \<notin> region pd 1" "a \<notin> region ch 1" using pd(6) [OF o] ch(6) [OF o2] a by auto
    have "m a = ram s3 a" unfolding m_def by (rule store_slot_outside [OF pgpd(2) _ outs(2)]) simp
    also have "\<dots> = ram s2 a" using in_page_iff [OF pgpd(2), of a] outs(2) ch(7) by simp
    also have "\<dots> = ram s1 a" using b(8) outs(1) out by blast
    also have "\<dots> = ram s a" using in_page_iff [OF pgpd(1), of a] outs(1) pd(7) by simp
    finally show ?thesis .
  qed
  have run: "new_directory zalloc flags s = Inr (ch, s3\<lparr>ram := m\<rparr>)"
    using pd(1) s2(1) ch(1) by (simp add: new_directory_def m_def slot_def)
  have fresh: "(p, 1) \<notin> owned s" if "p \<in> set (ch # pd # pts)" for p
  proof -
    have "(ch, 1) \<notin> owned s" using chne [of ch] b(3) pd(4) by blast
    moreover have "(pd, 1) \<notin> owned s"
    proof
      assume "(pd, 1) \<in> owned s"
      moreover have "pd \<in> region pd 1" by (simp add: region_def)
      ultimately show False using pd(6) by blast
    qed
    ultimately show ?thesis using that b(5) pd(4) by auto
  qed
  have "directory_built s flags ch pd pts (s3\<lparr>ram := m\<rparr>)"
    unfolding directory_built_def
    using ch(2,3,4) pd(3,4) b(2,3) space ident frame fresh by (auto simp: inv_ram room_ram owned_ram)
  then show ?thesis using run by blast
qed

end

text \<open>Freeing: a page that was handed out can be given back.\<close>

locale page_freeing = kernel_pages inv owned room zalloc
  for inv :: "'a kmem_scheme \<Rightarrow> bool"
    and owned :: "'a kmem_scheme \<Rightarrow> (u32 \<times> nat) set"
    and room :: "'a kmem_scheme \<Rightarrow> nat"
    and zalloc :: "'a kmem_scheme \<Rightarrow> u32 \<Rightarrow> fault + (u32 \<times> 'a kmem_scheme)" +
  fixes free :: "'a kmem_scheme \<Rightarrow> u32 \<Rightarrow> fault + 'a kmem_scheme"
  assumes frees: "inv s \<Longrightarrow> (p, n) \<in> owned s \<Longrightarrow> \<exists>s'. free s p = Inr s' \<and> inv s'
      \<and> owned s' = owned s - {(p, n)} \<and> room s' = room s + n \<and> ram s' = ram s"
begin

lemma free_tables_loop_spec:
  assumes "inv s" and space: "address_space (ram s) chunk pd pts" and own: "\<forall>p\<in>set pts. (p, 1) \<in> owned s"
    and "n \<le> 1024"
  shows "\<exists>s'. free_tables_loop free chunk n s = Inr s' \<and> inv s' \<and> ram s' = ram s
    \<and> owned s' = owned s - (\<lambda>p. (p, 1)) ` set (take n pts) \<and> room s' = room s + n"
  using assms(4)
proof (induction n)
  case 0
  then show ?case using assms(1) by simp
next
  case (Suc n)
  have sp: "length pts = 1024" "distinct pts" "load32 (ram s) chunk = pd"
    "load32 (ram s) (slot pd n) AND 0xfffff000 = pts ! n"
    using space Suc.prems by (auto simp: address_space_def has_tables_def)
  obtain s1 where s1: "free_tables_loop free chunk n s = Inr s1" "inv s1" "ram s1 = ram s"
    "owned s1 = owned s - (\<lambda>p. (p, 1)) ` set (take n pts)" "room s1 = room s + n"
    using Suc by auto
  have n: "n < length pts" "pts ! n \<in> set pts" using Suc.prems sp(1) by auto
  have new: "pts ! n \<notin> set (take n pts)"
    using sp(2) n by (auto simp: in_set_conv_nth nth_eq_iff_index_eq)
  have "(pts ! n, 1) \<in> owned s1" using s1(4) own n new by auto
  then obtain s2 where s2: "free s1 (pts ! n) = Inr s2" "inv s2" "owned s2 = owned s1 - {(pts ! n, 1)}"
    "room s2 = room s1 + 1" "ram s2 = ram s1"
    using frees [OF s1(2)] by blast
  have "free_tables_loop free chunk (Suc n) s = Inr s2"
    using s1(1,3) s2(1) sp(3,4) by (simp add: slot_def)
  moreover have "owned s2 = owned s - (\<lambda>p. (p, 1)) ` set (take (Suc n) pts)"
    using s1(4) s2(3) n by (auto simp: take_Suc_conv_app_nth)
  ultimately show ?case using s1 s2 by simp
qed

lemma free_directory_spec:
  assumes "inv s" and space: "address_space (ram s) chunk pd pts"
    and own: "\<forall>p\<in>set (chunk # pd # pts). (p, 1) \<in> owned s"
  shows "\<exists>s'. free_directory free chunk s = Inr s' \<and> inv s' \<and> ram s' = ram s
    \<and> owned s' = owned s - (\<lambda>p. (p, 1)) ` set (chunk # pd # pts) \<and> room s' = room s + 1026"
proof -
  have sp: "length pts = 1024" "chunk \<noteq> pd" "chunk \<notin> set pts" "pd \<notin> set pts" "load32 (ram s) chunk = pd"
    using space by (auto simp: address_space_def has_tables_def)
  obtain s1 where s1: "free_tables_loop free chunk 1024 s = Inr s1" "inv s1" "ram s1 = ram s"
    "owned s1 = owned s - (\<lambda>p. (p, 1)) ` set pts" "room s1 = room s + 1024"
    using free_tables_loop_spec [OF assms(1) space, of 1024] own sp(1) by auto
  have "(pd, 1) \<in> owned s1" using s1(4) own sp by auto
  then obtain s2 where s2: "free s1 pd = Inr s2" "inv s2" "owned s2 = owned s1 - {(pd, 1)}"
    "room s2 = room s1 + 1" "ram s2 = ram s1"
    using frees [OF s1(2)] by blast
  have "(chunk, 1) \<in> owned s2" using s1(4) s2(3) own sp by auto
  then obtain s3 where s3: "free s2 chunk = Inr s3" "inv s3" "owned s3 = owned s2 - {(chunk, 1)}"
    "room s3 = room s2 + 1" "ram s3 = ram s2"
    using frees [OF s2(2)] by blast
  have "free_directory free chunk s = Inr s3"
    using s1 s2 s3 sp(5) by (simp add: free_directory_def)
  moreover have "owned s3 = owned s - (\<lambda>p. (p, 1)) ` set (chunk # pd # pts)"
    using s1(4) s2(3) s3(3) by auto
  ultimately show ?thesis using s1 s2 s3 by simp
qed

lemma new_free_directory:
  assumes "inv s" and "1026 \<le> room s"
  shows "\<exists>chunk s1 s2. new_directory zalloc flags s = Inr (chunk, s1) \<and> free_directory free chunk s1 = Inr s2
    \<and> inv s2 \<and> owned s2 = owned s \<and> room s2 = room s"
proof -
  obtain chunk pd pts s1 where s1: "new_directory zalloc flags s = Inr (chunk, s1)"
    "directory_built s flags chunk pd pts s1"
    using new_directory_spec [OF assms] by blast
  have d: "inv s1" "room s = room s1 + 1026" "address_space (ram s1) chunk pd pts"
    "owned s1 = owned s \<union> (\<lambda>p. (p, 1)) ` set (chunk # pd # pts)"
    "\<forall>p\<in>set (chunk # pd # pts). (p, 1) \<notin> owned s"
    using s1(2) by (simp_all add: directory_built_def)
  have "\<forall>p\<in>set (chunk # pd # pts). (p, 1) \<in> owned s1" using d(4) by auto
  then obtain s2 where "free_directory free chunk s1 = Inr s2" "inv s2"
    "owned s2 = owned s1 - (\<lambda>p. (p, 1)) ` set (chunk # pd # pts)" "room s2 = room s1 + 1026"
    using free_directory_spec [OF d(1,3)] by blast
  moreover have "owned s1 - (\<lambda>p. (p, 1)) ` set (chunk # pd # pts) = owned s" using d(4,5) by auto
  ultimately show ?thesis using s1(1) d(2) by auto
qed

end

section \<open>The kernel heap as the allocator of directories\<close>

interpretation kp: kernel_pages "kmem_inv :: 'a kmem_scheme \<Rightarrow> bool" kmem_owned kmem_room kzalloc
  by unfold_locales (simp_all add: kmem_inv_def kmem_owned_def kmem_room_def)

lemma count_list_freed:
  assumes "t + n \<le> length es" and "\<And>k. t \<le> k \<Longrightarrow> k < t + n \<Longrightarrow> es ! k \<noteq> 0"
  shows "count_list (blit es t (replicate n 0)) 0 = count_list es (0 :: byte) + n"
proof -
  have "es = take t es @ take n (drop t es) @ drop (t + n) es"
    by (metis append_take_drop_id drop_drop add.commute)
  then have "count_list es 0 = count_list (take t es) 0 + count_list (take n (drop t es)) 0
      + count_list (drop (t + n) es) 0"
    by (metis add.assoc count_list_append)
  moreover have "0 \<notin> set (take n (drop t es))"
    using assms by (auto simp: in_set_conv_nth)
  then have "count_list (take n (drop t es)) 0 = 0" by (simp add: count_list_0_iff)
  ultimately show ?thesis by (simp add: blit_def count_list_append count_list_replicate)
qed

interpretation kf: page_freeing "kmem_inv :: 'a kmem_scheme \<Rightarrow> bool" kmem_owned kmem_room kzalloc kfree
proof unfold_locales
  fix s :: "'a kmem_scheme" and p n
  assume s: "kmem_inv s" "(p, n) \<in> kmem_owned s"
  let ?h = "kernel_heap s" let ?es = "entries (table (kernel_heap s))"
  obtain t where t: "p = block_ptr ?h t" "is_alloc ?es t n"
    using s(2) by (auto simp: kmem_owned_def heap_owned_def)
  have wf: "heap_wf ?h" and twf: "table_wf ?es" using s(1) by (simp_all add: kmem_inv_def heap_wf_def)
  let ?h' = "with_entries ?h (blit ?es t (replicate n 0))"
  have free: "kfree s p = Inr (s\<lparr>kernel_heap := ?h'\<rparr>)"
    using free_alloc [OF wf t(2)] t(1) by (simp add: kfree_def)
  have "heap_owned ?h' = heap_owned ?h - {(p, n)}"
  proof -
    have "block_ptr ?h u = block_ptr ?h t \<longleftrightarrow> u = t" if "is_alloc ?es u k" for u k
      using block_ptr_inject [OF wf, of u t] alloc_bounds [OF that] alloc_bounds [OF t(2)] by auto
    then show ?thesis using free_removes(2) [OF twf t(2)] t(1) by (auto simp: heap_owned_def)
  qed
  moreover have "heap_room ?h' = heap_room ?h + n"
    using count_list_freed [of t n ?es] alloc_bounds [OF t(2)] alloc_entry_nz [OF t(2)] by (simp add: heap_room_def)
  ultimately show "\<exists>s'. kfree s p = Inr s' \<and> kmem_inv s' \<and> kmem_owned s' = kmem_owned s - {(p, n)}
      \<and> kmem_room s' = kmem_room s + n \<and> ram s' = ram s"
    using free free_keeps_wf [OF wf t(2)] by (simp add: kmem_inv_def kmem_owned_def kmem_room_def)
qed

section \<open>A machine to evaluate on\<close>

text \<open>A machine whose heap has 2000 free pages behind the first 16 MiB.\<close>

definition fresh_kernel :: kmem where
  "fresh_kernel = \<lparr>kernel_heap = \<lparr>table = \<lparr>entries = replicate 2000 0, total = 2000\<rparr>,
     start_address = 0x1000000\<rparr>, ram = (\<lambda>_. 0)\<rparr>"

lemma fresh_kernel: "kmem_inv fresh_kernel" "1026 \<le> kmem_room fresh_kernel"
  by (simp_all add: fresh_kernel_def kmem_inv_def heap_wf_def table_wf_def kmem_room_def heap_room_def
      count_list_replicate)

lemma paging_new_directory_exists:
  obtains chunk pd pts and s' :: kmem where "address_space (ram s') chunk pd pts"
  using kp.new_directory_spec [OF fresh_kernel, of 7] by (auto simp: kp.directory_built_def)

section \<open>Properties\<close>

text \<open>C21: With 1026 free pages \<open>paging_new_directory\<close> builds a directory on pages nobody owned that maps every
  page of the 4 GiB address space to itself with the given flags, and changes no byte of memory that was
  handed out before.\<close>

theorem paging_new_directory_identity:
  assumes "kmem_inv s" and "1026 \<le> kmem_room s"
  shows "\<exists>chunk pd pts s'. paging_new_directory flags s = Inr (chunk, s') \<and> kmem_inv s'
    \<and> address_space (ram s') chunk pd pts
    \<and> (\<forall>p\<in>set (chunk # pd # pts). (p, 1) \<in> kmem_owned s' \<and> (p, 1) \<notin> kmem_owned s)
    \<and> (\<forall>v. unat v mod 4096 = 0 \<longrightarrow> paging_get_page (ram s') pd v = v OR ucast flags)
    \<and> (\<forall>q n. (q, n) \<in> kmem_owned s \<longrightarrow> (\<forall>a\<in>region q n. ram s' a = ram s a))"
proof -
  obtain chunk pd pts s' where s': "new_directory kzalloc flags s = Inr (chunk, s')"
    "kp.directory_built s flags chunk pd pts s'"
    using kp.new_directory_spec [OF assms] by blast
  show ?thesis
    by (intro exI [of _ chunk] exI [of _ pd] exI [of _ pts] exI [of _ s'])
      (use s' in \<open>auto simp: kp.directory_built_def paging_new_directory_def page_def\<close>)
qed

theorem paging_new_directory_identity_witness:
  "\<exists>chunk pd pts s'. paging_new_directory 7 fresh_kernel = Inr (chunk, s') \<and> kmem_inv s'
    \<and> address_space (ram s') chunk pd pts
    \<and> (\<forall>p\<in>set (chunk # pd # pts). (p, 1) \<in> kmem_owned s' \<and> (p, 1) \<notin> kmem_owned fresh_kernel)
    \<and> (\<forall>v. unat v mod 4096 = 0 \<longrightarrow> paging_get_page (ram s') pd v = v OR ucast (7 :: byte))
    \<and> (\<forall>q n. (q, n) \<in> kmem_owned fresh_kernel \<longrightarrow> (\<forall>a\<in>region q n. ram s' a = ram fresh_kernel a))"
  by (rule paging_new_directory_identity [OF fresh_kernel])

text \<open>Freeing a directory right after building it gives every page back: the heap owns the same regions and
  has the same room as before.\<close>

theorem paging_new_free_directory:
  assumes "kmem_inv s" and "1026 \<le> kmem_room s"
  shows "\<exists>chunk s1 s2. paging_new_directory flags s = Inr (chunk, s1) \<and> paging_free_directory chunk s1 = Inr s2
    \<and> kmem_inv s2 \<and> kmem_owned s2 = kmem_owned s \<and> kmem_room s2 = kmem_room s"
  unfolding paging_new_directory_def paging_free_directory_def
  by (rule kf.new_free_directory [OF assms])

theorem paging_new_free_directory_witness:
  "\<exists>chunk s1 s2. paging_new_directory 7 fresh_kernel = Inr (chunk, s1) \<and> paging_free_directory chunk s1 = Inr s2
    \<and> kmem_inv s2 \<and> kmem_owned s2 = kmem_owned fresh_kernel \<and> kmem_room s2 = kmem_room fresh_kernel"
  by (rule paging_new_free_directory [OF fresh_kernel])

text \<open>\<open>paging_set_page\<close> followed by \<open>paging_get_page\<close> of the same page gives the value back, and every other
  page of the address space keeps its entry.\<close>

theorem paging_get_set_page:
  assumes "has_tables m pd pts" and "unat v mod 4096 = 0" and "unat w mod 4096 = 0"
  shows "\<exists>m'. paging_set_page m pd v x = (0, m') \<and> has_tables m' pd pts
    \<and> paging_get_page m' pd w = (if w = v then x else paging_get_page m pd w)"
  using get_set_page [OF assms(1), of v w x] set_page_eq [OF assms(1), of v x]
    set_keeps_tables [OF assms(1)] assms(2,3) by (simp add: page_def)

theorem paging_get_set_page_witness:
  "\<exists>m pd pts m'. paging_set_page m pd 0x8048000 0x200007 = (0, m') \<and> has_tables m' pd pts
    \<and> paging_get_page m' pd 0x400000 = (if (0x400000 :: u32) = 0x8048000 then 0x200007 else paging_get_page m pd 0x400000)"
proof -
  obtain chunk pd pts and s' :: kmem where "address_space (ram s') chunk pd pts"
    by (rule paging_new_directory_exists)
  then have t: "has_tables (ram s') pd pts" by (simp add: address_space_def)
  show ?thesis
    by (rule exI [of _ "ram s'"], rule exI [of _ pd], rule exI [of _ pts], rule paging_get_set_page [OF t]) simp_all
qed

text \<open>C20: \<open>paging_map_to\<close> refuses unaligned addresses and an end below the start without touching memory;
  otherwise it maps the pages from \<open>virt\<close> on to the physical pages from \<open>phys\<close> up to \<open>phys_end\<close>, in order
  and with the given flags, and leaves every other page as it was mapped.\<close>

theorem paging_map_to_maps:
  assumes "address_space m chunk pd pts"
  shows "if unat virt mod 4096 \<noteq> 0 \<or> unat phys mod 4096 \<noteq> 0 \<or> unat phys_end mod 4096 \<noteq> 0 \<or> phys_end < phys
    then paging_map_to m chunk virt phys phys_end flags = (- EINVARG, m)
    else \<exists>m'. paging_map_to m chunk virt phys phys_end flags = (0, m') \<and> address_space m' chunk pd pts
      \<and> (\<forall>i<(unat phys_end - unat phys) div 4096.
          paging_get_page m' pd (nth_page virt i) = nth_page phys i OR word_of_int flags)
      \<and> (\<forall>w. unat w mod 4096 = 0 \<longrightarrow> (\<forall>i<(unat phys_end - unat phys) div 4096. w \<noteq> nth_page virt i)
          \<longrightarrow> paging_get_page m' pd w = paging_get_page m pd w)"
proof (cases "page virt \<and> page phys \<and> page phys_end \<and> \<not> phys_end < phys")
  case True
  have "unat phys_end < 2 ^ 32" using unsigned_less [of phys_end, where ?'a = nat] by simp
  then have "(unat phys_end - unat phys) div 4096 \<le> 2 ^ 20" by (simp add: less_mult_imp_div_less less_imp_le)
  then obtain m' where "map_range_loop m chunk virt phys ((unat phys_end - unat phys) div 4096) flags 0 = (0, m')"
    "address_space m' chunk pd pts"
    "\<forall>i<(unat phys_end - unat phys) div 4096. paging_get_page m' pd (nth_page virt i) = nth_page phys i OR word_of_int flags"
    "\<forall>w. page w \<longrightarrow> (\<forall>i<(unat phys_end - unat phys) div 4096. w \<noteq> nth_page virt i)
      \<longrightarrow> paging_get_page m' pd w = paging_get_page m pd w"
    using map_range_loop_spec [OF assms, of virt phys _ 0] True by blast
  then show ?thesis using True by (simp add: map_to_eq page_def)
next
  case False
  then show ?thesis by (auto simp: map_to_eq page_def)
qed

theorem paging_map_to_maps_witness:
  "\<exists>m chunk pd pts. if unat (0x400000 :: u32) mod 4096 \<noteq> 0 \<or> unat (0x1000 :: u32) mod 4096 \<noteq> 0
      \<or> unat (0x3000 :: u32) mod 4096 \<noteq> 0 \<or> (0x3000 :: u32) < 0x1000
    then paging_map_to m chunk 0x400000 0x1000 0x3000 7 = (- EINVARG, m)
    else \<exists>m'. paging_map_to m chunk 0x400000 0x1000 0x3000 7 = (0, m') \<and> address_space m' chunk pd pts
      \<and> (\<forall>i<(unat (0x3000 :: u32) - unat (0x1000 :: u32)) div 4096.
          paging_get_page m' pd (nth_page 0x400000 i) = nth_page 0x1000 i OR word_of_int 7)
      \<and> (\<forall>w. unat w mod 4096 = 0
          \<longrightarrow> (\<forall>i<(unat (0x3000 :: u32) - unat (0x1000 :: u32)) div 4096. w \<noteq> nth_page 0x400000 i)
          \<longrightarrow> paging_get_page m' pd w = paging_get_page m pd w)"
proof -
  obtain chunk pd pts and s' :: kmem where "address_space (ram s') chunk pd pts"
    by (rule paging_new_directory_exists)
  then show ?thesis by (intro exI) (rule paging_map_to_maps)
qed

end
