(* ===== verification/Disk.thy ===== *)
theory Disk
  imports Memory "HOL-Library.Signed_Division"
begin

text \<open>
  The disk, \<^verbatim>\<open>src/src/kernel/drivers/disk/disk.c\<close> and \<^verbatim>\<open>disk_streamer.c\<close>.  The drive itself is hardware: it is a
  parameter, a function from the bytes written to its ports to what its status and data registers answer, and
  \<open>ata_serves\<close> states the documented behaviour of a drive with some content.  The polling loop and the loop of
  \<open>diskstreamer_read\<close> may not end, so they are partial functions; not ending is the fault \<open>Diverges\<close>.
\<close>

section \<open>Reading sectors from the drive\<close>

text \<open>What a drive answers to the bytes written to its ports: the successive values of the status register
  (port \<^verbatim>\<open>0x1F7\<close>) and of the data register (port \<^verbatim>\<open>0x1F0\<close>).\<close>

type_synonym drive = "(u16 \<times> byte) list \<Rightarrow> (nat \<Rightarrow> byte) \<times> (nat \<Rightarrow> u16)"

definition read_commands :: "int \<Rightarrow> int \<Rightarrow> (u16 \<times> byte) list" where
  "read_commands lba tot =
     [(0x1F6, word_of_int (drop_bit 24 lba OR 0xE0)),
      (0x1F2, word_of_int tot),
      (0x1F3, word_of_int (lba AND 0xff)),
      (0x1F4, word_of_int (drop_bit 8 lba)),
      (0x1F5, word_of_int (drop_bit 16 lba)),
      (0x1F7, 0x20)]"

text \<open>The polling loop, from the \<open>k\<close>th read of the status register on; it returns how many reads were
  done.\<close>

partial_function (option) wait_ready :: "(nat \<Rightarrow> byte) \<Rightarrow> nat \<Rightarrow> nat option" where
  [code]: "wait_ready status k = (if status k AND 0x08 \<noteq> 0 then Some (Suc k) else wait_ready status (Suc k))"

text \<open>\<open>n\<close> words from the data register, from word \<open>w\<close> on, to the words of the buffer from \<open>ptr\<close> on.\<close>

fun read_words_loop :: "(nat \<Rightarrow> u16) \<Rightarrow> nat \<Rightarrow> byte list \<Rightarrow> nat \<Rightarrow> nat \<Rightarrow> fault + byte list" where
  "read_words_loop data w buf ptr 0 = Inr buf"
| "read_words_loop data w buf ptr (Suc n) =
     cbind (wr buf ptr (ucast (data w))) (\<lambda>b1. cbind (wr b1 (ptr + 1) (ucast (drop_bit 8 (data w)))) (\<lambda>b2.
       read_words_loop data (Suc w) b2 (ptr + 2) n))"

fun read_sectors_loop :: "(nat \<Rightarrow> byte) \<Rightarrow> (nat \<Rightarrow> u16) \<Rightarrow> nat \<Rightarrow> nat \<Rightarrow> byte list \<Rightarrow> nat \<Rightarrow> nat \<Rightarrow> fault + byte list" where
  "read_sectors_loop status data k w buf ptr 0 = Inr buf"
| "read_sectors_loop status data k w buf ptr (Suc n) =
     (case wait_ready status k of
        None \<Rightarrow> Inl Diverges
      | Some k' \<Rightarrow> cbind (read_words_loop data w buf ptr 256) (\<lambda>b.
          read_sectors_loop status data k' (w + 256) b (ptr + 512) n))"

definition disk_read_sector :: "drive \<Rightarrow> int \<Rightarrow> int \<Rightarrow> byte list \<Rightarrow> fault + (int \<times> byte list)" where
  "disk_read_sector drive lba tot buf =
     (let (status, data) = drive (read_commands lba tot)
      in cbind (read_sectors_loop status data 0 0 buf 0 (nat tot)) (\<lambda>b. Inr (0, b)))"

text \<open>There is one disk; \<open>primary\<close> says whether the caller's pointer is it.  The unsigned LBA becomes an
  \<open>int\<close>.\<close>

definition disk_read_block :: "drive \<Rightarrow> bool \<Rightarrow> u32 \<Rightarrow> int \<Rightarrow> byte list \<Rightarrow> fault + (int \<times> byte list)" where
  "disk_read_block drive primary lba tot buf =
     (if \<not> primary then Inr (- EIO, buf) else disk_read_sector drive (sint lba) tot buf)"

section \<open>Streams\<close>

record disk_stream =
  pos :: int
  on_primary :: bool

definition diskstreamer_seek :: "disk_stream \<Rightarrow> int \<Rightarrow> int \<times> disk_stream" where
  "diskstreamer_seek stream p = (0, stream\<lparr>pos := p\<rparr>)"

text \<open>One round of the loop: the stream, the output object, where \<open>out\<close> points to, the bytes left, and whether
  the loop goes on.  \<open>offset + tot\<close> is computed with unsigned numbers.\<close>

definition stream_round :: "drive \<Rightarrow> disk_stream \<Rightarrow> byte list \<Rightarrow> nat \<Rightarrow> int
    \<Rightarrow> fault + (disk_stream \<times> byte list \<times> nat \<times> int \<times> bool)" where
  "stream_round drive stream out d tot =
     (let sector = word_of_int (pos stream sdiv 512);
          offset = word_of_int (pos stream smod 512) :: u32;
          buf_overflow = (512 \<le> offset + word_of_int tot);
          total_to_read = (if buf_overflow then word_of_int tot - (offset + word_of_int tot - 512)
                           else word_of_int tot)
      in cbind (disk_read_block drive (on_primary stream) sector 1 (replicate 512 0)) (\<lambda>(res, buf).
         cbind (cassert (res = 0)) (\<lambda>_.
         cbind (memcpy out d buf (unat offset) (unat total_to_read)) (\<lambda>out'.
           Inr (stream\<lparr>pos := sint (word_of_int (pos stream) + total_to_read)\<rparr>, out',
                d + unat total_to_read, sint (word_of_int tot - total_to_read), buf_overflow)))))"

partial_function (option) stream_loop :: "drive \<Rightarrow> disk_stream \<Rightarrow> byte list \<Rightarrow> nat \<Rightarrow> int
    \<Rightarrow> (fault + (disk_stream \<times> byte list)) option" where
  [code]: "stream_loop drive stream out d tot =
     (case stream_round drive stream out d tot of
        Inl e \<Rightarrow> Some (Inl e)
      | Inr (stream', out', d', tot', buf_overflow) \<Rightarrow>
          if buf_overflow then stream_loop drive stream' out' d' tot'
          else Some (Inr (stream', out')))"

definition diskstreamer_read :: "drive \<Rightarrow> disk_stream \<Rightarrow> byte list \<Rightarrow> nat \<Rightarrow> int
    \<Rightarrow> fault + (int \<times> disk_stream \<times> byte list)" where
  "diskstreamer_read drive stream out d tot =
     (case stream_loop drive stream out d tot of
        None \<Rightarrow> Inl Diverges
      | Some r \<Rightarrow> cbind r (\<lambda>(stream', out'). Inr (0, stream', out')))"


section \<open>What the drive promises\<close>

text \<open>\<open>media\<close> is the content of the disk, byte by byte.\<close>

definition disk_bytes :: "(nat \<Rightarrow> byte) \<Rightarrow> nat \<Rightarrow> nat \<Rightarrow> byte list" where
  "disk_bytes media p n = map media [p..<p + n]"

lemma length_disk_bytes [simp]: "length (disk_bytes media p n) = n"
  by (simp add: disk_bytes_def)

lemma nth_disk_bytes: "i < n \<Longrightarrow> disk_bytes media p n ! i = media (p + i)"
  by (simp add: disk_bytes_def)

lemma disk_bytes_append: "disk_bytes media p m @ disk_bytes media (p + m) n = disk_bytes media p (m + n)"
  by (intro nth_equalityI) (auto simp: nth_append nth_disk_bytes)

text \<open>Word \<open>w\<close> of sector \<open>s\<close>, low byte first.\<close>

definition sector_word :: "(nat \<Rightarrow> byte) \<Rightarrow> nat \<Rightarrow> nat \<Rightarrow> u16" where
  "sector_word media s w =
     ucast (media (512 * s + 2 * w)) OR push_bit 8 (ucast (media (512 * s + (2 * w + 1))))"

text \<open>The documented behaviour of an ATA drive of \<open>n\<close> sectors: after a \<open>READ SECTORS\<close> command for one
  sector it asks for the transfer at some point and then hands out the sector's words in order.\<close>

definition ata_serves :: "drive \<Rightarrow> (nat \<Rightarrow> byte) \<Rightarrow> nat \<Rightarrow> bool" where
  "ata_serves drive media n = (\<forall>lba<n. (\<exists>k. fst (drive (read_commands (int lba) 1)) k AND 0x08 \<noteq> 0)
     \<and> (\<forall>w<256. snd (drive (read_commands (int lba) 1)) w = sector_word media lba w))"

lemma wait_ready_returns:
  assumes "status j AND 0x08 \<noteq> 0" and "k \<le> j"
  shows "\<exists>k'. wait_ready status k = Some k'"
  using assms(2)
proof (induction "j - k" arbitrary: k)
  case 0
  then show ?case using assms(1) by (simp add: wait_ready.simps [of status k])
next
  case (Suc d)
  then have "\<exists>k'. wait_ready status (Suc k) = Some k'" by (intro Suc.hyps(1)) auto
  then show ?case by (auto simp: wait_ready.simps [of status k])
qed

lemma read_words_loop_spec:
  assumes "ptr + 2 * n \<le> length buf"
  shows "read_words_loop data w buf ptr n = Inr (blit buf ptr (concat (map (\<lambda>i. enc16 (data (w + i))) [0..<n])))"
  using assms
proof (induction n arbitrary: w buf ptr)
  case 0
  then show ?case by simp
next
  case (Suc n)
  let ?b = "buf[ptr := ucast (data w), ptr + 1 := ucast (drop_bit 8 (data w))]"
  let ?rest = "concat (map (\<lambda>i. enc16 (data (Suc w + i))) [0..<n])"
  have len: "length ?rest = 2 * n" by (simp add: length_concat comp_def sum_list_triv)
  have b: "?b = blit buf ptr (enc16 (data w))"
    using blit_snoc [of ptr "[]" buf] blit_snoc [of ptr "[ucast (data w)]" buf] Suc.prems
    by (simp add: enc16_def)
  have "read_words_loop data w buf ptr (Suc n) = read_words_loop data (Suc w) ?b (ptr + 2) n"
    using Suc.prems by simp
  also have "\<dots> = Inr (blit ?b (ptr + 2) ?rest)" using Suc.prems by (intro Suc.IH) simp
  also have "blit ?b (ptr + 2) ?rest = blit buf ptr (enc16 (data w) @ ?rest)"
    using blit_append [of ptr "enc16 (data w)" ?rest buf] Suc.prems len b by simp
  also have "enc16 (data w) @ ?rest = concat (map (\<lambda>i. enc16 (data (w + i))) [0..<Suc n])"
    by (simp add: upt_conv_Cons map_Suc_upt [symmetric] comp_def del: upt_Suc)
  finally show ?case .
qed

lemma concat_pairs: "concat (map (\<lambda>i. [f (2 * i), f (2 * i + 1)]) [0..<n]) = map f [0..<2 * n]"
  by (induction n) simp_all

lemma enc16_sector_word:
  "enc16 (sector_word media s w) = [media (512 * s + 2 * w), media (512 * s + (2 * w + 1))]"
proof -
  have "(ucast (ucast (a :: byte) OR push_bit 8 (ucast (b :: byte)) :: u16) :: byte) = a" for a b
    by (rule bit_word_eqI) (auto simp: bit_simps)
  moreover have "(ucast (drop_bit 8 (ucast (a :: byte) OR push_bit 8 (ucast (b :: byte)) :: u16)) :: byte) = b" for a b
    by (rule bit_word_eqI) (auto simp: bit_simps dest: bit_imp_le_length)
  ultimately show ?thesis by (simp add: enc16_def sector_word_def)
qed

lemma disk_read_block_ok:
  assumes "ata_serves drive media n" and "lba < n" and "n \<le> 2 ^ 28" and "length buf = 512"
  shows "disk_read_block drive True (word_of_nat lba) 1 buf = Inr (0, disk_bytes media (512 * lba) 512)"
proof -
  obtain status data where d: "drive (read_commands (int lba) 1) = (status, data)" by fastforce
  obtain k where k: "status k AND 0x08 \<noteq> 0" and w: "\<And>w. w < 256 \<Longrightarrow> data w = sector_word media lba w"
    using assms(1,2) d by (fastforce simp: ata_serves_def)
  obtain k' where "wait_ready status 0 = Some k'" using wait_ready_returns [of status k 0] k by auto
  moreover have "read_words_loop data 0 buf 0 256 = Inr (disk_bytes media (512 * lba) 512)"
  proof -
    have "concat (map (\<lambda>i. enc16 (data i)) [0..<256]) = concat (map (\<lambda>i. enc16 (sector_word media lba i)) [0..<256])"
      using w by (intro arg_cong [of _ _ concat] map_cong) auto
    also have "\<dots> = map (\<lambda>j. media (512 * lba + j)) [0..<2 * 256]"
      unfolding enc16_sector_word by (rule concat_pairs)
    also have "\<dots> = disk_bytes media (512 * lba) 512"
      by (intro nth_equalityI) (simp_all add: nth_disk_bytes)
    finally show ?thesis using assms(4) by (simp add: read_words_loop_spec blit_full)
  qed
  moreover have "sint (word_of_nat lba :: u32) = int lba"
    using assms(2,3) by (intro sint_small unat_of_nat_small) auto
  ultimately show ?thesis using d by (simp add: disk_read_block_def disk_read_sector_def)
qed

section \<open>What a stream reads\<close>

lemma stream_round_spec:
  assumes serves: "ata_serves drive media n" "n \<le> 2 ^ 28" and p: "p div 512 < n" and pt: "p + t < 2 ^ 31"
    and out: "d + t \<le> length out" and s: "pos stream = int p" "on_primary stream"
    and nr: "nr = (if 512 \<le> p mod 512 + t then 512 - p mod 512 else t)"
  shows "stream_round drive stream out d (int t) = Inr (stream\<lparr>pos := int (p + nr)\<rparr>,
    blit out d (disk_bytes media p nr), d + nr, int (t - nr), 512 \<le> p mod 512 + t)"
proof -
  have sd: "int p sdiv 512 = int (p div 512)" "int p smod 512 = int (p mod 512)"
    using sdiv_smod_of_nat [of p 512] by simp_all
  have lt: "p mod 512 < 512" by simp
  have nrt: "nr \<le> t" unfolding nr by (simp add: le_diff_conv add.commute)
  define off :: u32 where "off = word_of_nat (p mod 512)"
  have off: "unat off = p mod 512" using lt by (simp add: off_def unat_of_nat_small)
  have ut: "unat (word_of_nat t :: u32) = t" using pt by (simp add: unat_of_nat_small)
  have sum: "unat (off + word_of_nat t) = p mod 512 + t"
    using off ut pt lt by (subst unat_add_small) auto
  have ov: "512 \<le> off + word_of_nat t \<longleftrightarrow> 512 \<le> p mod 512 + t"
    by (simp add: word_le_nat_alt sum)
  have read: "(if 512 \<le> p mod 512 + t then word_of_nat t - (off + word_of_nat t - 512) else word_of_nat t)
      = (word_of_nat nr :: u32)"
  proof (cases "512 \<le> p mod 512 + t")
    case True
    have "word_of_nat t - (off + word_of_nat t - 512) = 512 - off" by (simp add: algebra_simps)
    also have "\<dots> = word_of_nat 512 - word_of_nat (p mod 512)" by (simp add: off_def)
    also have "\<dots> = word_of_nat (512 - p mod 512)" using lt by (simp add: of_nat_diff)
    finally show ?thesis using True nr by simp
  qed (simp add: nr)
  have unr: "unat (word_of_nat nr :: u32) = nr" using nrt pt by (simp add: unat_of_nat_small)
  have blk: "disk_read_block drive True (word_of_nat (p div 512)) 1 (replicate 512 0)
      = Inr (0, disk_bytes media (512 * (p div 512)) 512)"
    by (rule disk_read_block_ok [OF serves(1) p serves(2)]) simp
  have fit: "p mod 512 + nr \<le> 512" using nr lt by auto
  have cp: "memcpy out d (disk_bytes media (512 * (p div 512)) 512) (p mod 512) nr
      = Inr (blit out d (disk_bytes media p nr))"
  proof -
    have "take nr (drop (p mod 512) (disk_bytes media (512 * (p div 512)) 512)) = disk_bytes media p nr"
      using fit mult_div_mod_eq [of 512 p]
      by (intro nth_equalityI) (simp_all add: nth_disk_bytes add.assoc [symmetric])
    then show ?thesis using fit out nrt by (simp add: memcpy_spec)
  qed
  have pos: "sint (word_of_nat p + word_of_nat nr :: u32) = int (p + nr)"
    using nrt pt by (intro sint_small) (simp_all add: unat_word_ariths unsigned_of_nat take_bit_nat_eq_self)
  have left: "sint (word_of_nat t - word_of_nat nr :: u32) = int (t - nr)"
  proof -
    have "word_of_nat t - word_of_nat nr = (word_of_nat (t - nr) :: u32)" using nrt by (simp add: of_nat_diff)
    then show ?thesis using pt by (simp add: sint_small unat_of_nat_small)
  qed
  show ?thesis
    by (simp only: stream_round_def Let_def s sd of_int_of_nat_eq off_def [symmetric] ov read unr off blk
        cbind_simps split cassert_simps cp pos left simp_thms)
qed

lemma stream_loop_spec:
  assumes serves: "ata_serves drive media n" "n \<le> 2 ^ 28" and "p + t < 512 * n" and "p + t < 2 ^ 31"
    and "d + t \<le> length out" and "pos stream = int p" "on_primary stream"
  shows "stream_loop drive stream out d (int t)
    = Some (Inr (stream\<lparr>pos := int (p + t)\<rparr>, blit out d (disk_bytes media p t)))"
  using assms(3-7)
proof (induction t arbitrary: p stream out d rule: less_induct)
  case (less t)
  have lt: "p mod 512 < 512" by simp
  define nr where "nr = (if 512 \<le> p mod 512 + t then 512 - p mod 512 else t)"
  have sec: "p div 512 < n" using less.prems(1) by (simp add: less_mult_imp_div_less mult.commute)
  note rnd = stream_round_spec [OF serves sec less.prems(2-5) nr_def]
  show ?case
  proof (cases "512 \<le> p mod 512 + t")
    case False
    then show ?thesis using rnd by (simp add: stream_loop.simps [of drive stream] nr_def)
  next
    case True
    then have nr: "0 < nr" "nr \<le> t" using lt by (auto simp: nr_def le_diff_conv add.commute)
    let ?s = "stream\<lparr>pos := int (p + nr)\<rparr>" and ?o = "blit out d (disk_bytes media p nr)"
    have "stream_loop drive ?s ?o (d + nr) (int (t - nr))
        = Some (Inr (?s\<lparr>pos := int (p + nr + (t - nr))\<rparr>, blit ?o (d + nr) (disk_bytes media (p + nr) (t - nr))))"
      by (rule less.IH) (use nr less.prems in auto)
    moreover have "blit ?o (d + nr) (disk_bytes media (p + nr) (t - nr)) = blit out d (disk_bytes media p t)"
      using blit_append [of d "disk_bytes media p nr" "disk_bytes media (p + nr) (t - nr)" out] nr less.prems
        disk_bytes_append [of media p nr "t - nr"] by simp
    ultimately show ?thesis
      using True rnd nr by (subst stream_loop.simps) (simp del: of_nat_add)
  qed
qed

lemma diskstreamer_read_spec:
  assumes "ata_serves drive media n" "n \<le> 2 ^ 28" and "p + t < 512 * n" and "p + t < 2 ^ 31"
    and "d + t \<le> length out" and "pos stream = int p" "on_primary stream"
  shows "diskstreamer_read drive stream out d (int t)
    = Inr (0, stream\<lparr>pos := int (p + t)\<rparr>, blit out d (disk_bytes media p t))"
  using stream_loop_spec [OF assms] by (simp add: diskstreamer_read_def)

lemma wait_ready_Some: "wait_ready status k = Some r \<Longrightarrow> \<exists>j. status j AND 0x08 \<noteq> 0"
  by (rule wait_ready.raw_induct [where P = "\<lambda>status k r. \<exists>j. status j AND 0x08 \<noteq> 0"])
    (auto split: if_splits)

lemma wait_ready_diverges: "\<forall>k. status k AND 0x08 = 0 \<Longrightarrow> wait_ready status k = None"
  using wait_ready_Some [of status k] by (cases "wait_ready status k") auto

lemma disk_read_block_diverges:
  assumes "\<forall>k. fst (drive (read_commands (int lba) 1)) k AND 0x08 = 0" and "lba < 2 ^ 31"
  shows "disk_read_block drive True (word_of_nat lba) 1 buf = Inl Diverges"
proof -
  have "sint (word_of_nat lba :: u32) = int lba"
    using assms(2) by (intro sint_small unat_of_nat_small) auto
  then show ?thesis
    using wait_ready_diverges [OF assms(1)]
    by (simp add: disk_read_block_def disk_read_sector_def case_prod_beta)
qed

lemma stream_loop_diverges:
  assumes serves: "ata_serves drive media n" "n \<le> 2 ^ 22"
    and never: "\<forall>k. fst (drive (read_commands (int n) 1)) k AND 0x08 = 0"
    and "p + t = 512 * n" and "p + t < 2 ^ 31" and "d + t \<le> length out" and "pos stream = int p" "on_primary stream"
  shows "stream_loop drive stream out d (int t) = Some (Inl Diverges)"
  using assms(4-8)
proof (induction t arbitrary: p stream out d rule: less_induct)
  case (less t)
  show ?case
  proof (cases "t = 0")
    case True
    then have p: "p = 512 * n" using less.prems(1) by simp
    have "int p sdiv 512 = int n" using sdiv_smod_of_nat [of p 512] p by simp
    then have "stream_round drive stream out d (int t) = Inl Diverges"
      using disk_read_block_diverges [where drive = drive and lba = n, OF never] serves(2) less.prems(5)
      by (simp add: stream_round_def less.prems(4) Let_def)
    then show ?thesis by (simp add: stream_loop.simps [of drive stream])
  next
    case False
    have lt: "p mod 512 < 512" by simp
    have sec: "p div 512 < n" using less.prems(1) False by (simp add: less_mult_imp_div_less mult.commute)
    have mt: "512 \<le> p mod 512 + t"
    proof (rule ccontr)
      assume "\<not> 512 \<le> p mod 512 + t"
      then have "(p mod 512 + t) mod 512 = p mod 512 + t" by simp
      moreover have "(p mod 512 + t) mod 512 = (p + t) mod 512" by (rule mod_add_left_eq)
      ultimately show False using less.prems(1) False by simp
    qed
    define nr where "nr = 512 - p mod 512"
    have nrt: "0 < nr" "nr \<le> t" using lt mt by (auto simp: nr_def)
    have "nr = (if 512 \<le> p mod 512 + t then 512 - p mod 512 else t)" using mt by (simp add: nr_def)
    moreover have "n \<le> 2 ^ 28" using serves(2) by simp
    ultimately have rnd: "stream_round drive stream out d (int t) = Inr (stream\<lparr>pos := int (p + nr)\<rparr>,
        blit out d (disk_bytes media p nr), d + nr, int (t - nr), 512 \<le> p mod 512 + t)"
      by (intro stream_round_spec [OF serves(1) _ sec less.prems(2-5)])
    have "stream_loop drive (stream\<lparr>pos := int (p + nr)\<rparr>) (blit out d (disk_bytes media p nr)) (d + nr) (int (t - nr))
        = Some (Inl Diverges)"
      by (rule less.IH [where p = "p + nr"]) (use nrt less.prems in auto)
    then show ?thesis using rnd mt by (subst stream_loop.simps) (simp del: of_nat_add)
  qed
qed

section \<open>Properties\<close>

text \<open>C29: \<open>diskstreamer_read\<close> fills the output with exactly the bytes of the disk from the stream's position on
  and moves the position behind them, across any number of sectors, as long as the disk has a byte behind the
  last one that is read.\<close>

theorem diskstreamer_reads_bytes:
  assumes "ata_serves drive media n" and "n \<le> 2 ^ 22" and "p + t < 512 * n" and "d + t \<le> length out"
    and "pos stream = int p" and "on_primary stream"
  shows "diskstreamer_read drive stream out d (int t)
    = Inr (0, stream\<lparr>pos := int (p + t)\<rparr>, blit out d (disk_bytes media p t))"
  using diskstreamer_read_spec [OF assms(1) _ assms(3) _ assms(4-6)] assms(2,3) by simp

text \<open>A drive of \<open>n\<close> sectors that is ready at the second poll.\<close>

definition lba_of :: "(u16 \<times> byte) list \<Rightarrow> nat" where
  "lba_of cs = unat (snd (cs ! 2)) + 256 * unat (snd (cs ! 3)) + 65536 * unat (snd (cs ! 4))
     + 16777216 * unat (snd (cs ! 0) AND 0x0f)"

definition simple_drive :: "(nat \<Rightarrow> byte) \<Rightarrow> nat \<Rightarrow> drive" where
  "simple_drive media n cs =
     ((\<lambda>k. if lba_of cs < n \<and> k = 1 then 0x08 else 0), sector_word media (lba_of cs))"

lemma lba_of_read_commands:
  assumes "0 \<le> lba" and "lba < 2 ^ 28"
  shows "int (lba_of (read_commands lba tot)) = lba"
proof -
  have u: "int (unat (w :: byte)) = uint w" for w by simp
  have low: "uint (word_of_int k :: byte) = k mod 256" for k
    by (simp add: uint_word_of_int_eq take_bit_eq_mod)
  have high: "uint (word_of_int (drop_bit 24 lba OR 0xE0) AND 0x0f :: byte) = lba div 16777216"
  proof -
    have d: "drop_bit 24 lba = lba div 16777216" by (simp add: drop_bit_eq_div)
    have "0 \<le> lba div 16777216" "lba div 16777216 < 16" using assms by auto
    then have t: "take_bit 4 (lba div 16777216) = lba div 16777216"
      by (simp add: take_bit_int_eq_self)
    have m: "(0x0f :: int) = mask 4" by (simp add: mask_eq_exp_minus_1)
    have "uint (word_of_int (drop_bit 24 lba OR 0xE0) AND 0x0f :: byte)
        = take_bit 8 (drop_bit 24 lba OR 0xE0) AND 0x0f"
      by (simp add: unsigned_and_eq uint_word_of_int_eq)
    also have "\<dots> = take_bit 4 (take_bit 8 (drop_bit 24 lba OR 0xE0))"
      unfolding m by (rule take_bit_eq_mask [symmetric])
    also have "\<dots> = take_bit 4 (drop_bit 24 lba) OR take_bit 4 0xE0" by simp
    also have "\<dots> = lba div 16777216" using t d by simp
    finally show ?thesis .
  qed
  have "int (lba_of (read_commands lba tot)) = (lba AND 0xff) mod 256 + 256 * ((lba div 256) mod 256)
      + 65536 * ((lba div 65536) mod 256) + 16777216 * (lba div 16777216)"
    unfolding lba_of_def read_commands_def using high
    by (simp add: u low drop_bit_eq_div del: of_nat_unat)
  also have "(lba AND 0xff) mod 256 = lba mod 256"
    using take_bit_eq_mask [of 8 lba] by (simp add: mask_eq_exp_minus_1 take_bit_eq_mod)
  also have "lba mod 256 + 256 * ((lba div 256) mod 256) + 65536 * ((lba div 65536) mod 256)
      + 16777216 * (lba div 16777216) = lba"
  proof -
    define q where "q = lba div 256"
    define r where "r = q div 256"
    have d: "lba div 65536 = r" "lba div 16777216 = r div 256"
      unfolding q_def r_def by (simp_all flip: zdiv_zmult2_eq)
    have m: "lba mod 256 = lba - 256 * q" "q mod 256 = q - 256 * r" "r mod 256 = r - 256 * (r div 256)"
      unfolding q_def r_def by (simp_all only: minus_mult_div_eq_mod)
    show ?thesis unfolding d q_def [symmetric] m by (simp add: algebra_simps)
  qed
  finally show ?thesis .
qed


lemma simple_drive_serves:
  assumes "n \<le> 2 ^ 28"
  shows "ata_serves (simple_drive media n) media n"
proof -
  have l: "lba_of (read_commands (int lba) 1) = lba" if "lba < n" for lba
    using lba_of_read_commands [of "int lba" 1] that assms by simp
  show ?thesis
    unfolding ata_serves_def
  proof (intro allI impI conjI)
    fix lba assume "lba < n"
    then have "fst (simple_drive media n (read_commands (int lba) 1)) 1 AND 0x08 \<noteq> 0"
      using l by (simp add: simple_drive_def)
    then show "\<exists>k. fst (simple_drive media n (read_commands (int lba) 1)) k AND 0x08 \<noteq> 0" by blast
  qed (use l in \<open>simp add: simple_drive_def\<close>)
qed

theorem diskstreamer_reads_bytes_witness:
  "diskstreamer_read (simple_drive (\<lambda>i. word_of_nat (i div 512)) 8) \<lparr>pos = int 510, on_primary = True\<rparr>
      (replicate 600 0) 0 (int 600)
    = Inr (0, \<lparr>pos = int 510, on_primary = True\<rparr>\<lparr>pos := int (510 + 600)\<rparr>,
        blit (replicate 600 0) 0 (disk_bytes (\<lambda>i. word_of_nat (i div 512)) 510 600))"
  by (rule diskstreamer_reads_bytes [OF simple_drive_serves]) simp_all

text \<open>A read that ends at the end of a sector also fetches the next sector, so the last bytes of a disk
  cannot be read: on a drive that does not answer for the sector behind its last one the call never returns.\<close>

theorem diskstreamer_last_sector_hangs:
  assumes "ata_serves drive media n" and "n < 2 ^ 22" and "p + t = 512 * n" and "d + t \<le> length out"
    and "pos stream = int p" and "on_primary stream"
    and "\<forall>k. fst (drive (read_commands (int n) 1)) k AND 0x08 = 0"
  shows "diskstreamer_read drive stream out d (int t) = Inl Diverges"
proof -
  have "stream_loop drive stream out d (int t) = Some (Inl Diverges)"
    by (rule stream_loop_diverges [OF assms(1) _ assms(7,3) _ assms(4-6)]) (use assms(2,3) in auto)
  then show ?thesis by (simp add: diskstreamer_read_def)
qed

theorem diskstreamer_last_sector_hangs_witness:
  "diskstreamer_read (simple_drive (\<lambda>_. 7) 4) \<lparr>pos = int 1536, on_primary = True\<rparr> (replicate 512 0) 0 (int 512)
    = Inl Diverges"
proof (rule diskstreamer_last_sector_hangs [OF simple_drive_serves])
  show "\<forall>k. fst (simple_drive (\<lambda>_. 7) 4 (read_commands (int 4) 1)) k AND 0x08 = 0"
    using lba_of_read_commands [of 4 1] by (simp add: simple_drive_def)
qed simp_all

end
