(* ===== verification/FileApi.thy ===== *)
theory FileApi
  imports GitPrelude
begin

text \<open>
  What \<^verbatim>\<open>src/src/kernel/fs/file.h\<close> fixes for the file layer and every file system driver: seek and open
  modes, the result of \<open>stat\<close>, and pointers to objects the models keep by value.
\<close>

definition SEEK_SET :: u32 where "SEEK_SET = 0"
definition SEEK_CUR :: u32 where "SEEK_CUR = 1"
definition SEEK_END :: u32 where "SEEK_END = 2"

lemmas seek_defs = SEEK_SET_def SEEK_CUR_def SEEK_END_def

definition FILE_MODE_READ :: u32 where "FILE_MODE_READ = 0"
definition FILE_MODE_WRITE :: u32 where "FILE_MODE_WRITE = 1"
definition FILE_MODE_APPEND :: u32 where "FILE_MODE_APPEND = 2"
definition FILE_MODE_INVALID :: u32 where "FILE_MODE_INVALID = 3"

lemmas mode_defs = FILE_MODE_READ_def FILE_MODE_WRITE_def FILE_MODE_APPEND_def FILE_MODE_INVALID_def

definition FILE_STAT_READ_ONLY :: u32 where "FILE_STAT_READ_ONLY = 1"
definition FILE_STAT_FOLDER :: u32 where "FILE_STAT_FOLDER = 2"

record file_stat =
  flags :: u32
  st_filesize :: u32

text \<open>A pointer to an object that is kept by value: null, live, or left behind by \<open>kfree\<close>.\<close>

datatype 'a ptr = Null | Live 'a | Dangling

definition deref :: "'a ptr \<Rightarrow> fault + 'a" where
  "deref p = (case p of Null \<Rightarrow> Inl Null_Deref | Live x \<Rightarrow> Inr x | Dangling \<Rightarrow> Inl Bad_Read)"

lemma deref_simps [simp]: "deref Null = Inl Null_Deref" "deref (Live x) = Inr x" "deref Dangling = Inl Bad_Read"
  by (simp_all add: deref_def)

section \<open>Allocation of small objects\<close>

text \<open>The file layer only needs to know of the allocator whether each of its next allocations succeeds (all do, once
  the list is used up), and how many objects it holds; pages and addresses are the business of \<open>KHeap\<close>.  A
  buffer that could not be allocated is an object without bytes, so that every access to it is a fault.\<close>

record kobjects =
  k_allocs :: "bool list"
  k_live :: int

definition obj_alloc :: "'a kobjects_scheme \<Rightarrow> bool \<times> 'a kobjects_scheme" where
  "obj_alloc s = (case k_allocs s of
     [] \<Rightarrow> (True, s\<lparr>k_live := k_live s + 1\<rparr>)
   | b # bs \<Rightarrow> (b, s\<lparr>k_allocs := bs, k_live := k_live s + (if b then 1 else 0)\<rparr>))"

definition obj_free :: "'a kobjects_scheme \<Rightarrow> 'a kobjects_scheme" where
  "obj_free s = s\<lparr>k_live := k_live s - 1\<rparr>"

text \<open>The first null pointer of an array.\<close>

fun first_free :: "'a option list \<Rightarrow> nat option" where
  "first_free [] = None"
| "first_free (None # xs) = Some 0"
| "first_free (Some x # xs) = map_option Suc (first_free xs)"

lemma first_free_Some:
  "first_free xs = Some i \<longleftrightarrow> i < length xs \<and> xs ! i = None \<and> (\<forall>j<i. xs ! j \<noteq> None)"
proof (induction xs arbitrary: i rule: first_free.induct)
  case (2 xs) then show ?case by (cases i) auto
next
  case (3 x xs) then show ?case by (cases i) (auto simp: less_Suc_eq_0_disj)
qed simp

lemma first_free_None: "first_free xs = None \<longleftrightarrow> None \<notin> set xs"
  by (induction xs rule: first_free.induct) auto

end
