(* ===== verification/Fat16.thy ===== *)
theory Fat16
  imports Disk KString FileApi
begin

text \<open>
  The FAT16 driver, \<^verbatim>\<open>src/src/kernel/fs/fat16/fat16.c\<close>.  The objects it allocates are kept by value behind
  \<open>ptr\<close>s; the allocator is reduced to what the driver sees of it, whether an allocation succeeds and how many
  objects are held, and pages and addresses are the business of \<open>KHeap\<close>.  Streams and the drive are those of
  \<open>Disk\<close>.  The local 11-byte name buffers are objects of that size, so writing a full 8.3 name with its
  terminator into them is a fault.
\<close>

section \<open>Data\<close>

definition FAT16_SIGNATURE :: byte where "FAT16_SIGNATURE = 0x29"
definition FAT16_FAT_ENTRY_SIZE :: int where "FAT16_FAT_ENTRY_SIZE = 2"
definition FAT16_BAD_SECTOR :: int where "FAT16_BAD_SECTOR = 0xFF7"
definition FAT_FILE_READONLY :: byte where "FAT_FILE_READONLY = 0x01"
definition FAT_FILE_SUBDIRECTORY :: byte where "FAT_FILE_SUBDIRECTORY = 0x10"

text \<open>The two headers at the start of the partition.\<close>

record fat16_header_primary =
  jmp_short :: "byte list"
  oem_identifier :: "byte list"
  bytes_per_sector :: u16
  sectors_per_cluster :: byte
  reserved_sectors :: u16
  fat_copies :: byte
  root_dir_entries :: u16
  numeber_of_sectors :: u16
  media_type :: byte
  sectors_per_fat :: u16
  sectors_per_track :: u16
  number_of_heads :: u16
  hidden_sectors :: u32
  sectors_big :: u32

record fat16_header_extended =
  drive_number :: byte
  win_nt_bit :: byte
  signature :: byte
  volume_id :: u32
  volume_id_string :: "byte list"
  system_id_string :: "byte list"

record fat_header =
  primary :: fat16_header_primary
  extended :: fat16_header_extended

record fat_file =
  filename :: "byte list"
  ext :: "byte list"
  attribute :: byte
  reserved :: byte
  creation_time_tenths_of_a_sec :: byte
  creation_time :: u16
  creation_date :: u16
  last_access :: u16
  high_16bits_first_cluster :: u16
  last_mod_time :: u16
  last_mod_date :: u16
  low_16bits_first_cluster :: u16
  filesize :: u32

record fat_directory =
  item :: "fat_file list ptr"
  dir_total :: int
  sector_pos :: int
  ending_sector_pos :: int

datatype fat_item = Directory_Item "fat_directory ptr" | File_Item "fat_file ptr"

record fat_file_descriptor =
  fd_file :: "fat_item ptr"
  fd_pos :: u32
  cached_cluster :: int
  cached_offset_bytes :: int

record fat_private =
  header :: fat_header
  root_directory :: fat_directory
  cluster_read_stream :: disk_stream
  fat_read_stream :: disk_stream
  directory_stream :: disk_stream
  partition_offset :: u32

text \<open>The allocator as the driver sees it: whether each of its next allocations succeeds (all do, once the list is
  used up), and how many objects it holds.\<close>

record fat_state = fat_private +
  allocs :: "bool list"
  live :: int

definition fat_kzalloc :: "fat_state \<Rightarrow> bool \<times> fat_state" where
  "fat_kzalloc s = (case allocs s of
     [] \<Rightarrow> (True, s\<lparr>live := live s + 1\<rparr>)
   | b # bs \<Rightarrow> (b, s\<lparr>allocs := bs, live := live s + (if b then 1 else 0)\<rparr>))"

definition fat_kfree :: "fat_state \<Rightarrow> fat_state" where
  "fat_kfree s = s\<lparr>live := live s - 1\<rparr>"

section \<open>The layout of the packed structs\<close>

definition get16 :: "byte list \<Rightarrow> nat \<Rightarrow> u16" where
  "get16 b i = ucast (b ! i) OR push_bit 8 (ucast (b ! (i + 1)))"

definition get32 :: "byte list \<Rightarrow> nat \<Rightarrow> u32" where
  "get32 b i = ucast (b ! i) OR push_bit 8 (ucast (b ! (i + 1))) OR push_bit 16 (ucast (b ! (i + 2)))
     OR push_bit 24 (ucast (b ! (i + 3)))"

definition sub_bytes :: "byte list \<Rightarrow> nat \<Rightarrow> nat \<Rightarrow> byte list" where
  "sub_bytes b i n = take n (drop i b)"

text \<open>The 32 bytes of a directory entry.\<close>

definition decode_fat_file :: "byte list \<Rightarrow> fat_file" where
  "decode_fat_file b = \<lparr>filename = sub_bytes b 0 8, ext = sub_bytes b 8 3, attribute = b ! 11, reserved = b ! 12,
     creation_time_tenths_of_a_sec = b ! 13, creation_time = get16 b 14, creation_date = get16 b 16,
     last_access = get16 b 18, high_16bits_first_cluster = get16 b 20, last_mod_time = get16 b 22,
     last_mod_date = get16 b 24, low_16bits_first_cluster = get16 b 26, filesize = get32 b 28\<rparr>"

definition encode_fat_file :: "fat_file \<Rightarrow> byte list" where
  "encode_fat_file f = filename f @ ext f @ [attribute f, reserved f, creation_time_tenths_of_a_sec f]
     @ enc16 (creation_time f) @ enc16 (creation_date f) @ enc16 (last_access f)
     @ enc16 (high_16bits_first_cluster f) @ enc16 (last_mod_time f) @ enc16 (last_mod_date f)
     @ enc16 (low_16bits_first_cluster f) @ enc32 (filesize f)"

text \<open>The 62 bytes of the header.\<close>

definition decode_fat_header :: "byte list \<Rightarrow> fat_header" where
  "decode_fat_header b = \<lparr>primary = \<lparr>jmp_short = sub_bytes b 0 3, oem_identifier = sub_bytes b 3 8,
       bytes_per_sector = get16 b 11, sectors_per_cluster = b ! 13, reserved_sectors = get16 b 14,
       fat_copies = b ! 16, root_dir_entries = get16 b 17, numeber_of_sectors = get16 b 19,
       media_type = b ! 21, sectors_per_fat = get16 b 22, sectors_per_track = get16 b 24,
       number_of_heads = get16 b 26, hidden_sectors = get32 b 28, sectors_big = get32 b 32\<rparr>,
     extended = \<lparr>drive_number = b ! 36, win_nt_bit = b ! 37, signature = b ! 38, volume_id = get32 b 39,
       volume_id_string = sub_bytes b 43 11, system_id_string = sub_bytes b 54 8\<rparr>\<rparr>"

section \<open>Positions on the disk\<close>

text \<open>The value of an \<open>int\<close>: the low 32 bits, signed.\<close>

definition cint :: "int \<Rightarrow> int" where
  "cint k = sint (word_of_int k :: u32)"

definition fat16_get_first_cluster :: "fat_file \<Rightarrow> u32" where
  "fat16_get_first_cluster f =
     push_bit 16 (ucast (high_16bits_first_cluster f)) OR ucast (low_16bits_first_cluster f)"

definition fat16_cluster_to_sector :: "'a fat_private_scheme \<Rightarrow> int \<Rightarrow> int" where
  "fat16_cluster_to_sector fs cluster = cint (ending_sector_pos (root_directory fs)
     + (cluster - 2) * uint (sectors_per_cluster (primary (header fs))))"

definition fat16_sector_to_absolute :: "'a fat_private_scheme \<Rightarrow> int \<Rightarrow> int" where
  "fat16_sector_to_absolute fs sector =
     cint (uint (partition_offset fs) + sector * uint (bytes_per_sector (primary (header fs))))"

definition fat16_get_first_fat_sector :: "'a fat_private_scheme \<Rightarrow> u32" where
  "fat16_get_first_fat_sector fs = ucast (reserved_sectors (primary (header fs)))"

section \<open>File names\<close>

text \<open>The loop reads from the object \<open>inp\<close>, a directory entry, from index \<open>i\<close> on; it looks at a character before
  it looks at the length.\<close>

function proper_string_loop :: "byte list \<Rightarrow> nat \<Rightarrow> byte list \<Rightarrow> nat \<Rightarrow> nat \<Rightarrow> nat \<Rightarrow> fault + (byte list \<times> nat)" where
  "proper_string_loop out out_p inp i max_len c =
     cbind (rd inp (i + c)) (\<lambda>ch.
       if ch \<noteq> 0x00 \<and> ch \<noteq> 0x20 \<and> c < max_len
       then cbind (wr out (out_p + c) ch) (\<lambda>out'. proper_string_loop out' out_p inp i max_len (Suc c))
       else Inr (out, c))"
  by pat_completeness auto
termination
  by (relation "measure (\<lambda>(out, p, inp, i, m, c). m - c)") auto

declare proper_string_loop.simps [simp del]

definition fat16_to_proper_string :: "byte list \<Rightarrow> nat \<Rightarrow> byte list \<Rightarrow> nat \<Rightarrow> nat \<Rightarrow> fault + (byte list \<times> nat)" where
  "fat16_to_proper_string out out_p inp i max_len =
     cbind (proper_string_loop out out_p inp i max_len 0) (\<lambda>(out', c).
       if c < max_len then cbind (wr out' (out_p + c) 0) (\<lambda>out''. Inr (out'', out_p + c))
       else Inr (out', out_p + c))"

definition fat16_get_full_relative_filename :: "fat_file \<Rightarrow> byte list \<Rightarrow> fault + byte list" where
  "fat16_get_full_relative_filename f out =
     cbind (memset out 0 0 11) (\<lambda>out1.
     cbind (fat16_to_proper_string out1 0 (encode_fat_file f) 0 8) (\<lambda>(out2, out_tmp).
     cbind (rd (ext f) 0) (\<lambda>e.
       if e \<noteq> 0x00 \<and> e \<noteq> 0x20
       then cbind (wr out2 out_tmp 46) (\<lambda>out3.
            cbind (fat16_to_proper_string out3 (out_tmp + 1) (encode_fat_file f) 8 3) (\<lambda>(out4, _). Inr out4))
       else Inr out2)))"


section \<open>Streams of the driver\<close>

definition read_directory :: "drive \<Rightarrow> fat_state \<Rightarrow> byte list \<Rightarrow> int \<Rightarrow> fault + (int \<times> byte list \<times> fat_state)" where
  "read_directory dr s out n =
     cbind (diskstreamer_read dr (directory_stream s) out 0 n) (\<lambda>(res, st, out').
       Inr (res, out', s\<lparr>directory_stream := st\<rparr>))"

definition seek_directory :: "fat_state \<Rightarrow> int \<Rightarrow> int \<times> fat_state" where
  "seek_directory s p = (case diskstreamer_seek (directory_stream s) p of (res, st) \<Rightarrow>
     (res, s\<lparr>directory_stream := st\<rparr>))"

text \<open>\<open>diskstreamer_new\<close> does not look at what \<open>kzalloc\<close> returned.\<close>

definition diskstreamer_new :: "fat_state \<Rightarrow> fault + (disk_stream \<times> fat_state)" where
  "diskstreamer_new s = (case fat_kzalloc s of (ok, s') \<Rightarrow>
     if ok then Inr (\<lparr>pos = 0, on_primary = True\<rparr>, s') else Inl Null_Deref)"

definition diskstreamer_close :: "fat_state \<Rightarrow> fat_state" where
  "diskstreamer_close s = fat_kfree s"

section \<open>Directories\<close>

partial_function (option) total_items_loop :: "drive \<Rightarrow> fat_state \<Rightarrow> int \<Rightarrow> (fault + (int \<times> fat_state)) option" where
  [code]: "total_items_loop dr s tot =
     (case read_directory dr s (replicate 32 0) 32 of
        Inl e \<Rightarrow> Some (Inl e)
      | Inr (res, b, s') \<Rightarrow>
          if res \<noteq> ALL_OK then Some (Inr (- EIO, s'))
          else if b ! 0 = 0x00 then Some (Inr (tot, s'))
          else if b ! 0 = 0xE5 then total_items_loop dr s' tot
          else case fat16_get_full_relative_filename (decode_fat_file b) (replicate 11 0) of
            Inl e \<Rightarrow> Some (Inl e)
          | Inr _ \<Rightarrow> total_items_loop dr s' (tot + 1))"

definition fat16_get_total_items_for_directory :: "drive \<Rightarrow> fat_state \<Rightarrow> int \<Rightarrow> fault + (int \<times> fat_state)" where
  "fat16_get_total_items_for_directory dr s start_sector =
     (let (_, s1) = seek_directory s (fat16_sector_to_absolute s start_sector)
      in case total_items_loop dr s1 0 of None \<Rightarrow> Inl Diverges | Some r \<Rightarrow> r)"

text \<open>The entries that \<open>n\<close> bytes hold.\<close>

definition decode_entries :: "byte list \<Rightarrow> nat \<Rightarrow> fat_file list" where
  "decode_entries b n = map (\<lambda>i. decode_fat_file (sub_bytes b (32 * i) 32)) [0..<n]"

definition fat16_get_root_directory :: "drive \<Rightarrow> fat_state \<Rightarrow> fault + (int \<times> fat_state)" where
  "fat16_get_root_directory dr s =
     (let ph = primary (header s);
          root_dir_sector_pos = cint (uint (word_of_int (uint (fat_copies ph) * uint (sectors_per_fat ph))
            + fat16_get_first_fat_sector s));
          root_dir_size = uint (root_dir_entries ph) * 32
      in if bytes_per_sector ph = 0 then Inl Div_By_Zero
      else cbind (fat16_get_total_items_for_directory dr s root_dir_sector_pos) (\<lambda>(total_items, s1).
        if total_items < 0 then Inr (total_items, s1)
        else let (ok, s2) = fat_kzalloc s1 in
          if \<not> ok then Inr (- ENOMEM, s2)
          else let (res, s3) = seek_directory s2 (fat16_sector_to_absolute s2 root_dir_sector_pos) in
            if res \<noteq> ALL_OK then Inr (- EIO, s3)
            else cbind (read_directory dr s3 (replicate (nat root_dir_size) 0) root_dir_size) (\<lambda>(res, b, s4).
              if res \<noteq> ALL_OK then Inr (- EIO, s4)
              else Inr (ALL_OK, s4\<lparr>root_directory := \<lparr>
                  item = Live (decode_entries b (unat (root_dir_entries ph))),
                  dir_total = total_items, sector_pos = root_dir_sector_pos,
                  ending_sector_pos = root_dir_sector_pos + root_dir_size div uint (bytes_per_sector ph)\<rparr>\<rparr>))))"

section \<open>Allocation and release\<close>

definition fat16_init_private :: "fat_state \<Rightarrow> fault + (int \<times> fat_state)" where
  "fat16_init_private s =
     cbind (diskstreamer_new s) (\<lambda>(st1, s1).
     cbind (diskstreamer_new s1) (\<lambda>(st2, s2).
     cbind (diskstreamer_new s2) (\<lambda>(st3, s3).
       Inr (ALL_OK, s3\<lparr>cluster_read_stream := st1, fat_read_stream := st2, directory_stream := st3\<rparr>))))"

definition fat16_free_private :: "fat_state \<Rightarrow> fat_state" where
  "fat16_free_private s = fat_kfree (diskstreamer_close (diskstreamer_close (diskstreamer_close s)))"

text \<open>\<open>kfree\<close> of a null pointer does nothing; of freed memory it is a fault of the caller.\<close>

definition fat_free_ptr :: "'a ptr \<Rightarrow> fat_state \<Rightarrow> fault + fat_state" where
  "fat_free_ptr p s = (case p of Null \<Rightarrow> Inr s | Live _ \<Rightarrow> Inr (fat_kfree s) | Dangling \<Rightarrow> Inl Bad_Write)"

definition fat16_free_directory :: "fat_directory ptr \<Rightarrow> fat_state \<Rightarrow> fault + fat_state" where
  "fat16_free_directory directory s =
     (if directory = Null then Inr s
      else cbind (deref directory) (\<lambda>d. cbind (fat_free_ptr (item d) s) (fat_free_ptr directory)))"

definition fat16_free_fat_item :: "fat_item ptr \<Rightarrow> fat_state \<Rightarrow> fault + fat_state" where
  "fat16_free_fat_item it s =
     cbind (deref it) (\<lambda>i. case i of
       Directory_Item d \<Rightarrow> fat16_free_directory d s
     | File_Item f \<Rightarrow> fat_free_ptr f s)"

definition fat16_free_file_descriptor :: "fat_file_descriptor \<Rightarrow> fat_state \<Rightarrow> fault + fat_state" where
  "fat16_free_file_descriptor desc s =
     cbind (fat16_free_fat_item (fd_file desc) s) (\<lambda>s'. Inr (fat_kfree s'))"

definition fat16_clone_directory_item :: "fat_file \<Rightarrow> fat_state \<Rightarrow> fat_file ptr \<times> fat_state" where
  "fat16_clone_directory_item it s =
     (case fat_kzalloc s of (ok, s') \<Rightarrow> (if ok then Live it else Null, s'))"

section \<open>The file allocation table\<close>

definition fat16_get_next_fat_entry :: "drive \<Rightarrow> 'a fat_private_scheme \<Rightarrow> int \<Rightarrow> fault + (int \<times> 'a fat_private_scheme)" where
  "fat16_get_next_fat_entry dr fs cluster =
     (let fat_table_position = fat16_sector_to_absolute fs (sint (fat16_get_first_fat_sector fs));
          (res, stream) = diskstreamer_seek (fat_read_stream fs)
            (cint (fat_table_position + cluster * FAT16_FAT_ENTRY_SIZE))
      in if res < 0 then Inr (res, fs\<lparr>fat_read_stream := stream\<rparr>)
         else cbind (diskstreamer_read dr stream (replicate 2 0) 0 2) (\<lambda>(res, stream', b).
           let fs' = fs\<lparr>fat_read_stream := stream'\<rparr> in
           if res < 0 then Inr (res, fs') else Inr (uint (get16 b 0), fs')))"

definition fat_entry_ends :: "int \<Rightarrow> bool" where
  "fat_entry_ends entry = (entry = 0xFFF8 \<or> entry = 0xFFFF \<or> entry = FAT16_BAD_SECTOR
     \<or> entry = 0xFF0 \<or> entry = 0xFF6 \<or> entry = 0x00)"

text \<open>The loop along the chain, \<open>n\<close> links to go: the result, the cluster and the number of links it got to.\<close>

fun follow_chain :: "drive \<Rightarrow> 'a fat_private_scheme \<Rightarrow> int \<Rightarrow> int \<Rightarrow> nat
    \<Rightarrow> fault + (int \<times> int \<times> int \<times> 'a fat_private_scheme)" where
  "follow_chain dr fs cluster current_pos 0 = Inr (cluster, cluster, current_pos, fs)"
| "follow_chain dr fs cluster current_pos (Suc n) =
     cbind (fat16_get_next_fat_entry dr fs cluster) (\<lambda>(entry, fs').
       if fat_entry_ends entry then Inr (- EIO, cluster, current_pos, fs')
       else follow_chain dr fs' entry (current_pos + 1) n)"

definition cluster_bytes :: "'a fat_private_scheme \<Rightarrow> int" where
  "cluster_bytes fs = uint (sectors_per_cluster (primary (header fs))) * uint (bytes_per_sector (primary (header fs)))"

text \<open>The walk and the update of the cache.\<close>

definition finish_nth :: "drive \<Rightarrow> 'a fat_private_scheme \<Rightarrow> fat_file_descriptor option \<Rightarrow> int \<Rightarrow> int \<Rightarrow> int \<Rightarrow> int
    \<Rightarrow> fault + (int \<times> 'a fat_private_scheme \<times> fat_file_descriptor option)" where
  "finish_nth dr fs fat_desc size_of_cluster_bytes target_cluster cluster_to_use current_pos =
     cbind (follow_chain dr fs cluster_to_use current_pos (nat (target_cluster - current_pos)))
       (\<lambda>(result, cluster, cpos, fs').
         Inr (result, fs',
           if ISERR result then fat_desc
           else map_option (\<lambda>d. d\<lparr>cached_cluster := cluster, cached_offset_bytes := cpos * size_of_cluster_bytes\<rparr>) fat_desc))"

text \<open>\<open>fat_desc\<close> is the descriptor, if the caller has one; it comes back with its cache.\<close>

definition fat16_get_nth_cluster_from_fat :: "drive \<Rightarrow> 'a fat_private_scheme \<Rightarrow> fat_file_descriptor option \<Rightarrow> int \<Rightarrow> int
    \<Rightarrow> fault + (int \<times> 'a fat_private_scheme \<times> fat_file_descriptor option)" where
  "fat16_get_nth_cluster_from_fat dr fs fat_desc starting_cluster offset =
     (let size_of_cluster_bytes = cluster_bytes fs
      in if size_of_cluster_bytes = 0 then Inl Div_By_Zero
      else let target_cluster = offset sdiv size_of_cluster_bytes
      in if target_cluster = 0 then Inr (starting_cluster, fs, fat_desc)
      else let cached = (case fat_desc of None \<Rightarrow> None | Some d \<Rightarrow>
                 if cached_cluster d \<noteq> 0
                 then Some (cached_cluster d, cached_offset_bytes d sdiv size_of_cluster_bytes) else None)
      in case cached of
           Some (c, n) \<Rightarrow>
             if n = target_cluster then Inr (c, fs, fat_desc)
             else finish_nth dr fs fat_desc size_of_cluster_bytes target_cluster
               (if n < target_cluster then c else starting_cluster) (if n < target_cluster then n else 0)
         | None \<Rightarrow> finish_nth dr fs fat_desc size_of_cluster_bytes target_cluster starting_cluster 0)"


section \<open>Reading a chain of clusters\<close>

lemma nth_cluster_divides:
  "fat16_get_nth_cluster_from_fat dr fs d c off = Inr r \<Longrightarrow> 0 < cluster_bytes fs"
  by (auto simp: fat16_get_nth_cluster_from_fat_def cluster_bytes_def Let_def order_less_le split: if_splits)

function fat16_read_cluster :: "drive \<Rightarrow> 'a fat_private_scheme \<Rightarrow> fat_file_descriptor option \<Rightarrow> int \<Rightarrow> int \<Rightarrow> int
    \<Rightarrow> byte list \<Rightarrow> nat \<Rightarrow> fault + ('a fat_private_scheme \<times> fat_file_descriptor option \<times> byte list)" where
  "fat16_read_cluster dr fs fat_desc starting_cluster offset tot out d =
     (if 0 < tot
      then cbind (fat16_get_nth_cluster_from_fat dr fs fat_desc starting_cluster offset)
        (\<lambda>(cluster_to_use, fs1, fat_desc1).
        cbind (cassert (0 < cluster_to_use)) (\<lambda>_.
          let size_of_cluster_bytes = cluster_bytes fs;
              offset_from_cluster = offset smod size_of_cluster_bytes;
              starting_sector = fat16_cluster_to_sector fs1 cluster_to_use;
              starting_pos = cint (fat16_sector_to_absolute fs1 starting_sector + offset_from_cluster);
              total_to_read = (if size_of_cluster_bytes < tot then size_of_cluster_bytes else tot);
              (result, stream) = diskstreamer_seek (cluster_read_stream fs1) starting_pos
          in cbind (cassert (result = ALL_OK)) (\<lambda>_.
             cbind (diskstreamer_read dr stream out d total_to_read) (\<lambda>(result, stream', out').
             cbind (cassert (result = ALL_OK)) (\<lambda>_.
               fat16_read_cluster dr (fs1\<lparr>cluster_read_stream := stream'\<rparr>) fat_desc1 starting_cluster
                 (offset + total_to_read) (tot - total_to_read) out' (d + nat total_to_read))))))
      else Inr (fs, fat_desc, out))"
  by pat_completeness auto
termination
  by (relation "measure (\<lambda>(dr, fs, fd, c, off, tot, out, d). nat tot)")
    (auto dest!: nth_cluster_divides)

declare fat16_read_cluster.simps [simp del]

section \<open>Items\<close>

definition fat16_load_fat_directory :: "drive \<Rightarrow> fat_state \<Rightarrow> fat_file \<Rightarrow> fault + (fat_directory ptr \<times> fat_state)" where
  "fat16_load_fat_directory dr s it =
     (if attribute it AND FAT_FILE_SUBDIRECTORY = 0 then Inr (Null, s)
      else case fat_kzalloc s of (ok, s1) \<Rightarrow>
        if \<not> ok then Inr (Null, s1)
        else let cluster = sint (fat16_get_first_cluster it);
                 cluster_sector = fat16_cluster_to_sector s1 cluster
          in cbind (fat16_get_total_items_for_directory dr s1 cluster_sector) (\<lambda>(total_items, s2).
             case fat_kzalloc s2 of (ok, s3) \<Rightarrow>
               if \<not> ok
               then cbind (fat16_free_directory (Live \<lparr>item = Null, dir_total = total_items, sector_pos = 0,
                        ending_sector_pos = 0\<rparr>) s3) (\<lambda>s4. Inr (Dangling, s4))
               else cbind (fat16_read_cluster dr s3 None cluster 0 (total_items * 32)
                        (replicate (nat (total_items * 32)) 0) 0) (\<lambda>(s4, _, b).
                    Inr (Live \<lparr>item = Live (decode_entries b (nat total_items)), dir_total = total_items,
                        sector_pos = 0, ending_sector_pos = 0\<rparr>, s4))))"

definition fat16_new_fat_item_for_directory_item :: "drive \<Rightarrow> fat_state \<Rightarrow> fat_file \<Rightarrow> fault + (fat_item ptr \<times> fat_state)" where
  "fat16_new_fat_item_for_directory_item dr s it =
     (case fat_kzalloc s of (ok, s1) \<Rightarrow>
        if \<not> ok then Inr (Null, s1)
        else if attribute it AND FAT_FILE_SUBDIRECTORY \<noteq> 0
        then cbind (fat16_load_fat_directory dr s1 it) (\<lambda>(d, s2). Inr (Live (Directory_Item d), s2))
        else case fat16_clone_directory_item it s1 of (f, s2) \<Rightarrow> Inr (Live (File_Item f), s2))"

text \<open>The loop over the entries \<open>i, i + 1, ...\<close> with \<open>n\<close> to go; \<open>name\<close> is the string object looked for.\<close>

fun find_item_loop :: "drive \<Rightarrow> fat_state \<Rightarrow> fat_file list \<Rightarrow> byte list \<Rightarrow> fat_item ptr \<Rightarrow> nat \<Rightarrow> nat
    \<Rightarrow> fault + (fat_item ptr \<times> fat_state)" where
  "find_item_loop dr s es name f_item i 0 = Inr (f_item, s)"
| "find_item_loop dr s es name f_item i (Suc n) =
     cbind (rd es i) (\<lambda>e.
     cbind (fat16_get_full_relative_filename e (replicate 11 0)) (\<lambda>tmp_filename.
     cbind (istrncmp tmp_filename name 11) (\<lambda>c.
       if c = 0
       then cbind (fat16_new_fat_item_for_directory_item dr s e) (\<lambda>(f, s1).
              find_item_loop dr s1 es name f (Suc i) n)
       else find_item_loop dr s es name f_item (Suc i) n)))"

definition fat16_find_item_in_directory :: "drive \<Rightarrow> fat_state \<Rightarrow> fat_directory \<Rightarrow> byte list
    \<Rightarrow> fault + (fat_item ptr \<times> fat_state)" where
  "fat16_find_item_in_directory dr s directory name =
     (if dir_total directory \<le> 0 then Inr (Null, s)
      else cbind (deref (item directory)) (\<lambda>es. find_item_loop dr s es name Null 0 (nat (dir_total directory))))"

text \<open>The walk along the rest of the path.\<close>

fun directory_walk :: "drive \<Rightarrow> fat_state \<Rightarrow> fat_item ptr \<Rightarrow> byte list list \<Rightarrow> fault + (fat_item ptr \<times> fat_state)" where
  "directory_walk dr s current_item [] = Inr (current_item, s)"
| "directory_walk dr s current_item (part # parts) =
     cbind (deref current_item) (\<lambda>it. case it of
       File_Item _ \<Rightarrow> Inr (Null, s)
     | Directory_Item d \<Rightarrow>
         cbind (deref d) (\<lambda>dir.
         cbind (fat16_find_item_in_directory dr s dir part) (\<lambda>(tmp_item, s1).
         cbind (fat16_free_fat_item current_item s1) (\<lambda>s2.
           directory_walk dr s2 tmp_item parts))))"

definition fat16_get_directory_entry :: "drive \<Rightarrow> fat_state \<Rightarrow> byte list list \<Rightarrow> fault + (fat_item ptr \<times> fat_state)" where
  "fat16_get_directory_entry dr s path =
     (case path of [] \<Rightarrow> Inl Null_Deref
      | part # parts \<Rightarrow>
          cbind (fat16_find_item_in_directory dr s (root_directory s) part) (\<lambda>(root_item, s1).
            if root_item = Null then Inr (Null, s1) else directory_walk dr s1 root_item parts))"

section \<open>The driver's operations\<close>

definition blank_private :: "bool list \<Rightarrow> int \<Rightarrow> fat_state" where
  "blank_private al lv = \<lparr>header = decode_fat_header (replicate 62 0),
     root_directory = \<lparr>item = Null, dir_total = 0, sector_pos = 0, ending_sector_pos = 0\<rparr>,
     cluster_read_stream = \<lparr>pos = 0, on_primary = True\<rparr>, fat_read_stream = \<lparr>pos = 0, on_primary = True\<rparr>,
     directory_stream = \<lparr>pos = 0, on_primary = True\<rparr>, partition_offset = 0, allocs = al, live = lv\<rparr>"

text \<open>The first FAT16 partition of the master boot record, by its type, and where it starts.\<close>

fun find_partition :: "byte list \<Rightarrow> u32 \<Rightarrow> nat \<Rightarrow> nat \<Rightarrow> u32" where
  "find_partition mbr sector_size i 0 = 0"
| "find_partition mbr sector_size i (Suc n) =
     (let ty = mbr ! (0x1BE + 16 * i + 4)
      in if ty = 0x04 \<or> ty = 0x06 \<or> ty = 0x0E then get32 mbr (0x1BE + 16 * i + 8) * sector_size
         else find_partition mbr sector_size (Suc i) n)"

text \<open>The part of \<open>fat16_resolve\<close> between its allocations and the label \<open>out\<close>: the result and the private data.\<close>

definition resolve_partition :: "drive \<Rightarrow> u32 \<Rightarrow> disk_stream \<Rightarrow> fat_state \<Rightarrow> fault + (int \<times> fat_state)" where
  "resolve_partition dr sector_size stream s =
     cbind (diskstreamer_read dr stream (replicate 512 0) 0 512) (\<lambda>(res, stream1, mbr).
       if res \<noteq> ALL_OK then Inr (- EIO, s)
       else if mbr ! 510 \<noteq> 0x55 \<or> mbr ! 511 \<noteq> 0xAA then Inr (- EIO, s)
       else let partition_offset' = find_partition mbr sector_size 0 4;
                s1 = s\<lparr>partition_offset := partition_offset'\<rparr>;
                (res, stream2) = diskstreamer_seek stream1 (sint partition_offset')
         in if res \<noteq> ALL_OK then Inr (- EIO, s1)
         else cbind (diskstreamer_read dr stream2 (replicate 62 0) 0 62) (\<lambda>(res, stream3, hb).
           let s2 = s1\<lparr>header := decode_fat_header hb\<rparr> in
           if res \<noteq> ALL_OK then Inr (- EIO, s2)
           else if signature (extended (header s2)) \<noteq> FAT16_SIGNATURE then Inr (- EIO, s2)
           else cbind (fat16_get_root_directory dr s2) (\<lambda>(res, s3).
             Inr (if res \<noteq> ALL_OK then - EIO else ALL_OK, s3))))"

text \<open>The result is the status and what \<open>disk->fs_private\<close> points to.\<close>

definition fat16_resolve :: "drive \<Rightarrow> u32 \<Rightarrow> bool list \<Rightarrow> int \<Rightarrow> fault + (int \<times> fat_state ptr \<times> bool list \<times> int)" where
  "fat16_resolve dr sector_size al lv =
     (case fat_kzalloc (blank_private al lv) of (ok, s0) \<Rightarrow>
        if \<not> ok then Inl Null_Deref
        else cbind (fat16_init_private s0) (\<lambda>(_, s1).
             cbind (diskstreamer_new s1) (\<lambda>(stream, s2).
             cbind (resolve_partition dr sector_size stream s2) (\<lambda>(result, s3).
               let s4 = diskstreamer_close s3 in
               if result < 0
               then let s5 = fat16_free_private s4 in Inr (result, Null, allocs s5, live s5)
               else Inr (result, Live s4, allocs s4, live s4)))))"

definition fat16_open :: "drive \<Rightarrow> fat_state \<Rightarrow> byte list list \<Rightarrow> u32 \<Rightarrow> fault + (fat_file_descriptor ptr \<times> fat_state)" where
  "fat16_open dr s path mode =
     (if mode \<noteq> FILE_MODE_READ then Inr (Null, s)
      else case fat_kzalloc s of (ok, s1) \<Rightarrow>
        if \<not> ok then Inr (Null, s1)
        else cbind (fat16_get_directory_entry dr s1 path) (\<lambda>(f, s2).
          if f = Null then Inr (Null, s2)
          else Inr (Live \<lparr>fd_file = f, fd_pos = 0, cached_cluster = 0, cached_offset_bytes = 0\<rparr>, s2)))"

text \<open>\<open>fat_desc->file->file\<close>: the other member of the union is no file.\<close>

definition descriptor_file :: "fat_file_descriptor \<Rightarrow> fault + fat_file" where
  "descriptor_file desc = cbind (deref (fd_file desc)) (\<lambda>it. case it of
     File_Item f \<Rightarrow> deref f | Directory_Item _ \<Rightarrow> Inl Bad_Read)"

fun read_blocks_loop :: "drive \<Rightarrow> fat_state \<Rightarrow> fat_file_descriptor \<Rightarrow> int \<Rightarrow> int \<Rightarrow> u32 \<Rightarrow> byte list \<Rightarrow> nat \<Rightarrow> nat
    \<Rightarrow> fault + (fat_state \<times> fat_file_descriptor \<times> byte list \<times> int)" where
  "read_blocks_loop dr s desc first offset sz out d 0 = Inr (s, desc, out, offset)"
| "read_blocks_loop dr s desc first offset sz out d (Suc n) =
     cbind (fat16_read_cluster dr s (Some desc) first offset (sint sz) out d) (\<lambda>(s1, desc1, out1).
       read_blocks_loop dr s1 (the desc1) first (cint (offset + uint sz)) sz out1 (d + unat sz) n)"

text \<open>The file behind the descriptor is only looked at in the loop, so not at all for \<open>nmemb = 0\<close>.\<close>

definition fat16_read :: "drive \<Rightarrow> fat_state \<Rightarrow> fat_file_descriptor \<Rightarrow> u32 \<Rightarrow> u32 \<Rightarrow> byte list
    \<Rightarrow> fault + (int \<times> fat_state \<times> fat_file_descriptor \<times> byte list)" where
  "fat16_read dr s desc sz nmemb out =
     (if nmemb = 0 then cbind (deref (fd_file desc)) (\<lambda>_. Inr (0, s, desc, out))
      else cbind (descriptor_file desc) (\<lambda>f.
     cbind (read_blocks_loop dr s desc (sint (fat16_get_first_cluster f)) (sint (fd_pos desc)) sz out 0 (unat nmemb))
       (\<lambda>(s', desc', out', offset). Inr (sint nmemb, s', desc'\<lparr>fd_pos := word_of_int offset\<rparr>, out'))))"

definition fat16_write :: "fat_file_descriptor \<Rightarrow> u32 \<Rightarrow> u32 \<Rightarrow> byte list \<Rightarrow> int" where
  "fat16_write desc sz nmemb inp = - ENOTIMPL"

text \<open>A mode that is none of the three changes nothing.\<close>

definition fat16_seek :: "fat_file_descriptor \<Rightarrow> u32 \<Rightarrow> u32 \<Rightarrow> fault + (int \<times> fat_file_descriptor)" where
  "fat16_seek desc offset mode =
     cbind (deref (fd_file desc)) (\<lambda>it. case it of
       Directory_Item _ \<Rightarrow> Inr (- EINVARG, desc)
     | File_Item fp \<Rightarrow> cbind (deref fp) (\<lambda>f.
         if filesize f \<le> offset then Inr (- EINVARG, desc)
         else if mode = SEEK_SET then Inr (ALL_OK, desc\<lparr>fd_pos := offset\<rparr>)
         else if mode = SEEK_CUR
         then if filesize f < fd_pos desc + offset then Inr (- EINVARG, desc)
              else if sint (fd_pos desc + offset) < 0 then Inr (- EINVARG, desc)
              else Inr (ALL_OK, desc\<lparr>fd_pos := fd_pos desc + offset\<rparr>)
         else if mode = SEEK_END
         then if sint (filesize f - offset) < 0 then Inr (- EINVARG, desc)
              else Inr (ALL_OK, desc\<lparr>fd_pos := filesize f - offset\<rparr>)
         else Inr (ALL_OK, desc)))"

definition fat16_stat :: "fat_file_descriptor \<Rightarrow> fault + (int \<times> file_stat)" where
  "fat16_stat desc =
     cbind (deref (fd_file desc)) (\<lambda>it. case it of
       File_Item fp \<Rightarrow> cbind (deref fp) (\<lambda>f.
         Inr (ALL_OK, \<lparr>flags = (if attribute f AND FAT_FILE_READONLY \<noteq> 0 then FILE_STAT_READ_ONLY else 0),
                      st_filesize = filesize f\<rparr>))
     | Directory_Item _ \<Rightarrow> Inr (ALL_OK, \<lparr>flags = FILE_STAT_FOLDER, st_filesize = 0\<rparr>))"

definition fat16_close :: "fat_file_descriptor \<Rightarrow> fat_state \<Rightarrow> fault + (int \<times> fat_state)" where
  "fat16_close desc s = cbind (fat16_free_file_descriptor desc s) (\<lambda>s'. Inr (ALL_OK, s'))"

section \<open>Directory entries\<close>

definition entry_wf :: "fat_file \<Rightarrow> bool" where
  "entry_wf f = (length (filename f) = 8 \<and> length (ext f) = 3)"

lemma get16_enc: "get16 (xs @ enc16 w @ ys) (length xs) = w"
  by (simp add: get16_def enc16_def nth_append join_bytes16)

lemma get16_at: "length xs = i \<Longrightarrow> b = xs @ enc16 w @ ys \<Longrightarrow> get16 b i = w"
  using get16_enc by blast

lemma get32_at: "length xs = i \<Longrightarrow> b = xs @ enc32 w @ ys \<Longrightarrow> get32 b i = w"
  by (auto simp: get32_def enc32_def nth_append join_bytes32)

lemma length_encode: "entry_wf f \<Longrightarrow> length (encode_fat_file f) = 32"
  by (simp add: encode_fat_file_def entry_wf_def)

lemma decode_encode:
  assumes "entry_wf f"
  shows "decode_fat_file (encode_fat_file f) = f"
proof -
  let ?h = "filename f @ ext f @ [attribute f, reserved f, creation_time_tenths_of_a_sec f]"
  let ?b = "encode_fat_file f"
  have l: "length ?h = 14" using assms by (simp add: entry_wf_def)
  note at = get16_at [of _ _ ?b]
  have "creation_time f = get16 ?b 14"
    by (rule at [of ?h, symmetric]) (use l in \<open>simp_all add: encode_fat_file_def\<close>)
  moreover have "creation_date f = get16 ?b 16"
    by (rule at [of "?h @ enc16 (creation_time f)", symmetric]) (use l in \<open>simp_all add: encode_fat_file_def\<close>)
  moreover have "last_access f = get16 ?b 18"
    by (rule at [of "?h @ enc16 (creation_time f) @ enc16 (creation_date f)", symmetric])
      (use l in \<open>simp_all add: encode_fat_file_def\<close>)
  moreover have "high_16bits_first_cluster f = get16 ?b 20"
    by (rule at [of "?h @ enc16 (creation_time f) @ enc16 (creation_date f) @ enc16 (last_access f)", symmetric])
      (use l in \<open>simp_all add: encode_fat_file_def\<close>)
  moreover have "last_mod_time f = get16 ?b 22"
    by (rule at [of "?h @ enc16 (creation_time f) @ enc16 (creation_date f) @ enc16 (last_access f)
        @ enc16 (high_16bits_first_cluster f)", symmetric]) (use l in \<open>simp_all add: encode_fat_file_def\<close>)
  moreover have "last_mod_date f = get16 ?b 24"
    by (rule at [of "?h @ enc16 (creation_time f) @ enc16 (creation_date f) @ enc16 (last_access f)
        @ enc16 (high_16bits_first_cluster f) @ enc16 (last_mod_time f)", symmetric])
      (use l in \<open>simp_all add: encode_fat_file_def\<close>)
  moreover have "low_16bits_first_cluster f = get16 ?b 26"
    by (rule at [of "?h @ enc16 (creation_time f) @ enc16 (creation_date f) @ enc16 (last_access f)
        @ enc16 (high_16bits_first_cluster f) @ enc16 (last_mod_time f) @ enc16 (last_mod_date f)", symmetric])
      (use l in \<open>simp_all add: encode_fat_file_def\<close>)
  moreover have "filesize f = get32 ?b 28"
    by (rule get32_at [of "?h @ enc16 (creation_time f) @ enc16 (creation_date f) @ enc16 (last_access f)
        @ enc16 (high_16bits_first_cluster f) @ enc16 (last_mod_time f) @ enc16 (last_mod_date f)
        @ enc16 (low_16bits_first_cluster f)" _ _ _ "[]", symmetric])
      (use l in \<open>simp_all add: encode_fat_file_def\<close>)
  moreover have "filename f = sub_bytes ?b 0 8" "ext f = sub_bytes ?b 8 3" "attribute f = ?b ! 11"
    "reserved f = ?b ! 12" "creation_time_tenths_of_a_sec f = ?b ! 13"
    using assms by (auto simp: encode_fat_file_def sub_bytes_def entry_wf_def nth_append)
  ultimately show ?thesis by (simp add: decode_fat_file_def)
qed

lemma decode_wf: "length b = 32 \<Longrightarrow> entry_wf (decode_fat_file b)"
  by (simp add: entry_wf_def decode_fat_file_def sub_bytes_def)

section \<open>File names\<close>

definition name_char :: "byte \<Rightarrow> bool" where
  "name_char c = (c \<noteq> 0x00 \<and> c \<noteq> 0x20)"

definition base_name :: "fat_file \<Rightarrow> byte list" where
  "base_name f = takeWhile name_char (filename f)"

definition ext_name :: "fat_file \<Rightarrow> byte list" where
  "ext_name f = takeWhile name_char (ext f)"

text \<open>The 8.3 name: the base, and a dot and the extension if there is one.\<close>

definition full_name :: "fat_file \<Rightarrow> byte list" where
  "full_name f = base_name f @ (if ext_name f = [] then [] else 46 # ext_name f)"

lemma proper_string_loop_spec:
  assumes "i + length (takeWhile name_char (take max_len (drop i inp))) < length inp"
    and "c \<le> length (takeWhile name_char (take max_len (drop i inp)))" and "out_p + c \<le> length out"
  shows "proper_string_loop out out_p inp i max_len c =
    (if out_p + length (takeWhile name_char (take max_len (drop i inp))) \<le> length out
     then Inr (blit out (out_p + c) (drop c (takeWhile name_char (take max_len (drop i inp)))),
       length (takeWhile name_char (take max_len (drop i inp))))
     else Inl Bad_Write)"
proof -
  let ?s = "takeWhile name_char (take max_len (drop i inp))"
  have le: "length ?s \<le> max_len"
    using length_takeWhile_le [of name_char "take max_len (drop i inp)"] by simp
  have nth: "?s ! k = inp ! (i + k)" "name_char (inp ! (i + k))" if "k < length ?s" for k
  proof -
    have "?s ! k = take max_len (drop i inp) ! k" using that by (rule takeWhile_nth)
    moreover have "k < max_len" using that le by simp
    ultimately show "?s ! k = inp ! (i + k)" using assms(1) that by simp
    moreover have "name_char (?s ! k)" using that nth_mem set_takeWhileD by metis
    ultimately show "name_char (inp ! (i + k))" by simp
  qed
  have stop: "\<not> name_char (inp ! (i + length ?s)) \<or> length ?s = max_len"
  proof (cases "length ?s < length (take max_len (drop i inp))")
    case True
    then have "\<not> name_char (take max_len (drop i inp) ! length ?s)" by (rule nth_length_takeWhile)
    then show ?thesis using True assms(1) by simp
  next
    case False
    then show ?thesis using le assms(1) by simp
  qed
  show ?thesis
    using assms(2,3)
  proof (induction "length ?s - c" arbitrary: c out)
    case 0
    then have c: "c = length ?s" by simp
    then have "rd inp (i + c) = Inr (inp ! (i + c))" using assms(1) by simp
    then show ?case using c stop 0 by (auto simp: proper_string_loop.simps [of out] name_char_def)
  next
    case (Suc d)
    have c: "c < length ?s" using Suc.hyps(2) by simp
    then have r: "rd inp (i + c) = Inr (?s ! c)" "name_char (?s ! c)" "c < max_len"
      using assms(1) nth [OF c] le by auto
    show ?case
    proof (cases "out_p + c < length out")
      case False
      then have "\<not> out_p + length ?s \<le> length out" using c by simp
      then show ?thesis using r False by (simp add: proper_string_loop.simps [of out] name_char_def)
    next
      case True
      let ?o = "out[out_p + c := ?s ! c]"
      have step: "proper_string_loop out out_p inp i max_len c = proper_string_loop ?o out_p inp i max_len (Suc c)"
        using r True by (simp add: proper_string_loop.simps [of out] name_char_def)
      have rest: "proper_string_loop ?o out_p inp i max_len (Suc c) = (if out_p + length ?s \<le> length ?o
         then Inr (blit ?o (out_p + Suc c) (drop (Suc c) ?s), length ?s) else Inl Bad_Write)"
        by (rule Suc.hyps(1)) (use Suc.hyps(2) c True in auto)
      have "out_p + length ?s \<le> length ?o \<Longrightarrow>
          blit ?o (out_p + Suc c) (drop (Suc c) ?s) = blit out (out_p + c) (drop c ?s)"
        using blit_Cons [of "out_p + c" "drop (Suc c) ?s" out "?s ! c"] c
        by (simp add: Cons_nth_drop_Suc)
      then show ?thesis unfolding step rest by simp
    qed
  qed
qed


text \<open>The name in a zeroed buffer of 11 bytes.\<close>

lemma to_proper_string_spec:
  assumes "s = takeWhile name_char (take m (drop i inp))" and "i + length s < length inp" and "p \<le> length out"
  shows "fat16_to_proper_string out p inp i m =
    (if p + length s \<le> length out
     then if length s < m
          then if p + length s < length out then Inr (blit out p (s @ [0]), p + length s) else Inl Bad_Write
          else Inr (blit out p s, p + length s)
     else Inl Bad_Write)"
proof -
  have "proper_string_loop out p inp i m 0
      = (if p + length s \<le> length out then Inr (blit out p s, length s) else Inl Bad_Write)"
    using proper_string_loop_spec [of i m inp 0 p out] assms by simp
  then show ?thesis
    using blit_snoc [of p s out 0] by (auto simp: fat16_to_proper_string_def)
qed

definition padded_name :: "byte list \<Rightarrow> byte list" where
  "padded_name s = s @ replicate (11 - length s) 0"

lemma blit_padded:
  assumes "length s + length t \<le> 11"
  shows "blit (padded_name s) (length s) t = padded_name (s @ t)"
  using assms by (auto simp: blit_def padded_name_def)

lemma padded_nul: "length s < 11 \<Longrightarrow> padded_name (s @ [0]) = padded_name s"
  by (simp add: padded_name_def Suc_diff_Suc flip: replicate_Suc replicate_append_same)

lemma name_lengths: "entry_wf f \<Longrightarrow> length (base_name f) \<le> 8" "entry_wf f \<Longrightarrow> length (ext_name f) \<le> 3"
  using length_takeWhile_le [of name_char "filename f"] length_takeWhile_le [of name_char "ext f"]
  by (simp_all add: base_name_def ext_name_def entry_wf_def)

lemma full_name_spec:
  assumes "entry_wf f"
  shows "fat16_get_full_relative_filename f (replicate 11 x) =
    (if length (base_name f) = 8 \<and> 2 \<le> length (ext_name f) then Inl Bad_Write
     else Inr (padded_name (full_name f)))"
proof -
  have wf: "length (filename f) = 8" "length (ext f) = 3" using assms by (simp_all add: entry_wf_def)
  let ?b = "base_name f" and ?e = "ext_name f"
  have enc: "take 8 (drop 0 (encode_fat_file f)) = filename f" "take 3 (drop 8 (encode_fat_file f)) = ext f"
    "length (encode_fat_file f) = 32"
    using wf by (simp_all add: encode_fat_file_def length_encode [OF assms])
  note le = name_lengths [OF assms]
  have z: "memset (replicate 11 x) 0 0 11 = Inr (padded_name [])"
    using memset_full [of "replicate 11 x" 0] by (simp add: padded_name_def)
  have b: "fat16_to_proper_string (padded_name []) 0 (encode_fat_file f) 0 8 = Inr (padded_name ?b, length ?b)"
    using to_proper_string_spec [of ?b 8 0 "encode_fat_file f" 0 "padded_name []"] enc le
      blit_padded [of "[]" ?b] blit_padded [of "[]" "?b @ [0]"] padded_nul [of ?b]
    by (simp add: base_name_def [symmetric] padded_name_def [of "[]"] del: replicate.simps)
  obtain e0 es where e: "ext f = e0 # es" using wf by (cases "ext f") auto
  have e0: "rd (ext f) 0 = Inr e0" "e0 \<noteq> 0x00 \<and> e0 \<noteq> 0x20 \<longleftrightarrow> ?e \<noteq> []"
    using e by (auto simp: ext_name_def name_char_def)
  show ?thesis
  proof (cases "?e = []")
    case True
    then show ?thesis using z b e0 by (auto simp: fat16_get_full_relative_filename_def full_name_def)
  next
    case False
    have dot: "wr (padded_name ?b) (length ?b) 46 = Inr (padded_name (?b @ [46]))"
      using blit_padded [of ?b "[46]"] blit_snoc [of "length ?b" "[]" "padded_name ?b" 46] le
      by (simp add: padded_name_def)
    have len: "length (padded_name (?b @ [46])) = 11" using le by (simp add: padded_name_def)
    have ext: "fat16_to_proper_string (padded_name (?b @ [46])) (length ?b + 1) (encode_fat_file f) 8 3 =
      (if length ?b = 8 \<and> 2 \<le> length ?e then Inl Bad_Write
       else Inr (padded_name (full_name f), length ?b + 1 + length ?e))"
      using to_proper_string_spec [of ?e 3 8 "encode_fat_file f" "length ?b + 1" "padded_name (?b @ [46])"] enc le len
        blit_padded [of "?b @ [46]" ?e] blit_padded [of "?b @ [46]" "?e @ [0]"] padded_nul [of "?b @ 46 # ?e"] False
      by (auto simp: ext_name_def [symmetric] full_name_def)
    then show ?thesis using z b e0 False dot by (simp add: fat16_get_full_relative_filename_def)
  qed
qed

section \<open>Chains of clusters\<close>

lemma cint_small: "- (2 ^ 31) \<le> k \<Longrightarrow> k < 2 ^ 31 \<Longrightarrow> cint k = k"
  by (simp add: cint_def signed_of_int signed_take_bit_int_eq_self)

text \<open>Where the table and the data of a cluster lie.\<close>

definition fat_start :: "'a fat_private_scheme \<Rightarrow> nat" where
  "fat_start fs = unat (partition_offset fs)
     + unat (reserved_sectors (primary (header fs))) * unat (bytes_per_sector (primary (header fs)))"

definition cluster_start :: "'a fat_private_scheme \<Rightarrow> nat \<Rightarrow> nat" where
  "cluster_start fs c = unat (partition_offset fs) + (nat (ending_sector_pos (root_directory fs))
     + (c - 2) * unat (sectors_per_cluster (primary (header fs)))) * unat (bytes_per_sector (primary (header fs)))"

definition cluster_size :: "'a fat_private_scheme \<Rightarrow> nat" where
  "cluster_size fs = unat (sectors_per_cluster (primary (header fs))) * unat (bytes_per_sector (primary (header fs)))"

text \<open>The link of a cluster, the cluster \<open>n\<close> links behind \<open>c\<close>, and the bytes of a chain.\<close>

definition fat_link :: "(nat \<Rightarrow> byte) \<Rightarrow> 'a fat_private_scheme \<Rightarrow> nat \<Rightarrow> nat" where
  "fat_link media fs c = unat (media (fat_start fs + 2 * c)) + 256 * unat (media (fat_start fs + (2 * c + 1)))"

fun chain :: "(nat \<Rightarrow> byte) \<Rightarrow> 'a fat_private_scheme \<Rightarrow> nat \<Rightarrow> nat \<Rightarrow> nat option" where
  "chain media fs c 0 = Some c"
| "chain media fs c (Suc n) =
     (if fat_entry_ends (int (fat_link media fs c)) then None else chain media fs (fat_link media fs c) n)"

definition file_byte :: "(nat \<Rightarrow> byte) \<Rightarrow> 'a fat_private_scheme \<Rightarrow> nat \<Rightarrow> nat \<Rightarrow> byte" where
  "file_byte media fs c i =
     media (cluster_start fs (the (chain media fs c (i div cluster_size fs))) + i mod cluster_size fs)"

text \<open>A mounted file system on a drive that works: the table lies on the disk, and the streams belong to
  it.\<close>

definition mounted :: "drive \<Rightarrow> (nat \<Rightarrow> byte) \<Rightarrow> nat \<Rightarrow> 'a fat_private_scheme \<Rightarrow> bool" where
  "mounted dr media n fs = (ata_serves dr media n \<and> n \<le> 2 ^ 22 \<and> 0 < cluster_size fs
     \<and> fat_start fs + 131072 < 512 * n \<and> 0 \<le> ending_sector_pos (root_directory fs)
     \<and> on_primary (cluster_read_stream fs) \<and> on_primary (fat_read_stream fs))"

text \<open>Only the streams have moved.\<close>

definition moved :: "'a fat_private_scheme \<Rightarrow> 'a fat_private_scheme \<Rightarrow> bool" where
  "moved fs fs' = (\<exists>x y. fs' = fs\<lparr>cluster_read_stream := x, fat_read_stream := y\<rparr> \<and> on_primary x \<and> on_primary y)"

lemma movedI: "fs' = fs\<lparr>cluster_read_stream := x, fat_read_stream := y\<rparr> \<Longrightarrow> on_primary x \<Longrightarrow> on_primary y \<Longrightarrow> moved fs fs'"
  unfolding moved_def by blast

lemma movedE:
  assumes "moved fs fs'"
  obtains x y where "fs' = fs\<lparr>cluster_read_stream := x, fat_read_stream := y\<rparr>" "on_primary x" "on_primary y"
  using assms unfolding moved_def by blast

lemma moved_refl: "mounted dr media n fs \<Longrightarrow> moved fs fs"
  by (rule movedI [where x = "cluster_read_stream fs" and y = "fat_read_stream fs"]) (simp_all add: mounted_def)

lemma moved_trans: "moved a b \<Longrightarrow> moved b c \<Longrightarrow> moved a c"
proof -
  assume "moved a b" "moved b c"
  then obtain x y where "c = a\<lparr>cluster_read_stream := x, fat_read_stream := y\<rparr>" "on_primary x" "on_primary y"
    by (elim movedE) auto
  then show ?thesis by (rule movedI)
qed

lemma moved_same:
  assumes "moved fs fs'"
  shows "fat_start fs' = fat_start fs" "cluster_start fs' c = cluster_start fs c" "cluster_size fs' = cluster_size fs"
    "fat_link media fs' c = fat_link media fs c" "cluster_bytes fs' = cluster_bytes fs"
  using assms by (auto simp: moved_def fat_start_def cluster_start_def cluster_size_def fat_link_def cluster_bytes_def)

lemma moved_chain: "moved fs fs' \<Longrightarrow> chain media fs' c n = chain media fs c n"
  by (induction n arbitrary: c) (simp_all add: moved_same)

lemma moved_mounted: "moved fs fs' \<Longrightarrow> mounted dr media n fs \<Longrightarrow> mounted dr media n fs'"
  by (auto simp: mounted_def moved_same) (auto simp: moved_def)

lemma fat_link_less: "fat_link media fs c < 65536"
proof -
  have "unat (media (fat_start fs + 2 * c)) < 256" "unat (media (fat_start fs + (2 * c + 1))) < 256"
    using unsigned_less [of "media (fat_start fs + 2 * c)", where ?'a = nat]
      unsigned_less [of "media (fat_start fs + (2 * c + 1))", where ?'a = nat] by simp_all
  then show ?thesis unfolding fat_link_def by linarith
qed

text \<open>Reading one link.\<close>

lemma uint_get16: "uint (get16 [a, b] 0) = int (unat a + 256 * unat b)"
proof -
  have l: "take_bit 8 (uint x) = uint x" for x :: byte
    using unsigned_less [of x, where ?'a = int] by (simp add: take_bit_int_eq_self)
  have t: "take_bit 16 (uint x) = uint x" for x :: byte
    using unsigned_less [of x, where ?'a = int] by (simp add: take_bit_int_eq_self)
  have p: "take_bit 16 (push_bit 8 (uint b)) = push_bit 8 (uint b)"
    by (simp add: take_bit_push_bit l)
  have "uint (get16 [a, b] 0) = uint a OR push_bit 8 (uint b)"
    by (simp add: get16_def unsigned_or_eq unsigned_push_bit_eq unsigned_ucast_eq t p)
  also have "\<dots> = uint a + push_bit 8 (uint b)"
    using concat_bit_eq [of 8 "uint a" "uint b"] by (simp add: concat_bit_def l)
  finally show ?thesis by (simp add: push_bit_eq_mult)
qed

lemma next_fat_entry_spec:
  assumes m: "mounted dr media n fs" and c: "c < 65536"
  shows "\<exists>fs'. fat16_get_next_fat_entry dr fs (int c) = Inr (int (fat_link media fs c), fs') \<and> moved fs fs'"
proof -
  let ?p = "fat_start fs"
  have n: "512 * n \<le> 2 ^ 31" "?p + 131072 < 512 * n" using m by (auto simp: mounted_def)
  have s: "sint (fat16_get_first_fat_sector fs) = int (unat (reserved_sectors (primary (header fs))))"
  proof (rule sint_small)
    show "unat (fat16_get_first_fat_sector fs) = unat (reserved_sectors (primary (header fs)))"
      using unsigned_less [of "reserved_sectors (primary (header fs))", where ?'a = nat]
      by (simp add: fat16_get_first_fat_sector_def unsigned_ucast_eq take_bit_nat_eq_self)
    show "unat (reserved_sectors (primary (header fs))) < 2 ^ 31"
      using unsigned_less [of "reserved_sectors (primary (header fs))", where ?'a = nat] by simp
  qed
  have fp: "fat16_sector_to_absolute fs (sint (fat16_get_first_fat_sector fs)) = int ?p"
  proof -
    have "uint (partition_offset fs) + sint (fat16_get_first_fat_sector fs) * uint (bytes_per_sector (primary (header fs)))
        = int ?p" by (simp add: s fat_start_def)
    then show ?thesis using n by (simp add: fat16_sector_to_absolute_def cint_small)
  qed
  have q: "cint (int ?p + int c * 2) = int (?p + 2 * c)"
    using n c by (subst cint_small) auto
  let ?st = "(fat_read_stream fs)\<lparr>pos := int (?p + 2 * c)\<rparr>"
  have rd: "diskstreamer_read dr ?st (replicate 2 0) 0 (int 2)
      = Inr (0, ?st\<lparr>pos := int (?p + 2 * c + 2)\<rparr>, blit (replicate 2 0) 0 (disk_bytes media (?p + 2 * c) 2))"
    by (rule diskstreamer_read_spec [where n = n]) (use m n c in \<open>auto simp: mounted_def\<close>)
  have b: "blit (replicate 2 0) 0 (disk_bytes media (?p + 2 * c) 2)
      = [media (?p + 2 * c), media (?p + (2 * c + 1))]"
    by (simp add: blit_def disk_bytes_def upt_rec)
  let ?fs = "fs\<lparr>fat_read_stream := ?st\<lparr>pos := int (?p + 2 * c + 2)\<rparr>\<rparr>"
  have "fat16_get_next_fat_entry dr fs (int c) = Inr (int (fat_link media fs c), ?fs)"
    using rd b by (simp add: fat16_get_next_fat_entry_def fp FAT16_FAT_ENTRY_SIZE_def q diskstreamer_seek_def Let_def
        uint_get16 fat_link_def del: of_nat_add)
  moreover have "moved fs ?fs"
    by (rule movedI [where x = "cluster_read_stream fs"]) (use m in \<open>auto simp: mounted_def\<close>)
  ultimately show ?thesis by blast
qed

lemma follow_chain_spec:
  assumes "mounted dr media n fs" and "c < 65536"
  shows "case chain media fs c k of
      Some e \<Rightarrow> \<exists>fs'. follow_chain dr fs (int c) q k = Inr (int e, int e, q + int k, fs') \<and> moved fs fs'
    | None \<Rightarrow> \<exists>fs' x y. follow_chain dr fs (int c) q k = Inr (- EIO, x, y, fs') \<and> moved fs fs'"
  using assms
proof (induction k arbitrary: c q fs)
  case 0
  then show ?case using moved_refl by auto
next
  case (Suc k)
  let ?e = "fat_link media fs c"
  obtain fs1 where fs1: "fat16_get_next_fat_entry dr fs (int c) = Inr (int ?e, fs1)" "moved fs fs1"
    using next_fat_entry_spec [OF Suc.prems] by blast
  show ?case
  proof (cases "fat_entry_ends (int ?e)")
    case True
    then show ?thesis using fs1 by auto
  next
    case False
    have ih: "case chain media fs1 ?e k of
        Some e \<Rightarrow> \<exists>fs'. follow_chain dr fs1 (int ?e) (q + 1) k = Inr (int e, int e, q + 1 + int k, fs') \<and> moved fs1 fs'
      | None \<Rightarrow> \<exists>fs' x y. follow_chain dr fs1 (int ?e) (q + 1) k = Inr (- EIO, x, y, fs') \<and> moved fs1 fs'"
      by (rule Suc.IH [OF moved_mounted [OF fs1(2) Suc.prems(1)] fat_link_less])
    show ?thesis
    proof (cases "chain media fs ?e k")
      case None
      then obtain fs' x y where "follow_chain dr fs1 (int ?e) (q + 1) k = Inr (- EIO, x, y, fs')" "moved fs1 fs'"
        using ih by (auto simp: moved_chain [OF fs1(2)])
      then show ?thesis using None False fs1 moved_trans by auto
    next
      case (Some e)
      then obtain fs' where "follow_chain dr fs1 (int ?e) (q + 1) k = Inr (int e, int e, q + 1 + int k, fs')" "moved fs1 fs'"
        using ih by (auto simp: moved_chain [OF fs1(2)])
      then show ?thesis using Some False fs1 moved_trans by auto
    qed
  qed
qed

section \<open>The cluster cache\<close>

lemma chain_add:
  "chain media fs c (i + j) = (case chain media fs c i of None \<Rightarrow> None | Some d \<Rightarrow> chain media fs d j)"
  by (induction i arbitrary: c) auto

lemma chain_less: "chain media fs c n = Some d \<Longrightarrow> c < 65536 \<Longrightarrow> d < 65536"
  by (induction n arbitrary: c) (auto simp: fat_link_less split: if_splits)

lemma chain_prefix: "chain media fs c n = Some d \<Longrightarrow> i \<le> n \<Longrightarrow> \<exists>e. chain media fs c i = Some e"
  using chain_add [of media fs c i "n - i"] by (auto split: option.splits)

lemma cluster_bytes_size: "cluster_bytes fs = int (cluster_size fs)"
  by (simp add: cluster_bytes_def cluster_size_def)

text \<open>The cached cluster is the one at the cached offset of the chain.\<close>

definition cache_valid :: "(nat \<Rightarrow> byte) \<Rightarrow> 'a fat_private_scheme \<Rightarrow> nat \<Rightarrow> fat_file_descriptor option \<Rightarrow> bool" where
  "cache_valid media fs c desc = (case desc of None \<Rightarrow> True
    | Some d \<Rightarrow> cached_cluster d \<noteq> 0 \<longrightarrow> (\<exists>k e. chain media fs c k = Some e \<and> cached_cluster d = int e
        \<and> cached_offset_bytes d = int (k * cluster_size fs)))"

text \<open>Only the cache of the descriptor has changed.\<close>

definition same_desc :: "fat_file_descriptor option \<Rightarrow> fat_file_descriptor option \<Rightarrow> bool" where
  "same_desc a b = (map_option (\<lambda>d. (fd_file d, fd_pos d)) a = map_option (\<lambda>d. (fd_file d, fd_pos d)) b)"

lemma finish_nth_spec:
  assumes m: "mounted dr media n fs" and c: "c < 65536" and valid: "cache_valid media fs c desc"
    and k: "chain media fs c k = Some e" "k \<le> t"
  shows "\<exists>fs' desc'. finish_nth dr fs desc (int (cluster_size fs)) (int t) (int e) (int k)
      = Inr ((case chain media fs c t of Some e \<Rightarrow> int e | None \<Rightarrow> - EIO), fs', desc')
    \<and> moved fs fs' \<and> cache_valid media fs c desc' \<and> same_desc desc desc'"
proof -
  have e: "e < 65536" by (rule chain_less [OF k(1) c])
  have ct: "chain media fs c t = chain media fs e (t - k)"
    using chain_add [of media fs c k "t - k"] k by simp
  have len: "nat (int t - int k) = t - k" using k(2) by simp
  have walk: "case chain media fs e (t - k) of
      Some x \<Rightarrow> \<exists>fs'. follow_chain dr fs (int e) (int k) (t - k) = Inr (int x, int x, int k + int (t - k), fs') \<and> moved fs fs'
    | None \<Rightarrow> \<exists>fs' x y. follow_chain dr fs (int e) (int k) (t - k) = Inr (- EIO, x, y, fs') \<and> moved fs fs'"
    by (rule follow_chain_spec [OF m e])
  show ?thesis
  proof (cases "chain media fs c t")
    case None
    then obtain fs' x y where "follow_chain dr fs (int e) (int k) (t - k) = Inr (- EIO, x, y, fs')" "moved fs fs'"
      using walk ct by auto
    then show ?thesis using None valid by (auto simp: finish_nth_def len status_defs same_desc_def)
  next
    case (Some x)
    then obtain fs' where w: "follow_chain dr fs (int e) (int k) (t - k) = Inr (int x, int x, int k + int (t - k), fs')"
      "moved fs fs'" using walk ct by auto
    have pos: "int k + int (t - k) = int t" using k(2) by simp
    let ?desc = "map_option (\<lambda>d. d\<lparr>cached_cluster := int x, cached_offset_bytes := int t * int (cluster_size fs)\<rparr>) desc"
    have "cache_valid media fs c ?desc"
      using Some by (auto simp: cache_valid_def split: option.split)
    moreover have "same_desc desc ?desc" by (cases desc) (simp_all add: same_desc_def)
    ultimately show ?thesis using w Some unfolding finish_nth_def len pos by (auto simp: ISERR_def pos)
  qed
qed

lemma nth_cluster_spec:
  assumes m: "mounted dr media n fs" and c: "c < 65536" and valid: "cache_valid media fs c desc"
  shows "\<exists>fs' desc'. fat16_get_nth_cluster_from_fat dr fs desc (int c) (int off)
      = Inr ((case chain media fs c (off div cluster_size fs) of Some e \<Rightarrow> int e | None \<Rightarrow> - EIO), fs', desc')
    \<and> moved fs fs' \<and> cache_valid media fs c desc' \<and> same_desc desc desc'"
proof -
  let ?cs = "cluster_size fs" and ?t = "off div cluster_size fs"
  have cs: "0 < ?cs" using m by (simp add: mounted_def)
  have div: "int off sdiv int ?cs = int ?t" by (rule sdiv_smod_of_nat)
  have stay: "moved fs fs" by (rule moved_refl [OF m])
  have same: "same_desc desc desc" by (simp add: same_desc_def)
  have start: "\<exists>fs' desc'. finish_nth dr fs desc (int ?cs) (int ?t) (int c) 0
      = Inr ((case chain media fs c ?t of Some e \<Rightarrow> int e | None \<Rightarrow> - EIO), fs', desc')
    \<and> moved fs fs' \<and> cache_valid media fs c desc' \<and> same_desc desc desc'"
    using finish_nth_spec [OF m c valid, of 0 c ?t] by simp
  note unf = fat16_get_nth_cluster_from_fat_def [of dr fs desc "int c" "int off"]
  show ?thesis
  proof (cases "?t = 0")
    case True
    then show ?thesis using cs stay valid same div
      by (simp add: unf Let_def cluster_bytes_size del: of_nat_div)
  next
    case t: False
    show ?thesis
    proof (cases "desc = None \<or> cached_cluster (the desc) = 0")
      case True
      then have "fat16_get_nth_cluster_from_fat dr fs desc (int c) (int off)
          = finish_nth dr fs desc (int ?cs) (int ?t) (int c) 0"
        using cs t div by (auto simp: unf Let_def cluster_bytes_size simp del: of_nat_div split: option.split)
      then show ?thesis using start by simp
    next
      case False
      then obtain d where d: "desc = Some d" "cached_cluster d \<noteq> 0" by auto
      then obtain k e where k: "chain media fs c k = Some e" "cached_cluster d = int e"
        "cached_offset_bytes d = int (k * ?cs)"
        using valid by (auto simp: cache_valid_def)
      have "cached_offset_bytes d sdiv int ?cs = int k"
        unfolding k(3) sdiv_smod_of_nat using cs by simp
      then have eq: "fat16_get_nth_cluster_from_fat dr fs desc (int c) (int off) =
        (if k = ?t then Inr (int e, fs, desc)
         else if k < ?t then finish_nth dr fs desc (int ?cs) (int ?t) (int e) (int k)
         else finish_nth dr fs desc (int ?cs) (int ?t) (int c) 0)"
        using cs t div d k(2)
        by (simp add: fat16_get_nth_cluster_from_fat_def Let_def cluster_bytes_size del: of_nat_div)
      show ?thesis
      proof (cases k ?t rule: linorder_cases)
        case less
        then show ?thesis using eq finish_nth_spec [OF m c valid k(1), of ?t] by simp
      next
        case equal
        then show ?thesis using eq k(1) stay valid same by auto
      next
        case greater
        then show ?thesis using eq start by simp
      qed
    qed
  qed
qed

section \<open>Reading clusters\<close>

text \<open>A data cluster that lies on the disk.\<close>

definition cluster_ok :: "'a fat_private_scheme \<Rightarrow> nat \<Rightarrow> nat \<Rightarrow> bool" where
  "cluster_ok fs n c = (2 \<le> c \<and> cluster_start fs c + 2 * cluster_size fs < 512 * n)"

lemma cint_nat: "k < 2 ^ 31 \<Longrightarrow> cint (int k) = int k"
  by (simp add: cint_small)

lemma cluster_absolute:
  assumes "mounted dr media n fs" and "2 \<le> c" and "cluster_start fs c < 2 ^ 31"
  shows "fat16_sector_to_absolute fs (fat16_cluster_to_sector fs (int c)) = int (cluster_start fs c)"
proof -
  let ?spc = "unat (sectors_per_cluster (primary (header fs)))" and ?bps = "unat (bytes_per_sector (primary (header fs)))"
  let ?fin = "ending_sector_pos (root_directory fs)"
  have e: "0 \<le> ?fin" and bps: "0 < ?bps" using assms(1) by (auto simp: mounted_def cluster_size_def)
  let ?s = "nat ?fin + (c - 2) * ?spc"
  have s: "?fin + (int c - 2) * uint (sectors_per_cluster (primary (header fs))) = int ?s"
    using assms(2) e by (simp add: of_nat_diff)
  have "?s * 1 \<le> ?s * ?bps" by (rule mult_le_mono2) (use bps in linarith)
  then have "?s < 2 ^ 31" using assms(3) unfolding cluster_start_def mult_1_right by linarith
  then have sec: "fat16_cluster_to_sector fs (int c) = int ?s"
    unfolding fat16_cluster_to_sector_def s by (rule cint_nat)
  have "uint (partition_offset fs) + int ?s * uint (bytes_per_sector (primary (header fs))) = int (cluster_start fs c)"
    by (simp add: cluster_start_def)
  then show ?thesis unfolding fat16_sector_to_absolute_def sec using assms(3) by (simp only: cint_nat)
qed

text \<open>One round of the loop: \<open>t\<close> bytes, as many as it asks the stream for, from the cluster of the offset on.\<close>

lemma read_cluster_round:
  assumes m: "mounted dr media n fs" and c: "c < 65536" and valid: "cache_valid media fs c desc"
    and ok: "chain media fs c (off div cluster_size fs) = Some e" "cluster_ok fs n e"
    and t: "t = min (cluster_size fs) tot" "0 < tot" and out: "d + tot \<le> length out"
  shows "\<exists>fs' desc'. fat16_read_cluster dr fs desc (int c) (int off) (int tot) out d
      = fat16_read_cluster dr fs' desc' (int c) (int (off + t)) (int (tot - t))
          (blit out d (disk_bytes media (cluster_start fs e + off mod cluster_size fs) t)) (d + t)
    \<and> moved fs fs' \<and> cache_valid media fs c desc' \<and> same_desc desc desc'"
proof -
  let ?cs = "cluster_size fs" and ?p = "cluster_start fs e + off mod cluster_size fs"
  have cs: "0 < ?cs" and n: "512 * n \<le> 2 ^ 31" using m by (auto simp: mounted_def)
  obtain fs1 desc1 where f: "fat16_get_nth_cluster_from_fat dr fs desc (int c) (int off) = Inr (int e, fs1, desc1)"
    "moved fs fs1" "cache_valid media fs c desc1" "same_desc desc desc1"
    using nth_cluster_spec [OF m c valid, of off] ok(1) by auto
  have e: "2 \<le> e" "cluster_start fs e + 2 * ?cs < 512 * n" using ok(2) by (auto simp: cluster_ok_def)
  have m1: "mounted dr media n fs1" by (rule moved_mounted [OF f(2) m])
  have tp: "0 < t" "t \<le> tot" "t \<le> ?cs" using t cs by auto
  have lt: "off mod ?cs < ?cs" using cs by simp
  have sec: "fat16_sector_to_absolute fs1 (fat16_cluster_to_sector fs1 (int e)) = int (cluster_start fs e)"
    using cluster_absolute [OF m1 e(1)] e(2) n by (simp add: moved_same [OF f(2)])
  have pos: "cint (int (cluster_start fs e) + int off smod int ?cs) = int ?p"
    unfolding sdiv_smod_of_nat using e(2) n lt by (subst cint_small) auto
  have bound: "?p + t < 512 * n" using e(2) lt tp by linarith
  let ?st = "(cluster_read_stream fs1)\<lparr>pos := int ?p\<rparr>"
  have rd: "diskstreamer_read dr ?st out d (int t)
      = Inr (0, ?st\<lparr>pos := int (?p + t)\<rparr>, blit out d (disk_bytes media ?p t))"
    by (rule diskstreamer_read_spec [where n = n]) (use m1 n bound tp out in \<open>auto simp: mounted_def\<close>)
  have tot: "(if ?cs < tot then int ?cs else int tot) = int t" using t by auto
  let ?fs = "fs1\<lparr>cluster_read_stream := ?st\<lparr>pos := int (?p + t)\<rparr>\<rparr>"
  have "moved fs1 ?fs"
    by (rule movedI [where y = "fat_read_stream fs1"]) (use m1 in \<open>auto simp: mounted_def\<close>)
  then have mv: "moved fs ?fs" by (rule moved_trans [OF f(2)])
  have "fat16_read_cluster dr fs desc (int c) (int off) (int tot) out d
      = fat16_read_cluster dr ?fs desc1 (int c) (int off + int t) (int tot - int t)
          (blit out d (disk_bytes media ?p t)) (d + nat (int t))"
    using t(2) f(1) e(1) rd
    by (subst fat16_read_cluster.simps)
      (simp add: Let_def cluster_bytes_size tot sec pos diskstreamer_seek_def ALL_OK_def del: of_nat_add)
  then show ?thesis using mv f(3,4) tp by (auto simp: of_nat_diff)
qed


text \<open>Every cluster from the one of \<open>off\<close> to the one of the last byte is there.\<close>

definition clusters_ok :: "(nat \<Rightarrow> byte) \<Rightarrow> 'a fat_private_scheme \<Rightarrow> nat \<Rightarrow> nat \<Rightarrow> nat \<Rightarrow> nat \<Rightarrow> bool" where
  "clusters_ok media fs n c off t = (\<forall>i<t. \<exists>e. chain media fs c ((off + i) div cluster_size fs) = Some e
     \<and> cluster_ok fs n e)"

definition file_bytes :: "(nat \<Rightarrow> byte) \<Rightarrow> 'a fat_private_scheme \<Rightarrow> nat \<Rightarrow> nat \<Rightarrow> nat \<Rightarrow> byte list" where
  "file_bytes media fs c off t = map (\<lambda>i. file_byte media fs c (off + i)) [0..<t]"

lemma file_bytes_append: "file_bytes media fs c off (s + t) = file_bytes media fs c off s @ file_bytes media fs c (off + s) t"
  by (intro nth_equalityI) (auto simp: file_bytes_def nth_append add.assoc)

lemma moved_cache: "moved fs fs' \<Longrightarrow> cache_valid media fs' c desc = cache_valid media fs c desc"
  by (cases desc) (simp_all add: cache_valid_def moved_same moved_chain)

lemma same_cluster_bytes:
  assumes "chain media fs c (off div cluster_size fs) = Some e" and "off mod cluster_size fs + t \<le> cluster_size fs"
    and "0 < cluster_size fs"
  shows "disk_bytes media (cluster_start fs e + off mod cluster_size fs) t = file_bytes media fs c off t"
proof (rule nth_equalityI)
  fix i assume "i < length (disk_bytes media (cluster_start fs e + off mod cluster_size fs) t)"
  then have i: "i < t" by simp
  let ?cs = "cluster_size fs"
  have lt: "off mod ?cs + i < ?cs" using i assms(2) by simp
  have e: "off + i = ?cs * (off div ?cs) + (off mod ?cs + i)" using mult_div_mod_eq [of ?cs off] by simp
  have q: "(off + i) div ?cs = off div ?cs"
  proof (rule div_nat_eqI)
    show "?cs * (off div ?cs) \<le> off + i" using e by linarith
    show "off + i < ?cs * Suc (off div ?cs)" unfolding mult_Suc_right using e lt by linarith
  qed
  have "?cs * (off div ?cs) + (off + i) mod ?cs = off + i"
    using mult_div_mod_eq [of ?cs "off + i"] unfolding q .
  then have "(off + i) mod ?cs = off mod ?cs + i" using e by linarith
  note this q
  then show "disk_bytes media (cluster_start fs e + off mod ?cs) t ! i = file_bytes media fs c off t ! i"
    using i assms(1) by (simp add: nth_disk_bytes file_bytes_def file_byte_def add.assoc)
qed (simp add: file_bytes_def)

lemma read_cluster_spec:
  assumes m: "mounted dr media n fs" and "c < 65536" and "cache_valid media fs c desc"
    and "clusters_ok media fs n c off tot" and "d + tot \<le> length out"
    and "off mod cluster_size fs = 0 \<or> off mod cluster_size fs + tot \<le> cluster_size fs"
  shows "\<exists>fs' desc'. fat16_read_cluster dr fs desc (int c) (int off) (int tot) out d
      = Inr (fs', desc', blit out d (file_bytes media fs c off tot))
    \<and> moved fs fs' \<and> cache_valid media fs c desc' \<and> same_desc desc desc'"
  using assms
proof (induction tot arbitrary: fs desc off out d rule: less_induct)
  case (less tot)
  note m = less.prems(1)
  let ?cs = "cluster_size fs"
  have cs: "0 < ?cs" using m by (simp add: mounted_def)
  show ?case
  proof (cases "tot = 0")
    case True
    then show ?thesis
      using moved_refl [OF m] less.prems(3)
      by (auto simp: fat16_read_cluster.simps [of dr fs] file_bytes_def same_desc_def)
  next
    case False
    define t where "t = min ?cs tot"
    have t: "0 < t" "t \<le> tot" "t \<le> ?cs" using False cs by (auto simp: t_def)
    obtain e where e: "chain media fs c (off div ?cs) = Some e" "cluster_ok fs n e"
      using less.prems(4) False unfolding clusters_ok_def by (metis add.right_neutral gr0I)
    have one: "off mod ?cs + t \<le> ?cs" using less.prems(6) t by auto
    obtain fs1 desc1 where r: "fat16_read_cluster dr fs desc (int c) (int off) (int tot) out d
      = fat16_read_cluster dr fs1 desc1 (int c) (int (off + t)) (int (tot - t))
          (blit out d (disk_bytes media (cluster_start fs e + off mod ?cs) t)) (d + t)"
      "moved fs fs1" "cache_valid media fs c desc1" "same_desc desc desc1"
      using read_cluster_round [OF m less.prems(2,3) e t_def _ less.prems(5)] False by blast
    let ?o = "blit out d (file_bytes media fs c off t)"
    have o: "blit out d (disk_bytes media (cluster_start fs e + off mod ?cs) t) = ?o"
      using same_cluster_bytes [OF e(1) one cs] by simp
    have len: "length (file_bytes media fs c off s) = s" for off s by (simp add: file_bytes_def)
    have fb: "file_bytes media fs1 c off s = file_bytes media fs c off s" for off s
      by (simp add: file_bytes_def file_byte_def moved_same [OF r(2)] moved_chain [OF r(2)])
    have "\<exists>fs' desc'. fat16_read_cluster dr fs1 desc1 (int c) (int (off + t)) (int (tot - t)) ?o (d + t)
      = Inr (fs', desc', blit ?o (d + t) (file_bytes media fs1 c (off + t) (tot - t)))
      \<and> moved fs1 fs' \<and> cache_valid media fs1 c desc' \<and> same_desc desc1 desc'"
    proof (rule less.IH)
      show "tot - t < tot" using t by simp
      show "mounted dr media n fs1" by (rule moved_mounted [OF r(2) m])
      show "c < 65536" by (rule less.prems(2))
      show "cache_valid media fs1 c desc1"
        using r(3) by (simp add: moved_cache [OF r(2)])
      show "clusters_ok media fs1 n c (off + t) (tot - t)"
        unfolding clusters_ok_def
      proof (intro allI impI)
        fix i assume "i < tot - t"
        then have "t + i < tot" by simp
        then show "\<exists>e. chain media fs1 c ((off + t + i) div cluster_size fs1) = Some e \<and> cluster_ok fs1 n e"
          using less.prems(4) unfolding clusters_ok_def
          by (simp add: moved_same [OF r(2)] moved_chain [OF r(2)] cluster_ok_def add.assoc)
      qed
      show "d + t + (tot - t) \<le> length ?o" using less.prems(5) t len [of off t] by simp
      show "(off + t) mod cluster_size fs1 = 0 \<or> (off + t) mod cluster_size fs1 + (tot - t) \<le> cluster_size fs1"
      proof (cases "t = tot")
        case True
        then show ?thesis using cs by (simp add: moved_same [OF r(2)] less_imp_le)
      next
        case False
        then have "t = ?cs" "off mod ?cs = 0" using less.prems(6) by (auto simp: t_def)
        then show ?thesis by (simp add: moved_same [OF r(2)])
      qed
    qed
    then obtain fs' desc' where f: "fat16_read_cluster dr fs1 desc1 (int c) (int (off + t)) (int (tot - t)) ?o (d + t)
      = Inr (fs', desc', blit ?o (d + t) (file_bytes media fs1 c (off + t) (tot - t)))"
      "moved fs1 fs'" "cache_valid media fs1 c desc'" "same_desc desc1 desc'" by blast
    have "blit ?o (d + t) (file_bytes media fs c (off + t) (tot - t)) = blit out d (file_bytes media fs c off tot)"
      using blit_append [of d "file_bytes media fs c off t" "file_bytes media fs c (off + t) (tot - t)" out]
        less.prems(5) t file_bytes_append [of media fs c off t "tot - t"] by (simp add: len)
    moreover have "cache_valid media fs c desc'"
      using f(3) by (simp add: moved_cache [OF r(2)])
    moreover have "same_desc desc desc'" using r(4) f(4) by (simp add: same_desc_def)
    ultimately show ?thesis using r(1) o f(1,2) fb moved_trans [OF r(2)] by auto
  qed
qed

section \<open>Reading a file\<close>

lemma length_file_bytes [simp]: "length (file_bytes media fs c off t) = t"
  by (simp add: file_bytes_def)

lemma moved_file_bytes: "moved fs fs' \<Longrightarrow> file_bytes media fs' c off t = file_bytes media fs c off t"
  by (simp add: file_bytes_def file_byte_def moved_same moved_chain)

lemma moved_clusters_ok: "moved fs fs' \<Longrightarrow> clusters_ok media fs' n c off t = clusters_ok media fs n c off t"
  by (simp add: clusters_ok_def moved_same moved_chain cluster_ok_def)

text \<open>No block of \<open>sz\<close> bytes from \<open>off\<close> on starts inside of a cluster and goes on in the next.\<close>

definition blocks_fit :: "nat \<Rightarrow> nat \<Rightarrow> nat \<Rightarrow> nat \<Rightarrow> bool" where
  "blocks_fit cs off sz k = (\<forall>i<k. (off + i * sz) mod cs = 0 \<or> (off + i * sz) mod cs + sz \<le> cs)"

lemma read_blocks_spec:
  fixes s :: fat_state
  assumes "mounted dr media n s" and "c < 65536" and "cache_valid media s c (Some desc)"
    and "clusters_ok media s n c off (unat sz * k)" and "blocks_fit (cluster_size s) off (unat sz) k"
    and "d + unat sz * k \<le> length out" and "off + unat sz * k < 2 ^ 31" and "unat sz < 2 ^ 31"
  shows "\<exists>s' desc'. read_blocks_loop dr s desc (int c) (int off) sz out d k
      = Inr (s', desc', blit out d (file_bytes media s c off (unat sz * k)), int (off + unat sz * k))
    \<and> moved s s' \<and> cache_valid media s c (Some desc') \<and> fd_file desc' = fd_file desc"
  using assms
proof (induction k arbitrary: s desc off out d)
  case 0
  then show ?case using moved_refl [OF 0(1)] by (auto simp: file_bytes_def)
next
  case (Suc k)
  let ?t = "unat sz"
  note m = Suc.prems(1)
  have ssz: "sint sz = int ?t" using Suc.prems(8) by (intro sint_small) simp_all
  have ok1: "clusters_ok media s n c off ?t" and ok2: "clusters_ok media s n c (off + ?t) (?t * k)"
  proof -
    show "clusters_ok media s n c off ?t" using Suc.prems(4) by (simp add: clusters_ok_def)
    have "\<exists>e. chain media s c ((off + ?t + i) div cluster_size s) = Some e \<and> cluster_ok s n e" if "i < ?t * k" for i
    proof -
      have "?t + i < ?t * Suc k" using that by simp
      then have "\<exists>e. chain media s c ((off + (?t + i)) div cluster_size s) = Some e \<and> cluster_ok s n e"
        using Suc.prems(4) unfolding clusters_ok_def by blast
      then show ?thesis by (simp add: add.assoc)
    qed
    then show "clusters_ok media s n c (off + ?t) (?t * k)" by (simp add: clusters_ok_def)
  qed
  have fit: "off mod cluster_size s = 0 \<or> off mod cluster_size s + ?t \<le> cluster_size s"
    using Suc.prems(5) unfolding blocks_fit_def by (metis add.right_neutral mult_zero_left zero_less_Suc)
  have len: "d + ?t \<le> length out" using Suc.prems(6) by simp
  obtain s1 desc1 where r: "fat16_read_cluster dr s (Some desc) (int c) (int off) (int ?t) out d
      = Inr (s1, desc1, blit out d (file_bytes media s c off ?t))"
    "moved s s1" "cache_valid media s c desc1" "same_desc (Some desc) desc1"
    using read_cluster_spec [OF m Suc.prems(2,3) ok1 len fit] by blast
  obtain desc2 where d2: "desc1 = Some desc2" "fd_file desc2 = fd_file desc"
    using r(4) by (cases desc1) (auto simp: same_desc_def)
  let ?o = "blit out d (file_bytes media s c off ?t)"
  have "blocks_fit (cluster_size s) (off + ?t) ?t k"
    unfolding blocks_fit_def
  proof (intro allI impI)
    fix i assume "i < k"
    then show "(off + ?t + i * ?t) mod cluster_size s = 0 \<or> (off + ?t + i * ?t) mod cluster_size s + ?t \<le> cluster_size s"
      using Suc.prems(5) [unfolded blocks_fit_def, rule_format, of "Suc i"] by (simp add: add.assoc)
  qed
  then have "\<exists>s' desc'. read_blocks_loop dr s1 desc2 (int c) (int (off + ?t)) sz ?o (d + ?t) k
      = Inr (s', desc', blit ?o (d + ?t) (file_bytes media s1 c (off + ?t) (?t * k)), int (off + ?t + ?t * k))
    \<and> moved s1 s' \<and> cache_valid media s1 c (Some desc') \<and> fd_file desc' = fd_file desc2"
    using Suc.prems r(3) d2 ok2
    by (intro Suc.IH [OF moved_mounted [OF r(2) m] Suc.prems(2)])
      (simp_all add: moved_cache [OF r(2)] moved_clusters_ok [OF r(2)] moved_same [OF r(2)] add.assoc)
  then obtain s' desc' where f: "read_blocks_loop dr s1 desc2 (int c) (int (off + ?t)) sz ?o (d + ?t) k
      = Inr (s', desc', blit ?o (d + ?t) (file_bytes media s1 c (off + ?t) (?t * k)), int (off + ?t + ?t * k))"
    "moved s1 s'" "cache_valid media s1 c (Some desc')" "fd_file desc' = fd_file desc2" by blast
  have "blit ?o (d + ?t) (file_bytes media s c (off + ?t) (?t * k)) = blit out d (file_bytes media s c off (?t * Suc k))"
    using blit_append [of d "file_bytes media s c off ?t" "file_bytes media s c (off + ?t) (?t * k)" out]
      Suc.prems(6) file_bytes_append [of media s c off ?t "?t * k"] by simp
  moreover have "cint (int off + uint sz) = int (off + ?t)"
  proof -
    have e: "int off + uint sz = int (off + ?t)" by simp
    show ?thesis unfolding e by (rule cint_nat) (use Suc.prems(7) in simp)
  qed
  ultimately show ?case
    using r(1) d2 f moved_trans [OF r(2) f(2)] moved_file_bytes [OF r(2)] moved_cache [OF r(2)]
    by (simp add: ssz add.assoc del: of_nat_add)
qed

text \<open>A read that starts inside of a cluster and would go on in the next: one round, from consecutive places of
  the disk.\<close>

lemma read_straddling:
  assumes m: "mounted dr media n fs" and "c < 65536" and "cache_valid media fs c desc"
    and "chain media fs c (off div cluster_size fs) = Some e" "cluster_ok fs n e"
    and "0 < tot" "tot \<le> cluster_size fs" and "d + tot \<le> length out"
  shows "\<exists>fs' desc'. fat16_read_cluster dr fs desc (int c) (int off) (int tot) out d
    = Inr (fs', desc', blit out d (disk_bytes media (cluster_start fs e + off mod cluster_size fs) tot))"
proof -
  have t: "tot = min (cluster_size fs) tot" using assms(7) by simp
  obtain fs1 desc1 where "fat16_read_cluster dr fs desc (int c) (int off) (int tot) out d
      = fat16_read_cluster dr fs1 desc1 (int c) (int (off + tot)) (int (tot - tot))
          (blit out d (disk_bytes media (cluster_start fs e + off mod cluster_size fs) tot)) (d + tot)"
    using read_cluster_round [OF m assms(2-5) t assms(6,8)] by blast
  then show ?thesis by (auto simp: fat16_read_cluster.simps [of dr fs1])
qed

section \<open>Looking up a name\<close>

definition name_matches :: "byte list \<Rightarrow> fat_file \<Rightarrow> bool" where
  "name_matches name e = (map tolower (take 11 (cstr (padded_name (full_name e)))) = map tolower (take 11 (cstr name)))"

text \<open>Entries of files whose names fit the driver's buffer.\<close>

definition plain_entry :: "fat_file \<Rightarrow> bool" where
  "plain_entry e = (entry_wf e \<and> \<not> (length (base_name e) = 8 \<and> 2 \<le> length (ext_name e))
     \<and> attribute e AND FAT_FILE_SUBDIRECTORY = 0)"

lemma name_compare:
  assumes "has_nul name"
  shows "\<exists>r. istrncmp (padded_name (full_name e)) name 11 = Inr r \<and> (r = 0 \<longleftrightarrow> name_matches name e)"
proof -
  have len: "11 \<le> length (padded_name (full_name e))" by (simp add: padded_name_def)
  obtain r where r: "istrncmp (padded_name (full_name e)) name 11 = Inr r"
    "r = 0 \<longleftrightarrow> map tolower (take (nat 11) (cstr (padded_name (full_name e)))) = map tolower (take (nat 11) (cstr name))"
    by (rule istrncmp_spec [of "padded_name (full_name e)" 11 name]) (use assms len in auto)
  then show ?thesis by (auto simp: name_matches_def)
qed


lemma plain_name: "plain_entry e \<Longrightarrow> fat16_get_full_relative_filename e (replicate 11 0) = Inr (padded_name (full_name e))"
  using full_name_spec [of e 0] by (auto simp: plain_entry_def)

lemma new_plain_item:
  assumes "plain_entry e" and "allocs s = []"
  shows "fat16_new_fat_item_for_directory_item dr s e = Inr (Live (File_Item (Live e)), s\<lparr>live := live s + 2\<rparr>)"
  using assms by (simp add: fat16_new_fat_item_for_directory_item_def fat16_clone_directory_item_def
      fat_kzalloc_def plain_entry_def)

text \<open>The item for the last of the matching entries.\<close>

definition last_match :: "byte list \<Rightarrow> fat_file list \<Rightarrow> fat_item ptr \<Rightarrow> fat_item ptr" where
  "last_match name es dflt = (case filter (name_matches name) es of [] \<Rightarrow> dflt
     | m # ms \<Rightarrow> Live (File_Item (Live (last (m # ms)))))"

lemma last_match_Cons:
  "last_match name (e # es) dflt = last_match name es (if name_matches name e then Live (File_Item (Live e)) else dflt)"
  by (simp add: last_match_def split: list.split)

lemma find_item_loop_spec:
  assumes "has_nul name" and "allocs s = []" and "i + n \<le> length es"
    and "\<And>k. i \<le> k \<Longrightarrow> k < i + n \<Longrightarrow> plain_entry (es ! k)"
  shows "find_item_loop dr s es name dflt i n = Inr (last_match name (take n (drop i es)) dflt,
    s\<lparr>live := live s + 2 * int (length (filter (name_matches name) (take n (drop i es))))\<rparr>)"
  using assms(2-4)
proof (induction n arbitrary: i s dflt)
  case 0
  then show ?case by (simp add: last_match_def)
next
  case (Suc n)
  let ?e = "es ! i"
  have i: "i < length es" "rd es i = Inr ?e" using Suc.prems(2) by auto
  have cons: "take (Suc n) (drop i es) = ?e # take n (drop (Suc i) es)"
    using i(1) by (simp add: Cons_nth_drop_Suc [symmetric])
  have pl: "plain_entry ?e" using Suc.prems(3) [of i] by simp
  obtain r where r: "istrncmp (padded_name (full_name ?e)) name 11 = Inr r" "r = 0 \<longleftrightarrow> name_matches name ?e"
    using name_compare [OF assms(1)] by blast
  let ?s = "if name_matches name ?e then s\<lparr>live := live s + 2\<rparr> else s"
  let ?d = "if name_matches name ?e then Live (File_Item (Live ?e)) else dflt"
  have ih: "find_item_loop dr ?s es name ?d (Suc i) n = Inr (last_match name (take n (drop (Suc i) es)) ?d,
    ?s\<lparr>live := live ?s + 2 * int (length (filter (name_matches name) (take n (drop (Suc i) es))))\<rparr>)"
    by (rule Suc.IH) (use Suc.prems in auto)
  have "find_item_loop dr s es name dflt i (Suc n) = find_item_loop dr ?s es name ?d (Suc i) n"
    using i plain_name [OF pl] r new_plain_item [OF pl Suc.prems(1)] by simp
  then show ?case
    unfolding cons last_match_Cons ih by simp
qed

lemma find_item_spec:
  assumes "has_nul name" and "allocs s = []" and "item dir = Live es" and "dir_total dir \<le> int (length es)"
    and "\<forall>k<nat (dir_total dir). plain_entry (es ! k)"
  shows "fat16_find_item_in_directory dr s dir name = Inr (last_match name (take (nat (dir_total dir)) es) Null,
    s\<lparr>live := live s + 2 * int (length (filter (name_matches name) (take (nat (dir_total dir)) es)))\<rparr>)"
proof (cases "dir_total dir \<le> 0")
  case True
  then show ?thesis by (simp add: fat16_find_item_in_directory_def last_match_def)
next
  case False
  then show ?thesis
    using find_item_loop_spec [OF assms(1,2), of 0 "nat (dir_total dir)" es dr Null] assms(3-5)
    by (simp add: fat16_find_item_in_directory_def nat_le_iff)
qed

section \<open>Mounting\<close>

lemma init_private:
  assumes "allocs s = []"
  shows "\<exists>s'. fat16_init_private s = Inr (ALL_OK, s') \<and> allocs s' = [] \<and> live s' = live s + 3"
  using assms by (simp add: fat16_init_private_def diskstreamer_new_def fat_kzalloc_def)

lemma resolve_bad_signature:
  assumes "ata_serves dr media n" and "2 \<le> n" "n \<le> 2 ^ 22" and "media 510 \<noteq> 0x55 \<or> media 511 \<noteq> 0xAA"
  shows "fat16_resolve dr sector_size [] lv = Inr (- EIO, Null, [], lv)"
proof -
  obtain s1 where s1: "fat16_init_private ((blank_private [] lv)\<lparr>live := lv + 1\<rparr>) = Inr (ALL_OK, s1)"
    "allocs s1 = []" "live s1 = lv + 4"
    using init_private [of "(blank_private [] lv)\<lparr>live := lv + 1\<rparr>"] by (auto simp: blank_private_def)
  have "diskstreamer_read dr \<lparr>pos = int 0, on_primary = True\<rparr> (replicate 512 0) 0 (int 512)
      = Inr (0, \<lparr>pos = int 0, on_primary = True\<rparr>\<lparr>pos := int (0 + 512)\<rparr>,
          blit (replicate 512 0) 0 (disk_bytes media 0 512))"
    by (rule diskstreamer_read_spec [OF assms(1)]) (use assms(2,3) in auto)
  then have rd: "diskstreamer_read dr \<lparr>pos = 0, on_primary = True\<rparr> (replicate 512 0) 0 512
      = Inr (0, \<lparr>pos = 512, on_primary = True\<rparr>, disk_bytes media 0 512)"
    by (simp add: blit_full)
  have "resolve_partition dr sector_size \<lparr>pos = 0, on_primary = True\<rparr> (s1\<lparr>live := 5 + lv\<rparr>)
      = Inr (- EIO, s1\<lparr>live := 5 + lv\<rparr>)"
    using rd assms(4) by (auto simp: resolve_partition_def ALL_OK_def nth_disk_bytes)
  then show ?thesis
    using s1 by (simp add: fat16_resolve_def fat_kzalloc_def blank_private_def diskstreamer_new_def Let_def
        diskstreamer_close_def fat16_free_private_def fat_kfree_def status_defs)
qed

section \<open>A disk to evaluate on\<close>

text \<open>1000 sectors, one sector per cluster, the table in sector 1, data from sector 300 on; cluster 2 is followed by
  cluster 5, the last one.  Data bytes hold the number of their sector.\<close>

definition demo_media :: "nat \<Rightarrow> byte" where
  "demo_media i = (if i < 1024 then if i = 516 then 5 else if i = 522 \<or> i = 523 then 0xFF else 0
     else word_of_nat (i div 512))"

definition demo_fs :: fat_state where
  "demo_fs = (blank_private [] 0)\<lparr>
     header := (header (blank_private [] 0))\<lparr>primary := (primary (header (blank_private [] 0)))\<lparr>
       bytes_per_sector := 512, sectors_per_cluster := 1, reserved_sectors := 1\<rparr>\<rparr>,
     root_directory := \<lparr>item = Null, dir_total = 0, sector_pos = 0, ending_sector_pos = 300\<rparr>\<rparr>"

definition demo_file :: fat_file where
  "demo_file = (decode_fat_file (replicate 32 0))\<lparr>filename := [65, 66, 32, 32, 32, 32, 32, 32], ext := [67, 32, 32],
     low_16bits_first_cluster := 2, high_16bits_first_cluster := 0, filesize := 1000\<rparr>"

definition demo_desc :: fat_file_descriptor where
  "demo_desc = \<lparr>fd_file = Live (File_Item (Live demo_file)), fd_pos = 0, cached_cluster = 0, cached_offset_bytes = 0\<rparr>"

definition demo_drive :: drive where
  "demo_drive = simple_drive demo_media 1000"

lemma demo_sizes: "cluster_size demo_fs = 512" "fat_start demo_fs = 512" "cluster_start demo_fs 2 = 153600"
  "cluster_start demo_fs 5 = 155136"
  by (simp_all add: cluster_size_def fat_start_def cluster_start_def demo_fs_def blank_private_def)

lemma demo_mounted: "mounted demo_drive demo_media 1000 demo_fs"
  using simple_drive_serves [of 1000 demo_media]
  by (simp add: mounted_def demo_sizes demo_drive_def) (simp add: demo_fs_def blank_private_def)

lemma demo_chain: "chain demo_media demo_fs 2 0 = Some 2" "chain demo_media demo_fs 2 1 = Some 5"
  "chain demo_media demo_fs 2 (Suc 0) = Some 5"
proof -
  have "fat_link demo_media demo_fs 2 = 5" by (simp add: fat_link_def demo_sizes demo_media_def)
  then show "chain demo_media demo_fs 2 1 = Some 5" "chain demo_media demo_fs 2 (Suc 0) = Some 5"
    by (simp_all add: fat_entry_ends_def FAT16_BAD_SECTOR_def)
qed simp

lemma demo_clusters: "clusters_ok demo_media demo_fs 1000 2 0 1024"
  unfolding clusters_ok_def demo_sizes
proof (intro allI impI)
  fix i :: nat assume "i < 1024"
  then have "i div 512 = 0 \<or> i div 512 = 1" by (simp add: div_less_iff_less_mult less_2_cases_iff [symmetric])
  then show "\<exists>e. chain demo_media demo_fs 2 ((0 + i) div 512) = Some e \<and> cluster_ok demo_fs 1000 e"
    using demo_chain by (auto simp: cluster_ok_def demo_sizes)
qed

section \<open>Properties\<close>

text \<open>C25: Looking up the cluster of an offset through a descriptor with a valid cache gives the cluster the chain in
  the table gives, or \<open>-EIO\<close> when the chain ends before, exactly as without a cache, and leaves a valid cache.\<close>

theorem fat16_cluster_cache:
  assumes "mounted dr media n fs" and "c < 65536" and "cache_valid media fs c desc"
  shows "\<exists>r fs1 fs2 desc'. fat16_get_nth_cluster_from_fat dr fs desc (int c) (int off) = Inr (r, fs1, desc')
    \<and> fat16_get_nth_cluster_from_fat dr fs None (int c) (int off) = Inr (r, fs2, None)
    \<and> r = (case chain media fs c (off div cluster_size fs) of Some e \<Rightarrow> int e | None \<Rightarrow> - EIO)
    \<and> cache_valid media fs1 c desc'"
proof -
  have none: "cache_valid media fs c None" by (simp add: cache_valid_def)
  obtain fs1 desc1 where 1: "fat16_get_nth_cluster_from_fat dr fs desc (int c) (int off)
      = Inr ((case chain media fs c (off div cluster_size fs) of Some e \<Rightarrow> int e | None \<Rightarrow> - EIO), fs1, desc1)"
    "moved fs fs1" "cache_valid media fs c desc1"
    using nth_cluster_spec [OF assms] by blast
  obtain fs2 desc2 where "fat16_get_nth_cluster_from_fat dr fs None (int c) (int off)
      = Inr ((case chain media fs c (off div cluster_size fs) of Some e \<Rightarrow> int e | None \<Rightarrow> - EIO), fs2, desc2)"
    "same_desc None desc2"
    using nth_cluster_spec [OF assms(1,2) none] by blast
  then show ?thesis using 1 by (auto simp: moved_cache [OF 1(2)] same_desc_def)
qed

theorem fat16_cluster_cache_witness:
  "\<exists>r fs1 fs2 desc'. fat16_get_nth_cluster_from_fat demo_drive demo_fs
        (Some (demo_desc\<lparr>cached_cluster := 5, cached_offset_bytes := 512\<rparr>)) (int 2) (int 700) = Inr (r, fs1, desc')
    \<and> fat16_get_nth_cluster_from_fat demo_drive demo_fs None (int 2) (int 700) = Inr (r, fs2, None)
    \<and> r = (case chain demo_media demo_fs 2 (700 div cluster_size demo_fs) of Some e \<Rightarrow> int e | None \<Rightarrow> - EIO)
    \<and> cache_valid demo_media fs1 2 desc'"
proof (rule fat16_cluster_cache [OF demo_mounted])
  show "cache_valid demo_media demo_fs 2 (Some (demo_desc\<lparr>cached_cluster := 5, cached_offset_bytes := 512\<rparr>))"
    using demo_chain(2) by (auto simp: cache_valid_def demo_sizes intro!: exI [of _ 1])
qed simp



text \<open>A read of at most one cluster that starts inside of a cluster and goes on behind its end takes the bytes
  that follow on the disk, whatever cluster the table says comes next.\<close>

theorem fat16_read_straddles:
  assumes "mounted dr media n fs" and "c < 65536" and "cache_valid media fs c desc"
    and "chain media fs c (off div cluster_size fs) = Some e" and "cluster_ok fs n e"
    and "cluster_size fs < off mod cluster_size fs + t" and "t \<le> cluster_size fs" and "t \<le> length out"
  shows "\<exists>fs' desc'. fat16_read_cluster dr fs desc (int c) (int off) (int t) out 0
    = Inr (fs', desc', blit out 0 (disk_bytes media (cluster_start fs e + off mod cluster_size fs) t))"
proof (rule read_straddling [OF assms(1-5) _ assms(7)])
  have "off mod cluster_size fs < cluster_size fs" using assms(1) by (simp add: mounted_def)
  then show "0 < t" using assms(6) by linarith
qed (use assms(8) in simp)

text \<open>Reading 512 bytes from offset 256: the second half comes from cluster 3 instead of cluster 5.\<close>

theorem fat16_read_straddles_witness:
  "(\<exists>fs' desc'. fat16_read_cluster demo_drive demo_fs (Some demo_desc) (int 2) (int 256) (int 512) (replicate 512 0) 0
      = Inr (fs', desc', blit (replicate 512 0) 0
          (disk_bytes demo_media (cluster_start demo_fs 2 + 256 mod cluster_size demo_fs) 512)))
    \<and> disk_bytes demo_media (cluster_start demo_fs 2 + 256 mod cluster_size demo_fs) 512 ! 300 = 45
    \<and> file_bytes demo_media demo_fs 2 256 512 ! 300 = 47"
proof (intro conjI)
  show "\<exists>fs' desc'. fat16_read_cluster demo_drive demo_fs (Some demo_desc) (int 2) (int 256) (int 512) (replicate 512 0) 0
      = Inr (fs', desc', blit (replicate 512 0) 0
          (disk_bytes demo_media (cluster_start demo_fs 2 + 256 mod cluster_size demo_fs) 512))"
    by (rule fat16_read_straddles [OF demo_mounted])
      (simp_all add: cache_valid_def demo_desc_def demo_sizes cluster_ok_def)
  show "disk_bytes demo_media (cluster_start demo_fs 2 + 256 mod cluster_size demo_fs) 512 ! 300 = 45"
    by (simp add: nth_disk_bytes demo_sizes demo_media_def)
  show "file_bytes demo_media demo_fs 2 256 512 ! 300 = 47"
    using demo_chain(3) by (simp add: file_bytes_def file_byte_def demo_sizes demo_media_def)
qed

text \<open>The name of a directory entry comes out as its 8.3 name, padded with zeros, except for a base of eight
  characters with an extension of two or three: then the conversion writes past the 11-byte buffer of its
  callers.\<close>

theorem fat16_name_overflow:
  assumes "entry_wf f"
  shows "fat16_get_full_relative_filename f (replicate 11 x) =
    (if length (base_name f) = 8 \<and> 2 \<le> length (ext_name f) then Inl Bad_Write
     else Inr (full_name f @ replicate (11 - length (full_name f)) 0))"
  using full_name_spec [OF assms] by (simp add: padded_name_def)

theorem fat16_name_overflow_witness:
  "fat16_get_full_relative_filename (demo_file\<lparr>filename := [65, 65, 65, 65, 65, 65, 65, 65], ext := [84, 88, 84]\<rparr>)
     (replicate 11 0) =
    (if length (base_name (demo_file\<lparr>filename := [65, 65, 65, 65, 65, 65, 65, 65], ext := [84, 88, 84]\<rparr>)) = 8
        \<and> 2 \<le> length (ext_name (demo_file\<lparr>filename := [65, 65, 65, 65, 65, 65, 65, 65], ext := [84, 88, 84]\<rparr>))
     then Inl Bad_Write
     else Inr (full_name (demo_file\<lparr>filename := [65, 65, 65, 65, 65, 65, 65, 65], ext := [84, 88, 84]\<rparr>)
       @ replicate (11 - length (full_name (demo_file\<lparr>filename := [65, 65, 65, 65, 65, 65, 65, 65], ext := [84, 88, 84]\<rparr>))) 0))"
  by (rule fat16_name_overflow) (simp add: entry_wf_def)

text \<open>In a directory of plain files a lookup yields a copy of the last entry whose name matches, case ignored,
  or a null pointer if there is none; it holds two objects for every match, so all but the last two are lost.\<close>

theorem fat16_find_last_match:
  assumes "has_nul name" and "allocs s = []" and "item dir = Live es" and "dir_total dir = int (length es)"
    and "\<forall>e\<in>set es. plain_entry e"
  shows "\<exists>s'. fat16_find_item_in_directory dr s dir name
      = Inr (case filter (name_matches name) es of [] \<Rightarrow> Null | m # ms \<Rightarrow> Live (File_Item (Live (last (m # ms)))), s')
    \<and> live s' = live s + 2 * int (length (filter (name_matches name) es))"
proof -
  have "\<forall>k<nat (dir_total dir). plain_entry (es ! k)" using assms(4,5) by simp
  then show ?thesis
    using find_item_spec [OF assms(1-3), of dr] assms(4) by (simp add: last_match_def split: list.split)
qed

theorem fat16_find_last_match_witness:
  "\<exists>s'. fat16_find_item_in_directory demo_drive demo_fs
        \<lparr>item = Live [demo_file, demo_file], dir_total = 2, sector_pos = 0, ending_sector_pos = 0\<rparr> [97, 98, 46, 99, 0]
      = Inr (case filter (name_matches [97, 98, 46, 99, 0]) [demo_file, demo_file] of
          [] \<Rightarrow> Null | m # ms \<Rightarrow> Live (File_Item (Live (last (m # ms)))), s')
    \<and> live s' = live demo_fs + 2 * int (length (filter (name_matches [97, 98, 46, 99, 0]) [demo_file, demo_file]))"
  by (rule fat16_find_last_match)
    (auto simp: has_nul_def demo_fs_def blank_private_def plain_entry_def entry_wf_def demo_file_def decode_fat_file_def
      base_name_def name_char_def)

text \<open>Walking a path into a directory that lacks the next component, with at least one more component to go,
  dereferences a null pointer instead of reporting that the file is missing.\<close>

theorem fat16_missing_directory_faults:
  assumes "has_nul p" and "allocs s = []" and "item dir = Live es" and "dir_total dir = int (length es)"
    and "\<forall>e\<in>set es. plain_entry e \<and> \<not> name_matches p e"
  shows "directory_walk dr s (Live (Directory_Item (Live dir))) (p # q # ps) = Inl Null_Deref"
proof -
  have "filter (name_matches p) es = []" using assms(5) by (simp add: filter_empty_conv)
  then have "fat16_find_item_in_directory dr s dir p = Inr (Null, s)"
    using find_item_spec [OF assms(1-3), of dr] assms(4,5) by (simp add: last_match_def)
  then show ?thesis using assms(3) by (simp add: fat16_free_fat_item_def fat16_free_directory_def fat_free_ptr_def)
qed

theorem fat16_missing_directory_faults_witness:
  "directory_walk demo_drive demo_fs (Live (Directory_Item (Live
      \<lparr>item = Live [], dir_total = 0, sector_pos = 0, ending_sector_pos = 0\<rparr>))) ([65, 0] # [66, 0] # []) = Inl Null_Deref"
  by (rule fat16_missing_directory_faults [where es = "[]"]) (simp_all add: has_nul_def demo_fs_def blank_private_def)

text \<open>Seeking in a file succeeds only for offsets below the file size; then the position is the offset, the sum
  or the distance from the end and never behind the end of the file, and when it fails the descriptor is
  unchanged.\<close>

theorem fat16_seek_bounds:
  assumes "fd_file desc = Live (File_Item (Live f))"
  shows "\<exists>res desc'. fat16_seek desc offset mode = Inr (res, desc')
    \<and> (res = 0 \<or> res = - EINVARG \<and> desc' = desc) \<and> (res = 0 \<longrightarrow> offset < filesize f)
    \<and> (res = 0 \<and> mode = SEEK_SET \<longrightarrow> desc' = desc\<lparr>fd_pos := offset\<rparr>)
    \<and> (res = 0 \<and> mode = SEEK_CUR \<longrightarrow> desc' = desc\<lparr>fd_pos := fd_pos desc + offset\<rparr> \<and> fd_pos desc' \<le> filesize f)
    \<and> (res = 0 \<and> mode = SEEK_END \<longrightarrow> desc' = desc\<lparr>fd_pos := filesize f - offset\<rparr> \<and> fd_pos desc' \<le> filesize f)"
proof -
  have "filesize f - offset \<le> filesize f" if "offset < filesize f"
    using that by (simp add: word_le_nat_alt word_less_nat_alt unat_sub)
  then show ?thesis
    using assms by (auto simp: fat16_seek_def status_defs seek_defs not_le not_less)
qed

theorem fat16_seek_bounds_witness:
  "\<exists>res desc'. fat16_seek demo_desc 100 SEEK_END = Inr (res, desc')
    \<and> (res = 0 \<or> res = - EINVARG \<and> desc' = demo_desc) \<and> (res = 0 \<longrightarrow> 100 < filesize demo_file)
    \<and> (res = 0 \<and> SEEK_END = SEEK_SET \<longrightarrow> desc' = demo_desc\<lparr>fd_pos := 100\<rparr>)
    \<and> (res = 0 \<and> SEEK_END = SEEK_CUR \<longrightarrow> desc' = demo_desc\<lparr>fd_pos := fd_pos demo_desc + 100\<rparr>
        \<and> fd_pos desc' \<le> filesize demo_file)
    \<and> (res = 0 \<and> SEEK_END = SEEK_END \<longrightarrow> desc' = demo_desc\<lparr>fd_pos := filesize demo_file - 100\<rparr>
        \<and> fd_pos desc' \<le> filesize demo_file)"
  by (rule fat16_seek_bounds) (simp add: demo_desc_def)

text \<open>On a disk whose first sector does not carry the boot signature \<open>fat16_resolve\<close> fails with \<open>-EIO\<close>, leaves no
  private data behind and gives back everything it allocated.\<close>

theorem fat16_resolve_rejects:
  assumes "ata_serves dr media n" and "2 \<le> n" and "n \<le> 2 ^ 22" and "media 510 \<noteq> 0x55 \<or> media 511 \<noteq> 0xAA"
  shows "fat16_resolve dr sector_size [] lv = Inr (- EIO, Null, [], lv)"
  by (rule resolve_bad_signature [OF assms])

theorem fat16_resolve_rejects_witness:
  "fat16_resolve (simple_drive (\<lambda>_. 0) 4) 512 [] 7 = Inr (- EIO, Null, [], 7)"
  by (rule fat16_resolve_rejects [OF simple_drive_serves]) simp_all

end
