(* ===== verification/Pipe.thy ===== *)
theory Pipe
  imports Memory FileApi "HOL-Library.Sublist"
begin

text \<open>
  Pipes, \<^verbatim>\<open>src/src/kernel/fs/pipe/PipeFS.cpp\<close>: a ring buffer of bytes behind the operations of a file system
  driver.  The abstract view is a bounded queue (\<open>pipe_contents\<close>): a write appends and drops the oldest bytes that
  no longer fit, a read takes from the front.  The interface of such a queue is the locale \<open>byte_fifo\<close>.
\<close>

section \<open>Definitions\<close>

record pipe =
  m_buffer :: "byte list"
  m_buffer_size :: u32
  m_buffer_read_idx :: u32
  m_buffer_write_idx :: u32
  m_count :: u32

text \<open>The constructor; \<open>ok\<close> says whether \<open>kzalloc\<close> returned memory.  A null buffer is an object without bytes.\<close>

definition PipeFS :: "bool \<Rightarrow> u32 \<Rightarrow> pipe" where
  "PipeFS ok buffer_size = \<lparr>m_buffer = (if ok then replicate (unat buffer_size) 0 else []),
     m_buffer_size = buffer_size, m_buffer_read_idx = 0, m_buffer_write_idx = 0, m_count = 0\<rparr>"

definition PipeFS_get_buffer_size :: "pipe \<Rightarrow> u32" where
  "PipeFS_get_buffer_size p = m_count p"

text \<open>\<open>x % m\<close> of unsigned numbers.\<close>

definition umod :: "u32 \<Rightarrow> u32 \<Rightarrow> fault + u32" where
  "umod x m = (if m = 0 then Inl Div_By_Zero else Inr (x mod m))"

text \<open>\<open>out\<close> points to index \<open>d\<close> of its object.\<close>

definition PipeFS_read :: "pipe \<Rightarrow> u32 \<Rightarrow> byte list \<Rightarrow> nat \<Rightarrow> fault + (int \<times> pipe \<times> byte list)" where
  "PipeFS_read p sz out d =
     (if m_count p < sz then Inr (- 1, p, out)
      else let bytes_available = m_count p;
               to_read = (if bytes_available < sz then bytes_available else sz)
      in cbind
        (if m_buffer_read_idx p + to_read \<le> m_buffer_size p
         then cbind (memcpy out d (m_buffer p) (unat (m_buffer_read_idx p)) (unat to_read)) (\<lambda>out'.
              cbind (umod (m_buffer_read_idx p + to_read) (m_buffer_size p)) (\<lambda>r. Inr (r, out')))
         else let first_chunk = m_buffer_size p - m_buffer_read_idx p in
              cbind (memcpy out d (m_buffer p) (unat (m_buffer_read_idx p)) (unat first_chunk)) (\<lambda>out1.
              cbind (memcpy out1 (d + unat first_chunk) (m_buffer p) 0 (unat (to_read - first_chunk))) (\<lambda>out2.
                Inr (to_read - first_chunk, out2))))
        (\<lambda>(r, out'). Inr (sint to_read, p\<lparr>m_buffer_read_idx := r, m_count := m_count p - to_read\<rparr>, out')))"

text \<open>The bytes come from index \<open>s\<close> of the object \<open>data\<close> on.\<close>

definition PipeFS_write :: "pipe \<Rightarrow> byte list \<Rightarrow> nat \<Rightarrow> u32 \<Rightarrow> fault + (int \<times> pipe)" where
  "PipeFS_write p data s sz =
     (if sz = 0 then Inr (0, p)
      else cbind
        (if m_buffer_size p < sz + m_count p
         then let to_discard = sz + m_count p - m_buffer_size p in
              cbind (umod (m_buffer_read_idx p + to_discard) (m_buffer_size p)) (\<lambda>r.
                Inr (p\<lparr>m_buffer_read_idx := r, m_count := m_count p - to_discard\<rparr>))
         else Inr p)
        (\<lambda>p1. cbind
          (if m_buffer_write_idx p1 + sz \<le> m_buffer_size p1
           then cbind (memcpy (m_buffer p1) (unat (m_buffer_write_idx p1)) data s (unat sz)) (\<lambda>b.
                cbind (umod (m_buffer_write_idx p1 + sz) (m_buffer_size p1)) (\<lambda>w.
                  Inr (p1\<lparr>m_buffer := b, m_buffer_write_idx := w\<rparr>)))
           else let first_chunk = m_buffer_size p1 - m_buffer_write_idx p1 in
                cbind (memcpy (m_buffer p1) (unat (m_buffer_write_idx p1)) data s (unat first_chunk)) (\<lambda>b1.
                cbind (memcpy b1 0 data (s + unat first_chunk) (unat (sz - first_chunk))) (\<lambda>b2.
                  Inr (p1\<lparr>m_buffer := b2, m_buffer_write_idx := sz - first_chunk\<rparr>))))
          (\<lambda>p2. Inr (sint sz, p2\<lparr>m_count := m_count p2 + sz\<rparr>))))"

text \<open>The driver's operations: the loops ignore what \<open>read\<close> and \<open>write\<close> return.\<close>

fun pipe_read_loop :: "pipe \<Rightarrow> u32 \<Rightarrow> byte list \<Rightarrow> nat \<Rightarrow> nat \<Rightarrow> fault + (pipe \<times> byte list)" where
  "pipe_read_loop p sz out d 0 = Inr (p, out)"
| "pipe_read_loop p sz out d (Suc n) =
     cbind (PipeFS_read p sz out d) (\<lambda>(_, p', out'). pipe_read_loop p' sz out' (d + unat sz) n)"

definition pipe_read :: "pipe \<Rightarrow> u32 \<Rightarrow> u32 \<Rightarrow> byte list \<Rightarrow> fault + (int \<times> pipe \<times> byte list)" where
  "pipe_read p sz nmemb out =
     cbind (pipe_read_loop p sz out 0 (unat nmemb)) (\<lambda>(p', out'). Inr (sint nmemb, p', out'))"

fun pipe_write_loop :: "pipe \<Rightarrow> u32 \<Rightarrow> byte list \<Rightarrow> nat \<Rightarrow> nat \<Rightarrow> fault + pipe" where
  "pipe_write_loop p sz inp s 0 = Inr p"
| "pipe_write_loop p sz inp s (Suc n) =
     cbind (PipeFS_write p inp s sz) (\<lambda>(_, p'). pipe_write_loop p' sz inp (s + unat sz) n)"

definition pipe_write :: "pipe \<Rightarrow> u32 \<Rightarrow> u32 \<Rightarrow> byte list \<Rightarrow> fault + (int \<times> pipe)" where
  "pipe_write p sz nmemb inp = cbind (pipe_write_loop p sz inp 0 (unat nmemb)) (\<lambda>p'. Inr (sint nmemb, p'))"

definition pipe_seek :: "pipe \<Rightarrow> u32 \<Rightarrow> u32 \<Rightarrow> fault + (int \<times> pipe)" where
  "pipe_seek p offset mode = Inl Assert_Failed"

definition pipe_stat :: "pipe \<Rightarrow> fault + (int \<times> file_stat)" where
  "pipe_stat p = Inr (0, \<lparr>flags = FILE_MODE_READ OR FILE_MODE_WRITE OR FILE_MODE_APPEND,
     st_filesize = PipeFS_get_buffer_size p\<rparr>)"

definition pipe_close :: "pipe \<Rightarrow> fault + (int \<times> pipe)" where
  "pipe_close p = Inr (0, p)"

section \<open>A pipe as a queue of bytes\<close>

definition pipe_wf :: "pipe \<Rightarrow> bool" where
  "pipe_wf p = (length (m_buffer p) = unat (m_buffer_size p) \<and> 0 < unat (m_buffer_size p)
     \<and> unat (m_buffer_size p) < 2 ^ 31
     \<and> unat (m_buffer_read_idx p) < unat (m_buffer_size p) \<and> unat (m_buffer_write_idx p) \<le> unat (m_buffer_size p)
     \<and> unat (m_count p) \<le> unat (m_buffer_size p)
     \<and> unat (m_buffer_write_idx p) mod unat (m_buffer_size p)
       = (unat (m_buffer_read_idx p) + unat (m_count p)) mod unat (m_buffer_size p))"

text \<open>\<open>n\<close> bytes of a ring buffer from index \<open>r\<close> on.\<close>

definition ring :: "byte list \<Rightarrow> nat \<Rightarrow> nat \<Rightarrow> byte list" where
  "ring b r n = map (\<lambda>i. b ! ((r + i) mod length b)) [0..<n]"

definition pipe_contents :: "pipe \<Rightarrow> byte list" where
  "pipe_contents p = ring (m_buffer p) (unat (m_buffer_read_idx p)) (unat (m_count p))"

definition pipe_capacity :: "pipe \<Rightarrow> nat" where
  "pipe_capacity p = unat (m_buffer_size p)"

text \<open>Storing \<open>xs\<close> at index \<open>w\<close>, as the code does it.\<close>

definition ring_put :: "byte list \<Rightarrow> nat \<Rightarrow> byte list \<Rightarrow> byte list" where
  "ring_put b w xs = (if w + length xs \<le> length b then blit b w xs
     else blit (blit b w (take (length b - w) xs)) 0 (drop (length b - w) xs))"

lemma length_ring [simp]: "length (ring b r n) = n"
  by (simp add: ring_def)

lemma nth_ring: "i < n \<Longrightarrow> ring b r n ! i = b ! ((r + i) mod length b)"
  by (simp add: ring_def)

lemma length_pipe_contents [simp]: "length (pipe_contents p) = unat (m_count p)"
  by (simp add: pipe_contents_def)

lemma length_ring_put [simp]:
  "w \<le> length b \<Longrightarrow> w + length xs \<le> 2 * length b \<Longrightarrow> length (ring_put b w xs) = length b"
  by (auto simp: ring_put_def)

lemma ring_mod: "ring b (r mod length b) n = ring b r n"
  by (simp add: ring_def mod_simps)

lemma ring_append: "ring b r m @ ring b (r + m) n = ring b r (m + n)"
  by (intro nth_equalityI) (auto simp: nth_append nth_ring)

lemma ring_take: "k \<le> n \<Longrightarrow> take k (ring b r n) = ring b r k"
  by (intro nth_equalityI) (auto simp: nth_ring)

lemma ring_drop: "k \<le> n \<Longrightarrow> drop k (ring b r n) = ring b (r + k) (n - k)"
  by (intro nth_equalityI) (auto simp: nth_ring ac_simps)

lemma mod_once:
  assumes "(b :: nat) \<le> n" and "n < 2 * b"
  shows "n mod b = n - b"
proof -
  have "n mod b = (n - b) mod b" using assms(1) by (rule le_mod_geq)
  then show ?thesis using assms by simp
qed

text \<open>How reading takes the bytes out of the buffer.\<close>

lemma ring_straight: "r + n \<le> length b \<Longrightarrow> 0 < length b \<Longrightarrow> ring b r n = take n (drop r b)"
  by (intro nth_equalityI) (auto simp: nth_ring)

lemma ring_wrapped:
  assumes "r \<le> length b" and "length b < r + n" and "n \<le> length b"
  shows "ring b r n = drop r b @ take (n - (length b - r)) b"
proof (intro nth_equalityI)
  fix i assume i: "i < length (ring b r n)"
  show "ring b r n ! i = (drop r b @ take (n - (length b - r)) b) ! i"
  proof (cases "r + i < length b")
    case True then show ?thesis using i by (simp add: nth_ring nth_append less_diff_conv ac_simps)
  next
    case False
    then have "(r + i) mod length b = r + i - length b"
      using i assms by (intro mod_once) auto
    then show ?thesis using i False assms by (auto simp: nth_ring nth_append intro!: arg_cong [where f = "nth b"])
  qed
qed (use assms in simp)

text \<open>What a write leaves in the buffer: the last bytes of \<open>xs\<close>, and elsewhere the old ones.\<close>

lemma ring_put_new:
  assumes w: "w \<le> length b" "w + length xs \<le> 2 * length b" and k: "k < length xs" "length xs \<le> k + length b"
  shows "ring_put b w xs ! ((w + k) mod length b) = xs ! k"
proof (cases "w + length xs \<le> length b")
  case True
  then show ?thesis using k by (simp add: ring_put_def nth_blit)
next
  case wrap: False
  let ?b1 = "blit b w (take (length b - w) xs)"
  have l: "length ?b1 = length b" using w wrap by simp
  show ?thesis
  proof (cases "w + k < length b")
    case True
    then have "\<not> w + k < length xs - (length b - w)" using k wrap by simp
    then show ?thesis
      using True k w wrap l by (simp add: ring_put_def nth_blit)
  next
    case False
    then have m: "(w + k) mod length b = w + k - length b" using k w by (intro mod_once) auto
    have "w + k - length b < length b" "w + k - length b < length xs + w - length b" using k w False by linarith+
    then show ?thesis
      unfolding m using False k w wrap l by (simp add: ring_put_def nth_blit)
  qed
qed

lemma ring_put_old:
  assumes w: "w \<le> length b" "w + length xs \<le> 2 * length b" and j: "j < length b"
    and none: "\<And>k. k < length xs \<Longrightarrow> (w + k) mod length b \<noteq> j"
  shows "ring_put b w xs ! j = b ! j"
proof (cases "w + length xs \<le> length b")
  case True
  then have "\<not> (w \<le> j \<and> j < w + length xs)" using none [of "j - w"] j by (auto simp: less_diff_conv2)
  then show ?thesis using True j by (auto simp: ring_put_def nth_blit)
next
  case wrap: False
  let ?b1 = "blit b w (take (length b - w) xs)"
  have l: "length ?b1 = length b" using w wrap by simp
  have "j - w < length xs" if "w \<le> j" using that j wrap by linarith
  then have a: "\<not> w \<le> j" using none [of "j - w"] j by auto
  have "\<not> j < length xs - (length b - w)"
  proof
    assume "j < length xs - (length b - w)"
    moreover then have "(w + (length b - w + j)) mod length b = j" using w(1) j by simp
    ultimately show False using none [of "length b - w + j"] by simp
  qed
  then show ?thesis using a j w wrap l by (auto simp: ring_put_def nth_blit)
qed

text \<open>In terms of the queue: the last bytes of what was there and what is added.\<close>

lemma ring_put_contents:
  assumes w: "w \<le> length b" "w + length xs \<le> 2 * length b" "w mod length b = (r + c) mod length b"
    and c: "c \<le> length b" and b: "0 < length b"
    and n: "n \<le> c + length xs" "n \<le> length b"
  shows "ring (ring_put b w xs) (r + (c + length xs - n)) n = drop (c + length xs - n) (ring b r c @ xs)"
proof (intro nth_equalityI)
  show "length (ring (ring_put b w xs) (r + (c + length xs - n)) n) = length (drop (c + length xs - n) (ring b r c @ xs))"
    using n by simp
next
  fix i assume "i < length (ring (ring_put b w xs) (r + (c + length xs - n)) n)"
  then have i: "i < n" by simp
  define t where "t = c + length xs - n + i"
  have t: "t < c + length xs" "c + length xs \<le> t + length b" using i n by (auto simp: t_def)
  have e: "ring (ring_put b w xs) (r + (c + length xs - n)) n ! i = ring_put b w xs ! ((r + t) mod length b)"
    using i w by (simp add: nth_ring t_def ac_simps)
  have d: "drop (c + length xs - n) (ring b r c @ xs) ! i = (ring b r c @ xs) ! t"
    unfolding t_def by (rule nth_drop) simp
  have pos: "(w + k) mod length b = (r + (c + k)) mod length b" for k
    using w(3) by (metis add.assoc mod_add_left_eq)
  show "ring (ring_put b w xs) (r + (c + length xs - n)) n ! i = drop (c + length xs - n) (ring b r c @ xs) ! i"
  proof (cases "t < c")
    case True
    have "ring_put b w xs ! ((r + t) mod length b) = b ! ((r + t) mod length b)"
    proof (rule ring_put_old [OF w(1,2)])
      fix k assume k: "k < length xs"
      have lt: "0 < c + k - t" "c + k - t < length b" using k t True by auto
      show "(w + k) mod length b \<noteq> (r + t) mod length b"
      proof
        assume "(w + k) mod length b = (r + t) mod length b"
        then have "length b dvd (r + (c + k)) - (r + t)"
          unfolding pos by (rule mod_eq_dvd_iff_nat [THEN iffD1, rotated]) (use True in simp)
        then have "length b dvd c + k - t" by simp
        then show False using lt by (simp add: nat_dvd_not_less)
      qed
    qed (use b in simp)
    then show ?thesis unfolding e d using True by (simp add: nth_append nth_ring)
  next
    case False
    then have "ring_put b w xs ! ((w + (t - c)) mod length b) = xs ! (t - c)"
      using t by (intro ring_put_new [OF w(1,2)]) auto
    moreover have "(w + (t - c)) mod length b = (r + t) mod length b" using pos [of "t - c"] False by simp
    ultimately show ?thesis unfolding e d using False by (simp add: nth_append)
  qed
qed

section \<open>The operations on the queue\<close>

lemma unat_diff_small: "unat (b :: u32) \<le> unat a \<Longrightarrow> unat (a - b) = unat a - unat b"
  by (rule unat_sub) (simp add: word_le_nat_alt)

lemma umod_spec: "0 < unat m \<Longrightarrow> umod x m = Inr (x mod m)"
  by (auto simp: umod_def)

lemma PipeFS_read_spec:
  assumes wf: "pipe_wf p" and n: "unat sz \<le> unat (m_count p)" and d: "d + unat sz \<le> length out"
  shows "\<exists>p'. PipeFS_read p sz out d = Inr (int (unat sz), p', blit out d (take (unat sz) (pipe_contents p)))
    \<and> pipe_wf p' \<and> pipe_capacity p' = pipe_capacity p \<and> pipe_contents p' = drop (unat sz) (pipe_contents p)"
proof -
  define B where "B = unat (m_buffer_size p)"
  define R where "R = unat (m_buffer_read_idx p)"
  define C where "C = unat (m_count p)"
  define N where "N = unat sz"
  have w: "length (m_buffer p) = B" "0 < B" "B < 2 ^ 31" "R < B" "C \<le> B" "unat (m_buffer_write_idx p) \<le> B"
    "unat (m_buffer_write_idx p) mod B = (R + C) mod B" "N \<le> C" "d + N \<le> length out"
    using wf n d by (auto simp: pipe_wf_def B_def R_def C_def N_def)
  have le: "sz \<le> m_count p" "\<not> m_count p < sz" using w(8) by (simp_all add: word_le_nat_alt word_less_nat_alt C_def N_def)
  have RN: "unat (m_buffer_read_idx p + sz) = R + N"
    unfolding R_def N_def by (rule unat_add_small) (use w in \<open>simp add: R_def N_def\<close>)
  have N: "sint sz = int N" by (rule sint_small) (use w in \<open>simp_all add: N_def\<close>)
  have C': "unat (m_count p - sz) = C - N" using unat_diff_small [of sz "m_count p"] n by (simp add: C_def N_def)
  let ?q = "\<lambda>r. p\<lparr>m_buffer_read_idx := r, m_count := m_count p - sz\<rparr>"
  have fin: "pipe_wf (?q r) \<and> pipe_capacity (?q r) = pipe_capacity p \<and> pipe_contents (?q r) = drop N (pipe_contents p)"
    if r: "unat r = (R + N) mod B" for r
  proof -
    have "(R + N) mod B < B" using w by simp
    moreover have "R + N + (C - N) = R + C" using w(8) by simp
    then have "((R + N) mod B + (C - N)) mod B = (R + C) mod B" by (simp only: mod_add_left_eq)
    ultimately have "pipe_wf (?q r)" using w r C' by (simp add: pipe_wf_def B_def [symmetric])
    moreover have "ring (m_buffer p) ((R + N) mod B) (C - N) = drop N (ring (m_buffer p) R C)"
      using ring_mod [of "m_buffer p" "R + N" "C - N"] w(1,8) by (simp add: ring_drop)
    ultimately show ?thesis
      using r C' by (simp add: pipe_contents_def pipe_capacity_def R_def [symmetric] C_def [symmetric])
  qed
  have out: "ring (m_buffer p) R N = take N (pipe_contents p)"
    using w(8) by (simp add: pipe_contents_def ring_take R_def [symmetric] C_def [symmetric])
  show ?thesis
  proof (cases "R + N \<le> B")
    case True
    then have c: "m_buffer_read_idx p + sz \<le> m_buffer_size p" by (simp add: word_le_nat_alt RN B_def)
    have "memcpy out d (m_buffer p) R N = Inr (blit out d (take N (drop R (m_buffer p))))"
      by (rule memcpy_spec) (use w True in auto)
    also have "take N (drop R (m_buffer p)) = take N (pipe_contents p)"
      using ring_straight [of R N "m_buffer p"] True w(1,2) out by simp
    finally have r: "PipeFS_read p sz out d = Inr (int N, ?q ((m_buffer_read_idx p + sz) mod m_buffer_size p), blit out d (take N (pipe_contents p)))"
      using le c N w(2) by (simp add: PipeFS_read_def Let_def umod_spec B_def R_def N_def)
    show ?thesis
      using fin [of "(m_buffer_read_idx p + sz) mod m_buffer_size p"] r
      by (auto simp: unat_mod RN B_def N_def)
  next
    case False
    then have c: "\<not> m_buffer_read_idx p + sz \<le> m_buffer_size p" by (simp add: word_le_nat_alt RN B_def)
    define fc where "fc = m_buffer_size p - m_buffer_read_idx p"
    have fc: "unat fc = B - R" using unat_diff_small [of "m_buffer_read_idx p" "m_buffer_size p"] w(4)
      by (simp add: fc_def B_def R_def)
    have r': "unat (sz - fc) = N - (B - R)"
      using unat_diff_small [of fc sz] False fc by (simp add: N_def)
    let ?o = "blit out d (drop R (m_buffer p))"
    have m1: "memcpy out d (m_buffer p) R (B - R) = Inr ?o"
      using memcpy_spec [of R "B - R" "m_buffer p" d out] w False by simp
    have m2: "memcpy ?o (d + (B - R)) (m_buffer p) 0 (N - (B - R)) = Inr (blit ?o (d + (B - R)) (take (N - (B - R)) (m_buffer p)))"
      using memcpy_spec [of 0 "N - (B - R)" "m_buffer p" "d + (B - R)" ?o] w False by simp
    have "blit ?o (d + (B - R)) (take (N - (B - R)) (m_buffer p)) = blit out d (drop R (m_buffer p) @ take (N - (B - R)) (m_buffer p))"
      using blit_append [of d "drop R (m_buffer p)" "take (N - (B - R)) (m_buffer p)" out] w False by simp
    also have "\<dots> = blit out d (take N (pipe_contents p))"
      using ring_wrapped [of R "m_buffer p" N] w False out by simp
    finally have r: "PipeFS_read p sz out d = Inr (int N, ?q (sz - fc), blit out d (take N (pipe_contents p)))"
      using le c N m1 m2 by (simp add: PipeFS_read_def Let_def fc_def [symmetric] fc r' R_def [symmetric])
    have "(R + N) mod B = N - (B - R)" using mod_once [of B "R + N"] False w by simp
    then show ?thesis using fin [of "sz - fc"] r r' by (auto simp: N_def)
  qed
qed

lemma PipeFS_read_short: "unat (m_count p) < unat sz \<Longrightarrow> PipeFS_read p sz out d = Inr (- 1, p, out)"
  by (simp add: PipeFS_read_def word_less_nat_alt)

text \<open>A write of up to one lap and a bit: as much as the two \<open>memcpy\<close>s can hold.\<close>

lemma PipeFS_write_spec:
  assumes wf: "pipe_wf p" and data: "s + unat sz \<le> length data" and sz: "unat sz < 2 ^ 31"
    and fits: "unat (m_buffer_write_idx p) + unat sz \<le> 2 * pipe_capacity p"
  shows "\<exists>p'. PipeFS_write p data s sz = Inr (int (unat sz), p') \<and> pipe_wf p'
    \<and> pipe_capacity p' = pipe_capacity p
    \<and> pipe_contents p' = drop (unat (m_count p) + unat sz - pipe_capacity p) (pipe_contents p @ take (unat sz) (drop s data))"
proof (cases "sz = 0")
  case True
  then show ?thesis
    using wf by (auto simp: PipeFS_write_def pipe_wf_def pipe_capacity_def)
next
  case False
  define B where "B = unat (m_buffer_size p)"
  define R where "R = unat (m_buffer_read_idx p)"
  define W where "W = unat (m_buffer_write_idx p)"
  define C where "C = unat (m_count p)"
  define N where "N = unat sz"
  define xs where "xs = take N (drop s data)"
  have w: "length (m_buffer p) = B" "0 < B" "B < 2 ^ 31" "R < B" "C \<le> B" "W \<le> B" "W mod B = (R + C) mod B"
    "W + N \<le> 2 * B" "s + N \<le> length data" "N < 2 ^ 31"
    using assms by (auto simp: pipe_wf_def pipe_capacity_def B_def R_def C_def N_def W_def)
  have N0: "0 < N" using False by (simp add: N_def unat_gt_0)
  have lx: "length xs = N" using w(9) by (simp add: xs_def)
  have N: "sint sz = int N" by (rule sint_small) (use w(10) in \<open>simp_all add: N_def\<close>)
  have NC: "unat (sz + m_count p) = N + C"
    unfolding N_def C_def by (rule unat_add_small) (use w in \<open>simp add: N_def C_def\<close>)
  have WN: "unat (m_buffer_write_idx p + sz) = W + N"
    unfolding W_def N_def by (rule unat_add_small) (use w in \<open>simp add: W_def N_def\<close>)
  define D where "D = C + N - B"
  define p1 where "p1 = (if B < N + C then p\<lparr>m_buffer_read_idx := (m_buffer_read_idx p + (sz + m_count p - m_buffer_size p)) mod m_buffer_size p,
      m_count := m_count p - (sz + m_count p - m_buffer_size p)\<rparr> else p)"
  have p1: "m_buffer p1 = m_buffer p" "m_buffer_size p1 = m_buffer_size p" "m_buffer_write_idx p1 = m_buffer_write_idx p"
    by (auto simp: p1_def)
  have r1: "unat (m_buffer_read_idx p1) = (R + D) mod B"
  proof (cases "B < N + C")
    case True
    have d: "unat (sz + m_count p - m_buffer_size p) = D"
      using unat_diff_small [of "m_buffer_size p" "sz + m_count p"] True NC by (simp add: D_def B_def ac_simps)
    have "unat (m_buffer_read_idx p + (sz + m_count p - m_buffer_size p)) = R + D"
      unfolding R_def d [symmetric] by (rule unat_add_small) (use w d in \<open>simp add: R_def D_def\<close>)
    then show ?thesis using True by (simp add: p1_def unat_mod B_def)
  qed (use w in \<open>simp add: p1_def D_def R_def\<close>)
  have c1: "unat (m_count p1 + sz) = C + N - D"
  proof (cases "B < N + C")
    case True
    then show ?thesis by (simp add: p1_def D_def B_def)
  qed (use NC in \<open>simp add: p1_def D_def ac_simps\<close>)
  let ?q = "\<lambda>b wi. p1\<lparr>m_buffer := b, m_buffer_write_idx := wi, m_count := m_count p1 + sz\<rparr>"
  have fin: "pipe_wf (?q (ring_put (m_buffer p) W xs) wi) \<and> pipe_capacity (?q (ring_put (m_buffer p) W xs) wi) = pipe_capacity p
      \<and> pipe_contents (?q (ring_put (m_buffer p) W xs) wi) = drop D (pipe_contents p @ xs)"
    if wi: "unat wi \<le> B" "unat wi mod B = (W + N) mod B" for wi
  proof -
    have l: "length (ring_put (m_buffer p) W xs) = B" using w lx by simp
    have n: "C + N - D \<le> B" "D \<le> C + N" by (simp_all add: D_def)
    have "(W + N) mod B = (R + C + N) mod B" using w(7) by (metis mod_add_left_eq)
    also have "\<dots> = ((R + D) mod B + (C + N - D)) mod B"
      using n(2) by (simp only: mod_add_left_eq) (simp add: ac_simps)
    finally have "pipe_wf (?q (ring_put (m_buffer p) W xs) wi)"
      using w n wi l c1 r1 p1 by (simp add: pipe_wf_def B_def [symmetric])
    moreover have "ring (ring_put (m_buffer p) W xs) (R + D) (C + N - D) = drop D (ring (m_buffer p) R C @ xs)"
      using ring_put_contents [of W "m_buffer p" xs R C "C + N - D"] w n lx by simp
    then have "ring (ring_put (m_buffer p) W xs) ((R + D) mod B) (C + N - D) = drop D (ring (m_buffer p) R C @ xs)"
      using ring_mod [of "ring_put (m_buffer p) W xs" "R + D" "C + N - D"] l by simp
    ultimately show ?thesis
      using c1 r1 p1 by (simp add: pipe_contents_def pipe_capacity_def R_def [symmetric] C_def [symmetric])
  qed
  have big: "m_buffer_size p < sz + m_count p \<longleftrightarrow> B < N + C" by (simp add: word_less_nat_alt NC B_def)
  have st1: "(if m_buffer_size p < sz + m_count p
         then let to_discard = sz + m_count p - m_buffer_size p in
              cbind (umod (m_buffer_read_idx p + to_discard) (m_buffer_size p)) (\<lambda>r.
                Inr (p\<lparr>m_buffer_read_idx := r, m_count := m_count p - to_discard\<rparr>))
         else Inr p) = Inr p1"
    using w(2) by (simp add: big p1_def Let_def umod_spec B_def [symmetric])
  show ?thesis
  proof (cases "W + N \<le> B")
    case True
    then have c: "m_buffer_write_idx p + sz \<le> m_buffer_size p" by (simp add: word_le_nat_alt WN B_def)
    have m: "memcpy (m_buffer p) W data s N = Inr (ring_put (m_buffer p) W xs)"
      using memcpy_spec [of s N data W "m_buffer p"] w True lx by (simp add: ring_put_def xs_def)
    have "PipeFS_write p data s sz = Inr (int N, ?q (ring_put (m_buffer p) W xs) ((m_buffer_write_idx p + sz) mod m_buffer_size p))"
      unfolding PipeFS_write_def st1 using False c m N w(2)
      by (simp add: p1 umod_spec W_def [symmetric] N_def [symmetric] B_def [symmetric])
    then show ?thesis
      using fin [of "(m_buffer_write_idx p + sz) mod m_buffer_size p"] w(2)
      by (auto simp: unat_mod WN B_def [symmetric] D_def C_def N_def xs_def pipe_capacity_def intro: less_imp_le)
  next
    case wrap: False
    then have c: "\<not> m_buffer_write_idx p + sz \<le> m_buffer_size p" by (simp add: word_le_nat_alt WN B_def)
    define fc where "fc = m_buffer_size p - m_buffer_write_idx p"
    have fc: "unat fc = B - W" using unat_diff_small [of "m_buffer_write_idx p" "m_buffer_size p"] w(6)
      by (simp add: fc_def B_def W_def)
    have r': "unat (sz - fc) = N - (B - W)"
      using unat_diff_small [of fc sz] wrap fc by (simp add: N_def)
    let ?b = "blit (m_buffer p) W (take (B - W) xs)"
    have e1: "take (B - W) (drop s data) = take (B - W) xs" using wrap by (simp add: xs_def min_absorb1)
    have e2: "take (N - (B - W)) (drop (s + (B - W)) data) = drop (B - W) xs"
      by (simp add: xs_def drop_take ac_simps)
    have m1: "memcpy (m_buffer p) W data s (B - W) = Inr ?b"
      using memcpy_spec [of s "B - W" data W "m_buffer p"] w wrap by (simp add: e1)
    have rp: "ring_put (m_buffer p) W xs = blit ?b 0 (drop (B - W) xs)" using w wrap lx by (simp add: ring_put_def)
    have m2: "memcpy ?b 0 data (s + (B - W)) (N - (B - W)) = Inr (ring_put (m_buffer p) W xs)"
      unfolding rp e2 [symmetric] by (rule memcpy_spec) (use w wrap lx in auto)
    have "PipeFS_write p data s sz = Inr (int N, ?q (ring_put (m_buffer p) W xs) (sz - fc))"
      unfolding PipeFS_write_def st1 using False c m1 m2 N
      by (simp add: p1 fc_def [symmetric] fc r' W_def [symmetric] N_def [symmetric] Let_def)
    moreover have "unat (sz - fc) \<le> B" "unat (sz - fc) mod B = (W + N) mod B"
    proof -
      have "W + N = (N - (B - W)) + B" using wrap w(6) by simp
      then have "(W + N) mod B = (N - (B - W)) mod B" by (simp only: mod_add_self2)
      then show "unat (sz - fc) \<le> B" "unat (sz - fc) mod B = (W + N) mod B" using w wrap r' by simp_all
    qed
    ultimately show ?thesis
      using fin [of "sz - fc"] by (auto simp: D_def C_def N_def xs_def pipe_capacity_def B_def)
  qed
qed

section \<open>Queues of bytes\<close>

datatype fifo_op = Put "byte list" | Get nat

text \<open>What a sequence of operations does to a queue of at most \<open>cap\<close> bytes: the bytes it delivers, and what is
  left.  A \<open>Get\<close> of more bytes than there are delivers none.\<close>

fun queue_run :: "nat \<Rightarrow> byte list \<Rightarrow> fifo_op list \<Rightarrow> byte list \<times> byte list" where
  "queue_run cap q [] = ([], q)"
| "queue_run cap q (Put xs # ops) = queue_run cap (drop (length q + length xs - cap) (q @ xs)) ops"
| "queue_run cap q (Get n # ops) =
     (if n \<le> length q then (case queue_run cap (drop n q) ops of (out, q') \<Rightarrow> (take n q @ out, q'))
      else queue_run cap q ops)"

fun op_input :: "fifo_op \<Rightarrow> byte list" where
  "op_input (Put xs) = xs"
| "op_input (Get n) = []"

fun op_size :: "fifo_op \<Rightarrow> nat" where
  "op_size (Put xs) = length xs"
| "op_size (Get n) = n"

lemma take_drop_append: "take n q @ drop n q @ xs = q @ xs"
  by (simp flip: append_assoc)

lemma queue_run_subseq:
  "queue_run cap q ops = (out, q') \<Longrightarrow> subseq (out @ q') (q @ concat (map op_input ops))"
proof (induction cap q ops arbitrary: out q' rule: queue_run.induct)
  case (2 cap q xs ops)
  then have "subseq (out @ q') (drop (length q + length xs - cap) (q @ xs) @ concat (map op_input ops))" by simp
  also have "subseq \<dots> ((q @ xs) @ concat (map op_input ops))"
    by (intro list_emb_append_mono suffix_imp_subseq suffix_drop) auto
  finally show ?case by simp
next
  case (3 cap q n ops)
  show ?case
  proof (cases "n \<le> length q")
    case True
    obtain o' q'' where r: "queue_run cap (drop n q) ops = (o', q'')" by fastforce
    have "subseq (o' @ q'') (drop n q @ concat (map op_input ops))" using "3.IH"(1) [OF True r] .
    then have "subseq (take n q @ o' @ q'') (take n q @ drop n q @ concat (map op_input ops))"
      by (rule list_emb_append_mono [OF subseq_order.order_refl])
    then show ?thesis using "3.prems" True r by (auto simp: take_drop_append)
  qed (use 3 in simp)
qed simp

text \<open>Nothing is lost while there is room.\<close>

lemma queue_run_lossless:
  assumes "queue_run cap q ops = (out, q')" and "length (q @ concat (map op_input ops)) \<le> cap"
  shows "out @ q' = q @ concat (map op_input ops)"
  using assms
proof (induction cap q ops arbitrary: out q' rule: queue_run.induct)
  case (3 cap q n ops)
  show ?case
  proof (cases "n \<le> length q")
    case True
    obtain o' q'' where r: "queue_run cap (drop n q) ops = (o', q'')" by fastforce
    have "o' @ q'' = drop n q @ concat (map op_input ops)"
      using "3.IH"(1) [OF True r] "3.prems"(2) by simp
    then show ?thesis using "3.prems" True r by (auto simp: take_drop_append)
  qed (use 3 in simp)
qed simp_all

text \<open>The same operations on something with a \<open>put\<close> and a \<open>get\<close>, which may refuse.\<close>

fun fifo_run :: "('p \<Rightarrow> byte list \<Rightarrow> fault + 'p) \<Rightarrow> ('p \<Rightarrow> nat \<Rightarrow> fault + (byte list option \<times> 'p)) \<Rightarrow> 'p
    \<Rightarrow> fifo_op list \<Rightarrow> fault + (byte list \<times> 'p)" where
  "fifo_run put get p [] = Inr ([], p)"
| "fifo_run put get p (Put xs # ops) = cbind (put p xs) (\<lambda>p'. fifo_run put get p' ops)"
| "fifo_run put get p (Get n # ops) = cbind (get p n) (\<lambda>(r, p').
     cbind (fifo_run put get p' ops) (\<lambda>(out, p''). Inr ((case r of None \<Rightarrow> [] | Some xs \<Rightarrow> xs) @ out, p'')))"

text \<open>The interface: \<open>put\<close> appends and makes room by dropping the oldest bytes, \<open>get\<close> takes from the front or
  refuses.\<close>

locale byte_fifo =
  fixes inv :: "'p \<Rightarrow> bool"
    and contents :: "'p \<Rightarrow> byte list"
    and capacity :: "'p \<Rightarrow> nat"
    and put :: "'p \<Rightarrow> byte list \<Rightarrow> fault + 'p"
    and get :: "'p \<Rightarrow> nat \<Rightarrow> fault + (byte list option \<times> 'p)"
  assumes contents_bound: "inv p \<Longrightarrow> length (contents p) \<le> capacity p"
    and put_appends: "inv p \<Longrightarrow> length xs \<le> capacity p \<Longrightarrow>
      \<exists>p'. put p xs = Inr p' \<and> inv p' \<and> capacity p' = capacity p
        \<and> contents p' = drop (length (contents p) + length xs - capacity p) (contents p @ xs)"
    and get_takes: "inv p \<Longrightarrow> n \<le> length (contents p) \<Longrightarrow>
      \<exists>p'. get p n = Inr (Some (take n (contents p)), p') \<and> inv p' \<and> capacity p' = capacity p
        \<and> contents p' = drop n (contents p)"
    and get_refuses: "inv p \<Longrightarrow> length (contents p) < n \<Longrightarrow> n \<le> capacity p \<Longrightarrow> get p n = Inr (None, p)"
begin

lemma run_refines_queue:
  assumes "inv p" and "\<forall>x\<in>set ops. op_size x \<le> capacity p"
  shows "\<exists>p'. fifo_run put get p ops = Inr (fst (queue_run (capacity p) (contents p) ops), p') \<and> inv p'
    \<and> capacity p' = capacity p \<and> contents p' = snd (queue_run (capacity p) (contents p) ops)"
  using assms
proof (induction ops arbitrary: p)
  case (Cons x ops)
  show ?case
  proof (cases x)
    case (Put xs)
    then obtain p1 where "put p xs = Inr p1" "inv p1" "capacity p1 = capacity p"
      "contents p1 = drop (length (contents p) + length xs - capacity p) (contents p @ xs)"
      using put_appends [of p xs] Cons.prems by auto
    then show ?thesis using Cons.IH [of p1] Cons.prems Put by auto
  next
    case (Get n)
    show ?thesis
    proof (cases "n \<le> length (contents p)")
      case True
      then obtain p1 where "get p n = Inr (Some (take n (contents p)), p1)" "inv p1" "capacity p1 = capacity p"
        "contents p1 = drop n (contents p)"
        using get_takes [of p n] Cons.prems by auto
      then show ?thesis using Cons.IH [of p1] Cons.prems Get True by (auto split: prod.split)
    next
      case False
      then have "get p n = Inr (None, p)" using get_refuses [of p n] Cons.prems Get by simp
      then show ?thesis using Cons.IH [of p] Cons.prems Get False by auto
    qed
  qed
qed simp

text \<open>What comes out, followed by what is left, is what was there followed by what went in: all of it while there
  is room, and else all but dropped bytes, in the same order.\<close>

lemma run_in_order:
  assumes "inv p" and "\<forall>x\<in>set ops. op_size x \<le> capacity p"
  shows "\<exists>out p'. fifo_run put get p ops = Inr (out, p') \<and> inv p'
    \<and> subseq (out @ contents p') (contents p @ concat (map op_input ops))
    \<and> (length (contents p @ concat (map op_input ops)) \<le> capacity p \<longrightarrow>
        out @ contents p' = contents p @ concat (map op_input ops))"
proof -
  obtain out q' where q: "queue_run (capacity p) (contents p) ops = (out, q')" by fastforce
  then show ?thesis
    using run_refines_queue [OF assms] queue_run_subseq [OF q] queue_run_lossless [OF q] by auto
qed

end

section \<open>A pipe is such a queue\<close>

text \<open>Writing a string of bytes and reading into a fresh buffer, with the sizes \<open>PipeFS\<close> takes.\<close>

definition pipe_put :: "pipe \<Rightarrow> byte list \<Rightarrow> fault + pipe" where
  "pipe_put p xs = cbind (PipeFS_write p xs 0 (word_of_nat (length xs))) (\<lambda>(_, p'). Inr p')"

definition pipe_get :: "pipe \<Rightarrow> nat \<Rightarrow> fault + (byte list option \<times> pipe)" where
  "pipe_get p n = cbind (PipeFS_read p (word_of_nat n) (replicate n 0) 0)
     (\<lambda>(r, p', out). Inr (if r < 0 then None else Some out, p'))"

lemma pipe_capacity_small: "pipe_wf p \<Longrightarrow> n \<le> pipe_capacity p \<Longrightarrow> unat (word_of_nat n :: u32) = n \<and> n < 2 ^ 31"
  by (auto simp: pipe_wf_def pipe_capacity_def intro!: unat_of_nat_small)

interpretation pq: byte_fifo pipe_wf pipe_contents pipe_capacity pipe_put pipe_get
proof
  fix p assume "pipe_wf p"
  then show "length (pipe_contents p) \<le> pipe_capacity p" by (simp add: pipe_wf_def pipe_capacity_def)
next
  fix p and xs :: "byte list" assume wf: "pipe_wf p" and l: "length xs \<le> pipe_capacity p"
  have "unat (m_buffer_write_idx p) + length xs \<le> 2 * pipe_capacity p"
    using wf l by (auto simp: pipe_wf_def pipe_capacity_def)
  then show "\<exists>p'. pipe_put p xs = Inr p' \<and> pipe_wf p' \<and> pipe_capacity p' = pipe_capacity p
      \<and> pipe_contents p' = drop (length (pipe_contents p) + length xs - pipe_capacity p) (pipe_contents p @ xs)"
    using PipeFS_write_spec [OF wf, of 0 "word_of_nat (length xs)" xs] pipe_capacity_small [OF wf l]
    by (auto simp: pipe_put_def)
next
  fix p n assume wf: "pipe_wf p" and n: "n \<le> length (pipe_contents p)"
  then have "n \<le> pipe_capacity p" by (auto simp: pipe_wf_def pipe_capacity_def)
  then have u: "unat (word_of_nat n :: u32) = n" using pipe_capacity_small [OF wf] by simp
  then obtain p' where r: "PipeFS_read p (word_of_nat n) (replicate n 0) 0
      = Inr (int n, p', blit (replicate n 0) 0 (take n (pipe_contents p)))"
    "pipe_wf p'" "pipe_capacity p' = pipe_capacity p" "pipe_contents p' = drop n (pipe_contents p)"
    using PipeFS_read_spec [OF wf, of "word_of_nat n" 0 "replicate n 0"] n by auto
  moreover have "blit (replicate n 0) 0 (take n (pipe_contents p)) = take n (pipe_contents p)"
    using n by (intro blit_full) simp
  ultimately show "\<exists>p'. pipe_get p n = Inr (Some (take n (pipe_contents p)), p') \<and> pipe_wf p'
      \<and> pipe_capacity p' = pipe_capacity p \<and> pipe_contents p' = drop n (pipe_contents p)"
    by (simp add: pipe_get_def)
next
  fix p n assume wf: "pipe_wf p" and n: "length (pipe_contents p) < n" "n \<le> pipe_capacity p"
  then show "pipe_get p n = Inr (None, p)"
    using pipe_capacity_small [OF wf n(2)] PipeFS_read_short [of p "word_of_nat n"] by (simp add: pipe_get_def)
qed

lemma memcpy_loop_overrun:
  assumes "s + sz \<le> length src" and "d + i \<le> length dst" and "length dst < d + sz" and "i \<le> sz"
  shows "memcpy_loop dst d src s sz i = Inl Bad_Write"
  using assms
proof (induction dst d src s sz i rule: memcpy_loop.induct)
  case (1 dst d src s sz i)
  show ?case
  proof (cases "d + i < length dst")
    case True
    then have "memcpy_loop (dst[d + i := src ! (s + i)]) d src s sz (Suc i) = Inl Bad_Write"
      using "1.IH" [of "src ! (s + i)" "dst[d + i := src ! (s + i)]"] "1.prems" by simp
    then show ?thesis using True "1.prems" by (simp add: memcpy_loop.simps [of dst])
  qed (use "1.prems" in \<open>simp add: memcpy_loop.simps [of dst]\<close>)
qed

lemma PipeFS_write_overruns:
  assumes wf: "pipe_wf p" and data: "s + unat sz \<le> length data" and sz: "unat sz < 2 ^ 31"
    and more: "2 * pipe_capacity p < unat (m_buffer_write_idx p) + unat sz"
  shows "PipeFS_write p data s sz = Inl Bad_Write"
proof -
  define B where "B = unat (m_buffer_size p)"
  define W where "W = unat (m_buffer_write_idx p)"
  define N where "N = unat sz"
  have w: "length (m_buffer p) = B" "0 < B" "B < 2 ^ 31" "W \<le> B" "2 * B < W + N" "s + N \<le> length data" "N < 2 ^ 31"
    "unat (m_count p) \<le> B"
    using assms by (auto simp: pipe_wf_def pipe_capacity_def B_def N_def W_def)
  have "sz \<noteq> 0" using w by (auto simp: N_def)
  have "unat (m_buffer_write_idx p + sz) = W + N"
    unfolding W_def N_def by (rule unat_add_small) (use w in \<open>simp add: W_def N_def\<close>)
  then have c: "\<not> m_buffer_write_idx p + sz \<le> m_buffer_size p" using w by (simp add: word_le_nat_alt B_def)
  define fc where "fc = m_buffer_size p - m_buffer_write_idx p"
  have fc: "unat fc = B - W" using unat_diff_small [of "m_buffer_write_idx p" "m_buffer_size p"] w(4)
    by (simp add: fc_def B_def W_def)
  have r': "unat (sz - fc) = N - (B - W)" using unat_diff_small [of fc sz] w fc by (simp add: N_def)
  let ?b = "blit (m_buffer p) W (take (B - W) (drop s data))"
  have m1: "memcpy (m_buffer p) W data s (B - W) = Inr ?b"
    by (rule memcpy_spec) (use w in auto)
  have m2: "memcpy ?b 0 data (s + (B - W)) (N - (B - W)) = Inl Bad_Write"
    unfolding memcpy_def by (rule memcpy_loop_overrun) (use w in auto)
  show ?thesis
    using \<open>sz \<noteq> 0\<close> c m1 m2 w(2)
    by (simp add: PipeFS_write_def Let_def umod_spec B_def [symmetric] fc_def [symmetric] fc r' W_def [symmetric])
qed

section \<open>Properties\<close>


definition small_pipe :: pipe where
  "small_pipe = PipeFS True 4"

lemma small_pipe: "pipe_wf small_pipe" "pipe_contents small_pipe = []" "pipe_capacity small_pipe = 4"
  by (simp_all add: small_pipe_def PipeFS_def pipe_wf_def pipe_contents_def pipe_capacity_def ring_def)


text \<open>A write returns its size, keeps the pipe well formed and leaves the last bytes of the old contents and
  the new data that fit, as long as it ends before the second lap around the buffer does; a larger one writes
  behind the buffer.\<close>

theorem pipe_write_result:
  assumes "pipe_wf p" and "s + unat sz \<le> length data" and "unat sz < 2 ^ 31"
  shows "if unat (m_buffer_write_idx p) + unat sz \<le> 2 * pipe_capacity p
    then \<exists>p'. PipeFS_write p data s sz = Inr (int (unat sz), p') \<and> pipe_wf p' \<and> pipe_capacity p' = pipe_capacity p
      \<and> pipe_contents p' = drop (unat (m_count p) + unat sz - pipe_capacity p) (pipe_contents p @ take (unat sz) (drop s data))
    else PipeFS_write p data s sz = Inl Bad_Write"
  using PipeFS_write_spec [OF assms] PipeFS_write_overruns [OF assms] by auto

theorem pipe_write_result_witness:
  "PipeFS_write small_pipe (replicate 9 7) 0 9 = Inl Bad_Write"
  using pipe_write_result [of small_pipe 0 9 "replicate 9 7"] small_pipe
  by (simp add: small_pipe_def PipeFS_def)

text \<open>Reading blocks larger than what the pipe holds returns the number of blocks asked for, although nothing
  is read: the output and the pipe are as before.\<close>

theorem pipe_read_reports_missing:
  assumes "unat (m_count p) < unat sz"
  shows "pipe_read p sz nmemb out = Inr (sint nmemb, p, out)"
proof -
  have "pipe_read_loop p sz out d n = Inr (p, out)" for d n
    by (induction n arbitrary: d) (simp_all add: PipeFS_read_short [OF assms])
  then show ?thesis by (simp add: pipe_read_def)
qed

theorem pipe_read_reports_missing_witness:
  "pipe_read small_pipe 2 1 [9, 9] = Inr (1, small_pipe, [9, 9])"
  using pipe_read_reports_missing [of small_pipe 2 1 "[9, 9]"] by (simp add: small_pipe_def PipeFS_def)

end
