(* ===== verification/MemFs.thy ===== *)
theory MemFs
  imports Memory FileApi
begin

text \<open>
  Files in memory, \<^verbatim>\<open>src/src/kernel/fs/memory/MemoryFS.cpp\<close>: a buffer and a position behind the operations of a
  file system driver.  The position is shared by everyone who opened the file.
\<close>

section \<open>Definitions\<close>

record memory_fs =
  m_buffer_idx :: u32
  mem_buffer :: "byte list"
  mem_buffer_size :: u32

definition MemoryFS :: "byte list \<Rightarrow> u32 \<Rightarrow> memory_fs" where
  "MemoryFS buffer buffer_size = \<lparr>m_buffer_idx = 0, mem_buffer = buffer, mem_buffer_size = buffer_size\<rparr>"

definition MemoryFS_get_buffer_size :: "memory_fs \<Rightarrow> u32" where
  "MemoryFS_get_buffer_size m = mem_buffer_size m"

definition MemoryFS_read :: "memory_fs \<Rightarrow> u32 \<Rightarrow> byte list \<Rightarrow> nat \<Rightarrow> fault + (int \<times> memory_fs \<times> byte list)" where
  "MemoryFS_read m sz out d =
     (if mem_buffer_size m < m_buffer_idx m + sz then Inr (- EINVARG, m, out)
      else cbind (memcpy out d (mem_buffer m) (unat (m_buffer_idx m)) (unat sz)) (\<lambda>out'.
        Inr (0, m\<lparr>m_buffer_idx := m_buffer_idx m + sz\<rparr>, out')))"

definition MemoryFS_write :: "memory_fs \<Rightarrow> byte list \<Rightarrow> nat \<Rightarrow> u32 \<Rightarrow> fault + (int \<times> memory_fs)" where
  "MemoryFS_write m data s sz =
     (if mem_buffer_size m < m_buffer_idx m + sz then Inr (- EINVARG, m)
      else cbind (memcpy (mem_buffer m) (unat (m_buffer_idx m)) data s (unat sz)) (\<lambda>b.
        Inr (0, m\<lparr>mem_buffer := b, m_buffer_idx := m_buffer_idx m + sz\<rparr>)))"

text \<open>A mode that is none of the three changes nothing.\<close>

definition MemoryFS_seek :: "memory_fs \<Rightarrow> u32 \<Rightarrow> u32 \<Rightarrow> int \<times> memory_fs" where
  "MemoryFS_seek m offset mode =
     (if mem_buffer_size m \<le> offset then (- EINVARG, m)
      else if mode = SEEK_SET then (ALL_OK, m\<lparr>m_buffer_idx := offset\<rparr>)
      else if mode = SEEK_CUR
      then if m_buffer_idx m < m_buffer_idx m + offset then (- EINVARG, m)
           else if sint (m_buffer_idx m + offset) < 0 then (- EINVARG, m)
           else (ALL_OK, m\<lparr>m_buffer_idx := m_buffer_idx m + offset\<rparr>)
      else if mode = SEEK_END
      then if sint (m_buffer_idx m - offset) < 0 then (- EINVARG, m)
           else (ALL_OK, m\<lparr>m_buffer_idx := m_buffer_idx m - offset\<rparr>)
      else (ALL_OK, m))"

text \<open>The driver's operations.\<close>

fun memory_read_loop :: "memory_fs \<Rightarrow> u32 \<Rightarrow> byte list \<Rightarrow> nat \<Rightarrow> nat \<Rightarrow> fault + (memory_fs \<times> byte list)" where
  "memory_read_loop m sz out d 0 = Inr (m, out)"
| "memory_read_loop m sz out d (Suc n) =
     cbind (MemoryFS_read m sz out d) (\<lambda>(_, m', out'). memory_read_loop m' sz out' (d + unat sz) n)"

definition memory_read :: "memory_fs \<Rightarrow> u32 \<Rightarrow> u32 \<Rightarrow> byte list \<Rightarrow> fault + (int \<times> memory_fs \<times> byte list)" where
  "memory_read m sz nmemb out =
     cbind (memory_read_loop m sz out 0 (unat nmemb)) (\<lambda>(m', out'). Inr (sint nmemb, m', out'))"

fun memory_write_loop :: "memory_fs \<Rightarrow> u32 \<Rightarrow> byte list \<Rightarrow> nat \<Rightarrow> nat \<Rightarrow> fault + memory_fs" where
  "memory_write_loop m sz inp s 0 = Inr m"
| "memory_write_loop m sz inp s (Suc n) =
     cbind (MemoryFS_write m inp s sz) (\<lambda>(_, m'). memory_write_loop m' sz inp (s + unat sz) n)"

definition memory_write :: "memory_fs \<Rightarrow> u32 \<Rightarrow> u32 \<Rightarrow> byte list \<Rightarrow> fault + (int \<times> memory_fs)" where
  "memory_write m sz nmemb inp = cbind (memory_write_loop m sz inp 0 (unat nmemb)) (\<lambda>m'. Inr (sint nmemb, m'))"

definition memory_seek :: "memory_fs \<Rightarrow> u32 \<Rightarrow> u32 \<Rightarrow> fault + (int \<times> memory_fs)" where
  "memory_seek m offset mode = Inr (MemoryFS_seek m offset mode)"

definition memory_stat :: "memory_fs \<Rightarrow> fault + (int \<times> file_stat)" where
  "memory_stat m = Inr (0, \<lparr>flags = FILE_MODE_READ OR FILE_MODE_WRITE OR FILE_MODE_APPEND,
     st_filesize = MemoryFS_get_buffer_size m\<rparr>)"

definition memory_close :: "memory_fs \<Rightarrow> fault + (int \<times> memory_fs)" where
  "memory_close m = Inl Assert_Failed"

section \<open>Reading and writing blocks\<close>

definition memory_wf :: "memory_fs \<Rightarrow> bool" where
  "memory_wf m = (unat (mem_buffer_size m) \<le> length (mem_buffer m) \<and> unat (mem_buffer_size m) < 2 ^ 31
     \<and> unat (m_buffer_idx m) \<le> unat (mem_buffer_size m))"

lemma idx_add:
  assumes "memory_wf m" and "unat (m_buffer_idx m) + unat sz \<le> unat (mem_buffer_size m)"
  shows "unat (m_buffer_idx m + sz) = unat (m_buffer_idx m) + unat sz"
    and "\<not> mem_buffer_size m < m_buffer_idx m + sz"
proof -
  show u: "unat (m_buffer_idx m + sz) = unat (m_buffer_idx m) + unat sz"
    by (rule unat_add_small) (use assms in \<open>simp add: memory_wf_def\<close>)
  show "\<not> mem_buffer_size m < m_buffer_idx m + sz"
    using assms(2) u by (simp add: word_less_nat_alt)
qed

lemma memory_read_loop_spec:
  assumes "memory_wf m" and "unat (m_buffer_idx m) + unat sz * n \<le> unat (mem_buffer_size m)"
    and "d + unat sz * n \<le> length out"
  shows "\<exists>m'. memory_read_loop m sz out d n
      = Inr (m', blit out d (take (unat sz * n) (drop (unat (m_buffer_idx m)) (mem_buffer m))))
    \<and> memory_wf m' \<and> mem_buffer m' = mem_buffer m \<and> mem_buffer_size m' = mem_buffer_size m
    \<and> unat (m_buffer_idx m') = unat (m_buffer_idx m) + unat sz * n"
  using assms
proof (induction n arbitrary: m out d)
  case 0 then show ?case by simp
next
  case (Suc n)
  let ?i = "unat (m_buffer_idx m)" and ?N = "unat sz"
  have le: "?i + ?N \<le> unat (mem_buffer_size m)" using Suc.prems(2) by simp
  note a = idx_add [OF Suc.prems(1) le]
  let ?o = "blit out d (take ?N (drop ?i (mem_buffer m)))" and ?m = "m\<lparr>m_buffer_idx := m_buffer_idx m + sz\<rparr>"
  have c: "memcpy out d (mem_buffer m) ?i ?N = Inr ?o"
    by (rule memcpy_spec) (use Suc.prems le in \<open>auto simp: memory_wf_def\<close>)
  have len: "length ?o = length out" "?i + ?N * Suc n \<le> length (mem_buffer m)"
    using Suc.prems le by (auto simp: memory_wf_def)
  have wf: "memory_wf ?m" using Suc.prems(1) a(1) le by (simp add: memory_wf_def)
  obtain m' where m': "memory_read_loop ?m sz ?o (d + ?N) n
      = Inr (m', blit ?o (d + ?N) (take (?N * n) (drop (?i + ?N) (mem_buffer m))))"
    "memory_wf m'" "mem_buffer m' = mem_buffer m" "mem_buffer_size m' = mem_buffer_size m"
    "unat (m_buffer_idx m') = ?i + ?N + ?N * n"
    using Suc.IH [OF wf, of "d + ?N" ?o] a(1) Suc.prems len(1) by (auto simp: algebra_simps)
  have l: "length (take ?N (drop ?i (mem_buffer m))) = ?N" using len(2) by (simp add: algebra_simps)
  have "blit ?o (d + ?N) (take (?N * n) (drop (?i + ?N) (mem_buffer m)))
      = blit out d (take ?N (drop ?i (mem_buffer m)) @ take (?N * n) (drop (?i + ?N) (mem_buffer m)))"
    using blit_append [of d "take ?N (drop ?i (mem_buffer m))" "take (?N * n) (drop (?i + ?N) (mem_buffer m))" out]
      Suc.prems(3) l by (simp add: algebra_simps)
  also have "take ?N (drop ?i (mem_buffer m)) @ take (?N * n) (drop (?i + ?N) (mem_buffer m))
      = take (?N * Suc n) (drop ?i (mem_buffer m))"
    by (simp add: take_add ac_simps)
  finally show ?case using m' c a(2) by (auto simp: MemoryFS_read_def algebra_simps)
qed

lemma memory_write_loop_spec:
  assumes "memory_wf m" and "unat (m_buffer_idx m) + unat sz * n \<le> unat (mem_buffer_size m)"
    and "s + unat sz * n \<le> length inp"
  shows "\<exists>m'. memory_write_loop m sz inp s n = Inr m' \<and> memory_wf m'
    \<and> mem_buffer m' = blit (mem_buffer m) (unat (m_buffer_idx m)) (take (unat sz * n) (drop s inp))
    \<and> mem_buffer_size m' = mem_buffer_size m
    \<and> unat (m_buffer_idx m') = unat (m_buffer_idx m) + unat sz * n"
  using assms
proof (induction n arbitrary: m s)
  case 0 then show ?case by simp
next
  case (Suc n)
  let ?i = "unat (m_buffer_idx m)" and ?N = "unat sz"
  have le: "?i + ?N \<le> unat (mem_buffer_size m)" using Suc.prems(2) by simp
  note a = idx_add [OF Suc.prems(1) le]
  let ?b = "blit (mem_buffer m) ?i (take ?N (drop s inp))"
  let ?m = "m\<lparr>mem_buffer := ?b, m_buffer_idx := m_buffer_idx m + sz\<rparr>"
  have l: "length (take ?N (drop s inp)) = ?N" using Suc.prems(3) by (simp add: algebra_simps)
  have c: "memcpy (mem_buffer m) ?i inp s ?N = Inr ?b"
    by (rule memcpy_spec) (use Suc.prems le l in \<open>auto simp: memory_wf_def\<close>)
  have len: "?i + ?N * Suc n \<le> length (mem_buffer m)" "length ?b = length (mem_buffer m)"
    using Suc.prems le l by (auto simp: memory_wf_def)
  have wf: "memory_wf ?m" using Suc.prems(1) a(1) le len(2) by (simp add: memory_wf_def)
  obtain m' where m': "memory_write_loop ?m sz inp (s + ?N) n = Inr m'" "memory_wf m'"
    "mem_buffer m' = blit ?b (?i + ?N) (take (?N * n) (drop (s + ?N) inp))" "mem_buffer_size m' = mem_buffer_size m"
    "unat (m_buffer_idx m') = ?i + ?N + ?N * n"
    using Suc.IH [OF wf, of "s + ?N"] a(1) Suc.prems by (auto simp: algebra_simps)
  have "blit ?b (?i + ?N) (take (?N * n) (drop (s + ?N) inp))
      = blit (mem_buffer m) ?i (take ?N (drop s inp) @ take (?N * n) (drop (s + ?N) inp))"
    using blit_append [of ?i "take ?N (drop s inp)" "take (?N * n) (drop (s + ?N) inp)" "mem_buffer m"] len l
      Suc.prems(3) by (simp add: algebra_simps)
  also have "take ?N (drop s inp) @ take (?N * n) (drop (s + ?N) inp) = take (?N * Suc n) (drop s inp)"
    by (simp add: take_add ac_simps)
  finally show ?case using m' c a(2) by (auto simp: MemoryFS_write_def algebra_simps)
qed

lemma memory_seek_cur_refused:
  assumes "0 < unat offset" and "unat (m_buffer_idx m) + unat offset < 2 ^ 32"
  shows "MemoryFS_seek m offset SEEK_CUR = (- EINVARG, m)"
  using assms unat_add_small [OF assms(2)]
  by (simp add: MemoryFS_seek_def seek_defs word_less_nat_alt)

section \<open>Properties\<close>

text \<open>Blocks written to a memory file at some position and read back from there, after seeking to it, are the
  blocks written; both operations report the number of blocks and move the position behind them, as long as they
  fit into the file.\<close>

theorem memory_write_read:
  assumes "memory_wf m" and "unat offset + unat sz * unat nmemb \<le> unat (mem_buffer_size m)"
    and "unat offset < unat (mem_buffer_size m)"
    and "length data = unat sz * unat nmemb" and "length out = unat sz * unat nmemb"
  shows "\<exists>m1 m2 m3 m4. memory_seek m offset SEEK_SET = Inr (ALL_OK, m1)
    \<and> memory_write m1 sz nmemb data = Inr (sint nmemb, m2)
    \<and> memory_seek m2 offset SEEK_SET = Inr (ALL_OK, m3)
    \<and> memory_read m3 sz nmemb out = Inr (sint nmemb, m4, data)
    \<and> memory_wf m4 \<and> unat (m_buffer_idx m4) = unat offset + unat sz * unat nmemb"
proof -
  let ?m1 = "m\<lparr>m_buffer_idx := offset\<rparr>" and ?o = "unat offset" and ?L = "unat sz * unat nmemb"
  have sk: "memory_seek x offset SEEK_SET = Inr (ALL_OK, x\<lparr>m_buffer_idx := offset\<rparr>)"
    if "mem_buffer_size x = mem_buffer_size m" for x
    using that assms(3) by (simp add: memory_seek_def MemoryFS_seek_def word_le_nat_alt)
  have "memory_wf ?m1" using assms(1,3) by (simp add: memory_wf_def)
  then obtain m2 where m2: "memory_write_loop ?m1 sz data 0 (unat nmemb) = Inr m2" "memory_wf m2"
    "mem_buffer m2 = blit (mem_buffer m) ?o data" "mem_buffer_size m2 = mem_buffer_size m"
    using memory_write_loop_spec [of ?m1 sz "unat nmemb" 0 data] assms(2,4) by auto
  let ?m3 = "m2\<lparr>m_buffer_idx := offset\<rparr>"
  have "memory_wf ?m3" using m2 assms(3) by (simp add: memory_wf_def)
  moreover have "?o + ?L \<le> length (mem_buffer m)" using assms(1,2) by (simp add: memory_wf_def)
  then have t: "take ?L (drop ?o (blit (mem_buffer m) ?o data)) = data"
    using take_drop_blit [of ?o data "mem_buffer m"] assms(4) by simp
  ultimately obtain m4 where m4: "memory_read_loop ?m3 sz out 0 (unat nmemb) = Inr (m4, data)" "memory_wf m4"
    "unat (m_buffer_idx m4) = ?o + ?L"
    using memory_read_loop_spec [of ?m3 sz "unat nmemb" 0 out] m2 assms(2,4,5) by (auto simp: blit_full)
  then show ?thesis
    using sk [of m] sk [of m2] m2 by (simp add: memory_write_def memory_read_def)
qed

theorem memory_write_read_witness:
  "\<exists>m1 m2 m3 m4. memory_seek (MemoryFS (replicate 8 0) 8) 3 SEEK_SET = Inr (ALL_OK, m1)
    \<and> memory_write m1 2 2 [1, 2, 3, 4] = Inr (2, m2)
    \<and> memory_seek m2 3 SEEK_SET = Inr (ALL_OK, m3)
    \<and> memory_read m3 2 2 [0, 0, 0, 0] = Inr (2, m4, [1, 2, 3, 4])"
  using memory_write_read [of "MemoryFS (replicate 8 0) 8" 3 2 2 "[1, 2, 3, 4]" "[0, 0, 0, 0]"]
  by (auto simp: MemoryFS_def memory_wf_def)

end
