(* ===== verification/Path.thy ===== *)
theory Path
  imports KString FileApi
begin

text \<open>
  Paths, \<^verbatim>\<open>src/src/kernel/fs/Path.cpp\<close>: splitting a path at its slashes into a list of 1024-byte buffers.  The
  linked list of \<open>path_part\<close>s is a list of these buffers.
\<close>

section \<open>Definitions\<close>

definition MAX_PATH :: nat where "MAX_PATH = 1024"

text \<open>The string \<open>"0:/"\<close>.\<close>

definition root_prefix :: "byte list" where "root_prefix = [48, 58, 47, 0]"

definition path_valid :: "byte list \<Rightarrow> fault + bool" where
  "path_valid path =
     cbind (strlen path) (\<lambda>n. if n = 0 then Inr False
       else cbind (strcmp root_prefix path) (\<lambda>c. Inr (c = 0)))"

text \<open>A new node and its buffer.\<close>

definition new_part :: "'a kobjects_scheme \<Rightarrow> fault + (byte list \<times> 'a kobjects_scheme)" where
  "new_part s = (case obj_alloc s of (ok, s1) \<Rightarrow>
     if \<not> ok then Inl Null_Deref
     else case obj_alloc s1 of (ok, s2) \<Rightarrow> Inr (if ok then replicate MAX_PATH 0 else [], s2))"

text \<open>The loop over the characters: \<open>parts\<close> are the nodes before the current one, whose buffer is \<open>current\<close>.\<close>

function parse_loop :: "byte list \<Rightarrow> nat \<Rightarrow> byte list list \<Rightarrow> byte list \<Rightarrow> nat \<Rightarrow> 'a kobjects_scheme
    \<Rightarrow> fault + (byte list list \<times> 'a kobjects_scheme)" where
  "parse_loop path path_idx parts current relative_path_idx s =
     cbind (strlen path) (\<lambda>n.
       if path_idx < n
       then cbind (rd path path_idx) (\<lambda>c.
         if c = 47
         then cbind (new_part s) (\<lambda>(part, s1). parse_loop path (Suc path_idx) (parts @ [current]) part 0 s1)
         else cbind (wr current relative_path_idx c) (\<lambda>current'.
           parse_loop path (Suc path_idx) parts current' (Suc relative_path_idx) s))
       else Inr (parts @ [current], s))"
  by pat_completeness auto
termination
  by (relation "measure (\<lambda>(path, i, parts, c, r, s). length path - i)")
    (auto simp: strlen_spec rd_eq_Inr split: if_splits)

declare parse_loop.simps [simp del]

text \<open>\<open>None\<close> is the null pointer.\<close>

definition Path_parse :: "byte list \<Rightarrow> 'a kobjects_scheme \<Rightarrow> fault + (byte list list option \<times> 'a kobjects_scheme)" where
  "Path_parse path s =
     cbind (path_valid path) (\<lambda>ok. if \<not> ok then Inr (None, s)
       else cbind (new_part s) (\<lambda>(first, s1).
            cbind (parse_loop path 0 [] first 0 s1) (\<lambda>(parts, s2). Inr (Some parts, s2))))"

definition pathparser_parse :: "byte list \<Rightarrow> 'a kobjects_scheme \<Rightarrow> fault + (int \<times> byte list list \<times> 'a kobjects_scheme)" where
  "pathparser_parse path s = cbind (Path_parse path s) (\<lambda>(r, s').
     case r of None \<Rightarrow> Inr (- EINVARG, [], s') | Some parts \<Rightarrow> Inr (0, parts, s'))"

definition pathparser_get_drive_number :: "byte list \<Rightarrow> fault + int" where
  "pathparser_get_drive_number path = cbind (rd path 0) (\<lambda>c. Inr (sint c - 48))"

text \<open>The loop frees both objects of every node; the first node is freed once more after it, which changes nothing,
  its blocks being free.\<close>

fun pathparser_free :: "byte list list \<Rightarrow> 'a kobjects_scheme \<Rightarrow> 'a kobjects_scheme" where
  "pathparser_free [] s = s"
| "pathparser_free (part # parts) s =
     pathparser_free parts (obj_free (if part = [] then s else obj_free s))"

section \<open>Splitting at slashes\<close>

fun split_slash :: "byte list \<Rightarrow> byte list list" where
  "split_slash [] = [[]]"
| "split_slash (c # cs) = (if c = 47 then [] # split_slash cs
     else case split_slash cs of [] \<Rightarrow> [[c]] | p # ps \<Rightarrow> (c # p) # ps)"

fun join_slash :: "byte list list \<Rightarrow> byte list" where
  "join_slash [] = []"
| "join_slash [p] = p"
| "join_slash (p # q # ps) = p @ 47 # join_slash (q # ps)"

lemma split_slash_ne [simp]: "split_slash cs \<noteq> []"
  by (induction cs) (auto split: list.splits)

lemma join_split: "join_slash (split_slash cs) = cs"
proof (induction cs)
  case (Cons c cs)
  then show ?case by (cases "split_slash cs"; cases "tl (split_slash cs)") (auto split: list.splits)
qed simp

lemma split_no_slash: "p \<in> set (split_slash cs) \<Longrightarrow> 47 \<notin> set p"
  by (induction cs arbitrary: p) (auto split: list.splits if_splits)

lemma split_no_nul: "p \<in> set (split_slash cs) \<Longrightarrow> 0 \<notin> set cs \<Longrightarrow> 0 \<notin> set p"
  by (induction cs arbitrary: p) (auto split: list.splits if_splits)

lemma split_length: "p \<in> set (split_slash cs) \<Longrightarrow> length p \<le> length cs"
  by (induction cs arbitrary: p) (auto split: list.splits if_splits intro: le_SucI)

lemma length_join: "length (join_slash (take k ps)) \<le> length (join_slash ps)"
proof (induction ps arbitrary: k rule: join_slash.induct)
  case (2 p) then show ?case by (cases k) auto
next
  case (3 p q ps)
  show ?case using 3 [of "k - 1"] by (cases k; cases "k - 1") auto
qed simp

text \<open>The buffer of a component.\<close>

definition part_of :: "byte list \<Rightarrow> byte list" where
  "part_of p = p @ replicate (MAX_PATH - length p) 0"

lemma part_of_cstr: "0 \<notin> set p \<Longrightarrow> length p < MAX_PATH \<Longrightarrow> cstr (part_of p) = p \<and> has_nul (part_of p)"
  unfolding part_of_def by (cases "MAX_PATH - length p") (auto simp: cstr_append_nul)

lemma part_of_snoc: "length p < MAX_PATH \<Longrightarrow> (part_of p)[length p := c] = part_of (p @ [c])"
  unfolding part_of_def by (cases "MAX_PATH - length p") (auto simp: list_update_append)

lemma length_part_of: "length (part_of p) = max MAX_PATH (length p)"
  by (simp add: part_of_def max_def)

lemma new_part_ok: "k_allocs s = [] \<Longrightarrow> new_part s = Inr (part_of [], s\<lparr>k_live := k_live s + 2\<rparr>)"
  by (simp add: new_part_def obj_alloc_def part_of_def)

lemma parse_loop_spec:
  assumes "has_nul path" and "k_allocs s = []" and "i \<le> length (cstr path)"
    and "split_slash (drop i (cstr path)) = q # qs" and "length (p @ q) \<le> MAX_PATH" and "\<forall>x\<in>set qs. length x \<le> MAX_PATH"
  shows "parse_loop path i parts (part_of p) (length p) s
    = Inr (parts @ part_of (p @ q) # map part_of qs, s\<lparr>k_live := k_live s + 2 * int (length qs)\<rparr>)"
  using assms
proof (induction "length (cstr path) - i" arbitrary: i p q qs parts s)
  case 0
  then show ?case by (auto simp: parse_loop.simps [of path] strlen_spec)
next
  case (Suc m)
  let ?n = "length (cstr path)"
  have i: "i < ?n" "i < length path" using Suc.hyps(2) cstr_length_le [of path] by auto
  then have c: "rd path i = Inr (cstr path ! i)" by (simp add: cstr_nth)
  have d: "drop i (cstr path) = cstr path ! i # drop (Suc i) (cstr path)" using i by (simp add: Cons_nth_drop_Suc)
  note step = parse_loop.simps [of path i] strlen_spec Suc.prems(1)
  show ?case
  proof (cases "cstr path ! i = 47")
    case True
    obtain q' qs' where q': "split_slash (drop (Suc i) (cstr path)) = q' # qs'"
      by (cases "split_slash (drop (Suc i) (cstr path))") auto
    have q: "q = []" "qs = q' # qs'" using Suc.prems(4) d True q' by auto
    let ?s = "s\<lparr>k_live := k_live s + 2\<rparr>"
    have "parse_loop path (Suc i) (parts @ [part_of p]) (part_of []) (length ([] :: byte list)) ?s
        = Inr ((parts @ [part_of p]) @ part_of ([] @ q') # map part_of qs', ?s\<lparr>k_live := k_live ?s + 2 * int (length qs')\<rparr>)"
      by (rule Suc.hyps(1)) (use Suc.hyps(2) Suc.prems q q' in auto)
    then show ?thesis
      using i c True q Suc.prems(2) by (simp add: step new_part_ok algebra_simps)
  next
    case False
    obtain q' qs' where q': "split_slash (drop (Suc i) (cstr path)) = q' # qs'"
      by (cases "split_slash (drop (Suc i) (cstr path))") auto
    have q: "q = cstr path ! i # q'" "qs = qs'" using Suc.prems(4) d False q' by auto
    have lp: "length p < MAX_PATH" using Suc.prems(5) q by simp
    have "parse_loop path (Suc i) parts (part_of (p @ [cstr path ! i])) (length (p @ [cstr path ! i])) s
        = Inr (parts @ part_of ((p @ [cstr path ! i]) @ q') # map part_of qs', s\<lparr>k_live := k_live s + 2 * int (length qs')\<rparr>)"
      by (rule Suc.hyps(1)) (use Suc.hyps(2) Suc.prems q q' in auto)
    then show ?thesis
      using i c False q lp by (simp add: step length_part_of part_of_snoc [symmetric])
  qed
qed

lemma path_valid_spec:
  assumes "has_nul path"
  shows "path_valid path = Inr (take 3 (cstr path) = [48, 58, 47])"
proof -
  have r: "has_nul root_prefix" "cstr root_prefix = [48, 58, 47]"
    using cstr_append_nul [of "[48, 58, 47]" "[]"] has_nul_append_nul [of "[48, 58, 47]" "[]"] by (simp_all add: root_prefix_def)
  from strcmp_spec [OF r(1) assms] obtain c where c: "strcmp root_prefix path = Inr c"
    "c = 0 \<longleftrightarrow> take (length (cstr root_prefix)) (cstr path) = cstr root_prefix" .
  have len: "length (cstr root_prefix) = 3" using r(2) by simp
  have "c = 0 \<longleftrightarrow> take 3 (cstr path) = [48, 58, 47]" by (rule c(2) [unfolded len, unfolded r(2)])
  then show ?thesis using c(1) assms by (cases "cstr path = []") (simp_all add: path_valid_def strlen_spec)
qed

lemma Path_parse_spec:
  assumes "has_nul path" and "k_allocs s = []" and "take 3 (cstr path) = [48, 58, 47]"
    and "\<forall>x\<in>set (split_slash (cstr path)). length x \<le> MAX_PATH"
  shows "Path_parse path s = Inr (Some (map part_of (split_slash (cstr path))),
    s\<lparr>k_live := k_live s + 2 * int (length (split_slash (cstr path)))\<rparr>)"
proof -
  obtain q qs where q: "split_slash (cstr path) = q # qs" by (cases "split_slash (cstr path)") auto
  let ?s = "s\<lparr>k_live := k_live s + 2\<rparr>"
  have "parse_loop path 0 [] (part_of []) (length ([] :: byte list)) ?s
      = Inr ([] @ part_of ([] @ q) # map part_of qs, ?s\<lparr>k_live := k_live ?s + 2 * int (length qs)\<rparr>)"
    by (rule parse_loop_spec) (use assms q in auto)
  then show ?thesis
    using assms path_valid_spec [OF assms(1)] q by (simp add: Path_parse_def new_part_ok algebra_simps)
qed

lemma Path_parse_invalid:
  "has_nul path \<Longrightarrow> take 3 (cstr path) \<noteq> [48, 58, 47] \<Longrightarrow> Path_parse path s = Inr (None, s)"
  by (simp add: Path_parse_def path_valid_spec)

lemma pathparser_free_spec:
  "[] \<notin> set parts \<Longrightarrow> pathparser_free parts s = s\<lparr>k_live := k_live s - 2 * int (length parts)\<rparr>"
  by (induction parts s rule: pathparser_free.induct) (auto simp: obj_free_def algebra_simps)
section \<open>Properties\<close>

text \<open>C30: A path is parsed into its components, one buffer each, exactly if it starts with \<open>"0:/"\<close> and else into no
  path at all: joined by slashes the components are the path again, none holds a slash, and freeing them gives back
  all that parsing allocated.\<close>

theorem path_parse_components:
  assumes "has_nul path" and "k_allocs s = []" and "\<forall>x\<in>set (split_slash (cstr path)). length x < MAX_PATH"
  shows "if take 3 (cstr path) = [48, 58, 47]
    then \<exists>parts s'. pathparser_parse path s = Inr (0, parts, s')
      \<and> map cstr parts = split_slash (cstr path) \<and> (\<forall>p\<in>set parts. has_nul p \<and> 47 \<notin> set (cstr p))
      \<and> join_slash (map cstr parts) = cstr path \<and> pathparser_free parts s' = s
    else pathparser_parse path s = Inr (- EINVARG, [], s)"
proof -
  let ?ps = "split_slash (cstr path)"
  have c: "cstr (part_of p) = p \<and> has_nul (part_of p)" if "p \<in> set ?ps" for p
    by (rule part_of_cstr) (use that assms(3) split_no_nul [OF that cstr_no_nul] in auto)
  then have m: "map (cstr \<circ> part_of) ?ps = ?ps" by (intro map_idI) simp
  have "part_of p \<noteq> []" for p by (simp add: part_of_def MAX_PATH_def)
  then have "[] \<notin> set (map part_of ?ps)" by (metis imageE set_map)
  then show ?thesis
    using Path_parse_spec [OF assms(1,2)] Path_parse_invalid [OF assms(1), of s] assms(3) m c split_no_slash
    by (auto simp: pathparser_parse_def join_split pathparser_free_spec less_imp_le)
qed

theorem path_parse_components_witness:
  "\<exists>parts s'. pathparser_parse [48, 58, 47, 97, 47, 98, 0] \<lparr>k_allocs = [], k_live = 5\<rparr> = Inr (0, parts, s')
    \<and> map cstr parts = [[48, 58], [97], [98]] \<and> pathparser_free parts s' = \<lparr>k_allocs = [], k_live = 5\<rparr>"
proof -
  have "cstr [48, 58, 47, 97, 47, 98, 0] = [48, 58, 47, 97, 47, 98]" "has_nul [48, 58, 47, 97, 47, 98, 0]"
    using cstr_append_nul [of "[48, 58, 47, 97, 47, 98]" "[]"] has_nul_append_nul [of "[48, 58, 47, 97, 47, 98]" "[]"]
    by simp_all
  then show ?thesis
    using path_parse_components [of "[48, 58, 47, 97, 47, 98, 0]" "\<lparr>k_allocs = [], k_live = 5\<rparr>"]
    by (simp add: MAX_PATH_def) (elim exE conjE, intro exI conjI)
qed

end
