(* ===== verification/Vfs.thy ===== *)
theory Vfs
  imports Path
begin

text \<open>
  The file layer, \<^verbatim>\<open>src/src/kernel/fs/file.c\<close>, and \<^verbatim>\<open>disk_search_and_init\<close> of \<^verbatim>\<open>drivers/disk/disk.c\<close>: the tables of
  file systems, mounted files and descriptors, opening a path through the mounted file whose name is its longest
  prefix, and the operations on descriptors.  Drivers are records of functions on a state of their own, so the
  layer is modelled for any driver; \<open>Drivers\<close> holds the records of the pipe and memory drivers.
\<close>

section \<open>State\<close>

text \<open>A driver: what the function pointers of a \<open>filesystem\<close> do to the state \<open>'w\<close> of the drivers.  Private data and
  private descriptors are the addresses the driver hands out.  \<open>resolve\<close> is given the disk and may set its
  \<open>fs_private\<close>.  The path of \<open>open\<close> is \<open>Dangling\<close> when it is read from behind the end of the array of
  components.\<close>

record disk =
  disk_type :: u32
  sector_size :: int
  disk_id :: int
  fs_private :: u32

record 'w filesystem =
  fs_resolve_op :: "disk \<Rightarrow> 'w \<Rightarrow> fault + (int \<times> disk \<times> 'w)"
  fs_open_op :: "u32 \<Rightarrow> byte list list ptr \<Rightarrow> u32 \<Rightarrow> 'w \<Rightarrow> fault + (u32 \<times> 'w)"
  fs_read_op :: "u32 \<Rightarrow> u32 \<Rightarrow> u32 \<Rightarrow> u32 \<Rightarrow> byte list \<Rightarrow> 'w \<Rightarrow> fault + (int \<times> byte list \<times> 'w)"
  fs_seek_op :: "u32 \<Rightarrow> u32 \<Rightarrow> u32 \<Rightarrow> 'w \<Rightarrow> fault + (int \<times> 'w)"
  fs_stat_op :: "u32 \<Rightarrow> 'w \<Rightarrow> fault + (int \<times> file_stat \<times> 'w)"
  fs_close_op :: "u32 \<Rightarrow> 'w \<Rightarrow> fault + (int \<times> 'w)"
  fs_write_op :: "u32 \<Rightarrow> u32 \<Rightarrow> u32 \<Rightarrow> u32 \<Rightarrow> byte list \<Rightarrow> 'w \<Rightarrow> fault + (int \<times> 'w)"

record 'w file_descriptor =
  index :: int
  fd_filesystem :: "'w filesystem option"
  private_fs_descriptor :: u32
  private_fs :: u32

record 'w mounted_file =
  mf_filename :: "byte list"
  mf_fs :: "'w filesystem"
  mf_data :: u32

record 'w vfs = kobjects +
  filesystems :: "'w filesystem option list"
  file_descriptors :: "'w file_descriptor option list"
  mounted_files :: "'w mounted_file option list"
  drivers :: 'w

section \<open>Tables\<close>

definition fs_get_free_filesystem_slot :: "'w vfs \<Rightarrow> nat option" where
  "fs_get_free_filesystem_slot v = first_free (filesystems v)"

text \<open>The status, the number of the new slot, and the state.\<close>

definition file_new_descriptor :: "'w vfs \<Rightarrow> fault + (int \<times> nat \<times> 'w vfs)" where
  "file_new_descriptor v = (case first_free (file_descriptors v) of
     None \<Rightarrow> Inr (- ENOMEM, 0, v)
   | Some i \<Rightarrow> (case obj_alloc v of (ok, v1) \<Rightarrow>
       if \<not> ok then Inl Null_Deref
       else Inr (ALL_OK, i, v1\<lparr>file_descriptors := (file_descriptors v1)[i := Some \<lparr>index = int i + 1,
              fd_filesystem = None, private_fs_descriptor = 0, private_fs = 0\<rparr>]\<rparr>)))"

definition file_get_descriptor :: "'w vfs \<Rightarrow> int \<Rightarrow> fault + 'w file_descriptor option" where
  "file_get_descriptor v fd =
     (if fd \<le> 0 \<or> 1024 \<le> fd then Inr None else rd (file_descriptors v) (nat (fd - 1)))"

definition file_free_descriptor :: "'w vfs \<Rightarrow> 'w file_descriptor \<Rightarrow> fault + (int \<times> 'w vfs)" where
  "file_free_descriptor v desc =
     cbind (wr (file_descriptors v) (nat (index desc - 1)) None) (\<lambda>fds.
       Inr (ALL_OK, obj_free (v\<lparr>file_descriptors := fds\<rparr>)))"

text \<open>A null pointer or a full array is a panic.\<close>

definition fs_insert_filesystem :: "'w vfs \<Rightarrow> 'w filesystem option \<Rightarrow> fault + 'w vfs" where
  "fs_insert_filesystem v fs = (case fs of None \<Rightarrow> Inl Panic | Some f \<Rightarrow>
     (case fs_get_free_filesystem_slot v of None \<Rightarrow> Inl Panic
      | Some i \<Rightarrow> Inr (v\<lparr>filesystems := (filesystems v)[i := Some f]\<rparr>)))"

definition fs_init :: "'w vfs \<Rightarrow> 'w vfs" where
  "fs_init v = (case obj_alloc v of (ok, v1) \<Rightarrow>
     v1\<lparr>filesystems := replicate 12 None, file_descriptors := replicate 1024 None,
       mounted_files := (if ok then replicate 16384 None else [])\<rparr>)"

text \<open>The array of mounted files; reading it through a null pointer is a fault.\<close>

definition mounted_slots :: "'w vfs \<Rightarrow> fault + 'w mounted_file option list" where
  "mounted_slots v = (if length (mounted_files v) = 0 then Inl Null_Deref else Inr (mounted_files v))"

text \<open>The name is kept by value, where the code keeps the caller's pointer.\<close>

definition mount :: "'w vfs \<Rightarrow> byte list \<Rightarrow> 'w filesystem \<Rightarrow> u32 \<Rightarrow> fault + 'w vfs" where
  "mount v name fs data = (case obj_alloc v of (ok, v1) \<Rightarrow>
     if \<not> ok then Inl Null_Deref
     else cbind (mounted_slots v1) (\<lambda>ms. case first_free ms of
       None \<Rightarrow> Inl Panic
     | Some i \<Rightarrow> Inr (v1\<lparr>mounted_files := ms[i := Some \<lparr>mf_filename = name, mf_fs = fs, mf_data = data\<rparr>]\<rparr>)))"

text \<open>The string \<open>"0:"\<close>.\<close>

definition drive_name :: "byte list" where "drive_name = [48, 58, 0]"

text \<open>The file system that recognises the disk, if any, and the disk it has set up.\<close>

fun fs_resolve_loop :: "'w vfs \<Rightarrow> disk \<Rightarrow> 'w filesystem option list \<Rightarrow> fault + ('w filesystem option \<times> disk \<times> 'w vfs)" where
  "fs_resolve_loop v d [] = Inr (None, d, v)"
| "fs_resolve_loop v d (None # fss) = fs_resolve_loop v d fss"
| "fs_resolve_loop v d (Some f # fss) =
     cbind (fs_resolve_op f d (drivers v)) (\<lambda>(res, d', w').
       let v' = v\<lparr>drivers := w'\<rparr> in
       if res = ALL_OK then cbind (mount v' drive_name f (fs_private d')) (\<lambda>v''. Inr (Some f, d', v''))
       else fs_resolve_loop v' d' fss)"

definition fs_resolve :: "'w vfs \<Rightarrow> disk \<Rightarrow> fault + ('w filesystem option \<times> disk \<times> 'w vfs)" where
  "fs_resolve v d = fs_resolve_loop v d (filesystems v)"

definition disk_search_and_init :: "'w vfs \<Rightarrow> fault + ('w filesystem option \<times> disk \<times> 'w vfs)" where
  "disk_search_and_init v =
     cbind (fs_resolve v \<lparr>disk_type = 0, sector_size = 512, disk_id = 0, fs_private = 0\<rparr>) (\<lambda>(f, d, v').
       Inr (f, d\<lparr>disk_id := 0\<rparr>, v'))"

section \<open>Opening\<close>

definition file_get_mode_by_string :: "byte list \<Rightarrow> fault + u32" where
  "file_get_mode_by_string str =
     cbind (strncmp str [114, 0] 1) (\<lambda>r. if r = 0 then Inr FILE_MODE_READ
     else cbind (strncmp str [119, 0] 1) (\<lambda>w. if w = 0 then Inr FILE_MODE_WRITE
     else cbind (strncmp str [97, 0] 1) (\<lambda>a. if a = 0 then Inr FILE_MODE_APPEND
     else Inr FILE_MODE_INVALID)))"

text \<open>Writing components, with slashes between them, to the buffer from index \<open>ptr\<close> on.\<close>

fun reconstruct :: "byte list \<Rightarrow> nat \<Rightarrow> byte list list \<Rightarrow> fault + byte list" where
  "reconstruct buf ptr [] = Inr buf"
| "reconstruct buf ptr (part # parts) =
     cbind (strcpy buf ptr part) (\<lambda>buf1.
     cbind (strlen part) (\<lambda>n.
       if parts \<noteq> [] then cbind (wr buf1 (ptr + n) 47) (\<lambda>buf2. reconstruct buf2 (ptr + n + 1) parts)
       else Inr buf1))"

text \<open>The first mounted file of that name.\<close>

fun find_mounted :: "byte list \<Rightarrow> 'w mounted_file option list \<Rightarrow> fault + 'w mounted_file option" where
  "find_mounted path [] = Inr None"
| "find_mounted path (None # ms) = find_mounted path ms"
| "find_mounted path (Some m # ms) =
     cbind (strlen path) (\<lambda>n1. cbind (strlen (mf_filename m)) (\<lambda>n2.
       if n1 = n2
       then cbind (strcmp path (mf_filename m)) (\<lambda>c. if c = 0 then Inr (Some m) else find_mounted path ms)
       else find_mounted path ms))"

text \<open>Opening through a mounted file; \<open>k\<close> components are its name.\<close>

definition open_mounted :: "'w vfs \<Rightarrow> 'w mounted_file \<Rightarrow> byte list list \<Rightarrow> u32 \<Rightarrow> nat \<Rightarrow> fault + (int \<times> 'w vfs)" where
  "open_mounted v m parts fmode k =
     cbind (fs_open_op (mf_fs m) (mf_data m) (if k < length parts then Live (drop k parts) else Dangling) fmode (drivers v))
       (\<lambda>(descriptor_private_data, w).
     cbind (cassert (descriptor_private_data \<noteq> 0)) (\<lambda>_.
     cbind (file_new_descriptor (v\<lparr>drivers := w\<rparr>)) (\<lambda>(res, i, v1).
     cbind (cassert (res = 0)) (\<lambda>_.
     cbind (rd (file_descriptors v1) i) (\<lambda>d. case d of None \<Rightarrow> Inl Null_Deref | Some desc \<Rightarrow>
       Inr (index desc, v1\<lparr>file_descriptors := (file_descriptors v1)[i := Some (desc\<lparr>fd_filesystem := Some (mf_fs m),
         private_fs_descriptor := descriptor_private_data, private_fs := mf_data m\<rparr>)]\<rparr>))))))"

text \<open>Trying the prefixes of the path, from \<open>k\<close> components down.\<close>

primrec fopen_loop :: "'w vfs \<Rightarrow> byte list list \<Rightarrow> u32 \<Rightarrow> nat \<Rightarrow> fault + (int \<times> 'w vfs)" where
  "fopen_loop v parts fmode 0 =
     cbind (reconstruct (replicate MAX_PATH 0) 0 (take 0 parts)) (\<lambda>rp.
     cbind (cbind (mounted_slots v) (find_mounted rp)) (\<lambda>m.
       case m of Some mf \<Rightarrow> open_mounted v mf parts fmode 0 | None \<Rightarrow> Inr (- EINVARG, v)))"
| "fopen_loop v parts fmode (Suc k) =
     cbind (reconstruct (replicate MAX_PATH 0) 0 (take (Suc k) parts)) (\<lambda>rp.
     cbind (cbind (mounted_slots v) (find_mounted rp)) (\<lambda>m.
       case m of Some mf \<Rightarrow> open_mounted v mf parts fmode (Suc k) | None \<Rightarrow> fopen_loop v parts fmode k))"

definition fopen :: "'w vfs \<Rightarrow> byte list \<Rightarrow> byte list \<Rightarrow> fault + (int \<times> 'w vfs)" where
  "fopen v name str_mode =
     cbind (pathparser_parse name v) (\<lambda>(result, root_path, v1).
       if result < 0 then Inr (result, v1)
       else if length root_path \<le> 1 then Inr (- EINVARG, v1)
       else cbind (file_get_mode_by_string str_mode) (\<lambda>fmode.
         if fmode = FILE_MODE_INVALID then Inr (- EINVARG, v1)
         else case obj_alloc v1 of (ok1, v2) \<Rightarrow>
           if \<not> ok1 then Inl Null_Deref
           else case obj_alloc v2 of (ok2, v3) \<Rightarrow>
             if \<not> ok2 then Inl Null_Deref
             else cbind (fopen_loop v3 root_path fmode (length root_path)) (\<lambda>(result, v4).
               Inr (result, pathparser_free root_path (obj_free (obj_free v4))))))"

section \<open>Using and closing\<close>

definition descriptor_fs :: "'w file_descriptor option \<Rightarrow> fault + ('w file_descriptor \<times> 'w filesystem)" where
  "descriptor_fs d = (case d of None \<Rightarrow> Inl Null_Deref | Some desc \<Rightarrow>
     (case fd_filesystem desc of None \<Rightarrow> Inl Null_Deref | Some f \<Rightarrow> Inr (desc, f)))"

text \<open>\<open>fread\<close> and \<open>fwrite\<close> do not look for a null descriptor; the other operations do.\<close>

definition fread :: "'w vfs \<Rightarrow> byte list \<Rightarrow> u32 \<Rightarrow> u32 \<Rightarrow> int \<Rightarrow> fault + (int \<times> byte list \<times> 'w vfs)" where
  "fread v ptr sz nmemb fd =
     (if sz = 0 \<or> nmemb = 0 \<or> fd < 1 then Inr (- EINVARG, ptr, v)
      else cbind (file_get_descriptor v fd) (\<lambda>d. cbind (descriptor_fs d) (\<lambda>(desc, f).
           cbind (fs_read_op f (private_fs desc) (private_fs_descriptor desc) sz nmemb ptr (drivers v)) (\<lambda>(res, ptr', w).
             Inr (res, ptr', v\<lparr>drivers := w\<rparr>)))))"

definition fwrite :: "'w vfs \<Rightarrow> byte list \<Rightarrow> u32 \<Rightarrow> u32 \<Rightarrow> int \<Rightarrow> fault + (int \<times> 'w vfs)" where
  "fwrite v ptr sz nmemb fd =
     (if sz = 0 \<or> nmemb = 0 \<or> fd < 1 then Inr (- EINVARG, v)
      else cbind (file_get_descriptor v fd) (\<lambda>d. cbind (descriptor_fs d) (\<lambda>(desc, f).
           cbind (fs_write_op f (private_fs desc) (private_fs_descriptor desc) sz nmemb ptr (drivers v)) (\<lambda>(res, w).
             Inr (res, v\<lparr>drivers := w\<rparr>)))))"

text \<open>The \<open>int\<close> offset becomes unsigned.\<close>

definition fseek :: "'w vfs \<Rightarrow> int \<Rightarrow> int \<Rightarrow> u32 \<Rightarrow> fault + (int \<times> 'w vfs)" where
  "fseek v fd offset whence =
     cbind (file_get_descriptor v fd) (\<lambda>d. if Option.is_none d then Inr (- EIO, v)
       else cbind (descriptor_fs d) (\<lambda>(desc, f).
         cbind (fs_seek_op f (private_fs_descriptor desc) (word_of_int offset) whence (drivers v)) (\<lambda>(res, w).
           Inr (res, v\<lparr>drivers := w\<rparr>))))"

text \<open>The status, and the result if one was written.\<close>

definition fstat :: "'w vfs \<Rightarrow> int \<Rightarrow> fault + (int \<times> file_stat option \<times> 'w vfs)" where
  "fstat v fd =
     cbind (file_get_descriptor v fd) (\<lambda>d. if Option.is_none d then Inr (- EIO, None, v)
       else cbind (descriptor_fs d) (\<lambda>(desc, f).
         cbind (fs_stat_op f (private_fs_descriptor desc) (drivers v)) (\<lambda>(res, st, w).
           Inr (res, Some st, v\<lparr>drivers := w\<rparr>))))"

definition fclose :: "'w vfs \<Rightarrow> int \<Rightarrow> fault + (int \<times> 'w vfs)" where
  "fclose v fd =
     cbind (file_get_descriptor v fd) (\<lambda>d. if Option.is_none d then Inr (- EIO, v)
       else cbind (descriptor_fs d) (\<lambda>(desc, f).
         cbind (fs_close_op f (private_fs_descriptor desc) (drivers v)) (\<lambda>(res, w).
         cbind (file_free_descriptor (v\<lparr>drivers := w\<rparr>) desc) (\<lambda>(_, v'). Inr (res, v')))))"

section \<open>What opening computes\<close>

definition vfs_wf :: "'w vfs \<Rightarrow> bool" where
  "vfs_wf v = (length (filesystems v) = 12 \<and> length (file_descriptors v) = 1024 \<and> length (mounted_files v) = 16384
     \<and> (\<forall>i<1024. \<forall>d. file_descriptors v ! i = Some d \<longrightarrow> index d = int i + 1 \<and> fd_filesystem d \<noteq> None)
     \<and> (\<forall>m. Some m \<in> set (mounted_files v) \<longrightarrow> has_nul (mf_filename m)))"

text \<open>The first mounted file of a name.\<close>

fun mount_named :: "byte list \<Rightarrow> 'w mounted_file option list \<Rightarrow> 'w mounted_file option" where
  "mount_named name [] = None"
| "mount_named name (None # ms) = mount_named name ms"
| "mount_named name (Some m # ms) = (if cstr (mf_filename m) = name then Some m else mount_named name ms)"

lemma find_mounted_spec:
  assumes "has_nul path" and "\<forall>m. Some m \<in> set ms \<longrightarrow> has_nul (mf_filename m)"
  shows "find_mounted path ms = Inr (mount_named (cstr path) ms)"
  using assms
proof (induction "cstr path" ms rule: mount_named.induct)
  case (3 m ms)
  have h: "has_nul (mf_filename m)" using "3.prems" by simp
  from strcmp_spec [OF "3.prems"(1) h] obtain c where c: "strcmp path (mf_filename m) = Inr c"
    "c = 0 \<longleftrightarrow> take (length (cstr path)) (cstr (mf_filename m)) = cstr path" .
  have "length (cstr path) = length (cstr (mf_filename m)) \<and> c = 0 \<longleftrightarrow> cstr (mf_filename m) = cstr path"
    using c(2) by auto
  then show ?case using 3 h c(1) by (auto simp: strlen_spec)
qed simp_all

lemma reconstruct_spec:
  assumes "\<forall>p\<in>set parts. has_nul p" and "parts \<noteq> []" and "d + length (join_slash (map cstr parts)) < length buf"
  shows "reconstruct buf d parts = Inr (blit buf d (join_slash (map cstr parts) @ [0]))"
  using assms
proof (induction buf d parts rule: reconstruct.induct)
  case (2 buf d part parts)
  have h: "has_nul part" using "2.prems" by simp
  show ?case
  proof (cases parts)
    case Nil
    then show ?thesis using "2.prems" h by (simp add: strcpy_spec strlen_spec)
  next
    case (Cons q qs)
    let ?n = "length (cstr part)" and ?J = "join_slash (map cstr parts)"
    have l: "d + ?n + 1 + length ?J < length buf" using "2.prems"(3) Cons by simp
    then have c: "strcpy buf d part = Inr (blit buf d (cstr part @ [0]))" using h by (intro strcpy_spec) auto
    have "(blit buf d (cstr part @ [0]))[d + ?n := 47] = blit buf d (cstr part @ [47])"
      using l by (simp add: blit_def list_update_append)
    then have w: "wr (blit buf d (cstr part @ [0])) (d + ?n) 47 = Inr (blit buf d (cstr part @ [47]))"
      using l by simp
    have "reconstruct (blit buf d (cstr part @ [47])) (d + ?n + 1) parts
        = Inr (blit (blit buf d (cstr part @ [47])) (d + ?n + 1) (?J @ [0]))"
      by (rule "2.IH" [OF c, of ?n]) (use "2.prems" Cons w h l in \<open>simp_all add: strlen_spec\<close>)
    also have "blit (blit buf d (cstr part @ [47])) (d + ?n + 1) (?J @ [0]) = blit buf d ((cstr part @ [47]) @ (?J @ [0]))"
      using blit_append [of d "cstr part @ [47]" "?J @ [0]" buf] l by simp
    finally show ?thesis using c w h Cons by (simp add: strlen_spec)
  qed
qed simp

lemma join_slash_no_nul: "\<forall>p\<in>set ps. 0 \<notin> set p \<Longrightarrow> 0 \<notin> set (join_slash ps)"
  by (induction ps rule: join_slash.induct) auto

lemma reconstruct_name:
  assumes "\<forall>p\<in>set parts. has_nul p" and "length (join_slash (map cstr parts)) < MAX_PATH"
  shows "\<exists>rp. reconstruct (replicate MAX_PATH 0) 0 parts = Inr rp \<and> has_nul rp \<and> cstr rp = join_slash (map cstr parts)"
proof (cases "parts = []")
  case True
  have "(replicate MAX_PATH 0 :: byte list) = [] @ 0 # replicate 1023 0" by (simp add: MAX_PATH_def numeral_eq_Suc)
  then show ?thesis using True cstr_append_nul [of "[]"] has_nul_append_nul [of "[]"] by auto
next
  case False
  let ?J = "join_slash (map cstr parts)"
  have "blit (replicate MAX_PATH 0) 0 (?J @ [0]) = ?J @ 0 # drop (length ?J + 1) (replicate MAX_PATH 0)"
    by (simp add: blit_def)
  moreover have "0 \<notin> set ?J" by (rule join_slash_no_nul) (auto simp: cstr_no_nul)
  ultimately show ?thesis
    using reconstruct_spec [OF assms(1) False, of 0 "replicate MAX_PATH 0"] assms(2) cstr_append_nul has_nul_append_nul
    by auto
qed

lemma mounted_slots_wf: "vfs_wf v \<Longrightarrow> mounted_slots v = Inr (mounted_files v)"
  by (simp add: vfs_wf_def mounted_slots_def)

text \<open>One prefix.\<close>

lemma fopen_prefix:
  assumes wf: "vfs_wf v" and parts: "\<forall>p\<in>set parts. has_nul p" and len: "length (join_slash (map cstr parts)) < MAX_PATH"
  shows "\<exists>rp. reconstruct (replicate MAX_PATH 0) 0 (take i parts) = Inr rp
    \<and> cbind (mounted_slots v) (find_mounted rp) = Inr (mount_named (join_slash (take i (map cstr parts))) (mounted_files v))"
proof -
  have "\<forall>p\<in>set (take i parts). has_nul p" using parts by (auto dest: in_set_takeD)
  moreover have "length (join_slash (map cstr (take i parts))) < MAX_PATH"
    using length_join [of i "map cstr parts"] len by (simp add: take_map)
  ultimately obtain rp where rp: "reconstruct (replicate MAX_PATH 0) 0 (take i parts) = Inr rp" "has_nul rp"
    "cstr rp = join_slash (map cstr (take i parts))" using reconstruct_name by blast
  have "find_mounted rp (mounted_files v) = Inr (mount_named (cstr rp) (mounted_files v))"
    by (rule find_mounted_spec) (use rp wf in \<open>simp_all add: vfs_wf_def\<close>)
  then show ?thesis using rp wf by (simp add: mounted_slots_wf take_map)
qed

text \<open>The mounted file of the longest prefix is tried.\<close>

lemma fopen_loop_longest:
  assumes wf: "vfs_wf v" and parts: "\<forall>p\<in>set parts. has_nul p" and len: "length (join_slash (map cstr parts)) < MAX_PATH"
    and m: "mount_named (join_slash (take j (map cstr parts))) (mounted_files v) = Some m"
    and longest: "\<And>i. j < i \<Longrightarrow> i \<le> k \<Longrightarrow> mount_named (join_slash (take i (map cstr parts))) (mounted_files v) = None"
    and "j \<le> k"
  shows "fopen_loop v parts fmode k = open_mounted v m parts fmode j"
proof -
  note r = fopen_prefix [OF wf parts len]
  show ?thesis
    using \<open>j \<le> k\<close> longest
  proof (induction k)
    case 0
    then show ?case using r [of 0] m by auto
  next
    case (Suc k)
  show ?case
  proof (cases "j = Suc k")
    case True
    then show ?thesis using r [of "Suc k"] m by auto
  next
    case False
    then have "mount_named (join_slash (take (Suc k) (map cstr parts))) (mounted_files v) = None"
      using Suc.prems by simp
    moreover have "fopen_loop v parts fmode k = open_mounted v m parts fmode j"
      using False Suc by simp
    ultimately show ?thesis using r [of "Suc k"] by auto
  qed
qed
qed

definition mode_of :: "byte list \<Rightarrow> u32" where
  "mode_of str = (if str ! 0 = 114 then FILE_MODE_READ else if str ! 0 = 119 then FILE_MODE_WRITE
     else if str ! 0 = 97 then FILE_MODE_APPEND else FILE_MODE_INVALID)"

lemma mode_by_string_spec: "str \<noteq> [] \<Longrightarrow> file_get_mode_by_string str = Inr (mode_of str)"
proof -
  assume "str \<noteq> []"
  then have r: "\<exists>r. strncmp str [c, 0] 1 = Inr r \<and> (r = 0 \<longleftrightarrow> str ! 0 = c)" for c
    by (cases "str ! 0 = c") (auto simp: strncmp_def word_uint_eq_iff)
  show ?thesis
    using r [of 114] r [of 119] r [of 97] by (auto simp: file_get_mode_by_string_def mode_of_def)
qed

text \<open>The state after a file was opened in slot \<open>i\<close>.\<close>

definition opened :: "'w vfs \<Rightarrow> nat \<Rightarrow> 'w mounted_file \<Rightarrow> u32 \<Rightarrow> 'w \<Rightarrow> 'w vfs" where
  "opened v i m d w = v\<lparr>k_live := k_live v + 1,
     file_descriptors := (file_descriptors v)[i := Some \<lparr>index = int i + 1, fd_filesystem = Some (mf_fs m),
       private_fs_descriptor = d, private_fs = mf_data m\<rparr>],
     drivers := w\<rparr>"

lemma open_mounted_ok:
  assumes "k_allocs v = []" and "first_free (file_descriptors v) = Some i" and "d \<noteq> 0"
    and "fs_open_op (mf_fs m) (mf_data m) (if k < length parts then Live (drop k parts) else Dangling) fmode (drivers v) = Inr (d, w)"
  shows "open_mounted v m parts fmode k = Inr (int i + 1, opened v i m d w)"
proof -
  have "i < length (file_descriptors v)" using assms(2) by (simp add: first_free_Some)
  then show ?thesis
    using assms by (simp add: open_mounted_def file_new_descriptor_def obj_alloc_def opened_def ALL_OK_def)
qed

lemma opened_wf: "vfs_wf v \<Longrightarrow> i < 1024 \<Longrightarrow> vfs_wf (opened v i m d w)"
  by (simp add: vfs_wf_def opened_def nth_list_update)

text \<open>Opening a valid path comes down to the loop over its prefixes.\<close>

lemma fopen_eq:
  assumes "k_allocs v = []" and "has_nul name" and "take 3 (cstr name) = [48, 58, 47]" and "length (cstr name) < MAX_PATH"
    and "mode \<noteq> []"
  shows "fopen v name mode = (if mode_of mode = FILE_MODE_INVALID
      then Inr (- EINVARG, v\<lparr>k_live := k_live v + 2 * int (length (split_slash (cstr name)))\<rparr>)
      else cbind (fopen_loop (v\<lparr>k_live := k_live v + 2 * int (length (split_slash (cstr name))) + 2\<rparr>)
            (map part_of (split_slash (cstr name))) (mode_of mode) (length (split_slash (cstr name))))
        (\<lambda>(result, v'). Inr (result, v'\<lparr>k_live := k_live v' - 2 - 2 * int (length (split_slash (cstr name)))\<rparr>)))"
proof -
  let ?ps = "split_slash (cstr name)"
  have l: "\<forall>x\<in>set ?ps. length x \<le> MAX_PATH" using split_length [of _ "cstr name"] assms(4) by fastforce
  obtain cs where "cstr name = 48 # 58 # 47 # cs"
    using assms(3) by (cases "cstr name"; cases "tl (cstr name)"; cases "tl (tl (cstr name))") auto
  then have n: "2 \<le> length ?ps" by (cases "split_slash cs") (auto split: list.splits simp: Suc_le_eq)
  have "part_of p \<noteq> []" for p by (simp add: part_of_def MAX_PATH_def)
  then have f: "[] \<notin> set (map part_of ?ps)" by (metis imageE set_map)
  show ?thesis
    using Path_parse_spec [OF assms(2,1,3) l] n f assms(1) mode_by_string_spec [OF assms(5)]
    by (auto simp: fopen_def pathparser_parse_def obj_alloc_def obj_free_def pathparser_free_spec algebra_simps
        intro!: cbind_cong split: prod.split)
qed

lemma update_None_nth: "xs[k := None] ! i = Some d \<Longrightarrow> xs ! i = Some d"
  by (cases "i = k"; cases "i < length xs") (auto simp: list_update_beyond)

lemma open_mounted_fails:
  assumes "k_allocs v = []" and "fs_open_op (mf_fs m) (mf_data m) (if k < length parts then Live (drop k parts) else Dangling) fmode (drivers v) = Inr (d, w)"
    and "d = 0 \<or> first_free (file_descriptors v) = None"
  shows "open_mounted v m parts fmode k = Inl Assert_Failed"
  using assms by (cases "d = 0") (simp_all add: open_mounted_def file_new_descriptor_def ENOMEM_def)

lemma split_parts:
  assumes "length (cstr name) < MAX_PATH"
  shows "map cstr (map part_of (split_slash (cstr name))) = split_slash (cstr name)"
    and "\<forall>p\<in>set (map part_of (split_slash (cstr name))). has_nul p"
proof -
  have c: "cstr (part_of p) = p \<and> has_nul (part_of p)" if "p \<in> set (split_slash (cstr name))" for p
    by (rule part_of_cstr) (use that assms split_length [OF that] split_no_nul [OF that cstr_no_nul] in auto)
  then show "map cstr (map part_of (split_slash (cstr name))) = split_slash (cstr name)"
    by (simp add: map_idI)
  show "\<forall>p\<in>set (map part_of (split_slash (cstr name))). has_nul p" using c by auto
qed

lemma fopen_loop_none:
  assumes wf: "vfs_wf v" and parts: "\<forall>p\<in>set parts. has_nul p" and len: "length (join_slash (map cstr parts)) < MAX_PATH"
    and none: "\<And>i. i \<le> k \<Longrightarrow> mount_named (join_slash (take i (map cstr parts))) (mounted_files v) = None"
  shows "fopen_loop v parts fmode k = Inr (- EINVARG, v)"
  using none
proof (induction k)
  case 0
  then show ?case using fopen_prefix [OF wf parts len, of 0] by auto
next
  case (Suc k)
  then show ?case using fopen_prefix [OF wf parts len, of "Suc k"] by auto
qed

text \<open>The path of \<open>open\<close> through a mounted file that takes \<open>k\<close> components of the name.\<close>

definition rest_of_path :: "byte list \<Rightarrow> nat \<Rightarrow> byte list list ptr" where
  "rest_of_path name k = (if k < length (split_slash (cstr name))
     then Live (drop k (map part_of (split_slash (cstr name)))) else Dangling)"

lemma fopen_longest:
  assumes "vfs_wf v" and "k_allocs v = []" and "has_nul name" and "take 3 (cstr name) = [48, 58, 47]"
    and "length (cstr name) < MAX_PATH" and "mode \<noteq> []" and "mode_of mode \<noteq> FILE_MODE_INVALID"
    and "j \<le> length (split_slash (cstr name))"
    and "mount_named (join_slash (take j (split_slash (cstr name)))) (mounted_files v) = Some m"
    and "\<forall>i. j < i \<and> i \<le> length (split_slash (cstr name)) \<longrightarrow>
      mount_named (join_slash (take i (split_slash (cstr name)))) (mounted_files v) = None"
    and "fs_open_op (mf_fs m) (mf_data m) (rest_of_path name j) (mode_of mode) (drivers v) = Inr (d, w)"
  shows "case first_free (file_descriptors v) of
      Some i \<Rightarrow> if d \<noteq> 0 then fopen v name mode = Inr (int i + 1, opened v i m d w) \<and> vfs_wf (opened v i m d w)
        else fopen v name mode = Inl Assert_Failed
    | None \<Rightarrow> fopen v name mode = Inl Assert_Failed"
proof -
  let ?ps = "split_slash (cstr name)"
  let ?v = "v\<lparr>k_live := k_live v + 2 * int (length ?ps) + 2\<rparr>"
  have wf: "vfs_wf ?v" using assms(1) by (simp add: vfs_wf_def)
  have f: "fopen_loop ?v (map part_of ?ps) (mode_of mode) (length ?ps) = open_mounted ?v m (map part_of ?ps) (mode_of mode) j"
    by (rule fopen_loop_longest [OF wf split_parts(2) [OF assms(5)]])
      (use assms split_parts(1) [OF assms(5)] in \<open>simp_all add: join_split del: map_map\<close>)
  have op: "fs_open_op (mf_fs m) (mf_data m) (if j < length (map part_of ?ps) then Live (drop j (map part_of ?ps)) else Dangling)
      (mode_of mode) (drivers ?v) = Inr (d, w)"
    using assms(11) by (simp add: rest_of_path_def)
  have al: "k_allocs ?v = []" using assms(2) by simp
  note eq = fopen_eq [OF assms(2-6)]
  show ?thesis
  proof (cases "first_free (file_descriptors v)")
    case None
    then show ?thesis using open_mounted_fails [OF al op] f assms(7) by (simp add: eq)
  next
    case (Some i)
    have "open_mounted ?v m (map part_of ?ps) (mode_of mode) j = Inr (int i + 1, opened ?v i m d w)" if "d \<noteq> 0"
      by (rule open_mounted_ok [OF al _ that op]) (use Some in simp)
    moreover have "i < 1024" using Some assms(1) by (simp add: first_free_Some vfs_wf_def)
    ultimately show ?thesis
      using Some f assms(7) opened_wf [OF assms(1), of i m d w] open_mounted_fails [OF al op]
      by (cases "d = 0") (simp_all add: eq opened_def)
  qed
qed

section \<open>Properties\<close>

text \<open>C26: \<open>fopen\<close> of a valid path opens the rest of the path through the mounted file whose name is the longest prefix
  of the path, whole components compared, and the first such file in the table.  It returns the number of the
  first free descriptor and stores there what the driver returned; nothing else changes and nothing else stays
  allocated.  If the driver finds no file, or no descriptor is free, it panics.\<close>

theorem fopen_longest_mount:
  assumes "vfs_wf v" and "k_allocs v = []" and "has_nul name" and "take 3 (cstr name) = [48, 58, 47]"
    and "length (cstr name) < MAX_PATH" and "mode \<noteq> []" and "mode_of mode \<noteq> FILE_MODE_INVALID"
    and "j \<le> length (split_slash (cstr name))"
    and "mount_named (join_slash (take j (split_slash (cstr name)))) (mounted_files v) = Some m"
    and "\<forall>i. j < i \<and> i \<le> length (split_slash (cstr name)) \<longrightarrow>
      mount_named (join_slash (take i (split_slash (cstr name)))) (mounted_files v) = None"
    and "fs_open_op (mf_fs m) (mf_data m) (rest_of_path name j) (mode_of mode) (drivers v) = Inr (d, w)"
  shows "case first_free (file_descriptors v) of
      Some i \<Rightarrow> if d \<noteq> 0 then fopen v name mode = Inr (int i + 1, opened v i m d w) \<and> vfs_wf (opened v i m d w)
        else fopen v name mode = Inl Assert_Failed
    | None \<Rightarrow> fopen v name mode = Inl Assert_Failed"
  by (rule fopen_longest [OF assms])

text \<open>\<open>fclose\<close> of an open descriptor closes it through its driver, frees the slot and changes nothing else; from
  then on seeking, \<open>fstat\<close> and closing again report \<open>-EIO\<close>, while reading and writing dereference a null
  pointer.\<close>

theorem fclose_frees_descriptor:
  assumes "vfs_wf v" and "1 \<le> fd" and "fd < 1024" and "file_descriptors v ! nat (fd - 1) = Some desc"
    and "fd_filesystem desc = Some f" and "fs_close_op f (private_fs_descriptor desc) (drivers v) = Inr (r, w)"
    and "sz \<noteq> 0" and "nmemb \<noteq> 0"
  shows "\<exists>v'. fclose v fd = Inr (r, v') \<and> vfs_wf v'
    \<and> v' = v\<lparr>drivers := w, k_live := k_live v - 1, file_descriptors := (file_descriptors v)[nat (fd - 1) := None]\<rparr>
    \<and> fseek v' fd off whence = Inr (- EIO, v') \<and> fstat v' fd = Inr (- EIO, None, v') \<and> fclose v' fd = Inr (- EIO, v')
    \<and> fread v' buf sz nmemb fd = Inl Null_Deref \<and> fwrite v' buf sz nmemb fd = Inl Null_Deref"
proof -
  let ?i = "nat (fd - 1)"
  let ?v = "v\<lparr>drivers := w, k_live := k_live v - 1, file_descriptors := (file_descriptors v)[?i := None]\<rparr>"
  have i: "?i < 1024" "\<not> fd \<le> 0" "\<not> 1024 \<le> fd" "?i < length (file_descriptors v)"
    using assms(1-3) by (auto simp: vfs_wf_def)
  have "index desc = int ?i + 1" using assms(1,4) i(1) by (auto simp: vfs_wf_def)
  then have ix: "nat (index desc - 1) = ?i" by simp
  have "fclose v fd = Inr (r, ?v)"
    using i assms(4-6) ix by (simp add: fclose_def file_get_descriptor_def descriptor_fs_def file_free_descriptor_def obj_free_def)
  moreover have "vfs_wf ?v" using assms(1) by (auto simp: vfs_wf_def dest!: update_None_nth)
  moreover have "file_get_descriptor ?v fd = Inr None" using i by (simp add: file_get_descriptor_def)
  ultimately show ?thesis
    using assms(2,7,8) by (simp add: fclose_def fseek_def fstat_def fread_def fwrite_def descriptor_fs_def)
qed

text \<open>The last of the 1024 descriptors is handed out when the others are taken, but no operation accepts it:
  reading and writing dereference a null pointer, and closing fails, so the slot is never free again.\<close>

theorem descriptor_1024_unusable:
  assumes "vfs_wf v" and "k_allocs v = []" and "\<forall>i<1023. file_descriptors v ! i \<noteq> None" and "file_descriptors v ! 1023 = None"
    and "sz \<noteq> 0" and "nmemb \<noteq> 0"
  shows "\<exists>v'. file_new_descriptor v = Inr (ALL_OK, 1023, v') \<and> map_option index (file_descriptors v' ! 1023) = Some 1024
    \<and> fclose u 1024 = Inr (- EIO, u) \<and> fseek u 1024 off whence = Inr (- EIO, u)
    \<and> fread u buf sz nmemb 1024 = Inl Null_Deref \<and> fwrite u buf sz nmemb 1024 = Inl Null_Deref"
proof -
  have "first_free (file_descriptors v) = Some 1023"
    using assms(1,3,4) by (simp add: first_free_Some vfs_wf_def)
  moreover have "1023 < length (file_descriptors v)" using assms(1) by (simp add: vfs_wf_def)
  ultimately show ?thesis
    using assms(2,5,6)
    by (simp add: file_new_descriptor_def obj_alloc_def fclose_def fseek_def fread_def fwrite_def
        file_get_descriptor_def descriptor_fs_def)
qed

text \<open>A file layer with the drive and a mouse mounted, for a driver that opens everything.\<close>

definition echo_driver :: "unit filesystem" where
  "echo_driver = \<lparr>fs_resolve_op = (\<lambda>d w. Inr (ALL_OK, d, w)), fs_open_op = (\<lambda>p path mode w. Inr (p + 1, w)),
     fs_read_op = (\<lambda>p d sz n out w. Inr (0, out, w)), fs_seek_op = (\<lambda>d off wh w. Inr (0, w)),
     fs_stat_op = (\<lambda>d w. Inr (0, \<lparr>flags = 0, st_filesize = 0\<rparr>, w)), fs_close_op = (\<lambda>d w. Inr (0, w)),
     fs_write_op = (\<lambda>p d sz n inp w. Inr (0, w))\<rparr>"

definition demo_mounts :: "unit mounted_file list" where
  "demo_mounts = [\<lparr>mf_filename = drive_name, mf_fs = echo_driver, mf_data = 20\<rparr>,
     \<lparr>mf_filename = [48, 58, 47, 109, 0], mf_fs = echo_driver, mf_data = 30\<rparr>]"

definition demo_vfs :: "unit file_descriptor option list \<Rightarrow> unit vfs" where
  "demo_vfs fds = \<lparr>k_allocs = [], k_live = 0, filesystems = replicate 12 None, file_descriptors = fds,
     mounted_files = map Some demo_mounts @ replicate 16382 None, drivers = ()\<rparr>"

lemma mount_named_append: "mount_named n (ms @ replicate k None) = mount_named n ms"
proof (induction n ms rule: mount_named.induct)
  case (1 n)
  have "mount_named n (replicate k None) = None" by (induction k) simp_all
  then show ?case by simp
qed simp_all

lemma demo_names: "cstr drive_name = [48, 58]" "has_nul drive_name"
    "cstr [48, 58, 47, 109, 0] = [48, 58, 47, 109]" "has_nul [48, 58, 47, 109, 0]"
  using cstr_append_nul [of "[48, 58]" "[]"] has_nul_append_nul [of "[48, 58]" "[]"]
    cstr_append_nul [of "[48, 58, 47, 109]" "[]"] has_nul_append_nul [of "[48, 58, 47, 109]" "[]"]
  by (simp_all add: drive_name_def)

lemma demo_vfs_simps: "k_allocs (demo_vfs fds) = []" "file_descriptors (demo_vfs fds) = fds"
    "mounted_files (demo_vfs fds) = map Some demo_mounts @ replicate 16382 None" "drivers (demo_vfs fds) = ()"
  by (simp_all add: demo_vfs_def)

lemma demo_vfs_wf: "vfs_wf (demo_vfs fds)"
  if "length fds = 1024" "\<forall>i<1024. \<forall>d. fds ! i = Some d \<longrightarrow> index d = int i + 1 \<and> fd_filesystem d \<noteq> None"
  using that by (auto simp: vfs_wf_def demo_vfs_def demo_mounts_def demo_names)

theorem fopen_longest_mount_witness:
  "fopen (demo_vfs (replicate 1024 None)) [48, 58, 47, 109, 0] [114, 0]
    = Inr (1, opened (demo_vfs (replicate 1024 None)) 0 (demo_mounts ! 1) 31 ())"
proof -
  have "first_free (replicate 1024 (None :: unit file_descriptor option)) = Some 0" by (subst first_free_Some) simp
  then show ?thesis
    using fopen_longest_mount [of "demo_vfs (replicate 1024 None)" "[48, 58, 47, 109, 0]" "[114, 0]" 2 "demo_mounts ! 1" 31 "()"]
      demo_vfs_wf [of "replicate 1024 None"]
    by (simp add: demo_vfs_simps demo_names mount_named_append demo_mounts_def MAX_PATH_def mode_of_def mode_defs
        echo_driver_def)
qed

theorem fclose_frees_descriptor_witness:
  "\<exists>v'. fclose (opened (demo_vfs (replicate 1024 None)) 0 (demo_mounts ! 1) 31 ()) 1 = Inr (0, v')
    \<and> fread v' [9] 1 1 1 = Inl Null_Deref"
  using fclose_frees_descriptor [of "opened (demo_vfs (replicate 1024 None)) 0 (demo_mounts ! 1) 31 ()" 1 _ echo_driver 0 "()" 1 1
      0 0 "[9]"] opened_wf [OF demo_vfs_wf [of "replicate 1024 None"], of 0 "demo_mounts ! 1" 31 "()"]
  by (auto simp: opened_def demo_vfs_def echo_driver_def demo_mounts_def)

definition full_table :: "unit file_descriptor option list" where
  "full_table = map (\<lambda>i. Some \<lparr>index = int i + 1, fd_filesystem = Some echo_driver, private_fs_descriptor = 1,
     private_fs = 0\<rparr>) [0..<1023] @ [None]"

lemma full_table_wf: "vfs_wf (demo_vfs full_table)"
  by (rule demo_vfs_wf) (auto simp: full_table_def nth_append less_Suc_eq)

theorem descriptor_1024_unusable_witness:
  "\<exists>v'. file_new_descriptor (demo_vfs full_table) = Inr (ALL_OK, 1023, v') \<and> fclose v' 1024 = Inr (- EIO, v')"
proof -
  have "\<forall>i<1023. full_table ! i \<noteq> None" "full_table ! 1023 = None" by (auto simp: full_table_def nth_append)
  then show ?thesis
    using descriptor_1024_unusable [OF full_table_wf, of 1 1] by (simp add: demo_vfs_simps) blast
qed

end
