(* ===== verification/UString.thy ===== *)
theory UString
  imports KPrintf
begin

text \<open>
  The string library of the user programs, \<^verbatim>\<open>src/src/userland/stdlib/string.c\<close>.  It is a second copy of
  the kernel's \<^verbatim>\<open>common/string.c\<close> and \<^verbatim>\<open>memory/memory.c\<close> that has drifted: sizes are unsigned, and the
  formatted output knows fewer conversions.  The functions carry the prefix \<open>u_\<close>; they are proved to agree
  with the kernel's wherever they do, so that the theorems of \<open>KString\<close> and \<open>KPrintf\<close> hold of them too.
\<close>

section \<open>Memory blocks\<close>

function u_memset_loop :: "byte list \<Rightarrow> nat \<Rightarrow> byte \<Rightarrow> nat \<Rightarrow> nat \<Rightarrow> fault + byte list" where
  "u_memset_loop buf p c n i =
     (if i < n then cbind (wr buf (p + i) c) (\<lambda>buf'. u_memset_loop buf' p c n (Suc i))
      else Inr buf)"
  by pat_completeness auto
termination
  by (relation "measure (\<lambda>(buf, p, c, n, i). n - i)") auto

definition u_memset :: "byte list \<Rightarrow> nat \<Rightarrow> int \<Rightarrow> nat \<Rightarrow> fault + byte list" where
  "u_memset buf p c n = u_memset_loop buf p (word_of_int c) n 0"

function u_memcpy_loop ::
  "byte list \<Rightarrow> nat \<Rightarrow> byte list \<Rightarrow> nat \<Rightarrow> nat \<Rightarrow> nat \<Rightarrow> fault + byte list" where
  "u_memcpy_loop dst d src s n i =
     (if i < n
      then cbind (rd src (s + i)) (\<lambda>c. cbind (wr dst (d + i) c)
             (\<lambda>dst'. u_memcpy_loop dst' d src s n (Suc i)))
      else Inr dst)"
  by pat_completeness auto
termination
  by (relation "measure (\<lambda>(dst, d, src, s, n, i). n - i)") auto

definition u_memcpy :: "byte list \<Rightarrow> nat \<Rightarrow> byte list \<Rightarrow> nat \<Rightarrow> nat \<Rightarrow> fault + byte list" where
  "u_memcpy dst d src s n = u_memcpy_loop dst d src s n 0"

fun u_memcmp_loop :: "byte list \<Rightarrow> byte list \<Rightarrow> nat \<Rightarrow> nat \<Rightarrow> fault + int" where
  "u_memcmp_loop c1 c2 i 0 = Inr 0"
| "u_memcmp_loop c1 c2 i (Suc len) =
     cbind (rd c1 i) (\<lambda>a. cbind (rd c2 i) (\<lambda>b.
       if a \<noteq> b then Inr (if a < b then -1 else 1) else u_memcmp_loop c1 c2 (Suc i) len))"

definition u_memcmp :: "byte list \<Rightarrow> byte list \<Rightarrow> nat \<Rightarrow> fault + int" where
  "u_memcmp ptr1 ptr2 len = u_memcmp_loop ptr1 ptr2 0 len"

section \<open>Strings\<close>

function u_strlen_loop :: "byte list \<Rightarrow> nat \<Rightarrow> fault + nat" where
  "u_strlen_loop str len =
     cbind (rd str len) (\<lambda>c. if c \<noteq> 0 then u_strlen_loop str (Suc len) else Inr len)"
  by pat_completeness auto
termination
  by (relation "measure (\<lambda>(str, len). length str - len)") (auto simp: rd_eq_Inr)

definition u_strlen :: "byte list \<Rightarrow> fault + nat" where
  "u_strlen str = u_strlen_loop str 0"

function u_strnlen_loop :: "byte list \<Rightarrow> nat \<Rightarrow> nat \<Rightarrow> fault + nat" where
  "u_strnlen_loop str max_len len =
     (if len < max_len
      then cbind (rd str len) (\<lambda>c. if c = 0 then Inr len else u_strnlen_loop str max_len (Suc len))
      else Inr max_len)"
  by pat_completeness auto
termination
  by (relation "measure (\<lambda>(str, max_len, len). max_len - len)") auto

definition u_strnlen :: "byte list \<Rightarrow> nat \<Rightarrow> fault + nat" where
  "u_strnlen str max_len = u_strnlen_loop str max_len 0"

function u_strnlen_terminator_loop :: "byte list \<Rightarrow> nat \<Rightarrow> byte \<Rightarrow> nat \<Rightarrow> fault + nat" where
  "u_strnlen_terminator_loop str m terminator i =
     (if i < m
      then cbind (rd str i) (\<lambda>c. if c = 0 \<or> c = terminator then Inr i
             else u_strnlen_terminator_loop str m terminator (Suc i))
      else Inr i)"
  by pat_completeness auto
termination
  by (relation "measure (\<lambda>(str, m, t, i). m - i)") auto

definition u_strnlen_terminator :: "byte list \<Rightarrow> nat \<Rightarrow> byte \<Rightarrow> fault + nat" where
  "u_strnlen_terminator str m terminator = u_strnlen_terminator_loop str m terminator 0"

function u_strrev_loop :: "byte list \<Rightarrow> nat \<Rightarrow> nat \<Rightarrow> fault + byte list" where
  "u_strrev_loop str i j =
     (if j < i
      then cbind (rd str i) (\<lambda>ch. cbind (rd str j) (\<lambda>c. cbind (wr str i c) (\<lambda>str1.
           cbind (wr str1 j ch) (\<lambda>str2. u_strrev_loop str2 (i - 1) (Suc j)))))
      else Inr str)"
  by pat_completeness auto
termination
  by (relation "measure (\<lambda>(str, i, j). i - j)") auto

definition u_strrev :: "byte list \<Rightarrow> fault + byte list" where
  "u_strrev str =
     cbind (rd str 0) (\<lambda>c. if c = 0 then Inr str
       else cbind (u_strlen str) (\<lambda>n. u_strrev_loop str (n - 1) 0))"

function u_strcpy_loop :: "byte list \<Rightarrow> nat \<Rightarrow> byte list \<Rightarrow> nat \<Rightarrow> fault + byte list" where
  "u_strcpy_loop dest d src k =
     cbind (rd src k) (\<lambda>c.
       if c \<noteq> 0 then cbind (wr dest (d + k) c) (\<lambda>dest'. u_strcpy_loop dest' d src (Suc k))
       else wr dest (d + k) 0)"
  by pat_completeness auto
termination
  by (relation "measure (\<lambda>(dest, d, src, k). length src - k)") (auto simp: rd_eq_Inr)

definition u_strcpy :: "byte list \<Rightarrow> nat \<Rightarrow> byte list \<Rightarrow> fault + byte list" where
  "u_strcpy dest d src = u_strcpy_loop dest d src 0"

text \<open>\<open>n\<close> is a \<open>size_t\<close>: the bound \<open>n - 1\<close> wraps to \<open>2 ^ 32 - 1\<close> for 0.\<close>

function u_strncpy_loop :: "byte list \<Rightarrow> nat \<Rightarrow> byte list \<Rightarrow> u32 \<Rightarrow> nat \<Rightarrow> fault + byte list" where
  "u_strncpy_loop dest d src n i =
     (if i < unat (n - 1)
      then cbind (rd src i) (\<lambda>c.
             if c = 0 then wr dest (d + i) 0
             else cbind (wr dest (d + i) c) (\<lambda>dest'. u_strncpy_loop dest' d src n (Suc i)))
      else wr dest (d + i) 0)"
  by pat_completeness auto
termination
  by (relation "measure (\<lambda>(dest, d, src, n, i). unat (n - 1) - i)") auto

definition u_strncpy :: "byte list \<Rightarrow> nat \<Rightarrow> byte list \<Rightarrow> u32 \<Rightarrow> fault + byte list" where
  "u_strncpy dest d src n = u_strncpy_loop dest d src n 0"

fun u_strncmp_loop :: "byte list \<Rightarrow> byte list \<Rightarrow> nat \<Rightarrow> nat \<Rightarrow> fault + int" where
  "u_strncmp_loop str1 str2 i 0 = Inr 0"
| "u_strncmp_loop str1 str2 i (Suc n) =
     cbind (rd str1 i) (\<lambda>u1. cbind (rd str2 i) (\<lambda>u2.
       if u1 \<noteq> u2 then Inr (uint u1 - uint u2)
       else if u1 = 0 then Inr 0
       else u_strncmp_loop str1 str2 (Suc i) n))"

definition u_strncmp :: "byte list \<Rightarrow> byte list \<Rightarrow> nat \<Rightarrow> fault + int" where
  "u_strncmp str1 str2 n = u_strncmp_loop str1 str2 0 n"

definition u_strcmp :: "byte list \<Rightarrow> byte list \<Rightarrow> fault + int" where
  "u_strcmp str1 str2 = cbind (u_strlen str1) (\<lambda>n. u_strncmp str1 str2 n)"

definition u_tolower :: "byte \<Rightarrow> byte" where
  "u_tolower c = (if 65 \<le> sint c \<and> sint c \<le> 90 then c + 32 else c)"

fun u_istrncmp_loop :: "byte list \<Rightarrow> byte list \<Rightarrow> nat \<Rightarrow> nat \<Rightarrow> fault + int" where
  "u_istrncmp_loop str1 str2 i 0 = Inr 0"
| "u_istrncmp_loop str1 str2 i (Suc n) =
     cbind (rd str1 i) (\<lambda>u1. cbind (rd str2 i) (\<lambda>u2.
       if u1 \<noteq> u2 \<and> u_tolower u1 \<noteq> u_tolower u2 then Inr (uint u1 - uint u2)
       else if u1 = 0 then Inr 0
       else u_istrncmp_loop str1 str2 (Suc i) n))"

definition u_istrncmp :: "byte list \<Rightarrow> byte list \<Rightarrow> nat \<Rightarrow> fault + int" where
  "u_istrncmp str1 str2 n = u_istrncmp_loop str1 str2 0 n"

definition u_is_digit :: "byte \<Rightarrow> bool" where
  "u_is_digit c = (48 \<le> sint c \<and> sint c \<le> 57)"

definition u_to_numeric_digit :: "byte \<Rightarrow> int" where
  "u_to_numeric_digit c = sint c - 48"

section \<open>Numbers to strings\<close>

definition u_digit_char :: "int \<Rightarrow> byte" where
  "u_digit_char r = word_of_int (if 9 < r then r - 10 + 97 else r + 48)"

function u_itoa_loop :: "byte list \<Rightarrow> nat \<Rightarrow> int \<Rightarrow> int \<Rightarrow> fault + (byte list \<times> nat)" where
  "u_itoa_loop str idx num base =
     (if num \<noteq> 0
      then if base = 0 then Inl Div_By_Zero
           else if num = - (2 ^ 31) \<and> base = - 1 then Inl Overflow
           else cbind (wr str idx (u_digit_char (num smod base)))
                  (\<lambda>str'. u_itoa_loop str' (Suc idx) (num sdiv base) base)
      else Inr (str, idx))"
  by pat_completeness auto
termination
  by (relation "measure (\<lambda>(str, idx, num, base). length str - idx)") (auto simp: wr_eq_Inr)

definition u_itoa :: "int \<Rightarrow> byte list \<Rightarrow> int \<Rightarrow> fault + byte list" where
  "u_itoa num str base =
     (if num = 0 then cbind (wr str 0 48) (\<lambda>str'. wr str' 1 0)
      else let negative = (num < 0 \<and> base = 10) in
        cbind (if negative then if num = - (2 ^ 31) then Inl Overflow else Inr (- num) else Inr num)
          (\<lambda>num'. cbind (u_itoa_loop str 0 num' base) (\<lambda>(str1, idx).
           cbind (if negative then cbind (wr str1 idx 45) (\<lambda>s. Inr (s, Suc idx))
                  else Inr (str1, idx)) (\<lambda>(str2, idx2).
           cbind (wr str2 idx2 0) u_strrev))))"

function u_uitoa_loop :: "byte list \<Rightarrow> nat \<Rightarrow> u32 \<Rightarrow> int \<Rightarrow> fault + (byte list \<times> nat)" where
  "u_uitoa_loop str idx num base =
     (if num \<noteq> 0
      then if word_of_int base = (0 :: u32) then Inl Div_By_Zero
           else cbind (wr str idx (u_digit_char (sint (num mod word_of_int base))))
                  (\<lambda>str'. u_uitoa_loop str' (Suc idx) (num div word_of_int base) base)
      else Inr (str, idx))"
  by pat_completeness auto
termination
  by (relation "measure (\<lambda>(str, idx, num, base). length str - idx)") (auto simp: wr_eq_Inr)

definition u_uitoa :: "u32 \<Rightarrow> byte list \<Rightarrow> int \<Rightarrow> fault + byte list" where
  "u_uitoa num str base =
     (if num = 0 then cbind (wr str 0 48) (\<lambda>str'. wr str' 1 0)
      else cbind (u_uitoa_loop str 0 num base) (\<lambda>(str1, idx). cbind (wr str1 idx 0) u_strrev))"

section \<open>Formatted output\<close>

text \<open>The state of a call is that of the kernel's \<open>kvsprintf\<close>.  There is no \<open>%u\<close> and no \<open>%ll\<close>; after
  \<open>%l\<close> only \<open>d\<close>, \<open>i\<close>, \<open>x\<close> and \<open>b\<close> convert.\<close>

definition u_put_number :: "(byte list \<Rightarrow> fault + byte list) \<Rightarrow> kv \<Rightarrow> fault + kv" where
  "u_put_number convert st =
     cbind (u_memset (internal_buffer st) 0 0 512) (\<lambda>ib.
     cbind (convert ib) (\<lambda>ib'.
     cbind (u_strlen ib') (\<lambda>sz.
     cbind (u_memcpy (out st) (pos st) ib' 0 sz) (\<lambda>o'.
     Inr (st\<lparr>out := o', pos := pos st + sz, internal_buffer := ib'\<rparr>)))))"

definition u_put_string :: "(u32 \<Rightarrow> byte list) \<Rightarrow> kv \<Rightarrow> fault + kv" where
  "u_put_string strs st = cbind (va_arg32 st) (\<lambda>(s, st').
     cbind (u_strlen (strs s)) (\<lambda>sz.
     cbind (u_memcpy (out st') (pos st') (strs s) 0 sz) (\<lambda>o'.
     Inr (st'\<lparr>out := o', pos := pos st' + sz\<rparr>))))"

definition u_conv_long :: "byte \<Rightarrow> kv \<Rightarrow> fault + kv" where
  "u_conv_long c st =
     (if c = 105 \<or> c = 100 then cbind (va_arg32 st) (\<lambda>(a, st'). u_put_number (\<lambda>b. u_itoa (sint a) b 10) st')
      else if c = 120 then cbind (va_arg32 st) (\<lambda>(a, st'). u_put_number (\<lambda>b. u_uitoa a b 16) st')
      else if c = 98 then cbind (va_arg32 st) (\<lambda>(a, st'). u_put_number (\<lambda>b. u_uitoa a b 2) st')
      else Inr st)"

definition u_conv :: "byte \<Rightarrow> kv \<Rightarrow> fault + kv" where
  "u_conv c st =
     (if c = 112 then cbind (va_arg32 st) (\<lambda>(a, st'). u_put_number (\<lambda>b. u_uitoa a b 16) st')
      else if c = 120 then cbind (va_arg32 st) (\<lambda>(a, st'). u_put_number (\<lambda>b. u_uitoa a b 16) st')
      else if c = 105 \<or> c = 100 then cbind (va_arg32 st) (\<lambda>(a, st'). u_put_number (\<lambda>b. u_itoa (sint a) b 10) st')
      else if c = 98 then cbind (va_arg32 st) (\<lambda>(a, st'). u_put_number (\<lambda>b. u_uitoa a b 2) st')
      else Inr st)"

definition u_directive :: "(u32 \<Rightarrow> byte list) \<Rightarrow> byte list \<Rightarrow> nat \<Rightarrow> kv \<Rightarrow> fault + (nat \<times> kv)" where
  "u_directive strs fmt f st =
     cbind (rd fmt f) (\<lambda>c.
       if c = 37 then cbind (put_char 37 st) (\<lambda>st'. Inr (f + 1, st'))
       else if c = 99
       then cbind (va_arg32 st) (\<lambda>(a, st'). cbind (put_char (ucast a) st') (\<lambda>st''. Inr (f + 1, st'')))
       else if c = 115 then cbind (u_put_string strs st) (\<lambda>st'. Inr (f + 1, st'))
       else if c = 108
       then cbind (rd fmt (f + 1)) (\<lambda>c1. cbind (u_conv_long c1 st) (\<lambda>st'. Inr (f + 2, st')))
       else cbind (u_conv c st) (\<lambda>st'. Inr (f + 1, st')))"

lemma u_directive_advances: "u_directive strs fmt f st = Inr (g, st') \<Longrightarrow> f < length fmt \<and> f < g"
  by (auto simp: u_directive_def cbind_eq_Inr rd_eq_Inr split: if_splits)

function u_vsprintf_loop :: "(u32 \<Rightarrow> byte list) \<Rightarrow> byte list \<Rightarrow> nat \<Rightarrow> kv \<Rightarrow> fault + kv" where
  "u_vsprintf_loop strs fmt f st =
     cbind (rd fmt f) (\<lambda>c.
       if c = 0 then Inr st
       else if c \<noteq> 37 then cbind (put_char c st) (\<lambda>st'. u_vsprintf_loop strs fmt (f + 1) st')
       else cbind (u_directive strs fmt (f + 1) st) (\<lambda>(g, st'). u_vsprintf_loop strs fmt g st'))"
  by pat_completeness auto
termination
  by (relation "measure (\<lambda>(strs, fmt, f, st). length fmt - f)")
    (auto simp: rd_eq_Inr dest!: u_directive_advances)

definition u_vsprintf :: "(u32 \<Rightarrow> byte list) \<Rightarrow> byte list \<Rightarrow> nat \<Rightarrow> byte list \<Rightarrow> byte list \<Rightarrow> u32 list
    \<Rightarrow> fault + byte list" where
  "u_vsprintf strs buf p stack fmt as =
     cbind (u_vsprintf_loop strs fmt 0 \<lparr>out = buf, pos = p, internal_buffer = stack, args = as\<rparr>)
       (\<lambda>st. Inr (out st))"

definition u_sprintf :: "(u32 \<Rightarrow> byte list) \<Rightarrow> byte list \<Rightarrow> nat \<Rightarrow> byte list \<Rightarrow> byte list \<Rightarrow> u32 list
    \<Rightarrow> fault + byte list" where
  "u_sprintf strs buf p stack fmt as = u_vsprintf strs buf p stack fmt as"

declare u_memset_loop.simps [simp del] u_memcpy_loop.simps [simp del] u_strlen_loop.simps [simp del]
  u_strnlen_loop.simps [simp del] u_strnlen_terminator_loop.simps [simp del] u_strrev_loop.simps [simp del]
  u_strcpy_loop.simps [simp del] u_strncpy_loop.simps [simp del] u_itoa_loop.simps [simp del]
  u_uitoa_loop.simps [simp del] u_vsprintf_loop.simps [simp del]

section \<open>Agreement with the kernel's library\<close>

lemma u_memset_loop_eq: "u_memset_loop buf p c n i = memset_loop buf p c n i"
proof (induction buf p c n i rule: u_memset_loop.induct)
  case (1 buf p c n i)
  then show ?case
    by (subst u_memset_loop.simps, subst memset_loop.simps) (auto intro!: cbind_cong)
qed

lemma u_memcpy_loop_eq: "u_memcpy_loop dst d src s n i = memcpy_loop dst d src s n i"
proof (induction dst d src s n i rule: u_memcpy_loop.induct)
  case (1 dst d src s n i)
  then show ?case
    by (subst u_memcpy_loop.simps, subst memcpy_loop.simps) (auto intro!: cbind_cong)
qed

lemma u_memcmp_loop_eq: "u_memcmp_loop c1 c2 i n = memcmp_loop c1 c2 i n"
  by (induction c1 c2 i n rule: u_memcmp_loop.induct) (auto intro!: cbind_cong)

lemma u_strlen_loop_eq: "u_strlen_loop str n = strlen_loop str n"
proof (induction str n rule: u_strlen_loop.induct)
  case (1 str n)
  then show ?case
    by (subst u_strlen_loop.simps, subst strlen_loop.simps) (auto intro!: cbind_cong)
qed

lemma u_strnlen_loop_eq: "u_strnlen_loop str m n = strnlen_loop str m n"
proof (induction str m n rule: u_strnlen_loop.induct)
  case (1 str m n)
  then show ?case
    by (subst u_strnlen_loop.simps, subst strnlen_loop.simps) (auto intro!: cbind_cong)
qed

lemma u_strnlen_terminator_loop_eq:
  "u_strnlen_terminator_loop str m t i = strnlen_terminator_loop str m t i"
proof (induction str m t i rule: u_strnlen_terminator_loop.induct)
  case (1 str m t i)
  then show ?case
    by (subst u_strnlen_terminator_loop.simps, subst strnlen_terminator_loop.simps)
      (auto intro!: cbind_cong)
qed

lemma u_strrev_loop_eq: "u_strrev_loop str i j = strrev_loop str i j"
proof (induction str i j rule: u_strrev_loop.induct)
  case (1 str i j)
  then show ?case
    by (subst u_strrev_loop.simps, subst strrev_loop.simps) (auto intro!: cbind_cong)
qed

lemma u_strcpy_loop_eq: "u_strcpy_loop dest d src k = strcpy_loop dest d src k"
proof (induction dest d src k rule: u_strcpy_loop.induct)
  case (1 dest d src k)
  then show ?case
    by (subst u_strcpy_loop.simps, subst strcpy_loop.simps) (auto intro!: cbind_cong)
qed

lemma u_strncmp_loop_eq: "u_strncmp_loop s t i n = strncmp_loop s t i n"
  by (induction s t i n rule: u_strncmp_loop.induct) (auto intro!: cbind_cong)

lemma u_tolower_eq: "u_tolower = tolower"
  by (rule ext) (simp add: u_tolower_def tolower_def)

lemma u_istrncmp_loop_eq: "u_istrncmp_loop s t i n = istrncmp_loop s t i n"
  by (induction s t i n rule: u_istrncmp_loop.induct) (auto simp: u_tolower_eq intro!: cbind_cong)

lemma u_digit_char_eq: "u_digit_char = digit_char"
  by (rule ext) (simp add: u_digit_char_def digit_char_def)

lemma u_itoa_loop_eq: "u_itoa_loop str idx num base = itoa_loop str idx num base"
proof (induction str idx num base rule: u_itoa_loop.induct)
  case (1 str idx num base)
  then show ?case
    by (subst u_itoa_loop.simps, subst itoa_loop.simps) (auto simp: u_digit_char_eq intro!: cbind_cong)
qed

lemma u_uitoa_loop_eq: "u_uitoa_loop str idx num base = uitoa_loop str idx num base"
proof (induction str idx num base rule: u_uitoa_loop.induct)
  case (1 str idx num base)
  then show ?case
    by (subst u_uitoa_loop.simps, subst uitoa_loop.simps) (auto simp: u_digit_char_eq intro!: cbind_cong)
qed

lemma u_strlen_eq: "u_strlen = strlen"
  by (rule ext) (simp add: u_strlen_def strlen_def u_strlen_loop_eq)

lemma u_strrev_eq: "u_strrev = strrev"
  by (rule ext) (auto simp: u_strrev_def strrev_def u_strlen_eq u_strrev_loop_eq intro!: cbind_cong)

lemma u_memset_eq: "u_memset = memset"
  by (intro ext) (simp add: u_memset_def memset_def u_memset_loop_eq)

lemma u_memcpy_eq: "u_memcpy = memcpy"
  by (intro ext) (simp add: u_memcpy_def memcpy_def u_memcpy_loop_eq)

lemma u_itoa_eq: "u_itoa = itoa"
  by (intro ext) (simp add: u_itoa_def itoa_def u_itoa_loop_eq u_strrev_eq)

lemma u_uitoa_eq: "u_uitoa = uitoa"
  by (intro ext) (simp add: u_uitoa_def uitoa_def u_uitoa_loop_eq u_strrev_eq)

lemma u_strncpy_loop_pos:
  "0 < unat n \<Longrightarrow> u_strncpy_loop dest d src n i = strncpy_loop dest d src (int (unat n)) i"
proof (induction dest d src n i rule: u_strncpy_loop.induct)
  case (1 dest d src n i)
  then have "n \<noteq> 0" by auto
  then have "unat (n - 1) = unat n - 1" by (simp add: unat_minus_one)
  then have "i < unat (n - 1) \<longleftrightarrow> int i < int (unat n) - 1" using 1 by linarith
  then show ?case
    using 1 by (subst u_strncpy_loop.simps, subst strncpy_loop.simps) (auto intro!: cbind_cong)
qed

lemma u_strncpy_loop_0:
  assumes "length src < 2 ^ 32 - 1" and "i \<le> length src"
  shows "u_strncpy_loop dest d src 0 i = strcpy_loop dest d src i"
  using assms
proof (induction dest d src i rule: strcpy_loop.induct)
  case (1 dest d src k)
  have "unat (0 - 1 :: u32) = 2 ^ 32 - 1" by (simp add: unsigned_minus_1_eq_mask mask_eq_exp_minus_1)
  then have "k < unat (0 - 1 :: u32)" using 1 by simp
  then show ?case
    using 1 by (subst u_strncpy_loop.simps, subst strcpy_loop.simps) (auto simp: rd_eq_Inr intro!: cbind_cong)
qed

text \<open>What a format must not hold for both libraries to agree: \<open>%u\<close>, \<open>%lu\<close>, \<open>%lp\<close>, \<open>%ll\<close>, or an end
  inside of a directive.\<close>

fun shared_format :: "byte list \<Rightarrow> bool" where
  "shared_format [] = True"
| "shared_format (c # cs) =
     (if c \<noteq> 37 then shared_format cs
      else case cs of [] \<Rightarrow> False
        | d # ds \<Rightarrow> if d = 108 then (case ds of [] \<Rightarrow> False
            | e # es \<Rightarrow> e \<notin> {108, 112, 117} \<and> shared_format es)
          else d \<noteq> 117 \<and> shared_format ds)"

lemma u_put_eq: "u_put_number = put_number" "u_put_string = put_string"
  by (intro ext, simp add: u_put_number_def put_number_def u_memset_eq u_memcpy_eq u_strlen_eq)
    (intro ext, simp add: u_put_string_def put_string_def u_memcpy_eq u_strlen_eq)

lemma u_conv_eq:
  "d \<noteq> 117 \<Longrightarrow> u_conv d = conv32 d"
  "d \<notin> {112, 117} \<Longrightarrow> u_conv_long d = conv32 d"
  by (intro ext, simp add: u_conv_def conv32_def u_put_eq u_itoa_eq u_uitoa_eq)
    (intro ext, simp add: u_conv_long_def conv32_def u_put_eq u_itoa_eq u_uitoa_eq)

lemma u_directive_eq:
  assumes "drop f fmt = cs @ 0 # rest" and "shared_format (37 # cs)"
  shows "u_directive strs fmt f st = kv_directive strs fmt f st
    \<and> (\<forall>g st'. kv_directive strs fmt f st = Inr (g, st')
         \<longrightarrow> (\<exists>ds. drop g fmt = ds @ 0 # rest \<and> shared_format ds))"
proof (cases cs)
  case Nil
  then show ?thesis using assms(2) by simp
next
  case (Cons d ds)
  then have d: "rd fmt f = Inr d" "drop (f + 1) fmt = ds @ 0 # rest"
    using assms(1) rd_drop [of f fmt d "ds @ 0 # rest"] by simp_all
  show ?thesis
  proof (cases "d = 108")
    case True
    then obtain e es where e: "ds = e # es" "e \<notin> {108, 112, 117}" "shared_format es"
      using assms(2) Cons by (auto split: list.splits)
    then have "rd fmt (f + 1) = Inr e" "drop (f + 2) fmt = es @ 0 # rest"
      using d rd_drop [of "f + 1" fmt e "es @ 0 # rest"] by simp_all
    then show ?thesis
      using d True e u_conv_eq(2) [of e]
      by (auto simp: u_directive_def kv_directive_def cbind_eq_Inr)
  next
    case False
    then have s: "d \<noteq> 117" "shared_format ds" using assms(2) Cons by auto
    show ?thesis
      using d False s u_conv_eq(1) [OF s(1)] u_put_eq
      by (auto simp: u_directive_def kv_directive_def cbind_eq_Inr split: if_splits)
  qed
qed

lemma u_vsprintf_loop_eq:
  assumes "drop f fmt = cs @ 0 # rest" and "shared_format cs"
  shows "u_vsprintf_loop strs fmt f st = kvsprintf_loop strs fmt f st"
  using assms
proof (induction strs fmt f st arbitrary: cs rule: kvsprintf_loop.induct)
  case (1 strs fmt f st)
  show ?case
  proof (cases cs)
    case Nil
    then have "rd fmt f = Inr 0" using 1 rd_drop [of f fmt 0] by simp
    then show ?thesis by (subst u_vsprintf_loop.simps, subst kvsprintf_loop.simps) simp
  next
    case (Cons c cs')
    then have c: "rd fmt f = Inr c" "drop (f + 1) fmt = cs' @ 0 # rest"
      using 1 rd_drop [of f fmt c "cs' @ 0 # rest"] by simp_all
    consider "c = 0" | "c \<noteq> 0" "c \<noteq> 37" | "c = 37" by blast
    then show ?thesis
    proof cases
      case 1
      then show ?thesis using c by (subst u_vsprintf_loop.simps, subst kvsprintf_loop.simps) simp
    next
      case 2
      then have "shared_format cs'" using 1 Cons by simp
      then show ?thesis
        using c 2 1(1) [OF c(1) 2 _ c(2)]
        by (subst u_vsprintf_loop.simps, subst kvsprintf_loop.simps) (auto intro!: cbind_cong)
    next
      case 3
      then have "shared_format (37 # cs')" using 1 Cons by simp
      note D = u_directive_eq [OF c(2) this]
      show ?thesis
        using c 3 D 1(2) [OF c(1)]
        by (subst u_vsprintf_loop.simps, subst kvsprintf_loop.simps) (fastforce intro!: cbind_cong)
    qed
  qed
qed

text \<open>All functions but \<open>strncpy\<close> and the formatted output are the kernel's.\<close>

lemma userland_string_agrees:
  "u_strlen = strlen" "u_strnlen = strnlen" "u_strrev = strrev" "u_strcpy = strcpy"
  "u_strncmp s t n = strncmp s t (int n)" "u_strcmp = strcmp" "u_tolower = tolower"
  "u_istrncmp s t n = istrncmp s t (int n)" "u_strnlen_terminator s n c = strnlen_terminator s (int n) c"
  "u_itoa = itoa" "u_uitoa = uitoa" "u_is_digit = is_digit" "u_to_numeric_digit = to_numeric_digit"
  "u_memset = memset" "u_memcpy = memcpy" "u_memcmp = memcmp"
proof -
  show "u_strcmp = strcmp"
    by (intro ext) (simp add: u_strcmp_def strcmp_def u_strncmp_def strncmp_def u_strncmp_loop_eq u_strlen_eq)
qed (simp_all add: fun_eq_iff u_strlen_eq u_strrev_eq u_itoa_eq u_uitoa_eq u_memset_eq u_memcpy_eq
    u_tolower_eq u_strnlen_def strnlen_def u_strnlen_loop_eq u_strcpy_def strcpy_def u_strcpy_loop_eq
    u_strncmp_def strncmp_def u_strncmp_loop_eq u_istrncmp_def istrncmp_def u_istrncmp_loop_eq
    u_strnlen_terminator_def strnlen_terminator_def u_strnlen_terminator_loop_eq u_is_digit_def is_digit_def
    u_to_numeric_digit_def to_numeric_digit_def u_memcmp_def memcmp_def u_memcmp_loop_eq)

section \<open>Properties\<close>

text \<open>C31: The userland \<open>vsprintf\<close> does exactly what the kernel's \<open>kvsprintf\<close> does, faults included, for every
  terminated format that holds no \<open>%u\<close>, \<open>%lu\<close>, \<open>%lp\<close> or \<open>%ll\<close>; so it writes the text the format stands
  for.\<close>

theorem u_vsprintf_agrees:
  assumes "fmt = cs @ 0 # rest" and "shared_format cs"
  shows "u_vsprintf strs buf p stack fmt as = kvsprintf strs buf p stack fmt as"
  using u_vsprintf_loop_eq [of 0 fmt cs rest] assms by (simp add: u_vsprintf_def kvsprintf_def)

theorem u_vsprintf_agrees_witness:
  "u_vsprintf (\<lambda>_. [104, 105, 0]) (replicate 12 0) 0 (replicate 512 7) [37, 115, 61, 37, 108, 120, 0] [1, 255]
    = kvsprintf (\<lambda>_. [104, 105, 0]) (replicate 12 0) 0 (replicate 512 7) [37, 115, 61, 37, 108, 120, 0] [1, 255]"
  by (rule u_vsprintf_agrees [of _ "[37, 115, 61, 37, 108, 120]" "[]"]) simp_all

text \<open>The userland \<open>strncpy\<close> is the kernel's for a positive size.  For the size 0 it is \<open>strcpy\<close>: the
  unsigned bound wraps and the whole string is copied, where the kernel stores a single terminator.\<close>

theorem u_strncpy_sizes:
  assumes "length src < 2 ^ 32 - 1"
  shows "u_strncpy dest d src n = (if n = 0 then strcpy dest d src else strncpy dest d src (int (unat n)))
    \<and> strncpy dest d src 0 = wr dest d 0"
proof
  show "u_strncpy dest d src n = (if n = 0 then strcpy dest d src else strncpy dest d src (int (unat n)))"
    using u_strncpy_loop_0 [OF assms, of 0 dest d] u_strncpy_loop_pos [of n dest d src 0]
    by (auto simp: u_strncpy_def strcpy_def strncpy_def unat_gt_0)
  show "strncpy dest d src 0 = wr dest d 0"
    unfolding strncpy_def by (subst strncpy_loop.simps) simp
qed

theorem u_strncpy_sizes_witness:
  "u_strncpy [1, 1, 1] 0 [65, 66, 0] 0 = strcpy [1, 1, 1] 0 [65, 66, 0]
    \<and> strncpy [1, 1, 1] 0 [65, 66, 0] 0 = Inr [0, 1, 1]"
  using u_strncpy_sizes [of "[65, 66, 0]" "[1, 1, 1]" 0 0] by simp

end
