(* ===== verification/Ports.thy ===== *)
theory Ports
  imports KString
begin

text \<open>
  Port input and output: the serial port (\<^verbatim>\<open>drivers/serial/serial.c\<close>), the interrupt controller and the
  timer (\<^verbatim>\<open>drivers/pic/pic.c\<close>).  The devices behind the ports are a parameter, a function from ports and
  device states; \<open>inb\<close> and \<open>outb\<close> of \<^verbatim>\<open>common/io.c\<close> are its two fields.  A polling loop is a partial function
  whose result is \<open>None\<close> when it never ends; that it ends is proved for ports that behave like a 16550.
\<close>

section \<open>Ports\<close>

text \<open>The machine's ports: what \<open>inb\<close> returns and how the devices change.  The devices are a parameter.\<close>

record 'd ports =
  in8 :: "u16 \<Rightarrow> 'd \<Rightarrow> byte \<times> 'd"
  out8 :: "u16 \<Rightarrow> byte \<Rightarrow> 'd \<Rightarrow> 'd"

text \<open>A straight run of \<open>outb\<close> calls.\<close>

definition outs :: "'d ports \<Rightarrow> (u16 \<times> byte) list \<Rightarrow> 'd \<Rightarrow> 'd" where
  "outs io ws d = fold (\<lambda>(p, v). out8 io p v) ws d"

lemma outs_simps [simp]: "outs io [] d = d" "outs io (w # ws) d = outs io ws (out8 io (fst w) (snd w) d)"
  by (simp_all add: outs_def split_def)

section \<open>The serial port\<close>

definition COM1 :: u16 where "COM1 = 0x3f8"

definition ser_TransmitEmpty :: "'d ports \<Rightarrow> u16 \<Rightarrow> 'd \<Rightarrow> int \<times> 'd" where
  "ser_TransmitEmpty io port d = (let (v, d') = in8 io (port + 5) d in (uint (v AND 0b00100000), d'))"

text \<open>The polling loops may never end; then the result is \<open>None\<close>.\<close>

partial_function (option) wait_transmit :: "'d ports \<Rightarrow> u16 \<Rightarrow> 'd \<Rightarrow> 'd option" where
  "wait_transmit io port d =
     (let (r, d') = ser_TransmitEmpty io port d in if r = 0 then wait_transmit io port d' else Some d')"

definition ser_PrintChar :: "'d ports \<Rightarrow> u16 \<Rightarrow> byte \<Rightarrow> 'd \<Rightarrow> 'd option" where
  "ser_PrintChar io port c d = map_option (out8 io port c) (wait_transmit io port d)"

fun print_loop :: "'d ports \<Rightarrow> u16 \<Rightarrow> byte list \<Rightarrow> 'd \<Rightarrow> 'd option" where
  "print_loop io port [] d = Some d"
| "print_loop io port (c # cs) d = Option.bind (ser_PrintChar io port c d) (print_loop io port cs)"

text \<open>\<open>sz\<close> is computed once; the loop sends \<open>str[0]\<close> to \<open>str[sz - 1]\<close>.\<close>

definition ser_PrintString :: "'d ports \<Rightarrow> u16 \<Rightarrow> byte list \<Rightarrow> 'd \<Rightarrow> fault + 'd" where
  "ser_PrintString io port str d =
     cbind (strlen str) (\<lambda>sz. case print_loop io port (take sz str) d of
       None \<Rightarrow> Inl Diverges | Some d' \<Rightarrow> Inr d')"

definition ser_Received :: "'d ports \<Rightarrow> u16 \<Rightarrow> 'd \<Rightarrow> int \<times> 'd" where
  "ser_Received io port d = (let (v, d') = in8 io (port + 5) d in (uint (v AND 0x1), d'))"

partial_function (option) wait_received :: "'d ports \<Rightarrow> u16 \<Rightarrow> 'd \<Rightarrow> 'd option" where
  "wait_received io port d =
     (let (r, d') = ser_Received io port d in if r = 0 then wait_received io port d' else Some d')"

definition ser_ReadChar :: "'d ports \<Rightarrow> u16 \<Rightarrow> 'd \<Rightarrow> byte \<times> 'd" where
  "ser_ReadChar io port d = in8 io port d"

definition ser_Init :: "'d ports \<Rightarrow> u16 \<Rightarrow> u16 \<Rightarrow> 'd \<Rightarrow> (int \<times> 'd) option" where
  "ser_Init io port divisor d =
     (let d1 = outs io [(port + 1, 0), (port + 3, 0b10000000), (port, ucast (divisor AND 0x00FF)),
            (port + 1, ucast (drop_bit 8 divisor AND 0x00FF)), (port + 3, 0b00000011),
            (port + 2, 0b11000111), (port + 4, 0x0B), (port + 4, 0x1E)] d;
          test_char = 0xAE
      in Option.bind (ser_PrintChar io port test_char d1) (\<lambda>d2.
         Option.bind (wait_received io port d2) (\<lambda>d3.
           let (received_char, d4) = ser_ReadChar io port d3
           in if received_char \<noteq> test_char then Some (- EIO, d4)
              else Some (ALL_OK, out8 io (port + 4) 0x0F d4))))"

section \<open>The interrupt controller and the timer\<close>

definition PIC1_COMMAND :: u16 where "PIC1_COMMAND = 0x20"
definition PIC1_DATA :: u16 where "PIC1_DATA = PIC1_COMMAND + 1"
definition PIC2_COMMAND :: u16 where "PIC2_COMMAND = 0xA0"
definition PIC2_DATA :: u16 where "PIC2_DATA = PIC2_COMMAND + 1"
definition ICW1_ICW4 :: byte where "ICW1_ICW4 = 0x01"
definition ICW1_INIT :: byte where "ICW1_INIT = 0x10"
definition ICW4_8086 :: byte where "ICW4_8086 = 0x01"
definition END_OF_INTERRUPT :: byte where "END_OF_INTERRUPT = 0x20"

definition pic_Remap :: "'d ports \<Rightarrow> byte \<Rightarrow> byte \<Rightarrow> 'd \<Rightarrow> 'd" where
  "pic_Remap io offset1 offset2 d = outs io
     [(PIC1_COMMAND, ICW1_INIT OR ICW1_ICW4), (PIC2_COMMAND, ICW1_INIT OR ICW1_ICW4),
      (PIC1_DATA, offset1), (PIC2_DATA, offset2), (PIC1_DATA, 4), (PIC2_DATA, 2),
      (PIC1_DATA, ICW4_8086), (PIC2_DATA, ICW4_8086),
      (PIC1_DATA, 0b11111000), (PIC2_DATA, 0b11101111)] d"

text \<open>\<open>hz\<close> is promoted to \<open>int\<close>; the quotient is stored in 16 bits.\<close>

definition pic_SetHz :: "'d ports \<Rightarrow> u16 \<Rightarrow> 'd \<Rightarrow> fault + 'd" where
  "pic_SetHz io hz d =
     (if hz = 0 then Inl Div_By_Zero
      else let divisor = word_of_int (1193182 div uint hz) :: u16
           in Inr (outs io [(0x43, 0x36), (0x40, ucast (divisor AND 0xFF)),
                (0x40, ucast (drop_bit 8 divisor AND 0xFF))] d))"

definition pic_EOI :: "'d ports \<Rightarrow> byte \<Rightarrow> 'd \<Rightarrow> 'd" where
  "pic_EOI io irq d =
     (let d1 = if 8 \<le> irq then out8 io PIC2_COMMAND END_OF_INTERRUPT d else d
      in out8 io PIC1_COMMAND END_OF_INTERRUPT d1)"

section \<open>Devices\<close>

text \<open>What the code relies on of a serial port, as the data sheet of a 16550 has it: reading the line status
  register only lets time pass, the transmitter gets empty after a number of polls, and what is written to
  the data register is sent.\<close>

definition uart :: "'d ports \<Rightarrow> u16 \<Rightarrow> ('d \<Rightarrow> byte list) \<Rightarrow> ('d \<Rightarrow> nat) \<Rightarrow> bool" where
  "uart io port sent busy \<longleftrightarrow>
     (\<forall>d. sent (snd (in8 io (port + 5) d)) = sent d
        \<and> (fst (in8 io (port + 5) d) AND 0b00100000 = 0 \<longrightarrow> busy (snd (in8 io (port + 5) d)) < busy d))
     \<and> (\<forall>c d. sent (out8 io port c d) = sent d @ [c])"

lemma wait_transmit_ends:
  assumes "uart io port sent busy"
  shows "\<exists>d'. wait_transmit io port d = Some d' \<and> sent d' = sent d"
proof (induction "busy d" arbitrary: d rule: less_induct)
  case less
  obtain v d1 where v: "in8 io (port + 5) d = (v, d1)" by (cases "in8 io (port + 5) d")
  have s: "sent d1 = sent d" "v AND 0b00100000 = 0 \<Longrightarrow> busy d1 < busy d"
    using assms v unfolding uart_def by (metis fst_conv snd_conv)+
  have w: "wait_transmit io port d = (if v AND 0b00100000 = 0 then wait_transmit io port d1 else Some d1)"
    by (subst wait_transmit.simps) (simp add: ser_TransmitEmpty_def v uint_0_iff)
  show ?case
  proof (cases "v AND 0b00100000 = 0")
    case True
    then show ?thesis using less [OF s(2)] s(1) w by auto
  next
    case False
    then show ?thesis using s(1) w by auto
  qed
qed

lemma print_loop_sends:
  assumes "uart io port sent busy"
  shows "\<exists>d'. print_loop io port cs d = Some d' \<and> sent d' = sent d @ cs"
proof (induction cs arbitrary: d)
  case Nil
  then show ?case by simp
next
  case (Cons c cs)
  obtain d1 where d1: "wait_transmit io port d = Some d1" "sent d1 = sent d"
    using wait_transmit_ends [OF assms] by blast
  have "sent (out8 io port c d1) = sent d @ [c]" using assms d1(2) unfolding uart_def by metis
  then show ?case using Cons [of "out8 io port c d1"] d1(1) by (simp add: ser_PrintChar_def)
qed

text \<open>The frequency the timer runs at is \<open>1193182\<close> divided by the word in its latch (0 stands for 65536).\<close>

fun latch :: "(u16 \<times> byte) list \<Rightarrow> u16" where
  "latch [(c, m), (p, lo), (q, hi)] = ucast lo OR push_bit 8 (ucast hi)"
| "latch _ = 0"

definition recorder :: "(u16 \<times> byte) list ports" where
  "recorder = \<lparr>in8 = (\<lambda>p d. (0, d)), out8 = (\<lambda>p v d. d @ [(p, v)])\<rparr>"

section \<open>Properties\<close>


text \<open>A port that is busy for two polls after each character.\<close>

definition slow_uart :: "(byte list \<times> nat) ports" where
  "slow_uart = \<lparr>in8 = (\<lambda>p (s, n). (if n = 0 then 0x20 else 0, (s, n - 1))),
     out8 = (\<lambda>p c (s, n). (s @ [c], 2))\<rparr>"

lemma slow_uart_ok: "uart slow_uart COM1 fst snd"
  by (auto simp: uart_def slow_uart_def)


lemma latch_bytes: "ucast (ucast (w AND 0xFF :: u16) :: byte) OR push_bit 8 (ucast (ucast (drop_bit 8 w AND 0xFF) :: byte)) = (w :: u16)"
proof -
  have m: "(0xFF :: u16) = mask 8" by (simp add: mask_eq_exp_minus_1)
  have "(ucast (w AND mask 8 :: u16) :: byte) = ucast w" "(ucast (drop_bit 8 w AND mask 8) :: byte) = ucast (drop_bit 8 w)"
    by (rule bit_word_eqI, auto simp: bit_simps)+
  then show ?thesis unfolding m by (simp only: join_bytes16)
qed

text \<open>\<open>pic_SetHz\<close> divides by zero for 0 Hz; for 19 Hz and more it loads the timer with the divisor of that
  frequency, but the slower frequencies do not fit: the divisor loses its 17th bit and the timer runs faster.\<close>

theorem pic_SetHz_divisor:
  "pic_SetHz recorder 0 [] = Inl Div_By_Zero
   \<and> (\<forall>hz :: u16. hz \<noteq> 0 \<longrightarrow> (\<exists>ws. pic_SetHz recorder hz [] = Inr ws
        \<and> uint (latch ws) = (1193182 div uint hz) mod 65536
        \<and> (uint (latch ws) = 1193182 div uint hz \<longleftrightarrow> 19 \<le> hz)))"
proof (intro conjI allI impI)
  show "pic_SetHz recorder 0 [] = Inl Div_By_Zero" by (simp add: pic_SetHz_def)
  fix hz :: u16 assume hz: "hz \<noteq> 0"
  define q where "q = 1193182 div uint hz"
  have pos: "0 < uint hz" using hz by (simp add: word_less_def less_le word_uint_eq_iff)
  have b: "q < 65536 \<longleftrightarrow> 19 \<le> hz"
  proof (cases "19 \<le> hz")
    case True
    then have "19 \<le> uint hz" by (simp add: word_le_def)
    then have "q \<le> 1193182 div 19" unfolding q_def by (intro zdiv_mono2) simp_all
    then show ?thesis using True by simp
  next
    case False
    then have "uint hz \<le> 18" by (simp add: word_le_def)
    then have "1193182 div 18 \<le> q" unfolding q_def using pos by (intro zdiv_mono2) simp_all
    then show ?thesis using False by simp
  qed
  have "0 \<le> q" unfolding q_def using pos by (simp add: pos_imp_zdiv_nonneg_iff)
  then have m: "q mod 65536 = q \<longleftrightarrow> q < 65536" by (metis mod_pos_pos_trivial pos_mod_bound zero_less_numeral)
  show "\<exists>ws. pic_SetHz recorder hz [] = Inr ws \<and> uint (latch ws) = (1193182 div uint hz) mod 65536
        \<and> (uint (latch ws) = 1193182 div uint hz \<longleftrightarrow> 19 \<le> hz)"
    using hz b m by (simp add: pic_SetHz_def recorder_def Let_def latch_bytes q_def [symmetric] uint_word_of_int)
qed

theorem pic_SetHz_divisor_witness:
  "\<exists>ws ws'. pic_SetHz recorder 18 [] = Inr ws \<and> uint (latch ws) = 751
     \<and> pic_SetHz recorder 1000 [] = Inr ws' \<and> uint (latch ws') = 1193"
proof -
  have "(18 :: u16) \<noteq> 0" "(1000 :: u16) \<noteq> 0" by simp_all
  from pic_SetHz_divisor [THEN conjunct2, rule_format, OF this(1)]
    pic_SetHz_divisor [THEN conjunct2, rule_format, OF this(2)]
  show ?thesis by (elim exE conjE, intro exI conjI) (assumption | simp)+
qed

end
