(* ===== verification/Gdt.thy ===== *)
theory Gdt
  imports Memory
begin

text \<open>
  The segment table: \<^verbatim>\<open>src/src/kernel/gdt/gdt.c\<close> and the table of \<^verbatim>\<open>kernel.cpp\<close>.  The encoder scatters base,
  limit and type over the 8 bytes of an entry; it is proved against the decoding the processor does, which
  \<open>decode_entry\<close> states.  Loading the table register is one instruction and not modelled.
\<close>

section \<open>Definitions\<close>

text \<open>An entry of the table the processor reads, byte by byte: \<open>struct gdt\<close> is packed into 8 bytes.\<close>

record gdt_structured =
  base :: u32
  limit :: u32
  type :: byte

definition TOTAL_GDT_SEGMENTS :: nat where "TOTAL_GDT_SEGMENTS = 6"
definition KERNEL_CODE_SELECTOR :: u32 where "KERNEL_CODE_SELECTOR = 0x08"
definition KERNEL_DATA_SELECTOR :: u32 where "KERNEL_DATA_SELECTOR = 0x10"
definition USER_CODE_SELECTOR :: u32 where "USER_CODE_SELECTOR = 0x1b"
definition USER_DATA_SELECTOR :: u32 where "USER_DATA_SELECTOR = 0x23"

text \<open>\<open>target\<close> points to offset \<open>t\<close> of an object.\<close>

definition encode_gdt_entry :: "byte list \<Rightarrow> nat \<Rightarrow> gdt_structured \<Rightarrow> fault + byte list" where
  "encode_gdt_entry target t src =
     (if 65536 < limit src \<and> limit src AND 0xFFF \<noteq> 0xFFF then Inl Panic
      else let (lim, flags) = (if 65536 < limit src then (drop_bit 12 (limit src), 0b11000000 :: byte)
                               else (limit src, 0b01000000))
      in cbind (wr target (t + 6) flags) (\<lambda>b.
         cbind (wr b (t + 6) (flags OR (ucast (drop_bit 16 lim) AND 0x0F))) (\<lambda>b.
         cbind (wr b t (ucast (lim AND 0xFF))) (\<lambda>b.
         cbind (wr b (t + 1) (ucast (drop_bit 8 lim AND 0xFF))) (\<lambda>b.
         cbind (wr b (t + 2) (ucast (base src AND 0xFF))) (\<lambda>b.
         cbind (wr b (t + 3) (ucast (drop_bit 8 (base src) AND 0xFF))) (\<lambda>b.
         cbind (wr b (t + 4) (ucast (drop_bit 16 (base src) AND 0xFF))) (\<lambda>b.
         cbind (wr b (t + 7) (ucast (drop_bit 24 (base src) AND 0xFF))) (\<lambda>b.
         wr b (t + 5) (type src))))))))))"

primrec gdt_loop :: "byte list \<Rightarrow> gdt_structured list \<Rightarrow> nat \<Rightarrow> fault + byte list" where
  "gdt_loop gdt structured_gdt 0 = Inr gdt"
| "gdt_loop gdt structured_gdt (Suc i) =
     cbind (gdt_loop gdt structured_gdt i) (\<lambda>gdt'. cbind (rd structured_gdt i)
       (\<lambda>e. encode_gdt_entry gdt' (8 * i) e))"

definition gdt_structured_to_gdt :: "byte list \<Rightarrow> gdt_structured list \<Rightarrow> nat \<Rightarrow> fault + byte list" where
  "gdt_structured_to_gdt gdt structured_gdt total_entries = gdt_loop gdt structured_gdt total_entries"

text \<open>The table of \<^verbatim>\<open>kernel.cpp\<close>; \<open>tss\<close> is the address of the task state segment and \<open>tss_bytes\<close> its length.\<close>

definition gdt_table :: "u32 \<Rightarrow> u32 \<Rightarrow> gdt_structured list" where
  "gdt_table tss tss_bytes =
     [\<lparr>base = 0, limit = 0, type = 0\<rparr>,
      \<lparr>base = 0, limit = 0xFFFFFFFF, type = 0x9A\<rparr>,
      \<lparr>base = 0, limit = 0xFFFFFFFF, type = 0x92\<rparr>,
      \<lparr>base = 0, limit = 0xFFFFFFFF, type = 0xF8\<rparr>,
      \<lparr>base = 0, limit = 0xFFFFFFFF, type = 0xF2\<rparr>,
      \<lparr>base = tss, limit = tss_bytes, type = 0xE9\<rparr>]"

section \<open>What the processor reads\<close>

text \<open>The segment an entry describes, as the processor's manual has it: a 20-bit limit, counted in pages when
  the granularity bit (bit 7 of byte 6) is set.\<close>

definition decode_entry :: "byte list \<Rightarrow> nat \<Rightarrow> gdt_structured" where
  "decode_entry b t =
     (let lim = (ucast (b ! t) OR push_bit 8 (ucast (b ! (t + 1))) OR push_bit 16 (ucast (b ! (t + 6) AND 0x0F))) :: u32
      in \<lparr>base = ucast (b ! (t + 2)) OR push_bit 8 (ucast (b ! (t + 3))) OR push_bit 16 (ucast (b ! (t + 4)))
                 OR push_bit 24 (ucast (b ! (t + 7))),
          limit = (if bit (b ! (t + 6)) 7 then push_bit 12 lim OR 0xFFF else lim),
          type = b ! (t + 5)\<rparr>)"

definition valid_limit :: "u32 \<Rightarrow> bool" where
  "valid_limit l = (65536 < l \<longrightarrow> l AND 0xFFF = 0xFFF)"

lemma byte_masks: "(0xFF :: u32) = mask 8" "(0xFFF :: u32) = mask 12" "(0x0F :: byte) = mask 4"
  by (simp_all add: mask_eq_exp_minus_1)

text \<open>The bytes an entry is made of.\<close>

definition entry_bytes :: "gdt_structured \<Rightarrow> byte list" where
  "entry_bytes e =
     (let g = 65536 < limit e; lim = (if g then drop_bit 12 (limit e) else limit e)
      in [ucast lim, ucast (drop_bit 8 lim), ucast (base e), ucast (drop_bit 8 (base e)),
          ucast (drop_bit 16 (base e)), type e,
          (if g then 0b11000000 else 0b01000000) OR (ucast (drop_bit 16 lim) AND mask 4),
          ucast (drop_bit 24 (base e))])"

lemma ucast_and_ff: "(ucast (w AND mask 8 :: u32) :: byte) = ucast w"
  by (rule bit_word_eqI) (auto simp: bit_simps)

lemma length_8: "length xs = 8 \<Longrightarrow> \<exists>a b c d e f g h. xs = [a, b, c, d, e, f, g, h]"
  by (auto simp: length_Suc_conv eval_nat_numeral)

lemma encode_entry:
  assumes "valid_limit (limit e)" and "t + 8 \<le> length b"
  shows "encode_gdt_entry b t e = Inr (blit b t (entry_bytes e))"
proof -
  obtain x0 x1 x2 x3 x4 x5 x6 x7 where x: "take 8 (drop t b) = [x0, x1, x2, x3, x4, x5, x6, x7]"
    using length_8 [of "take 8 (drop t b)"] assms(2) by auto
  have s: "b = take t b @ [x0, x1, x2, x3, x4, x5, x6, x7] @ drop (t + 8) b"
    using x by (metis append_take_drop_id drop_drop add.commute)
  define pre where "pre = take t b"
  define post where "post = drop (t + 8) b"
  have b: "b = pre @ [x0, x1, x2, x3, x4, x5, x6, x7] @ post" and t: "t = length pre"
    using s assms(2) by (simp_all add: pre_def post_def)
  have "\<not> (65536 < limit e \<and> limit e AND 0xFFF \<noteq> 0xFFF)" using assms(1) by (simp add: valid_limit_def)
  then show ?thesis
    unfolding encode_gdt_entry_def b t
    by (simp add: list_update_append blit_def entry_bytes_def Let_def byte_masks ucast_and_ff)
qed


lemma join20:
  assumes "take_bit 20 (l :: u32) = l"
  shows "ucast (ucast l :: byte) OR push_bit 8 (ucast (ucast (drop_bit 8 l) :: byte))
    OR push_bit 16 (ucast ((ucast (drop_bit 16 l) :: byte) AND mask 4)) = l"
proof (rule bit_word_eqI)
  fix n :: nat assume n: "n < LENGTH(32)"
  have high: "\<not> bit l n" if "20 \<le> n"
    using assms that by (metis bit_take_bit_iff not_le)
  show "bit (ucast (ucast l :: byte) OR push_bit 8 (ucast (ucast (drop_bit 8 l) :: byte))
    OR push_bit 16 (ucast ((ucast (drop_bit 16 l) :: byte) AND mask 4)) :: u32) n = bit l n"
  proof -
    consider "n < 8" | "8 \<le> n" "n < 16" | "16 \<le> n" "n < 20" | "20 \<le> n" by linarith
    then show ?thesis using n high by cases (auto simp: bit_simps)
  qed
qed


lemma limit_20:
  "l \<le> 65536 \<Longrightarrow> take_bit 20 (l :: u32) = l" "take_bit 20 (drop_bit 12 l) = drop_bit 12 (l :: u32)"
proof -
  assume "l \<le> 65536"
  then have "unat l < 2 ^ 20" by (simp add: word_le_nat_alt)
  then have "unat (take_bit 20 l) = unat l" by (simp add: unsigned_take_bit_eq take_bit_nat_eq_self)
  then show "take_bit 20 l = l" by (simp only: word_unat_eq_iff)
qed (rule bit_word_eqI, auto simp: bit_simps dest: bit_imp_le_length)

lemma page_limit: "l AND mask 12 = mask 12 \<Longrightarrow> push_bit 12 (drop_bit 12 l) OR mask 12 = (l :: u32)"
proof (rule bit_word_eqI)
  fix n :: nat assume m: "l AND mask 12 = mask 12" and "n < LENGTH(32)"
  then have "bit l n" if "n < 12" using that m by (metis bit_and_iff bit_mask_iff possible_bit_word)
  then show "bit (push_bit 12 (drop_bit 12 l) OR mask 12) n = bit l n"
    using \<open>n < LENGTH(32)\<close> by (cases "n < 12") (auto simp: bit_simps)
qed

lemma decode_entry_bytes:
  assumes "valid_limit (limit e)" and "t + 8 \<le> length b"
  shows "decode_entry (blit b t (entry_bytes e)) t = e"
proof -
  have n: "blit b t (entry_bytes e) ! (t + k) = entry_bytes e ! k" if "k < 8" for k
    using nth_blit [of t "entry_bytes e" b "t + k"] assms(2) that by (simp add: entry_bytes_def Let_def)
  define x :: byte where "x = ucast (drop_bit 16 (if 65536 < limit e then drop_bit 12 (limit e) else limit e)) AND mask 4"
  have x: "\<not> bit x 7" by (simp add: x_def bit_simps)
  have fl: "bit (0b11000000 OR x) 7" "\<not> bit (0b01000000 OR x) 7" using x by (simp_all add: bit_simps)
  have z: "(0b11000000 :: byte) AND mask 4 = 0" "(0b01000000 :: byte) AND mask 4 = 0"
    by (simp_all add: mask_eq_exp_minus_1)
  have and4: "(0b11000000 OR x) AND mask 4 = x" "(0b01000000 OR x) AND mask 4 = x"
    unfolding bit.conj_disj_distrib2 z by (simp_all add: x_def and.assoc)
  show ?thesis
  proof (cases "65536 < limit e")
    case True
    then have "limit e AND mask 12 = mask 12" using assms(1) by (simp add: valid_limit_def byte_masks)
    then show ?thesis
      using True n [of 0] n [of 1] n [of 2] n [of 3] n [of 4] n [of 5] n [of 6] n [of 7] fl and4 join_bytes32 [of "base e"]
        join20 [OF limit_20(2), of "limit e"] page_limit [of "limit e"]
      by (simp add: decode_entry_def Let_def byte_masks entry_bytes_def x_def)
  next
    case False
    then show ?thesis
      using n [of 0] n [of 1] n [of 2] n [of 3] n [of 4] n [of 5] n [of 6] n [of 7] fl and4 join_bytes32 [of "base e"]
        join20 [OF limit_20(1), of "limit e"]
      by (simp add: decode_entry_def Let_def byte_masks entry_bytes_def x_def)
  qed
qed


lemma length_entry_bytes [simp]: "length (entry_bytes e) = 8"
  by (simp add: entry_bytes_def Let_def)

lemma gdt_loop_spec:
  assumes "list_all (\<lambda>e. valid_limit (limit e)) es" and "i \<le> length es" and "8 * length es \<le> length b"
  shows "gdt_loop b es i = Inr (blit b 0 (concat (map entry_bytes (take i es))))"
  using assms(2)
proof (induction i)
  case 0
  then show ?case by simp
next
  case (Suc i)
  let ?c = "concat (map entry_bytes (take i es))"
  have l: "length ?c = 8 * i" using Suc.prems by (simp add: length_concat comp_def sum_list_triv min_def)
  have lb: "length (blit b 0 ?c) = length b" using l Suc.prems assms(3) by simp
  have "valid_limit (limit (es ! i))" using assms(1) Suc.prems by (simp add: list_all_length)
  then have "encode_gdt_entry (blit b 0 ?c) (8 * i) (es ! i)
      = Inr (blit (blit b 0 ?c) (0 + length ?c) (entry_bytes (es ! i)))"
    using encode_entry [of "es ! i" "8 * i" "blit b 0 ?c"] lb l Suc.prems assms(3) by simp
  also have "blit (blit b 0 ?c) (0 + length ?c) (entry_bytes (es ! i)) = blit b 0 (?c @ entry_bytes (es ! i))"
    using l Suc.prems assms(3) by (intro blit_append) simp
  finally show ?case
    using Suc by (simp add: take_Suc_conv_app_nth)
qed

lemma drop_concat_8:
  "i \<le> length es \<Longrightarrow> drop (8 * i) (concat (map entry_bytes es)) = concat (map entry_bytes (drop i es))"
proof (induction i arbitrary: es)
  case (Suc i)
  then show ?case by (cases es) simp_all
qed simp

lemma decode_congr:
  assumes "\<And>k. k < 8 \<Longrightarrow> b ! (t + k) = c ! (u + k)"
  shows "decode_entry b t = decode_entry c u"
  using assms [of 0] assms [of 1] assms [of 2] assms [of 3] assms [of 4] assms [of 5] assms [of 6] assms [of 7]
  by (simp add: decode_entry_def)

section \<open>Properties\<close>

text \<open>C36: Every table of descriptors whose limits are page limits or at most 65536 is encoded without a panic
  and without writing outside of the table, and the processor reads the very segments back; any other limit
  panics.\<close>

theorem gdt_roundtrip:
  assumes "list_all (\<lambda>e. valid_limit (limit e)) es" and "length b = 8 * length es"
  shows "\<exists>b'. gdt_structured_to_gdt b es (length es) = Inr b' \<and> length b' = length b
    \<and> (\<forall>i<length es. decode_entry b' (8 * i) = es ! i)
    \<and> (\<forall>e t. \<not> valid_limit (limit e) \<longrightarrow> encode_gdt_entry b t e = Inl Panic)"
proof -
  let ?c = "concat (map entry_bytes es)"
  have l: "length ?c = 8 * length es" by (simp add: length_concat comp_def sum_list_triv)
  have g: "gdt_structured_to_gdt b es (length es) = Inr ?c"
    using gdt_loop_spec [OF assms(1), of "length es" b] assms(2) l blit_full [of ?c b]
    by (simp add: gdt_structured_to_gdt_def)
  have "decode_entry ?c (8 * i) = es ! i" if i: "i < length es" for i
  proof -
    have "drop (8 * i) ?c = entry_bytes (es ! i) @ concat (map entry_bytes (drop (Suc i) es))"
      using drop_concat_8 [of i es] i by (simp flip: Cons_nth_drop_Suc)
    then have "?c ! (8 * i + k) = blit (replicate 8 0) 0 (entry_bytes (es ! i)) ! (0 + k)" if "k < 8" for k
      using that i l by (simp add: blit_def nth_append flip: nth_drop)
    then have "decode_entry ?c (8 * i) = decode_entry (blit (replicate 8 0) 0 (entry_bytes (es ! i))) 0"
      by (rule decode_congr)
    then show ?thesis
      using decode_entry_bytes [of "es ! i" 0 "replicate 8 0"] assms(1) i by (simp add: list_all_length)
  qed
  then show ?thesis
    using g l assms(2) by (auto simp: encode_gdt_entry_def valid_limit_def)
qed

theorem gdt_roundtrip_witness:
  "\<exists>b'. gdt_structured_to_gdt (replicate 48 0) (gdt_table 0x105000 108) TOTAL_GDT_SEGMENTS = Inr b'
    \<and> decode_entry b' (unat KERNEL_CODE_SELECTOR) = \<lparr>base = 0, limit = 0xFFFFFFFF, type = 0x9A\<rparr>
    \<and> decode_entry b' 40 = \<lparr>base = 0x105000, limit = 108, type = 0xE9\<rparr>"
proof -
  have v: "list_all (\<lambda>e. valid_limit (limit e)) (gdt_table 0x105000 108)"
    by (simp add: gdt_table_def valid_limit_def)
  have n: "length (gdt_table 0x105000 108) = 6" by (simp add: gdt_table_def)
  then have "length (replicate 48 0 :: byte list) = 8 * length (gdt_table 0x105000 108)" by simp
  from gdt_roundtrip [OF v this, unfolded n]
  obtain b' where "gdt_structured_to_gdt (replicate 48 0) (gdt_table 0x105000 108) 6 = Inr b'"
    "\<forall>i<6. decode_entry b' (8 * i) = gdt_table 0x105000 108 ! i"
    by (elim exE conjE)
  from this(1) this(2) [rule_format, of 1] this(2) [rule_format, of 5] show ?thesis
    by (simp add: TOTAL_GDT_SEGMENTS_def KERNEL_CODE_SELECTOR_def gdt_table_def)
qed

end
