(* ===== verification/Task.thy ===== *)
theory Task
  imports Paging Gdt KString
begin

text \<open>
  Tasks, \<^verbatim>\<open>src/src/kernel/task/task.c\<close> and the records of \<^verbatim>\<open>task.h\<close>, \<^verbatim>\<open>process.h\<close> and \<^verbatim>\<open>idt.h\<close>.  The state
  extends that of \<open>Paging\<close>: a task is an object in a store by address, its page directory lies in memory as
  \<open>Paging\<close> has it, and the address space is switched by loading \<open>cr3\<close>.  What the kernel reads through the address
  space of a task goes through the tables of that directory.  The proofs are about the ring of tasks the
  scheduler walks and about copying a string out of a task.
\<close>

section \<open>State\<close>

record registers =
  r_edi :: u32
  r_esi :: u32
  r_ebp :: u32
  r_ebx :: u32
  r_edx :: u32
  r_ecx :: u32
  r_eax :: u32
  r_ip :: u32
  r_cs :: u32
  r_flags :: u32
  r_esp :: u32
  r_ss :: u32

record interrupt_frame =
  f_error_code :: u32
  f_edi :: u32
  f_esi :: u32
  f_ebp :: u32
  f_reserved :: u32
  f_ebx :: u32
  f_edx :: u32
  f_ecx :: u32
  f_eax :: u32
  f_ip :: u32
  f_cs :: u32
  f_flags :: u32
  f_esp :: u32
  f_ss :: u32

record task =
  page_directory :: u32
  registers :: registers
  t_process :: u32
  next_task :: u32
  prev_task :: u32

text \<open>\<open>argv\<close> is the array of pointers it points to.\<close>

record process =
  p_id :: byte
  p_filename :: "byte list"
  p_task :: u32
  allocations :: "u32 list"
  p_elf :: u32
  p_stack :: u32
  p_bss :: u32
  p_framebuffer :: u32
  key_buffer :: "byte list"
  key_tail :: int
  key_head :: int
  elf_entry :: u32
  argc :: int
  argv :: "u32 list"

definition PROGRAM_VIRTUAL_ADDRESS :: u32 where "PROGRAM_VIRTUAL_ADDRESS = 0x400000"
definition PROGRAM_VIRTUAL_STACK_SIZE :: u32 where "PROGRAM_VIRTUAL_STACK_SIZE = 1024 * 16"
definition PROGRAM_VIRTUAL_STACK_ADDRESS_START :: u32 where "PROGRAM_VIRTUAL_STACK_ADDRESS_START = 0x3FF000"
definition PROGRAM_VIRTUAL_STACK_ADDRESS_END :: u32 where
  "PROGRAM_VIRTUAL_STACK_ADDRESS_END = PROGRAM_VIRTUAL_STACK_ADDRESS_START - PROGRAM_VIRTUAL_STACK_SIZE"

text \<open>The objects the kernel allocates for tasks and processes are kept by address in stores of their own; a
  null or dangling pointer is not in the store.  \<open>data_segments\<close> is what the segment registers hold.\<close>

record kernel = paging_state +
  tasks :: "u32 \<Rightarrow> task option"
  processes_at :: "u32 \<Rightarrow> process option"
  current_task :: u32
  task_tail :: u32
  task_head :: u32
  kernel_paging_chunk :: u32
  data_segments :: u32

definition get_task :: "'a kernel_scheme \<Rightarrow> u32 \<Rightarrow> fault + task" where
  "get_task s p = (case tasks s p of None \<Rightarrow> Inl Null_Deref | Some t \<Rightarrow> Inr t)"

definition put_task :: "u32 \<Rightarrow> task \<Rightarrow> 'a kernel_scheme \<Rightarrow> 'a kernel_scheme" where
  "put_task p t s = s\<lparr>tasks := (tasks s)(p := Some t)\<rparr>"

definition get_process :: "'a kernel_scheme \<Rightarrow> u32 \<Rightarrow> fault + process" where
  "get_process s p = (case processes_at s p of None \<Rightarrow> Inl Null_Deref | Some t \<Rightarrow> Inr t)"

definition put_process :: "u32 \<Rightarrow> process \<Rightarrow> 'a kernel_scheme \<Rightarrow> 'a kernel_scheme" where
  "put_process p t s = s\<lparr>processes_at := (processes_at s)(p := Some t)\<rparr>"

section \<open>Operations\<close>

definition task_current :: "'a kernel_scheme \<Rightarrow> u32" where
  "task_current s = current_task s"

definition saved_registers :: "interrupt_frame \<Rightarrow> registers" where
  "saved_registers f = \<lparr>r_edi = f_edi f, r_esi = f_esi f, r_ebp = f_ebp f, r_ebx = f_ebx f, r_edx = f_edx f,
     r_ecx = f_ecx f, r_eax = f_eax f, r_ip = f_ip f, r_cs = f_cs f, r_flags = f_flags f, r_esp = f_esp f, r_ss = f_ss f\<rparr>"

definition task_save_state :: "'a kernel_scheme \<Rightarrow> u32 \<Rightarrow> interrupt_frame \<Rightarrow> fault + 'a kernel_scheme" where
  "task_save_state s task frame = cbind (get_task s task) (\<lambda>t.
     Inr (put_task task (t\<lparr>registers := saved_registers frame\<rparr>) s))"

definition task_current_save_state :: "'a kernel_scheme \<Rightarrow> interrupt_frame \<Rightarrow> fault + 'a kernel_scheme" where
  "task_current_save_state s frame =
     (if task_current s = 0 then Inl Panic else task_save_state s (task_current s) frame)"

definition task_get_next :: "'a kernel_scheme \<Rightarrow> fault + u32" where
  "task_get_next s = cbind (get_task s (current_task s)) (\<lambda>t.
     if next_task t = 0 then Inr (task_head s) else Inr (next_task t))"

definition task_list_remove :: "'a kernel_scheme \<Rightarrow> u32 \<Rightarrow> fault + 'a kernel_scheme" where
  "task_list_remove s task = cbind (get_task s task) (\<lambda>t.
     cbind (if prev_task t \<noteq> 0
            then cbind (get_task s (prev_task t)) (\<lambda>p. Inr (put_task (prev_task t) (p\<lparr>next_task := next_task t\<rparr>) s))
            else Inr s) (\<lambda>s1.
     let s2 = if task = task_head s1 then s1\<lparr>task_head := next_task t\<rparr> else s1;
         s3 = if task = task_tail s2 then s2\<lparr>task_tail := prev_task t\<rparr> else s2
     in if task = current_task s3
        then cbind (task_get_next s3) (\<lambda>n. Inr (s3\<lparr>current_task := n\<rparr>))
        else Inr s3))"

definition task_free :: "'a kernel_scheme \<Rightarrow> u32 \<Rightarrow> fault + (int \<times> 'a kernel_scheme)" where
  "task_free s task = cbind (get_task s task) (\<lambda>t.
     cbind (paging_free_directory (page_directory t) s) (\<lambda>s1.
     cbind (task_list_remove s1 task) (\<lambda>s2.
     cbind (kfree s2 task) (\<lambda>s3. Inr (0, s3\<lparr>tasks := (tasks s3)(task := None)\<rparr>)))))"

definition task_switch :: "'a kernel_scheme \<Rightarrow> u32 \<Rightarrow> fault + (int \<times> 'a kernel_scheme)" where
  "task_switch s task = cbind (get_task s task) (\<lambda>t.
     Inr (0, paging_switch (s\<lparr>current_task := task\<rparr>) (page_directory t)))"

definition user_registers :: "'a kernel_scheme \<Rightarrow> 'a kernel_scheme" where
  "user_registers s = s\<lparr>data_segments := 0x23\<rparr>"

definition kernel_registers :: "'a kernel_scheme \<Rightarrow> 'a kernel_scheme" where
  "kernel_registers s = s\<lparr>data_segments := 0x10\<rparr>"

definition kernel_page :: "'a kernel_scheme \<Rightarrow> 'a kernel_scheme" where
  "kernel_page s = (let s1 = kernel_registers s in paging_switch s1 (kernel_paging_chunk s1))"

definition task_page :: "'a kernel_scheme \<Rightarrow> fault + (int \<times> 'a kernel_scheme)" where
  "task_page s = cbind (task_switch (user_registers s) (current_task s)) (\<lambda>(_, s1). Inr (0, s1))"

definition task_page_task :: "'a kernel_scheme \<Rightarrow> u32 \<Rightarrow> fault + 'a kernel_scheme" where
  "task_page_task s task = cbind (task_switch (user_registers s) task) (\<lambda>(_, s1). Inr s1)"

text \<open>\<open>task_return\<close> does not return: the processor goes on in user mode with the registers of the task, and the
  data segments of its stack segment.\<close>

definition task_return :: "'a kernel_scheme \<Rightarrow> u32 \<Rightarrow> fault + (registers \<times> 'a kernel_scheme)" where
  "task_return s task = cbind (get_task s task) (\<lambda>t.
     Inr (registers t, s\<lparr>data_segments := r_ss (registers t)\<rparr>))"

definition task_run_first_ever_task :: "'a kernel_scheme \<Rightarrow> fault + (registers \<times> 'a kernel_scheme)" where
  "task_run_first_ever_task s =
     (if current_task s = 0 then Inl Panic
      else cbind (task_switch s (task_head s)) (\<lambda>(_, s1). task_return s1 (task_head s1)))"

definition zero_registers :: registers where
  "zero_registers = \<lparr>r_edi = 0, r_esi = 0, r_ebp = 0, r_ebx = 0, r_edx = 0, r_ecx = 0, r_eax = 0, r_ip = 0, r_cs = 0, r_flags = 0,
     r_esp = 0, r_ss = 0\<rparr>"

definition zero_task :: task where
  "zero_task = \<lparr>page_directory = 0, registers = zero_registers, t_process = 0, next_task = 0, prev_task = 0\<rparr>"

text \<open>\<open>memset\<close> to 0, then the page directory, the registers and the process.\<close>

definition task_init :: "'a kernel_scheme \<Rightarrow> u32 \<Rightarrow> u32 \<Rightarrow> fault + (int \<times> 'a kernel_scheme)" where
  "task_init s task process =
     cbind (get_task s task) (\<lambda>_.
     let s0 = put_task task zero_task s in
     cbind (paging_new_directory (PAGING_IS_PRESENT OR PAGING_ACCESS_FROM_ALL) s0) (\<lambda>(chunk, s1).
       let t1 = zero_task\<lparr>page_directory := chunk\<rparr> in
       if chunk = 0 then Inr (- EIO, put_task task t1 s1)
       else cbind (get_process s1 process) (\<lambda>p.
         Inr (0, put_task task (t1\<lparr>registers := zero_registers\<lparr>r_ip := elf_entry p, r_ss := USER_DATA_SELECTOR,
           r_cs := USER_CODE_SELECTOR, r_esp := PROGRAM_VIRTUAL_STACK_ADDRESS_START, r_flags := 0x200\<rparr>,
           t_process := process\<rparr>) s1))))"

text \<open>\<open>sizeof(struct task)\<close> is 64.  Both kinds of failure free the task, the null pointer included; the result is
  then the error as a pointer.\<close>

definition task_new :: "'a kernel_scheme \<Rightarrow> u32 \<Rightarrow> fault + (u32 \<times> 'a kernel_scheme)" where
  "task_new s process =
     cbind (kzalloc s 64) (\<lambda>(task, s1).
     cbind (if task = 0 then Inr (- ENOMEM, s1)
            else cbind (task_init (put_task task zero_task s1) task process) (\<lambda>(res, s2).
              if ISERR res then Inr (res, s2)
              else if task_head s2 = 0
              then Inr (res, s2\<lparr>task_head := task, task_tail := task, current_task := task\<rparr>)
              else cbind (get_task s2 (task_tail s2)) (\<lambda>tl.
                let s3 = put_task (task_tail s2) (tl\<lparr>next_task := task\<rparr>) s2 in
                cbind (get_task s3 task) (\<lambda>t.
                  Inr (res, (put_task task (t\<lparr>prev_task := task_tail s3\<rparr>) s3)\<lparr>task_tail := task\<rparr>)))))
       (\<lambda>(res, s4). if ISERR res
          then cbind (task_free s4 task) (\<lambda>(_, s5). Inr (word_of_int res, s5\<lparr>task_tail := task\<rparr>))
          else Inr (task, s4)))"

section \<open>Virtual memory\<close>

text \<open>What the processor does with a virtual address while the directory at \<open>pd\<close> is loaded: an entry without the
  present bit is a page fault.\<close>

definition vm_addr :: "(u32 \<Rightarrow> byte) \<Rightarrow> u32 \<Rightarrow> u32 \<Rightarrow> u32 option" where
  "vm_addr m pd v = (let entry = paging_get_page m pd (paging_align_address_to_lower_page v)
     in if bit entry 0 then Some ((entry AND 0xfffff000) + v mod 4096) else None)"

definition vload8 :: "(u32 \<Rightarrow> byte) \<Rightarrow> u32 \<Rightarrow> u32 \<Rightarrow> fault + byte" where
  "vload8 m pd v = (case vm_addr m pd v of None \<Rightarrow> Inl Bad_Read | Some a \<Rightarrow> Inr (m a))"

definition vstore8 :: "(u32 \<Rightarrow> byte) \<Rightarrow> u32 \<Rightarrow> u32 \<Rightarrow> byte \<Rightarrow> fault + (u32 \<Rightarrow> byte)" where
  "vstore8 m pd v c = (case vm_addr m pd v of None \<Rightarrow> Inl Bad_Write | Some a \<Rightarrow> Inr (m(a := c)))"

definition vload32 :: "(u32 \<Rightarrow> byte) \<Rightarrow> u32 \<Rightarrow> u32 \<Rightarrow> fault + u32" where
  "vload32 m pd v =
     cbind (vload8 m pd v) (\<lambda>b0. cbind (vload8 m pd (v + 1)) (\<lambda>b1.
     cbind (vload8 m pd (v + 2)) (\<lambda>b2. cbind (vload8 m pd (v + 3)) (\<lambda>b3.
     Inr (ucast b0 OR push_bit 8 (ucast b1) OR push_bit 16 (ucast b2) OR push_bit 24 (ucast b3))))))"

definition vstore32 :: "(u32 \<Rightarrow> byte) \<Rightarrow> u32 \<Rightarrow> u32 \<Rightarrow> u32 \<Rightarrow> fault + (u32 \<Rightarrow> byte)" where
  "vstore32 m pd v x =
     cbind (vstore8 m pd v (ucast x)) (\<lambda>m. cbind (vstore8 m pd (v + 1) (ucast (drop_bit 8 x))) (\<lambda>m.
     cbind (vstore8 m pd (v + 2) (ucast (drop_bit 16 x))) (\<lambda>m. vstore8 m pd (v + 3) (ucast (drop_bit 24 x)))))"

text \<open>The loop of \<open>strncpy\<close> on virtual addresses.\<close>

function vm_strncpy_loop :: "(u32 \<Rightarrow> byte) \<Rightarrow> u32 \<Rightarrow> u32 \<Rightarrow> u32 \<Rightarrow> int \<Rightarrow> nat \<Rightarrow> fault + (u32 \<Rightarrow> byte)" where
  "vm_strncpy_loop m pd dest src n i =
     (if int i < n - 1
      then cbind (vload8 m pd (src + word_of_nat i)) (\<lambda>c.
             if c = 0 then vstore8 m pd (dest + word_of_nat i) 0
             else cbind (vstore8 m pd (dest + word_of_nat i) c) (\<lambda>m'. vm_strncpy_loop m' pd dest src n (Suc i)))
      else vstore8 m pd (dest + word_of_nat i) 0)"
  by pat_completeness auto
termination
  by (relation "measure (\<lambda>(m, pd, dest, src, n, i). nat (n - 1) - i)") auto

declare vm_strncpy_loop.simps [simp del]

text \<open>The object of \<open>n\<close> bytes at an address.\<close>

definition ram_bytes :: "(u32 \<Rightarrow> byte) \<Rightarrow> u32 \<Rightarrow> nat \<Rightarrow> byte list" where
  "ram_bytes m p n = map (\<lambda>i. m (p + word_of_nat i)) [0..<n]"

text \<open>The destination is an object of the kernel (\<open>physical_address\<close>); it is returned filled.\<close>

definition task_copy_string_from :: "'a kernel_scheme \<Rightarrow> u32 \<Rightarrow> u32 \<Rightarrow> byte list \<Rightarrow> int
    \<Rightarrow> fault + (int \<times> byte list \<times> 'a kernel_scheme)" where
  "task_copy_string_from s task virtual_address physical_address n =
     cbind (cassert (n < 4096)) (\<lambda>_.
     cbind (kzalloc s (word_of_int n)) (\<lambda>(tmp, s1).
     cbind (cassert (tmp \<noteq> 0)) (\<lambda>_.
     cbind (get_task s1 task) (\<lambda>t.
       let task_directory = load32 (ram s1) (page_directory t);
           old_entry = paging_get_page (ram s1) task_directory tmp;
           s2 = s1\<lparr>ram := snd (paging_set_page (ram s1) task_directory tmp
                  (tmp OR ucast PAGING_IS_PRESENT OR ucast PAGING_IS_WRITEABLE OR ucast PAGING_ACCESS_FROM_ALL))\<rparr>;
           s3 = paging_switch s2 (page_directory t)
       in cbind (vm_strncpy_loop (ram s3) (cr3 s3) tmp virtual_address n 0) (\<lambda>m.
            let s4 = kernel_page (s3\<lparr>ram := m\<rparr>);
                (res, m') = paging_set_page (ram s4) task_directory tmp old_entry;
                s5 = s4\<lparr>ram := m'\<rparr>
            in cbind (cassert (res = 0)) (\<lambda>_.
               cbind (strncpy physical_address 0 (ram_bytes m' tmp (nat n)) n) (\<lambda>dest.
               cbind (kfree s5 tmp) (\<lambda>s6. Inr (res, dest, s6)))))))))"

definition task_peek_stack :: "'a kernel_scheme \<Rightarrow> u32 \<Rightarrow> int \<Rightarrow> fault + (u32 \<times> 'a kernel_scheme)" where
  "task_peek_stack s task offset =
     cbind (get_task s task) (\<lambda>t.
       let sp_ptr = r_esp (registers t) in
       cbind (task_page_task s task) (\<lambda>s1.
       cbind (vload32 (ram s1) (cr3 s1) (sp_ptr + 4 * word_of_int offset)) (\<lambda>res.
         Inr (res, kernel_page s1))))"


section \<open>What leaves the kernel's own state alone\<close>

text \<open>The allocator and the paging code change the heap and memory, nothing else.\<close>

definition same_kernel :: "'a kmem_scheme \<Rightarrow> 'a kmem_scheme \<Rightarrow> bool" where
  "same_kernel s s' = (kmem.more s = kmem.more s')"

lemma same_kernel_refl [simp]: "same_kernel s s"
  by (simp add: same_kernel_def)

lemma same_kernel_trans: "same_kernel s t \<Longrightarrow> same_kernel t u \<Longrightarrow> same_kernel s u"
  by (simp add: same_kernel_def)

lemma same_kernel_ram [simp]: "same_kernel s (t\<lparr>ram := m\<rparr>) \<longleftrightarrow> same_kernel s t"
  by (simp add: same_kernel_def)

lemma same_kernel_update: "same_kernel s s' \<Longrightarrow> s' = s\<lparr>kernel_heap := kernel_heap s', ram := ram s'\<rparr>"
  by (cases s; cases s') (simp add: same_kernel_def)

lemma same_kernel_fields:
  assumes "same_kernel (s :: 'a kernel_scheme) s'"
  shows "tasks s' = tasks s" "processes_at s' = processes_at s" "current_task s' = current_task s"
    "task_tail s' = task_tail s" "task_head s' = task_head s" "kernel_paging_chunk s' = kernel_paging_chunk s"
    "data_segments s' = data_segments s" "cr3 s' = cr3 s" "current_directory s' = current_directory s"
    "kernel.more s' = kernel.more s"
  using arg_cong [OF same_kernel_update [OF assms], of tasks] arg_cong [OF same_kernel_update [OF assms], of processes_at]
    arg_cong [OF same_kernel_update [OF assms], of current_task] arg_cong [OF same_kernel_update [OF assms], of task_tail]
    arg_cong [OF same_kernel_update [OF assms], of task_head] arg_cong [OF same_kernel_update [OF assms], of kernel_paging_chunk]
    arg_cong [OF same_kernel_update [OF assms], of data_segments] arg_cong [OF same_kernel_update [OF assms], of cr3]
    arg_cong [OF same_kernel_update [OF assms], of current_directory] arg_cong [OF same_kernel_update [OF assms], of kernel.more]
  by simp_all

lemma kzalloc_same: "kzalloc s n = Inr (p, s') \<Longrightarrow> same_kernel s s'"
  by (auto simp: kzalloc_def kmalloc_def cbind_eq_Inr same_kernel_def split: if_splits)

lemma kfree_same: "kfree s p = Inr s' \<Longrightarrow> same_kernel s s'"
  by (auto simp: kfree_def cbind_eq_Inr same_kernel_def)

lemma new_directory_loop_same:
  "new_directory_loop kzalloc flags pd n s = Inr (r, s') \<Longrightarrow> same_kernel s s'"
  by (induction n arbitrary: r s')
    (auto simp: cbind_eq_Inr Let_def dest!: kzalloc_same intro: same_kernel_trans)

lemma paging_new_directory_same:
  "paging_new_directory flags s = Inr (chunk, s') \<Longrightarrow> same_kernel s s'"
  by (auto simp: paging_new_directory_def new_directory_def cbind_eq_Inr
      dest!: kzalloc_same new_directory_loop_same intro: same_kernel_trans)

lemma free_tables_loop_same: "free_tables_loop kfree chunk n s = Inr s' \<Longrightarrow> same_kernel s s'"
  by (induction n arbitrary: s') (auto simp: cbind_eq_Inr Let_def dest!: kfree_same intro: same_kernel_trans)

lemma paging_free_directory_same: "paging_free_directory chunk s = Inr s' \<Longrightarrow> same_kernel s s'"
  by (auto simp: paging_free_directory_def free_directory_def cbind_eq_Inr
      dest!: kfree_same free_tables_loop_same intro: same_kernel_trans)

text \<open>The kernel's own state is no part of the heap's.\<close>

lemma kernel_update_simps [simp]:
  "kmem_inv (put_task p t s) = kmem_inv s" "kmem_owned (put_task p t s) = kmem_owned s"
  "kmem_room (put_task p t s) = kmem_room s" "ram (put_task p t s) = ram s"
  "kernel_heap (put_task p t s) = kernel_heap s"
  "tasks (put_task p t s) = (tasks s)(p := Some t)" "processes_at (put_task p t s) = processes_at s"
  "current_task (put_task p t s) = current_task s" "task_head (put_task p t s) = task_head s"
  "task_tail (put_task p t s) = task_tail s" "kernel_paging_chunk (put_task p t s) = kernel_paging_chunk s"
  "cr3 (put_task p t s) = cr3 s" "data_segments (put_task p t s) = data_segments s"
  by (simp_all add: put_task_def kmem_inv_def kmem_owned_def kmem_room_def)

lemma heap_only:
  "kernel_heap s' = kernel_heap s \<Longrightarrow> kmem_inv s' = kmem_inv s"
  "kernel_heap s' = kernel_heap s \<Longrightarrow> kmem_owned s' = kmem_owned s"
  "kernel_heap s' = kernel_heap s \<Longrightarrow> kmem_room s' = kmem_room s"
  by (simp_all add: kmem_inv_def kmem_owned_def kmem_room_def)

section \<open>The list of tasks\<close>

text \<open>The tasks \<open>ts\<close> are linked in this order, and one of them is current.\<close>

definition linked :: "(u32 \<Rightarrow> task option) \<Rightarrow> u32 list \<Rightarrow> nat \<Rightarrow> task \<Rightarrow> bool" where
  "linked st ts i t = (st (ts ! i) = Some t \<and> next_task t = (if Suc i < length ts then ts ! Suc i else 0)
     \<and> prev_task t = (if i = 0 then 0 else ts ! (i - 1)))"

definition task_list :: "'a kernel_scheme \<Rightarrow> u32 list \<Rightarrow> bool" where
  "task_list s ts = (distinct ts \<and> 0 \<notin> set ts \<and> (\<forall>i<length ts. \<exists>t. linked (tasks s) ts i t)
     \<and> task_head s = (if ts = [] then 0 else hd ts) \<and> (ts \<noteq> [] \<longrightarrow> task_tail s = last ts)
     \<and> (if ts = [] then current_task s = 0 else current_task s \<in> set ts))"

lemma task_list_same:
  "tasks s' = tasks s \<Longrightarrow> task_head s' = task_head s \<Longrightarrow> task_tail s' = task_tail s
   \<Longrightarrow> current_task s' = current_task s \<Longrightarrow> task_list s' ts = task_list s ts"
  by (simp add: task_list_def)

text \<open>The task after the current one, around the end of the list.\<close>

lemma task_get_next_spec:
  assumes "task_list s ts" and "i < length ts" and "current_task s = ts ! i"
  shows "task_get_next s = Inr (ts ! (Suc i mod length ts))"
proof -
  obtain t where t: "linked (tasks s) ts i t" using assms(1,2) by (auto simp: task_list_def)
  have h: "task_head s = ts ! 0" using assms(1,2) by (auto simp: task_list_def hd_conv_nth)
  show ?thesis
  proof (cases "Suc i < length ts")
    case True
    then have "ts ! Suc i \<in> set ts" by simp
    then have "ts ! Suc i \<noteq> 0" using assms(1) unfolding task_list_def by metis
    then show ?thesis using t True assms(3) by (simp add: task_get_next_def get_task_def linked_def)
  next
    case False
    then have "Suc i = length ts" using assms(2) by simp
    then show ?thesis using t h assms(3) by (simp add: task_get_next_def get_task_def linked_def)
  qed
qed

lemma task_list_append:
  assumes l: "task_list s ts" and ne: "ts \<noteq> []" and new: "p \<notin> set ts" "p \<noteq> 0"
    and z: "tasks s (last ts) = Some z"
    and st: "tasks s' = (tasks s)(last ts := Some (z\<lparr>next_task := p\<rparr>),
      p := Some (t\<lparr>next_task := 0, prev_task := last ts\<rparr>))"
    and rest: "task_head s' = task_head s" "task_tail s' = p" "current_task s' = current_task s"
  shows "task_list s' (ts @ [p])"
proof -
  have d: "distinct ts" "0 \<notin> set ts" "task_head s = hd ts" "current_task s \<in> set ts"
    using l ne by (auto simp: task_list_def)
  have lst: "last ts = ts ! (length ts - 1)" using ne by (simp add: last_conv_nth)
  have "\<exists>t. linked (tasks s') (ts @ [p]) i t" if i: "i < length (ts @ [p])" for i
  proof -
    consider "i = length ts" | "i = length ts - 1" "i < length ts" | "Suc i < length ts" using i by fastforce
    then show ?thesis
    proof cases
      case 1
      then show ?thesis using ne st lst by (auto simp: linked_def nth_append)
    next
      case 2
      then obtain u where u: "linked (tasks s) ts i u" using l by (auto simp: task_list_def)
      then have "u = z" using z lst 2(1) by (simp add: linked_def)
      moreover have "ts ! i \<noteq> p" using new 2(2) by auto
      ultimately have "linked (tasks s') (ts @ [p]) i (z\<lparr>next_task := p\<rparr>)"
        using u st lst 2 by (auto simp: linked_def nth_append)
      then show ?thesis ..
    next
      case 3
      then have "i < length ts" by simp
      then obtain u where u: "linked (tasks s) ts i u" using l unfolding task_list_def by blast
      have "ts ! i \<noteq> last ts" using 3 d(1) ne by (simp add: lst nth_eq_iff_index_eq)
      moreover have "ts ! i \<noteq> p" using new(1) 3 by (metis Suc_lessD nth_mem)
      ultimately have "linked (tasks s') (ts @ [p]) i u"
        using u st 3 by (auto simp: linked_def nth_append)
      then show ?thesis ..
    qed
  qed
  then show ?thesis
    using d ne new rest by (auto simp: task_list_def)
qed

section \<open>Creating a task\<close>

definition start_registers :: "u32 \<Rightarrow> registers" where
  "start_registers entry = zero_registers\<lparr>r_ip := entry, r_ss := 0x23, r_cs := 0x1b, r_esp := 0x3FF000, r_flags := 0x200\<rparr>"

text \<open>Every task lies on a page of its own.\<close>

definition tasks_owned :: "'a kernel_scheme \<Rightarrow> bool" where
  "tasks_owned s = (\<forall>a. tasks s a \<noteq> None \<longrightarrow> (a, 1) \<in> kmem_owned s)"

lemma task_init_spec:
  assumes inv: "kmem_inv s" and room: "1026 \<le> kmem_room s" and t: "tasks s task = Some t0"
    and p: "processes_at s process = Some p" and own: "(0, 1) \<notin> kmem_owned s"
  shows "\<exists>chunk pd pts s1 t. task_init s task process = Inr (0, put_task task t s1)
    \<and> kp.directory_built s 5 chunk pd pts s1 \<and> same_kernel (put_task task zero_task s) s1
    \<and> t = zero_task\<lparr>page_directory := chunk, registers := start_registers (elf_entry p), t_process := process\<rparr>"
proof -
  let ?s0 = "put_task task zero_task s"
  obtain chunk pd pts s1 where d: "paging_new_directory 5 ?s0 = Inr (chunk, s1)" "kp.directory_built ?s0 5 chunk pd pts s1"
    using kp.new_directory_spec [of ?s0 5] inv room by (auto simp: paging_new_directory_def)
  have b: "kp.directory_built s 5 chunk pd pts s1"
    using d(2) by (simp add: kp.directory_built_def)
  have "(chunk, 1) \<in> kmem_owned s1" "kmem_inv s1" using d(2) by (auto simp: kp.directory_built_def)
  then have "chunk \<noteq> 0" using kz.owned_aligned by blast
  moreover have same: "same_kernel ?s0 s1" using d(1) by (rule paging_new_directory_same)
  moreover have "processes_at s1 process = Some p" using same_kernel_fields(2) [OF same] p by simp
  moreover have "PAGING_IS_PRESENT OR PAGING_ACCESS_FROM_ALL = 5"
    by (simp add: PAGING_IS_PRESENT_def PAGING_ACCESS_FROM_ALL_def)
  ultimately have "task_init s task process = Inr (0, put_task task
    (zero_task\<lparr>page_directory := chunk, registers := start_registers (elf_entry p), t_process := process\<rparr>) s1)"
    using d(1) t by (simp add: task_init_def get_task_def get_process_def start_registers_def USER_DATA_SELECTOR_def
        USER_CODE_SELECTOR_def PROGRAM_VIRTUAL_STACK_ADDRESS_START_def zero_task_def)
  then show ?thesis using b same by blast
qed

lemma owned_not_null: "kmem_inv s \<Longrightarrow> (p, n) \<in> kmem_owned s \<Longrightarrow> p \<noteq> 0 \<and> page p"
  using kz.owned_aligned by (auto simp: page_def)

lemma task_new_built:
  assumes inv: "kmem_inv s" and room: "1027 \<le> kmem_room s" and l: "task_list s ts" and fresh: "tasks_owned s"
    and p: "processes_at s process = Some p"
  shows "\<exists>task s' chunk pd pts t. task_new s process = Inr (task, s') \<and> task_list s' (ts @ [task])
    \<and> task \<notin> set ts \<and> kmem_inv s' \<and> tasks_owned s'
    \<and> current_task s' = (if ts = [] then task else current_task s)
    \<and> tasks s' task = Some t \<and> page_directory t = chunk \<and> t_process t = process
    \<and> registers t = start_registers (elf_entry p)
    \<and> address_space (ram s') chunk pd pts
    \<and> (\<forall>v. page v \<longrightarrow> paging_get_page (ram s') pd v = v OR 5)
    \<and> (\<forall>p\<in>set (task # chunk # pd # pts). (p, 1) \<in> kmem_owned s') \<and> task \<notin> set (chunk # pd # pts)
    \<and> kmem_room s = kmem_room s' + 1027"
proof -
  obtain task s1 where z: "kzalloc s 64 = Inr (task, s1)" "kmem_inv s1" "kmem_room s = Suc (kmem_room s1)"
    "(task, 1) \<notin> kmem_owned s" "kmem_owned s1 = insert (task, 1) (kmem_owned s)"
    using kz.zalloc_serves [OF inv, of 64] room by auto
  have nz: "task \<noteq> 0" "(0, 1) \<notin> kmem_owned s1" using owned_not_null [OF z(2)] z(5) by auto
  have same1: "same_kernel s s1" using z(1) by (rule kzalloc_same)
  note f1 = same_kernel_fields [OF same1]
  define sp where "sp = put_task task zero_task s1"
  obtain chunk pd pts s2 t where i: "task_init sp task process = Inr (0, put_task task t s2)"
    "kp.directory_built sp 5 chunk pd pts s2" "same_kernel (put_task task zero_task sp) s2"
    "t = zero_task\<lparr>page_directory := chunk, registers := start_registers (elf_entry p), t_process := process\<rparr>"
    using task_init_spec [of sp task zero_task process p] z nz room p f1(2) by (auto simp: sp_def)
  note f2 = same_kernel_fields [OF i(3)]
  have built: "kmem_inv s2" "address_space (ram s2) chunk pd pts" "\<forall>v. page v \<longrightarrow> paging_get_page (ram s2) pd v = v OR 5"
    "kmem_owned s2 = kmem_owned s1 \<union> (\<lambda>p. (p, 1)) ` set (chunk # pd # pts)"
    "\<forall>p\<in>set (chunk # pd # pts). (p, 1) \<notin> kmem_owned s1" "kmem_room s1 = kmem_room s2 + 1026"
    using i(2) by (simp_all add: kp.directory_built_def sp_def)
  have own2: "\<forall>p\<in>set (task # chunk # pd # pts). (p, 1) \<in> kmem_owned s2" "task \<notin> set (chunk # pd # pts)"
    "kmem_room s = kmem_room s2 + 1027" using built(4-6) z(3,5) by auto
  have old: "tasks s2 = (tasks s)(task := Some zero_task)" using f2(1) f1(1) by (simp add: sp_def)
  have ts_old: "tasks s x \<noteq> None" if "x \<in> set ts" for x
    using l that by (auto simp: task_list_def linked_def in_set_conv_nth)
  have new: "task \<notin> set ts" using ts_old fresh z(4) by (auto simp: tasks_owned_def)
  show ?thesis
  proof (cases "ts = []")
    case True
    define s' where "s' = (put_task task t s2)\<lparr>task_head := task, task_tail := task, current_task := task\<rparr>"
    have "task_head (put_task task t s2) = 0" using l True f1(5) f2(5) by (simp add: task_list_def sp_def)
    then have "task_new s process = Inr (task, s')"
      using z(1) nz(1) i(1) by (simp add: task_new_def sp_def [symmetric] s'_def ISERR_def)
    moreover have "task_list s' (ts @ [task])"
      using True nz(1) i(4) by (simp add: s'_def task_list_def linked_def zero_task_def)
    moreover have hp: "kernel_heap s' = kernel_heap s2" "ram s' = ram s2" by (simp_all add: s'_def)
    moreover have "tasks_owned s'"
      using fresh z(5) built(4) old by (auto simp: tasks_owned_def s'_def kmem_owned_def)
    ultimately show ?thesis
      using True new built own2 heap_only [OF hp(1)] i(4)
      by (intro exI [of _ task] exI [of _ s'] exI [of _ chunk] exI [of _ pd] exI [of _ pts] exI [of _ t] conjI)
        (simp_all add: s'_def)
  next
    case False
    have tl: "task_tail s2 = last ts" "task_head s2 = task_head s" "task_head s \<noteq> 0" "current_task s2 = current_task s"
      using l False f1(3-5) f2(3-5) by (auto simp: task_list_def sp_def) (metis hd_in_set)
    obtain z' where z': "tasks s (last ts) = Some z'" using ts_old [of "last ts"] False by auto
    have lt: "last ts \<noteq> task" using new False by auto
    define s3 where "s3 = put_task (last ts) (z'\<lparr>next_task := task\<rparr>) (put_task task t s2)"
    define s' where "s' = (put_task task (t\<lparr>prev_task := last ts\<rparr>) s3)\<lparr>task_tail := task\<rparr>"
    have "task_new s process = Inr (task, s')"
      using z(1) nz(1) i(1) tl z' lt old
      by (simp add: task_new_def sp_def [symmetric] s'_def s3_def ISERR_def get_task_def Let_def)
    moreover have "task_list s' (ts @ [task])"
    proof (rule task_list_append [OF l False new nz(1) z', of s' t])
      show "tasks s' = (tasks s)(last ts \<mapsto> z'\<lparr>next_task := task\<rparr>, task \<mapsto> t\<lparr>next_task := 0, prev_task := last ts\<rparr>)"
        using old i(4) lt by (auto simp: s'_def s3_def zero_task_def fun_upd_def)
    qed (use tl in \<open>simp_all add: s'_def s3_def\<close>)
    moreover have hp: "kernel_heap s' = kernel_heap s2" "ram s' = ram s2" by (simp_all add: s'_def s3_def)
    moreover have "tasks_owned s'"
      using fresh z(5) built(4) old z' by (auto simp: tasks_owned_def s'_def s3_def kmem_owned_def)
    ultimately show ?thesis
      using False new built own2 heap_only [OF hp(1)] i(4) tl
      by (intro exI [of _ task] exI [of _ s'] exI [of _ chunk] exI [of _ pd] exI [of _ pts]
          exI [of _ "t\<lparr>prev_task := last ts\<rparr>"] conjI) (simp_all add: s'_def s3_def)
  qed
qed

text \<open>Without memory for the task the code frees the null pointer.\<close>

lemma task_new_out_of_memory:
  assumes "kzalloc s 64 = Inr (0, s1)" and "tasks s 0 = None"
  shows "task_new s process = Inl Null_Deref"
  using assms same_kernel_fields(1) [OF kzalloc_same [OF assms(1)]]
  by (simp add: task_new_def ISERR_def ENOMEM_def task_free_def get_task_def)

section \<open>Removing a task\<close>

text \<open>The forward links alone, which is what the scheduler walks.\<close>

definition chained :: "'a kernel_scheme \<Rightarrow> u32 list \<Rightarrow> bool" where
  "chained s ts = ((\<forall>i<length ts. \<exists>t. tasks s (ts ! i) = Some t \<and> next_task t = (if Suc i < length ts then ts ! Suc i else 0))
     \<and> task_head s = (if ts = [] then 0 else hd ts) \<and> (ts \<noteq> [] \<longrightarrow> task_tail s = last ts)
     \<and> (if ts = [] then current_task s = 0 else current_task s \<in> set ts))"

definition without :: "nat \<Rightarrow> 'b list \<Rightarrow> 'b list" where
  "without i xs = take i xs @ drop (Suc i) xs"

lemma nth_without: "i < length xs \<Longrightarrow> k < length xs - 1 \<Longrightarrow> without i xs ! k = (if k < i then xs ! k else xs ! Suc k)"
  by (auto simp: without_def nth_append min_def)

lemma length_without [simp]: "i < length xs \<Longrightarrow> length (without i xs) = length xs - 1"
  by (simp add: without_def)

lemma task_list_remove_chained:
  assumes l: "task_list s ts" and i: "i < length ts"
  shows "\<exists>s'. task_list_remove s (ts ! i) = Inr s' \<and> chained s' (without i ts)
    \<and> (\<forall>k<length ts. k \<noteq> i \<longrightarrow> map_option prev_task (tasks s' (ts ! k)) = Some (if k = 0 then 0 else ts ! (k - 1)))
    \<and> current_task s' = (if current_task s \<noteq> ts ! i then current_task s else if length ts = 1 then 0
         else ts ! (Suc i mod length ts))"
proof -
  have d: "distinct ts" "0 \<notin> set ts" "task_head s = ts ! 0" "task_tail s = ts ! (length ts - 1)" "current_task s \<in> set ts"
    using l i by (cases "ts = []"; auto simp: task_list_def hd_conv_nth last_conv_nth)+
  have tk: "\<exists>t. linked (tasks s) ts k t" if "k < length ts" for k
    using l that by (simp add: task_list_def)
  have nz: "ts ! k \<noteq> 0" if "k < length ts" for k using d(2) that nth_mem by metis
  have inj: "ts ! k = ts ! j \<longleftrightarrow> k = j" if "k < length ts" "j < length ts" for k j
    using d(1) that by (simp add: nth_eq_iff_index_eq)
  obtain t where t: "tasks s (ts ! i) = Some t" "next_task t = (if Suc i < length ts then ts ! Suc i else 0)"
    "prev_task t = (if i = 0 then 0 else ts ! (i - 1))"
    using tk [OF i] by (auto simp: linked_def)
  define s1 where "s1 = (if i = 0 then s else case tasks s (ts ! (i - 1)) of None \<Rightarrow> s
    | Some p \<Rightarrow> put_task (ts ! (i - 1)) (p\<lparr>next_task := next_task t\<rparr>) s)"
  have k1: "\<exists>u. tasks s1 (ts ! k) = Some u \<and> prev_task u = (if k = 0 then 0 else ts ! (k - 1))
      \<and> next_task u = (if Suc k = i then next_task t else if Suc k < length ts then ts ! Suc k else 0)"
    if k: "k < length ts" for k
  proof -
    obtain u where u: "linked (tasks s) ts k u" using tk [OF k] ..
    show ?thesis
    proof (cases "Suc k = i")
      case True
      then have "i = Suc k" by simp
      then show ?thesis using u by (simp add: s1_def linked_def)
    next
      case False
      have "i \<noteq> 0 \<Longrightarrow> ts ! k \<noteq> ts ! (i - 1)" using inj [OF k, of "i - 1"] i False by auto
      then have "tasks s1 (ts ! k) = tasks s (ts ! k)" by (simp add: s1_def split: option.split)
      then show ?thesis using u False by (simp add: linked_def)
    qed
  qed
  have step1: "(if prev_task t \<noteq> 0
            then cbind (get_task s (prev_task t)) (\<lambda>p. Inr (put_task (prev_task t) (p\<lparr>next_task := next_task t\<rparr>) s))
            else Inr s) = Inr s1"
  proof (cases "i = 0")
    case False
    have "i - 1 < length ts" using i by simp
    from tk [OF this] obtain p where "tasks s (ts ! (i - 1)) = Some p" by (auto simp: linked_def)
    then show ?thesis using False t(3) nz [of "i - 1"] i by (simp add: s1_def get_task_def)
  qed (use t(3) in \<open>simp add: s1_def\<close>)
  have same: "task_head s1 = ts ! 0" "task_tail s1 = ts ! (length ts - 1)" "current_task s1 = current_task s"
    using d by (auto simp: s1_def split: option.splits)
  define s2 where "s2 = (if i = 0 then s1\<lparr>task_head := next_task t\<rparr> else s1)"
  define s3 where "s3 = (if i = length ts - 1 then s2\<lparr>task_tail := prev_task t\<rparr> else s2)"
  have tasks3: "tasks s3 = tasks s1" "current_task s3 = current_task s" using same by (simp_all add: s3_def s2_def)
  have head3: "task_head s3 = (if length ts = 1 then 0 else without i ts ! 0)"
    using t(2) same i by (auto simp: s3_def s2_def nth_without)
  have tail3: "length ts \<noteq> 1 \<Longrightarrow> task_tail s3 = without i ts ! (length ts - 2)"
    using t(3) same i by (auto simp: s3_def s2_def nth_without numeral_2_eq_2 Suc_diff_Suc)
  define n where "n = (if current_task s \<noteq> ts ! i then current_task s else if length ts = 1 then 0
         else ts ! (Suc i mod length ts))"
  have nxt: "current_task s = ts ! i \<Longrightarrow> task_get_next s3 = Inr n"
  proof -
    assume c: "current_task s = ts ! i"
    obtain u where u: "tasks s1 (ts ! i) = Some u" "next_task u = (if Suc i < length ts then ts ! Suc i else 0)"
      using k1 [OF i] by auto
    show "task_get_next s3 = Inr n"
    proof (cases "Suc i < length ts")
      case True
      then show ?thesis using u c nz [OF True] tasks3 by (simp add: task_get_next_def get_task_def n_def)
    next
      case False
      then have "Suc i = length ts" using i by simp
      moreover from this have "length ts \<noteq> 1 \<Longrightarrow> task_head s3 = ts ! 0" using head3 i by (simp add: nth_without)
      ultimately show ?thesis using u c tasks3 head3 by (auto simp: task_get_next_def get_task_def n_def)
    qed
  qed
  define s' where "s' = s3\<lparr>current_task := n\<rparr>"
  have c3: "s3\<lparr>current_task := n\<rparr> = s3" if "current_task s \<noteq> ts ! i"
    using that tasks3(2) by (simp add: n_def)
  have hd_eq: "(ts ! i = ts ! 0) = (i = 0)" "(ts ! i = ts ! (length ts - 1)) = (i = length ts - 1)"
    using inj [OF i, of 0] inj [OF i, of "length ts - 1"] i by (fastforce, fastforce)
  have tail2: "task_tail s2 = ts ! (length ts - 1)" using same(2) by (simp add: s2_def)
  have e2: "(if ts ! i = task_head s1 then s1\<lparr>task_head := next_task t\<rparr> else s1) = s2"
    by (simp only: same(1) hd_eq(1) s2_def)
  have e3: "(if ts ! i = task_tail s2 then s2\<lparr>task_tail := prev_task t\<rparr> else s2) = s3"
    by (simp only: tail2 hd_eq(2) s3_def)
  have run: "task_list_remove s (ts ! i) = Inr s'"
  proof -
    have g: "get_task s (ts ! i) = Inr t" using t(1) by (simp add: get_task_def)
    have "task_list_remove s (ts ! i) = (if ts ! i = current_task s3
        then cbind (task_get_next s3) (\<lambda>n. Inr (s3\<lparr>current_task := n\<rparr>)) else Inr s3)"
      by (simp only: task_list_remove_def g cbind_simps step1 Let_def e2 e3)
    then show ?thesis using nxt c3 tasks3(2) by (auto simp: s'_def)
  qed
  have "chained s' (without i ts)"
    unfolding chained_def
  proof (intro conjI allI impI)
    fix k assume k: "k < length (without i ts)"
    then have kk: "k < length ts - 1" using i by simp
    show "\<exists>t. tasks s' (without i ts ! k) = Some t
        \<and> next_task t = (if Suc k < length (without i ts) then without i ts ! Suc k else 0)"
    proof (cases "k < i")
      case True
      then show ?thesis using k1 [of k] t(2) i kk tasks3
        by (cases "Suc k = i") (auto simp: s'_def nth_without)
    next
      case False
      have "Suc k < length ts" "Suc (Suc k) < length ts \<longleftrightarrow> Suc k < length ts - 1" using kk by auto
      with k1 [OF this(1)] False i kk tasks3 show ?thesis by (auto simp: s'_def nth_without)
    qed
  next
    show "task_head s' = (if without i ts = [] then 0 else hd (without i ts))"
      using head3 i by (auto simp: s'_def hd_conv_nth simp flip: length_0_conv)
  next
    assume "without i ts \<noteq> []"
    then have "length ts \<noteq> 1" "last (without i ts) = without i ts ! (length ts - 2)"
      using i by (auto simp: last_conv_nth numeral_2_eq_2 simp flip: length_0_conv)
    then show "task_tail s' = last (without i ts)" using tail3 by (simp add: s'_def)
  next
    have in_w: "ts ! k \<in> set (without i ts)" if "k < length ts" "k \<noteq> i" for k
    proof (cases "k < i")
      case True
      then show ?thesis using nth_without [OF i, of k] i that nth_mem [of k "without i ts"] by simp
    next
      case False
      then have "i < k" using that by simp
      then obtain j where "k = Suc j" "i \<le> j" by (auto dest: less_imp_Suc_add)
      then show ?thesis using nth_without [OF i, of j] i that nth_mem [of j "without i ts"] by auto
    qed
    have "n \<in> set (without i ts)" if "length ts \<noteq> 1"
    proof (cases "current_task s = ts ! i")
      case True
      have "Suc i mod length ts \<noteq> i" using i that by (cases "Suc i = length ts") auto
      moreover have "Suc i mod length ts < length ts" using i by (intro mod_less_divisor) linarith
      ultimately show ?thesis using in_w True that by (simp add: n_def)
    next
      case False
      obtain k where "k < length ts" "ts ! k = current_task s" using d(5) by (auto simp: in_set_conv_nth)
      then show ?thesis using False in_w [of k] by (cases "k = i") (simp_all add: n_def)
    qed
    moreover have "n = 0" if "length ts = 1"
      using that d(5) i by (auto simp: n_def length_Suc_conv)
    ultimately show "if without i ts = [] then current_task s' = 0 else current_task s' \<in> set (without i ts)"
      using i by (auto simp: s'_def simp flip: length_0_conv)
  qed
  moreover have "\<forall>k<length ts. k \<noteq> i \<longrightarrow> map_option prev_task (tasks s' (ts ! k)) = Some (if k = 0 then 0 else ts ! (k - 1))"
    using k1 tasks3 by (fastforce simp: s'_def)
  ultimately show ?thesis using run n_def by (intro exI [of _ s']) (simp add: s'_def)
qed

lemma nth_nonzero: "0 \<notin> set xs \<Longrightarrow> i < length xs \<Longrightarrow> xs ! i \<noteq> 0"
  by (metis nth_mem)

lemma task_remove_stale:
  assumes l: "task_list s ts" and i: "Suc i < length ts"
  shows "\<exists>s'. task_list_remove s (ts ! i) = Inr s' \<and> chained s' (without i ts)
    \<and> task_list_remove (s'\<lparr>tasks := (tasks s')(ts ! i := None)\<rparr>) (ts ! Suc i) = Inl Null_Deref"
proof -
  have i': "i < length ts" using i by simp
  obtain s' where s': "task_list_remove s (ts ! i) = Inr s'" "chained s' (without i ts)"
    "map_option prev_task (tasks s' (ts ! Suc i)) = Some (ts ! i)"
    using task_list_remove_chained [OF l i'] i by fastforce
  then obtain t where t: "tasks s' (ts ! Suc i) = Some t" "prev_task t = ts ! i" by auto
  have "0 \<notin> set ts" "distinct ts" using l by (simp_all add: task_list_def)
  then have "ts ! i \<noteq> 0" "ts ! Suc i \<noteq> ts ! i"
    using i nth_nonzero [OF _ i'] by (auto simp: nth_eq_iff_index_eq)
  then show ?thesis
    using s'(1,2) t by (simp add: task_list_remove_def get_task_def)
qed

section \<open>Reading through an address space\<close>

lemma lower_page: "page (paging_align_address_to_lower_page v)" "paging_align_address_to_lower_page v + v mod 4096 = v"
proof -
  have "unat (v - v mod 4096) = unat v - unat v mod 4096"
    by (simp add: unat_sub word_le_nat_alt unat_mod)
  then have "unat (v - v mod 4096) mod 4096 = 0"
    by (metis minus_mod_eq_mult_div mod_mult_self1_is_0)
  then show "page (paging_align_address_to_lower_page v)" by (simp add: page_def paging_align_address_to_lower_page_def)
qed (simp add: paging_align_address_to_lower_page_def)

text \<open>Where a byte of the address space lies, by its table entry.\<close>

definition entry_addr :: "u32 \<Rightarrow> u32 \<Rightarrow> u32 option" where
  "entry_addr e v = (if bit e 0 then Some ((e AND 0xfffff000) + v mod 4096) else None)"

lemma vm_addr_entry: "vm_addr m pd v = entry_addr (paging_get_page m pd (paging_align_address_to_lower_page v)) v"
  by (simp add: vm_addr_def entry_addr_def Let_def)

definition agree_outside :: "u32 \<Rightarrow> (u32 \<Rightarrow> byte) \<Rightarrow> (u32 \<Rightarrow> byte) \<Rightarrow> bool" where
  "agree_outside p m m' = (\<forall>a. a \<notin> region p 1 \<longrightarrow> m' a = m a)"

lemma agree_load:
  assumes "agree_outside p m m'" "page p" "page q" "k < 1024" "p \<noteq> q"
  shows "load32 m' (slot q k) = load32 m (slot q k)"
  using assms slot_in_page [OF assms(2-4)] by (simp add: load_slot agree_outside_def)

lemma agree_space:
  assumes a: "agree_outside p m m'" "page p" and sp: "address_space m chunk pd pts" "p \<notin> set (chunk # pd # pts)"
  shows "address_space m' chunk pd pts" and "page v \<Longrightarrow> paging_get_page m' pd v = paging_get_page m pd v"
proof -
  have pg: "page chunk" "page pd" "list_all page pts" "length pts = 1024"
    using sp(1) by (simp_all add: address_space_def has_tables_def)
  have "load32 m' chunk = load32 m chunk"
    using agree_load [OF a pg(1), of 0] sp(2) by (auto simp: slot_def)
  moreover have l: "load32 m' (slot pd i) = load32 m (slot pd i)" if "i < 1024" for i
    using agree_load [OF a pg(2) that] sp(2) by auto
  ultimately show s': "address_space m' chunk pd pts"
    using sp(1) by (simp add: address_space_def has_tables_def)
  show "paging_get_page m' pd v = paging_get_page m pd v" if v: "page v"
  proof -
    have i: "pts ! dir_index v \<in> set pts" "page (pts ! dir_index v)" using pg(3,4) by (auto simp: list_all_length)
    then have "load32 m' (slot (pts ! dir_index v) (tab_index v)) = load32 m (slot (pts ! dir_index v) (tab_index v))"
      using agree_load [OF a i(2), of "tab_index v"] sp(2) by auto
    then show ?thesis
      using get_page_eq [OF _ v, of m pd pts] get_page_eq [OF _ v, of m' pd pts] s' sp(1) unfolding address_space_def by metis
  qed
qed

lemma space_set_page:
  assumes sp: "address_space m chunk pd pts" and v: "page v"
  shows "\<exists>m'. paging_set_page m pd v x = (0, m') \<and> address_space m' chunk pd pts
    \<and> (\<forall>w. page w \<longrightarrow> paging_get_page m' pd w = (if w = v then x else paging_get_page m pd w))
    \<and> (\<forall>a. (\<forall>p\<in>set pts. a \<notin> region p 1) \<longrightarrow> m' a = m a)"
proof -
  have t: "has_tables m pd pts" and c: "page chunk" "chunk \<notin> set (pd # pts)" "load32 m chunk = pd"
    using sp by (simp_all add: address_space_def)
  let ?p = "pts ! dir_index v" let ?m = "store32 m (slot ?p (tab_index v)) x"
  have p: "page ?p" "?p \<in> set pts" using table_page [OF t, of "dir_index v"] t by (auto simp: has_tables_def)
  have out: "?m a = m a" if "a \<notin> region ?p 1" for a by (rule store_slot_outside [OF p(1) _ that]) simp
  have "chunk \<noteq> ?p" using c(2) p(2) by auto
  then have "load32 ?m (slot chunk 0) = load32 m (slot chunk 0)"
    using load_store_slot [OF p(1) c(1), of "tab_index v" 0] by auto
  then have "address_space ?m chunk pd pts"
    using set_keeps_tables [OF t, of "dir_index v" "tab_index v" x] c by (simp add: address_space_def slot_def)
  then show ?thesis
    using set_page_eq [OF t v, of x] get_set_page [OF t v, of _ x] out p(2) by auto
qed

section \<open>Copying a string out of a task\<close>

lemma tmp_addr:
  assumes "page tmp" and "i < 4096"
  shows "paging_align_address_to_lower_page (tmp + word_of_nat i) = tmp" "(tmp + word_of_nat i) mod 4096 = word_of_nat i"
    "unat (tmp + word_of_nat i) = unat tmp + i" "tmp + word_of_nat i \<in> region tmp 1"
proof -
  have u: "unat (tmp + word_of_nat i) = unat tmp + i"
    using page_bound [OF assms(1)] assms(2) by (simp add: unat_word_ariths unat_of_nat_small)
  then show "unat (tmp + word_of_nat i) = unat tmp + i" .
  then show "tmp + word_of_nat i \<in> region tmp 1" using assms(2) by (simp add: region_def)
  obtain q where q: "unat tmp = 4096 * q" using assms(1) by (auto simp: page_def elim: dvdE)
  have "unat ((tmp + word_of_nat i) mod 4096) = i"
    using u q assms(2) by (simp add: unat_mod)
  then show m: "(tmp + word_of_nat i) mod 4096 = word_of_nat i"
    using assms(2) by (simp add: word_unat_eq_iff unat_of_nat_small)
  then show "paging_align_address_to_lower_page (tmp + word_of_nat i) = tmp"
    unfolding paging_align_address_to_lower_page_def m by simp
qed

lemma tmp_mapped:
  assumes "page tmp" and "i < 4096" and "paging_get_page m pd tmp = tmp OR 7"
  shows "vm_addr m pd (tmp + word_of_nat i) = Some (tmp + word_of_nat i)"
proof -
  have "(tmp OR 7) AND 0xfffff000 = tmp"
    using mask_entry [OF assms(1), of 7 0] by simp
  moreover have "bit (tmp OR 7) 0" by (simp add: bit_simps)
  ultimately show ?thesis
    using tmp_addr [OF assms(1,2)] assms(3) by (simp add: vm_addr_entry entry_addr_def)
qed

text \<open>The string at \<open>va\<close> in the address space; it lies neither on the page \<open>tmp\<close> nor on a page table.\<close>

definition user_string :: "(u32 \<Rightarrow> byte) \<Rightarrow> u32 \<Rightarrow> u32 list \<Rightarrow> u32 \<Rightarrow> u32 \<Rightarrow> byte list \<Rightarrow> bool" where
  "user_string m pd pts tmp va str = (0 \<notin> set str \<and> (\<forall>i\<le>length str.
     paging_align_address_to_lower_page (va + word_of_nat i) \<noteq> tmp
     \<and> (\<exists>a. vm_addr m pd (va + word_of_nat i) = Some a \<and> a \<notin> region tmp 1 \<and> (\<forall>p\<in>set pts. a \<notin> region p 1)
            \<and> m a = (str @ [0]) ! i)))"

lemma vm_strncpy_loop_spec:
  assumes tmp: "page tmp" "tmp \<notin> set (chunk # pd # pts)" and n: "0 < n" "n < 4096"
    and sp: "address_space m chunk pd pts" "paging_get_page m pd tmp = tmp OR 7"
    and str: "user_string m pd pts tmp va str"
    and i: "int i \<le> n - 1" "i \<le> length str" "\<forall>j<i. m (tmp + word_of_nat j) = str ! j"
  shows "\<exists>m'. vm_strncpy_loop m pd tmp va n i = Inr m' \<and> agree_outside tmp m m'
    \<and> (\<forall>j<min (length str) (nat (n - 1)). m' (tmp + word_of_nat j) = str ! j)
    \<and> m' (tmp + word_of_nat (min (length str) (nat (n - 1)))) = 0"
  using sp str i
proof (induction "nat (n - 1) - i" arbitrary: m i)
  case 0
  then have ii: "i = nat (n - 1)" "i < 4096" using n by auto
  have "vstore8 m pd (tmp + word_of_nat i) 0 = Inr (m(tmp + word_of_nat i := 0))"
    using tmp_mapped [OF tmp(1) ii(2) "0.prems"(2)] by (simp add: vstore8_def)
  moreover have "tmp + word_of_nat j \<noteq> tmp + word_of_nat i" if "j < i" for j
    using tmp_addr(3) [OF tmp(1), of j] tmp_addr(3) [OF tmp(1), of i] that ii(2) by auto
  moreover have "min (length str) (nat (n - 1)) = i" using "0.prems"(5) ii(1) by simp
  moreover have "agree_outside tmp m (m(tmp + word_of_nat i := 0))"
    using tmp_addr(4) [OF tmp(1) ii(2)] by (auto simp: agree_outside_def)
  ultimately show ?case
    using "0.prems"(6) ii(1) n(1) by (simp add: vm_strncpy_loop.simps [of m])
next
  case (Suc k)
  have lt: "int i < n - 1" "i < 4096" using Suc.hyps(2) n by auto
  obtain a where a: "vm_addr m pd (va + word_of_nat i) = Some a" "a \<notin> region tmp 1" "m a = (str @ [0]) ! i"
    using Suc.prems(3,5) by (auto simp: user_string_def)
  have ld: "vload8 m pd (va + word_of_nat i) = Inr ((str @ [0]) ! i)" using a by (simp add: vload8_def)
  have st: "vstore8 m pd (tmp + word_of_nat i) c = Inr (m(tmp + word_of_nat i := c))" for c
    using tmp_mapped [OF tmp(1) lt(2) Suc.prems(2)] by (simp add: vstore8_def)
  have ag: "agree_outside tmp m (m(tmp + word_of_nat i := c))" for c
    using tmp_addr(4) [OF tmp(1) lt(2)] by (auto simp: agree_outside_def)
  have ne: "tmp + word_of_nat j \<noteq> tmp + word_of_nat i" if "j < i" for j
    using tmp_addr(3) [OF tmp(1), of j] tmp_addr(3) [OF tmp(1), of i] that lt(2) by auto
  show ?case
  proof (cases "i = length str")
    case True
    then have "min (length str) (nat (n - 1)) = i" using lt by simp
    then show ?thesis
      using True ld st [of 0] ag [of 0] lt Suc.prems(6) ne by (simp add: vm_strncpy_loop.simps [of m])
  next
    case False
    then have il: "i < length str" using Suc.prems(5) by simp
    then have c: "(str @ [0]) ! i = str ! i" "str ! i \<noteq> 0"
      using Suc.prems(3) nth_nonzero [OF _ il] il by (simp_all add: nth_append user_string_def)
    let ?m = "m(tmp + word_of_nat i := str ! i)"
    have sp': "address_space ?m chunk pd pts" and gp: "page v \<Longrightarrow> paging_get_page ?m pd v = paging_get_page m pd v" for v
      using agree_space [OF ag tmp(1) Suc.prems(1) tmp(2)] by blast+
    have vm: "vm_addr ?m pd v = vm_addr m pd v" for v
      using gp [OF lower_page(1)] by (simp add: vm_addr_entry)
    have us: "user_string ?m pd pts tmp va str"
      using Suc.prems(3) tmp_addr(4) [OF tmp(1) lt(2)] unfolding user_string_def vm by fastforce
    have pre: "\<forall>j<Suc i. ?m (tmp + word_of_nat j) = str ! j"
      using Suc.prems(6) ne by (simp add: less_Suc_eq)
    have k: "k = nat (n - 1) - Suc i" "int (Suc i) \<le> n - 1" "Suc i \<le> length str"
      using Suc.hyps(2) lt(1) il by auto
    have gt: "paging_get_page ?m pd tmp = tmp OR 7" using gp [OF tmp(1)] Suc.prems(2) by simp
    obtain m' where m': "vm_strncpy_loop ?m pd tmp va n (Suc i) = Inr m'" "agree_outside tmp ?m m'"
      "\<forall>j<min (length str) (nat (n - 1)). m' (tmp + word_of_nat j) = str ! j"
      "m' (tmp + word_of_nat (min (length str) (nat (n - 1)))) = 0"
      using Suc.hyps(1) [OF k(1) sp' gt us k(2,3) pre] by blast
    have "agree_outside tmp m m'" using m'(2) ag [of "str ! i"] by (simp add: agree_outside_def)
    then show ?thesis
      using m' ld st [of "str ! i"] c lt by (simp add: vm_strncpy_loop.simps [of m])
  qed
qed

lemma agree_outside_refl [simp]: "agree_outside p m m"
  by (simp add: agree_outside_def)

lemma kernel_page_simps [simp]:
  "ram (kernel_page s) = ram s" "kernel_heap (kernel_page s) = kernel_heap s" "tasks (kernel_page s) = tasks s"
  "processes_at (kernel_page s) = processes_at s" "current_task (kernel_page s) = current_task s"
  "task_head (kernel_page s) = task_head s" "task_tail (kernel_page s) = task_tail s"
  "cr3 (kernel_page s) = load32 (ram s) (kernel_paging_chunk s)"
  "kernel_paging_chunk (kernel_page s) = kernel_paging_chunk s"
  by (simp_all add: kernel_page_def Let_def kernel_registers_def paging_switch_def paging_load_directory_def)

lemma paging_switch_simps [simp]:
  "ram (paging_switch s c) = ram s" "kernel_heap (paging_switch s c) = kernel_heap s"
  "cr3 (paging_switch s c) = load32 (ram s) c"
  by (simp_all add: paging_switch_def Let_def paging_load_directory_def)

lemma paging_switch_kernel [simp]:
  "tasks (paging_switch s c) = tasks s" "processes_at (paging_switch s c) = processes_at s"
  "current_task (paging_switch s c) = current_task s" "task_head (paging_switch s c) = task_head s"
  "task_tail (paging_switch s c) = task_tail s" "kernel_paging_chunk (paging_switch s c) = kernel_paging_chunk s"
  "data_segments (paging_switch s c) = data_segments s"
  by (simp_all add: paging_switch_def Let_def paging_load_directory_def)

lemma cstr_ram_bytes:
  assumes "\<forall>j<k. m (p + word_of_nat j) = str ! j" and "m (p + word_of_nat k) = 0" and "0 \<notin> set str"
    and "k \<le> length str" and "k < n"
  shows "cstr (ram_bytes m p n) = take k str" and "has_nul (ram_bytes m p n)"
proof -
  have "ram_bytes m p n = map (\<lambda>i. m (p + word_of_nat i)) [0..<k] @ m (p + word_of_nat k) # map (\<lambda>i. m (p + word_of_nat i)) [Suc k..<n]"
    using assms(5) upt_add_eq_append [of 0 k "n - k"] by (simp add: ram_bytes_def upt_conv_Cons)
  moreover have "map (\<lambda>i. m (p + word_of_nat i)) [0..<k] = take k str"
    using assms(1,4) by (simp add: list_eq_iff_nth_eq)
  ultimately have e: "ram_bytes m p n = take k str @ 0 # map (\<lambda>i. m (p + word_of_nat i)) [Suc k..<n]"
    using assms(2) by simp
  show "has_nul (ram_bytes m p n)" unfolding e by simp
  show "cstr (ram_bytes m p n) = take k str"
    unfolding e by (rule cstr_append_nul) (use assms(3) in \<open>auto dest: in_set_takeD\<close>)
qed

lemma task_copy_string_spec:
  assumes inv: "kmem_inv s" and room: "0 < kmem_room s" and n: "0 < n" "n < 4096"
    and z: "kzalloc s (word_of_int n) = Inr (tmp, s1)"
    and t: "tasks s task = Some t" and sp: "address_space (ram s) (page_directory t) pd pts"
    and own: "\<forall>p\<in>set (page_directory t # pd # pts). (p, 1) \<in> kmem_owned s"
    and str: "user_string (ram s) pd pts tmp va str" and dest: "nat n \<le> length dest"
  shows "\<exists>s'. task_copy_string_from s task va dest n
      = Inr (0, blit dest 0 (take (nat (n - 1)) str @ [0]), s')
    \<and> kmem_inv s' \<and> kmem_owned s' = kmem_owned s \<and> tasks s' = tasks s
    \<and> address_space (ram s') (page_directory t) pd pts
    \<and> (\<forall>w. page w \<longrightarrow> paging_get_page (ram s') pd w = paging_get_page (ram s) pd w)"
proof -
  let ?c = "page_directory t" let ?k = "min (length str) (nat (n - 1))"
  have un: "unat (word_of_int n :: u32) = nat n" using n by (simp add: unat_of_int_small)
  obtain p s1' where z': "kzalloc s (word_of_int n) = Inr (p, s1')" "kmem_inv s1'"
    "(p, 1) \<notin> kmem_owned s" "kmem_owned s1' = insert (p, 1) (kmem_owned s)"
    "ram s1' = (\<lambda>a. if unat (a - p) < unat (word_of_int n :: u32) then 0 else ram s a)"
  proof -
    have "0 < unat (word_of_int n :: u32)" "unat (word_of_int n :: u32) \<le> 4096" using un n by auto
    from kz.zalloc_serves [OF inv room this] show thesis using that by auto
  qed
  then have eq: "p = tmp" "s1' = s1" using z by auto
  note z1 = z'(2-5) [unfolded eq]
  have pt: "tmp \<noteq> 0" "page tmp" using owned_not_null [OF z1(1), of tmp 1] z1(3) by auto
  have tn: "tmp \<notin> set (?c # pd # pts)" using own z1(2) by auto
  note f1 = same_kernel_fields [OF kzalloc_same [OF z]]
  have ag1: "agree_outside tmp (ram s) (ram s1)"
    using in_page_iff [OF pt(2)] n un by (auto simp: agree_outside_def z1(4))
  note sp1 = agree_space [OF ag1 pt(2) sp tn]
  define old where "old = paging_get_page (ram s1) pd tmp"
  obtain m2 where m2: "paging_set_page (ram s1) pd tmp (tmp OR 7) = (0, m2)" "address_space m2 ?c pd pts"
    "\<forall>w. page w \<longrightarrow> paging_get_page m2 pd w = (if w = tmp then tmp OR 7 else paging_get_page (ram s1) pd w)"
    "\<forall>a. (\<forall>p\<in>set pts. a \<notin> region p 1) \<longrightarrow> m2 a = ram s1 a"
    using space_set_page [OF sp1(1) pt(2), of "tmp OR 7"] by auto
  have us2: "user_string m2 pd pts tmp va str"
    unfolding user_string_def
  proof (intro conjI allI impI)
    fix i assume i: "i \<le> length str"
    let ?v = "va + word_of_nat i"
    obtain a where a: "vm_addr (ram s) pd ?v = Some a" "a \<notin> region tmp 1" "\<forall>p\<in>set pts. a \<notin> region p 1"
      "ram s a = (str @ [0]) ! i" "paging_align_address_to_lower_page ?v \<noteq> tmp"
      using str i unfolding user_string_def by blast
    have "vm_addr m2 pd ?v = Some a"
      using a(1,5) m2(3) sp1(2) lower_page(1) by (simp add: vm_addr_entry)
    moreover have "m2 a = ram s a" using m2(4) a(2,3) ag1 by (simp add: agree_outside_def)
    ultimately show "\<exists>a. vm_addr m2 pd ?v = Some a \<and> a \<notin> region tmp 1 \<and> (\<forall>p\<in>set pts. a \<notin> region p 1) \<and> m2 a = (str @ [0]) ! i"
      using a by auto
    show "paging_align_address_to_lower_page ?v \<noteq> tmp" by (rule a(5))
  qed (use str in \<open>simp add: user_string_def\<close>)
  obtain m3 where m3: "vm_strncpy_loop m2 pd tmp va n 0 = Inr m3" "agree_outside tmp m2 m3"
    "\<forall>j<?k. m3 (tmp + word_of_nat j) = str ! j" "m3 (tmp + word_of_nat ?k) = 0"
    using vm_strncpy_loop_spec [OF pt(2) tn n m2(2) _ us2, of 0] m2(3) pt(2) n by auto
  note sp3 = agree_space [OF m3(2) pt(2) m2(2) tn]
  obtain m4 where m4: "paging_set_page m3 pd tmp old = (0, m4)" "address_space m4 ?c pd pts"
    "\<forall>w. page w \<longrightarrow> paging_get_page m4 pd w = (if w = tmp then old else paging_get_page m3 pd w)"
    "\<forall>a. (\<forall>p\<in>set pts. a \<notin> region p 1) \<longrightarrow> m4 a = m3 a"
    using space_set_page [OF sp3(1) pt(2), of old] by auto
  have pgs: "list_all page pts" using sp by (simp add: address_space_def has_tables_def)
  have keep: "m4 (tmp + word_of_nat j) = m3 (tmp + word_of_nat j)" if "j < 4096" for j
  proof -
    have "tmp + word_of_nat j \<in> region tmp 1" by (rule tmp_addr(4) [OF pt(2) that])
    moreover have "region tmp 1 \<inter> region p 1 = {}" if "p \<in> set pts" for p
      using kz.owned_disjoint [OF z1(1), of tmp 1 p 1] own that z1(2,3) by auto
    ultimately show ?thesis using m4(4) by blast
  qed
  have cs: "cstr (ram_bytes m4 tmp (nat n)) = take ?k str" "has_nul (ram_bytes m4 tmp (nat n))"
  proof -
    have k: "?k \<le> nat (n - 1)" "?k \<le> length str" by simp_all
    have k4: "?k < 4096" "?k < nat n" using k(1) n by linarith+
    have "m4 (tmp + word_of_nat j) = str ! j" if "j < ?k" for j using m3(3) keep [of j] that k4(1) by simp
    moreover have "m4 (tmp + word_of_nat ?k) = 0" using m3(4) keep [OF k4(1)] by simp
    moreover have "0 \<notin> set str" using str by (simp add: user_string_def)
    ultimately show "cstr (ram_bytes m4 tmp (nat n)) = take ?k str" "has_nul (ram_bytes m4 tmp (nat n))"
      using cstr_ram_bytes [of ?k m4 tmp str "nat n"] k(2) k4(2) by blast+
  qed
  have cp: "strncpy dest 0 (ram_bytes m4 tmp (nat n)) n = Inr (blit dest 0 (take (nat (n - 1)) str @ [0]))"
  proof -
    have "take ?k str = take (nat (n - 1)) str" by (simp add: min_def)
    moreover have "?k < length dest" using dest n by linarith
    ultimately show ?thesis
      using strncpy_spec [of "ram_bytes m4 tmp (nat n)" n 0 dest] cs by (simp add: min_def)
  qed
  define s5 where "s5 = (kernel_page ((paging_switch (s1\<lparr>ram := m2\<rparr>) ?c)\<lparr>ram := m3\<rparr>))\<lparr>ram := m4\<rparr>"
  have h5: "kernel_heap s5 = kernel_heap s1" "ram s5 = m4" "tasks s5 = tasks s1" by (simp_all add: s5_def)
  have o5: "kmem_inv s5" "(tmp, 1) \<in> kmem_owned s5" "kmem_owned s5 = insert (tmp, 1) (kmem_owned s)"
    using heap_only [OF h5(1)] z1(1,3) by auto
  obtain s6 where s6: "kfree s5 tmp = Inr s6" "kmem_inv s6" "kmem_owned s6 = kmem_owned s5 - {(tmp, 1)}" "ram s6 = ram s5"
    using kf.frees [OF o5(1,2)] by blast
  have "tasks s6 = tasks s" using same_kernel_fields(1) [OF kfree_same [OF s6(1)]] h5(3) f1(1) by simp
  have ld: "load32 (ram s1) ?c = pd" "load32 m2 ?c = pd" using sp1(1) m2(2) by (simp_all add: address_space_def)
  have fl: "tmp OR ucast PAGING_IS_PRESENT OR ucast PAGING_IS_WRITEABLE OR ucast PAGING_ACCESS_FROM_ALL = tmp OR 7"
    by (simp add: PAGING_IS_PRESENT_def PAGING_IS_WRITEABLE_def PAGING_ACCESS_FROM_ALL_def or.assoc)
  have "get_task s1 task = Inr t" using t f1(1) by (simp add: get_task_def)
  then have "task_copy_string_from s task va dest n = Inr (0, blit dest 0 (take (nat (n - 1)) str @ [0]), s6)"
    using n(2) z pt(1) ld m2(1) m3(1) m4(1) cp s6(1)
    by (simp add: task_copy_string_from_def Let_def fl old_def [symmetric] s5_def)
  moreover have "\<forall>w. page w \<longrightarrow> paging_get_page (ram s6) pd w = paging_get_page (ram s) pd w"
    using m4(3) sp3(2) m2(3) sp1(2) s6(4) h5(2) by (simp add: old_def)
  moreover have "kmem_owned s6 = kmem_owned s" using s6(3) o5(3) z1(2) by simp
  ultimately show ?thesis
    using s6(2,4) \<open>tasks s6 = tasks s\<close> m4(2) h5(2) by auto
qed

lemma tmp_mapped_user:
  assumes "page p" and "i < 4096" and "paging_get_page m pd p = p OR 5"
  shows "vm_addr m pd (p + word_of_nat i) = Some (p + word_of_nat i)"
proof -
  have "(p OR 5) AND 0xfffff000 = p"
    using mask_entry [OF assms(1), of 5 0] by simp
  moreover have "bit (p OR 5) 0" by (simp add: bit_simps)
  ultimately show ?thesis
    using tmp_addr [OF assms(1,2)] assms(3) by (simp add: vm_addr_entry entry_addr_def)
qed

section \<open>A machine to evaluate on\<close>

definition sample_process :: process where
  "sample_process = \<lparr>p_id = 0, p_filename = [115, 104, 0], p_task = 0, allocations = replicate 1024 0, p_elf = 0,
     p_stack = 0, p_bss = 0, p_framebuffer = 0, key_buffer = replicate 1024 0, key_tail = 0, key_head = 0,
     elf_entry = 0x400000, argc = 0, argv = []\<rparr>"

definition boot_kernel :: kernel where
  "boot_kernel = \<lparr>kernel_heap = kernel_heap fresh_kernel, ram = (\<lambda>_. 0), current_directory = 0, cr3 = 0,
     tasks = (\<lambda>_. None), processes_at = [0x900000 \<mapsto> sample_process], current_task = 0, task_tail = 0, task_head = 0,
     kernel_paging_chunk = 0, data_segments = 0x10\<rparr>"

lemma boot_kernel: "kmem_inv boot_kernel" "kmem_room boot_kernel = 2000" "task_list boot_kernel []"
  "tasks_owned boot_kernel" "processes_at boot_kernel 0x900000 = Some sample_process"
  by (simp_all add: boot_kernel_def fresh_kernel_def kmem_inv_def heap_wf_def table_wf_def kmem_room_def heap_room_def
      count_list_replicate task_list_def tasks_owned_def)

section \<open>Properties\<close>

text \<open>C27: \<open>task_new\<close> takes 1027 pages, appends a task to the ring without touching the others, makes it current only
  if it is the first, and gives it the registers it starts with and an address space of its own that maps every
  page to itself, readable from user mode.\<close>

theorem task_new_appends:
  assumes "kmem_inv s" and "1027 \<le> kmem_room s" and "task_list s ts" and "tasks_owned s"
    and "processes_at s process = Some p"
  shows "\<exists>task s' chunk pd pts t. task_new s process = Inr (task, s') \<and> task_list s' (ts @ [task])
    \<and> task \<notin> set ts \<and> kmem_inv s' \<and> tasks_owned s' \<and> kmem_room s = kmem_room s' + 1027
    \<and> current_task s' = (if ts = [] then task else current_task s)
    \<and> tasks s' task = Some t \<and> page_directory t = chunk \<and> t_process t = process
    \<and> registers t = start_registers (elf_entry p) \<and> address_space (ram s') chunk pd pts
    \<and> (\<forall>v. unat v mod 4096 = 0 \<longrightarrow> paging_get_page (ram s') pd v = v OR 5)"
proof -
  obtain task s' chunk pd pts t where r: "task_new s process = Inr (task, s')" "task_list s' (ts @ [task])"
    "task \<notin> set ts" "kmem_inv s'" "tasks_owned s'" "current_task s' = (if ts = [] then task else current_task s)"
    "tasks s' task = Some t" "page_directory t = chunk" "t_process t = process"
    "registers t = start_registers (elf_entry p)" "address_space (ram s') chunk pd pts"
    "\<forall>v. page v \<longrightarrow> paging_get_page (ram s') pd v = v OR 5" "kmem_room s = kmem_room s' + 1027"
    using task_new_built [OF assms] by blast
  show ?thesis
    by (rule exI [of _ task], rule exI [of _ s'], rule exI [of _ chunk], rule exI [of _ pd], rule exI [of _ pts],
        rule exI [of _ t]) (use r in \<open>simp add: page_def\<close>)
qed

theorem task_new_appends_witness:
  "\<exists>task s'. task_new boot_kernel 0x900000 = Inr (task, s') \<and> task_list s' [task] \<and> current_task s' = task
    \<and> kmem_room s' = 973"
proof -
  have r: "1027 \<le> kmem_room boot_kernel" using boot_kernel(2) by simp
  obtain task s' where "task_new boot_kernel 0x900000 = Inr (task, s')" "task_list s' ([] @ [task])"
    "current_task s' = (if ([] :: u32 list) = [] then task else current_task boot_kernel)"
    "kmem_room boot_kernel = kmem_room s' + 1027"
    using task_new_appends [OF boot_kernel(1) r boot_kernel(3-5)] by (elim exE conjE)
  then show ?thesis using boot_kernel(2) by simp
qed

text \<open>Removing a task takes it out of the ring the scheduler walks and moves the current task on if it was the
  one.  But the next task keeps its link to the removed one, so removing that task afterwards writes through the
  freed pointer.\<close>

theorem task_exit_stale_link:
  assumes "task_list s ts" and "Suc i < length ts"
  shows "\<exists>s'. task_list_remove s (ts ! i) = Inr s' \<and> chained s' (without i ts)
    \<and> current_task s' = (if current_task s = ts ! i then ts ! Suc i else current_task s)
    \<and> task_list_remove (s'\<lparr>tasks := (tasks s')(ts ! i := None)\<rparr>) (ts ! Suc i) = Inl Null_Deref"
proof -
  have i: "i < length ts" "length ts \<noteq> 1" using assms(2) by auto
  obtain s' where s': "task_list_remove s (ts ! i) = Inr s'"
    "current_task s' = (if current_task s \<noteq> ts ! i then current_task s else if length ts = 1 then 0
       else ts ! (Suc i mod length ts))"
    using task_list_remove_chained [OF assms(1) i(1)] by blast
  then show ?thesis using task_remove_stale [OF assms] i(2) assms(2) by auto
qed

definition two_tasks :: kernel where
  "two_tasks = boot_kernel\<lparr>tasks := [0x1000 \<mapsto> zero_task\<lparr>next_task := 0x2000\<rparr>, 0x2000 \<mapsto> zero_task\<lparr>prev_task := 0x1000\<rparr>],
     current_task := 0x1000, task_head := 0x1000, task_tail := 0x2000\<rparr>"

theorem task_exit_stale_link_witness:
  "\<exists>s'. task_list_remove two_tasks 0x1000 = Inr s' \<and> current_task s' = 0x2000
    \<and> task_list_remove (s'\<lparr>tasks := (tasks s')(0x1000 := None)\<rparr>) 0x2000 = Inl Null_Deref"
proof -
  have "task_list two_tasks [0x1000, 0x2000]"
    by (simp add: two_tasks_def boot_kernel_def task_list_def linked_def zero_task_def All_less_Suc)
  from task_exit_stale_link [OF this, of 0] show ?thesis by (auto simp: two_tasks_def)
qed

text \<open>\<open>task_copy_string_from\<close> copies the string the task sees at a virtual address, truncated to the size of the
  buffer and terminated, and leaves the address space of the task and the books of the heap as they were.\<close>

theorem task_copy_string_result:
  assumes "kmem_inv s" and "0 < kmem_room s" and "0 < n" and "n < 4096"
    and "kzalloc s (word_of_int n) = Inr (tmp, s1)"
    and "tasks s task = Some t" and "address_space (ram s) (page_directory t) pd pts"
    and "\<forall>p\<in>set (page_directory t # pd # pts). (p, 1) \<in> kmem_owned s"
    and "user_string (ram s) pd pts tmp va str" and "nat n \<le> length dest"
  shows "\<exists>s'. task_copy_string_from s task va dest n
      = Inr (0, blit dest 0 (take (nat (n - 1)) str @ [0]), s')
    \<and> kmem_owned s' = kmem_owned s \<and> tasks s' = tasks s
    \<and> (\<forall>w. unat w mod 4096 = 0 \<longrightarrow> paging_get_page (ram s') pd w = paging_get_page (ram s) pd w)"
  using task_copy_string_spec [OF assms] by (auto simp: page_def)

lemma copy_setting:
  obtains s task t pd pts tmp s1 where "kmem_inv (s :: kernel)" "0 < kmem_room s" "kzalloc s (word_of_int 8) = Inr (tmp, s1)"
    "tasks s task = Some t" "address_space (ram s) (page_directory t) pd pts"
    "\<forall>p\<in>set (page_directory t # pd # pts). (p, 1) \<in> kmem_owned s" "user_string (ram s) pd pts tmp task [65]"
proof -
  have r: "1027 \<le> kmem_room boot_kernel" using boot_kernel(2) by simp
  obtain task s' chunk pd pts t where b: "task_new boot_kernel 0x900000 = Inr (task, s')" "kmem_inv s'"
    "tasks s' task = Some t" "page_directory t = chunk" "address_space (ram s') chunk pd pts"
    "\<forall>v. page v \<longrightarrow> paging_get_page (ram s') pd v = v OR 5"
    "\<forall>p\<in>set (task # chunk # pd # pts). (p, 1) \<in> kmem_owned s'" "task \<notin> set (chunk # pd # pts)"
    "kmem_room boot_kernel = kmem_room s' + 1027"
    using task_new_built [OF boot_kernel(1) r boot_kernel(3-5)] by blast
  have pt: "page task" using owned_not_null [OF b(2), of task 1] b(7) by auto
  define m where "m = (ram s')(task := 65, task + 1 := 0)"
  define s where "s = s'\<lparr>ram := m\<rparr>"
  have a01: "task + word_of_nat 0 \<in> region task 1" "task + word_of_nat 1 \<in> region task 1"
    by (rule tmp_addr(4) [OF pt], simp)+
  then have ag: "agree_outside task (ram s') m" by (auto simp: agree_outside_def m_def)
  have h: "kernel_heap s = kernel_heap s'" "ram s = m" "tasks s = tasks s'" by (simp_all add: s_def)
  note ho = heap_only [OF h(1)]
  note sp = agree_space [OF ag pt b(5,8)]
  have room: "0 < kmem_room s" using ho(3) b(9) boot_kernel(2) by simp
  have inv: "kmem_inv s" using ho(1) b(2) by simp
  obtain tmp s1 where z: "kzalloc s (word_of_int 8) = Inr (tmp, s1)" "(tmp, 1) \<notin> kmem_owned s" "kmem_inv s1"
    "kmem_owned s1 = insert (tmp, 1) (kmem_owned s)"
    using kz.zalloc_serves [OF inv room, of "word_of_int 8"] by auto
  have tk: "task \<noteq> tmp" using z(2) b(7) ho(2) by auto
  have dis: "region task 1 \<inter> region p 1 = {}" if "p = tmp \<or> p \<in> set pts" for p
  proof (rule kz.owned_disjoint [OF z(3)])
    show "(task, 1) \<in> kmem_owned s1" "(p, 1) \<in> kmem_owned s1" using z(4) ho(2) b(7) that by auto
    show "(task, 1) \<noteq> (p, 1)" using tk b(8) that by auto
  qed
  have g: "paging_get_page m pd task = task OR 5" using sp(2) [OF pt] b(6) pt by simp
  have "user_string m pd pts tmp task [65]"
    unfolding user_string_def
  proof (intro conjI allI impI)
    fix i assume "i \<le> length [65 :: byte]"
    then have i: "i = 0 \<or> i = 1" "i < 4096" by auto
    have r1: "task + word_of_nat i \<in> region task 1" by (rule tmp_addr(4) [OF pt i(2)])
    have "m (task + word_of_nat i) = ([65] @ [0]) ! i" using i(1) by (auto simp: m_def)
    moreover have "task + word_of_nat i \<notin> region tmp 1" "\<forall>p\<in>set pts. task + word_of_nat i \<notin> region p 1"
      using dis r1 by blast+
    ultimately show "\<exists>a. vm_addr m pd (task + word_of_nat i) = Some a \<and> a \<notin> region tmp 1
        \<and> (\<forall>p\<in>set pts. a \<notin> region p 1) \<and> m a = ([65] @ [0]) ! i"
      using tmp_mapped_user [OF pt i(2) g] by blast
    show "paging_align_address_to_lower_page (task + word_of_nat i) \<noteq> tmp"
      using tmp_addr(1) [OF pt i(2)] tk by simp
  qed simp
  then show thesis
    using that [of s tmp s1 task t pd pts] inv room z(1) h b(3,4,7) ho(2) sp(1) by auto
qed

theorem task_copy_string_result_witness:
  "\<exists>(s :: kernel) task va s'. task_copy_string_from s task va (replicate 8 1) 8 = Inr (0, [65, 0, 1, 1, 1, 1, 1, 1], s')"
proof -
  obtain s task t pd pts tmp s1 where c: "kmem_inv (s :: kernel)" "0 < kmem_room s" "kzalloc s (word_of_int 8) = Inr (tmp, s1)"
    "tasks s task = Some t" "address_space (ram s) (page_directory t) pd pts"
    "\<forall>p\<in>set (page_directory t # pd # pts). (p, 1) \<in> kmem_owned s" "user_string (ram s) pd pts tmp task [65]"
    by (rule copy_setting)
  have "\<exists>s'. task_copy_string_from s task task (replicate 8 1) 8
      = Inr (0, blit (replicate 8 1) 0 (take (nat (8 - 1)) [65] @ [0]), s')"
    using task_copy_string_result [OF c(1,2) _ _ c(3-7), of "replicate 8 1"] by auto
  then show ?thesis by (auto simp: blit_def numeral_eq_Suc)
qed

end
