(* ===== verification/Elf.thy ===== *)
theory Elf
  imports Task
begin

text \<open>
  Program files, \<^verbatim>\<open>src/src/kernel/formats/elf/ELFFile.cpp\<close> and \<^verbatim>\<open>ELFFile.hpp\<close>.  The file lies in memory; the
  packed structures are decoded from its bytes.
\<close>

section \<open>The file and its headers\<close>

text \<open>An \<open>ELFFile\<close> object.\<close>

record elf_file =
  m_data :: u32
  m_data_sz :: u32

definition ELF_SIGNATURE :: "byte list" where "ELF_SIGNATURE = [0x7f, 69, 76, 70]"
definition EI_CLASS :: u32 where "EI_CLASS = 4"
definition EI_DATA :: u32 where "EI_DATA = 5"
definition ELFCLASS32 :: byte where "ELFCLASS32 = 1"
definition ELFDATA2LSB :: byte where "ELFDATA2LSB = 1"
definition ET_EXEC :: u16 where "ET_EXEC = 2"
definition PF_W :: u32 where "PF_W = 2"

definition load16 :: "(u32 \<Rightarrow> byte) \<Rightarrow> u32 \<Rightarrow> u16" where
  "load16 m a = ucast (m a) OR push_bit 8 (ucast (m (a + 1)))"

record Elf32_Header =
  e_ident :: "byte list"
  e_type :: u16
  e_machine :: u16
  e_version :: u32
  e_entry :: u32
  e_phoff :: u32
  e_shoff :: u32
  e_flags :: u32
  e_ehsize :: u16
  e_phentsize :: u16
  e_phnum :: u16
  e_shentsize :: u16
  e_shnum :: u16
  e_shstrndx :: u16

record Elf32_Phdr =
  p_type :: u32
  p_offset :: u32
  p_vaddr :: u32
  p_paddr :: u32
  p_filesz :: u32
  p_memsz :: u32
  p_flags :: u32
  p_align :: u32

record Elf32_Shdr =
  sh_name :: u32
  sh_type :: u32
  sh_flags :: u32
  sh_addr :: u32
  sh_offset :: u32
  sh_size :: u32
  sh_link :: u32
  sh_info :: u32
  sh_addralign :: u32
  sh_entsize :: u32

text \<open>The packed structures as they lie in memory at \<open>p\<close>.\<close>

definition decode_Elf32_Header :: "(u32 \<Rightarrow> byte) \<Rightarrow> u32 \<Rightarrow> Elf32_Header" where
  "decode_Elf32_Header m p = \<lparr>e_ident = ram_bytes m p 16, e_type = load16 m (p + 16), e_machine = load16 m (p + 18),
     e_version = load32 m (p + 20), e_entry = load32 m (p + 24), e_phoff = load32 m (p + 28),
     e_shoff = load32 m (p + 32), e_flags = load32 m (p + 36), e_ehsize = load16 m (p + 40),
     e_phentsize = load16 m (p + 42), e_phnum = load16 m (p + 44), e_shentsize = load16 m (p + 46),
     e_shnum = load16 m (p + 48), e_shstrndx = load16 m (p + 50)\<rparr>"

definition decode_Elf32_Phdr :: "(u32 \<Rightarrow> byte) \<Rightarrow> u32 \<Rightarrow> Elf32_Phdr" where
  "decode_Elf32_Phdr m p = \<lparr>p_type = load32 m p, p_offset = load32 m (p + 4), p_vaddr = load32 m (p + 8),
     p_paddr = load32 m (p + 12), p_filesz = load32 m (p + 16), p_memsz = load32 m (p + 20),
     p_flags = load32 m (p + 24), p_align = load32 m (p + 28)\<rparr>"

definition decode_Elf32_Shdr :: "(u32 \<Rightarrow> byte) \<Rightarrow> u32 \<Rightarrow> Elf32_Shdr" where
  "decode_Elf32_Shdr m p = \<lparr>sh_name = load32 m p, sh_type = load32 m (p + 4), sh_flags = load32 m (p + 8),
     sh_addr = load32 m (p + 12), sh_offset = load32 m (p + 16), sh_size = load32 m (p + 20),
     sh_link = load32 m (p + 24), sh_info = load32 m (p + 28), sh_addralign = load32 m (p + 32),
     sh_entsize = load32 m (p + 36)\<rparr>"

section \<open>Operations\<close>

definition get_header :: "(u32 \<Rightarrow> byte) \<Rightarrow> elf_file \<Rightarrow> Elf32_Header" where
  "get_header m f = decode_Elf32_Header m (m_data f)"

definition get_entry :: "(u32 \<Rightarrow> byte) \<Rightarrow> elf_file \<Rightarrow> u32" where
  "get_entry m f = e_entry (get_header m f)"

definition is_valid :: "(u32 \<Rightarrow> byte) \<Rightarrow> elf_file \<Rightarrow> bool" where
  "is_valid m f =
     (if m_data f = 0 then False
      else if m_data_sz f < 4 then False
      else let header = get_header m f in
        if memcmp (e_ident header) ELF_SIGNATURE 4 \<noteq> Inr 0 then False
        else if e_ident header ! unat EI_CLASS \<noteq> ELFCLASS32 then False
        else if e_ident header ! unat EI_DATA \<noteq> ELFDATA2LSB then False
        else if e_type header \<noteq> ET_EXEC then False
        else if e_entry header \<noteq> PROGRAM_VIRTUAL_ADDRESS then False
        else if e_phoff header = 0 then False
        else True)"

text \<open>Addresses of headers; null when there is no program header table.\<close>

definition get_program_header :: "(u32 \<Rightarrow> byte) \<Rightarrow> elf_file \<Rightarrow> u32" where
  "get_program_header m f = (if e_phoff (get_header m f) = 0 then 0 else m_data f + e_phoff (get_header m f))"

definition get_program_header_at :: "(u32 \<Rightarrow> byte) \<Rightarrow> elf_file \<Rightarrow> u32 \<Rightarrow> u32" where
  "get_program_header_at m f i = get_program_header m f + 32 * i"

definition get_section_header :: "(u32 \<Rightarrow> byte) \<Rightarrow> elf_file \<Rightarrow> u32" where
  "get_section_header m f = m_data f + e_shoff (get_header m f)"

definition get_section_header_at :: "(u32 \<Rightarrow> byte) \<Rightarrow> elf_file \<Rightarrow> u32 \<Rightarrow> u32" where
  "get_section_header_at m f i = get_section_header m f + 40 * i"

definition get_string_table :: "(u32 \<Rightarrow> byte) \<Rightarrow> elf_file \<Rightarrow> u32" where
  "get_string_table m f =
     m_data f + sh_offset (decode_Elf32_Shdr m (get_section_header_at m f (ucast (e_shstrndx (get_header m f)))))"

definition elf_parse :: "(u32 \<Rightarrow> byte) \<Rightarrow> elf_file \<Rightarrow> int" where
  "elf_parse m f = (if \<not> is_valid m f then - EINFORMAT else 0)"

section \<open>Properties\<close>

lemma ident_nth: "k < 16 \<Longrightarrow> e_ident (get_header m f) ! k = m (m_data f + word_of_nat k)"
  by (simp add: get_header_def decode_Elf32_Header_def ram_bytes_def)

lemma signature_matches:
  "memcmp (e_ident (get_header m f)) ELF_SIGNATURE 4 = Inr 0 \<longleftrightarrow>
   take 4 (e_ident (get_header m f)) = ELF_SIGNATURE"
proof -
  have l: "4 \<le> length (e_ident (get_header m f))" "4 \<le> length ELF_SIGNATURE"
    by (simp_all add: get_header_def decode_Elf32_Header_def ram_bytes_def ELF_SIGNATURE_def)
  obtain r where "memcmp (e_ident (get_header m f)) ELF_SIGNATURE 4 = Inr r"
    "r = 0 \<longleftrightarrow> take 4 (e_ident (get_header m f)) = take 4 ELF_SIGNATURE"
    by (rule memcmp_spec [OF l])
  then show ?thesis by (simp add: ELF_SIGNATURE_def)
qed

text \<open>A file of four bytes, and memory behind it.\<close>

definition short_elf :: elf_file where "short_elf = \<lparr>m_data = 0x2000000, m_data_sz = 4\<rparr>"

definition elf_memory :: "byte \<Rightarrow> u32 \<Rightarrow> byte" where
  "elf_memory k = (\<lambda>_. 0)(0x2000000 := 0x7f, 0x2000001 := 69, 0x2000002 := 76, 0x2000003 := 70, 0x2000004 := k,
     0x2000005 := 1, 0x2000010 := 2, 0x200001a := 0x40, 0x200001c := 52)"

text \<open>\<open>parse\<close> accepts exactly the 32-bit little-endian executables that start at the fixed address and have a
  program header table.  It only asks for a size of 4 before it looks at the first 32 bytes: whether a file of 4
  bytes is accepted depends on the memory behind it.\<close>

theorem elf_parse_accepts:
  "(elf_parse m f = 0 \<longleftrightarrow> m_data f \<noteq> 0 \<and> 4 \<le> m_data_sz f
     \<and> take 4 (e_ident (get_header m f)) = [0x7f, 69, 76, 70]
     \<and> m (m_data f + 4) = 1 \<and> m (m_data f + 5) = 1 \<and> e_type (get_header m f) = 2
     \<and> get_entry m f = 0x400000 \<and> e_phoff (get_header m f) \<noteq> 0)
   \<and> (elf_parse m f = 0 \<or> elf_parse m f = - EINFORMAT)
   \<and> map (elf_memory 1) [0x2000000, 0x2000001, 0x2000002, 0x2000003] = map (elf_memory 2) [0x2000000, 0x2000001, 0x2000002, 0x2000003]
   \<and> elf_parse (elf_memory 1) short_elf = 0 \<and> elf_parse (elf_memory 2) short_elf = - EINFORMAT"
proof (intro conjI)
  have i: "elf_parse m f = 0 \<longleftrightarrow> is_valid m f" for m f by (simp add: elf_parse_def EINFORMAT_def)
  have v: "is_valid m f \<longleftrightarrow> m_data f \<noteq> 0 \<and> 4 \<le> m_data_sz f
     \<and> take 4 (e_ident (get_header m f)) = [0x7f, 69, 76, 70]
     \<and> m (m_data f + 4) = 1 \<and> m (m_data f + 5) = 1 \<and> e_type (get_header m f) = 2
     \<and> get_entry m f = 0x400000 \<and> e_phoff (get_header m f) \<noteq> 0" for m f
    by (auto simp: is_valid_def Let_def signature_matches [unfolded ELF_SIGNATURE_def] ELF_SIGNATURE_def EI_CLASS_def EI_DATA_def ident_nth
        ELFCLASS32_def ELFDATA2LSB_def ET_EXEC_def PROGRAM_VIRTUAL_ADDRESS_def get_entry_def not_less)
  show "elf_parse m f = 0 \<longleftrightarrow> m_data f \<noteq> 0 \<and> 4 \<le> m_data_sz f
     \<and> take 4 (e_ident (get_header m f)) = [0x7f, 69, 76, 70]
     \<and> m (m_data f + 4) = 1 \<and> m (m_data f + 5) = 1 \<and> e_type (get_header m f) = 2
     \<and> get_entry m f = 0x400000 \<and> e_phoff (get_header m f) \<noteq> 0"
    by (simp only: i v)
  show "elf_parse m f = 0 \<or> elf_parse m f = - EINFORMAT" by (simp add: elf_parse_def)
  show "map (elf_memory 1) [0x2000000, 0x2000001, 0x2000002, 0x2000003] = map (elf_memory 2) [0x2000000, 0x2000001, 0x2000002, 0x2000003]"
    by (simp add: elf_memory_def)
  have u: "take 4 [0..<16] = [0, 1, 2, 3]" by code_simp
  show "elf_parse (elf_memory 1) short_elf = 0"
    unfolding i v
    by (simp add: short_elf_def get_header_def get_entry_def decode_Elf32_Header_def ram_bytes_def take_map u
        load16_def load32_def elf_memory_def)
  have "\<not> is_valid (elf_memory 2) short_elf"
    unfolding v by (simp add: short_elf_def elf_memory_def)
  then show "elf_parse (elf_memory 2) short_elf = - EINFORMAT" by (simp add: elf_parse_def)
qed

end
