(* ===== verification/Process.thy ===== *)
theory Process
  imports Elf Vfs
begin

text \<open>
  Processes, \<^verbatim>\<open>src/src/kernel/task/process.cpp\<close>: the table of processes, loading a program file into a new
  address space, the memory a process is given, its keys, and its end.  The state puts together the heap and the
  page tables (\<open>Paging\<close>), the tasks (\<open>Task\<close>), the program files (\<open>Elf\<close>) and the file layer (\<open>Vfs\<close>).  Where a function
  goes to the label \<open>out\<close>, the steps before it are a definition of their own.
\<close>

section \<open>State\<close>

definition MAX_PROCESSES :: nat where "MAX_PROCESSES = 12"
definition PROCESS_MAX_ALLOCATIONS :: nat where "PROCESS_MAX_ALLOCATIONS = 1024"
definition PROCESS_KEYBOARD_BUFFER_SIZE :: nat where "PROCESS_KEYBOARD_BUFFER_SIZE = 1024"

text \<open>\<open>framebuffer_bytes\<close> is the size of the screen, which the graphics driver reports.\<close>

record 'w os = kernel +
  processes :: "u32 list"
  current_process :: u32
  elf_files :: "u32 \<Rightarrow> elf_file option"
  files :: "'w vfs"
  framebuffer_bytes :: u32

definition get_elf :: "('w, 'a) os_scheme \<Rightarrow> u32 \<Rightarrow> fault + elf_file" where
  "get_elf s p = (case elf_files s p of None \<Rightarrow> Inl Null_Deref | Some f \<Rightarrow> Inr f)"

definition process_current :: "('w, 'a) os_scheme \<Rightarrow> u32" where
  "process_current s = current_process s"

definition process_get :: "('w, 'a) os_scheme \<Rightarrow> int \<Rightarrow> fault + u32" where
  "process_get s process_id =
     (if process_id < 0 \<or> int MAX_PROCESSES \<le> process_id then Inr 0 else rd (processes s) (nat process_id))"

definition process_switch :: "('w, 'a) os_scheme \<Rightarrow> u32 \<Rightarrow> int \<times> ('w, 'a) os_scheme" where
  "process_switch s process = (0, s\<lparr>current_process := process\<rparr>)"

section \<open>Program files\<close>

text \<open>What an operation stores at \<open>p\<close>.\<close>

definition ram_write :: "(u32 \<Rightarrow> byte) \<Rightarrow> u32 \<Rightarrow> byte list \<Rightarrow> (u32 \<Rightarrow> byte)" where
  "ram_write m p bs = (\<lambda>a. if unat (a - p) < length bs then bs ! unat (a - p) else m a)"

primrec ram_memcpy :: "(u32 \<Rightarrow> byte) \<Rightarrow> u32 \<Rightarrow> u32 \<Rightarrow> nat \<Rightarrow> (u32 \<Rightarrow> byte)" where
  "ram_memcpy m d s 0 = m"
| "ram_memcpy m d s (Suc n) = (let m' = ram_memcpy m d s n in m'(d + word_of_nat n := m' (s + word_of_nat n)))"

text \<open>\<open>new ELFFile\<close> and its destructor.\<close>

definition elf_new :: "('w, 'a) os_scheme \<Rightarrow> u32 \<Rightarrow> u32 \<Rightarrow> fault + (u32 \<times> ('w, 'a) os_scheme)" where
  "elf_new s data sz = cbind (kzalloc s 8) (\<lambda>(p, s1).
     if p = 0 then Inl Null_Deref
     else Inr (p, s1\<lparr>elf_files := (elf_files s1)(p := Some \<lparr>m_data = data, m_data_sz = sz\<rparr>)\<rparr>))"

definition elf_delete :: "('w, 'a) os_scheme \<Rightarrow> u32 \<Rightarrow> fault + ('w, 'a) os_scheme" where
  "elf_delete s p = (if p = 0 then Inr s else cbind (get_elf s p) (\<lambda>f.
     cbind (kfree s (m_data f)) (\<lambda>s1. cbind (kfree s1 p) (\<lambda>s2.
       Inr (s2\<lparr>elf_files := (elf_files s2)(p := None)\<rparr>)))))"

text \<open>The status, the new file (null on an error) and the state.  What is closed at the end is the status.\<close>

definition elf_load :: "('w, 'a) os_scheme \<Rightarrow> byte list \<Rightarrow> fault + (int \<times> u32 \<times> ('w, 'a) os_scheme)" where
  "elf_load s filename =
     cbind (fopen (files s) filename [114, 0]) (\<lambda>(res, v1).
     let s1 = s\<lparr>files := v1\<rparr> in
     cbind (if res < 0 then Inr (res, 0, s1)
            else let fd = res in cbind (fstat (files s1) fd) (\<lambda>(res, st, v2).
              let s2 = s1\<lparr>files := v2\<rparr> in
              if res < 0 then Inr (res, 0, s2)
              else case st of None \<Rightarrow> Inl Bad_Read | Some st \<Rightarrow>
                cbind (kzalloc s2 (st_filesize st)) (\<lambda>(data, s3).
                cbind (fread (files s3) (ram_bytes (ram s3) data (unat (st_filesize st))) (st_filesize st) 1 fd)
                  (\<lambda>(res, bytes, v3).
                  let s4 = s3\<lparr>files := v3, ram := ram_write (ram s3) data bytes\<rparr> in
                  if res < 0 then Inr (res, 0, s4)
                  else cbind (elf_new s4 data (st_filesize st)) (\<lambda>(e, s5). Inr (res, e, s5))))))
       (\<lambda>(res, elf, s').
     cbind (fclose (files s') res) (\<lambda>(_, v). Inr (res, elf, s'\<lparr>files := v\<rparr>))))"

definition process_load_data :: "('w, 'a) os_scheme \<Rightarrow> byte list \<Rightarrow> u32 \<Rightarrow> fault + (int \<times> ('w, 'a) os_scheme)" where
  "process_load_data s filename process =
     cbind (elf_load s filename) (\<lambda>(res, elf, s1).
       if res < 0 then Inr (res, s1)
       else cbind (get_elf s1 elf) (\<lambda>f. cbind (get_process s1 process) (\<lambda>p.
         Inr (elf_parse (ram s1) f,
              put_process process (p\<lparr>p_elf := elf, elf_entry := get_entry (ram s1) f\<rparr>) s1))))"

section \<open>Memory of a process\<close>

fun next_allocation_loop :: "u32 list \<Rightarrow> nat \<Rightarrow> int" where
  "next_allocation_loop [] i = - ENOMEM"
| "next_allocation_loop (a # as) i = (if a = 0 then int i else next_allocation_loop as (Suc i))"

definition process_get_next_allocation_index :: "process \<Rightarrow> int" where
  "process_get_next_allocation_index p = next_allocation_loop (allocations p) 0"

definition process_malloc_flags :: "('w, 'a) os_scheme \<Rightarrow> u32 \<Rightarrow> u32 \<Rightarrow> int \<Rightarrow> fault + (u32 \<times> ('w, 'a) os_scheme)" where
  "process_malloc_flags s process sz page_flags =
     cbind (get_process s process) (\<lambda>p.
     let next_alloc_idx = process_get_next_allocation_index p in
     if next_alloc_idx = - ENOMEM then Inr (0, s)
     else cbind (kmalloc s sz) (\<lambda>(ptr, s1).
       let s2 = put_process process (p\<lparr>allocations := (allocations p)[nat next_alloc_idx := ptr]\<rparr>) s1 in
       cbind (get_task s2 (p_task p)) (\<lambda>t.
         let (res, m) = paging_map_to (ram s2) (page_directory t) ptr ptr (paging_align_address (ptr + sz)) page_flags;
             s3 = s2\<lparr>ram := m\<rparr>
         in if res < 0 then cbind (kfree s3 ptr) (\<lambda>s4. Inr (0, s4)) else Inr (ptr, s3))))"

definition process_malloc :: "('w, 'a) os_scheme \<Rightarrow> u32 \<Rightarrow> u32 \<Rightarrow> fault + (u32 \<times> ('w, 'a) os_scheme)" where
  "process_malloc s process sz = process_malloc_flags s process sz
     (uint (PAGING_IS_PRESENT OR PAGING_IS_WRITEABLE OR PAGING_ACCESS_FROM_ALL))"

fun free_allocation_loop :: "'a kmem_scheme \<Rightarrow> u32 list \<Rightarrow> u32 \<Rightarrow> fault + (u32 list \<times> 'a kmem_scheme)" where
  "free_allocation_loop s [] address = Inr ([], s)"
| "free_allocation_loop s (a # as) address =
     (if a = address then cbind (kfree s a) (\<lambda>s'. Inr (0 # as, s'))
      else cbind (free_allocation_loop s as address) (\<lambda>(as', s'). Inr (a # as', s')))"

definition process_free :: "('w, 'a) os_scheme \<Rightarrow> u32 \<Rightarrow> u32 \<Rightarrow> fault + ('w, 'a) os_scheme" where
  "process_free s process address =
     cbind (get_process s process) (\<lambda>p.
     cbind (free_allocation_loop s (allocations p) address) (\<lambda>(as, s1).
       Inr (put_process process (p\<lparr>allocations := as\<rparr>) s1)))"

text \<open>The loop over the program headers, with \<open>n\<close> of \<open>e_phnum\<close> to go; a status below zero ends it.\<close>

definition map_segment :: "('w, 'a) os_scheme \<Rightarrow> u32 \<Rightarrow> u32 \<Rightarrow> nat \<Rightarrow> fault + (int \<times> ('w, 'a) os_scheme)" where
  "map_segment s process elf i =
     cbind (get_elf s elf) (\<lambda>f.
     let ph = decode_Elf32_Phdr (ram s) (get_program_header_at (ram s) f (word_of_nat i));
         page_flags = uint ((PAGING_IS_PRESENT OR PAGING_ACCESS_FROM_ALL) OR
           (if p_flags ph AND PF_W \<noteq> 0 then PAGING_IS_WRITEABLE else 0))
     in cbind (if p_filesz ph < p_memsz ph
               then cbind (process_malloc_flags s process (p_memsz ph) page_flags) (\<lambda>(mem, s1).
                 Inr (mem, s1\<lparr>ram := ram_memcpy (ram s1) mem (m_data f + p_offset ph) (unat (p_filesz ph))\<rparr>))
               else Inr (m_data f + p_offset ph, s)) (\<lambda>(physical_address, s2).
        cbind (get_process s2 process) (\<lambda>p. cbind (get_task s2 (p_task p)) (\<lambda>t.
          let physical_end = physical_address + p_memsz ph;
              (res, m) = paging_map_to (ram s2) (page_directory t)
                (paging_align_address_to_lower_page (p_vaddr ph))
                (paging_align_address_to_lower_page physical_address) (paging_align_address physical_end) page_flags
          in Inr (res, s2\<lparr>ram := m\<rparr>)))))"

primrec map_segments_loop :: "('w, 'a) os_scheme \<Rightarrow> u32 \<Rightarrow> u32 \<Rightarrow> nat \<Rightarrow> fault + (int \<times> ('w, 'a) os_scheme)" where
  "map_segments_loop s process elf 0 = Inr (0, s)"
| "map_segments_loop s process elf (Suc n) =
     cbind (map_segments_loop s process elf n) (\<lambda>(res, s1).
       if res < 0 then Inr (res, s1) else map_segment s1 process elf n)"

definition process_map_memory :: "('w, 'a) os_scheme \<Rightarrow> u32 \<Rightarrow> fault + (int \<times> ('w, 'a) os_scheme)" where
  "process_map_memory s process =
     cbind (get_process s process) (\<lambda>p0. cbind (get_elf s (p_elf p0)) (\<lambda>f.
     cbind (map_segments_loop s process (p_elf p0) (unat (e_phnum (get_header (ram s) f)))) (\<lambda>(res, s1).
       if res < 0 then Inr (res, s1)
       else cbind (get_process s1 process) (\<lambda>p. cbind (get_task s1 (p_task p)) (\<lambda>t.
         let (res, m) = paging_map_to (ram s1) (page_directory t) PROGRAM_VIRTUAL_STACK_ADDRESS_END (p_stack p)
               (paging_align_address (p_stack p + PROGRAM_VIRTUAL_STACK_SIZE))
               (uint (PAGING_ACCESS_FROM_ALL OR PAGING_IS_PRESENT OR PAGING_IS_WRITEABLE))
         in Inr (res, s1\<lparr>ram := m\<rparr>))))))"


section \<open>Loading\<close>

fun free_slot_loop :: "u32 list \<Rightarrow> nat \<Rightarrow> int" where
  "free_slot_loop [] i = - EISTKN"
| "free_slot_loop (p # ps) i = (if p = 0 then int i else free_slot_loop ps (Suc i))"

definition process_get_free_slot :: "('w, 'a) os_scheme \<Rightarrow> int" where
  "process_get_free_slot s = free_slot_loop (processes s) 0"

text \<open>What is undone on an error: the task, the file, the framebuffer and the segment.\<close>

definition load_cleanup :: "('w, 'a) os_scheme \<Rightarrow> u32 \<Rightarrow> fault + ('w, 'a) os_scheme" where
  "load_cleanup s process =
     cbind (get_process s process) (\<lambda>p.
     cbind (if p_task p \<noteq> 0 then cbind (task_free s (p_task p)) (\<lambda>(_, s'). Inr s') else Inr s) (\<lambda>s1.
     cbind (if p_elf p \<noteq> 0 then elf_delete s1 (p_elf p) else Inr s1) (\<lambda>s2.
     cbind (if p_framebuffer p \<noteq> 0 then process_free s2 process (p_framebuffer p) else Inr s2) (\<lambda>s3.
       if p_bss p \<noteq> 0 then kfree s3 (p_bss p) else Inr s3))))"

text \<open>The part of \<open>process_load_for_slot\<close> before its label \<open>out\<close>; a task pointer is taken for an error if it is 0.\<close>

definition load_steps :: "('w, 'a) os_scheme \<Rightarrow> byte list \<Rightarrow> u32 \<Rightarrow> int \<Rightarrow> fault + (int \<times> ('w, 'a) os_scheme)" where
  "load_steps s filename process process_slot =
     cbind (process_get s process_slot) (\<lambda>taken.
     if taken \<noteq> 0 then Inr (- EISTKN, s)
     else cbind (process_load_data s filename process) (\<lambda>(res, s1).
       if ISERR res then Inr (res, s1)
       else cbind (kzalloc s1 PROGRAM_VIRTUAL_STACK_SIZE) (\<lambda>(program_stack_ptr, s2).
         if program_stack_ptr = 0 then Inr (- ENOMEM, s2)
         else cbind (get_process s2 process) (\<lambda>p.
           cbind (strncpy (p_filename p) 0 filename (int MAX_PATH)) (\<lambda>name.
           let s3 = put_process process (p\<lparr>p_filename := name, p_stack := program_stack_ptr,
                 p_id := word_of_int process_slot\<rparr>) s2 in
           cbind (task_new s3 process) (\<lambda>(task, s4).
             if sint task = 0 then Inr (sint task, s4)
             else cbind (get_process s4 process) (\<lambda>p4.
               let s5 = put_process process (p4\<lparr>p_task := task\<rparr>) s4 in
               cbind (process_map_memory s5 process) (\<lambda>(res, s6).
                 if res < 0 then Inr (res, s6)
                 else cbind (wr (processes s6) (nat process_slot) process) (\<lambda>ps.
                   cbind (process_malloc (s6\<lparr>processes := ps\<rparr>) process (framebuffer_bytes s6)) (\<lambda>(fb, s7).
                   cbind (get_process s7 process) (\<lambda>p7.
                     Inr (res, put_process process (p7\<lparr>p_framebuffer := fb\<rparr>) s7))))))))))))"

definition process_load_for_slot :: "('w, 'a) os_scheme \<Rightarrow> byte list \<Rightarrow> u32 \<Rightarrow> int \<Rightarrow> fault + (int \<times> ('w, 'a) os_scheme)" where
  "process_load_for_slot s filename process process_slot =
     cbind (load_steps s filename process process_slot) (\<lambda>(res, s').
       if ISERR res then cbind (load_cleanup s' process) (\<lambda>s''. Inr (res, s'')) else Inr (res, s'))"

definition process_load :: "('w, 'a) os_scheme \<Rightarrow> byte list \<Rightarrow> u32 \<Rightarrow> fault + (int \<times> ('w, 'a) os_scheme)" where
  "process_load s filename process =
     (let process_slot = process_get_free_slot s
      in if process_slot < 0 then Inr (- EISTKN, s)
         else process_load_for_slot s filename process process_slot)"

definition process_load_switch :: "('w, 'a) os_scheme \<Rightarrow> byte list \<Rightarrow> u32 \<Rightarrow> fault + (int \<times> ('w, 'a) os_scheme)" where
  "process_load_switch s filename process =
     cbind (process_load s filename process) (\<lambda>(res, s').
       Inr (res, if res = 0 then snd (process_switch s' process) else s'))"

section \<open>Keys\<close>

text \<open>The index is computed unsigned; \<open>tail\<close> and \<open>head\<close> are \<open>int\<close>s.\<close>

definition push_key :: "process \<Rightarrow> byte \<Rightarrow> fault + process" where
  "push_key p c =
     (let buffer_index = unat (word_of_int (key_tail p) :: u32) mod PROCESS_KEYBOARD_BUFFER_SIZE
      in cbind (wr (key_buffer p) buffer_index c) (\<lambda>b.
           if key_tail p = 2 ^ 31 - 1 then Inl Overflow
           else Inr (p\<lparr>key_buffer := b, key_tail := key_tail p + 1\<rparr>)))"

definition process_pushkey :: "('w, 'a) os_scheme \<Rightarrow> u32 \<Rightarrow> byte \<Rightarrow> fault + ('w, 'a) os_scheme" where
  "process_pushkey s process c =
     (if process = 0 then Inr s
      else cbind (get_process s process) (\<lambda>p. cbind (push_key p c) (\<lambda>p'. Inr (put_process process p' s))))"

definition pop_key :: "process \<Rightarrow> fault + (byte \<times> process)" where
  "pop_key p =
     (let buffer_index = unat (word_of_int (key_head p) :: u32) mod PROCESS_KEYBOARD_BUFFER_SIZE
      in cbind (rd (key_buffer p) buffer_index) (\<lambda>c.
           if c = 0 then Inr (0, p)
           else cbind (wr (key_buffer p) buffer_index 0) (\<lambda>b.
             if key_head p = 2 ^ 31 - 1 then Inl Overflow
             else Inr (c, p\<lparr>key_buffer := b, key_head := key_head p + 1\<rparr>))))"

definition process_popkey :: "('w, 'a) os_scheme \<Rightarrow> u32 \<Rightarrow> fault + (byte \<times> ('w, 'a) os_scheme)" where
  "process_popkey s process =
     (if task_current s = 0 then Inr (0, s)
      else cbind (get_process s process) (\<lambda>p. cbind (pop_key p) (\<lambda>(c, p'). Inr (c, put_process process p' s))))"

section \<open>Ending a process\<close>

fun first_process :: "u32 list \<Rightarrow> u32 option" where
  "first_process [] = None"
| "first_process (p # ps) = (if p \<noteq> 0 then Some p else first_process ps)"

fun free_allocations_loop :: "'a kmem_scheme \<Rightarrow> u32 list \<Rightarrow> fault + (u32 list \<times> 'a kmem_scheme)" where
  "free_allocations_loop s [] = Inr ([], s)"
| "free_allocations_loop s (a # as) =
     (if a = 0 then cbind (free_allocations_loop s as) (\<lambda>(as', s'). Inr (a # as', s'))
      else cbind (kfree s a) (\<lambda>s1. cbind (free_allocations_loop s1 as) (\<lambda>(as', s'). Inr (0 # as', s'))))"

definition process_terminate :: "('w, 'a) os_scheme \<Rightarrow> u32 \<Rightarrow> fault + ('w, 'a) os_scheme" where
  "process_terminate s process =
     (let s1 = s\<lparr>processes := map (\<lambda>p. if p = process then 0 else p) (processes s)\<rparr>;
          s2 = (if current_process s1 = process
                then case first_process (processes s1) of Some p \<Rightarrow> snd (process_switch s1 p) | None \<Rightarrow> s1
                else s1)
      in if current_process s2 = process then Inl Panic
         else cbind (get_process s2 process) (\<lambda>p.
              cbind (free_allocations_loop s2 (allocations p)) (\<lambda>(as, s3).
              let s4 = put_process process (p\<lparr>allocations := as\<rparr>) s3 in
              cbind (task_free s4 (p_task p)) (\<lambda>(_, s5).
              cbind (elf_delete s5 (p_elf p)) (\<lambda>s6.
              cbind (kfree s6 (p_stack p)) (\<lambda>s7.
              cbind (kfree s7 (p_bss p)) (\<lambda>s8.
              cbind (kfree s8 process) (\<lambda>s9. Inr (s9\<lparr>processes_at := (processes_at s9)(process := None)\<rparr>)))))))))"

definition process_get_list :: "('w, 'a) os_scheme \<Rightarrow> u32 list" where
  "process_get_list s = processes s"

section \<open>What the operations leave alone\<close>

lemma kernel_put_process [simp]:
  "kernel_heap (put_process p t s) = kernel_heap s" "ram (put_process p t s) = ram s" "tasks (put_process p t s) = tasks s"
  "processes_at (put_process p t s) = (processes_at s)(p := Some t)" "task_head (put_process p t s) = task_head s"
  "task_tail (put_process p t s) = task_tail s" "current_task (put_process p t s) = current_task s"
  by (simp_all add: put_process_def)

lemma os_put_process [simp]:
  "processes (put_process p t s) = processes s" "current_process (put_process p t s) = current_process s"
  "elf_files (put_process p t s) = elf_files s" "files (put_process p t s) = files s"
  by (simp_all add: put_process_def)

lemma kmalloc_same: "kmalloc s n = Inr (p, s') \<Longrightarrow> same_kernel s s' \<and> ram s' = ram s"
  by (auto simp: kmalloc_def cbind_eq_Inr same_kernel_def)

lemma free_allocation_ram: "free_allocation_loop s as a = Inr (as', s') \<Longrightarrow> ram s' = ram s"
  by (induction s as a arbitrary: as' s' rule: free_allocation_loop.induct)
    (auto simp: cbind_eq_Inr kfree_def split: if_splits)

section \<open>Memory of a process\<close>

lemma align_end:
  assumes "page ptr" and "unat ptr + unat sz + 4095 < 2 ^ 32"
  shows "page (paging_align_address (ptr + sz))"
    and "unat (paging_align_address (ptr + sz)) = unat ptr + 4096 * blocks_for sz"
proof -
  have u: "unat (ptr + sz) = unat ptr + unat sz" using assms(2) by (intro unat_add_small) simp
  obtain q where q: "unat ptr = 4096 * q" using assms(1) by (auto simp: page_def elim: dvdE)
  have m: "unat ((ptr + sz) mod 4096) = unat sz mod 4096" using u q by (simp add: unat_mod)
  have e: "unat (paging_align_address (ptr + sz)) = 4096 * (q + blocks_for sz)"
  proof (cases "unat sz mod 4096 = 0")
    case True
    then have "(ptr + sz) mod 4096 = 0" using m by (simp add: unat_eq_zero)
    moreover have "(unat sz + 4095) div 4096 = unat sz div 4096"
      using True by (intro div_nat_eqI) (auto simp: minus_mod_eq_mult_div [symmetric])
    ultimately show ?thesis
      using u q True by (simp add: paging_align_address_def blocks_for_def minus_mod_eq_mult_div [symmetric] algebra_simps)
  next
    case False
    let ?r = "unat sz mod 4096"
    have d: "unat sz = 4096 * (unat sz div 4096) + ?r" "?r < 4096" by simp_all
    have nz: "(ptr + sz) mod 4096 \<noteq> 0" using False m by (metis unat_0)
    have b: "blocks_for sz = unat sz div 4096 + 1"
    proof -
      define k r where kr: "k = unat sz div 4096" "r = ?r"
      have "0 < r" "r < 4096" "unat sz = 4096 * k + r" using False by (simp_all add: kr)
      then have "(unat sz + 4095) div 4096 = k + 1" by (intro div_nat_eqI) simp_all
      then show ?thesis by (simp add: blocks_for_def kr)
    qed
    have a: "unat (ptr + sz + 4096) = unat ptr + unat sz + 4096"
    proof -
      have "unat ptr + unat sz + 4096 < 2 ^ 32"
      proof -
        have "unat ptr + unat sz + 4096 \<noteq> 2 ^ 32"
        proof
          assume "unat ptr + unat sz + 4096 = 2 ^ 32"
          then have "unat sz = 4096 * (1048575 - q)" using q by simp
          then show False using False by simp
        qed
        then show ?thesis using assms(2) by simp
      qed
      then show ?thesis using u by (subst unat_add_small) auto
    qed
    have "unat (ptr + sz + 4096 - (ptr + sz) mod 4096) = unat (ptr + sz + 4096) - ?r"
      using m a by (simp add: unat_sub word_le_nat_alt)
    moreover have "4096 * q + unat sz + 4096 - ?r = 4096 * (q + blocks_for sz)"
    proof -
      have "4096 * q + x + 4096 - r = 4096 * (q + (k + 1))" if "x = 4096 * k + r" for x k r :: nat
        using that by simp
      from this [OF d(1)] show ?thesis unfolding b .
    qed
    ultimately show ?thesis using nz a q by (simp add: paging_align_address_def)
  qed
  show "page (paging_align_address (ptr + sz))" unfolding page_def e by simp
  show "unat (paging_align_address (ptr + sz)) = unat ptr + 4096 * blocks_for sz" using e q by simp
qed


lemma page_range_count:
  "unat (phys_end :: u32) = unat phys + 4096 * n \<Longrightarrow> (unat phys_end - unat phys) div 4096 = n \<and> n \<le> 2 ^ 20 \<and> phys \<le> phys_end"
  using unsigned_less [of phys_end, where ?'a = nat] by (simp add: word_le_nat_alt)

lemma process_malloc_spec:
  assumes p: "processes_at s a = Some p" and i: "process_get_next_allocation_index p = int i" and t: "tasks s (p_task p) = Some t"
    and k: "kmalloc s sz = Inr (ptr, s1)" and ptr: "page ptr" "unat ptr + unat sz + 4095 < 2 ^ 32"
    and sp: "address_space (ram s) (page_directory t) pd pts"
  shows "\<exists>s' p'. process_malloc s a sz = Inr (ptr, s') \<and> processes_at s' a = Some p'
    \<and> p' = p\<lparr>allocations := (allocations p)[i := ptr]\<rparr> \<and> kernel_heap s' = kernel_heap s1
    \<and> address_space (ram s') (page_directory t) pd pts
    \<and> (\<forall>j<blocks_for sz. paging_get_page (ram s') pd (nth_page ptr j) = nth_page ptr j OR 7)
    \<and> (\<forall>w. page w \<longrightarrow> (\<forall>j<blocks_for sz. w \<noteq> nth_page ptr j) \<longrightarrow> paging_get_page (ram s') pd w = paging_get_page (ram s) pd w)"
proof -
  note k1 = kmalloc_same [OF k]
  note f1 = same_kernel_fields [OF conjunct1 [OF k1]]
  define p' where "p' = p\<lparr>allocations := (allocations p)[i := ptr]\<rparr>"
  define s2 where "s2 = put_process a p' s1"
  have s2: "ram s2 = ram s" "tasks s2 = tasks s" "processes_at s2 a = Some p'" "kernel_heap s2 = kernel_heap s1"
    using k1 f1(1) by (simp_all add: s2_def)
  have fl: "uint (PAGING_IS_PRESENT OR PAGING_IS_WRITEABLE OR PAGING_ACCESS_FROM_ALL) = 7"
    by (simp add: PAGING_IS_PRESENT_def PAGING_IS_WRITEABLE_def PAGING_ACCESS_FROM_ALL_def)
  let ?e = "paging_align_address (ptr + sz)"
  note e = align_end [OF ptr]
  note c = page_range_count [OF e(2)]
  obtain m where m: "map_range_loop (ram s) (page_directory t) ptr ptr (blocks_for sz) 7 0 = (0, m)"
    "address_space m (page_directory t) pd pts"
    "\<forall>j<blocks_for sz. paging_get_page m pd (nth_page ptr j) = nth_page ptr j OR word_of_int 7"
    "\<forall>w. page w \<longrightarrow> (\<forall>j<blocks_for sz. w \<noteq> nth_page ptr j) \<longrightarrow> paging_get_page m pd w = paging_get_page (ram s) pd w"
    using map_range_loop_spec [OF sp ptr(1) ptr(1), of "blocks_for sz" 0 7] c by auto
  have "paging_map_to (ram s2) (page_directory t) ptr ptr ?e 7 = (0, m)"
    using m(1) c ptr(1) e(1) s2(1) by (auto simp: map_to_eq not_less [symmetric])
  then have "process_malloc s a sz = Inr (ptr, s2\<lparr>ram := m\<rparr>)"
    using p t i k k1 f1(1) by (simp add: process_malloc_def process_malloc_flags_def get_process_def get_task_def fl Let_def
        p'_def s2_def ENOMEM_def)
  then show ?thesis
    using m s2 by (intro exI [of _ "s2\<lparr>ram := m\<rparr>"] exI [of _ p']) (simp add: p'_def)
qed

lemma process_free_keeps_ram: "process_free s a ptr = Inr s' \<Longrightarrow> ram s' = ram s"
  by (auto simp: process_free_def cbind_eq_Inr dest!: free_allocation_ram)

section \<open>A machine to evaluate on\<close>

definition sample_os :: "unit os" where
  "sample_os = kernel.extend boot_kernel \<lparr>processes = 0x900000 # replicate 11 0, current_process = 0x900000,
     elf_files = (\<lambda>_. None), files = \<lparr>k_allocs = [], k_live = 0, filesystems = [], file_descriptors = [],
     mounted_files = [], drivers = ()\<rparr>, framebuffer_bytes = 0\<rparr>"

lemma sample_os: "current_process sample_os = 0x900000" "processes_at sample_os 0x900000 = Some sample_process"
  by (simp_all add: sample_os_def kernel.extend_def boot_kernel_def os.defs)

end
