(* ===== verification/ProcessMemory.thy ===== *)
theory ProcessMemory
  imports Process
begin

text \<open>
  What a process owns and gives back, \<^verbatim>\<open>process_malloc\<close> and \<^verbatim>\<open>process_terminate\<close> of
  \<^verbatim>\<open>src/src/kernel/task/process.cpp\<close>: the lemmas follow the steps of the end of a process through the heap, the
  page directory and the ring of tasks.  Nothing here models further code.
\<close>

section \<open>Ending a process\<close>

text \<open>Freeing the null pointer does nothing: its block number is negative, or behind the end of the table.\<close>

lemma sint_minus:
  assumes "0 < A" and "A < 2 ^ 32"
  shows "sint (0 - word_of_int A :: u32) = (if A \<le> 2 ^ 31 then - A else 2 ^ 32 - A)"
proof (cases "A \<le> 2 ^ 31")
  case True
  have "0 - word_of_int A = (word_of_int (- A) :: u32)" by simp
  moreover have "sint (word_of_int (- A) :: u32) = - A"
    using True assms by (simp only: signed_of_int) (simp add: signed_take_bit_int_eq_self)
  ultimately show ?thesis using True by simp
next
  case False
  have "(word_of_int (2 ^ 32 - A) :: u32) = word_of_int (- A)" by (simp add: word_of_int_eq_iff take_bit_eq_mod mod_diff_left_eq [symmetric])
  then have "0 - word_of_int A = (word_of_int (2 ^ 32 - A) :: u32)" by simp
  moreover have "sint (word_of_int (2 ^ 32 - A) :: u32) = 2 ^ 32 - A"
    using False assms by (simp only: signed_of_int) (simp add: signed_take_bit_int_eq_self)
  ultimately show ?thesis using False by (simp only: if_False)
qed

lemma kfree_null:
  assumes "kmem_inv s"
  shows "kfree s 0 = Inr s"
proof -
  let ?h = "kernel_heap s" let ?a = "start_address (kernel_heap s)" let ?n = "unat (total (table (kernel_heap s)))"
  have wf: "?a \<noteq> 0" "unat ?a + 4096 * ?n \<le> 2 ^ 32" "?n \<le> 2 ^ 19" "?a mod 4096 = 0"
    using assms by (simp_all add: kmem_inv_def heap_wf_def)
  define A where "A = uint ?a"
  have A: "0 < A" "A + 4096 * int ?n \<le> 2 ^ 32" "A mod 4096 = 0" "A < 2 ^ 32"
  proof -
    show "0 < A" using wf(1) by (simp add: A_def less_le uint_0_iff)
    have "A = int (unat ?a)" by (simp add: A_def)
    moreover have "int (unat ?a + 4096 * ?n) \<le> int (2 ^ 32)" using wf(2) by (simp only: of_nat_le_iff)
    ultimately show "A + 4096 * int ?n \<le> 2 ^ 32" by simp
    show "A mod 4096 = 0" using arg_cong [OF wf(4), of uint] by (simp add: A_def uint_mod)
    show "A < 2 ^ 32" using unsigned_less [of ?a, where ?'a = int] by (simp add: A_def)
  qed
  obtain q where q: "A = 4096 * q" using A(3) by (auto elim: dvdE simp: dvd_eq_mod_eq_0 [symmetric])
  have b: "heap_address_to_block ?h 0 = (if A \<le> 2 ^ 31 then - q else 2 ^ 20 - q)"
    using sint_minus [OF A(1,4)] A(1) q by (simp add: heap_address_to_block_def A_def signed_divide_int_def sgn_if)
  have "\<not> unat (word_of_int (heap_address_to_block ?h 0) :: u32) < ?n"
  proof (cases "A \<le> 2 ^ 31")
    case True
    have "unat (word_of_int (- q) :: u32) = nat (2 ^ 32 - q)"
    proof -
      have "0 < q" "q \<le> 2 ^ 20" using True q A(1) by simp_all
      then show ?thesis by (subst unsigned_of_int) (simp add: take_bit_eq_mod zmod_zminus1_eq_if)
    qed
    moreover have "int ?n \<le> int (2 ^ 19)" using wf(3) by (simp only: of_nat_le_iff)
    ultimately show ?thesis using True b q by (simp add: not_less le_nat_iff)
  next
    case False
    have "unat (word_of_int (2 ^ 20 - q) :: u32) = nat (2 ^ 20 - q)"
      using False q A(4) by (subst unsigned_of_int) (simp add: take_bit_eq_mod)
    moreover have "4096 * q + 4096 * int n \<le> 2 ^ 32 \<Longrightarrow> n \<le> nat (2 ^ 20 - q)" for n by simp
    then have "?n \<le> nat (2 ^ 20 - q)" using A(2) q by blast
    ultimately show ?thesis using False b by simp
  qed
  then have "mark_free_loop (entries (table ?h)) ?n (unat (word_of_int (heap_address_to_block ?h 0) :: u32)) = Inr (entries (table ?h))"
    by (subst mark_free_loop.simps) simp
  then show ?thesis by (simp add: kfree_def heap_free_def heap_mark_blocks_free_def)
qed

text \<open>The steps of the end of a process, in terms of what the heap owns; \<open>ext\<close> gives the pages of a region.\<close>

definition given_back :: "(u32 \<Rightarrow> nat) \<Rightarrow> u32 list \<Rightarrow> 'a kmem_scheme \<Rightarrow> 'a kmem_scheme \<Rightarrow> bool" where
  "given_back ext ps s s' = (kmem_inv s' \<and> ram s' = ram s \<and> kmem_owned s' = kmem_owned s - (\<lambda>p. (p, ext p)) ` set ps
     \<and> kmem_room s' = kmem_room s + sum_list (map ext ps))"

lemma given_back_trans:
  "given_back ext ps s s1 \<Longrightarrow> given_back ext qs s1 s2 \<Longrightarrow> given_back ext (ps @ qs) s s2"
  by (auto simp: given_back_def)

lemma given_back_owned:
  assumes "given_back ext ps s s1" and "(q, ext q) \<in> kmem_owned s" and "q \<notin> set ps"
  shows "(q, ext q) \<in> kmem_owned s1"
  using assms by (auto simp: given_back_def)

lemma kfree_given_back:
  assumes "kmem_inv s" and "(p, ext p) \<in> kmem_owned s"
  shows "\<exists>s'. kfree s p = Inr s' \<and> given_back ext [p] s s' \<and> same_kernel s s'"
  using kf.frees [OF assms] kfree_same [of s p] by (auto simp: given_back_def)

lemma free_allocations_given_back:
  assumes "kmem_inv s" and "\<forall>x\<in>set (filter (\<lambda>x. x \<noteq> 0) as). (x, ext x) \<in> kmem_owned s"
    and "distinct (filter (\<lambda>x. x \<noteq> 0) as)"
  shows "\<exists>s'. free_allocations_loop s as = Inr (replicate (length as) 0, s')
    \<and> given_back ext (filter (\<lambda>x. x \<noteq> 0) as) s s' \<and> same_kernel s s'"
  using assms
proof (induction as arbitrary: s)
  case Nil
  then show ?case by (simp add: given_back_def)
next
  case (Cons a as)
  show ?case
  proof (cases "a = 0")
    case True
    then show ?thesis using Cons.IH [OF Cons.prems(1)] Cons.prems(2,3) by auto
  next
    case False
    obtain s1 where s1: "kfree s a = Inr s1" "given_back ext [a] s s1" "same_kernel s s1"
      using kfree_given_back [of s a ext] Cons.prems False by auto
    have own: "\<forall>x\<in>set (filter (\<lambda>x. x \<noteq> 0) as). (x, ext x) \<in> kmem_owned s1"
      using given_back_owned [OF s1(2)] Cons.prems(2,3) False by auto
    have inv: "kmem_inv s1" using s1(2) by (simp add: given_back_def)
    obtain s2 where s2: "free_allocations_loop s1 as = Inr (replicate (length as) 0, s2)"
      "given_back ext (filter (\<lambda>x. x \<noteq> 0) as) s1 s2" "same_kernel s1 s2"
      using Cons.IH [OF inv own] Cons.prems(3) False by auto
    show ?thesis
      using s1 s2 False given_back_trans [OF s1(2) s2(2)] same_kernel_trans [OF s1(3) s2(3)] by simp
  qed
qed

lemma free_directory_given_back:
  assumes "kmem_inv s" and "address_space (ram s) chunk pd pts"
    and "\<forall>p\<in>set (chunk # pd # pts). ext p = 1 \<and> (p, 1) \<in> kmem_owned s"
  shows "\<exists>s'. paging_free_directory chunk s = Inr s' \<and> given_back ext (chunk # pd # pts) s s' \<and> same_kernel s s'"
proof -
  have own: "\<forall>p\<in>set (chunk # pd # pts). (p, 1) \<in> kmem_owned s" using assms(3) by simp
  have "map ext (chunk # pd # pts) = map (\<lambda>_. 1) (chunk # pd # pts)" using assms(3) by (intro map_cong) auto
  moreover have "length pts = 1024" using assms(2) by (simp add: address_space_def has_tables_def)
  ultimately have "sum_list (map ext (chunk # pd # pts)) = 1026" by (simp add: sum_list_replicate map_replicate_const)
  moreover have "(\<lambda>p. (p, ext p)) ` set (chunk # pd # pts) = (\<lambda>p. (p, 1)) ` set (chunk # pd # pts)"
    using assms(3) by (intro image_cong) auto
  ultimately show ?thesis
    using kf.free_directory_spec [OF assms(1,2) own] paging_free_directory_same [of chunk s]
    by (auto simp: given_back_def paging_free_directory_def)
qed

lemma os_same:
  assumes "same_kernel (s :: ('w, 'a) os_scheme) s'"
  shows "processes s' = processes s" "current_process s' = current_process s" "elf_files s' = elf_files s"
    "files s' = files s" "os.more s' = os.more s"
  using arg_cong [OF same_kernel_update [OF assms], of os.more] arg_cong [OF same_kernel_update [OF assms], of processes] arg_cong [OF same_kernel_update [OF assms], of current_process]
    arg_cong [OF same_kernel_update [OF assms], of elf_files] arg_cong [OF same_kernel_update [OF assms], of files]
  by simp_all

text \<open>What a task goes on with.\<close>

definition task_regs :: "'a kernel_scheme \<Rightarrow> u32 \<Rightarrow> (registers \<times> u32) option" where
  "task_regs s k = map_option (\<lambda>t. (registers t, page_directory t)) (tasks s k)"

lemma task_regs_same: "tasks s' = tasks s \<Longrightarrow> task_regs s' = task_regs s"
  by (simp add: task_regs_def fun_eq_iff)

lemma task_list_remove_keeps:
  assumes "task_list_remove s task = Inr s'"
  shows "kernel_heap s' = kernel_heap s" "ram s' = ram s" "processes_at s' = processes_at s" "kernel.more s' = kernel.more s"
    "task_regs s' k = task_regs s k"
proof -
  let ?keeps = "\<lambda>s'. kernel_heap s' = kernel_heap s \<and> ram s' = ram s \<and> processes_at s' = processes_at s
    \<and> kernel.more s' = kernel.more s \<and> task_regs s' k = task_regs s k"
  obtain t s1 where "get_task s task = Inr t" and s1: "(if prev_task t \<noteq> 0
      then cbind (get_task s (prev_task t)) (\<lambda>p. Inr (put_task (prev_task t) (p\<lparr>next_task := next_task t\<rparr>) s))
      else Inr s) = Inr s1"
    and r: "(let s2 = if task = task_head s1 then s1\<lparr>task_head := next_task t\<rparr> else s1;
         s3 = if task = task_tail s2 then s2\<lparr>task_tail := prev_task t\<rparr> else s2
     in if task = current_task s3 then cbind (task_get_next s3) (\<lambda>n. Inr (s3\<lparr>current_task := n\<rparr>)) else Inr s3) = Inr s'"
    using assms unfolding task_list_remove_def cbind_eq_Inr by blast
  have "?keeps s1" using s1 by (auto simp: cbind_eq_Inr put_task_def get_task_def task_regs_def split: if_splits option.splits)
  define s2 where "s2 = (if task = task_head s1 then s1\<lparr>task_head := next_task t\<rparr> else s1)"
  define s3 where "s3 = (if task = task_tail s2 then s2\<lparr>task_tail := prev_task t\<rparr> else s2)"
  have "?keeps s3" using \<open>?keeps s1\<close> by (simp add: s3_def s2_def task_regs_def)
  moreover have "(if task = current_task s3 then cbind (task_get_next s3) (\<lambda>n. Inr (s3\<lparr>current_task := n\<rparr>)) else Inr s3) = Inr s'"
    using r by (simp only: Let_def s2_def [symmetric] s3_def [symmetric])
  ultimately have "?keeps s'" by (auto simp: cbind_eq_Inr task_regs_def split: if_splits)
  then show "kernel_heap s' = kernel_heap s" "ram s' = ram s" "processes_at s' = processes_at s" "kernel.more s' = kernel.more s"
    "task_regs s' k = task_regs s k"
    by simp_all
qed

lemma os_more:
  assumes "kernel.more (s :: ('w, 'a) os_scheme) = kernel.more s'"
  shows "processes s = processes s'" "current_process s = current_process s'" "elf_files s = elf_files s'"
    "files s = files s'" "os.more s = os.more s'"
  using assms by (cases s; cases s'; simp)+

lemma chained_drop:
  assumes "chained s (without i ts)" and "distinct ts" and "i < length ts"
  shows "chained (s\<lparr>tasks := (tasks s)(ts ! i := None)\<rparr>) (without i ts)"
proof -
  have "without i ts ! k \<noteq> ts ! i" if k: "k < length ts - 1" for k
    using nth_without [OF assms(3) k] assms(2,3) k by (auto simp: nth_eq_iff_index_eq)
  then show ?thesis using assms(1,3) by (simp add: chained_def)
qed

lemma chained_same:
  "tasks s' = tasks s \<Longrightarrow> task_head s' = task_head s \<Longrightarrow> task_tail s' = task_tail s
   \<Longrightarrow> current_task s' = current_task s \<Longrightarrow> chained s' ts = chained s ts"
  by (simp add: chained_def)

lemma task_free_given_back:
  fixes s :: "'a kernel_scheme"
  assumes inv: "kmem_inv s" and l: "task_list s ts" and i: "i < length ts" and t: "tasks s (ts ! i) = Some t"
    and sp: "address_space (ram s) (page_directory t) pd pts"
    and dir: "\<forall>p\<in>set (page_directory t # pd # pts). ext p = 1 \<and> (p, 1) \<in> kmem_owned s"
    and own: "(ts ! i, ext (ts ! i)) \<in> kmem_owned s" "ts ! i \<notin> set (page_directory t # pd # pts)"
  shows "\<exists>s'. task_free s (ts ! i) = Inr (0, s') \<and> given_back ext ((page_directory t # pd # pts) @ [ts ! i]) s s'
    \<and> chained s' (without i ts) \<and> tasks s' (ts ! i) = None \<and> processes_at s' = processes_at s
    \<and> kernel.more s' = kernel.more s \<and> (\<forall>k. k \<noteq> ts ! i \<longrightarrow> task_regs s' k = task_regs s k)"
proof -
  obtain s1 where s1: "paging_free_directory (page_directory t) s = Inr s1"
    "given_back ext (page_directory t # pd # pts) s s1" "same_kernel s s1"
    using free_directory_given_back [OF inv sp dir] by blast
  note f1 = same_kernel_fields [OF s1(3)]
  have l1: "task_list s1 ts" using task_list_same [of s1 s ts] f1 l by simp
  obtain s2 where s2: "task_list_remove s1 (ts ! i) = Inr s2" "chained s2 (without i ts)"
    using task_list_remove_chained [OF l1 i] by blast
  note k2 = task_list_remove_keeps [OF s2(1)]
  have g2: "given_back ext (page_directory t # pd # pts) s s2"
    using s1(2) k2(2) by (simp add: given_back_def heap_only [OF k2(1)])
  have "kmem_inv s2" "(ts ! i, ext (ts ! i)) \<in> kmem_owned s2"
    using g2 given_back_owned [OF g2 own] by (simp_all add: given_back_def)
  then obtain s3 where s3: "kfree s2 (ts ! i) = Inr s3" "given_back ext [ts ! i] s2 s3" "same_kernel s2 s3"
    using kfree_given_back by blast
  note f3 = same_kernel_fields [OF s3(3)]
  let ?s' = "s3\<lparr>tasks := (tasks s3)(ts ! i := None)\<rparr>"
  have "task_free s (ts ! i) = Inr (0, ?s')"
    using t s1(1) s2(1) s3(1) by (simp add: task_free_def get_task_def)
  moreover have "given_back ext ((page_directory t # pd # pts) @ [ts ! i]) s ?s'"
    using given_back_trans [OF g2 s3(2)] by (simp add: given_back_def heap_only [of ?s' s3])
  moreover have "chained s3 (without i ts)" using chained_same [of s3 s2] f3 s2(2) by simp
  then have "chained ?s' (without i ts)" using l i by (intro chained_drop) (simp_all add: task_list_def)
  moreover have "processes_at ?s' = processes_at s" "kernel.more ?s' = kernel.more s"
    using f1(2,10) k2(3,4) f3(2,10) by simp_all
  moreover have "\<forall>k. k \<noteq> ts ! i \<longrightarrow> task_regs ?s' k = task_regs s k"
    using task_list_remove_keeps(5) [OF s2(1)] f1 f3 by (simp add: task_regs_def)
  ultimately show ?thesis by (intro exI [of _ ?s']) simp
qed

text \<open>What a process owns, as \<open>process_load_for_slot\<close> builds it: its allocations, the pages of its directory, its
  task, the contents and the object of its file, its stack, and itself.\<close>

definition process_pieces :: "u32 \<Rightarrow> process \<Rightarrow> task \<Rightarrow> elf_file \<Rightarrow> u32 \<Rightarrow> u32 list \<Rightarrow> u32 list" where
  "process_pieces a p t f pd pts = filter (\<lambda>x. x \<noteq> 0) (allocations p) @ (page_directory t # pd # pts)
     @ [p_task p, m_data f, p_elf p, p_stack p, a]"

definition process_built :: "(u32 \<Rightarrow> nat) \<Rightarrow> u32 \<Rightarrow> process \<Rightarrow> task \<Rightarrow> elf_file \<Rightarrow> u32 \<Rightarrow> u32 list \<Rightarrow> ('w, 'a) os_scheme \<Rightarrow> bool" where
  "process_built ext a p t f pd pts s = (processes_at s a = Some p \<and> tasks s (p_task p) = Some t
     \<and> elf_files s (p_elf p) = Some f \<and> p_bss p = 0 \<and> address_space (ram s) (page_directory t) pd pts
     \<and> distinct (process_pieces a p t f pd pts)
     \<and> (\<forall>x\<in>set (process_pieces a p t f pd pts). (x, ext x) \<in> kmem_owned s)
     \<and> (\<forall>x\<in>set (page_directory t # pd # pts). ext x = 1))"

lemma elf_delete_given_back:
  assumes inv: "kmem_inv s" and f: "elf_files s e = Some f" and own: "(e, ext e) \<in> kmem_owned s" "(m_data f, ext (m_data f)) \<in> kmem_owned s"
    and ne: "m_data f \<noteq> e"
  shows "\<exists>s'. elf_delete s e = Inr s' \<and> given_back ext [m_data f, e] s s' \<and> elf_files s' e = None
    \<and> processes_at s' = processes_at s \<and> tasks s' = tasks s \<and> task_head s' = task_head s \<and> task_tail s' = task_tail s
    \<and> current_task s' = current_task s \<and> processes s' = processes s \<and> current_process s' = current_process s
    \<and> os.more s' = os.more s"
proof -
  obtain s1 where s1: "kfree s (m_data f) = Inr s1" "given_back ext [m_data f] s s1" "same_kernel s s1"
    using kfree_given_back [of s "m_data f" ext, OF inv own(2)] by blast
  have "(e, ext e) \<in> kmem_owned s1" "kmem_inv s1"
    using given_back_owned [OF s1(2) own(1)] ne s1(2) by (auto simp: given_back_def)
  then obtain s2 where s2: "kfree s1 e = Inr s2" "given_back ext [e] s1 s2" "same_kernel s1 s2"
    using kfree_given_back by blast
  note sk = same_kernel_trans [OF s1(3) s2(3)]
  let ?s' = "s2\<lparr>elf_files := (elf_files s2)(e := None)\<rparr>"
  have "e \<noteq> 0" using owned_not_null [OF inv own(1)] by simp
  then have "elf_delete s e = Inr ?s'" using f s1(1) s2(1) by (simp add: elf_delete_def get_elf_def)
  moreover have "given_back ext [m_data f, e] s ?s'"
    using given_back_trans [OF s1(2) s2(2)] by (simp add: given_back_def heap_only [of ?s' s2])
  ultimately show ?thesis
    using same_kernel_fields [OF sk] os_same [OF sk] by (intro exI [of _ ?s']) simp
qed

lemma first_process_other:
  assumes "\<exists>q\<in>set ps. q \<noteq> 0 \<and> q \<noteq> a" and "a \<noteq> 0"
  shows "\<exists>q. first_process (map (\<lambda>q. if q = a then 0 else q) ps) = Some q \<and> q \<noteq> a"
  using assms by (induction ps) auto

lemma process_terminate_spec:
  fixes s :: "('w, 'a) os_scheme"
  assumes inv: "kmem_inv s" and b: "process_built ext a p t f pd pts s" and l: "task_list s ts" and i: "i < length ts"
    and ti: "ts ! i = p_task p" and other: "\<exists>q\<in>set (processes s). q \<noteq> 0 \<and> q \<noteq> a"
  shows "\<exists>s'. process_terminate s a = Inr s' \<and> given_back ext (process_pieces a p t f pd pts) s s'
    \<and> processes s' = map (\<lambda>q. if q = a then 0 else q) (processes s)
    \<and> current_process s' \<noteq> a \<and> chained s' (without i ts)
    \<and> processes_at s' a = None \<and> tasks s' (p_task p) = None \<and> elf_files s' (p_elf p) = None
    \<and> os.more s' = os.more s \<and> (\<forall>q. q \<noteq> a \<longrightarrow> processes_at s' q = processes_at s q)
    \<and> (\<forall>k. k \<noteq> p_task p \<longrightarrow> task_regs s' k = task_regs s k)
    \<and> current_process s' = (if current_process s = a then the (first_process (processes s')) else current_process s)"
proof -
  let ?al = "filter (\<lambda>x. x \<noteq> 0) (allocations p)" and ?dir = "page_directory t # pd # pts"
  have p: "processes_at s a = Some p" "tasks s (p_task p) = Some t" "elf_files s (p_elf p) = Some f" "p_bss p = 0"
    "address_space (ram s) (page_directory t) pd pts"
    using b by (simp_all add: process_built_def)
  have d: "distinct (?al @ ?dir @ [p_task p, m_data f, p_elf p, p_stack p, a])"
    and own: "\<forall>x\<in>set (?al @ ?dir @ [p_task p, m_data f, p_elf p, p_stack p, a]). (x, ext x) \<in> kmem_owned s"
    and dir: "\<forall>x\<in>set ?dir. ext x = 1"
    using b unfolding process_built_def process_pieces_def by blast+
  define C where "C = [p_task p, m_data f, p_elf p, p_stack p, a]"
  have dC: "distinct C" and dA: "distinct ?al" and AB: "x \<in> set (?dir @ C) \<Longrightarrow> x \<notin> set ?al"
    and BC: "x \<in> set C \<Longrightarrow> x \<notin> set ?dir" and own': "x \<in> set (?al @ ?dir @ C) \<Longrightarrow> (x, ext x) \<in> kmem_owned s" for x
    using d own unfolding C_def [symmetric] distinct_append by blast+
  have C: "x \<in> set C \<Longrightarrow> x \<notin> set (?al @ ?dir) \<and> (x, ext x) \<in> kmem_owned s" for x
    using AB [of x] BC [of x] own' [of x] by simp
  have C5: "p_task p \<in> set C" "m_data f \<in> set C" "p_elf p \<in> set C" "p_stack p \<in> set C" "a \<in> set C"
    by (simp_all add: C_def)
  have a0: "a \<noteq> 0" using owned_not_null [OF inv, of a "ext a"] C [of a] C5 by simp
  define s1 where "s1 = s\<lparr>processes := map (\<lambda>q. if q = a then 0 else q) (processes s)\<rparr>"
  define s2 where "s2 = (if current_process s1 = a
    then case first_process (processes s1) of Some p \<Rightarrow> snd (process_switch s1 p) | None \<Rightarrow> s1 else s1)"
  obtain q where q: "first_process (processes s1) = Some q" "q \<noteq> a"
    using first_process_other [OF other a0] by (auto simp: s1_def)
  have s2: "kernel_heap s2 = kernel_heap s" "ram s2 = ram s" "processes_at s2 = processes_at s" "tasks s2 = tasks s"
    "elf_files s2 = elf_files s" "task_head s2 = task_head s" "task_tail s2 = task_tail s" "current_task s2 = current_task s"
    "processes s2 = map (\<lambda>q. if q = a then 0 else q) (processes s)" "current_process s2 \<noteq> a" "os.more s2 = os.more s"
    "current_process s2 = (if current_process s = a then the (first_process (processes s2)) else current_process s)"
    using q by (simp_all add: s2_def s1_def process_switch_def)
  have inv2: "kmem_inv s2" and own2: "kmem_owned s2 = kmem_owned s"
    using inv by (simp_all add: heap_only [OF s2(1)])
  have "\<forall>x\<in>set ?al. (x, ext x) \<in> kmem_owned s2" "distinct ?al" using own' dA own2 by simp_all
  then obtain s3 where s3: "free_allocations_loop s2 (allocations p) = Inr (replicate (length (allocations p)) 0, s3)"
    "given_back ext ?al s2 s3" "same_kernel s2 s3"
    using free_allocations_given_back [OF inv2] by blast
  define s4 where "s4 = put_process a (p\<lparr>allocations := replicate (length (allocations p)) 0\<rparr>) s3"
  note f3 = same_kernel_fields [OF s3(3)] note o3 = os_same [OF s3(3)]
  have k4: "kernel_heap s4 = kernel_heap s3" "ram s4 = ram s3" by (simp_all add: s4_def)
  have g4: "given_back ext ?al s s4"
    using s3(2) s2(2) k4(2) by (simp add: given_back_def heap_only [OF s2(1)] heap_only [OF k4(1)])
  have own4: "(x, ext x) \<in> kmem_owned s4" if "x \<in> set (?dir @ C)" for x
    using given_back_owned [OF g4 own' AB [OF that]] that unfolding set_append by blast
  have inv4: "kmem_inv s4" "ram s4 = ram s" using g4 by (simp_all add: given_back_def)
  have l4: "task_list s4 ts" using task_list_same [of s4 s ts] f3 s2 l by (simp add: s4_def)
  have t4: "tasks s4 (ts ! i) = Some t" using f3 s2 p(2) ti by (simp add: s4_def)
  have dir4: "\<forall>x\<in>set ?dir. ext x = 1 \<and> (x, 1) \<in> kmem_owned s4"
  proof
    fix x assume x: "x \<in> set ?dir"
    then have "ext x = 1" "(x, ext x) \<in> kmem_owned s4" using dir own4 [of x] unfolding set_append by blast+
    then show "ext x = 1 \<and> (x, 1) \<in> kmem_owned s4" by simp
  qed
  have "(ts ! i, ext (ts ! i)) \<in> kmem_owned s4" "ts ! i \<notin> set ?dir"
    using own4 [of "p_task p"] BC [of "p_task p"] C5(1) unfolding ti by simp_all
  then obtain s5 where s5: "task_free s4 (ts ! i) = Inr (0, s5)" "given_back ext (?dir @ [ts ! i]) s4 s5"
    "chained s5 (without i ts)" "tasks s5 (ts ! i) = None" "processes_at s5 = processes_at s4" "kernel.more s5 = kernel.more s4"
    "\<forall>k. k \<noteq> ts ! i \<longrightarrow> task_regs s5 k = task_regs s4 k"
    using task_free_given_back [OF inv4(1) l4 i t4 _ dir4] p(5) inv4(2) by auto
  note o5 = os_more [OF s5(6)]
  note g5 = given_back_trans [OF g4 s5(2)]
  have own5: "(x, ext x) \<in> kmem_owned s5" if "x \<in> set C" "x \<noteq> p_task p" for x
    using given_back_owned [OF g5, of x] C [OF that(1)] that(2) ti by simp
  have inv5: "kmem_inv s5" using g5 by (simp add: given_back_def)
  have e5: "elf_files s5 (p_elf p) = Some f" using o5 o3 s2 p(3) by (simp add: s4_def)
  have ne: "m_data f \<noteq> p_elf p" "p_elf p \<noteq> p_task p" "m_data f \<noteq> p_task p" "p_stack p \<noteq> p_task p" "a \<noteq> p_task p"
    "p_stack p \<noteq> m_data f" "p_stack p \<noteq> p_elf p" "a \<noteq> m_data f" "a \<noteq> p_elf p" "a \<noteq> p_stack p"
    using dC by (auto simp: C_def)
  obtain s6 where s6: "elf_delete s5 (p_elf p) = Inr s6" "given_back ext [m_data f, p_elf p] s5 s6"
    "elf_files s6 (p_elf p) = None" "processes_at s6 = processes_at s5" "tasks s6 = tasks s5" "task_head s6 = task_head s5"
    "task_tail s6 = task_tail s5" "current_task s6 = current_task s5" "processes s6 = processes s5"
    "current_process s6 = current_process s5" "os.more s6 = os.more s5"
    using elf_delete_given_back [OF inv5 e5 own5 [OF C5(3) ne(2)] own5 [OF C5(2) ne(3)] ne(1)] by blast
  note g6 = given_back_trans [OF g5 s6(2)]
  have own6: "(x, ext x) \<in> kmem_owned s6" if "x \<in> set C" "x \<noteq> p_task p" "x \<noteq> m_data f" "x \<noteq> p_elf p" for x
    using given_back_owned [OF g6, of x] C [OF that(1)] that(2-4) ti by simp
  have inv6: "kmem_inv s6" using g6 by (simp add: given_back_def)
  obtain s7 where s7: "kfree s6 (p_stack p) = Inr s7" "given_back ext [p_stack p] s6 s7" "same_kernel s6 s7"
    using kfree_given_back [of s6 "p_stack p" ext, OF inv6 own6 [OF C5(4) ne(4,6,7)]] by blast
  note g7 = given_back_trans [OF g6 s7(2)]
  have inv7: "kmem_inv s7" and own7: "(a, ext a) \<in> kmem_owned s7"
    using g7 given_back_owned [OF g7, of a] C [OF C5(5)] ne ti by (simp_all add: given_back_def)
  obtain s9 where s9: "kfree s7 a = Inr s9" "given_back ext [a] s7 s9" "same_kernel s7 s9"
    using kfree_given_back [of s7 a ext, OF inv7 own7] by blast
  note g9 = given_back_trans [OF g7 s9(2)]
  note sk = same_kernel_trans [OF s7(3) s9(3)]
  note f9 = same_kernel_fields [OF sk] note o9 = os_same [OF sk]
  let ?s' = "s9\<lparr>processes_at := (processes_at s9)(a := None)\<rparr>"
  have "process_terminate s a = Inr ?s'"
    unfolding process_terminate_def Let_def s1_def [symmetric] s2_def [symmetric]
    using s2 p s3(1) s5(1) s6(1) s7(1) s9(1) ti kfree_null [OF inv7]
    by (simp add: get_process_def s4_def)
  moreover have "given_back ext (process_pieces a p t f pd pts) s ?s'"
    using g9 ti by (simp add: given_back_def process_pieces_def heap_only [of ?s' s9])
  moreover have "chained ?s' (without i ts)"
    using s5(3) s6 f9 chained_same [of ?s' s5] by simp
  moreover have "processes ?s' = map (\<lambda>q. if q = a then 0 else q) (processes s)" "current_process ?s' \<noteq> a"
    using o9 s6 o5 o3 s2 by (simp_all add: s4_def)
  moreover have "tasks ?s' (p_task p) = None" "elf_files ?s' (p_elf p) = None"
    using f9 o9 s6 s5 ti by simp_all
  moreover have "os.more ?s' = os.more s" using o9 s6 o5 o3 s2(11) by (simp add: s4_def put_process_def)
  moreover have "\<forall>q. q \<noteq> a \<longrightarrow> processes_at ?s' q = processes_at s q" using f9 s6 s5 f3 s2 by (simp add: s4_def)
  moreover have "\<forall>k. k \<noteq> p_task p \<longrightarrow> task_regs ?s' k = task_regs s k" using f9 s6 s5(7) f3 s2 ti by (simp add: s4_def task_regs_def)
  moreover have "current_process ?s' = (if current_process s = a then the (first_process (processes ?s')) else current_process s)"
    using o9 s6 o5 o3 s2(9,12) by (simp add: s4_def)
  ultimately show ?thesis by (intro exI [of _ ?s']) simp
qed

section \<open>A process to evaluate on\<close>

text \<open>The heap stays where it is.\<close>

definition same_place :: "'a kmem_scheme \<Rightarrow> 'a kmem_scheme \<Rightarrow> bool" where
  "same_place s s' = (start_address (kernel_heap s') = start_address (kernel_heap s)
     \<and> total (table (kernel_heap s')) = total (table (kernel_heap s)))"

lemma same_place_trans: "same_place s t \<Longrightarrow> same_place t u \<Longrightarrow> same_place s u"
  by (simp add: same_place_def)

lemma same_place_ram [simp]: "same_place s (t\<lparr>ram := m\<rparr>) \<longleftrightarrow> same_place s t"
  by (simp add: same_place_def)

lemma heap_malloc_place:
  "heap_malloc h sz = Inr (p, h') \<Longrightarrow> start_address h' = start_address h \<and> total (table h') = total (table h)"
  by (auto simp: heap_malloc_def heap_malloc_blocks_def heap_mark_blocks_taken_def cbind_eq_Inr Let_def split: if_splits)

lemma kzalloc_place: "kzalloc s n = Inr (p, s') \<Longrightarrow> same_place s s'"
  by (auto simp: kzalloc_def kmalloc_def cbind_eq_Inr same_place_def dest!: heap_malloc_place split: if_splits)

lemma new_directory_loop_place: "new_directory_loop kzalloc fl pd n s = Inr (r, s') \<Longrightarrow> same_place s s'"
  by (induction n arbitrary: r s')
    (auto simp: cbind_eq_Inr Let_def same_place_def [of s s] dest!: kzalloc_place intro: same_place_trans)

lemma new_directory_place: "new_directory kzalloc fl s = Inr (chunk, s') \<Longrightarrow> same_place s s'"
  by (auto simp: new_directory_def cbind_eq_Inr dest!: kzalloc_place new_directory_loop_place intro: same_place_trans)

lemma owned_place:
  assumes "kmem_inv s" and "(p, n) \<in> kmem_owned s" and "same_place fresh_kernel s'" and "kernel_heap s' = kernel_heap s"
  shows "unat p < 0x1800000"
proof -
  let ?h = "kernel_heap s"
  obtain k where k: "p = block_ptr ?h k" "is_alloc (entries (table ?h)) k n"
    using assms(2) by (auto simp: kmem_owned_def heap_owned_def)
  have wf: "heap_wf ?h" using assms(1) by (simp add: kmem_inv_def)
  have "k < length (entries (table ?h))" using alloc_bounds [OF k(2)] by auto
  then have "k < 2000" using wf assms(3,4) by (simp add: heap_wf_def same_place_def fresh_kernel_def)
  moreover have "unat p = 0x1000000 + 4096 * k"
    using block_ptr_unat [OF wf] k alloc_bounds [OF k(2)] assms(3,4) by (auto simp: same_place_def fresh_kernel_def)
  ultimately show ?thesis by simp
qed

lemma pages_exist:
  assumes "kmem_inv (s :: 'a kmem_scheme)" and "n \<le> kmem_room s"
  shows "\<exists>ps s'. length ps = n \<and> distinct ps \<and> kmem_inv (s' :: 'a kmem_scheme) \<and> (\<forall>p\<in>set ps. (p, 1) \<in> kmem_owned s')
    \<and> kmem_room s = kmem_room s' + n \<and> same_place s s'"
  using assms(2)
proof (induction n)
  case 0
  then show ?case using assms(1) by (intro exI [of _ "[]"] exI [of _ s]) (simp add: same_place_def)
next
  case (Suc n)
  then obtain ps s1 where s1: "length ps = n" "distinct ps" "kmem_inv (s1 :: 'a kmem_scheme)"
    "\<forall>p\<in>set ps. (p, 1) \<in> kmem_owned s1" "kmem_room s = kmem_room s1 + n" "same_place s s1"
    by auto
  have "0 < kmem_room s1" using s1(5) Suc.prems by simp
  then obtain p s2 where s2: "kmem_inv (s2 :: 'a kmem_scheme)" "kmem_room s1 = Suc (kmem_room s2)" "(p, 1) \<notin> kmem_owned s1"
    "kmem_owned s2 = insert (p, 1) (kmem_owned s1)" "same_place s1 s2"
    using kz.zalloc_serves [OF s1(3), of 4096] kzalloc_place by fastforce
  show ?case
    by (rule exI [of _ "p # ps"], rule exI [of _ s2]) (use s1 s2 same_place_trans [OF s1(6) s2(5)] in auto)
qed

text \<open>A process that owns one page for everything it has, next to another one.\<close>

lemma alive_process:
  obtains s :: "unit os" and a p t f pd pts where "kmem_inv s" "2 \<le> kmem_room s"
    "process_built (\<lambda>_. 1) a p t f pd pts s" "task_list s [p_task p]" "\<exists>q\<in>set (processes s). q \<noteq> 0 \<and> q \<noteq> a"
    "allocations p = replicate 1024 0" "same_place fresh_kernel (kmem.truncate s)"
proof -
  have r: "5 \<le> kmem_room fresh_kernel" using fresh_kernel(2) by simp
  obtain ps s1 where s1: "length ps = 5" "distinct ps" "kmem_inv (s1 :: kmem)" "\<forall>p\<in>set ps. (p, 1) \<in> kmem_owned s1"
    "kmem_room fresh_kernel = kmem_room s1 + 5" "same_place fresh_kernel s1"
    using pages_exist [OF fresh_kernel(1) r] by blast
  have "kmem_room fresh_kernel = 2000" by (simp add: fresh_kernel_def kmem_room_def heap_room_def count_list_replicate)
  then have "1026 \<le> kmem_room s1" using s1(5) by simp
  then obtain chunk pd pts s2 where s2: "kp.directory_built s1 5 chunk pd pts s2" "new_directory kzalloc 5 s1 = Inr (chunk, s2)"
    using kp.new_directory_spec [OF s1(3)] by blast
  have d: "kmem_inv s2" "kmem_room s1 = kmem_room s2 + 1026" "address_space (ram s2) chunk pd pts"
    "kmem_owned s2 = kmem_owned s1 \<union> (\<lambda>p. (p, 1)) ` set (chunk # pd # pts)"
    "\<forall>p\<in>set (chunk # pd # pts). (p, 1) \<notin> kmem_owned s1"
    using s2(1) by (simp_all add: kp.directory_built_def)
  obtain k e m w a where ps: "ps = [k, m, e, w, a]" using s1(1) by (auto simp: length_Suc_conv eval_nat_numeral)
  define t where "t = zero_task\<lparr>page_directory := chunk\<rparr>"
  define p where "p = sample_process\<lparr>p_task := k, p_elf := e, p_stack := w\<rparr>"
  define f where "f = \<lparr>m_data = m, m_data_sz = 4096\<rparr>"
  define s where "s = sample_os\<lparr>kernel_heap := kernel_heap s2, ram := ram s2, tasks := [k \<mapsto> t], processes_at := [a \<mapsto> p],
    elf_files := [e \<mapsto> f], processes := [a, if a = 8 then 16 else 8], current_task := k, task_head := k, task_tail := k\<rparr>"
  have k: "kernel_heap s = kernel_heap s2" "ram s = ram s2" by (simp_all add: s_def)
  note ho = heap_only [OF k(1)]
  have own: "\<forall>x\<in>set (process_pieces a p t f pd pts). (x, 1) \<in> kmem_owned s"
    using ho(2) d(4) s1(4) by (auto simp: process_pieces_def p_def sample_process_def t_def f_def ps)
  have "distinct (chunk # pd # pts)" using d(3) by (simp add: address_space_def has_tables_def)
  moreover have "set (chunk # pd # pts) \<inter> set ps = {}" using d(5) s1(4) by blast
  ultimately have "distinct ((chunk # pd # pts) @ ps)" using s1(2) by (simp only: distinct_append)
  then have dis: "distinct (process_pieces a p t f pd pts)"
    by (simp add: process_pieces_def p_def sample_process_def t_def f_def ps)
  have "process_built (\<lambda>_. 1) a p t f pd pts s"
    unfolding process_built_def using dis own k d(3)
    by (simp add: s_def p_def t_def sample_process_def)
  moreover have "k \<noteq> 0" using owned_not_null [OF s1(3)] s1(4) ps by auto
  then have "task_list s [p_task p]" by (simp add: task_list_def linked_def s_def p_def t_def zero_task_def)
  moreover have "\<exists>q\<in>set (processes s). q \<noteq> 0 \<and> q \<noteq> a" by (simp add: s_def)
  moreover have "2 \<le> kmem_room s" using ho(3) d(2) s1(5) \<open>kmem_room fresh_kernel = 2000\<close> by simp
  moreover have "allocations p = replicate 1024 0" by (simp add: p_def sample_process_def)
  moreover have "same_place fresh_kernel (kmem.truncate s)"
    using same_place_trans [OF s1(6) new_directory_place [OF s2(2)]] k(1) by (simp add: same_place_def kmem.truncate_def)
  ultimately show thesis using that [of s a p t f pd pts] ho(1) d(1) by simp
qed

section \<open>Properties\<close>

text \<open>C18: \<open>process_malloc\<close> of a size the heap can serve records the memory in the first free place of the process and maps
  exactly its pages, identically and writable from user mode, in the address space of the process; all other pages stay
  mapped as they are.\<close>

theorem process_malloc_maps:
  assumes "processes_at s a = Some p" and "process_get_next_allocation_index p = int i" and "tasks s (p_task p) = Some t"
    and "kmalloc s sz = Inr (ptr, s1)" and "unat ptr mod 4096 = 0" and "unat ptr + unat sz + 4095 < 2 ^ 32"
    and "address_space (ram s) (page_directory t) pd pts"
  shows "\<exists>s'. process_malloc s a sz = Inr (ptr, s')
    \<and> processes_at s' a = Some (p\<lparr>allocations := (allocations p)[i := ptr]\<rparr>) \<and> kmem_owned s' = kmem_owned s1
    \<and> address_space (ram s') (page_directory t) pd pts
    \<and> (\<forall>j<blocks_for sz. paging_get_page (ram s') pd (nth_page ptr j) = nth_page ptr j OR 7)
    \<and> (\<forall>w. unat w mod 4096 = 0 \<longrightarrow> (\<forall>j<blocks_for sz. w \<noteq> nth_page ptr j)
         \<longrightarrow> paging_get_page (ram s') pd w = paging_get_page (ram s) pd w)"
proof -
  have pg: "page ptr" using assms(5) by (simp add: page_def)
  from process_malloc_spec [OF assms(1-4) pg assms(6,7)] show ?thesis
    unfolding page_def using heap_only(2) by blast
qed

theorem process_malloc_maps_witness:
  "\<exists>(s :: unit os) a p t pd ptr s'. process_malloc s a 4096 = Inr (ptr, s')
    \<and> processes_at s a = Some p \<and> tasks s (p_task p) = Some t
    \<and> processes_at s' a = Some (p\<lparr>allocations := (allocations p)[0 := ptr]\<rparr>) \<and> (ptr, 1) \<in> kmem_owned s'
    \<and> paging_get_page (ram s') pd ptr = ptr OR 7"
proof -
  obtain s :: "unit os" and a p t f pd pts where s: "kmem_inv s" "2 \<le> kmem_room s"
    "process_built (\<lambda>_. 1) a p t f pd pts s" "allocations p = replicate 1024 0"
    "same_place fresh_kernel (kmem.truncate s)"
    by (rule alive_process)
  have room: "0 < kmem_room s" using s(2) by simp
  obtain ptr s0 where z: "kzalloc s 4096 = Inr (ptr, s0)" "kmem_inv s0" "kmem_owned s0 = insert (ptr, 1) (kmem_owned s)"
    using kz.zalloc_serves [OF s(1) room, of 4096] by auto
  have "ptr \<noteq> 0" "page ptr" using owned_not_null [OF z(2), of ptr 1] z(3) by auto
  then obtain s1 where k: "kmalloc s 4096 = Inr (ptr, s1)" "kernel_heap s1 = kernel_heap s0"
    using z(1) by (auto simp: kzalloc_def cbind_eq_Inr split: if_splits)
  have b: "processes_at s a = Some p" "tasks s (p_task p) = Some t" "address_space (ram s) (page_directory t) pd pts"
    using s(3) by (simp_all add: process_built_def)
  have i: "process_get_next_allocation_index p = int 0"
    using s(4) by (simp add: process_get_next_allocation_index_def eval_nat_numeral)
  have pl: "same_place fresh_kernel (kmem.truncate s0)"
    using s(5) kzalloc_place [OF z(1)] by (simp add: same_place_def kmem.truncate_def)
  have "unat ptr < 0x1800000"
    by (rule owned_place [OF z(2) _ pl, of ptr 1]) (simp_all add: z(3) kmem.truncate_def)
  then have n: "unat ptr + unat (4096 :: u32) + 4095 < 2 ^ 32" by simp
  have pg: "unat ptr mod 4096 = 0" using \<open>page ptr\<close> by (simp add: page_def)
  obtain s' where r: "process_malloc s a 4096 = Inr (ptr, s')"
    "processes_at s' a = Some (p\<lparr>allocations := (allocations p)[0 := ptr]\<rparr>)" "kmem_owned s' = kmem_owned s1"
    "\<forall>j<blocks_for 4096. paging_get_page (ram s') pd (nth_page ptr j) = nth_page ptr j OR 7"
    using process_malloc_maps [OF b(1) i b(2) k(1) pg n b(3)] by blast
  have "paging_get_page (ram s') pd (nth_page ptr 0) = nth_page ptr 0 OR 7" using r(4) by (simp add: blocks_for_def)
  then have "paging_get_page (ram s') pd ptr = ptr OR 7" by (simp add: nth_page_def)
  moreover have "(ptr, 1) \<in> kmem_owned s'" using r(3) z(3) heap_only(2) [OF k(2)] by simp
  ultimately show ?thesis using r(1,2) b by blast
qed



end
