(* ===== verification/Keyboard.thy ===== *)
theory Keyboard
  imports Process Ports
begin

text \<open>
  The keyboard, \<^verbatim>\<open>src/src/kernel/drivers/ps2keyboard/ps2keyboard.c\<close>, and the queue of keys of a process
  (\<^verbatim>\<open>process_pushkey\<close> and \<^verbatim>\<open>process_popkey\<close> of \<^verbatim>\<open>task/process.cpp\<close>, defined in \<open>Process\<close>).  The device is the one
  behind the ports of \<open>Ports\<close>.  The proofs follow a key from the interrupt to the process that reads it.
\<close>

section \<open>The driver\<close>

text \<open>Scan code set 1, indexed by scan code.\<close>

definition ps2keyboard_scan_set_1 :: "byte list" where
  "ps2keyboard_scan_set_1 = [0, 27, 49, 50, 51, 52, 53, 54, 55, 56, 57, 48, 45, 61, 8, 9, 81, 87, 69, 82,
     84, 89, 85, 73, 79, 80, 91, 93, 13, 0, 65, 83, 68, 70, 71, 72, 74, 75, 76, 59,
     39, 96, 0, 92, 90, 88, 67, 86, 66, 78, 77, 44, 46, 47, 0, 42, 0, 32, 0, 0,
     0, 0, 0, 0, 0, 0, 0, 0, 0, 55, 56, 57, 45, 52, 53, 54, 43, 49, 50, 51,
     48, 46]"

text \<open>The two static flags.\<close>

record ps2keyboard =
  ps2keyboard_capslock :: bool
  ps2keyboard_shift :: bool

definition shift_pairs :: "(byte \<times> byte) list" where
  "shift_pairs = [(49, 33), (50, 64), (51, 35), (52, 36), (53, 37), (54, 94), (55, 38), (56, 42), (57, 40),
     (48, 41), (45, 95), (61, 43), (91, 123), (93, 125), (59, 58), (39, 34), (96, 126), (92, 124),
     (44, 60), (46, 62), (47, 63)]"

definition shift_char :: "byte \<Rightarrow> byte" where
  "shift_char c = (case map_of shift_pairs c of Some d \<Rightarrow> d | None \<Rightarrow> c)"

definition ps2keyboard_scancode_to_char :: "ps2keyboard \<Rightarrow> byte \<Rightarrow> fault + byte" where
  "ps2keyboard_scancode_to_char k scancode =
     (let size_of_set = length ps2keyboard_scan_set_1 in
      if size_of_set < unat scancode then Inr 0
      else cbind (rd ps2keyboard_scan_set_1 (unat scancode)) (\<lambda>c.
        if 65 \<le> sint c \<and> sint c \<le> 90 \<and> \<not> ps2keyboard_capslock k then Inr (c + 32)
        else if ps2keyboard_shift k then Inr (shift_char c)
        else Inr c))"

definition ps2keyboard_irq_handler :: "'d ports \<Rightarrow> ps2keyboard \<Rightarrow> 'd \<Rightarrow> ('w, 'a) os_scheme
    \<Rightarrow> fault + (ps2keyboard \<times> 'd \<times> ('w, 'a) os_scheme)" where
  "ps2keyboard_irq_handler io k d s =
     (let d1 = pic_EOI io 0 d;
          (scancode, d2) = in8 io 0x60 d1;
          (_, d3) = in8 io 0x60 d2
      in if scancode = 0xAA \<or> scancode = 0xB6 then Inr (k\<lparr>ps2keyboard_shift := False\<rparr>, d3, s)
         else if scancode AND 0x80 \<noteq> 0 then Inr (k, d3, s)
         else if scancode = 0x2A \<or> scancode = 0x36 then Inr (k\<lparr>ps2keyboard_shift := True\<rparr>, d3, s)
         else if scancode = 0x3A
         then Inr (k\<lparr>ps2keyboard_capslock := \<not> ps2keyboard_capslock k\<rparr>, d3, s)
         else cbind (ps2keyboard_scancode_to_char k scancode) (\<lambda>c.
           if c \<noteq> 0 then cbind (process_pushkey s (process_current s) c) (\<lambda>s'. Inr (k, d3, s'))
           else Inr (k, d3, s)))"

section \<open>The queue of keys\<close>

text \<open>The keys \<open>q\<close> are pending: they lie in the ring from \<open>head\<close> on, and every other cell is empty.\<close>

definition keys_pending :: "process \<Rightarrow> byte list \<Rightarrow> bool" where
  "keys_pending p q = (length (key_buffer p) = 1024 \<and> 0 \<le> key_head p \<and> key_tail p = key_head p + int (length q)
     \<and> key_tail p < 2 ^ 31 \<and> length q \<le> 1024 \<and> 0 \<notin> set q
     \<and> (\<forall>i<1024. key_buffer p ! ((nat (key_head p) + i) mod 1024) = (if i < length q then q ! i else 0)))"

lemma ring_inject:
  assumes "i < (n :: nat)" and "j < n" and "(h + i) mod n = (h + j) mod n"
  shows "i = j"
proof -
  have "(h mod n + i) mod n = (h mod n + j) mod n" using assms(3) by (simp add: mod_add_left_eq)
  moreover have "(h mod n + k) mod n = (if h mod n + k < n then h mod n + k else h mod n + k - n)" if "k < n" for k
  proof -
    have "h mod n < n" using assms(1) by simp
    then have "\<not> h mod n + k < n \<Longrightarrow> (h mod n + k) mod n = h mod n + k - n"
      using that le_mod_geq [of n "h mod n + k"] mod_less [of "h mod n + k - n" n] by linarith
    then show ?thesis by simp
  qed
  ultimately show ?thesis using assms(1,2) by (auto split: if_splits)
qed

lemma push_key_spec:
  assumes q: "keys_pending p q" and c: "c \<noteq> 0" and room: "length q < 1024" "key_tail p < 2 ^ 31 - 1"
  shows "\<exists>p'. push_key p c = Inr p' \<and> keys_pending p' (q @ [c]) \<and> key_tail p' = key_tail p + 1"
proof -
  let ?h = "nat (key_head p)" and ?n = "length q"
  have t: "0 \<le> key_tail p" "nat (key_tail p) = ?h + ?n" using q by (auto simp: keys_pending_def)
  have u: "unat (word_of_int (key_tail p) :: u32) = ?h + ?n"
    using unat_of_int_small [OF t(1)] t(2) q by (simp add: keys_pending_def)
  let ?b = "(key_buffer p)[(?h + ?n) mod 1024 := c]"
  have l: "length (key_buffer p) = 1024" using q by (simp add: keys_pending_def)
  have push: "push_key p c = Inr (p\<lparr>key_buffer := ?b, key_tail := key_tail p + 1\<rparr>)"
    using u l room(2) by (simp add: push_key_def PROCESS_KEYBOARD_BUFFER_SIZE_def)
  have "?b ! ((?h + i) mod 1024) = (if i < length (q @ [c]) then (q @ [c]) ! i else 0)" if i: "i < 1024" for i
  proof (cases "i = ?n")
    case True
    then show ?thesis using l by simp
  next
    case False
    then have "(?h + i) mod 1024 \<noteq> (?h + ?n) mod 1024" using ring_inject [of i 1024 ?n ?h] i room(1) by auto
    then have "?b ! ((?h + i) mod 1024) = key_buffer p ! ((?h + i) mod 1024)" by simp
    then show ?thesis using q i False by (auto simp: keys_pending_def nth_append)
  qed
  then have "keys_pending (p\<lparr>key_buffer := ?b, key_tail := key_tail p + 1\<rparr>) (q @ [c])"
    using q c room by (simp add: keys_pending_def)
  then show ?thesis using push by auto
qed

lemma pop_key_empty: "keys_pending p [] \<Longrightarrow> pop_key p = Inr (0, p)"
proof -
  assume q: "keys_pending p []"
  then have "unat (word_of_int (key_head p) :: u32) = nat (key_head p)"
    by (intro unat_of_int_small) (auto simp: keys_pending_def)
  moreover have "key_buffer p ! (nat (key_head p) mod 1024) = 0"
    using q unfolding keys_pending_def by (metis add.right_neutral list.size(3) less_numeral_extra(3) zero_less_numeral)
  ultimately show ?thesis
    using q by (simp add: pop_key_def PROCESS_KEYBOARD_BUFFER_SIZE_def keys_pending_def)
qed

lemma pop_key_spec:
  assumes q: "keys_pending p (c # q)"
  shows "\<exists>p'. pop_key p = Inr (c, p') \<and> keys_pending p' q \<and> key_tail p' = key_tail p"
proof -
  let ?h = "nat (key_head p)"
  have l: "length (key_buffer p) = 1024" "c \<noteq> 0" "0 \<le> key_head p" "key_head p < 2 ^ 31 - 1" using q by (auto simp: keys_pending_def)
  then have u: "unat (word_of_int (key_head p) :: u32) = ?h" by (intro unat_of_int_small) auto
  have old: "key_buffer p ! ((?h + i) mod 1024) = (if i < length (c # q) then (c # q) ! i else 0)" if "i < 1024" for i
    using q that by (simp add: keys_pending_def)
  have c0: "key_buffer p ! (?h mod 1024) = c" using old [of 0] by simp
  let ?b = "(key_buffer p)[?h mod 1024 := 0]"
  have pop: "pop_key p = Inr (c, p\<lparr>key_buffer := ?b, key_head := key_head p + 1\<rparr>)"
    using u l c0 by (simp add: pop_key_def PROCESS_KEYBOARD_BUFFER_SIZE_def)
  have h1: "nat (key_head p + 1) = Suc ?h" using l(3) by simp
  have "?b ! ((Suc ?h + i) mod 1024) = (if i < length q then q ! i else 0)" if i: "i < 1024" for i
  proof (cases "i = 1023")
    case True
    then have "(Suc ?h + i) mod 1024 = ?h mod 1024" by simp
    then show ?thesis using True q l by (simp add: keys_pending_def)
  next
    case False
    then have s: "Suc i < 1024" using i by simp
    then have "(?h + Suc i) mod 1024 \<noteq> (?h + 0) mod 1024" using ring_inject [of "Suc i" 1024 0 ?h] by auto
    then show ?thesis using old [OF s] by simp
  qed
  then have "keys_pending (p\<lparr>key_buffer := ?b, key_head := key_head p + 1\<rparr>) q"
    using q by (simp add: keys_pending_def h1)
  then show ?thesis using pop by auto
qed


section \<open>What the user types\<close>

text \<open>What a scan code means.\<close>

datatype key_event = Shift_Up | Shift_Down | Caps | Release | Press byte

definition event_of :: "byte \<Rightarrow> key_event" where
  "event_of sc = (if sc \<in> {0xAA, 0xB6} then Shift_Up else if 0x80 \<le> sc then Release
     else if sc \<in> {0x2A, 0x36} then Shift_Down else if sc = 0x3A then Caps else Press sc)"

text \<open>The character of a key: letters follow the caps lock alone, the other keys the shift key.\<close>

definition key_char :: "ps2keyboard \<Rightarrow> byte \<Rightarrow> byte" where
  "key_char k sc = (if 82 \<le> unat sc then 0 else
     let c = ps2keyboard_scan_set_1 ! unat sc in
     if c \<in> {65..90} then if ps2keyboard_capslock k then c else c + 32
     else if ps2keyboard_shift k then shift_char c else c)"

fun typed :: "ps2keyboard \<Rightarrow> byte list \<Rightarrow> byte list \<times> ps2keyboard" where
  "typed k [] = ([], k)"
| "typed k (sc # scs) = (case event_of sc of
     Shift_Up \<Rightarrow> typed (k\<lparr>ps2keyboard_shift := False\<rparr>) scs
   | Shift_Down \<Rightarrow> typed (k\<lparr>ps2keyboard_shift := True\<rparr>) scs
   | Caps \<Rightarrow> typed (k\<lparr>ps2keyboard_capslock := \<not> ps2keyboard_capslock k\<rparr>) scs
   | Release \<Rightarrow> typed k scs
   | Press c \<Rightarrow> (let (cs, k') = typed k scs in ((if key_char k c = 0 then [] else [key_char k c]) @ cs, k')))"

text \<open>A run of interrupts, and the scan codes they read.\<close>

fun keyboard_irqs :: "'d ports \<Rightarrow> nat \<Rightarrow> ps2keyboard \<times> 'd \<times> ('w, 'a) os_scheme
    \<Rightarrow> fault + (ps2keyboard \<times> 'd \<times> ('w, 'a) os_scheme)" where
  "keyboard_irqs io 0 st = Inr st"
| "keyboard_irqs io (Suc n) (k, d, s) = cbind (ps2keyboard_irq_handler io k d s) (keyboard_irqs io n)"

fun scancodes :: "'d ports \<Rightarrow> nat \<Rightarrow> 'd \<Rightarrow> byte list" where
  "scancodes io 0 d = []"
| "scancodes io (Suc n) d = (let (sc, d1) = in8 io 0x60 (pic_EOI io 0 d); (_, d2) = in8 io 0x60 d1
     in sc # scancodes io n d2)"

lemma and_80: "(sc AND 0x80 \<noteq> 0) = (0x80 \<le> (sc :: byte))"
proof -
  have "bit sc 7 = (0x80 \<le> sc)"
  proof -
    have "bit (unat sc) 7 = bit sc 7" by (simp add: bit_unsigned_iff)
    then have "bit sc 7 = odd (unat sc div 2 ^ 7)" by (simp only: bit_iff_odd [of "unat sc"])
    moreover have "unat sc < 256" using unsigned_less [of sc, where ?'a = nat] by simp
    moreover from this have "unat sc div 2 ^ 7 = (if 128 \<le> unat sc then 1 else 0)" by (auto intro!: div_nat_eqI)
    ultimately show ?thesis by (auto simp: word_le_nat_alt)
  qed
  moreover have e: "(0x80 :: byte) = push_bit 7 1" by simp
  moreover have "bit sc 7 = (sc AND 0x80 \<noteq> 0)" unfolding e by (rule bit_iff_and_push_bit_not_eq_0)
  ultimately show ?thesis by blast
qed

lemma scan_set_length: "length ps2keyboard_scan_set_1 = 82"
  by (simp add: ps2keyboard_scan_set_1_def)

lemma scan_set_range: "c \<in> set ps2keyboard_scan_set_1 \<Longrightarrow> (65 \<le> sint c \<and> sint c \<le> 90) = (c \<in> {65..90})"
  unfolding ps2keyboard_scan_set_1_def by (simp only: set_simps insert_iff empty_iff) (elim disjE; simp)

lemma shift_letter: "c \<in> {65..90} \<Longrightarrow> shift_char c = c"
proof -
  assume "c \<in> {65..90}"
  then have "c \<notin> fst ` set shift_pairs" by (auto simp: shift_pairs_def)
  then have "map_of shift_pairs c = None" by (simp add: map_of_eq_None_iff)
  then show ?thesis by (simp add: shift_char_def)
qed

lemma scancode_char:
  "sc \<noteq> 82 \<Longrightarrow> ps2keyboard_scancode_to_char k sc = Inr (key_char k sc)"
  "ps2keyboard_scancode_to_char k 82 = Inl Bad_Read"
proof -
  assume n: "sc \<noteq> 82"
  then have "unat sc \<noteq> 82" by (auto simp: word_unat_eq_iff)
  then consider "unat sc < 82" | "82 < unat sc" by linarith
  then show "ps2keyboard_scancode_to_char k sc = Inr (key_char k sc)"
  proof cases
    case 1
    let ?c = "ps2keyboard_scan_set_1 ! unat sc"
    have "?c \<in> set ps2keyboard_scan_set_1" using 1 by (simp add: scan_set_length)
    then have r: "(65 \<le> sint ?c \<and> sint ?c \<le> 90) = (?c \<in> {65..90})" by (rule scan_set_range)
    have "ps2keyboard_scancode_to_char k sc = Inr (if ?c \<in> {65..90} \<and> \<not> ps2keyboard_capslock k then ?c + 32
        else if ps2keyboard_shift k then shift_char ?c else ?c)"
    proof -
      have l: "\<not> 82 < unat sc" and rd: "rd ps2keyboard_scan_set_1 (unat sc) = Inr ?c"
        using 1 by (simp_all add: scan_set_length)
      show ?thesis
        unfolding ps2keyboard_scancode_to_char_def scan_set_length Let_def if_not_P [OF l] rd cbind_simps
        using r by (cases "?c \<in> {65..90}"; cases "ps2keyboard_capslock k"; cases "ps2keyboard_shift k"; simp only: simp_thms if_True if_False)
    qed
    then show ?thesis
      using 1 shift_letter [of ?c] by (auto simp: key_char_def Let_def)
  qed (simp add: ps2keyboard_scancode_to_char_def key_char_def scan_set_length Let_def)
qed (simp add: ps2keyboard_scancode_to_char_def scan_set_length)


lemma event_simps:
  "event_of sc = Press c \<Longrightarrow> c = sc"
  by (auto simp: event_of_def split: if_splits)

text \<open>One interrupt: either no character, or one that is queued.\<close>

lemma irq_step:
  assumes sc: "scancodes io 1 d = [sc]" and ok: "sc \<noteq> 82" and cur: "current_process s = a" "a \<noteq> 0" "processes_at s a = Some p"
    and q: "keys_pending p q" and room: "length q + length (fst (typed k [sc])) \<le> 1024"
      "key_tail p + int (length (fst (typed k [sc]))) < 2 ^ 31"
  shows "\<exists>k' d' s' p'. ps2keyboard_irq_handler io k d s = Inr (k', d', s') \<and> k' = snd (typed k [sc])
    \<and> scancodes io (Suc n) d = sc # scancodes io n d' \<and> current_process s' = a \<and> processes_at s' a = Some p'
    \<and> keys_pending p' (q @ fst (typed k [sc])) \<and> key_tail p' = key_tail p + int (length (fst (typed k [sc])))"
proof -
  obtain v d1 w d2 where r: "in8 io 0x60 (pic_EOI io 0 d) = (v, d1)" "in8 io 0x60 d1 = (w, d2)"
    by (cases "in8 io 0x60 (pic_EOI io 0 d)"; cases "in8 io 0x60 (snd (in8 io 0x60 (pic_EOI io 0 d)))") auto
  have v: "v = sc" and rest: "scancodes io (Suc n) d = sc # scancodes io n d2" using sc r by auto
  show ?thesis
  proof (cases "event_of sc")
    case (Press c)
    then have c: "c = sc" by (rule event_simps)
    have e: "\<not> (sc = 0xAA \<or> sc = 0xB6)" "\<not> sc AND 0x80 \<noteq> 0" "\<not> (sc = 0x2A \<or> sc = 0x36)" "sc \<noteq> 0x3A"
      using Press unfolding event_of_def and_80 by (auto split: if_splits)
    have h: "ps2keyboard_irq_handler io k d s = (if key_char k sc \<noteq> 0
        then cbind (process_pushkey s a (key_char k sc)) (\<lambda>s'. Inr (k, d2, s')) else Inr (k, d2, s))"
      unfolding ps2keyboard_irq_handler_def Let_def r(1) prod.case r(2) v if_not_P [OF e(1)] if_not_P [OF e(2)]
        if_not_P [OF e(3)] using e(4) scancode_char(1) [OF ok] cur(1) by (simp add: process_current_def)
    show ?thesis
    proof (cases "key_char k sc = 0")
      case True
      then show ?thesis using h rest cur q Press c by (intro exI [of _ k] exI [of _ d2] exI [of _ s] exI [of _ p]) simp
    next
      case False
      have "length q < 1024" "key_tail p < 2 ^ 31 - 1" using room False Press c by auto
      then obtain p' where p': "push_key p (key_char k sc) = Inr p'" "keys_pending p' (q @ [key_char k sc])"
        "key_tail p' = key_tail p + 1"
        using push_key_spec [OF q False] by blast
      have "process_pushkey s a (key_char k sc) = Inr (put_process a p' s)"
        using p'(1) cur(2,3) by (simp add: process_pushkey_def get_process_def)
      then show ?thesis
        using h False rest cur p' Press c
        by (intro exI [of _ k] exI [of _ d2] exI [of _ "put_process a p' s"] exI [of _ p']) simp
    qed
  qed (use r v rest cur q in \<open>auto simp: ps2keyboard_irq_handler_def event_of_def and_80 split: if_splits\<close>)
qed

lemma typed_Cons: "fst (typed k (sc # scs)) = fst (typed k [sc]) @ fst (typed (snd (typed k [sc])) scs)"
  by (cases "event_of sc") (simp_all add: split_def Let_def)

lemma keyboard_irqs_spec:
  assumes "82 \<notin> set (scancodes io n d)" and "current_process s = a" "a \<noteq> 0" "processes_at s a = Some p"
    and "keys_pending p q" and "length q + length (fst (typed k (scancodes io n d))) \<le> 1024"
    and "key_tail p + int (length (fst (typed k (scancodes io n d)))) < 2 ^ 31"
  shows "\<exists>k' d' s' p'. keyboard_irqs io n (k, d, s) = Inr (k', d', s') \<and> processes_at s' a = Some p'
    \<and> current_process s' = a \<and> keys_pending p' (q @ fst (typed k (scancodes io n d)))"
  using assms
proof (induction n arbitrary: k d s p q)
  case 0
  then show ?case by simp
next
  case (Suc n)
  obtain sc where sc: "scancodes io 1 d = [sc]" by (auto simp: split_def Let_def)
  obtain d2 where r: "scancodes io (Suc n) d = sc # scancodes io n d2"
    using sc by (auto simp: split_def Let_def)
  let ?c = "fst (typed k [sc])" and ?k = "snd (typed k [sc])"
  have l: "length (fst (typed k (scancodes io (Suc n) d))) = length ?c + length (fst (typed ?k (scancodes io n d2)))"
    unfolding r by (subst typed_Cons) simp
  obtain k' d' s' p' where i: "ps2keyboard_irq_handler io k d s = Inr (k', d', s')" "k' = ?k"
    "scancodes io (Suc n) d = sc # scancodes io n d'" "current_process s' = a" "processes_at s' a = Some p'"
    "keys_pending p' (q @ ?c)" "key_tail p' = key_tail p + int (length ?c)"
  proof -
    have ok: "sc \<noteq> 82" using Suc.prems(1) unfolding r by auto
    have "length q + length ?c \<le> 1024" "key_tail p + int (length ?c) < 2 ^ 31"
      using Suc.prems(6,7) unfolding l by auto
    from irq_step [OF sc ok Suc.prems(2-5) this, of n] show thesis using that by blast
  qed
  have e: "scancodes io n d' = scancodes io n d2" using i(3) r by simp
  have "\<exists>k'' d'' s'' p''. keyboard_irqs io n (k', d', s') = Inr (k'', d'', s'') \<and> processes_at s'' a = Some p''
    \<and> current_process s'' = a \<and> keys_pending p'' ((q @ ?c) @ fst (typed k' (scancodes io n d')))"
  proof (rule Suc.IH [OF _ i(4) Suc.prems(3) i(5,6)])
    show "82 \<notin> set (scancodes io n d')" using Suc.prems(1) unfolding r e by simp
    show "length (q @ ?c) + length (fst (typed k' (scancodes io n d'))) \<le> 1024"
      using Suc.prems(6) unfolding l e i(2) by simp
    show "key_tail p' + int (length (fst (typed k' (scancodes io n d')))) < 2 ^ 31"
      using Suc.prems(7) unfolding l e i(2,7) by simp
  qed
  then show ?case
    unfolding i(3) by (subst typed_Cons) (simp add: i(1,2))
qed

text \<open>Reading all that is pending.\<close>

fun pop_keys :: "nat \<Rightarrow> process \<Rightarrow> fault + (byte list \<times> process)" where
  "pop_keys 0 p = Inr ([], p)"
| "pop_keys (Suc n) p = cbind (pop_key p) (\<lambda>(c, p1). cbind (pop_keys n p1) (\<lambda>(cs, p2). Inr (c # cs, p2)))"

lemma pop_keys_spec: "keys_pending p q \<Longrightarrow> \<exists>p'. pop_keys (length q) p = Inr (q, p') \<and> keys_pending p' []"
proof (induction q arbitrary: p)
  case (Cons c q)
  obtain p1 where "pop_key p = Inr (c, p1)" "keys_pending p1 q" using pop_key_spec [OF Cons.prems] by blast
  then show ?case using Cons.IH [of p1] by auto
qed simp

section \<open>Properties\<close>

text \<open>C23: Up to 1024 keys the current process reads exactly the characters of the scan codes of the interrupts, in
  order: letters follow the caps lock and never the shift key, all other keys the shift key.  The scan code 82 is
  read from behind the table.\<close>

theorem typed_keys_arrive:
  assumes "82 \<notin> set (scancodes io n d)" and "current_process s = a" "a \<noteq> 0" "processes_at s a = Some p"
    and "keys_pending p []" and "length (fst (typed k (scancodes io n d))) \<le> 1024"
    and "key_tail p + int (length (fst (typed k (scancodes io n d)))) < 2 ^ 31"
  shows "\<exists>k' d' s' p' p''. keyboard_irqs io n (k, d, s) = Inr (k', d', s') \<and> processes_at s' a = Some p'
    \<and> pop_keys (length (fst (typed k (scancodes io n d)))) p' = Inr (fst (typed k (scancodes io n d)), p'')
    \<and> pop_key p'' = Inr (0, p'') \<and> ps2keyboard_scancode_to_char k 82 = Inl Bad_Read"
proof -
  obtain k' d' s' p' where r: "keyboard_irqs io n (k, d, s) = Inr (k', d', s')" "processes_at s' a = Some p'"
    "keys_pending p' ([] @ fst (typed k (scancodes io n d)))"
  proof -
    have "length ([] :: byte list) + length (fst (typed k (scancodes io n d))) \<le> 1024" using assms(6) by simp
    from keyboard_irqs_spec [OF assms(1-5) this assms(7)] show thesis using that by blast
  qed
  then show ?thesis
    using pop_keys_spec [of p' "fst (typed k (scancodes io n d))"] pop_key_empty scancode_char(2) by fastforce
qed

text \<open>A keyboard whose scan codes are each read twice, and a machine with one process.\<close>

definition kbd_ports :: "byte list ports" where
  "kbd_ports = \<lparr>in8 = (\<lambda>p d. if p = 0x60 then (hd d, tl d) else (0, d)), out8 = (\<lambda>p v d. d)\<rparr>"

lemma sample_keys: "keys_pending sample_process []"
  by (simp add: keys_pending_def sample_process_def)

theorem typed_keys_arrive_witness:
  "\<exists>k' d' s' p' p''. keyboard_irqs kbd_ports 3 (\<lparr>ps2keyboard_capslock = False, ps2keyboard_shift = False\<rparr>,
      [0x2A, 0x2A, 0x02, 0x02, 0x23, 0x23], sample_os) = Inr (k', d', s')
    \<and> processes_at s' 0x900000 = Some p' \<and> pop_keys 2 p' = Inr ([33, 104], p'')"
proof -
  have e: "scancodes kbd_ports 3 [0x2A, 0x2A, 0x02, 0x02, 0x23, 0x23] = [0x2A, 0x02, 0x23]"
    by (simp add: eval_nat_numeral kbd_ports_def pic_EOI_def)
  have t: "fst (typed \<lparr>ps2keyboard_capslock = False, ps2keyboard_shift = False\<rparr> [0x2A, 0x02, 0x23]) = [33, 104]"
    by (simp add: event_of_def key_char_def ps2keyboard_scan_set_1_def shift_char_def shift_pairs_def)
  let ?k = "\<lparr>ps2keyboard_capslock = False, ps2keyboard_shift = False\<rparr>"
  let ?d = "[0x2A, 0x2A, 0x02, 0x02, 0x23, 0x23] :: byte list"
  have h: "82 \<notin> set (scancodes kbd_ports 3 ?d)" "(0x900000 :: u32) \<noteq> 0"
    "length (fst (typed ?k (scancodes kbd_ports 3 ?d))) \<le> 1024"
    "key_tail sample_process + int (length (fst (typed ?k (scancodes kbd_ports 3 ?d)))) < 2 ^ 31"
    unfolding e t by (simp_all add: sample_process_def)
  have l: "length ([33, 104] :: byte list) = 2" by simp
  from typed_keys_arrive [OF h(1) sample_os(1) h(2) sample_os(2) sample_keys h(3,4), unfolded e t l]
  show ?thesis by (elim exE conjE, intro exI conjI) assumption+
qed

text \<open>The 1025th pending key takes the cell of the oldest one: the process then reads the newest key first.\<close>

theorem key_overrun:
  assumes "keys_pending p q" and "length q = 1024" and "c \<noteq> 0" and "key_tail p < 2 ^ 31 - 1"
  shows "\<exists>p1 p2. push_key p c = Inr p1 \<and> pop_key p1 = Inr (c, p2)"
proof -
  let ?h = "nat (key_head p)"
  have k: "length (key_buffer p) = 1024" "0 \<le> key_head p" "key_tail p = key_head p + 1024" "key_head p < 2 ^ 31 - 1"
    using assms by (auto simp: keys_pending_def)
  have "unat (word_of_int (key_tail p) :: u32) = ?h + 1024" using k assms(4) by (subst unat_of_int_small) auto
  moreover have "unat (word_of_int (key_head p) :: u32) = ?h" using k by (intro unat_of_int_small) auto
  ultimately show ?thesis
    using k assms(3,4) by (simp add: push_key_def pop_key_def PROCESS_KEYBOARD_BUFFER_SIZE_def)
qed


definition full_queue :: process where
  "full_queue = sample_process\<lparr>key_buffer := replicate 1024 97, key_tail := 1024\<rparr>"

theorem key_overrun_witness: "\<exists>p1 p2. push_key full_queue 98 = Inr p1 \<and> pop_key p1 = Inr (98, p2)"
proof (rule key_overrun)
  show "keys_pending full_queue (replicate 1024 97)"
    by (simp add: keys_pending_def full_queue_def sample_process_def)
qed (simp_all add: full_queue_def)

end
