(* ===== verification/Interrupts.thy ===== *)
theory Interrupts
  imports Keyboard KPrintf
begin

text \<open>
  Interrupts: the table of \<^verbatim>\<open>src/src/kernel/idt/idt.c\<close>, the common entry \<^verbatim>\<open>idt_Handler\<close>, the timer handler of
  \<^verbatim>\<open>kernel.cpp\<close> and the installation of the keyboard handler.  The assembly stubs save the registers in the frame
  the handlers get and call \<open>idt_Handler\<close>; they and \<^verbatim>\<open>lidt\<close> are not modelled, the gates are proved against what
  the processor reads.  The timer is proved to run the tasks of the ring in turn.
\<close>

section \<open>The interrupt table\<close>

definition MAX_INTERRUPTS :: nat where "MAX_INTERRUPTS = 256"

record idt_desc =
  offset_low :: u16
  selector :: u16
  zero :: byte
  type_attr :: byte
  offset_high :: u16

record idtr_desc =
  idtr_limit :: u16
  idtr_base :: u32

text \<open>What a handler does: it comes back to \<open>idt_Handler\<close>, or the processor goes on in user mode (\<open>task_return\<close>).\<close>

datatype 's outcome = Returned 's | Resumed registers 's

type_synonym 's isr = "int \<Rightarrow> interrupt_frame \<Rightarrow> 's \<Rightarrow> fault + 's outcome"

record 's idt =
  idt_descriptors :: "idt_desc list"
  idtr_descriptor :: idtr_desc
  interrupt_handlers :: "'s isr option list"

definition zero_desc :: idt_desc where
  "zero_desc = \<lparr>offset_low = 0, selector = 0, zero = 0, type_attr = 0, offset_high = 0\<rparr>"

text \<open>Before \<open>idt_Init\<close>: all is zero.\<close>

definition empty_idt :: "'s idt" where
  "empty_idt = \<lparr>idt_descriptors = replicate MAX_INTERRUPTS zero_desc, idtr_descriptor = \<lparr>idtr_limit = 0, idtr_base = 0\<rparr>,
     interrupt_handlers = replicate MAX_INTERRUPTS None\<rparr>"

definition idt_InterruptLayoutString :: "string list" where
  "idt_InterruptLayoutString = [''Divide by 0'', ''Reserved'', ''NMI Interrupt'', ''Breakpoint (INT3)'',
     ''Overflow (INTO)'', ''Bounds range exceeded (BOUND)'', ''Invalid opcode (UD2)'',
     ''Device not available (WAIT/FWAIT)'', ''Double fault'', ''Coprocessor segment overrun'', ''Invalid TSS'',
     ''Segment not present'', ''Stack-segment fault'', ''General protection fault'', ''Page fault'', ''Reserved'',
     ''x87 FPU error'', ''Alignment check'', ''Machine check'', ''SIMD Floating-Point Exception''] @ replicate 12 ''Reserved''"

definition gate :: "idt_desc \<Rightarrow> u32 \<Rightarrow> idt_desc" where
  "gate desc address = desc\<lparr>offset_low := ucast (address AND 0x0000ffff),
     offset_high := ucast (drop_bit 16 (address AND 0xffff0000)), selector := 0x08, zero := 0, type_attr := 0b11101110\<rparr>"

definition idt_SetDescriptor :: "idt_desc list \<Rightarrow> int \<Rightarrow> u32 \<Rightarrow> fault + idt_desc list" where
  "idt_SetDescriptor descs int_no address =
     (if int_no < 0 then Inl Bad_Write
      else cbind (rd descs (nat int_no)) (\<lambda>desc. wr descs (nat int_no) (gate desc address)))"

definition idt_SetHandler :: "'s idt \<Rightarrow> int \<Rightarrow> 's isr option \<Rightarrow> int \<times> 's idt" where
  "idt_SetHandler t int_no handler =
     (if int_no < 0 \<or> int MAX_INTERRUPTS - 1 \<le> int_no then (- EINVARG, t)
      else (ALL_OK, t\<lparr>interrupt_handlers := (interrupt_handlers t)[nat int_no := handler]\<rparr>))"

text \<open>The table of entry points is in the assembly file, the address of the table is the linker's.\<close>

primrec idt_init_loop :: "(nat \<Rightarrow> u32) \<Rightarrow> idt_desc list \<Rightarrow> nat \<Rightarrow> fault + idt_desc list" where
  "idt_init_loop interrupt_pointer_table descs 0 = Inr descs"
| "idt_init_loop interrupt_pointer_table descs (Suc i) =
     cbind (idt_init_loop interrupt_pointer_table descs i) (\<lambda>descs'.
       idt_SetDescriptor descs' (int i) (interrupt_pointer_table i))"

definition idt_Init :: "(nat \<Rightarrow> u32) \<Rightarrow> u32 \<Rightarrow> 's idt \<Rightarrow> fault + 's idt" where
  "idt_Init interrupt_pointer_table descriptors_address t =
     cbind (idt_init_loop interrupt_pointer_table (replicate MAX_INTERRUPTS zero_desc) MAX_INTERRUPTS) (\<lambda>descs.
       Inr (t\<lparr>idt_descriptors := descs,
         idtr_descriptor := \<lparr>idtr_limit = word_of_nat (8 * MAX_INTERRUPTS - 1), idtr_base = descriptors_address\<rparr>\<rparr>))"

definition idt_Handler :: "'a kernel_scheme idt \<Rightarrow> int \<Rightarrow> interrupt_frame \<Rightarrow> 'a kernel_scheme
    \<Rightarrow> fault + 'a kernel_scheme outcome" where
  "idt_Handler t int_no frame s =
     (let s1 = kernel_page s in
      cbind (if int_no < 0 then Inl Bad_Read else rd (interrupt_handlers t) (nat int_no)) (\<lambda>h.
      cbind (case h of None \<Rightarrow> Inr (Returned s1)
             | Some f \<Rightarrow> cbind (task_current_save_state s1 frame) (\<lambda>s2. f int_no frame s2)) (\<lambda>r.
      case r of Resumed regs s3 \<Rightarrow> Inr (Resumed regs s3)
      | Returned s3 \<Rightarrow> cbind (task_page s3) (\<lambda>(_, s4). Inr (Returned s4)))))"

section \<open>The handlers the kernel installs\<close>

text \<open>The machine: the operating system, the device behind the ports and the flags of the keyboard driver.\<close>

record ('w, 'd) machine = "'w os" +
  device :: 'd
  keyboard_flags :: ps2keyboard

definition timer_interrupt :: "'d ports \<Rightarrow> ('w, 'd, 'a) machine_scheme isr" where
  "timer_interrupt io int_no frame s =
     (let s1 = s\<lparr>device := pic_EOI io 0 (device s)\<rparr> in
      cbind (task_get_next s1) (\<lambda>next.
      cbind (task_switch s1 next) (\<lambda>(_, s2).
      cbind (task_return s2 (task_current s2)) (\<lambda>(regs, s3). Inr (Resumed regs s3)))))"

definition keyboard_isr :: "'d ports \<Rightarrow> ('w, 'd, 'a) machine_scheme isr" where
  "keyboard_isr io int_no frame s =
     cbind (ps2keyboard_irq_handler io (keyboard_flags s) (device s) s) (\<lambda>(k, d, s').
       Inr (Returned (s'\<lparr>keyboard_flags := k, device := d\<rparr>)))"

text \<open>\<open>kprintf\<close>: the text goes to the serial port.  The contents of its buffers before do not matter: both are cleared.\<close>

definition chars :: "string \<Rightarrow> byte list" where "chars str = map of_char str"

definition lit :: "string \<Rightarrow> byte list" where "lit str = chars str @ [0]"

definition kprintf_serial :: "'d ports \<Rightarrow> (u32 \<Rightarrow> byte list) \<Rightarrow> byte list \<Rightarrow> u32 list \<Rightarrow> 'd \<Rightarrow> fault + 'd" where
  "kprintf_serial io strs fmt as d =
     cbind (kprintf strs (replicate 1024 0) (replicate 512 0) fmt as) (\<lambda>b. ser_PrintString io COM1 b d)"

definition ps2keyboard_setup :: "'d ports \<Rightarrow> ('w, 'd, 'a) machine_scheme idt \<Rightarrow> ('w, 'd, 'a) machine_scheme
    \<Rightarrow> fault + (int \<times> ('w, 'd, 'a) machine_scheme idt \<times> ('w, 'd, 'a) machine_scheme)" where
  "ps2keyboard_setup io t s =
     cbind (kprintf_serial io (\<lambda>_. []) (chars ''Initializing PS2 Keyboard driver'' @ [13, 10, 0]) [] (device s)) (\<lambda>d.
       Inr (0, snd (idt_SetHandler t 0x21 (Some (keyboard_isr io))), s\<lparr>device := out8 io 0x64 0xAE d\<rparr>))"

section \<open>The table the processor reads\<close>

text \<open>An interrupt gate as the processor's manual has it: where it leads, and who may call it.\<close>

definition gate_target :: "idt_desc \<Rightarrow> u32" where
  "gate_target d = ucast (offset_low d) OR push_bit 16 (ucast (offset_high d))"

definition gate_present :: "idt_desc \<Rightarrow> bool" where "gate_present d = bit (type_attr d) 7"
definition gate_dpl :: "idt_desc \<Rightarrow> byte" where "gate_dpl d = drop_bit 5 (type_attr d) AND 3"
definition gate_type :: "idt_desc \<Rightarrow> byte" where "gate_type d = type_attr d AND 15"

lemma gate_decodes:
  "gate_target (gate d a) = a" "gate_present (gate d a)" "gate_dpl (gate d a) = 3" "gate_type (gate d a) = 14"
  "selector (gate d a) = 0x08"
proof -
  have "ucast (ucast (a AND 0x0000ffff) :: u16) OR push_bit 16 (ucast (ucast (drop_bit 16 (a AND 0xffff0000)) :: u16)) = a" (is "?l = a")
  proof (rule bit_word_eqI)
    fix n assume n: "n < LENGTH(32)"
    have m: "(0x0000ffff :: u32) = mask 16" "(0xffff0000 :: u32) = push_bit 16 (mask 16)"
      by (simp_all add: mask_eq_exp_minus_1 push_bit_eq_mult)
    show "bit ?l n = bit a n"
      unfolding m using n by (cases "n < 16") (auto simp: bit_simps)
  qed
  then show "gate_target (gate d a) = a" by (simp add: gate_target_def gate_def)
  show "gate_present (gate d a)" "gate_dpl (gate d a) = 3" "gate_type (gate d a) = 14" "selector (gate d a) = 0x08"
    by (simp_all add: gate_def gate_present_def gate_dpl_def gate_type_def bit_iff_odd_drop_bit)
qed

lemma idt_init_loop_spec:
  "length descs = 256 \<Longrightarrow> n \<le> 256 \<Longrightarrow>
   \<exists>descs'. idt_init_loop tab descs n = Inr descs' \<and> length descs' = 256
     \<and> (\<forall>i<n. \<exists>d. descs' ! i = gate d (tab i))"
proof (induction n)
  case 0
  then show ?case by simp
next
  case (Suc n)
  then obtain ds where ds: "idt_init_loop tab descs n = Inr ds" "length ds = 256" "\<forall>i<n. \<exists>d. ds ! i = gate d (tab i)"
    by auto
  have "idt_init_loop tab descs (Suc n) = Inr (ds[n := gate (ds ! n) (tab n)])"
    using ds(1,2) Suc.prems(2) by (simp add: idt_SetDescriptor_def)
  moreover have "\<forall>i<Suc n. \<exists>d. ds[n := gate (ds ! n) (tab n)] ! i = gate d (tab i)"
    using ds(2,3) Suc.prems(2) by (auto simp: less_Suc_eq)
  ultimately show ?case using ds(2) by simp
qed

lemma idt_Init_spec:
  "\<exists>t'. idt_Init tab base_address t = Inr t' \<and> length (idt_descriptors t') = 256
    \<and> interrupt_handlers t' = interrupt_handlers t \<and> idtr_limit (idtr_descriptor t') = 2047
    \<and> idtr_base (idtr_descriptor t') = base_address
    \<and> (\<forall>i<256. \<exists>d. idt_descriptors t' ! i = gate d (tab i))"
  using idt_init_loop_spec [of "replicate 256 zero_desc" 256 tab] by (auto simp: idt_Init_def MAX_INTERRUPTS_def)

section \<open>The timer\<close>

text \<open>The registers the tasks go on with, from the current one on around the ring.\<close>

definition run_queue :: "'a kernel_scheme \<Rightarrow> u32 list \<Rightarrow> nat \<Rightarrow> registers list" where
  "run_queue s ts i = map (\<lambda>k. registers (the (tasks s (ts ! ((i + k) mod length ts))))) [0..<length ts]"

text \<open>Timer interrupts one after the other; between two of them a task runs in user mode, which ends in the next
  frame.  The result lists the registers with which user mode is entered.\<close>

fun timer_ticks :: "'d ports \<Rightarrow> ('w, 'd, 'a) machine_scheme idt \<Rightarrow> ('w, 'd, 'a) machine_scheme \<Rightarrow> interrupt_frame list
    \<Rightarrow> fault + (registers list \<times> ('w, 'd, 'a) machine_scheme)" where
  "timer_ticks io t s [] = Inr ([], s)"
| "timer_ticks io t s (f # fs) = cbind (idt_Handler t 0x20 f s) (\<lambda>r. case r of
     Returned s' \<Rightarrow> timer_ticks io t s' fs
   | Resumed regs s' \<Rightarrow> cbind (timer_ticks io t s' fs) (\<lambda>(rs, s''). Inr (regs # rs, s'')))"

lemma task_list_registers:
  assumes "task_list s ts" and "tasks s a = Some t" and "tasks s' = (tasks s)(a := Some (t\<lparr>registers := r\<rparr>))"
    and "task_head s' = task_head s" and "task_tail s' = task_tail s" and "ts \<noteq> []" and "current_task s' \<in> set ts"
  shows "task_list s' ts"
proof -
  have "\<exists>u. linked (tasks s') ts k u" if k: "k < length ts" for k
  proof -
    obtain u where u: "linked (tasks s) ts k u" using assms(1) k by (auto simp: task_list_def)
    show ?thesis
    proof (cases "ts ! k = a")
      case True
      then have "u = t" using u assms(2) by (simp add: linked_def)
      then have "linked (tasks s') ts k (t\<lparr>registers := r\<rparr>)" using u True assms(3) by (simp add: linked_def)
      then show ?thesis ..
    next
      case False
      then have "linked (tasks s') ts k u" using u assms(3) by (simp add: linked_def)
      then show ?thesis ..
    qed
  qed
  then show ?thesis using assms(1,4-7) by (auto simp: task_list_def)
qed

text \<open>Saving the registers of the current task and going on to the next one moves the run queue on by one.\<close>

lemma run_queue_step:
  assumes d: "distinct ts" and i: "i < length ts" and t: "tasks s' = (tasks s)(ts ! i := Some t)"
  shows "run_queue s' ts (Suc i mod length ts) = List.tl (run_queue s ts i) @ [registers t]"
proof (rule nth_equalityI)
  let ?n = "length ts"
  show "length (run_queue s' ts (Suc i mod ?n)) = length (List.tl (run_queue s ts i) @ [registers t])"
    using i by (simp add: run_queue_def)
  fix k assume "k < length (run_queue s' ts (Suc i mod ?n))"
  then have k: "k < ?n" by (simp add: run_queue_def)
  have e: "(Suc i mod ?n + k) mod ?n = (i + Suc k) mod ?n" by (simp add: mod_add_left_eq)
  show "run_queue s' ts (Suc i mod ?n) ! k = (List.tl (run_queue s ts i) @ [registers t]) ! k"
  proof (cases "Suc k < ?n")
    case True
    have "(i + Suc k) mod ?n \<noteq> (i + 0) mod ?n" using ring_inject [OF True, of 0 i] i by fastforce
    then have "(i + Suc k) mod ?n \<noteq> i" using i by simp
    then have "ts ! ((i + Suc k) mod ?n) \<noteq> ts ! i"
      using d i mod_less_divisor [of ?n "i + Suc k"] by (subst nth_eq_iff_index_eq) linarith+
    then show ?thesis using k True e t by (simp add: run_queue_def nth_append nth_tl)
  next
    case False
    then have k': "Suc k = ?n" using k by simp
    have "(i + Suc k) mod ?n = i" unfolding k' using i by simp
    then show ?thesis using k k' e t by (simp add: run_queue_def nth_append)
  qed
qed

lemma tick:
  fixes s :: "('w, 'd, 'a) machine_scheme"
  assumes l: "task_list s ts" and i: "i < length ts" "current_task s = ts ! i"
    and h: "length (interrupt_handlers t) = 256" "interrupt_handlers t ! 0x20 = Some (timer_interrupt io)"
  shows "\<exists>s'. idt_Handler t 0x20 f s = Inr (Resumed (run_queue s' ts (Suc i mod length ts) ! 0) s')
    \<and> task_list s' ts \<and> current_task s' = ts ! (Suc i mod length ts)
    \<and> run_queue s' ts (Suc i mod length ts) = List.tl (run_queue s ts i) @ [saved_registers f]
    \<and> (\<forall>a. map_option page_directory (tasks s' a) = map_option page_directory (tasks s a))
    \<and> ram s' = ram s \<and> cr3 s' = load32 (ram s) (page_directory (the (tasks s (ts ! (Suc i mod length ts)))))"
proof -
  let ?nx = "ts ! (Suc i mod length ts)"
  have ne: "ts \<noteq> []" "distinct ts" "0 \<notin> set ts" using l i by (auto simp: task_list_def)
  have nx: "Suc i mod length ts < length ts" "?nx \<in> set ts" using i(1) ne(1) by simp_all
  obtain c where c: "tasks s (ts ! i) = Some c" using l i by (auto simp: task_list_def linked_def)
  define s1 where "s1 = kernel_page s"
  define s2 where "s2 = (put_task (ts ! i) (c\<lparr>registers := saved_registers f\<rparr>) s1)\<lparr>device := pic_EOI io 0 (device s1)\<rparr>"
  have t2: "tasks s2 = (tasks s)(ts ! i := Some (c\<lparr>registers := saved_registers f\<rparr>))" "task_head s2 = task_head s"
    "task_tail s2 = task_tail s" "current_task s2 = ts ! i" "ram s2 = ram s"
    using i(2) by (simp_all add: s2_def s1_def)
  have l2: "task_list s2 ts"
    by (rule task_list_registers [OF l c t2(1-3) ne(1)]) (use t2(4) i(1) in simp)
  have g2: "task_get_next s2 = Inr ?nx" by (rule task_get_next_spec [OF l2 i(1) t2(4)])
  obtain u where u: "tasks s2 ?nx = Some u" using l2 nx(1) by (auto simp: task_list_def linked_def)
  define s3 where "s3 = (paging_switch (s2\<lparr>current_task := ?nx\<rparr>) (page_directory u))\<lparr>data_segments := r_ss (registers u)\<rparr>"
  have t3: "tasks s3 = tasks s2" "task_head s3 = task_head s2" "task_tail s3 = task_tail s2" "current_task s3 = ?nx"
    "ram s3 = ram s" "cr3 s3 = load32 (ram s) (page_directory u)"
    using t2(5) by (simp_all add: s3_def)
  have rq: "run_queue s3 ts (Suc i mod length ts) = List.tl (run_queue s ts i) @ [saved_registers f]"
    using run_queue_step [OF ne(2) i(1), of s3 s "c\<lparr>registers := saved_registers f\<rparr>"] t3(1) t2(1) by simp
  have hd: "run_queue s3 ts (Suc i mod length ts) ! 0 = registers u"
    using u t3(1) nx(1) ne(1) by (simp add: run_queue_def)
  have c0: "ts ! i \<noteq> 0" using ne(3) i(1) nth_mem by metis
  let ?p = "put_task (ts ! i) (c\<lparr>registers := saved_registers f\<rparr>) s1"
  have "task_current_save_state s1 f = Inr ?p"
    using i(2) c c0 by (simp add: task_current_save_state_def task_current_def task_save_state_def get_task_def s1_def)
  moreover have d2: "?p\<lparr>device := pic_EOI io 0 (device ?p)\<rparr> = s2" by (simp add: s2_def put_task_def)
  have "timer_interrupt io 0x20 f ?p = Inr (Resumed (registers u) s3)"
    unfolding timer_interrupt_def Let_def d2 g2
    using u by (simp add: task_switch_def task_return_def get_task_def task_current_def s3_def)
  ultimately have "idt_Handler t 0x20 f s = Inr (Resumed (registers u) s3)"
    using h unfolding idt_Handler_def Let_def s1_def [symmetric] by simp
  moreover have "task_list s3 ts"
    using l2 t3 nx(2) ne(1) by (simp add: task_list_def)
  moreover have "\<forall>a. map_option page_directory (tasks s3 a) = map_option page_directory (tasks s a)"
    using t3(1) t2(1) c by simp
  moreover have "page_directory u = page_directory (the (tasks s ?nx))"
    using u t2(1) c by (auto split: if_splits)
  ultimately show ?thesis using rq hd t3 by (intro exI [of _ s3]) simp
qed

lemma timer_ticks_spec:
  fixes s :: "('w, 'd, 'a) machine_scheme"
  assumes "length (interrupt_handlers t) = 256" and "interrupt_handlers t ! 0x20 = Some (timer_interrupt io)"
    and "task_list s ts" and "i < length ts" and "current_task s = ts ! i"
  shows "\<exists>s'. timer_ticks io t s fs = Inr (take (length fs) (List.tl (run_queue s ts i @ map saved_registers fs)), s')
    \<and> task_list s' ts \<and> current_task s' = ts ! ((i + length fs) mod length ts)
    \<and> run_queue s' ts ((i + length fs) mod length ts) = drop (length fs) (run_queue s ts i @ map saved_registers fs)"
  using assms(3-5)
proof (induction fs arbitrary: s i)
  case Nil
  then show ?case by simp
next
  case (Cons f fs)
  let ?i = "Suc i mod length ts" and ?q = "run_queue s ts i"
  obtain s1 where s1: "idt_Handler t 0x20 f s = Inr (Resumed (run_queue s1 ts ?i ! 0) s1)" "task_list s1 ts"
    "current_task s1 = ts ! ?i" "run_queue s1 ts ?i = List.tl ?q @ [saved_registers f]"
    using tick [OF Cons.prems assms(1,2), of f] by blast
  have len: "length ?q = length ts" "0 < length ts" using Cons.prems(2) by (auto simp: run_queue_def)
  then obtain x q where q: "?q = x # q" by (cases ?q) auto
  have i1: "?i < length ts" using len(2) by simp
  obtain s2 where s2: "timer_ticks io t s1 fs = Inr (take (length fs) (List.tl (run_queue s1 ts ?i @ map saved_registers fs)), s2)"
    "task_list s2 ts" "current_task s2 = ts ! ((?i + length fs) mod length ts)"
    "run_queue s2 ts ((?i + length fs) mod length ts) = drop (length fs) (run_queue s1 ts ?i @ map saved_registers fs)"
    using Cons.IH [OF s1(2) i1 s1(3)] by blast
  have e: "(?i + length fs) mod length ts = (i + length (f # fs)) mod length ts" by (simp add: mod_add_left_eq)
  have r: "(q @ [saved_registers f]) ! 0 # take (length fs) (List.tl ((q @ [saved_registers f]) @ map saved_registers fs))
      = take (length (f # fs)) (List.tl (?q @ map saved_registers (f # fs)))"
    using q by (cases q) simp_all
  show ?case
    by (rule exI [of _ s2]) (use s1 s2 e r q in simp)
qed

section \<open>A machine to evaluate on\<close>

definition ticking :: "(unit, (u16 \<times> byte) list) machine" where
  "ticking = os.extend (kernel.extend two_tasks \<lparr>processes = replicate 12 0, current_process = 0, elf_files = (\<lambda>_. None),
      files = \<lparr>k_allocs = [], k_live = 0, filesystems = [], file_descriptors = [], mounted_files = [], drivers = ()\<rparr>,
      framebuffer_bytes = 0\<rparr>)
     \<lparr>device = [], keyboard_flags = \<lparr>ps2keyboard_capslock = False, ps2keyboard_shift = False\<rparr>\<rparr>"

lemma ticking: "task_list ticking [0x1000, 0x2000]" "current_task ticking = 0x1000"
  "run_queue ticking [0x1000, 0x2000] 0 = [zero_registers, zero_registers]"
  by (simp_all add: ticking_def two_tasks_def boot_kernel_def task_list_def linked_def zero_task_def All_less_Suc
      os.defs kernel.defs run_queue_def)

definition frame_at :: "u32 \<Rightarrow> interrupt_frame" where
  "frame_at ip = \<lparr>f_error_code = 0, f_edi = 0, f_esi = 0, f_ebp = 0, f_reserved = 0, f_ebx = 0, f_edx = 0, f_ecx = 0,
     f_eax = 0, f_ip = ip, f_cs = 0x1b, f_flags = 0x200, f_esp = 0x3FF000, f_ss = 0x23\<rparr>"

section \<open>Properties\<close>

text \<open>\<open>idt_Init\<close> builds a table of 256 gates such that the processor reads, for every interrupt, a present 32-bit
  interrupt gate in the kernel's code segment that leads to the entry point of that interrupt; every gate may be
  called from user mode.  \<open>idt_SetDescriptor\<close> then changes one gate alone, and \<open>idt_SetHandler\<close> accepts the numbers
  0 to 254 only.\<close>

theorem idt_gates:
  fixes t :: "'s idt"
  shows "\<exists>t'. idt_Init tab base_address t = Inr t' \<and> interrupt_handlers t' = interrupt_handlers t
    \<and> idtr_limit (idtr_descriptor t') = 2047 \<and> idtr_base (idtr_descriptor t') = base_address
    \<and> (\<forall>i<256. (let g = idt_descriptors t' ! i in gate_target g = tab i \<and> gate_present g \<and> gate_type g = 14
         \<and> selector g = 0x08 \<and> gate_dpl g = 3))
    \<and> (\<forall>n a. 0 \<le> n \<longrightarrow> n < 256 \<longrightarrow> (\<exists>ds. idt_SetDescriptor (idt_descriptors t') n a = Inr ds
         \<and> (\<forall>i<256. gate_target (ds ! i) = (if i = nat n then a else tab i))))
    \<and> (\<forall>n h. idt_SetHandler t' n h = (if 0 \<le> n \<and> n < 255
         then (0, t'\<lparr>interrupt_handlers := (interrupt_handlers t)[nat n := h]\<rparr>) else (- EINVARG, t')))"
proof -
  obtain t' where t': "idt_Init tab base_address t = Inr t'" "length (idt_descriptors t') = 256"
    "interrupt_handlers t' = interrupt_handlers t" "idtr_limit (idtr_descriptor t') = 2047"
    "idtr_base (idtr_descriptor t') = base_address" "\<forall>i<256. \<exists>d. idt_descriptors t' ! i = gate d (tab i)"
    using idt_Init_spec [of tab base_address t] by blast
  have g: "\<forall>i<256. (let g = idt_descriptors t' ! i in gate_target g = tab i \<and> gate_present g \<and> gate_type g = 14
         \<and> selector g = 0x08 \<and> gate_dpl g = 3)"
    using t'(6) by (metis gate_decodes)
  have "\<exists>ds. idt_SetDescriptor (idt_descriptors t') n a = Inr ds
         \<and> (\<forall>i<256. gate_target (ds ! i) = (if i = nat n then a else tab i))" if n: "0 \<le> n" "n < 256" for n a
  proof -
    have "nat n < 256" using n by simp
    then show ?thesis
      using t'(2) n g by (auto simp: idt_SetDescriptor_def nth_list_update gate_decodes Let_def)
  qed
  moreover have "idt_SetHandler t' n h = (if 0 \<le> n \<and> n < 255
         then (0, t'\<lparr>interrupt_handlers := (interrupt_handlers t)[nat n := h]\<rparr>) else (- EINVARG, t'))" for n h
    using t'(3) by (auto simp: idt_SetHandler_def MAX_INTERRUPTS_def ALL_OK_def)
  ultimately show ?thesis using t' g by (intro exI [of _ t']) simp
qed

theorem idt_gates_witness:
  "\<exists>t'. idt_Init (\<lambda>i. 0x100000 + 16 * word_of_nat i) 0x8000 (empty_idt :: unit idt) = Inr t'
    \<and> gate_target (idt_descriptors t' ! 32) = 0x100200
    \<and> idt_SetHandler t' 255 None = (- EINVARG, t')"
proof -
  from idt_gates [of "\<lambda>i. 0x100000 + 16 * word_of_nat i" "0x8000", where t = "empty_idt :: unit idt"]
  obtain t' where t': "idt_Init (\<lambda>i. 0x100000 + 16 * word_of_nat i) 0x8000 (empty_idt :: unit idt) = Inr t'"
    "\<forall>i<256. (let g = idt_descriptors t' ! i in gate_target g = 0x100000 + 16 * word_of_nat i \<and> gate_present g
         \<and> gate_type g = 14 \<and> selector g = 0x08 \<and> gate_dpl g = 3)"
    "\<forall>n h. idt_SetHandler t' n h = (if 0 \<le> n \<and> n < 255
         then (0, t'\<lparr>interrupt_handlers := (interrupt_handlers empty_idt)[nat n := h]\<rparr>) else (- EINVARG, t'))"
    by (elim exE conjE)
  have "gate_target (idt_descriptors t' ! 32) = 0x100200" using t'(2) by (auto simp: Let_def dest!: spec [of _ 32])
  then show ?thesis using t'(1,3) by auto
qed

text \<open>C4: The timer runs the tasks in turn: over any number of interrupts, user mode is entered with the registers a
  queue of the tasks gives that starts as the ring and takes in, at its end, the registers each interrupt saves.  So
  every task gets its turn once in as many ticks as there are tasks, with exactly the registers it was interrupted with.\<close>

theorem timer_round_robin:
  fixes s :: "('w, 'd, 'a) machine_scheme"
  assumes "length (interrupt_handlers t) = 256" and "interrupt_handlers t ! 0x20 = Some (timer_interrupt io)"
    and "task_list s ts" and "i < length ts" and "current_task s = ts ! i"
  shows "\<exists>rs s'. timer_ticks io t s fs = Inr (rs, s') \<and> length rs = length fs
    \<and> (\<forall>k<length fs. rs ! k = (run_queue s ts i @ map saved_registers fs) ! Suc k)
    \<and> task_list s' ts \<and> current_task s' = ts ! ((i + length fs) mod length ts)
    \<and> run_queue s' ts ((i + length fs) mod length ts) = drop (length fs) (run_queue s ts i @ map saved_registers fs)"
proof -
  have l: "length (run_queue s ts i) = length ts" by (simp add: run_queue_def)
  show ?thesis
    using timer_ticks_spec [OF assms, of fs] assms(4) l by (auto simp: nth_tl)
qed

theorem timer_round_robin_witness:
  "\<exists>rs s'. timer_ticks recorder (snd (idt_SetHandler empty_idt 0x20 (Some (timer_interrupt recorder)))) ticking
      (map frame_at [0x400100, 0x400200, 0x400300]) = Inr (rs, s')
    \<and> map r_ip rs = [0, 0x400100, 0x400200] \<and> current_task s' = 0x2000"
proof -
  let ?t = "snd (idt_SetHandler empty_idt 0x20 (Some (timer_interrupt recorder)))"
  have h: "length (interrupt_handlers ?t) = 256" "interrupt_handlers ?t ! 0x20 = Some (timer_interrupt recorder)"
    by (simp_all add: idt_SetHandler_def empty_idt_def MAX_INTERRUPTS_def)
  have c: "0 < length [0x1000, 0x2000 :: u32]" "current_task ticking = [0x1000, 0x2000] ! 0" using ticking(2) by simp_all
  define fs where "fs = map frame_at [0x400100, 0x400200, 0x400300]"
  obtain rs s' where r: "timer_ticks recorder ?t ticking fs = Inr (rs, s')" "length rs = length fs"
    "\<forall>k<length fs. rs ! k = (run_queue ticking [0x1000, 0x2000] 0 @ map saved_registers fs) ! Suc k"
    "current_task s' = [0x1000, 0x2000] ! ((0 + length fs) mod length [0x1000, 0x2000 :: u32])"
    using timer_round_robin [OF h ticking(1) c, of fs] by (elim exE conjE)
  have l: "length fs = 3" by (simp add: fs_def)
  have two: "length [0x1000, 0x2000 :: u32] = 2" by simp
  have "map r_ip rs = [0, 0x400100, 0x400200]"
  proof (rule nth_equalityI)
    fix k assume "k < length (map r_ip rs)"
    then have "k = 0 \<or> k = 1 \<or> k = 2" using r(2) l by auto
    then show "map r_ip rs ! k = [0, 0x400100, 0x400200] ! k"
      using r(2,3) unfolding l ticking(3) by (auto simp: zero_registers_def saved_registers_def frame_at_def fs_def)
  qed (simp add: r(2) l)
  moreover have "current_task s' = 0x2000" using r(4) unfolding l two by simp
  ultimately show ?thesis using r(1) unfolding fs_def by (intro exI conjI)
qed

end
