(* ===== verification/Drivers.thy ===== *)
theory Drivers
  imports Vfs Pipe MemFs
begin

text \<open>
  The driver records of \<^verbatim>\<open>PipeFS::get_struct\<close> and \<^verbatim>\<open>MemoryFS::get_struct\<close>, which put \<open>Pipe\<close> and \<open>MemFs\<close> behind the
  file layer, and what two programs get that talk through a mounted pipe: mounting, opening twice, writing and
  reading are proved together.  The locale \<open>channel_driver\<close> is what the file layer needs of the driver for that.
\<close>

section \<open>The drivers' objects\<close>

text \<open>The objects behind the pointers the drivers hand out.\<close>

record driver_state =
  pipes :: "u32 \<Rightarrow> pipe option"
  memory_files :: "u32 \<Rightarrow> memory_fs option"

definition with_pipe :: "'a driver_state_scheme \<Rightarrow> u32 \<Rightarrow> (pipe \<Rightarrow> fault + 'b) \<Rightarrow> fault + 'b" where
  "with_pipe w a f = (case pipes w a of None \<Rightarrow> Inl Null_Deref | Some p \<Rightarrow> f p)"

definition put_pipe :: "u32 \<Rightarrow> 'a driver_state_scheme \<Rightarrow> pipe \<Rightarrow> 'a driver_state_scheme" where
  "put_pipe a w p = w\<lparr>pipes := (pipes w)(a := Some p)\<rparr>"

definition with_memory :: "'a driver_state_scheme \<Rightarrow> u32 \<Rightarrow> (memory_fs \<Rightarrow> fault + 'b) \<Rightarrow> fault + 'b" where
  "with_memory w a f = (case memory_files w a of None \<Rightarrow> Inl Null_Deref | Some p \<Rightarrow> f p)"

definition put_memory :: "u32 \<Rightarrow> 'a driver_state_scheme \<Rightarrow> memory_fs \<Rightarrow> 'a driver_state_scheme" where
  "put_memory a w p = w\<lparr>memory_files := (memory_files w)(a := Some p)\<rparr>"

text \<open>\<open>PipeFS::get_struct\<close>: the private data is the pipe, and so is every descriptor.\<close>

definition pipe_filesystem :: "'a driver_state_scheme filesystem" where
  "pipe_filesystem = \<lparr>fs_resolve_op = (\<lambda>d w. Inr (0, d, w)),
     fs_open_op = (\<lambda>priv path mode w. Inr (priv, w)),
     fs_read_op = (\<lambda>priv desc sz nmemb out w. with_pipe w desc (\<lambda>p.
        cbind (pipe_read p sz nmemb out) (\<lambda>(r, p', out'). Inr (r, out', put_pipe desc w p')))),
     fs_seek_op = (\<lambda>desc off whence w. with_pipe w desc (\<lambda>p.
        cbind (pipe_seek p off whence) (\<lambda>(r, p'). Inr (r, put_pipe desc w p')))),
     fs_stat_op = (\<lambda>desc w. with_pipe w desc (\<lambda>p. cbind (pipe_stat p) (\<lambda>(r, st). Inr (r, st, w)))),
     fs_close_op = (\<lambda>desc w. with_pipe w desc (\<lambda>p. cbind (pipe_close p) (\<lambda>(r, p'). Inr (r, put_pipe desc w p')))),
     fs_write_op = (\<lambda>priv desc sz nmemb inp w. with_pipe w desc (\<lambda>p.
        cbind (pipe_write p sz nmemb inp) (\<lambda>(r, p'). Inr (r, put_pipe desc w p'))))\<rparr>"

text \<open>\<open>MemoryFS::get_struct\<close>.\<close>

definition memory_filesystem :: "'a driver_state_scheme filesystem" where
  "memory_filesystem = \<lparr>fs_resolve_op = (\<lambda>d w. Inr (0, d, w)),
     fs_open_op = (\<lambda>priv path mode w. Inr (priv, w)),
     fs_read_op = (\<lambda>priv desc sz nmemb out w. with_memory w desc (\<lambda>p.
        cbind (memory_read p sz nmemb out) (\<lambda>(r, p', out'). Inr (r, out', put_memory desc w p')))),
     fs_seek_op = (\<lambda>desc off whence w. with_memory w desc (\<lambda>p.
        cbind (memory_seek p off whence) (\<lambda>(r, p'). Inr (r, put_memory desc w p')))),
     fs_stat_op = (\<lambda>desc w. with_memory w desc (\<lambda>p. cbind (memory_stat p) (\<lambda>(r, st). Inr (r, st, w)))),
     fs_close_op = (\<lambda>desc w. with_memory w desc (\<lambda>p. cbind (memory_close p) (\<lambda>(r, p'). Inr (r, put_memory desc w p')))),
     fs_write_op = (\<lambda>priv desc sz nmemb inp w. with_memory w desc (\<lambda>p.
        cbind (memory_write p sz nmemb inp) (\<lambda>(r, p'). Inr (r, put_memory desc w p'))))\<rparr>"

section \<open>Channels behind the file layer\<close>

text \<open>What two programs rely on that talk through a mounted file: the driver keeps a queue of bytes of limited
  capacity at the pointer; what fits is appended, what is there is taken from the front, and other channels are left
  alone.\<close>

locale channel_driver =
  fixes driver :: "'w filesystem"
    and channel :: "'w \<Rightarrow> u32 \<Rightarrow> bool"
    and queued :: "'w \<Rightarrow> u32 \<Rightarrow> byte list"
    and capacity :: "'w \<Rightarrow> u32 \<Rightarrow> nat"
  assumes opens: "channel w a \<Longrightarrow> fs_open_op driver a path mode w = Inr (a, w)"
    and writes: "channel w a \<Longrightarrow> 0 < unat sz \<Longrightarrow> length (queued w a) + unat sz \<le> capacity w a \<Longrightarrow> unat sz \<le> length inp \<Longrightarrow>
      \<exists>r w'. fs_write_op driver priv a sz 1 inp w = Inr (r, w') \<and> channel w' a \<and> capacity w' a = capacity w a
        \<and> queued w' a = queued w a @ take (unat sz) inp \<and> (\<forall>b. b \<noteq> a \<longrightarrow> channel w' b = channel w b \<and> queued w' b = queued w b)"
    and reads: "channel w a \<Longrightarrow> unat sz \<le> length (queued w a) \<Longrightarrow> unat sz \<le> length out \<Longrightarrow>
      \<exists>r w'. fs_read_op driver priv a sz 1 out w = Inr (r, blit out 0 (take (unat sz) (queued w a)), w') \<and> channel w' a
        \<and> capacity w' a = capacity w a \<and> queued w' a = drop (unat sz) (queued w a)
        \<and> (\<forall>b. b \<noteq> a \<longrightarrow> channel w' b = channel w b \<and> queued w' b = queued w b)"
begin

text \<open>A descriptor of the channel.\<close>

definition on_channel :: "'w vfs \<Rightarrow> int \<Rightarrow> u32 \<Rightarrow> bool" where
  "on_channel v fd a = (1 \<le> fd \<and> fd < 1024 \<and> nat (fd - 1) < length (file_descriptors v)
     \<and> (\<exists>d. file_descriptors v ! nat (fd - 1) = Some d \<and> fd_filesystem d = Some driver \<and> private_fs_descriptor d = a))"

lemma fwrite_channel:
  assumes "on_channel v fd a" and "channel (drivers v) a" and "0 < unat sz" and "unat sz \<le> length data"
    and "length (queued (drivers v) a) + unat sz \<le> capacity (drivers v) a"
  shows "\<exists>r w'. fwrite v data sz 1 fd = Inr (r, v\<lparr>drivers := w'\<rparr>) \<and> channel w' a
    \<and> queued w' a = queued (drivers v) a @ take (unat sz) data \<and> capacity w' a = capacity (drivers v) a"
proof -
  obtain d where d: "1 \<le> fd" "fd < 1024" "nat (fd - 1) < length (file_descriptors v)"
    "file_descriptors v ! nat (fd - 1) = Some d" "fd_filesystem d = Some driver" "private_fs_descriptor d = a"
    using assms(1) by (auto simp: on_channel_def)
  obtain r w' where w: "fs_write_op driver (private_fs d) a sz 1 data (drivers v) = Inr (r, w')" "channel w' a"
    "capacity w' a = capacity (drivers v) a" "queued w' a = queued (drivers v) a @ take (unat sz) data"
    using writes [OF assms(2,3,5,4)] by blast
  have "sz \<noteq> 0" using assms(3) by auto
  then have "fwrite v data sz 1 fd = Inr (r, v\<lparr>drivers := w'\<rparr>)"
    using d w(1) by (simp add: fwrite_def file_get_descriptor_def descriptor_fs_def)
  then show ?thesis using w by blast
qed

lemma fread_channel:
  assumes "on_channel v fd a" and "channel (drivers v) a" and "0 < unat sz" and "unat sz \<le> length buf"
    and "unat sz \<le> length (queued (drivers v) a)"
  shows "\<exists>r w'. fread v buf sz 1 fd = Inr (r, blit buf 0 (take (unat sz) (queued (drivers v) a)), v\<lparr>drivers := w'\<rparr>)
    \<and> channel w' a \<and> queued w' a = drop (unat sz) (queued (drivers v) a) \<and> capacity w' a = capacity (drivers v) a"
proof -
  obtain d where d: "1 \<le> fd" "fd < 1024" "nat (fd - 1) < length (file_descriptors v)"
    "file_descriptors v ! nat (fd - 1) = Some d" "fd_filesystem d = Some driver" "private_fs_descriptor d = a"
    using assms(1) by (auto simp: on_channel_def)
  obtain r w' where w: "fs_read_op driver (private_fs d) a sz 1 buf (drivers v)
      = Inr (r, blit buf 0 (take (unat sz) (queued (drivers v) a)), w')" "channel w' a"
    "capacity w' a = capacity (drivers v) a" "queued w' a = drop (unat sz) (queued (drivers v) a)"
    using reads [OF assms(2,5,4)] by blast
  have "sz \<noteq> 0" using assms(3) by auto
  then have "fread v buf sz 1 fd = Inr (r, blit buf 0 (take (unat sz) (queued (drivers v) a)), v\<lparr>drivers := w'\<rparr>)"
    using d w(1) by (simp add: fread_def file_get_descriptor_def descriptor_fs_def)
  then show ?thesis using w by blast
qed

text \<open>What is written through one descriptor comes out of another one.\<close>

lemma transfer:
  assumes fds: "on_channel v fd1 a" "on_channel v fd2 a" and ch: "channel (drivers v) a" "queued (drivers v) a = []"
    and sz: "0 < unat sz" "unat sz \<le> capacity (drivers v) a" "length data = unat sz" "length buf = unat sz"
  shows "\<exists>r v1 r' v2. fwrite v data sz 1 fd1 = Inr (r, v1) \<and> fread v1 buf sz 1 fd2 = Inr (r', data, v2)
    \<and> queued (drivers v2) a = [] \<and> file_descriptors v2 = file_descriptors v"
proof -
  obtain r w1 where w1: "fwrite v data sz 1 fd1 = Inr (r, v\<lparr>drivers := w1\<rparr>)" "channel w1 a" "queued w1 a = data"
    using fwrite_channel [OF fds(1) ch(1) sz(1), of data] sz ch(2) by auto
  let ?v1 = "v\<lparr>drivers := w1\<rparr>"
  have "on_channel ?v1 fd2 a" using fds(2) by (simp add: on_channel_def)
  then obtain r' w2 where w2: "fread ?v1 buf sz 1 fd2 = Inr (r', blit buf 0 data, ?v1\<lparr>drivers := w2\<rparr>)" "queued w2 a = []"
    using fread_channel [of ?v1 fd2 a sz buf] w1(2,3) sz by auto
  moreover have "blit buf 0 data = data" using sz(3,4) by (simp add: blit_def)
  ultimately show ?thesis using w1(1)
    by (intro exI [of _ r] exI [of _ ?v1] exI [of _ r'] exI [of _ "?v1\<lparr>drivers := w2\<rparr>"]) simp
qed

text \<open>Mounting the channel under a new name and opening that name gives a descriptor of the channel.\<close>

lemma opens_mounted:
  assumes wf: "vfs_wf v" and al: "k_allocs v = []" and name: "has_nul name" "take 3 (cstr name) = [48, 58, 47]" "length (cstr name) < MAX_PATH"
    and mode: "mode \<noteq> []" "mode_of mode \<noteq> FILE_MODE_INVALID"
    and m: "mount_named (cstr name) (mounted_files v) = Some m" "mf_fs m = driver" "mf_data m = a"
    and ch: "channel (drivers v) a" "a \<noteq> 0" and i: "first_free (file_descriptors v) = Some i" "i < 1023"
  shows "fopen v name mode = Inr (int i + 1, opened v i m a (drivers v)) \<and> vfs_wf (opened v i m a (drivers v))
    \<and> on_channel (opened v i m a (drivers v)) (int i + 1) a"
proof -
  let ?n = "length (split_slash (cstr name))"
  have "mount_named (join_slash (take ?n (split_slash (cstr name)))) (mounted_files v) = Some m"
    using m(1) by (simp add: join_split)
  moreover have "fs_open_op (mf_fs m) (mf_data m) (rest_of_path name ?n) (mode_of mode) (drivers v) = Inr (a, drivers v)"
    using opens [OF ch(1)] m(2,3) by simp
  ultimately have "fopen v name mode = Inr (int i + 1, opened v i m a (drivers v)) \<and> vfs_wf (opened v i m a (drivers v))"
    using fopen_longest [OF wf al name mode, of ?n m a "drivers v"] i(1) ch(2) by simp
  moreover have "on_channel (opened v i m a (drivers v)) (int i + 1) a"
    using i m(2) by (simp add: on_channel_def opened_def first_free_Some)
  ultimately show ?thesis by blast
qed

end

text \<open>Pipes are such channels.\<close>

definition pipe_here :: "'a driver_state_scheme \<Rightarrow> u32 \<Rightarrow> bool" where
  "pipe_here w a = (case pipes w a of None \<Rightarrow> False | Some p \<Rightarrow> pipe_wf p)"

definition pipe_queue :: "'a driver_state_scheme \<Rightarrow> u32 \<Rightarrow> byte list" where
  "pipe_queue w a = (case pipes w a of None \<Rightarrow> [] | Some p \<Rightarrow> pipe_contents p)"

definition pipe_space :: "'a driver_state_scheme \<Rightarrow> u32 \<Rightarrow> nat" where
  "pipe_space w a = (case pipes w a of None \<Rightarrow> 0 | Some p \<Rightarrow> pipe_capacity p)"

interpretation pch: channel_driver "pipe_filesystem :: 'a driver_state_scheme filesystem" pipe_here pipe_queue pipe_space
proof unfold_locales
  fix w :: "'a driver_state_scheme" and a path mode
  show "fs_open_op pipe_filesystem a path mode w = Inr (a, w)" by (simp add: pipe_filesystem_def)
next
  fix w :: "'a driver_state_scheme" and a sz priv :: u32 and inp :: "byte list"
  assume h: "pipe_here w a" "0 < unat sz" "length (pipe_queue w a) + unat sz \<le> pipe_space w a" "unat sz \<le> length inp"
  obtain p where p: "pipes w a = Some p" "pipe_wf p" using h(1) by (auto simp: pipe_here_def split: option.splits)
  have c: "length (pipe_contents p) + unat sz \<le> pipe_capacity p" using h(3) p(1) by (simp add: pipe_queue_def pipe_space_def)
  have b: "unat (m_buffer_write_idx p) \<le> pipe_capacity p" "pipe_capacity p < 2 ^ 31"
    using p(2) by (simp_all add: pipe_wf_def pipe_capacity_def)
  have s: "0 + unat sz \<le> length inp" "unat sz < 2 ^ 31" "unat (m_buffer_write_idx p) + unat sz \<le> 2 * pipe_capacity p"
    using h(4) c b by simp_all
  obtain p' where p': "PipeFS_write p inp 0 sz = Inr (int (unat sz), p')" "pipe_wf p'" "pipe_capacity p' = pipe_capacity p"
    "pipe_contents p' = pipe_contents p @ take (unat sz) inp"
    using PipeFS_write_spec [OF p(2) s] c by auto
  then have "fs_write_op pipe_filesystem priv a sz 1 inp w = Inr (1, put_pipe a w p')"
    using p(1) by (simp add: pipe_filesystem_def with_pipe_def pipe_write_def)
  then show "\<exists>r w'. fs_write_op pipe_filesystem priv a sz 1 inp w = Inr (r, w') \<and> pipe_here w' a \<and> pipe_space w' a = pipe_space w a
        \<and> pipe_queue w' a = pipe_queue w a @ take (unat sz) inp \<and> (\<forall>b. b \<noteq> a \<longrightarrow> pipe_here w' b = pipe_here w b \<and> pipe_queue w' b = pipe_queue w b)"
    using p p' by (intro exI [of _ 1] exI [of _ "put_pipe a w p'"]) (simp add: put_pipe_def pipe_here_def pipe_queue_def pipe_space_def)
next
  fix w :: "'a driver_state_scheme" and a sz priv :: u32 and out :: "byte list"
  assume h: "pipe_here w a" "unat sz \<le> length (pipe_queue w a)" "unat sz \<le> length out"
  obtain p where p: "pipes w a = Some p" "pipe_wf p" using h(1) by (auto simp: pipe_here_def split: option.splits)
  have n: "unat sz \<le> unat (m_count p)" "0 + unat sz \<le> length out" using h(2,3) p(1) by (simp_all add: pipe_queue_def)
  obtain p' where p': "PipeFS_read p sz out 0 = Inr (int (unat sz), p', blit out 0 (take (unat sz) (pipe_contents p)))"
    "pipe_wf p'" "pipe_capacity p' = pipe_capacity p" "pipe_contents p' = drop (unat sz) (pipe_contents p)"
    using PipeFS_read_spec [OF p(2) n] by blast
  then have "fs_read_op pipe_filesystem priv a sz 1 out w = Inr (1, blit out 0 (take (unat sz) (pipe_queue w a)), put_pipe a w p')"
    using p(1) by (simp add: pipe_filesystem_def with_pipe_def pipe_read_def pipe_queue_def)
  then show "\<exists>r w'. fs_read_op pipe_filesystem priv a sz 1 out w = Inr (r, blit out 0 (take (unat sz) (pipe_queue w a)), w') \<and> pipe_here w' a
        \<and> pipe_space w' a = pipe_space w a \<and> pipe_queue w' a = drop (unat sz) (pipe_queue w a)
        \<and> (\<forall>b. b \<noteq> a \<longrightarrow> pipe_here w' b = pipe_here w b \<and> pipe_queue w' b = pipe_queue w b)"
    using p p' by (intro exI [of _ 1] exI [of _ "put_pipe a w p'"]) (simp add: put_pipe_def pipe_here_def pipe_queue_def pipe_space_def)
qed

section \<open>Mounting\<close>

lemma mount_ok:
  assumes "vfs_wf v" and "k_allocs v = []" and "first_free (mounted_files v) = Some k" and "has_nul name"
  shows "\<exists>v'. mount v name fs data = Inr v' \<and> vfs_wf v' \<and> k_allocs v' = [] \<and> drivers v' = drivers v
    \<and> file_descriptors v' = file_descriptors v
    \<and> mounted_files v' = (mounted_files v)[k := Some \<lparr>mf_filename = name, mf_fs = fs, mf_data = data\<rparr>]"
proof -
  have k: "k < length (mounted_files v)" using assms(3) by (simp add: first_free_Some)
  let ?v = "v\<lparr>k_live := k_live v + 1, mounted_files := (mounted_files v)[k := Some \<lparr>mf_filename = name, mf_fs = fs, mf_data = data\<rparr>]\<rparr>"
  have "mounted_slots v = Inr (mounted_files v)" using assms(1) by (rule mounted_slots_wf)
  then have "mount v name fs data = Inr ?v"
    using assms(2,3) by (auto simp: mount_def obj_alloc_def mounted_slots_def split: if_splits)
  moreover have "vfs_wf ?v"
    using assms(1,4) by (auto simp: vfs_wf_def dest!: set_update_subset_insert [THEN subsetD])
  ultimately show ?thesis using assms(2) by (intro exI [of _ ?v]) simp
qed

lemma mount_named_new:
  assumes "mount_named n ms = None" and "first_free ms = Some k" and "cstr (mf_filename m) = n"
  shows "mount_named n (ms[k := Some m]) = Some m"
  using assms
proof (induction n ms arbitrary: k rule: mount_named.induct)
  case (3 n m' ms)
  then obtain j where "k = Suc j" "first_free ms = Some j" by auto
  then show ?case using 3 by (auto split: if_splits)
qed auto

section \<open>Properties\<close>

text \<open>C9: Once a pipe is mounted under a new name, two programs that open that name get descriptors through which the
  second reads exactly the bytes the first writes, for every block that fits the pipe.\<close>

theorem ipc_delivers:
  fixes v :: "'a driver_state_scheme vfs"
  assumes "vfs_wf v" and "k_allocs v = []" and "pipes (drivers v) a = Some p" and "pipe_wf p" and "pipe_contents p = []"
    and "a \<noteq> 0" and "has_nul name" and "take 3 (cstr name) = [48, 58, 47]" and "length (cstr name) < MAX_PATH"
    and "mount_named (cstr name) (mounted_files v) = None" and "first_free (mounted_files v) = Some k"
    and "first_free (file_descriptors v) = Some i" and "i < j" and "j < 1023" and "file_descriptors v ! j = None"
    and "\<forall>l. i < l \<and> l < j \<longrightarrow> file_descriptors v ! l \<noteq> None"
    and "m1 \<noteq> []" and "mode_of m1 \<noteq> FILE_MODE_INVALID" and "m2 \<noteq> []" and "mode_of m2 \<noteq> FILE_MODE_INVALID"
    and "0 < unat sz" and "unat sz \<le> pipe_capacity p" and "length data = unat sz" and "length buf = unat sz"
  shows "\<exists>v1 v2 v3 r v4 r' v5. mount v name pipe_filesystem a = Inr v1
    \<and> fopen v1 name m1 = Inr (int i + 1, v2) \<and> fopen v2 name m2 = Inr (int j + 1, v3)
    \<and> fwrite v3 data sz 1 (int i + 1) = Inr (r, v4) \<and> fread v4 buf sz 1 (int j + 1) = Inr (r', data, v5)"
proof -
  define m where "m = \<lparr>mf_filename = name, mf_fs = pipe_filesystem :: 'a driver_state_scheme filesystem, mf_data = a\<rparr>"
  obtain v1 where v1: "mount v name pipe_filesystem a = Inr v1" "vfs_wf v1" "k_allocs v1 = []" "drivers v1 = drivers v"
    "file_descriptors v1 = file_descriptors v" "mounted_files v1 = (mounted_files v)[k := Some m]"
    using mount_ok [OF assms(1,2,11,7), of pipe_filesystem a] by (auto simp: m_def)
  have m1: "mount_named (cstr name) (mounted_files v1) = Some m" "mf_fs m = pipe_filesystem" "mf_data m = a"
    using mount_named_new [OF assms(10,11), of m] v1(6) by (simp_all add: m_def)
  have ch: "pipe_here (drivers v1) a" using v1(4) assms(3,4) by (simp add: pipe_here_def)
  have i: "first_free (file_descriptors v1) = Some i" "i < 1023" using assms(12-14) v1(5) by simp_all
  let ?v2 = "opened v1 i m a (drivers v1)"
  have v2: "fopen v1 name m1 = Inr (int i + 1, ?v2)" "vfs_wf ?v2" "pch.on_channel ?v2 (int i + 1) a"
    using pch.opens_mounted [OF v1(2,3) assms(7-9,17,18) m1 ch assms(6) i] by blast+
  have len: "length (file_descriptors v) = 1024" using assms(1) by (simp add: vfs_wf_def)
  have fi: "\<forall>l<i. file_descriptors v ! l \<noteq> None" using assms(12) by (simp add: first_free_Some)
  have "file_descriptors ?v2 ! l \<noteq> None" if "l < j" for l
    using that assms(16) fi len assms(13,14) v1(5) by (cases "l = i"; cases "l < i") (auto simp: opened_def)
  then have j: "first_free (file_descriptors ?v2) = Some j"
    unfolding first_free_Some using assms(13-15) len v1(5) by (simp add: opened_def)
  have al: "k_allocs ?v2 = []" "mount_named (cstr name) (mounted_files ?v2) = Some m" "pipe_here (drivers ?v2) a"
    using v1(3) m1(1) ch by (simp_all add: opened_def)
  let ?v3 = "opened ?v2 j m a (drivers ?v2)"
  have v3: "fopen ?v2 name m2 = Inr (int j + 1, ?v3)" "pch.on_channel ?v3 (int j + 1) a"
    using pch.opens_mounted [OF v2(2) al(1) assms(7-9,19,20) al(2) m1(2,3) al(3) assms(6) j assms(14)] by blast+
  have on1: "pch.on_channel ?v3 (int i + 1) a"
    using v2(3) assms(13) m1(2) by (simp add: pch.on_channel_def opened_def)
  have d3: "drivers ?v3 = drivers v" using v1(4) by (simp add: opened_def)
  have "pipe_here (drivers ?v3) a" "pipe_queue (drivers ?v3) a = []" "unat sz \<le> pipe_space (drivers ?v3) a"
    using assms(3-5,22) unfolding d3 by (simp_all add: pipe_here_def pipe_queue_def pipe_space_def)
  from pch.transfer [OF on1 v3(2) this(1,2) assms(21) this(3) assms(23,24)]
  obtain r v4 r' v5 where "fwrite ?v3 data sz 1 (int i + 1) = Inr (r, v4)" "fread v4 buf sz 1 (int j + 1) = Inr (r', data, v5)"
    by blast
  then show ?thesis using v1(1) v2(1) v3(1) by blast
qed

definition ipc_vfs :: "driver_state vfs" where
  "ipc_vfs = \<lparr>k_allocs = [], k_live = 0, filesystems = replicate 12 None, file_descriptors = replicate 1024 None,
     mounted_files = replicate 16384 None, drivers = \<lparr>pipes = [0x5000 \<mapsto> small_pipe], memory_files = (\<lambda>_. None)\<rparr>\<rparr>"

theorem ipc_delivers_witness:
  "\<exists>v1 v2 v3 r v4 r' v5. mount ipc_vfs [48, 58, 47, 105, 0] pipe_filesystem 0x5000 = Inr v1
    \<and> fopen v1 [48, 58, 47, 105, 0] [119, 0] = Inr (1, v2) \<and> fopen v2 [48, 58, 47, 105, 0] [114, 0] = Inr (2, v3)
    \<and> fwrite v3 [7, 8, 9] 3 1 1 = Inr (r, v4) \<and> fread v4 [0, 0, 0] 3 1 2 = Inr (r', [7, 8, 9], v5)"
proof -
  let ?n = "[48, 58, 47, 105, 0] :: byte list"
  have v: "vfs_wf ipc_vfs" "k_allocs ipc_vfs = []" "pipes (drivers ipc_vfs) 0x5000 = Some small_pipe"
    "file_descriptors ipc_vfs = replicate 1024 None" "mounted_files ipc_vfs = replicate 16384 None"
    by (auto simp: ipc_vfs_def vfs_wf_def)
  have n: "has_nul ?n" "cstr ?n = [48, 58, 47, 105]"
    using cstr_append_nul [of "[48, 58, 47, 105]" "[]"] has_nul_append_nul [of "[48, 58, 47, 105]" "[]"] by simp_all
  have "mount_named m (replicate k None) = None" for m and k by (induction k) simp_all
  then have mn: "mount_named (cstr ?n) (mounted_files ipc_vfs) = None" using v(5) by simp
  have ff: "first_free (mounted_files ipc_vfs) = Some 0" "first_free (file_descriptors ipc_vfs) = Some 0"
    unfolding v first_free_Some by simp_all
  have "take 3 (cstr ?n) = [48, 58, 47]" "length (cstr ?n) < MAX_PATH" by (simp_all add: n(2) MAX_PATH_def)
  moreover have "file_descriptors ipc_vfs ! 1 = None" "\<forall>l. 0 < l \<and> l < (1 :: nat) \<longrightarrow> file_descriptors ipc_vfs ! l \<noteq> None"
    using v(4) by auto
  moreover have "mode_of [119, 0] \<noteq> FILE_MODE_INVALID" "mode_of [114, 0] \<noteq> FILE_MODE_INVALID"
    by (simp_all add: mode_of_def mode_defs)
  ultimately show ?thesis
    using ipc_delivers [OF v(1-3) small_pipe(1,2) _ n(1) _ _ mn ff, of 1 "[119, 0]" "[114, 0]" 3 "[7, 8, 9]" "[0, 0, 0]"]
      small_pipe(3) by simp
qed

end
