(* ===== verification/Mouse.thy ===== *)
theory Mouse
  imports Interrupts Drivers
begin

text \<open>
  The mouse, \<^verbatim>\<open>src/src/kernel/drivers/ps2mouse/PS2Mouse.cpp\<close>: the reset in the constructor, the machine of three states
  that the interrupt handler runs over the bytes of the controller, and the pipe that carries the packets to
  programs.  The controller is the parameter \<open>io\<close> of \<open>Ports\<close>; \<open>ps2_controller\<close> states what is used of it.
\<close>

section \<open>The driver\<close>

definition MOUSE_IRQ :: byte where "MOUSE_IRQ = 12"
definition MOUSE_PORT :: u16 where "MOUSE_PORT = 0x60"
definition MOUSE_STATUS :: u16 where "MOUSE_STATUS = 0x64"
definition MOUSE_ABIT :: byte where "MOUSE_ABIT = 0x02"
definition MOUSE_BBIT :: byte where "MOUSE_BBIT = 0x01"
definition MOUSE_WRITE :: byte where "MOUSE_WRITE = 0xD4"
definition MOUSE_F_BIT :: byte where "MOUSE_F_BIT = 0x20"
definition MOUSE_V_BIT :: byte where "MOUSE_V_BIT = 0x08"
definition MOUSE_TIMEOUT :: nat where "MOUSE_TIMEOUT = 100000"

text \<open>\<open>mouse_pipe\<close> is what the pointer leads to; \<open>ps2mouse_irq_handler\<close> takes it out of the store of pipes and puts
  it back.\<close>

record PS2Mouse =
  mouse_cycle :: int
  mouse_byte :: "byte list"
  mouse_pipe :: pipe

text \<open>The bytes of a \<open>mouse_packet\<close>: two 32-bit numbers, the buttons and three bytes of padding, which are whatever
  the stack held.\<close>

definition mouse_packet :: "byte list \<Rightarrow> u32 \<Rightarrow> u32 \<Rightarrow> byte \<Rightarrow> byte list" where
  "mouse_packet padding x y buttons = enc32 x @ enc32 y @ [buttons] @ padding"

text \<open>The \<open>switch\<close> on one byte; the flag says that the whole handler returns.\<close>

definition mouse_switch :: "byte list \<Rightarrow> PS2Mouse \<Rightarrow> byte \<Rightarrow> fault + (bool \<times> PS2Mouse)" where
  "mouse_switch padding m mouse_in =
     (if mouse_cycle m = 0
      then cbind (wr (mouse_byte m) 0 mouse_in) (\<lambda>mb.
        let m1 = m\<lparr>mouse_byte := mb\<rparr> in
        if mouse_in AND MOUSE_V_BIT = 0 then Inr (True, m1) else Inr (False, m1\<lparr>mouse_cycle := 1\<rparr>))
      else if mouse_cycle m = 1
      then cbind (wr (mouse_byte m) 1 mouse_in) (\<lambda>mb. Inr (False, m\<lparr>mouse_byte := mb, mouse_cycle := 2\<rparr>))
      else if mouse_cycle m = 2
      then cbind (wr (mouse_byte m) 2 mouse_in) (\<lambda>mb.
        let m1 = m\<lparr>mouse_byte := mb\<rparr> in
        if mb ! 0 AND 0x80 \<noteq> 0 \<or> mb ! 0 AND 0x40 \<noteq> 0 then Inr (False, m1)
        else let mouse_x = scast (mb ! 1) :: u32; mouse_y = scast (mb ! 2) :: u32;
                 mouse_x = (if drop_bit 5 (mb ! 0) AND 1 = 1 then mouse_x OR 1 else mouse_x);
                 mouse_y = (if drop_bit 4 (mb ! 0) AND 1 = 1 then mouse_y OR 1 else mouse_y)
             in cbind (PipeFS_write (mouse_pipe m1) (mouse_packet padding mouse_x (- mouse_y) (mb ! 0)) 0 12) (\<lambda>(_, p).
                  Inr (False, m1\<lparr>mouse_cycle := 0, mouse_pipe := p\<rparr>)))
      else Inr (False, m))"

text \<open>The loop goes on while the controller has bytes, which need not end.\<close>

partial_function (option) mouse_loop :: "'d ports \<Rightarrow> byte list \<Rightarrow> PS2Mouse \<Rightarrow> byte \<Rightarrow> 'd
    \<Rightarrow> (fault + (bool \<times> PS2Mouse \<times> 'd)) option" where
  "mouse_loop io padding m status d =
     (if status AND MOUSE_BBIT = 0 then Some (Inr (False, m, d))
      else case in8 io MOUSE_PORT d of (mouse_in, d1) \<Rightarrow>
        (case (if status AND MOUSE_F_BIT \<noteq> 0 then mouse_switch padding m mouse_in else Inr (False, m)) of
           Inl e \<Rightarrow> Some (Inl e)
         | Inr (returns, m1) \<Rightarrow>
             if returns then Some (Inr (True, m1, d1))
             else case in8 io MOUSE_STATUS d1 of (status', d2) \<Rightarrow> mouse_loop io padding m1 status' d2))"

definition PS2Mouse_handle_cycle :: "'d ports \<Rightarrow> byte list \<Rightarrow> PS2Mouse \<Rightarrow> 'd \<Rightarrow> fault + (PS2Mouse \<times> 'd)" where
  "PS2Mouse_handle_cycle io padding m d =
     (case in8 io MOUSE_STATUS d of (status, d1) \<Rightarrow>
      (case mouse_loop io padding m status d1 of None \<Rightarrow> Inl Diverges
       | Some r \<Rightarrow> cbind r (\<lambda>(returned, m', d2). Inr (m', if returned then d2 else pic_EOI io MOUSE_IRQ d2))))"

text \<open>\<open>wait\<close> polls up to \<open>TIMEOUT\<close> times; on a timeout it prints a line.\<close>

fun mouse_poll :: "'d ports \<Rightarrow> (byte \<Rightarrow> bool) \<Rightarrow> nat \<Rightarrow> 'd \<Rightarrow> bool \<times> 'd" where
  "mouse_poll io ready 0 d = (False, d)"
| "mouse_poll io ready (Suc timeout) d =
     (case in8 io MOUSE_STATUS d of (status, d1) \<Rightarrow> if ready status then (True, d1) else mouse_poll io ready timeout d1)"

definition PS2Mouse_wait :: "'d ports \<Rightarrow> byte \<Rightarrow> 'd \<Rightarrow> fault + 'd" where
  "PS2Mouse_wait io kind d =
     (if kind = 0
      then case mouse_poll io (\<lambda>s. s AND MOUSE_BBIT = 1) MOUSE_TIMEOUT d of (ok, d1) \<Rightarrow>
        if ok then Inr d1 else kprintf_serial io (\<lambda>_. []) (lit ''a_type=0 timeout'') [] d1
      else case mouse_poll io (\<lambda>s. s AND MOUSE_ABIT = 0) MOUSE_TIMEOUT d of (ok, d1) \<Rightarrow>
        if ok then Inr d1 else kprintf_serial io (\<lambda>_. []) (lit ''a_type=1 timeout'') [] d1)"

definition PS2Mouse_write :: "'d ports \<Rightarrow> byte \<Rightarrow> 'd \<Rightarrow> fault + 'd" where
  "PS2Mouse_write io b d =
     cbind (PS2Mouse_wait io 1 d) (\<lambda>d1. cbind (PS2Mouse_wait io 1 (out8 io MOUSE_STATUS MOUSE_WRITE d1)) (\<lambda>d2.
       Inr (out8 io MOUSE_PORT b d2)))"

definition PS2Mouse_read :: "'d ports \<Rightarrow> 'd \<Rightarrow> fault + (byte \<times> 'd)" where
  "PS2Mouse_read io d = cbind (PS2Mouse_wait io 0 d) (\<lambda>d1. Inr (in8 io MOUSE_PORT d1))"

partial_function (option) mouse_flush :: "'d ports \<Rightarrow> 'd \<Rightarrow> 'd option" where
  "mouse_flush io d = (case in8 io MOUSE_STATUS d of (status, d1) \<Rightarrow>
     if status AND MOUSE_BBIT = 0 then Some d1 else mouse_flush io (snd (in8 io MOUSE_PORT d1)))"

text \<open>A byte that must come back; any other is a panic.\<close>

definition expect :: "'d ports \<Rightarrow> byte \<Rightarrow> 'd \<Rightarrow> fault + 'd" where
  "expect io b d = cbind (PS2Mouse_read io d) (\<lambda>(c, d1). if c \<noteq> b then Inl Panic else Inr d1)"

text \<open>The constructor up to the installation of the handler, and the object it leaves: a pipe of 128 packets.\<close>

definition mouse_reset :: "'d ports \<Rightarrow> 'd \<Rightarrow> fault + 'd" where
  "mouse_reset io d =
     cbind (kprintf_serial io (\<lambda>_. []) (chars ''Initializing PS2 Mouse'' @ [10, 0]) [] d) (\<lambda>d0.
     case mouse_flush io (out8 io MOUSE_STATUS 0xA7 d0) of None \<Rightarrow> Inl Diverges
     | Some d1 \<Rightarrow>
         let d2 = outs io [(MOUSE_STATUS, 0xA8), (MOUSE_STATUS, 0x20)] d1;
             (conf, d3) = in8 io MOUSE_PORT d2;
             d4 = outs io [(MOUSE_STATUS, 0x60), (MOUSE_PORT, conf OR 0x02)] d3
         in cbind (PS2Mouse_write io 0xFF d4) (\<lambda>d. cbind (expect io 0xFA d) (\<lambda>d.
            cbind (expect io 0xAA d) (\<lambda>d. cbind (PS2Mouse_read io d) (\<lambda>(_, d).
            cbind (PS2Mouse_write io 0xF6 d) (\<lambda>d. cbind (expect io 0xFA d) (\<lambda>d.
            cbind (PS2Mouse_write io 0xE8 d) (\<lambda>d. cbind (PS2Mouse_write io 0x03 d) (\<lambda>d.
            cbind (PS2Mouse_write io 0xF4 d) (\<lambda>d. expect io 0xFA d))))))))))"

definition PS2Mouse_new :: "bool \<Rightarrow> PS2Mouse" where
  "PS2Mouse_new ok = \<lparr>mouse_cycle = 0, mouse_byte = [0, 0, 0], mouse_pipe = PipeFS ok (12 * 128)\<rparr>"

text \<open>The handler of the interrupt; \<open>a\<close> is the object's pointer to its pipe.\<close>

definition ps2mouse_irq_handler :: "'d ports \<Rightarrow> byte list \<Rightarrow> u32 \<Rightarrow> PS2Mouse \<Rightarrow> 'a driver_state_scheme \<Rightarrow> 'd
    \<Rightarrow> fault + (PS2Mouse \<times> 'a driver_state_scheme \<times> 'd)" where
  "ps2mouse_irq_handler io padding a m w d =
     with_pipe w a (\<lambda>p. cbind (PS2Mouse_handle_cycle io padding (m\<lparr>mouse_pipe := p\<rparr>) d) (\<lambda>(m', d').
       Inr (m', put_pipe a w (mouse_pipe m'), d')))"

text \<open>The constructor: the reset, the handler, the new pipe at \<open>a\<close> (\<open>ok\<close> says that there was memory for its buffer)
  and its mount.\<close>

definition PS2Mouse_setup :: "'d ports \<Rightarrow> bool \<Rightarrow> u32 \<Rightarrow> 's isr \<Rightarrow> 's idt \<Rightarrow> 'a driver_state_scheme vfs \<Rightarrow> 'd
    \<Rightarrow> fault + (PS2Mouse \<times> 's idt \<times> 'a driver_state_scheme vfs \<times> 'd)" where
  "PS2Mouse_setup io ok a handler t v d =
     cbind (mouse_reset io d) (\<lambda>d'.
       let t' = snd (idt_SetHandler t (0x20 + uint MOUSE_IRQ) (Some handler));
           m = PS2Mouse_new ok
       in if a = 0 then Inl Null_Deref
          else cbind (mount (v\<lparr>drivers := put_pipe a (drivers v) (mouse_pipe m)\<rparr>) (lit ''0:/mouse'') pipe_filesystem a)
            (\<lambda>v'. Inr (m, t', v', d')))"

section \<open>The controller\<close>

text \<open>What the handler relies on of the controller, as its data sheet has it: the status says whether a byte is
  pending and that it is the mouse's, reading the status takes nothing, and reading the data port takes the first
  pending byte.\<close>

definition ps2_controller :: "'d ports \<Rightarrow> ('d \<Rightarrow> byte list) \<Rightarrow> bool" where
  "ps2_controller io pending \<longleftrightarrow>
     (\<forall>d. pending (snd (in8 io MOUSE_STATUS d)) = pending d
        \<and> (fst (in8 io MOUSE_STATUS d) AND MOUSE_BBIT = 0 \<longleftrightarrow> pending d = [])
        \<and> (pending d \<noteq> [] \<longrightarrow> fst (in8 io MOUSE_STATUS d) AND MOUSE_F_BIT \<noteq> 0))
     \<and> (\<forall>d. pending d \<noteq> [] \<longrightarrow> in8 io MOUSE_PORT d = (hd (pending d), snd (in8 io MOUSE_PORT d))
        \<and> pending (snd (in8 io MOUSE_PORT d)) = List.tl (pending d))"

text \<open>The handler on the bytes alone: it goes through them until one makes it return; the rest stays pending.\<close>

fun mouse_bytes :: "byte list \<Rightarrow> PS2Mouse \<Rightarrow> byte list \<Rightarrow> fault + (PS2Mouse \<times> byte list)" where
  "mouse_bytes padding m [] = Inr (m, [])"
| "mouse_bytes padding m (b # bs) = cbind (mouse_switch padding m b) (\<lambda>(returns, m1).
     if returns then Inr (m1, bs) else mouse_bytes padding m1 bs)"

lemma mouse_loop_bytes:
  assumes c: "ps2_controller io pending" and "status AND MOUSE_BBIT = 0 \<longleftrightarrow> pending d = []"
    and "pending d \<noteq> [] \<longrightarrow> status AND MOUSE_F_BIT \<noteq> 0"
  shows "case mouse_bytes padding m (pending d) of
      Inl e \<Rightarrow> mouse_loop io padding m status d = Some (Inl e)
    | Inr (m', rest) \<Rightarrow> \<exists>r d'. mouse_loop io padding m status d = Some (Inr (r, m', d')) \<and> pending d' = rest"
  using assms(2,3)
proof (induction "pending d" arbitrary: m status d)
  case Nil
  then have "mouse_loop io padding m status d = Some (Inr (False, m, d))" by (subst mouse_loop.simps) simp
  then show ?case using Nil.hyps by auto
next
  case (Cons b bs)
  obtain d1 where p: "in8 io MOUSE_PORT d = (b, d1)" "pending d1 = bs"
    using c Cons.hyps(2) unfolding ps2_controller_def by (metis list.distinct(1) list.sel(1,3))
  obtain status' d2 where s: "in8 io MOUSE_STATUS d1 = (status', d2)" by fastforce
  have s2: "pending d2 = bs" "status' AND MOUSE_BBIT = 0 \<longleftrightarrow> pending d2 = []" "pending d2 \<noteq> [] \<longrightarrow> status' AND MOUSE_F_BIT \<noteq> 0"
    using c s p(2) unfolding ps2_controller_def by (metis fst_conv snd_conv)+
  have l: "mouse_loop io padding m status d = (case mouse_switch padding m b of Inl e \<Rightarrow> Some (Inl e)
      | Inr (returns, m1) \<Rightarrow> if returns then Some (Inr (True, m1, d1)) else mouse_loop io padding m1 status' d2)"
    using Cons.prems Cons.hyps(2) p(1) s by (subst mouse_loop.simps) (auto split: sum.split prod.split)
  show ?case
  proof (cases "mouse_switch padding m b")
    case (Inl e)
    then show ?thesis using l Cons.hyps(2) [symmetric] by simp
  next
    case (Inr x)
    obtain returns m1 where x: "x = (returns, m1)" by fastforce
    show ?thesis
    proof (cases returns)
      case True
      then show ?thesis using l Cons.hyps(2) [symmetric] Inr x p(2) by auto
    next
      case False
      then show ?thesis
        using Cons.hyps(1) [OF s2(1) [symmetric] s2(2,3), of m1] l Cons.hyps(2) [symmetric] Inr x s2(1) by (auto split: sum.splits)
    qed
  qed
qed

lemma handle_cycle_bytes:
  assumes "ps2_controller io pending"
  shows "case mouse_bytes padding m (pending d) of
      Inl e \<Rightarrow> PS2Mouse_handle_cycle io padding m d = Inl e
    | Inr (m', rest) \<Rightarrow> \<exists>d'. PS2Mouse_handle_cycle io padding m d = Inr (m', d')"
proof -
  obtain status d1 where s: "in8 io MOUSE_STATUS d = (status, d1)" by fastforce
  have "pending d1 = pending d" "status AND MOUSE_BBIT = 0 \<longleftrightarrow> pending d1 = []" "pending d1 \<noteq> [] \<longrightarrow> status AND MOUSE_F_BIT \<noteq> 0"
    using assms s unfolding ps2_controller_def by (metis fst_conv snd_conv)+
  then show ?thesis
    using mouse_loop_bytes [OF assms, of status d1 padding m] s
    by (auto simp: PS2Mouse_handle_cycle_def split: sum.splits)
qed

section \<open>Reports\<close>

text \<open>A report of three bytes that is valid and did not overflow, and the packet it becomes.\<close>

definition good_report :: "byte \<times> byte \<times> byte \<Rightarrow> bool" where
  "good_report r = (case r of (b0, b1, b2) \<Rightarrow> b0 AND 0x08 \<noteq> 0 \<and> b0 AND 0xC0 = 0)"

definition report_bytes :: "byte \<times> byte \<times> byte \<Rightarrow> byte list" where
  "report_bytes r = (case r of (b0, b1, b2) \<Rightarrow> [b0, b1, b2])"

definition report_packet :: "byte list \<Rightarrow> byte \<times> byte \<times> byte \<Rightarrow> byte list" where
  "report_packet padding r = (case r of (b0, b1, b2) \<Rightarrow>
     mouse_packet padding (if bit b0 5 then scast b1 OR 1 else scast b1) (- (if bit b0 4 then scast b2 OR 1 else scast b2)) b0)"

lemma length_packet: "length padding = 3 \<Longrightarrow> length (report_packet padding r) = 12"
  by (auto simp: report_packet_def mouse_packet_def enc32_def split: prod.split)

lemma bit_test: "drop_bit n (b :: byte) AND 1 = 1 \<longleftrightarrow> bit b n"
  unfolding bit_iff_odd_drop_bit odd_iff_mod_2_eq_one and_one_eq ..

lemma overflow_mask: "(b :: byte) AND 0xC0 = 0 \<longleftrightarrow> b AND 0x80 = 0 \<and> b AND 0x40 = 0"
proof -
  have e: "(0xC0 :: byte) = 0x80 OR 0x40" by simp
  show ?thesis unfolding e bit.conj_disj_distrib or_eq_0_iff ..
qed

lemma one_report:
  assumes "mouse_cycle m = 0" and "length (mouse_byte m) = 3" and "good_report r" and "length padding = 3"
    and wf: "pipe_wf (mouse_pipe m)" and room: "length (pipe_contents (mouse_pipe m)) + 12 \<le> pipe_capacity (mouse_pipe m)"
  shows "\<exists>m'. mouse_bytes padding m (report_bytes r @ bs) = mouse_bytes padding m' bs \<and> mouse_cycle m' = 0
    \<and> length (mouse_byte m') = 3 \<and> pipe_wf (mouse_pipe m') \<and> pipe_capacity (mouse_pipe m') = pipe_capacity (mouse_pipe m)
    \<and> pipe_contents (mouse_pipe m') = pipe_contents (mouse_pipe m) @ report_packet padding r"
proof -
  obtain b0 b1 b2 where r: "r = (b0, b1, b2)" by (cases r) auto
  obtain x y z where mb: "mouse_byte m = [x, y, z]" using length_3 [OF assms(2)] by blast
  have g: "b0 AND 8 \<noteq> 0" "b0 AND 128 = 0" "b0 AND 64 = 0" using assms(3) r overflow_mask by (auto simp: good_report_def)
  let ?pk = "report_packet padding r"
  have l: "length ?pk = 12" by (rule length_packet [OF assms(4)])
  have c: "unat (m_buffer_write_idx (mouse_pipe m)) \<le> pipe_capacity (mouse_pipe m)" "pipe_capacity (mouse_pipe m) < 2 ^ 31"
    using wf by (simp_all add: pipe_wf_def pipe_capacity_def)
  have f: "0 + unat (12 :: u32) \<le> length ?pk" "unat (12 :: u32) < 2 ^ 31"
    "unat (m_buffer_write_idx (mouse_pipe m)) + unat (12 :: u32) \<le> 2 * pipe_capacity (mouse_pipe m)"
    using l c room by simp_all
  obtain p' where p': "PipeFS_write (mouse_pipe m) ?pk 0 12 = Inr (12, p')" "pipe_wf p'" "pipe_capacity p' = pipe_capacity (mouse_pipe m)"
    "pipe_contents p' = pipe_contents (mouse_pipe m) @ ?pk"
    using PipeFS_write_spec [OF wf f] room l by auto
  have w: "mouse_packet padding (if drop_bit 5 b0 AND 1 = 1 then scast b1 OR 1 else scast b1)
      (- (if drop_bit 4 b0 AND 1 = 1 then scast b2 OR 1 else scast b2)) b0 = ?pk"
    unfolding bit_test by (simp add: r report_packet_def)
  let ?m' = "m\<lparr>mouse_byte := [b0, b1, b2], mouse_cycle := 0, mouse_pipe := p'\<rparr>"
  have "mouse_bytes padding m (report_bytes r @ bs) = mouse_bytes padding ?m' bs"
    using assms(1) mb g p'(1) w
    by (simp add: r report_bytes_def mouse_switch_def MOUSE_V_BIT_def Let_def)
  then show ?thesis using p' by (intro exI [of _ ?m']) simp
qed

lemma all_reports:
  assumes "mouse_cycle m = 0" and "length (mouse_byte m) = 3" and "\<forall>r\<in>set rs. good_report r" and "length padding = 3"
    and "pipe_wf (mouse_pipe m)" and "length (pipe_contents (mouse_pipe m)) + 12 * length rs \<le> pipe_capacity (mouse_pipe m)"
  shows "\<exists>m'. mouse_bytes padding m (concat (map report_bytes rs)) = Inr (m', []) \<and> mouse_cycle m' = 0
    \<and> length (mouse_byte m') = 3 \<and> pipe_wf (mouse_pipe m')
    \<and> pipe_contents (mouse_pipe m') = pipe_contents (mouse_pipe m) @ concat (map (report_packet padding) rs)"
  using assms
proof (induction rs arbitrary: m)
  case Nil
  then show ?case by auto
next
  case (Cons r rs)
  obtain m1 where m1: "mouse_bytes padding m (report_bytes r @ concat (map report_bytes rs)) = mouse_bytes padding m1 (concat (map report_bytes rs))"
    "mouse_cycle m1 = 0" "length (mouse_byte m1) = 3" "pipe_wf (mouse_pipe m1)"
    "pipe_capacity (mouse_pipe m1) = pipe_capacity (mouse_pipe m)"
    "pipe_contents (mouse_pipe m1) = pipe_contents (mouse_pipe m) @ report_packet padding r"
    using one_report [OF Cons.prems(1,2) _ Cons.prems(4,5), of r "concat (map report_bytes rs)"] Cons.prems(3,6) by auto
  then show ?case
    using Cons.IH [OF m1(2,3) _ Cons.prems(4) m1(4)] Cons.prems(3,6) length_packet [OF Cons.prems(4), of r] m1 by auto
qed

text \<open>After a report with an overflow bit.\<close>

definition mouse_stuck :: "PS2Mouse \<Rightarrow> bool" where
  "mouse_stuck m = (mouse_cycle m = 2 \<and> length (mouse_byte m) = 3 \<and> mouse_byte m ! 0 AND 0xC0 \<noteq> 0)"

lemma stuck_stays:
  "mouse_stuck m \<Longrightarrow> \<exists>m'. mouse_bytes padding m bs = Inr (m', []) \<and> mouse_stuck m' \<and> mouse_pipe m' = mouse_pipe m"
proof (induction bs arbitrary: m)
  case (Cons b bs)
  obtain x y z where mb: "mouse_byte m = [x, y, z]" using Cons.prems length_3 [of "mouse_byte m"] by (auto simp: mouse_stuck_def)
  have o: "x AND 128 \<noteq> 0 \<or> x AND 64 \<noteq> 0" "mouse_cycle m = 2" "x AND 0xC0 \<noteq> 0"
    using Cons.prems mb overflow_mask [of x] by (auto simp: mouse_stuck_def)
  have s: "mouse_switch padding m b = Inr (False, m\<lparr>mouse_byte := [x, y, b]\<rparr>)"
    using mb o by (simp add: mouse_switch_def numeral_2_eq_2)
  have "mouse_stuck (m\<lparr>mouse_byte := [x, y, b]\<rparr>)" using o by (simp add: mouse_stuck_def)
  from Cons.IH [OF this] show ?case using s by auto
qed auto

lemma overflow_sticks:
  assumes "mouse_cycle m = 0" and "length (mouse_byte m) = 3" and "b0 AND 0x08 \<noteq> 0" and "b0 AND 0xC0 \<noteq> 0"
  shows "\<exists>m'. mouse_bytes padding m (b0 # b1 # bs) = Inr (m', []) \<and> mouse_cycle m' = 2 \<and> mouse_pipe m' = mouse_pipe m"
proof -
  obtain x y z where mb: "mouse_byte m = [x, y, z]" using length_3 [OF assms(2)] by blast
  have "mouse_stuck (m\<lparr>mouse_byte := [b0, b1, z], mouse_cycle := 2\<rparr>)"
    using assms(4) by (simp add: mouse_stuck_def)
  from stuck_stays [OF this, of padding bs] show ?thesis
    using mb assms(1,3) by (auto simp: mouse_switch_def MOUSE_V_BIT_def mouse_stuck_def)
qed

section \<open>Properties\<close>



text \<open>A controller that is the queue of its bytes.\<close>

definition byte_queue :: "byte list ports" where
  "byte_queue = \<lparr>in8 = (\<lambda>p q. if p = MOUSE_STATUS then (if q = [] then 0 else 0x21, q) else (hd q, List.tl q)),
     out8 = (\<lambda>p v q. q)\<rparr>"

lemma byte_queue_ok: "ps2_controller byte_queue (\<lambda>q. q)"
  by (simp add: ps2_controller_def byte_queue_def MOUSE_STATUS_def MOUSE_PORT_def MOUSE_BBIT_def MOUSE_F_BIT_def)

lemma mouse_new: "mouse_cycle (PS2Mouse_new True) = 0" "length (mouse_byte (PS2Mouse_new True)) = 3"
  "pipe_wf (mouse_pipe (PS2Mouse_new True))" "pipe_contents (mouse_pipe (PS2Mouse_new True)) = []"
  "pipe_capacity (mouse_pipe (PS2Mouse_new True)) = 1536"
  by (simp_all add: PS2Mouse_new_def PipeFS_def pipe_wf_def pipe_contents_def pipe_capacity_def ring_def)

definition mouse_vfs :: "driver_state vfs" where
  "mouse_vfs = ipc_vfs\<lparr>drivers := \<lparr>pipes = [0x5000 \<mapsto> mouse_pipe (PS2Mouse_new True)], memory_files = (\<lambda>_. None)\<rparr>,
     file_descriptors := [Some \<lparr>index = 1, fd_filesystem = Some pipe_filesystem, private_fs_descriptor = 0x5000,
       private_fs = 0x5000\<rparr>]\<rparr>"



end
