(* ===== verification/Syscall.thy ===== *)
theory Syscall
  imports Interrupts Drivers ProcessMemory
begin

text \<open>
  System calls, \<^verbatim>\<open>src/src/kernel/syscall/syscall.cpp\<close>: the table, the common entry \<^verbatim>\<open>syscall_handler\<close> and all
  seventeen handlers, over the tasks, processes, files and pipes of the other theories.  The assembly stub, which
  saves the registers in the frame and hands over the number in \<open>eax\<close>, is not modelled.
\<close>

section \<open>State\<close>

definition MAX_SYSCALLS :: nat where "MAX_SYSCALLS = 1024"

datatype syscalls = SYSCALL_GETCHAR | SYSCALL_PUTCHAR | SYSCALL_PUTSTRING | SYSCALL_EXECPROCESS | SYSCALL_MALLOC
  | SYSCALL_FREE | SYSCALL_GET_PROCESS_ARGUMENTS | SYSCALL_EXIT | SYSCALL_GET_FRAMEBUFFER_INFO | SYSCALL_FOPEN
  | SYSCALL_FREAD | SYSCALL_FSTAT | SYSCALL_FSEEK | SYSCALL_FCLOSE | SYSCALL_FWRITE | SYSCALL_OPENIPC | SYSCALL_GETPID

text \<open>The numbers of the enumeration.\<close>

primrec syscall_id :: "syscalls \<Rightarrow> int" where
  "syscall_id SYSCALL_GETCHAR = 0" | "syscall_id SYSCALL_PUTCHAR = 1" | "syscall_id SYSCALL_PUTSTRING = 2"
| "syscall_id SYSCALL_EXECPROCESS = 3" | "syscall_id SYSCALL_MALLOC = 4" | "syscall_id SYSCALL_FREE = 5"
| "syscall_id SYSCALL_GET_PROCESS_ARGUMENTS = 6" | "syscall_id SYSCALL_EXIT = 7"
| "syscall_id SYSCALL_GET_FRAMEBUFFER_INFO = 8" | "syscall_id SYSCALL_FOPEN = 9" | "syscall_id SYSCALL_FREAD = 10"
| "syscall_id SYSCALL_FSTAT = 11" | "syscall_id SYSCALL_FSEEK = 12" | "syscall_id SYSCALL_FCLOSE = 13"
| "syscall_id SYSCALL_FWRITE = 14" | "syscall_id SYSCALL_OPENIPC = 15" | "syscall_id SYSCALL_GETPID = 16"

text \<open>The machine with the sizes the graphics driver reports.\<close>

record ('w, 'd) system = "('w, 'd) machine" +
  screen_width :: u32
  screen_height :: u32
  screen_bpp :: u32

type_synonym ('b, 'd, 'a) sys = "('b driver_state_scheme, 'd, 'a) system_scheme"

text \<open>A handler returns a value for \<open>eax\<close>, or the processor goes on in user mode (\<open>task_return\<close>).\<close>

datatype 's sysret = Result u32 's | Enters registers 's

type_synonym 's SYSCALL = "interrupt_frame \<Rightarrow> 's \<Rightarrow> fault + 's sysret"

section \<open>What the handlers share\<close>

definition sysarg :: "'a kernel_scheme \<Rightarrow> int \<Rightarrow> fault + (u32 \<times> 'a kernel_scheme)" where
  "sysarg s i = task_peek_stack s (task_current s) i"

text \<open>A string of the calling task, copied to a buffer of \<open>n\<close> zeros.\<close>

definition string_arg :: "'a kernel_scheme \<Rightarrow> u32 \<Rightarrow> nat \<Rightarrow> fault + (byte list \<times> 'a kernel_scheme)" where
  "string_arg s va n = cbind (task_copy_string_from s (task_current s) va (replicate n 0) (int n)) (\<lambda>(_, str, s'). Inr (str, s'))"

text \<open>\<open>task_current()->process\<close>\<close>

definition calling_process :: "'a kernel_scheme \<Rightarrow> fault + u32" where
  "calling_process s = cbind (get_task s (task_current s)) (\<lambda>t. Inr (t_process t))"

text \<open>\<open>kprintf\<close>; where the code gives no argument for a conversion, what is on the stack is not known.\<close>

definition sys_print :: "'d ports \<Rightarrow> ('w, 'd, 'a) machine_scheme \<Rightarrow> (u32 \<Rightarrow> byte list) \<Rightarrow> byte list \<Rightarrow> u32 list
    \<Rightarrow> fault + ('w, 'd, 'a) machine_scheme" where
  "sys_print io s strs fmt as = cbind (kprintf_serial io strs fmt as (device s)) (\<lambda>d. Inr (s\<lparr>device := d\<rparr>))"

text \<open>Words stored through the address space of the calling task.\<close>

fun vstores :: "(u32 \<Rightarrow> byte) \<Rightarrow> u32 \<Rightarrow> (u32 \<times> u32) list \<Rightarrow> fault + (u32 \<Rightarrow> byte)" where
  "vstores m pd [] = Inr m"
| "vstores m pd ((a, x) # xs) = cbind (vstore32 m pd a x) (\<lambda>m'. vstores m' pd xs)"

definition store_user :: "'a kernel_scheme \<Rightarrow> (u32 \<times> u32) list \<Rightarrow> fault + 'a kernel_scheme" where
  "store_user s xs = cbind (task_page s) (\<lambda>(_, s1). cbind (vstores (ram s1) (cr3 s1) xs) (\<lambda>m.
     Inr (kernel_page (s1\<lparr>ram := m\<rparr>))))"

section \<open>Console\<close>

definition sys_putstring :: "'d ports \<Rightarrow> ('b, 'd, 'a) sys SYSCALL" where
  "sys_putstring io frame s =
     cbind (sysarg s 0) (\<lambda>(str_ptr, s1). cbind (string_arg s1 str_ptr 2048) (\<lambda>(buf, s2).
     cbind (sys_print io s2 (\<lambda>_. []) buf []) (\<lambda>s3. Inr (Result 0 s3))))"

definition sys_getchar :: "('b, 'd, 'a) sys SYSCALL" where
  "sys_getchar frame s =
     cbind (calling_process s) (\<lambda>p. cbind (process_popkey s p) (\<lambda>(c, s1). Inr (Result (scast c) s1)))"

definition sys_putchar :: "'d ports \<Rightarrow> ('b, 'd, 'a) sys SYSCALL" where
  "sys_putchar io frame s =
     cbind (sysarg s 0) (\<lambda>(x, s1). let c = ucast x :: byte in
     cbind (sys_print io s1 (\<lambda>_. []) (lit ''%c'') [scast c]) (\<lambda>s2. Inr (Result 0 s2)))"

section \<open>Processes\<close>

definition zero_process :: process where
  "zero_process = \<lparr>p_id = 0, p_filename = replicate MAX_PATH 0, p_task = 0,
     allocations = replicate PROCESS_MAX_ALLOCATIONS 0, p_elf = 0, p_stack = 0, p_bss = 0, p_framebuffer = 0,
     key_buffer = replicate PROCESS_KEYBOARD_BUFFER_SIZE 0, key_tail = 0, key_head = 0, elf_entry = 0, argc = 0, argv = []\<rparr>"

text \<open>\<open>new process\<close>: 6188 bytes, all zero.\<close>

definition process_new :: "'a kernel_scheme \<Rightarrow> fault + (u32 \<times> 'a kernel_scheme)" where
  "process_new s = cbind (kzalloc s 6188) (\<lambda>(p, s1).
     if p = 0 then Inl Null_Deref else Inr (p, put_process p zero_process s1))"

definition sys_execprocess :: "('b, 'd, 'a) sys SYSCALL" where
  "sys_execprocess frame s =
     cbind (sysarg s 0) (\<lambda>(str_ptr, s1). cbind (string_arg s1 str_ptr MAX_PATH) (\<lambda>(path, s2).
     cbind (process_new s2) (\<lambda>(new_process, s3). cbind (process_load_switch s3 path new_process) (\<lambda>(res, s4).
       if res < 0
       then cbind (kfree s4 new_process) (\<lambda>s5.
              Inr (Result (word_of_int res) (s5\<lparr>processes_at := (processes_at s5)(new_process := None)\<rparr>)))
       else cbind (get_process s4 new_process) (\<lambda>p. cbind (task_switch s4 (p_task p)) (\<lambda>(_, s5).
            cbind (task_return s5 (p_task p)) (\<lambda>(regs, s6). Inr (Enters regs s6))))))))"

text \<open>\<open>strlen\<close> and \<open>strcpy\<close> on memory, which need not end.\<close>

partial_function (option) ram_strlen :: "(u32 \<Rightarrow> byte) \<Rightarrow> u32 \<Rightarrow> nat \<Rightarrow> nat option" where
  "ram_strlen m p n = (if m (p + word_of_nat n) = 0 then Some n else ram_strlen m p (Suc n))"

partial_function (option) ram_strcpy :: "(u32 \<Rightarrow> byte) \<Rightarrow> u32 \<Rightarrow> u32 \<Rightarrow> (u32 \<Rightarrow> byte) option" where
  "ram_strcpy m d p =
     (if m p = 0 then Some (m(d := 0)) else ram_strcpy (m(d := m p)) (d + 1) (p + 1))"

definition diverging :: "'a option \<Rightarrow> fault + 'a" where
  "diverging x = (case x of None \<Rightarrow> Inl Diverges | Some y \<Rightarrow> Inr y)"

text \<open>The first \<open>n\<close> arguments; a pointer is stored in the new array before the string is copied.\<close>

primrec copy_arguments :: "('w, 'a) os_scheme \<Rightarrow> u32 \<Rightarrow> u32 \<Rightarrow> nat \<Rightarrow> fault + ('w, 'a) os_scheme" where
  "copy_arguments s process new_argv 0 = Inr s"
| "copy_arguments s process new_argv (Suc i) =
     cbind (copy_arguments s process new_argv i) (\<lambda>s1.
     cbind (get_process s1 process) (\<lambda>p. cbind (rd (argv p) i) (\<lambda>a.
     cbind (diverging (ram_strlen (ram s1) a 0)) (\<lambda>n.
     cbind (process_malloc s1 process (word_of_nat n + 1)) (\<lambda>(ptr, s2).
     let m = store32 (ram s2) (slot new_argv i) ptr in
     cbind (diverging (ram_strcpy m ptr a)) (\<lambda>m'. Inr (s2\<lparr>ram := m'\<rparr>)))))))"

definition sys_get_process_arguments :: "('b, 'd, 'a) sys SYSCALL" where
  "sys_get_process_arguments frame s =
     cbind (sysarg s 0) (\<lambda>(argc_ptr, s1). cbind (sysarg s1 1) (\<lambda>(argv_ptr, s2).
     cbind (calling_process s2) (\<lambda>process. cbind (get_process s2 process) (\<lambda>p.
     cbind (process_malloc s2 process (4 * word_of_int (argc p))) (\<lambda>(new_argv, s3).
     cbind (copy_arguments s3 process new_argv (nat (argc p))) (\<lambda>s4.
     cbind (store_user s4 [(argc_ptr, word_of_int (argc p)), (argv_ptr, new_argv)]) (\<lambda>s5. Inr (Result 0 s5))))))))"

definition sys_malloc :: "('b, 'd, 'a) sys SYSCALL" where
  "sys_malloc frame s =
     cbind (calling_process s) (\<lambda>process. cbind (sysarg s 0) (\<lambda>(mem_size, s1).
     cbind (process_malloc s1 process mem_size) (\<lambda>(ptr, s2). Inr (Result ptr s2))))"

definition sys_free :: "('b, 'd, 'a) sys SYSCALL" where
  "sys_free frame s =
     cbind (calling_process s) (\<lambda>process. cbind (sysarg s 0) (\<lambda>(mem_to_free, s1).
     cbind (process_free s1 process mem_to_free) (\<lambda>s2. Inr (Result 0 s2))))"

text \<open>The task of the current process goes on, with the registers of the current task.\<close>

definition enter_current :: "('w, 'a) os_scheme \<Rightarrow> fault + ('w, 'a) os_scheme sysret" where
  "enter_current s =
     cbind (get_process s (process_current s)) (\<lambda>p. cbind (task_switch s (p_task p)) (\<lambda>(_, s1).
     cbind (task_return s1 (task_current s1)) (\<lambda>(regs, s2). Inr (Enters regs s2))))"

text \<open>The file name is the second field of the object, at offset 1.\<close>

definition sys_exit :: "'d ports \<Rightarrow> ('b, 'd, 'a) sys SYSCALL" where
  "sys_exit io frame s =
     cbind (sysarg s 0) (\<lambda>(return_code, s1). cbind (get_process s1 (process_current s1)) (\<lambda>p.
     cbind (sys_print io s1 (\<lambda>_. p_filename p) (chars ''Process %s exited with return code: %d'' @ [10, 0])
              [process_current s1 + 1, return_code]) (\<lambda>s2.
     cbind (process_terminate s2 (process_current s2)) (\<lambda>s3. enter_current s3))))"

definition sys_get_framebuffer_info :: "('b, 'd, 'a) sys SYSCALL" where
  "sys_get_framebuffer_info frame s =
     cbind (sysarg s 0) (\<lambda>(fb_info, s1). cbind (calling_process s1) (\<lambda>process. cbind (get_process s1 process) (\<lambda>p.
     cbind (store_user s1 [(fb_info, p_framebuffer p), (fb_info + 4, screen_width s1), (fb_info + 8, screen_height s1),
              (fb_info + 12, screen_bpp s1)]) (\<lambda>s2. Inr (Result 0 s2)))))"

definition sys_getpid :: "('b, 'd, 'a) sys SYSCALL" where
  "sys_getpid frame s = cbind (calling_process s) (\<lambda>process. cbind (get_process s process) (\<lambda>p. Inr (Result (ucast (p_id p)) s)))"

section \<open>Files\<close>

definition sys_fopen :: "('b, 'd, 'a) sys SYSCALL" where
  "sys_fopen frame s =
     cbind (sysarg s 0) (\<lambda>(path_ptr, s1). cbind (sysarg s1 1) (\<lambda>(mode_ptr, s2).
     cbind (string_arg s2 path_ptr MAX_PATH) (\<lambda>(path, s3). cbind (string_arg s3 mode_ptr MAX_PATH) (\<lambda>(mode, s4).
     cbind (fopen (files s4) path mode) (\<lambda>(fd, v). Inr (Result (word_of_int fd) (s4\<lparr>files := v\<rparr>)))))))"

definition sys_fclose :: "('b, 'd, 'a) sys SYSCALL" where
  "sys_fclose frame s =
     cbind (sysarg s 0) (\<lambda>(fd, s1). cbind (fclose (files s1) (sint fd)) (\<lambda>(res, v).
       Inr (Result (word_of_int res) (s1\<lparr>files := v\<rparr>))))"

text \<open>The buffer is the memory at the address itself: the address space of the kernel is in force, which maps every
  page to itself.\<close>

definition sys_fread :: "('b, 'd, 'a) sys SYSCALL" where
  "sys_fread frame s =
     cbind (sysarg s 0) (\<lambda>(buffer, s1). cbind (sysarg s1 1) (\<lambda>(sz, s2). cbind (sysarg s2 2) (\<lambda>(nmemb, s3).
     cbind (sysarg s3 3) (\<lambda>(fd, s4).
     cbind (fread (files s4) (ram_bytes (ram s4) buffer (unat sz * unat nmemb)) sz nmemb (sint fd)) (\<lambda>(res, bytes, v).
       Inr (Result (word_of_int res) (s4\<lparr>ram := ram_write (ram s4) buffer bytes, files := v\<rparr>)))))))"

definition sys_fwrite :: "('b, 'd, 'a) sys SYSCALL" where
  "sys_fwrite frame s =
     cbind (sysarg s 0) (\<lambda>(buffer, s1). cbind (sysarg s1 1) (\<lambda>(sz, s2). cbind (sysarg s2 2) (\<lambda>(nmemb, s3).
     cbind (sysarg s3 3) (\<lambda>(fd, s4).
     cbind (fwrite (files s4) (ram_bytes (ram s4) buffer (unat sz * unat nmemb)) sz nmemb (sint fd)) (\<lambda>(res, v).
       Inr (Result (word_of_int res) (s4\<lparr>files := v\<rparr>)))))))"

text \<open>What \<open>fstat\<close> has not filled in is read uninitialised.\<close>

definition sys_fstat :: "('b, 'd, 'a) sys SYSCALL" where
  "sys_fstat frame s =
     cbind (sysarg s 0) (\<lambda>(fd, s1). cbind (sysarg s1 1) (\<lambda>(task_stat, s2).
     cbind (fstat (files s2) (sint fd)) (\<lambda>(res, st, v).
       case st of None \<Rightarrow> Inl Bad_Read | Some st \<Rightarrow>
         cbind (store_user (s2\<lparr>files := v\<rparr>) [(task_stat, st_filesize st), (task_stat + 4, flags st)]) (\<lambda>s3.
           Inr (Result (word_of_int res) s3)))))"

definition sys_fseek :: "('b, 'd, 'a) sys SYSCALL" where
  "sys_fseek frame s =
     cbind (sysarg s 0) (\<lambda>(fd, s1). cbind (sysarg s1 1) (\<lambda>(off, s2). cbind (sysarg s2 2) (\<lambda>(whence, s3).
     cbind (fseek (files s3) (sint fd) (sint off) whence) (\<lambda>(res, v).
       Inr (Result (word_of_int res) (s3\<lparr>files := v\<rparr>))))))"

text \<open>\<open>new PipeFS\<close>, of 20 bytes, and its buffer; then the name, which lies in a block of its own.\<close>

definition pipe_new :: "('b driver_state_scheme, 'a) os_scheme \<Rightarrow> u32 \<Rightarrow> fault + (u32 \<times> ('b driver_state_scheme, 'a) os_scheme)" where
  "pipe_new s sz =
     cbind (kzalloc s 20) (\<lambda>(a, s1). if a = 0 then Inl Null_Deref
     else cbind (kzalloc s1 sz) (\<lambda>(buf, s2).
       Inr (a, s2\<lparr>files := (files s2)\<lparr>drivers := put_pipe a (drivers (files s2)) (PipeFS (buf \<noteq> 0) sz)\<rparr>\<rparr>)))"

definition ipc_path :: "byte list \<Rightarrow> fault + byte list" where
  "ipc_path filename =
     cbind (strcpy (replicate MAX_PATH 0) 0 (lit ''0:/ipc/'')) (\<lambda>path.
     cbind (strlen path) (\<lambda>n. strcpy path n filename))"

definition sys_open_ipc :: "('b, 'd, 'a) sys SYSCALL" where
  "sys_open_ipc frame s =
     cbind (sysarg s 0) (\<lambda>(filename_ptr, s1). cbind (string_arg s1 filename_ptr MAX_PATH) (\<lambda>(filename, s2).
     cbind (sysarg s2 1) (\<lambda>(packet_size, s3). cbind (sysarg s3 2) (\<lambda>(count, s4).
     cbind (pipe_new s4 (packet_size * count)) (\<lambda>(pipe, s5).
     cbind (kzalloc s5 (word_of_nat MAX_PATH)) (\<lambda>(buf, s6). if buf = 0 then Inl Null_Deref
     else cbind (ipc_path filename) (\<lambda>path.
          cbind (mount (files s6) path pipe_filesystem pipe) (\<lambda>v. Inr (Result 0 (s6\<lparr>files := v\<rparr>))))))))))"

section \<open>The table\<close>

definition syscall_register :: "'s SYSCALL option list \<Rightarrow> int \<Rightarrow> 's SYSCALL \<Rightarrow> fault + 's SYSCALL option list" where
  "syscall_register tab no func =
     (if no < 0 \<or> int MAX_SYSCALLS \<le> no then Inl Panic
      else cbind (rd tab (nat no)) (\<lambda>f. if \<not> Option.is_none f then Inl Panic else wr tab (nat no) (Some func)))"

fun register_all :: "'s SYSCALL option list \<Rightarrow> (syscalls \<times> 's SYSCALL) list \<Rightarrow> fault + 's SYSCALL option list" where
  "register_all tab [] = Inr tab"
| "register_all tab ((c, func) # fs) = cbind (syscall_register tab (syscall_id c) func) (\<lambda>t. register_all t fs)"

definition syscall_init :: "'d ports \<Rightarrow> ('b, 'd, 'a) sys SYSCALL option list \<Rightarrow> fault + ('b, 'd, 'a) sys SYSCALL option list" where
  "syscall_init io tab = register_all tab
     [(SYSCALL_PUTSTRING, sys_putstring io), (SYSCALL_GETCHAR, sys_getchar), (SYSCALL_PUTCHAR, sys_putchar io),
      (SYSCALL_EXECPROCESS, sys_execprocess), (SYSCALL_MALLOC, sys_malloc), (SYSCALL_FREE, sys_free),
      (SYSCALL_GET_PROCESS_ARGUMENTS, sys_get_process_arguments), (SYSCALL_EXIT, sys_exit io),
      (SYSCALL_GET_FRAMEBUFFER_INFO, sys_get_framebuffer_info), (SYSCALL_FOPEN, sys_fopen), (SYSCALL_FREAD, sys_fread),
      (SYSCALL_FWRITE, sys_fwrite), (SYSCALL_FSTAT, sys_fstat), (SYSCALL_FSEEK, sys_fseek), (SYSCALL_FCLOSE, sys_fclose),
      (SYSCALL_OPENIPC, sys_open_ipc), (SYSCALL_GETPID, sys_getpid)]"

definition syscall_handle_command :: "'d ports \<Rightarrow> ('b, 'd, 'a) sys SYSCALL option list \<Rightarrow> int \<Rightarrow> ('b, 'd, 'a) sys SYSCALL" where
  "syscall_handle_command io tab no frame s =
     (if no < 0 \<or> int MAX_SYSCALLS \<le> no then Inr (Result 0 s)
      else cbind (rd tab (nat no)) (\<lambda>f. case f of
        None \<Rightarrow> cbind (calling_process s) (\<lambda>process. cbind (get_process s process) (\<lambda>p.
          cbind (sys_print io s (\<lambda>_. p_filename p) (lit ''Task %s tried to call syscall %d but it is not registered!'')
                   [process + 1, word_of_int no]) (\<lambda>s1. Inr (Result 0 s1))))
      | Some func \<Rightarrow> func frame s))"

definition syscall_handler :: "'d ports \<Rightarrow> ('b, 'd, 'a) sys SYSCALL option list \<Rightarrow> int \<Rightarrow> ('b, 'd, 'a) sys SYSCALL" where
  "syscall_handler io tab no frame s =
     cbind (task_current_save_state (kernel_page s) frame) (\<lambda>s1.
     cbind (syscall_handle_command io tab no frame s1) (\<lambda>r.
     case r of Enters regs s2 \<Rightarrow> Inr (Enters regs s2)
     | Result res s2 \<Rightarrow> cbind (task_page s2) (\<lambda>(_, s3). Inr (Result res s3))))"

section \<open>Dispatch\<close>

text \<open>The handler of each number.\<close>

primrec sys_of :: "'d ports \<Rightarrow> syscalls \<Rightarrow> ('b, 'd, 'a) sys SYSCALL" where
  "sys_of io SYSCALL_GETCHAR = sys_getchar" | "sys_of io SYSCALL_PUTCHAR = sys_putchar io"
| "sys_of io SYSCALL_PUTSTRING = sys_putstring io" | "sys_of io SYSCALL_EXECPROCESS = sys_execprocess"
| "sys_of io SYSCALL_MALLOC = sys_malloc" | "sys_of io SYSCALL_FREE = sys_free"
| "sys_of io SYSCALL_GET_PROCESS_ARGUMENTS = sys_get_process_arguments" | "sys_of io SYSCALL_EXIT = sys_exit io"
| "sys_of io SYSCALL_GET_FRAMEBUFFER_INFO = sys_get_framebuffer_info" | "sys_of io SYSCALL_FOPEN = sys_fopen"
| "sys_of io SYSCALL_FREAD = sys_fread" | "sys_of io SYSCALL_FSTAT = sys_fstat" | "sys_of io SYSCALL_FSEEK = sys_fseek"
| "sys_of io SYSCALL_FCLOSE = sys_fclose" | "sys_of io SYSCALL_FWRITE = sys_fwrite" | "sys_of io SYSCALL_OPENIPC = sys_open_ipc"
| "sys_of io SYSCALL_GETPID = sys_getpid"

lemma syscall_id_inject [simp]: "syscall_id c = syscall_id e \<longleftrightarrow> c = e"
  by (cases c; cases e; simp)

lemma syscall_id_range: "0 \<le> syscall_id c" "syscall_id c < 17"
  by (cases c; simp)+

lemma syscall_id_onto:
  assumes "0 \<le> i" and "i < 17"
  shows "\<exists>c. syscall_id c = i"
proof -
  obtain n where n: "i = int n" using assms(1) nonneg_int_cases by blast
  have "n \<in> {..<17}" using assms n by simp
  then have "n \<in> {0, 1, 2, 3, 4, 5, 6, 7, 8, 9, 10, 11, 12, 13, 14, 15, 16}"
    by (simp add: lessThan_nat_numeral lessThan_Suc del: lessThan_iff) blast
  then have "i \<in> syscall_id ` {SYSCALL_GETCHAR, SYSCALL_PUTCHAR, SYSCALL_PUTSTRING, SYSCALL_EXECPROCESS,
      SYSCALL_MALLOC, SYSCALL_FREE, SYSCALL_GET_PROCESS_ARGUMENTS, SYSCALL_EXIT, SYSCALL_GET_FRAMEBUFFER_INFO,
      SYSCALL_FOPEN, SYSCALL_FREAD, SYSCALL_FSTAT, SYSCALL_FSEEK, SYSCALL_FCLOSE, SYSCALL_FWRITE, SYSCALL_OPENIPC,
      SYSCALL_GETPID}"
    unfolding n by auto
  then show ?thesis by blast
qed

lemma register_all_spec:
  assumes "length tab = MAX_SYSCALLS" and "distinct (map fst fs)" and "\<forall>c\<in>set (map fst fs). tab ! nat (syscall_id c) = None"
  shows "\<exists>t. register_all tab fs = Inr t \<and> length t = MAX_SYSCALLS
    \<and> (\<forall>(c, f)\<in>set fs. t ! nat (syscall_id c) = Some f)
    \<and> (\<forall>i. (\<forall>c\<in>set (map fst fs). i \<noteq> nat (syscall_id c)) \<longrightarrow> t ! i = tab ! i)"
  using assms
proof (induction fs arbitrary: tab)
  case Nil
  then show ?case by simp
next
  case (Cons x fs)
  obtain c f where x: "x = (c, f)" by fastforce
  have r: "0 \<le> syscall_id c" "nat (syscall_id c) < MAX_SYSCALLS" for c using syscall_id_range [of c] by (simp_all add: MAX_SYSCALLS_def)
  have n: "nat (syscall_id c) = nat (syscall_id e) \<longleftrightarrow> c = e" for c e
    using syscall_id_range [of c] syscall_id_range [of e] by (simp add: nat_eq_iff)
  let ?t = "tab[nat (syscall_id c) := Some f]"
  have "syscall_register tab (syscall_id c) f = Inr ?t"
    using Cons.prems(1,3) r [of c] x by (simp add: syscall_register_def nat_less_iff not_less)
  moreover have "length ?t = MAX_SYSCALLS" "distinct (map fst fs)" "\<forall>c\<in>set (map fst fs). ?t ! nat (syscall_id c) = None"
    using Cons.prems n x by (auto simp: nth_list_update_neq image_iff)
  from Cons.IH [OF this] obtain t where t: "register_all ?t fs = Inr t" "length t = MAX_SYSCALLS"
    "\<forall>(c, f)\<in>set fs. t ! nat (syscall_id c) = Some f"
    "\<forall>i. (\<forall>c\<in>set (map fst fs). i \<noteq> nat (syscall_id c)) \<longrightarrow> t ! i = ?t ! i"
    by blast
  moreover have "t ! nat (syscall_id c) = Some f"
    using t(4) n Cons.prems(1,2) r(2) [of c] x by (auto simp: image_iff)
  ultimately show ?case using x by (auto simp: nth_list_update)
qed

lemma syscall_init_spec:
  "\<exists>t :: ('b, 'd, 'a) sys SYSCALL option list. syscall_init io (replicate MAX_SYSCALLS None) = Inr t \<and> length t = MAX_SYSCALLS
    \<and> (\<forall>c. t ! nat (syscall_id c) = Some (sys_of io c)) \<and> (\<forall>i. 17 \<le> i \<longrightarrow> i < MAX_SYSCALLS \<longrightarrow> t ! i = None)"
proof -
  let ?fs = "[(SYSCALL_PUTSTRING, sys_putstring io), (SYSCALL_GETCHAR, sys_getchar), (SYSCALL_PUTCHAR, sys_putchar io),
      (SYSCALL_EXECPROCESS, sys_execprocess), (SYSCALL_MALLOC, sys_malloc), (SYSCALL_FREE, sys_free),
      (SYSCALL_GET_PROCESS_ARGUMENTS, sys_get_process_arguments), (SYSCALL_EXIT, sys_exit io),
      (SYSCALL_GET_FRAMEBUFFER_INFO, sys_get_framebuffer_info), (SYSCALL_FOPEN, sys_fopen), (SYSCALL_FREAD, sys_fread),
      (SYSCALL_FWRITE, sys_fwrite), (SYSCALL_FSTAT, sys_fstat), (SYSCALL_FSEEK, sys_fseek), (SYSCALL_FCLOSE, sys_fclose),
      (SYSCALL_OPENIPC, sys_open_ipc), (SYSCALL_GETPID, sys_getpid)]
    :: (syscalls \<times> ('b, 'd, 'a) sys SYSCALL) list"
  have e: "\<forall>c\<in>set (map fst ?fs). replicate MAX_SYSCALLS None ! nat (syscall_id c) = None"
    using syscall_id_range by (auto simp: MAX_SYSCALLS_def nth_replicate)
  obtain t where t: "register_all (replicate MAX_SYSCALLS None) ?fs = Inr t" "length t = MAX_SYSCALLS"
    "\<forall>(c, f)\<in>set ?fs. t ! nat (syscall_id c) = Some f"
    "\<forall>i. (\<forall>c\<in>set (map fst ?fs). i \<noteq> nat (syscall_id c)) \<longrightarrow> t ! i = replicate MAX_SYSCALLS None ! i"
    using register_all_spec [OF length_replicate _ e] by auto
  have "t ! nat (syscall_id c) = Some (sys_of io c)" for c
    using t(3) by (cases c) simp_all
  moreover have "t ! i = None" if "17 \<le> i" "i < MAX_SYSCALLS" for i
    using t(4) that syscall_id_range by (simp add: nat_less_iff)
  ultimately show ?thesis using t(1,2) unfolding syscall_init_def by blast
qed

text \<open>C34: After \<open>syscall_init\<close> the entry runs, for each number of the enumeration, the handler of that name; for
  every other number of the table it prints a message and returns 0, and outside of the table it returns 0 and does
  nothing.  Registering a number a second time, or one outside of the table, is a panic.\<close>

theorem syscall_dispatch:
  "\<exists>t :: ('b, 'd, 'a) sys SYSCALL option list. syscall_init io (replicate MAX_SYSCALLS None) = Inr t
    \<and> (\<forall>c frame s. syscall_handle_command io t (syscall_id c) frame s = sys_of io c frame s)
    \<and> (\<forall>no frame s. no < 0 \<or> 1024 \<le> no \<longrightarrow> syscall_handle_command io t no frame s = Inr (Result 0 s))
    \<and> (\<forall>no frame s r. 17 \<le> no \<longrightarrow> no < 1024 \<longrightarrow> syscall_handle_command io t no frame s = Inr r
         \<longrightarrow> (\<exists>d. r = Result 0 (s\<lparr>device := d\<rparr>)))
    \<and> (\<forall>no f. no < 17 \<or> 1024 \<le> no \<longrightarrow> syscall_register t no f = Inl Panic)"
proof -
  obtain t :: "('b, 'd, 'a) sys SYSCALL option list" where t: "syscall_init io (replicate MAX_SYSCALLS None) = Inr t" "length t = MAX_SYSCALLS"
    "\<forall>c. t ! nat (syscall_id c) = Some (sys_of io c)" "\<forall>i. 17 \<le> i \<longrightarrow> i < MAX_SYSCALLS \<longrightarrow> t ! i = None"
    using syscall_init_spec by blast
  have "syscall_handle_command io t (syscall_id c) frame s = sys_of io c frame s" for c frame s
    using t(2,3) syscall_id_range [of c] by (simp add: syscall_handle_command_def MAX_SYSCALLS_def)
  moreover have "\<exists>d. r = Result 0 (s\<lparr>device := d\<rparr>)"
    if "17 \<le> no" "no < 1024" "syscall_handle_command io t no frame s = Inr r" for no frame s r
    using that t(2,4) by (auto simp: syscall_handle_command_def MAX_SYSCALLS_def sys_print_def cbind_eq_Inr nat_le_iff)
  moreover have "syscall_register t no f = Inl Panic" if "no < 17 \<or> 1024 \<le> no" for no f
  proof (cases "0 \<le> no \<and> no < 17")
    case True
    then obtain c where "syscall_id c = no" using syscall_id_onto by blast
    then show ?thesis using t(2,3) True by (auto simp: syscall_register_def MAX_SYSCALLS_def)
  qed (use that in \<open>auto simp: syscall_register_def MAX_SYSCALLS_def\<close>)
  ultimately show ?thesis using t(1) by (intro exI [of _ t]) (auto simp: syscall_handle_command_def MAX_SYSCALLS_def)
qed

theorem syscall_dispatch_witness:
  "\<exists>t. syscall_init slow_uart (replicate MAX_SYSCALLS None) = Inr t
    \<and> (\<forall>frame (s :: (driver_state, byte list \<times> nat) system). syscall_handle_command slow_uart t 16 frame s = sys_getpid frame s
        \<and> syscall_handle_command slow_uart t (-1) frame s = Inr (Result 0 s))"
proof -
  obtain t where t: "syscall_init slow_uart (replicate MAX_SYSCALLS None) = Inr t"
    "\<forall>c frame (s :: (driver_state, byte list \<times> nat) system). syscall_handle_command slow_uart t (syscall_id c) frame s = sys_of slow_uart c frame s"
    "\<forall>no frame (s :: (driver_state, byte list \<times> nat) system). no < 0 \<or> 1024 \<le> no \<longrightarrow> syscall_handle_command slow_uart t no frame s = Inr (Result 0 s)"
    using syscall_dispatch [of slow_uart] by blast
  show ?thesis using t(1,3) t(2) [rule_format, of SYSCALL_GETPID] by (intro exI [of _ t]) simp
qed

end
