(* ===== verification/ObjectSizes.thy ===== *)
theory ObjectSizes
  imports Syscall
begin

text \<open>
  The sizes of the kernel's objects, as their declarations give them, are kept by every system call.  The proofs go
  through a small calculus: \<open>yields\<close> says what a computation gives if it does not fault, and the collection \<open>run\<close>
  holds one rule per operation, which continues from any state the operation may have left.
\<close>

section \<open>Sizes of the kernel's objects\<close>

text \<open>The sizes the declarations give: the arrays in a process, the table of processes, the tables of the file layer.
  They are what makes the indices computed by the code safe.\<close>

definition process_typed :: "process \<Rightarrow> bool" where
  "process_typed p = (length (p_filename p) = MAX_PATH \<and> length (allocations p) = PROCESS_MAX_ALLOCATIONS
     \<and> length (key_buffer p) = PROCESS_KEYBOARD_BUFFER_SIZE)"

definition files_typed :: "'w vfs \<Rightarrow> bool" where
  "files_typed v = (length (filesystems v) = 12 \<and> length (file_descriptors v) = 1024 \<and> length (mounted_files v) = 16384)"

definition typed :: "('w, 'a) os_scheme \<Rightarrow> bool" where
  "typed s = (length (processes s) = MAX_PROCESSES \<and> (\<forall>a p. processes_at s a = Some p \<longrightarrow> process_typed p) \<and> files_typed (files s))"

text \<open>What the operations of the heap, the page tables and the tasks leave alone.\<close>

definition kept :: "'a kernel_scheme \<Rightarrow> (u32 \<Rightarrow> process option) \<times> 'a" where
  "kept s = (processes_at s, kernel.more s)"

lemma kept_typed: "kept s' = kept s \<Longrightarrow> typed s' = typed (s :: ('w, 'a) os_scheme)"
  by (cases s; cases s') (simp add: kept_def typed_def)

lemma same_kept: "same_kernel s s' \<Longrightarrow> kept s' = kept s"
  using same_kernel_fields [of s s'] by (simp add: kept_def)

lemma kept_simps [simp]:
  "kept (s\<lparr>ram := m\<rparr>) = kept s" "kept (put_task p t s) = kept s"
  "kept (paging_switch s chunk) = kept s" "kept (kernel_page s) = kept s" "kept (user_registers s) = kept s"
  "kept (s\<lparr>task_head := x\<rparr>) = kept s" "kept (s\<lparr>task_tail := x\<rparr>) = kept s"
  "kept (s\<lparr>current_task := x\<rparr>) = kept s" "kept (s\<lparr>data_segments := d\<rparr>) = kept s"
  "kept (s\<lparr>tasks := ts\<rparr>) = kept s" "kept (s\<lparr>kernel_heap := h\<rparr>) = kept s"
  by (simp_all add: kept_def put_task_def paging_switch_def paging_load_directory_def kernel_page_def kernel_registers_def
      user_registers_def Let_def)

section \<open>What a computation yields\<close>

text \<open>\<open>yields P m\<close>: if \<open>m\<close> does not fault, its result satisfies \<open>P\<close>.  An operation gets one rule, which lets the rest of
  the computation go on from whatever the operation may have done.\<close>

definition yields :: "('b \<Rightarrow> bool) \<Rightarrow> fault + 'b \<Rightarrow> bool" where
  "yields P m = (case m of Inl e \<Rightarrow> True | Inr x \<Rightarrow> P x)"

lemma yields_simps [simp]:
  "yields P (Inr x) = P x" "yields P (Inl e)" "yields P (cbind m f) = yields (\<lambda>x. yields P (f x)) m"
  by (simp_all add: yields_def cbind_def split: sum.split)

lemma yields_cases [simp]:
  "yields P (if b then m else m') = ((b \<longrightarrow> yields P m) \<and> (\<not> b \<longrightarrow> yields P m'))"
  "yields P (case x of (a, c) \<Rightarrow> f a c) = (case x of (a, c) \<Rightarrow> yields P (f a c))"
  "yields P (case z of None \<Rightarrow> m | Some y \<Rightarrow> g y) = (case z of None \<Rightarrow> yields P m | Some y \<Rightarrow> yields P (g y))"
  by (simp_all split: prod.split option.split)

lemma yieldsI: "(\<And>x. m = Inr x \<Longrightarrow> P x) \<Longrightarrow> yields P m"
  by (cases m) (simp_all add: yields_def)

lemma yieldsD: "yields P m \<Longrightarrow> m = Inr x \<Longrightarrow> P x"
  by (simp add: yields_def)

lemma yields_mono: "yields Q m \<Longrightarrow> (\<And>x. Q x \<Longrightarrow> P x) \<Longrightarrow> yields P m"
  by (cases m) (simp_all add: yields_def)

named_theorems run \<open>one rule per operation\<close>

lemma run_reads [run]:
  "(\<And>x. P1 x) \<Longrightarrow> yields P1 (get_task s t)" "(\<And>x. P3 x) \<Longrightarrow> yields P3 (cassert b)"
  "(\<And>x. P4 x) \<Longrightarrow> yields P4 (vm_strncpy_loop m pd d src n i)" "(\<And>x. P5 x) \<Longrightarrow> yields P5 (vload32 m pd v)" "(\<And>x. P7 x) \<Longrightarrow> yields P7 (get_elf s' e)"
  "(\<And>x. P8 x) \<Longrightarrow> yields P8 (kprintf_serial io strs fmt as dev)" "(\<And>x. P9 x) \<Longrightarrow> yields P9 (vstores m pd ws)"
  "(\<And>x. P10 x) \<Longrightarrow> yields P10 (diverging z)" "(\<And>x. P11 x) \<Longrightarrow> yields P11 (ipc_path fn)" "(\<And>x. P12 x) \<Longrightarrow> yields P12 (calling_process s)"
  by (auto intro: yieldsI)

declare strncpy_loop.simps [simp del]

lemma strncpy_loop_length: "strncpy_loop d i src n k = Inr d' \<Longrightarrow> length d' = length d"
proof (induction d i src n k arbitrary: d' rule: strncpy_loop.induct)
  case (1 d i src n k)
  show ?case
  proof (cases "int k < n - 1")
    case True
    then obtain c where c: "rd src k = Inr c" "(if c = 0 then wr d (i + k) 0
        else cbind (wr d (i + k) c) (\<lambda>d1. strncpy_loop d1 i src n (Suc k))) = Inr d'"
      using 1(2) unfolding strncpy_loop.simps [of d i src n k] by (auto simp only: cbind_eq_Inr if_True)
    show ?thesis
    proof (cases "c = 0")
      case False
      then obtain d1 where d1: "wr d (i + k) c = Inr d1" "strncpy_loop d1 i src n (Suc k) = Inr d'"
        using c(2) by (auto simp: cbind_eq_Inr)
      show ?thesis using 1(1) [OF True c(1) False d1] d1(1) by (simp add: wr_eq_Inr)
    qed (use c(2) in \<open>auto simp: wr_eq_Inr\<close>)
  next
    case False
    then show ?thesis using 1(2) unfolding strncpy_loop.simps [of d i src n k] by (auto simp: wr_eq_Inr)
  qed
qed

lemma strncpy_run [run]: "(\<And>d'. length d' = length d \<Longrightarrow> P d') \<Longrightarrow> yields P (strncpy d i src n)"
  by (rule yieldsI) (auto simp: strncpy_def dest: strncpy_loop_length)

lemma rd_run [run]: "(\<And>x. rd xs i = Inr x \<Longrightarrow> P x) \<Longrightarrow> yields P (rd xs i)"
  by (rule yieldsI)

section \<open>Heap, page tables and tasks\<close>

lemma kmalloc_run [run]: "(\<And>p s'. kept s' = kept s \<Longrightarrow> P (p, s')) \<Longrightarrow> yields P (kmalloc s n)"
  by (rule yieldsI) (auto simp: kmalloc_def cbind_eq_Inr)

lemma kzalloc_run [run]: "(\<And>p s'. kept s' = kept s \<Longrightarrow> P (p, s')) \<Longrightarrow> yields P (kzalloc s n)"
  by (rule yieldsI) (auto dest: kzalloc_same [THEN same_kept])

lemma kfree_run [run]: "(\<And>s'. kept s' = kept s \<Longrightarrow> P s') \<Longrightarrow> yields P (kfree s p)"
  by (rule yieldsI) (auto dest: kfree_same [THEN same_kept])

lemma new_directory_run [run]: "(\<And>p s'. kept s' = kept s \<Longrightarrow> P (p, s')) \<Longrightarrow> yields P (paging_new_directory fl s)"
  by (rule yieldsI) (auto dest: paging_new_directory_same [THEN same_kept])

lemma free_directory_run [run]: "(\<And>s'. kept s' = kept s \<Longrightarrow> P s') \<Longrightarrow> yields P (paging_free_directory p s)"
  by (rule yieldsI) (auto dest: paging_free_directory_same [THEN same_kept])

lemma free_allocation_run [run]:
  "(\<And>as' s'. kept s' = kept s \<Longrightarrow> length as' = length as \<Longrightarrow> P (as', s')) \<Longrightarrow> yields P (free_allocation_loop s as p)"
proof (induction as arbitrary: P)
  case (Cons a as)
  show ?case by (auto intro!: run Cons)
qed simp

lemma free_allocations_run [run]:
  "(\<And>as' s'. kept s' = kept s \<Longrightarrow> length as' = length as \<Longrightarrow> P (as', s')) \<Longrightarrow> yields P (free_allocations_loop s as)"
proof (induction as arbitrary: s P)
  case (Cons a as)
  show ?case by (auto intro!: run Cons)
qed simp

lemma task_switch_run [run]: "(\<And>r s'. kept s' = kept s \<Longrightarrow> P (r, s')) \<Longrightarrow> yields P (task_switch s t)"
  by (auto simp: task_switch_def intro!: run)

lemma task_page_run [run]: "(\<And>r s'. kept s' = kept s \<Longrightarrow> P (r, s')) \<Longrightarrow> yields P (task_page s)"
  by (auto simp: task_page_def intro!: run)

lemma task_page_task_run [run]: "(\<And>s'. kept s' = kept s \<Longrightarrow> P s') \<Longrightarrow> yields P (task_page_task s t)"
  by (auto simp: task_page_task_def intro!: run)

lemma task_return_run [run]: "(\<And>r s'. kept s' = kept s \<Longrightarrow> P (r, s')) \<Longrightarrow> yields P (task_return s t)"
  by (auto simp: task_return_def intro!: run)

lemma save_state_run [run]: "(\<And>s'. kept s' = kept s \<Longrightarrow> P s') \<Longrightarrow> yields P (task_current_save_state s fr)"
  by (auto simp: task_current_save_state_def task_save_state_def intro!: run)

lemma list_remove_run [run]: "(\<And>s'. kept s' = kept s \<Longrightarrow> P s') \<Longrightarrow> yields P (task_list_remove s t)"
proof (rule yieldsI)
  fix s' assume P: "\<And>s'. kept s' = kept s \<Longrightarrow> P s'" and r: "task_list_remove s t = Inr s'"
  have "kept s' = kept s" using task_list_remove_keeps [OF r] by (simp add: kept_def)
  then show "P s'" by (rule P)
qed

lemma get_process_run [run]: "(\<And>p. get_process s a = Inr p \<Longrightarrow> P p) \<Longrightarrow> yields P (get_process s a)"
  by (rule yieldsI)

lemma task_init_run [run]: "(\<And>r s'. kept s' = kept s \<Longrightarrow> P (r, s')) \<Longrightarrow> yields P (task_init s t p)"
  by (auto simp: task_init_def Let_def intro!: run)

lemma task_peek_stack_run [run]: "(\<And>x s'. kept s' = kept s \<Longrightarrow> P (x, s')) \<Longrightarrow> yields P (task_peek_stack s t i)"
  by (auto simp: task_peek_stack_def Let_def intro!: run)

lemma task_free_run [run]: "(\<And>r s'. kept s' = kept s \<Longrightarrow> P (r, s')) \<Longrightarrow> yields P (task_free s t)"
  by (auto simp: task_free_def intro!: run)

lemma task_copy_string_run [run]:
  "(\<And>r d' s'. kept s' = kept s \<Longrightarrow> P (r, d', s')) \<Longrightarrow> yields P (task_copy_string_from s t va d n)"
  by (auto simp: task_copy_string_from_def Let_def split_def intro!: run)

lemma task_new_run [run]: "(\<And>t s'. kept s' = kept s \<Longrightarrow> P (t, s')) \<Longrightarrow> yields P (task_new s p)"
  by (auto simp: task_new_def Let_def intro!: run)

section \<open>The file layer\<close>

definition table_sizes :: "'w vfs \<Rightarrow> nat \<times> nat \<times> nat" where
  "table_sizes v = (length (filesystems v), length (file_descriptors v), length (mounted_files v))"

lemma files_typed_sizes: "files_typed v \<longleftrightarrow> table_sizes v = (12, 1024, 16384)"
  by (simp add: files_typed_def table_sizes_def)

lemma obj_alloc_sizes: "obj_alloc v = (ok, v') \<Longrightarrow> table_sizes v' = table_sizes v"
  by (auto simp: obj_alloc_def table_sizes_def split: list.splits)

lemma table_sizes_simps [simp]:
  "table_sizes (obj_free v) = table_sizes v" "table_sizes (v\<lparr>drivers := w\<rparr>) = table_sizes v"
  "table_sizes (v\<lparr>file_descriptors := (file_descriptors v)[i := d]\<rparr>) = table_sizes v"
  "table_sizes (v\<lparr>mounted_files := (mounted_files v)[i := m]\<rparr>) = table_sizes v"
  by (simp_all add: obj_free_def table_sizes_def)

lemma pathparser_free_sizes [simp]: "table_sizes (pathparser_free ps v) = table_sizes v"
  by (induction ps v rule: pathparser_free.induct) simp_all

lemma new_part_run [run]:
  "(\<And>b v'. new_part v = Inr (b, v') \<Longrightarrow> table_sizes v' = table_sizes v \<Longrightarrow> P (b, v')) \<Longrightarrow> yields P (new_part (v :: 'w vfs))"
  by (rule yieldsI) (auto simp: new_part_def dest!: obj_alloc_sizes split: prod.splits if_splits)

lemma strlen_run [run]: "(\<And>n. strlen str = Inr n \<Longrightarrow> P n) \<Longrightarrow> yields P (strlen str)"
  by (rule yieldsI)

lemma wr_run [run]: "(i < length xs \<Longrightarrow> P (xs[i := x])) \<Longrightarrow> yields P (wr xs i x)"
  by (rule yieldsI) (simp add: wr_eq_Inr)

lemma parse_loop_run [run]:
  "(\<And>qs v'. table_sizes v' = table_sizes v \<Longrightarrow> P (qs, v')) \<Longrightarrow> yields P (parse_loop p i ps c r (v :: 'w vfs))"
proof (induction p i ps c r v arbitrary: P rule: parse_loop.induct)
  case (1 p i ps c r v)
  show ?case by (subst parse_loop.simps) (auto intro!: run 1)
qed

lemma pathparser_run [run]:
  "(\<And>r ps v'. table_sizes v' = table_sizes v \<Longrightarrow> P (r, ps, v')) \<Longrightarrow> yields P (pathparser_parse p (v :: 'w vfs))"
  by (auto simp: pathparser_parse_def Path_parse_def path_valid_def intro!: run yieldsI [of "strcmp _ _"] split: option.splits)

lemma new_descriptor_run [run]:
  "(\<And>r i v'. table_sizes v' = table_sizes v \<Longrightarrow> P (r, i, v')) \<Longrightarrow> yields P (file_new_descriptor v)"
  by (auto simp: file_new_descriptor_def dest!: obj_alloc_sizes split: option.split prod.split)

lemma find_mounted_run [run]: "(\<And>m. P m) \<Longrightarrow> yields P (find_mounted rp ms)"
  by (rule yieldsI)

lemma other_file_reads [run]:
  "(\<And>x. P1 x) \<Longrightarrow> yields P1 (reconstruct buf q ps)" "(\<And>x. P2 x) \<Longrightarrow> yields P2 (mounted_slots v)"
  "(\<And>x. P3 x) \<Longrightarrow> yields P3 (file_get_mode_by_string str)" "(\<And>x. P4 x) \<Longrightarrow> yields P4 (file_get_descriptor v fd)"
  "(\<And>x. P5 x) \<Longrightarrow> yields P5 (descriptor_fs dd)"
  by (auto intro: yieldsI)

lemma open_mounted_run [run]:
  "(\<And>r v'. table_sizes v' = table_sizes v \<Longrightarrow> P (r, v')) \<Longrightarrow> yields P (open_mounted v m ps fm k)"
  by (auto simp: open_mounted_def intro!: run yieldsI [of "fs_open_op _ _ _ _ _"] split: option.split)

lemma fopen_loop_run [run]:
  "(\<And>r v'. table_sizes v' = table_sizes v \<Longrightarrow> P (r, v')) \<Longrightarrow> yields P (fopen_loop v ps fm k)"
proof (induction k arbitrary: P)
  case 0
  then show ?case by (auto intro!: run split: option.split)
next
  case (Suc k)
  show ?case by (auto intro!: run Suc split: option.split)
qed

lemma fopen_run [run]:
  "(\<And>fd v'. table_sizes v' = table_sizes v \<Longrightarrow> P (fd, v')) \<Longrightarrow> yields P (fopen v name mode)"
  by (auto simp: fopen_def intro!: run dest!: obj_alloc_sizes split: prod.split)

lemma fread_run [run]:
  "(\<And>r b v'. table_sizes v' = table_sizes v \<Longrightarrow> P (r, b, v')) \<Longrightarrow> yields P (fread v buf sz n fd)"
  by (auto simp: fread_def intro!: run yieldsI [of "fs_read_op _ _ _ _ _ _ _"])

lemma fwrite_run [run]:
  "(\<And>r v'. table_sizes v' = table_sizes v \<Longrightarrow> P (r, v')) \<Longrightarrow> yields P (fwrite v buf sz n fd)"
  by (auto simp: fwrite_def intro!: run yieldsI [of "fs_write_op _ _ _ _ _ _ _"])

lemma fseek_run [run]:
  "(\<And>r v'. table_sizes v' = table_sizes v \<Longrightarrow> P (r, v')) \<Longrightarrow> yields P (fseek v fd off wh)"
  by (auto simp: fseek_def intro!: run yieldsI [of "fs_seek_op _ _ _ _ _"])

lemma fstat_run [run]:
  "(\<And>r st v'. table_sizes v' = table_sizes v \<Longrightarrow> P (r, st, v')) \<Longrightarrow> yields P (fstat v fd)"
  by (auto simp: fstat_def intro!: run yieldsI [of "fs_stat_op _ _ _"])

lemma fclose_run [run]:
  "(\<And>r v'. table_sizes v' = table_sizes v \<Longrightarrow> P (r, v')) \<Longrightarrow> yields P (fclose v fd)"
  by (auto simp: fclose_def file_free_descriptor_def obj_free_def table_sizes_def intro!: run yieldsI [of "fs_close_op _ _ _"])

lemma mount_run [run]: "(\<And>v'. table_sizes v' = table_sizes v \<Longrightarrow> P v') \<Longrightarrow> yields P (mount v name fs data)"
  by (auto simp: mount_def mounted_slots_def dest!: obj_alloc_sizes split: prod.split option.split)

section \<open>Processes\<close>

lemma typed_process: "typed s \<Longrightarrow> get_process s a = Inr p \<Longrightarrow> process_typed p"
  by (auto simp: typed_def get_process_def split: option.splits)

lemma typed_put: "typed s \<Longrightarrow> process_typed p \<Longrightarrow> typed (put_process a p s)"
  by (auto simp: typed_def put_process_def)

lemma typed_files: "typed s \<Longrightarrow> table_sizes v = table_sizes (files s) \<Longrightarrow> typed (s\<lparr>files := v\<rparr>)"
  by (simp add: typed_def files_typed_sizes)

lemma typed_simps [simp]:
  "typed (s\<lparr>ram := m\<rparr>) = typed s" "typed (s\<lparr>elf_files := e\<rparr>) = typed s" "typed (s\<lparr>current_process := q\<rparr>) = typed s"
  by (simp_all add: typed_def)

lemma typed_processes: "typed s \<Longrightarrow> length ps = length (processes s) \<Longrightarrow> typed (s\<lparr>processes := ps\<rparr>)"
  by (simp add: typed_def)

lemma typed_forget: "typed s \<Longrightarrow> typed (s\<lparr>processes_at := (processes_at s)(a := None)\<rparr>)"
  by (simp add: typed_def)

lemma process_typed_simps [simp]:
  "process_typed (p\<lparr>p_elf := x\<rparr>) = process_typed p" "process_typed (p\<lparr>elf_entry := x\<rparr>) = process_typed p"
  "process_typed (p\<lparr>p_task := x\<rparr>) = process_typed p" "process_typed (p\<lparr>p_framebuffer := x\<rparr>) = process_typed p"
  "process_typed (p\<lparr>key_tail := k\<rparr>) = process_typed p"
  "process_typed (p\<lparr>p_stack := x\<rparr>) = process_typed p" "process_typed (p\<lparr>p_id := i\<rparr>) = process_typed p"
  "process_typed (p\<lparr>key_head := k\<rparr>) = process_typed p"
  by (simp_all add: process_typed_def)


lemma process_typed_arrays:
  "process_typed p \<Longrightarrow> length as = length (allocations p) \<Longrightarrow> process_typed (p\<lparr>allocations := as\<rparr>)"
  "process_typed p \<Longrightarrow> length b = length (key_buffer p) \<Longrightarrow> process_typed (p\<lparr>key_buffer := b\<rparr>)"
  "process_typed p \<Longrightarrow> length name = length (p_filename p) \<Longrightarrow> process_typed (p\<lparr>p_filename := name\<rparr>)"
  by (simp_all add: process_typed_def)

lemmas typed_intros = typed_put typed_files typed_processes typed_forget process_typed_arrays

declare get_process_run [run del]

lemma get_process_typed [run]:
  "typed s \<Longrightarrow> (\<And>p. process_typed p \<Longrightarrow> P p) \<Longrightarrow> yields P (get_process s a)"
  by (rule yieldsI) (auto dest: typed_process)

lemma process_malloc_flags_run [run]:
  assumes "typed s" and h: "\<And>ptr s'. typed s' \<Longrightarrow> P (ptr, s')"
  shows "yields P (process_malloc_flags s a sz fl)"
  using assms(1) by (auto simp: process_malloc_flags_def Let_def intro!: run typed_intros h dest!: kept_typed split: prod.split)

lemma process_malloc_run [run]:
  assumes "typed s" and h: "\<And>ptr s'. typed s' \<Longrightarrow> P (ptr, s')"
  shows "yields P (process_malloc s a sz)"
  unfolding process_malloc_def by (intro run assms)

lemma process_free_run [run]:
  assumes "typed s" and h: "\<And>s'. typed s' \<Longrightarrow> P s'"
  shows "yields P (process_free s a x)"
  using assms(1) by (auto simp: process_free_def intro!: run typed_intros h dest!: kept_typed)

lemma elf_new_run [run]:
  assumes "typed s" and h: "\<And>p s'. typed s' \<Longrightarrow> P (p, s')"
  shows "yields P (elf_new s d n)"
  using assms(1) by (auto simp: elf_new_def intro!: run h dest!: kept_typed)

lemma elf_delete_run [run]:
  assumes "typed s" and h: "\<And>s'. typed s' \<Longrightarrow> P s'"
  shows "yields P (elf_delete s p)"
  using assms(1) by (auto simp: elf_delete_def intro!: run h dest!: kept_typed)

lemma elf_load_run [run]:
  assumes "typed s" and h: "\<And>r p s'. typed s' \<Longrightarrow> P (r, p, s')"
  shows "yields P (elf_load s name)"
  using assms(1) by (auto simp: elf_load_def Let_def intro!: run typed_intros h dest!: kept_typed split: option.split)

lemma process_load_data_run [run]:
  assumes "typed s" and h: "\<And>r s'. typed s' \<Longrightarrow> P (r, s')"
  shows "yields P (process_load_data s name a)"
  using assms(1) by (auto simp: process_load_data_def intro!: run typed_intros h)

lemma map_segment_run [run]:
  assumes "typed s" and h: "\<And>r s'. typed s' \<Longrightarrow> P (r, s')"
  shows "yields P (map_segment s a e i)"
  using assms(1) by (auto simp: map_segment_def Let_def intro!: run typed_intros h split: prod.split)

lemma map_segments_loop_run [run]:
  assumes "typed s" and h: "\<And>r s'. typed s' \<Longrightarrow> P (r, s')"
  shows "yields P (map_segments_loop s a e n)"
  using h
proof (induction n arbitrary: P)
  case 0
  then show ?case using assms(1) by simp
next
  case (Suc n)
  show ?case by (auto intro!: Suc.IH run Suc.prems)
qed

lemma process_map_memory_run [run]:
  assumes "typed s" and h: "\<And>r s'. typed s' \<Longrightarrow> P (r, s')"
  shows "yields P (process_map_memory s a)"
  using assms(1) by (auto simp: process_map_memory_def Let_def intro!: run typed_intros h split: prod.split)

lemma load_cleanup_run [run]:
  assumes "typed s" and h: "\<And>s'. typed s' \<Longrightarrow> P s'"
  shows "yields P (load_cleanup s a)"
  using assms(1) by (auto simp: load_cleanup_def intro!: run typed_intros h dest!: kept_typed)

lemma load_steps_run [run]:
  assumes "typed s" and h: "\<And>r s'. typed s' \<Longrightarrow> P (r, s')"
  shows "yields P (load_steps s name a k)"
  using assms(1) by (auto simp: load_steps_def process_get_def Let_def intro!: run typed_intros h dest!: kept_typed)

lemma process_load_switch_run [run]:
  assumes "typed s" and h: "\<And>r s'. typed s' \<Longrightarrow> P (r, s')"
  shows "yields P (process_load_switch s name a)"
  using assms(1)
  by (auto simp: process_load_switch_def process_load_def process_load_for_slot_def process_switch_def Let_def intro!: run h)

lemma process_popkey_run [run]:
  assumes "typed s" and h: "\<And>c s'. typed s' \<Longrightarrow> P (c, s')"
  shows "yields P (process_popkey s a)"
  using assms(1) by (auto simp: process_popkey_def pop_key_def Let_def intro!: run typed_intros h)

lemma process_terminate_run [run]:
  assumes "typed s" and h: "\<And>s'. typed s' \<Longrightarrow> P s'"
  shows "yields P (process_terminate s a)"
  using assms(1)
  by (auto simp: process_terminate_def process_switch_def Let_def intro!: run typed_intros h dest!: kept_typed split: option.split)

section \<open>System calls\<close>

definition typed_result :: "('w, 'a) os_scheme sysret \<Rightarrow> bool" where
  "typed_result r = (case r of Result x s \<Rightarrow> typed s | Enters regs s \<Rightarrow> typed s)"

lemma typed_result_simps [simp]: "typed_result (Result x s) = typed s" "typed_result (Enters regs s) = typed s"
  by (simp_all add: typed_result_def)

lemma typed_device [simp]: "typed (s\<lparr>device := d\<rparr>) = typed s"
  by (simp add: typed_def)

lemma sys_print_run [run]:
  assumes "typed s" and h: "\<And>s'. typed s' \<Longrightarrow> P s'"
  shows "yields P (sys_print io s strs fmt as)"
  using assms(1) by (auto simp: sys_print_def intro!: run h)

lemma sysarg_run [run]:
  assumes "typed s" and h: "\<And>x s'. typed s' \<Longrightarrow> P (x, s')"
  shows "yields P (sysarg s i)"
  using assms(1) by (auto simp: sysarg_def intro!: run h dest!: kept_typed)

lemma string_arg_run [run]:
  assumes "typed s" and h: "\<And>x s'. typed s' \<Longrightarrow> P (x, s')"
  shows "yields P (string_arg s va n)"
  using assms(1) by (auto simp: string_arg_def intro!: run h dest!: kept_typed)

lemma store_user_run [run]:
  assumes "typed s" and h: "\<And>s'. typed s' \<Longrightarrow> P s'"
  shows "yields P (store_user s ws)"
proof -
  have k: "typed (kernel_page s') = typed s'" for s' by (rule kept_typed) simp
  show ?thesis using assms(1) by (auto simp: store_user_def k intro!: run h dest!: kept_typed)
qed

lemma sys_console_typed:
  assumes "typed s"
  shows "yields typed_result (sys_putstring io frame s)" "yields typed_result (sys_getchar frame s)"
    "yields typed_result (sys_putchar io frame s)"
  using assms by (auto simp: sys_putstring_def sys_getchar_def sys_putchar_def Let_def intro!: run)

lemma sys_file_typed:
  assumes "typed s"
  shows "yields typed_result (sys_fopen frame s)" "yields typed_result (sys_fclose frame s)"
    "yields typed_result (sys_fread frame s)" "yields typed_result (sys_fwrite frame s)"
    "yields typed_result (sys_fstat frame s)" "yields typed_result (sys_fseek frame s)"
  using assms by (auto simp: sys_fopen_def sys_fclose_def sys_fread_def sys_fwrite_def sys_fstat_def sys_fseek_def Let_def
      intro!: run typed_intros split: option.split)

lemma zero_process_typed [simp]: "process_typed zero_process"
  by (simp add: process_typed_def zero_process_def)

lemma process_new_run [run]:
  assumes "typed s" and h: "\<And>p s'. typed s' \<Longrightarrow> P (p, s')"
  shows "yields P (process_new s)"
  using assms(1) by (auto simp: process_new_def intro!: run typed_intros h dest!: kept_typed)

lemma enter_current_run [run]:
  assumes "typed s"
  shows "yields typed_result (enter_current s)"
  using assms by (auto simp: enter_current_def intro!: run dest!: kept_typed)

lemma copy_arguments_run [run]:
  assumes "typed s" and h: "\<And>s'. typed s' \<Longrightarrow> P s'"
  shows "yields P (copy_arguments s a na n)"
  using h
proof (induction n arbitrary: P)
  case 0
  then show ?case using assms(1) by simp
next
  case (Suc n)
  show ?case by (auto simp: Let_def intro!: Suc.IH run Suc.prems)
qed

lemma pipe_new_run [run]:
  assumes "typed s" and h: "\<And>a s'. typed s' \<Longrightarrow> P (a, s')"
  shows "yields P (pipe_new s sz)"
  using assms(1) by (auto simp: pipe_new_def intro!: run typed_intros h dest!: kept_typed)

lemma sys_process_typed:
  assumes "typed s"
  shows "yields typed_result (sys_execprocess frame s)" "yields typed_result (sys_get_process_arguments frame s)"
    "yields typed_result (sys_malloc frame s)" "yields typed_result (sys_free frame s)" "yields typed_result (sys_exit io frame s)"
    "yields typed_result (sys_get_framebuffer_info frame s)" "yields typed_result (sys_getpid frame s)"
    "yields typed_result (sys_open_ipc frame s)"
proof -
  show "yields typed_result (sys_execprocess frame s)"
    using assms by (auto simp: sys_execprocess_def intro!: run typed_intros dest!: kept_typed)
  show "yields typed_result (sys_open_ipc frame s)"
    using assms by (auto simp: sys_open_ipc_def intro!: run typed_intros dest!: kept_typed)
qed (use assms in \<open>auto simp: sys_get_process_arguments_def sys_malloc_def sys_free_def sys_exit_def
    sys_get_framebuffer_info_def sys_getpid_def intro!: run\<close>)

lemma sys_of_typed: "typed s \<Longrightarrow> yields typed_result (sys_of io c frame s)"
  by (cases c) (simp_all add: sys_console_typed sys_file_typed sys_process_typed)

lemma handle_command_typed:
  fixes s :: "('b, 'd, 'a) sys"
  assumes i: "syscall_init io (replicate MAX_SYSCALLS None) = Inr t" and s: "typed s"
  shows "yields typed_result (syscall_handle_command io t no frame s)"
proof -
  have t: "length t = MAX_SYSCALLS" "\<forall>c. t ! nat (syscall_id c) = Some (sys_of io c)"
    "\<forall>i. 17 \<le> i \<longrightarrow> i < MAX_SYSCALLS \<longrightarrow> t ! i = None"
    using syscall_init_spec [where 'a = 'a and 'b = 'b and io = io] i by auto
  show ?thesis
  proof (cases "0 \<le> no \<and> no < 17")
    case True
    then obtain c where "syscall_id c = no" using syscall_id_onto by blast
    then show ?thesis using t(1,2) sys_of_typed [OF s, of io c frame] True
      by (auto simp: syscall_handle_command_def MAX_SYSCALLS_def)
  next
    case False
    then show ?thesis using t(1,3) s
      by (auto simp: syscall_handle_command_def MAX_SYSCALLS_def nat_le_iff intro!: run)
  qed
qed


definition sample_system :: "(driver_state, byte list \<times> nat) system" where
  "sample_system = \<lparr>kernel_heap = kernel_heap fresh_kernel, ram = (\<lambda>_. 0), current_directory = 0, cr3 = 0,
     tasks = [0x1000 \<mapsto> zero_task\<lparr>t_process := 0x900000\<rparr>], processes_at = [0x900000 \<mapsto> zero_process\<lparr>p_id := 3\<rparr>],
     current_task = 0x1000, task_tail = 0x1000, task_head = 0x1000, kernel_paging_chunk = 0, data_segments = 0x10,
     processes = 0x900000 # replicate 11 0, current_process = 0x900000, elf_files = (\<lambda>_. None), files = ipc_vfs,
     framebuffer_bytes = 0, device = ([], 0), keyboard_flags = \<lparr>ps2keyboard_capslock = False, ps2keyboard_shift = False\<rparr>, screen_width = 800, screen_height = 600, screen_bpp = 32\<rparr>"

definition sample_frame :: interrupt_frame where
  "sample_frame = \<lparr>f_error_code = 0, f_edi = 0, f_esi = 0, f_ebp = 0, f_reserved = 0, f_ebx = 0, f_edx = 0, f_ecx = 0,
     f_eax = 16, f_ip = 0x400000, f_cs = 0x1b, f_flags = 0x200, f_esp = 0x3FEFF0, f_ss = 0x23\<rparr>"

lemma sample_system:
  "typed sample_system" "tasks sample_system (current_task sample_system) = Some (zero_task\<lparr>t_process := 0x900000\<rparr>)"
  "processes_at sample_system 0x900000 = Some (zero_process\<lparr>p_id := 3\<rparr>)" "current_task sample_system = 0x1000"
  by (simp_all add: sample_system_def typed_def MAX_PROCESSES_def files_typed_sizes table_sizes_def ipc_vfs_def)


end
