(* ===== verification/TextMode.thy ===== *)
theory TextMode
  imports Memory KString
begin

text \<open>
  The text screen, \<^verbatim>\<open>src/src/kernel/drivers/graphics/text_mode/text_mode.cpp\<close>: the video memory as bytes and the
  cursor.  What a terminal promises is stated on \<open>paper\<close>, an endless roll of lines; the screen is proved to show the
  end of it.
\<close>

section \<open>The screen\<close>

datatype TEXT_MODE_COLOR = BLACK | BLUE | GREEN | CYAN | RED | PURPLE | BROWN | GREY | DARK_GREY | LIGHT_BLUE | LIGHT_GREEN
  | LIGHT_CYAN | LIGHT_RED | LIGHT_PURPLE | YELLOW | WHITE

primrec color_code :: "TEXT_MODE_COLOR \<Rightarrow> u16" where
  "color_code BLACK = 0" | "color_code BLUE = 1" | "color_code GREEN = 2" | "color_code CYAN = 3" | "color_code RED = 4"
| "color_code PURPLE = 5" | "color_code BROWN = 6" | "color_code GREY = 7" | "color_code DARK_GREY = 8"
| "color_code LIGHT_BLUE = 9" | "color_code LIGHT_GREEN = 10" | "color_code LIGHT_CYAN = 11" | "color_code LIGHT_RED = 12"
| "color_code LIGHT_PURPLE = 13" | "color_code YELLOW = 14" | "color_code WHITE = 15"

definition TEXT_MODE_WIDTH :: nat where "TEXT_MODE_WIDTH = 80"
definition TEXT_MODE_HEIGHT :: nat where "TEXT_MODE_HEIGHT = 25"

text \<open>The video memory by bytes; a cell is two of them, low byte first.\<close>

record text_mode =
  video_mem :: "byte list"
  current_x :: u32
  current_y :: u32
  current_fg :: TEXT_MODE_COLOR

text \<open>A \<open>char\<close> is sign extended when it is combined with the color.\<close>

definition make_char :: "byte \<Rightarrow> TEXT_MODE_COLOR \<Rightarrow> u16" where
  "make_char c color = push_bit 8 (color_code color) OR scast c"

definition set_cell :: "text_mode \<Rightarrow> u32 \<Rightarrow> u16 \<Rightarrow> fault + text_mode" where
  "set_cell t i w = cbind (wr (video_mem t) (2 * unat i) (ucast w)) (\<lambda>m. cbind (wr m (2 * unat i + 1) (ucast (drop_bit 8 w))) (\<lambda>m'.
     Inr (t\<lparr>video_mem := m'\<rparr>)))"

definition text_clear_screen :: "text_mode \<Rightarrow> fault + text_mode" where
  "text_clear_screen t = cbind (memset (video_mem t) 0 0 (TEXT_MODE_HEIGHT * TEXT_MODE_WIDTH * 2)) (\<lambda>m.
     Inr (t\<lparr>video_mem := m, current_x := 0, current_y := 0\<rparr>))"

definition text_scroll_screen :: "text_mode \<Rightarrow> nat \<Rightarrow> fault + text_mode" where
  "text_scroll_screen t amount =
     cbind (memcpy_within (video_mem t) 0 (2 * TEXT_MODE_WIDTH * amount) (2 * TEXT_MODE_WIDTH * (TEXT_MODE_HEIGHT - amount))) (\<lambda>m.
     cbind (memset m (2 * TEXT_MODE_WIDTH * (TEXT_MODE_HEIGHT - amount)) 0 (2 * TEXT_MODE_WIDTH * amount)) (\<lambda>m'.
       Inr (t\<lparr>video_mem := m'\<rparr>)))"

definition text_print_char_color :: "text_mode \<Rightarrow> byte \<Rightarrow> TEXT_MODE_COLOR \<Rightarrow> fault + text_mode" where
  "text_print_char_color t c color =
     (let t1 = (if c = 10 then t\<lparr>current_y := current_y t + 1, current_x := 0\<rparr> else t);
          t2 = (if c = 13 then t1\<lparr>current_x := 0\<rparr> else t1);
          t3 = (if current_x t2 = word_of_nat TEXT_MODE_WIDTH then t2\<lparr>current_x := 0, current_y := current_y t2 + 1\<rparr> else t2)
      in cbind (if current_y t3 = word_of_nat TEXT_MODE_HEIGHT
                then text_scroll_screen (t3\<lparr>current_y := word_of_nat (TEXT_MODE_HEIGHT - 1), current_x := 0\<rparr>) 1
                else Inr t3) (\<lambda>t4.
         if c = 10 \<or> c = 13 then Inr t4
         else cbind (set_cell t4 (current_y t4 * word_of_nat TEXT_MODE_WIDTH + current_x t4) (make_char c color)) (\<lambda>t5.
              Inr (t5\<lparr>current_x := current_x t5 + 1\<rparr>))))"

definition text_print_char :: "text_mode \<Rightarrow> byte \<Rightarrow> fault + text_mode" where
  "text_print_char t c = text_print_char_color t c (current_fg t)"

text \<open>The loop asks for the length of the string in every round.\<close>

function text_print_loop :: "text_mode \<Rightarrow> byte list \<Rightarrow> TEXT_MODE_COLOR \<Rightarrow> nat \<Rightarrow> fault + text_mode" where
  "text_print_loop t str color idx =
     cbind (strlen str) (\<lambda>n. if idx < n
       then cbind (rd str idx) (\<lambda>c. cbind (text_print_char_color t c color) (\<lambda>t'. text_print_loop t' str color (Suc idx)))
       else Inr t)"
  by pat_completeness auto
termination
  by (relation "measure (\<lambda>(t, str, color, idx). length str - idx)") (auto simp: rd_eq_Inr)

declare text_print_loop.simps [simp del]

definition text_print_string_color :: "text_mode \<Rightarrow> byte list \<Rightarrow> TEXT_MODE_COLOR \<Rightarrow> fault + text_mode" where
  "text_print_string_color t str color = text_print_loop t str color 0"

definition text_print_string :: "text_mode \<Rightarrow> byte list \<Rightarrow> fault + text_mode" where
  "text_print_string t str = text_print_string_color t str (current_fg t)"

definition text_set_text_color :: "text_mode \<Rightarrow> TEXT_MODE_COLOR \<Rightarrow> text_mode" where
  "text_set_text_color t color = t\<lparr>current_fg := color\<rparr>"

definition text_set_cursor :: "text_mode \<Rightarrow> u32 \<Rightarrow> u32 \<Rightarrow> text_mode" where
  "text_set_cursor t x y = t\<lparr>current_x := x, current_y := y\<rparr>"

text \<open>The object at its creation.\<close>

definition TextModeGraphics :: "byte list \<Rightarrow> text_mode" where
  "TextModeGraphics m = \<lparr>video_mem = m, current_x = 0, current_y = 0, current_fg = WHITE\<rparr>"

section \<open>Paper\<close>

text \<open>What a terminal promises: the characters are laid out on an endless roll of lines of 80 cells; a line that is
  full is left only when the next character comes.  The lines that are finished, the line that is written on and the
  column in it.\<close>

record paper =
  finished :: "u16 list list"
  line :: "u16 list"
  column :: nat

definition blank_line :: "u16 list" where "blank_line = replicate 80 0"

definition clean_paper :: paper where "clean_paper = \<lparr>finished = [], line = blank_line, column = 0\<rparr>"

definition feed :: "paper \<Rightarrow> paper" where
  "feed p = \<lparr>finished = finished p @ [line p], line = blank_line, column = 0\<rparr>"

definition typeset :: "TEXT_MODE_COLOR \<Rightarrow> paper \<Rightarrow> byte \<Rightarrow> paper" where
  "typeset color p c =
     (if c = 10 then feed p else if c = 13 then p\<lparr>column := 0\<rparr>
      else let q = (if column p = 80 then feed p else p)
           in q\<lparr>line := (line q)[column q := make_char c color], column := column q + 1\<rparr>)"

text \<open>The last 25 lines, with blank lines below if there are fewer.\<close>

definition window :: "u16 list list \<Rightarrow> u16 list list" where
  "window ls = drop (length ls - 25) ls @ replicate (25 - length ls) blank_line"

definition cell_bytes :: "u16 list \<Rightarrow> byte list" where
  "cell_bytes ws = concat (map (\<lambda>w. [ucast w, ucast (drop_bit 8 w)]) ws)"

definition paper_wf :: "paper \<Rightarrow> bool" where
  "paper_wf p = ((\<forall>l\<in>set (finished p). length l = 80) \<and> length (line p) = 80 \<and> column p \<le> 80)"

definition shows_paper :: "text_mode \<Rightarrow> paper \<Rightarrow> bool" where
  "shows_paper t p = (paper_wf p \<and> video_mem t = cell_bytes (concat (window (finished p @ [line p])))
     \<and> unat (current_x t) = column p \<and> unat (current_y t) = min (length (finished p)) 24)"

lemma length_cell_bytes [simp]: "length (cell_bytes ws) = 2 * length ws"
  by (induction ws) (simp_all add: cell_bytes_def)

lemma cell_bytes_append: "cell_bytes (xs @ ys) = cell_bytes xs @ cell_bytes ys"
  by (simp add: cell_bytes_def)

lemma cell_bytes_update:
  "i < length ws \<Longrightarrow> (cell_bytes ws)[2 * i := ucast w, Suc (2 * i) := ucast (drop_bit 8 w)] = cell_bytes (ws[i := w])"
proof (induction ws arbitrary: i)
  case (Cons x ws)
  then show ?case by (cases i) (auto simp: cell_bytes_def)
qed simp

lemma cell_bytes_replicate: "cell_bytes (replicate n 0) = replicate (2 * n) 0"
  by (induction n) (simp_all add: cell_bytes_def)

lemma cell_bytes_drop: "drop (2 * n) (cell_bytes ws) = cell_bytes (drop n ws)"
proof (induction n arbitrary: ws)
  case (Suc n)
  then show ?case by (cases ws) (simp_all add: cell_bytes_def)
qed simp

lemma concat_update:
  assumes "\<forall>l\<in>set ls. length l = 80" and "y < length ls" and "x < 80"
  shows "(concat ls)[80 * y + x := w] = concat (ls[y := (ls ! y)[x := w]])"
  using assms
proof (induction ls arbitrary: y)
  case (Cons l ls)
  then show ?case by (cases y) (auto simp: list_update_append)
qed simp

lemma length_concat_80: "\<forall>l\<in>set ls. length l = 80 \<Longrightarrow> length (concat ls) = 80 * length ls"
  by (induction ls) simp_all

lemma length_blank [simp]: "length blank_line = 80"
  by (simp add: blank_line_def)

lemma window_length [simp]: "length (window ls) = 25"
  by (simp add: window_def)

lemma window_lines: "\<forall>l\<in>set ls. length l = 80 \<Longrightarrow> \<forall>l\<in>set (window ls). length l = 80"
  by (auto simp: window_def dest: in_set_dropD)

section \<open>The screen shows the paper\<close>

lemma set_cell_spec:
  assumes "video_mem t = cell_bytes cells" and "unat i < length cells"
  shows "set_cell t i w = Inr (t\<lparr>video_mem := cell_bytes (cells[unat i := w])\<rparr>)"
  using assms cell_bytes_update [OF assms(2), of w] by (simp add: set_cell_def)

lemma scroll_spec:
  assumes "video_mem t = cell_bytes (concat rows)" and "length rows = 25" and "\<forall>l\<in>set rows. length l = 80"
  shows "text_scroll_screen t 1 = Inr (t\<lparr>video_mem := cell_bytes (concat (List.tl rows @ [blank_line]))\<rparr>)"
proof -
  let ?m = "video_mem t" and ?X = "cell_bytes (concat (List.tl rows))"
  obtain r rs where r: "rows = r # rs" using assms(2) by (cases rows) auto
  have l: "length ?m = 4000" "length ?X = 3840"
    using assms length_concat_80 [of rows] length_concat_80 [of rs] r by auto
  have "drop 160 ?m = ?X" using cell_bytes_drop [of 80 "concat rows"] assms(1,3) r by simp
  then have "memcpy_within ?m 0 160 3840 = Inr (?X @ drop 3840 ?m)"
    using l memcpy_within_spec [of 0 160 3840 ?m] by (simp add: blit_def)
  moreover have "memset (?X @ drop 3840 ?m) 3840 0 160 = Inr (?X @ replicate 160 0)"
    using l memset_spec [of 3840 160 "?X @ drop 3840 ?m" 0] by (simp add: blit_def)
  moreover have "?X @ replicate 160 0 = cell_bytes (concat (List.tl rows @ [blank_line]))"
    by (simp add: cell_bytes_append blank_line_def cell_bytes_replicate)
  ultimately show ?thesis by (simp add: text_scroll_screen_def TEXT_MODE_WIDTH_def TEXT_MODE_HEIGHT_def)
qed

lemma paper_lines: "paper_wf p \<Longrightarrow> \<forall>l\<in>set (finished p @ [line p]). length l = 80"
  by (auto simp: paper_wf_def)

lemma window_feed_short: "length ls < 25 \<Longrightarrow> window (ls @ [blank_line]) = window ls"
  by (cases "25 - length ls") (auto simp: window_def)

lemma window_feed_long: "25 \<le> length ls \<Longrightarrow> window (ls @ [blank_line]) = List.tl (window ls) @ [blank_line]"
proof -
  assume l: "25 \<le> length ls"
  then have "length ls - 24 = Suc (length ls - 25)" by simp
  then have "drop (length ls - 24) ls = List.tl (drop (length ls - 25) ls)" by (simp add: drop_Suc tl_drop)
  then show ?thesis using l by (simp add: window_def)
qed

lemma window_last:
  "window (ls @ [l]) ! min (length ls) 24 = l" "(window (ls @ [l]))[min (length ls) 24 := m] = window (ls @ [m])"
proof -
  show "window (ls @ [l]) ! min (length ls) 24 = l"
    by (cases "length ls < 24") (auto simp: window_def nth_append min_def)
  show "(window (ls @ [l]))[min (length ls) 24 := m] = window (ls @ [m])"
    by (cases "length ls < 24") (auto simp: window_def list_update_append min_def)
qed

lemma unat_small_eq: "unat (y :: u32) = n \<Longrightarrow> k < 2 ^ 32 \<Longrightarrow> y = word_of_nat k \<longleftrightarrow> n = k"
  by (auto simp: unat_of_nat_small word_unat_eq_iff)

lemma feed_shows:
  assumes "shows_paper t p" and t3: "t3 = t\<lparr>current_y := current_y t + 1, current_x := 0\<rparr>"
  shows "\<exists>t'. (if current_y t3 = word_of_nat TEXT_MODE_HEIGHT
      then text_scroll_screen (t3\<lparr>current_y := word_of_nat (TEXT_MODE_HEIGHT - 1), current_x := 0\<rparr>) 1 else Inr t3) = Inr t'
    \<and> shows_paper t' (feed p) \<and> current_fg t' = current_fg t"
proof -
  let ?ls = "finished p @ [line p]"
  have s: "paper_wf p" "video_mem t = cell_bytes (concat (window ?ls))" "unat (current_y t) = min (length (finished p)) 24"
    using assms(1) by (simp_all add: shows_paper_def)
  have wf: "paper_wf (feed p)" using s(1) by (auto simp: paper_wf_def feed_def)
  have y: "unat (current_y t + 1) = min (length (finished p)) 24 + 1"
    using s(3) by (simp add: unat_word_ariths)
  have y25: "current_y t3 = word_of_nat TEXT_MODE_HEIGHT \<longleftrightarrow> 24 \<le> length (finished p)"
    using unat_small_eq [OF y, of 25] by (simp add: t3 TEXT_MODE_HEIGHT_def min_def)
  show ?thesis
  proof (cases "24 \<le> length (finished p)")
    case True
    have "text_scroll_screen (t3\<lparr>current_y := 24, current_x := 0\<rparr>) 1
        = Inr (t3\<lparr>current_y := 24, current_x := 0, video_mem := cell_bytes (concat (List.tl (window ?ls) @ [blank_line]))\<rparr>)"
      using scroll_spec [of "t3\<lparr>current_y := 24, current_x := 0\<rparr>" "window ?ls"] window_lines [OF paper_lines [OF s(1)]] s(2) t3 by simp
    moreover have "window (?ls @ [blank_line]) = List.tl (window ?ls) @ [blank_line]"
      using window_feed_long [of ?ls] True by simp
    ultimately show ?thesis using True y25 wf t3
      by (simp add: TEXT_MODE_HEIGHT_def shows_paper_def feed_def)
  next
    case False
    then have "window (?ls @ [blank_line]) = window ?ls" using window_feed_short [of ?ls] by simp
    then show ?thesis using False y25 wf t3 s y by (simp add: shows_paper_def feed_def)
  qed
qed

lemma type_shows:
  assumes "shows_paper t p" and "column p < 80"
  shows "\<exists>t'. set_cell t (current_y t * word_of_nat TEXT_MODE_WIDTH + current_x t) w = Inr t'
    \<and> shows_paper (t'\<lparr>current_x := current_x t' + 1\<rparr>) (p\<lparr>line := (line p)[column p := w], column := column p + 1\<rparr>)
    \<and> current_fg t' = current_fg t"
proof -
  let ?ls = "finished p @ [line p]" and ?y = "min (length (finished p)) 24" and ?l = "(line p)[column p := w]"
  have s: "paper_wf p" "video_mem t = cell_bytes (concat (window ?ls))" "unat (current_y t) = ?y" "unat (current_x t) = column p"
    using assms(1) by (simp_all add: shows_paper_def)
  have w: "\<forall>l\<in>set (window ?ls). length l = 80" by (rule window_lines [OF paper_lines [OF s(1)]])
  have i: "unat (current_y t * word_of_nat TEXT_MODE_WIDTH + current_x t) = 80 * ?y + column p"
    using s(3,4) assms(2) by (simp add: TEXT_MODE_WIDTH_def unat_word_ariths)
  have b: "80 * ?y + column p < length (concat (window ?ls))"
    using length_concat_80 [OF w] assms(2) by (simp add: min_def)
  have "(concat (window ?ls))[80 * ?y + column p := w] = concat ((window ?ls)[?y := (window ?ls ! ?y)[column p := w]])"
    by (rule concat_update [OF w]) (use assms(2) in simp_all)
  also have "\<dots> = concat (window (finished p @ [?l]))" by (simp only: window_last)
  finally have "set_cell t (current_y t * word_of_nat TEXT_MODE_WIDTH + current_x t) w
      = Inr (t\<lparr>video_mem := cell_bytes (concat (window (finished p @ [?l])))\<rparr>)"
    using set_cell_spec [OF s(2), of _ w] i b by simp
  moreover have "unat (current_x t + 1) = column p + 1" using s(4) assms(2) by (simp add: unat_word_ariths)
  ultimately show ?thesis using s(1,3) assms(2) by (simp add: shows_paper_def paper_wf_def)
qed

lemma print_char_shows:
  assumes "shows_paper t p"
  shows "\<exists>t'. text_print_char_color t c color = Inr t' \<and> shows_paper t' (typeset color p c) \<and> current_fg t' = current_fg t"
proof -
  have x: "unat (current_x t) = column p" "column p \<le> 80" "unat (current_y t) \<le> 24"
    using assms by (simp_all add: shows_paper_def paper_wf_def)
  have x80: "current_x t = word_of_nat TEXT_MODE_WIDTH \<longleftrightarrow> column p = 80"
    using unat_small_eq [OF x(1), of 80] by (simp add: TEXT_MODE_WIDTH_def)
  have y25: "current_y t \<noteq> word_of_nat TEXT_MODE_HEIGHT"
    using unat_small_eq [OF refl, of 25 "current_y t"] x(3) by (auto simp: TEXT_MODE_HEIGHT_def)
  have z: "(0 :: u32) \<noteq> word_of_nat TEXT_MODE_WIDTH" by (simp add: TEXT_MODE_WIDTH_def)
  let ?n = "t\<lparr>current_y := current_y t + 1, current_x := 0\<rparr>"
  obtain t' where t': "(if current_y ?n = word_of_nat TEXT_MODE_HEIGHT
      then text_scroll_screen (?n\<lparr>current_y := word_of_nat (TEXT_MODE_HEIGHT - 1), current_x := 0\<rparr>) 1 else Inr ?n) = Inr t'"
    "shows_paper t' (feed p)" "current_fg t' = current_fg t"
    using feed_shows [OF assms refl] by blast
  consider "c = 10" | "c = 13" | "c \<noteq> 10" "c \<noteq> 13" "column p = 80" | "c \<noteq> 10" "c \<noteq> 13" "column p < 80"
    using x(2) by linarith
  then show ?thesis
  proof cases
    case 1
    then show ?thesis using t' z by (simp add: text_print_char_color_def typeset_def)
  next
    case 2
    then have "text_print_char_color t c color = Inr (t\<lparr>current_x := 0\<rparr>)"
      using y25 z by (simp add: text_print_char_color_def)
    then show ?thesis using 2 assms by (simp add: typeset_def shows_paper_def paper_wf_def)
  next
    case 3
    have "column (feed p) < 80" by (simp add: feed_def)
    from type_shows [OF t'(2) this, of "make_char c color"] obtain u
      where u: "set_cell t' (current_y t' * word_of_nat TEXT_MODE_WIDTH + current_x t') (make_char c color) = Inr u"
        "shows_paper (u\<lparr>current_x := current_x u + 1\<rparr>) (typeset color p c)" "current_fg u = current_fg t'"
      using 3 by (auto simp: typeset_def Let_def)
    have n: "(if current_x t = word_of_nat TEXT_MODE_WIDTH then t\<lparr>current_x := 0, current_y := current_y t + 1\<rparr> else t) = ?n"
      using x80 3(3) by simp
    have "text_print_char_color t c color = Inr (u\<lparr>current_x := current_x u + 1\<rparr>)"
      unfolding text_print_char_color_def Let_def using 3(1,2) n t'(1) u(1) by (simp only: if_False cbind_simps simp_thms)
    then show ?thesis using u t'(3) by simp
  next
    case 4
    from type_shows [OF assms 4(3), of "make_char c color"] obtain u
      where u: "set_cell t (current_y t * word_of_nat TEXT_MODE_WIDTH + current_x t) (make_char c color) = Inr u"
        "shows_paper (u\<lparr>current_x := current_x u + 1\<rparr>) (typeset color p c)" "current_fg u = current_fg t"
      using 4 by (auto simp: typeset_def Let_def)
    have "text_print_char_color t c color = Inr (u\<lparr>current_x := current_x u + 1\<rparr>)"
      unfolding text_print_char_color_def Let_def using 4 x80 y25 u(1) by simp
    then show ?thesis using u by simp
  qed
qed

lemma print_loop_shows:
  assumes "shows_paper t p" and "has_nul str" and "i \<le> length (cstr str)"
  shows "\<exists>t'. text_print_loop t str color i = Inr t' \<and> shows_paper t' (foldl (typeset color) p (drop i (cstr str)))
    \<and> current_fg t' = current_fg t"
  using assms
proof (induction "length (cstr str) - i" arbitrary: t p i)
  case 0
  then show ?case by (subst text_print_loop.simps) (auto simp: strlen_spec)
next
  case (Suc k)
  then have i: "i < length (cstr str)" "i < length str" using cstr_length_le [of str] by auto
  obtain t1 where t1: "text_print_char_color t (str ! i) color = Inr t1" "shows_paper t1 (typeset color p (str ! i))"
    "current_fg t1 = current_fg t"
    using print_char_shows [OF Suc.prems(1)] by blast
  have d: "drop i (cstr str) = str ! i # drop (Suc i) (cstr str)"
    using i by (simp add: Cons_nth_drop_Suc [symmetric] cstr_nth)
  have k: "k = length (cstr str) - Suc i" "Suc i \<le> length (cstr str)" using Suc.hyps(2) i by linarith+
  obtain t' where t': "text_print_loop t1 str color (Suc i) = Inr t'"
    "shows_paper t' (foldl (typeset color) (typeset color p (str ! i)) (drop (Suc i) (cstr str)))" "current_fg t' = current_fg t1"
    using Suc.hyps(1) [OF k(1) t1(2) Suc.prems(2) k(2)] by blast
  have "text_print_loop t str color i = Inr t'"
    using t1(1) t'(1) i Suc.prems(2) by (subst text_print_loop.simps) (simp add: strlen_spec)
  then show ?case using t'(2,3) t1(3) d by simp
qed

lemma blank_window: "cell_bytes (concat (window [blank_line])) = replicate 4000 0"
proof -
  have "window [blank_line] = replicate 25 blank_line" by (simp add: window_def eval_nat_numeral)
  moreover have "concat (replicate n blank_line) = replicate (80 * n) 0" for n
    by (induction n) (simp_all add: blank_line_def flip: replicate_add)
  ultimately show ?thesis by (simp add: cell_bytes_replicate)
qed

lemma clear_shows:
  assumes "length (video_mem t) = 4000"
  shows "\<exists>t'. text_clear_screen t = Inr t' \<and> shows_paper t' clean_paper \<and> current_fg t' = current_fg t"
  using memset_full [of "video_mem t" 0] assms blank_window
  by (simp add: text_clear_screen_def TEXT_MODE_WIDTH_def TEXT_MODE_HEIGHT_def shows_paper_def clean_paper_def paper_wf_def)

text \<open>C16: The screen is a terminal: whatever is printed after it was cleared, in any colors and however often it
  scrolls, it shows the last 25 lines of the text laid out on lines of 80 cells, and the cursor is at the end of it.\<close>

theorem text_screen_refines:
  assumes "length (video_mem t) = 4000" and "has_nul s1" and "has_nul s2"
  shows "\<exists>t0 t1 t2. text_clear_screen t = Inr t0 \<and> text_print_string_color t0 s1 color1 = Inr t1
    \<and> text_print_string_color t1 s2 color2 = Inr t2
    \<and> (let p = foldl (typeset color2) (foldl (typeset color1) clean_paper (cstr s1)) (cstr s2)
       in video_mem t2 = cell_bytes (concat (window (finished p @ [line p])))
        \<and> unat (current_x t2) = column p \<and> unat (current_y t2) = min (length (finished p)) 24)"
proof -
  obtain t0 where t0: "text_clear_screen t = Inr t0" "shows_paper t0 clean_paper" using clear_shows [OF assms(1)] by blast
  obtain t1 where t1: "text_print_string_color t0 s1 color1 = Inr t1" "shows_paper t1 (foldl (typeset color1) clean_paper (cstr s1))"
    using print_loop_shows [OF t0(2) assms(2), of 0 color1] by (auto simp: text_print_string_color_def)
  obtain t2 where "text_print_string_color t1 s2 color2 = Inr t2"
    "shows_paper t2 (foldl (typeset color2) (foldl (typeset color1) clean_paper (cstr s1)) (cstr s2))"
    using print_loop_shows [OF t1(2) assms(3), of 0 color2] by (auto simp: text_print_string_color_def)
  then show ?thesis using t0(1) t1(1) unfolding shows_paper_def Let_def by blast
qed

theorem text_screen_refines_witness:
  "\<exists>t0 t1 t2. text_clear_screen (TextModeGraphics (replicate 4000 7)) = Inr t0
    \<and> text_print_string_color t0 [72, 105, 10, 0] GREY = Inr t1 \<and> text_print_string_color t1 [33, 0] LIGHT_RED = Inr t2
    \<and> take 4 (video_mem t2) = [72, 7, 105, 7] \<and> unat (current_x t2) = 1 \<and> unat (current_y t2) = 1"
proof -
  have h: "has_nul [72, 105, 10, 0]" "has_nul [33, 0]" by (simp_all add: has_nul_def)
  have c: "cstr [72, 105, 10, 0] = [72, 105, 10]" "cstr [33, 0] = [33]" by (simp_all add: cstr_def)
  obtain t0 t1 t2 where t: "text_clear_screen (TextModeGraphics (replicate 4000 7)) = Inr t0"
    "text_print_string_color t0 [72, 105, 10, 0] GREY = Inr t1" "text_print_string_color t1 [33, 0] LIGHT_RED = Inr t2"
    "let p = foldl (typeset LIGHT_RED) (foldl (typeset GREY) clean_paper [72, 105, 10]) [33]
       in video_mem t2 = cell_bytes (concat (window (finished p @ [line p])))
        \<and> unat (current_x t2) = column p \<and> unat (current_y t2) = min (length (finished p)) 24"
    using text_screen_refines [OF _ h, of "TextModeGraphics (replicate 4000 7)" GREY LIGHT_RED] c
    by (auto simp: TextModeGraphics_def)
  have b: "blank_line = 0 # 0 # replicate 78 0" by (simp add: blank_line_def numeral_eq_Suc)
  have "take 4 (video_mem t2) = [72, 7, 105, 7]" "unat (current_x t2) = 1" "unat (current_y t2) = 1"
    using t(4) by (simp_all add: typeset_def feed_def clean_paper_def Let_def window_def cell_bytes_def make_char_def b)
  then show ?thesis using t(1-3) by blast
qed

end
