(* ===== verification/Canvas.thy ===== *)
theory Canvas
  imports TextMode Interrupts Drivers UString
begin

text \<open>
  The graphics drivers: \<^verbatim>\<open>src/src/kernel/drivers/graphics/vbe/vbe_graphics.cpp\<close> and the library that programs draw with,
  \<^verbatim>\<open>src/src/userland/stdlib/graphics/framebuffer.cpp\<close>.  The two are one program with a different scale and different
  cases for the fourth byte of a pixel; what they share is defined once, over the operation that stores a pixel.
\<close>

section \<open>The font\<close>

text \<open>The glyphs of the characters 0x20 to 0x7E, a byte for every row, the leftmost pixel in the highest bit.  The kernel
  and the library have the same table; the rest of its 128 entries is zero.\<close>

definition font_glyphs :: "byte list list" where
  "font_glyphs = [
     [0, 0, 0, 0, 0, 0, 0, 0],
     [0, 0, 32, 32, 32, 32, 0, 32],
     [0, 0, 80, 80, 0, 0, 0, 0],
     [0, 48, 80, 248, 80, 248, 96, 160],
     [0, 0, 32, 248, 160, 112, 40, 248],
     [0, 0, 224, 160, 240, 120, 40, 56],
     [0, 0, 56, 32, 48, 88, 80, 56],
     [0, 0, 32, 32, 0, 0, 0, 0],
     [0, 16, 32, 32, 32, 32, 32, 16],
     [0, 64, 32, 32, 32, 32, 32, 64],
     [0, 0, 168, 112, 112, 168, 0, 0],
     [0, 0, 0, 32, 32, 248, 32, 32],
     [0, 0, 0, 0, 0, 0, 0, 32],
     [0, 0, 0, 0, 0, 96, 0, 0],
     [0, 0, 0, 0, 0, 0, 0, 32],
     [0, 0, 16, 32, 32, 96, 64, 64],
     [0, 0, 48, 72, 104, 72, 72, 48],
     [0, 0, 96, 32, 32, 32, 32, 112],
     [0, 0, 112, 8, 8, 16, 32, 120],
     [0, 0, 112, 8, 8, 48, 8, 120],
     [0, 0, 16, 48, 48, 80, 120, 16],
     [0, 0, 120, 64, 112, 8, 8, 112],
     [0, 0, 56, 96, 64, 120, 72, 56],
     [0, 0, 120, 8, 16, 16, 16, 32],
     [0, 0, 48, 72, 72, 48, 72, 120],
     [0, 0, 112, 72, 120, 8, 24, 112],
     [0, 0, 0, 0, 32, 0, 0, 32],
     [0, 0, 0, 0, 32, 0, 0, 32],
     [0, 0, 0, 0, 8, 112, 96, 24],
     [0, 0, 0, 0, 240, 0, 240, 0],
     [0, 0, 0, 0, 64, 56, 24, 96],
     [0, 0, 112, 48, 32, 32, 0, 32],
     [0, 0, 0, 48, 72, 88, 88, 64],
     [0, 0, 48, 48, 48, 48, 120, 72],
     [0, 0, 112, 72, 72, 112, 72, 120],
     [0, 0, 56, 64, 64, 64, 64, 56],
     [0, 0, 112, 72, 72, 72, 72, 112],
     [0, 0, 120, 64, 64, 120, 64, 120],
     [0, 0, 120, 64, 64, 120, 64, 64],
     [0, 0, 56, 64, 64, 88, 72, 56],
     [0, 0, 72, 72, 72, 120, 72, 72],
     [0, 0, 112, 32, 32, 32, 32, 112],
     [0, 0, 48, 16, 16, 16, 16, 112],
     [0, 0, 72, 80, 96, 80, 80, 72],
     [0, 0, 64, 64, 64, 64, 64, 120],
     [0, 0, 72, 120, 120, 120, 72, 72],
     [0, 0, 72, 104, 104, 88, 88, 72],
     [0, 0, 48, 72, 72, 72, 72, 48],
     [0, 0, 120, 72, 120, 64, 64, 64],
     [0, 0, 48, 72, 72, 72, 72, 48],
     [0, 0, 120, 72, 112, 88, 72, 68],
     [0, 0, 56, 64, 112, 24, 8, 120],
     [0, 0, 248, 32, 32, 32, 32, 32],
     [0, 0, 72, 72, 72, 72, 72, 48],
     [0, 0, 72, 72, 48, 48, 48, 48],
     [0, 0, 136, 136, 168, 80, 80, 80],
     [0, 0, 72, 48, 48, 48, 48, 72],
     [0, 0, 136, 80, 32, 32, 32, 32],
     [0, 0, 120, 16, 16, 32, 32, 120],
     [0, 48, 32, 32, 32, 32, 32, 48],
     [0, 0, 128, 64, 64, 96, 32, 32],
     [0, 96, 32, 32, 32, 32, 32, 96],
     [0, 0, 96, 144, 0, 0, 0, 0],
     [0, 0, 0, 0, 0, 0, 0, 0],
     [0, 0, 64, 0, 0, 0, 0, 0],
     [0, 0, 0, 0, 120, 120, 72, 120],
     [0, 64, 64, 64, 112, 72, 72, 112],
     [0, 0, 0, 0, 48, 64, 64, 48],
     [0, 8, 8, 8, 56, 72, 72, 56],
     [0, 0, 0, 0, 56, 120, 64, 56],
     [0, 24, 32, 32, 120, 32, 32, 32],
     [0, 0, 0, 0, 56, 72, 72, 56],
     [0, 64, 64, 64, 120, 72, 72, 72],
     [0, 32, 0, 0, 96, 32, 32, 112],
     [0, 32, 0, 0, 96, 32, 32, 32],
     [0, 64, 64, 64, 88, 112, 112, 88],
     [0, 96, 32, 32, 32, 32, 32, 56],
     [0, 0, 0, 0, 124, 84, 84, 84],
     [0, 0, 0, 0, 120, 72, 72, 72],
     [0, 0, 0, 0, 48, 72, 72, 48],
     [0, 0, 0, 0, 112, 72, 72, 112],
     [0, 0, 0, 0, 56, 72, 72, 56],
     [0, 0, 0, 0, 112, 64, 64, 64],
     [0, 0, 0, 0, 120, 112, 8, 120],
     [0, 0, 0, 32, 120, 32, 32, 56],
     [0, 0, 0, 0, 72, 72, 72, 120],
     [0, 0, 0, 0, 72, 48, 48, 48],
     [0, 0, 0, 0, 136, 168, 112, 80],
     [0, 0, 0, 0, 120, 48, 48, 120],
     [0, 0, 0, 0, 72, 48, 48, 32],
     [0, 0, 0, 0, 120, 48, 32, 120],
     [0, 48, 32, 32, 64, 32, 32, 48],
     [0, 32, 32, 32, 32, 32, 32, 32],
     [0, 96, 32, 32, 16, 32, 32, 96],
     [0, 0, 0, 0, 0, 120, 0, 0]]"

definition font :: "byte list list" where
  "font = font_glyphs @ replicate 33 (replicate 8 0)"

section \<open>Pixels\<close>

text \<open>The framebuffer is an object of its own.\<close>

record canvas =
  FRAMEBUFFER :: "byte list"
  WIDTH :: u32
  HEIGHT :: u32
  BPP :: u32
  PITCH :: u32
  cursor_x :: u32
  cursor_y :: u32

fun store_bytes :: "byte list \<Rightarrow> u32 \<Rightarrow> byte list \<Rightarrow> fault + byte list" where
  "store_bytes fb off [] = Inr fb"
| "store_bytes fb off (b # bs) = cbind (wr fb (unat off) b) (\<lambda>fb'. store_bytes fb' (off + 1) bs)"

definition color_bytes :: "nat \<Rightarrow> u32 \<Rightarrow> byte list" where
  "color_bytes n color = map (\<lambda>k. ucast (drop_bit (8 * k) color)) [0..<n]"

definition paint :: "'a canvas_scheme \<Rightarrow> u32 \<Rightarrow> byte list \<Rightarrow> fault + 'a canvas_scheme" where
  "paint c off bs = cbind (store_bytes (FRAMEBUFFER c) off bs) (\<lambda>fb. Inr (c\<lparr>FRAMEBUFFER := fb\<rparr>))"

text \<open>The kernel stores the fourth byte for 24 bits and not for 32, the library the other way round.\<close>

definition vbe_draw_pixel :: "'a canvas_scheme \<Rightarrow> u32 \<Rightarrow> u32 \<Rightarrow> u32 \<Rightarrow> fault + 'a canvas_scheme" where
  "vbe_draw_pixel c x y color =
     (if WIDTH c \<le> x \<or> HEIGHT c \<le> y then Inr c
      else let off = y * PITCH c + x * (BPP c div 8)
           in if BPP c = 32 then paint c off (color_bytes 3 color)
              else if BPP c = 24 then paint c off (color_bytes 4 color) else Inr c)"

definition fb_draw_pixel :: "'a canvas_scheme \<Rightarrow> u32 \<Rightarrow> u32 \<Rightarrow> u32 \<Rightarrow> fault + 'a canvas_scheme" where
  "fb_draw_pixel c x y color =
     (if WIDTH c \<le> x \<or> HEIGHT c \<le> y then Inr c
      else let off = y * PITCH c + x * BPP c div 8
           in if BPP c = 32 then paint c off (color_bytes 4 color)
              else if BPP c = 24 then paint c off (color_bytes 3 color) else Inr c)"

fun load_bytes :: "byte list \<Rightarrow> u32 \<Rightarrow> nat \<Rightarrow> nat \<Rightarrow> fault + u32" where
  "load_bytes fb off k 0 = Inr 0"
| "load_bytes fb off k (Suc n) = cbind (rd fb (unat (off + word_of_nat k))) (\<lambda>b.
     cbind (load_bytes fb off (Suc k) n) (\<lambda>p. Inr (push_bit (8 * k) (ucast b) OR p)))"

definition fb_get_pixel :: "'a canvas_scheme \<Rightarrow> u32 \<Rightarrow> u32 \<Rightarrow> fault + u32" where
  "fb_get_pixel c x y =
     (if WIDTH c \<le> x \<or> HEIGHT c \<le> y then Inr 0
      else let off = y * PITCH c + x * BPP c div 8
           in if BPP c = 32 then load_bytes (FRAMEBUFFER c) off 0 4
              else if BPP c = 24 then load_bytes (FRAMEBUFFER c) off 0 3 else Inr 0)"

section \<open>Text\<close>

text \<open>What the drivers share: they differ in how a pixel is stored and in the scale of the font.\<close>

type_synonym 'c plotter = "'c \<Rightarrow> u32 \<Rightarrow> u32 \<Rightarrow> u32 \<Rightarrow> fault + 'c"

fun draw_pixels :: "'c plotter \<Rightarrow> 'c \<Rightarrow> (u32 \<times> u32) list \<Rightarrow> u32 \<Rightarrow> fault + 'c" where
  "draw_pixels plot c [] color = Inr c"
| "draw_pixels plot c ((x, y) # ps) color = cbind (plot c x y color) (\<lambda>c'. draw_pixels plot c' ps color)"

text \<open>A \<open>char\<close> is signed: below 0x20 and above 0x7F the index is negative.\<close>

definition glyph :: "byte \<Rightarrow> fault + byte list" where
  "glyph c = (let i = sint c - 0x20 in if i < 0 then Inl Bad_Read else rd font (nat i))"

text \<open>The pixels of a glyph in the order of the four loops.\<close>

definition glyph_pixels :: "nat \<Rightarrow> u32 \<Rightarrow> u32 \<Rightarrow> byte list \<Rightarrow> (u32 \<times> u32) list" where
  "glyph_pixels scale x y rows =
     [(x + word_of_nat (scale * col + xS), y + word_of_nat (scale * row + yS)).
        row \<leftarrow> [0..<8], col \<leftarrow> [0..<8], bit (rows ! row) (7 - col), xS \<leftarrow> [0..<scale], yS \<leftarrow> [0..<scale]]"

definition draw_glyph :: "'c plotter \<Rightarrow> nat \<Rightarrow> 'c \<Rightarrow> u32 \<Rightarrow> u32 \<Rightarrow> byte \<Rightarrow> u32 \<Rightarrow> fault + 'c" where
  "draw_glyph plot scale c x y ch color =
     cbind (glyph ch) (\<lambda>rows. draw_pixels plot c (glyph_pixels scale x y rows) color)"

fun draw_text :: "'c plotter \<Rightarrow> nat \<Rightarrow> 'c \<Rightarrow> u32 \<Rightarrow> u32 \<Rightarrow> byte list \<Rightarrow> u32 \<Rightarrow> fault + 'c" where
  "draw_text plot scale c x y [] color = Inl Bad_Read"
| "draw_text plot scale c x y (ch # str) color =
     (if ch = 0 then Inr c
      else cbind (draw_glyph plot scale c x y ch color) (\<lambda>c'. draw_text plot scale c' (x + 8 * word_of_nat scale) y str color))"

definition scroll_canvas :: "nat \<Rightarrow> 'a canvas_scheme \<Rightarrow> u32 \<Rightarrow> fault + 'a canvas_scheme" where
  "scroll_canvas scale c amount =
     (let rows = amount * (8 * word_of_nat scale); kept = PITCH c * (HEIGHT c - rows)
      in cbind (memcpy_within (FRAMEBUFFER c) 0 (unat (PITCH c * rows)) (unat kept)) (\<lambda>fb.
         cbind (memset fb (unat kept) 0 (unat (PITCH c * rows))) (\<lambda>fb'. Inr (c\<lparr>FRAMEBUFFER := fb'\<rparr>))))"

definition print_on :: "'a canvas_scheme plotter \<Rightarrow> nat \<Rightarrow> 'a canvas_scheme \<Rightarrow> byte \<Rightarrow> u32 \<Rightarrow> fault + 'a canvas_scheme" where
  "print_on plot scale c ch color =
     (let cell = 8 * word_of_nat scale;
          c1 = (if ch = 13 then c\<lparr>cursor_x := 0\<rparr> else if ch = 10 then c\<lparr>cursor_y := cursor_y c + 1, cursor_x := 0\<rparr> else c);
          c2 = (if WIDTH c1 div cell \<le> cursor_x c1 then c1\<lparr>cursor_x := 0, cursor_y := cursor_y c1 + 1\<rparr> else c1)
      in cbind (if HEIGHT c2 div cell \<le> cursor_y c2
                then scroll_canvas scale (c2\<lparr>cursor_y := HEIGHT c2 div cell - 1, cursor_x := 0\<rparr>) 1 else Inr c2) (\<lambda>c3.
         if ch = 10 \<or> ch = 13 then Inr c3
         else cbind (draw_glyph plot scale c3 (cursor_x c3 * 8 * word_of_nat scale) (cursor_y c3 * 8 * word_of_nat scale) ch color)
                (\<lambda>c4. Inr (c4\<lparr>cursor_x := cursor_x c4 + 1\<rparr>))))"

fun print_text_on :: "'a canvas_scheme plotter \<Rightarrow> nat \<Rightarrow> 'a canvas_scheme \<Rightarrow> byte list \<Rightarrow> u32 \<Rightarrow> fault + 'a canvas_scheme" where
  "print_text_on plot scale c [] color = Inl Bad_Read"
| "print_text_on plot scale c (ch # str) color =
     (if ch = 0 then Inr c else cbind (print_on plot scale c ch color) (\<lambda>c'. print_text_on plot scale c' str color))"

definition all_pixels :: "'a canvas_scheme \<Rightarrow> (u32 \<times> u32) list" where
  "all_pixels c = [(word_of_nat x, word_of_nat y). x \<leftarrow> [0..<unat (WIDTH c)], y \<leftarrow> [0..<unat (HEIGHT c)]]"

section \<open>The driver of the kernel\<close>

record vbe = canvas +
  current_color :: TEXT_MODE_COLOR
  m_setup :: bool

primrec get_rrggbb_color :: "TEXT_MODE_COLOR \<Rightarrow> u32" where
  "get_rrggbb_color BLACK = 0x000000" | "get_rrggbb_color BLUE = 0x0000AA" | "get_rrggbb_color GREEN = 0x00AA00"
| "get_rrggbb_color CYAN = 0x00AAAA" | "get_rrggbb_color RED = 0xAA0000" | "get_rrggbb_color PURPLE = 0xAA00AA"
| "get_rrggbb_color BROWN = 0xAA5500" | "get_rrggbb_color GREY = 0xAAAAAA" | "get_rrggbb_color DARK_GREY = 0x555555"
| "get_rrggbb_color LIGHT_BLUE = 0x5555FF" | "get_rrggbb_color LIGHT_GREEN = 0x55FF55"
| "get_rrggbb_color LIGHT_CYAN = 0x55FFFF" | "get_rrggbb_color LIGHT_RED = 0xFF5555"
| "get_rrggbb_color LIGHT_PURPLE = 0xFF55FF" | "get_rrggbb_color YELLOW = 0xFFFF55" | "get_rrggbb_color WHITE = 0xFFFFFF"

definition vbe_draw_char :: "vbe \<Rightarrow> u32 \<Rightarrow> u32 \<Rightarrow> byte \<Rightarrow> u32 \<Rightarrow> fault + vbe" where
  "vbe_draw_char = draw_glyph vbe_draw_pixel 1"

definition vbe_draw_string :: "vbe \<Rightarrow> u32 \<Rightarrow> u32 \<Rightarrow> byte list \<Rightarrow> u32 \<Rightarrow> fault + vbe" where
  "vbe_draw_string = draw_text vbe_draw_pixel 1"

definition vbe_scroll_screen :: "vbe \<Rightarrow> u32 \<Rightarrow> fault + vbe" where
  "vbe_scroll_screen = scroll_canvas 1"

definition vbe_print_char_color :: "vbe \<Rightarrow> byte \<Rightarrow> TEXT_MODE_COLOR \<Rightarrow> fault + vbe" where
  "vbe_print_char_color c ch color = print_on vbe_draw_pixel 1 c ch (get_rrggbb_color color)"

definition vbe_print_char :: "vbe \<Rightarrow> byte \<Rightarrow> fault + vbe" where
  "vbe_print_char c ch = vbe_print_char_color c ch (current_color c)"

definition vbe_print_string_color :: "vbe \<Rightarrow> byte list \<Rightarrow> TEXT_MODE_COLOR \<Rightarrow> fault + vbe" where
  "vbe_print_string_color c str color = print_text_on vbe_draw_pixel 1 c str (get_rrggbb_color color)"

definition vbe_print_string :: "vbe \<Rightarrow> byte list \<Rightarrow> fault + vbe" where
  "vbe_print_string c str = vbe_print_string_color c str (current_color c)"

definition vbe_set_text_color :: "vbe \<Rightarrow> TEXT_MODE_COLOR \<Rightarrow> vbe" where
  "vbe_set_text_color c color = c\<lparr>current_color := color\<rparr>"

definition vbe_set_cursor :: "vbe \<Rightarrow> u32 \<Rightarrow> u32 \<Rightarrow> vbe" where
  "vbe_set_cursor c x y = c\<lparr>cursor_x := x, cursor_y := y\<rparr>"

definition vbe_clear_screen :: "vbe \<Rightarrow> fault + vbe" where
  "vbe_clear_screen c = draw_pixels vbe_draw_pixel c (all_pixels c) 0"

definition get_framebuffer_size :: "'a canvas_scheme \<Rightarrow> u32" where
  "get_framebuffer_size c = PITCH c * HEIGHT c"

definition vbe_setup :: "'d ports \<Rightarrow> vbe \<Rightarrow> byte list \<Rightarrow> u32 \<Rightarrow> u32 \<Rightarrow> u32 \<Rightarrow> 'd \<Rightarrow> fault + (vbe \<times> 'd)" where
  "vbe_setup io c framebuffer bpp width height d =
     cbind (kprintf_serial io (\<lambda>_. []) (chars ''VBEGraphics set up: %dx%dx%d'' @ [13, 10, 0]) [width, height, bpp] d) (\<lambda>d'.
       Inr (c\<lparr>FRAMEBUFFER := framebuffer, BPP := bpp, WIDTH := width, HEIGHT := height, PITCH := width * bpp div 8,
              m_setup := True\<rparr>, d'))"

text \<open>\<open>0:/fb\<close>, a memory file of the framebuffer at \<open>a\<close>; the file keeps the bytes by value.\<close>

definition mount_fb :: "vbe \<Rightarrow> u32 \<Rightarrow> 'a driver_state_scheme vfs \<Rightarrow> fault + 'a driver_state_scheme vfs" where
  "mount_fb c a v =
     (if a = 0 then Inl Null_Deref
      else mount (v\<lparr>drivers := put_memory a (drivers v) (MemoryFS (FRAMEBUFFER c) (get_framebuffer_size c))\<rparr>)
             (lit ''0:/fb'') memory_filesystem a)"

section \<open>The library of the programs\<close>

record framebuffer_graphics = canvas +
  text_color :: u32

definition fb_draw_char :: "framebuffer_graphics \<Rightarrow> u32 \<Rightarrow> u32 \<Rightarrow> byte \<Rightarrow> u32 \<Rightarrow> fault + framebuffer_graphics" where
  "fb_draw_char = draw_glyph fb_draw_pixel 2"

definition fb_draw_string :: "framebuffer_graphics \<Rightarrow> u32 \<Rightarrow> u32 \<Rightarrow> byte list \<Rightarrow> u32 \<Rightarrow> fault + framebuffer_graphics" where
  "fb_draw_string = draw_text fb_draw_pixel 2"

definition fb_scroll_screen :: "framebuffer_graphics \<Rightarrow> u32 \<Rightarrow> fault + framebuffer_graphics" where
  "fb_scroll_screen = scroll_canvas 2"

definition fb_print_char_color :: "framebuffer_graphics \<Rightarrow> byte \<Rightarrow> u32 \<Rightarrow> fault + framebuffer_graphics" where
  "fb_print_char_color = print_on fb_draw_pixel 2"

definition fb_print_char :: "framebuffer_graphics \<Rightarrow> byte \<Rightarrow> fault + framebuffer_graphics" where
  "fb_print_char c ch = fb_print_char_color c ch (text_color c)"

definition fb_print_string_color :: "framebuffer_graphics \<Rightarrow> byte list \<Rightarrow> u32 \<Rightarrow> fault + framebuffer_graphics" where
  "fb_print_string_color = print_text_on fb_draw_pixel 2"

definition fb_print_string :: "framebuffer_graphics \<Rightarrow> byte list \<Rightarrow> fault + framebuffer_graphics" where
  "fb_print_string c str = fb_print_string_color c str (text_color c)"

definition fb_set_text_color :: "framebuffer_graphics \<Rightarrow> u32 \<Rightarrow> framebuffer_graphics" where
  "fb_set_text_color c color = c\<lparr>text_color := color\<rparr>"

definition fb_set_cursor :: "framebuffer_graphics \<Rightarrow> u32 \<Rightarrow> u32 \<Rightarrow> framebuffer_graphics" where
  "fb_set_cursor c x y = c\<lparr>cursor_x := x, cursor_y := y\<rparr>"

definition fb_clear_screen :: "framebuffer_graphics \<Rightarrow> fault + framebuffer_graphics" where
  "fb_clear_screen c = cbind (draw_pixels fb_draw_pixel c (all_pixels c) 0) (\<lambda>c'.
     Inr (c'\<lparr>cursor_x := 0, cursor_y := 0, text_color := 0xAAAAAA\<rparr>))"

definition get_buffer_size :: "'a canvas_scheme \<Rightarrow> u32" where
  "get_buffer_size c = WIDTH c * BPP c div 8 * HEIGHT c"

definition get_offset :: "'a canvas_scheme \<Rightarrow> u32 \<Rightarrow> u32 \<Rightarrow> u32" where
  "get_offset c x y = PITCH c * y + x * BPP c div 8"

text \<open>The two constructors; the memory that \<open>malloc\<close> or the system call gives is an argument.\<close>

definition FramebufferGraphics :: "byte list \<Rightarrow> u32 \<Rightarrow> u32 \<Rightarrow> u32 \<Rightarrow> fault + framebuffer_graphics" where
  "FramebufferGraphics fb w h bpp = fb_clear_screen \<lparr>FRAMEBUFFER = fb, WIDTH = w, HEIGHT = h, BPP = bpp, PITCH = w * bpp div 8,
     cursor_x = 0, cursor_y = 0, text_color = 0xAAAAAA\<rparr>"

definition u_printf :: "(u32 \<Rightarrow> byte list) \<Rightarrow> framebuffer_graphics \<Rightarrow> byte list \<Rightarrow> byte list \<Rightarrow> byte list \<Rightarrow> u32 list
    \<Rightarrow> fault + framebuffer_graphics" where
  "u_printf strs c internal_buf stack fmt as =
     cbind (u_memset internal_buf 0 0 1024) (\<lambda>b. cbind (u_vsprintf strs b 0 stack fmt as) (\<lambda>b'. fb_print_string c b'))"

definition u_debug_printf :: "(u32 \<Rightarrow> byte list) \<Rightarrow> byte list \<Rightarrow> byte list \<Rightarrow> byte list \<Rightarrow> u32 list \<Rightarrow> fault + byte list" where
  "u_debug_printf strs internal_buf stack fmt as =
     cbind (u_memset internal_buf 0 0 1024) (\<lambda>b. u_vsprintf strs b 0 stack fmt as)"

definition u_puts :: "framebuffer_graphics \<Rightarrow> byte list \<Rightarrow> fault + framebuffer_graphics" where
  "u_puts c str = fb_print_string c str"

definition u_putc :: "framebuffer_graphics \<Rightarrow> byte \<Rightarrow> fault + framebuffer_graphics" where
  "u_putc c ch = fb_print_char c ch"

section \<open>Where the pixels are\<close>

definition pixel_size :: "'a canvas_scheme \<Rightarrow> nat" where
  "pixel_size c = unat (BPP c) div 8"

definition pixel_pos :: "'a canvas_scheme \<Rightarrow> u32 \<Rightarrow> u32 \<Rightarrow> nat" where
  "pixel_pos c x y = unat y * unat (PITCH c) + unat x * pixel_size c"

text \<open>A screen as the drivers set it up, in memory that is large enough for it.\<close>

definition canvas_wf :: "'a canvas_scheme \<Rightarrow> bool" where
  "canvas_wf c = ((BPP c = 24 \<or> BPP c = 32) \<and> PITCH c = WIDTH c * BPP c div 8 \<and> unat (WIDTH c) * 32 < 2 ^ 32
     \<and> unat (PITCH c) * unat (HEIGHT c) \<le> length (FRAMEBUFFER c) \<and> unat (PITCH c) * unat (HEIGHT c) < 2 ^ 32)"

lemma canvas_wf_FRAMEBUFFER: "length fb = length (FRAMEBUFFER c) \<Longrightarrow> canvas_wf (c\<lparr>FRAMEBUFFER := fb\<rparr>) = canvas_wf c"
  by (simp add: canvas_wf_def)

lemma canvas_room:
  assumes "canvas_wf c"
  shows "unat (PITCH c) * unat (HEIGHT c) < 2 ^ 32" "unat (PITCH c) * unat (HEIGHT c) \<le> length (FRAMEBUFFER c)"
  using assms unfolding canvas_wf_def by blast+

lemma canvas_sizes:
  assumes "canvas_wf c"
  shows "pixel_size c = (if BPP c = 32 then 4 else 3)" "unat (BPP c) = 8 * pixel_size c"
    "unat (PITCH c) = unat (WIDTH c) * pixel_size c"
proof -
  show s: "pixel_size c = (if BPP c = 32 then 4 else 3)" and b: "unat (BPP c) = 8 * pixel_size c"
    using assms by (auto simp: canvas_wf_def pixel_size_def)
  have "unat (WIDTH c * BPP c) = unat (WIDTH c) * unat (BPP c)"
    using assms by (auto simp: canvas_wf_def unat_word_ariths)
  moreover have "unat (PITCH c) = unat (WIDTH c * BPP c) div 8"
    using assms by (simp add: canvas_wf_def unat_div)
  ultimately show "unat (PITCH c) = unat (WIDTH c) * pixel_size c" using b by simp
qed

lemma pixel_bound:
  assumes "canvas_wf c" and "x < WIDTH c" and "y < HEIGHT c"
  shows "pixel_pos c x y + pixel_size c \<le> unat (PITCH c) * unat (HEIGHT c)"
    "unat x * pixel_size c + pixel_size c \<le> unat (PITCH c)"
proof -
  have "Suc (unat x) \<le> unat (WIDTH c)" "Suc (unat y) \<le> unat (HEIGHT c)"
    using assms(2,3) by (simp_all add: word_less_nat_alt)
  then have "Suc (unat x) * pixel_size c \<le> unat (PITCH c)" "Suc (unat y) * unat (PITCH c) \<le> unat (HEIGHT c) * unat (PITCH c)"
    using canvas_sizes(3) [OF assms(1)] by (metis mult_le_mono1)+
  then show "pixel_pos c x y + pixel_size c \<le> unat (PITCH c) * unat (HEIGHT c)"
    "unat x * pixel_size c + pixel_size c \<le> unat (PITCH c)"
    by (simp_all add: pixel_pos_def algebra_simps)
qed

lemma pixel_offset:
  assumes "canvas_wf c" and "x < WIDTH c" and "y < HEIGHT c"
  shows "unat (y * PITCH c + x * BPP c div 8) = pixel_pos c x y" "unat (y * PITCH c + x * (BPP c div 8)) = pixel_pos c x y"
proof -
  note b = pixel_bound [OF assms]
  have tot: "unat (PITCH c) * unat (HEIGHT c) < 2 ^ 32" and "0 < pixel_size c"
    using assms(1) canvas_sizes(1) [OF assms(1)] by (auto simp: canvas_wf_def)
  then have p: "pixel_pos c x y < 2 ^ 32" "unat y * unat (PITCH c) < 2 ^ 32"
    using b(1) by (simp_all add: pixel_pos_def)
  have "unat x < unat (WIDTH c)" using assms(2) by (simp add: word_less_nat_alt)
  moreover have "unat (BPP c) \<le> 32" using canvas_sizes [OF assms(1)] by simp
  ultimately have "unat x * unat (BPP c) \<le> unat (WIDTH c) * 32" by (simp add: mult_le_mono)
  then have "unat x * unat (BPP c) < 2 ^ 32" using assms(1) by (simp add: canvas_wf_def)
  then have "unat (x * BPP c) = unat x * unat (BPP c)" by (simp add: unat_word_ariths)
  then have x: "unat (x * BPP c div 8) = unat x * pixel_size c" using canvas_sizes(2) [OF assms(1)] by (simp add: unat_div)
  have y: "unat (y * PITCH c) = unat y * unat (PITCH c)" using p(2) by (simp add: unat_word_ariths)
  have "unat (y * PITCH c) + unat (x * BPP c div 8) < 2 ^ 32" using p(1) x y by (simp add: pixel_pos_def)
  then show "unat (y * PITCH c + x * BPP c div 8) = pixel_pos c x y"
    using x y by (simp add: unat_word_ariths pixel_pos_def)
  have "unat (x * (BPP c div 8)) = unat x * pixel_size c"
    using canvas_sizes(1,2) [OF assms(1)] p(1) by (simp add: unat_word_ariths unat_div pixel_pos_def split: if_splits)
  then show "unat (y * PITCH c + x * (BPP c div 8)) = pixel_pos c x y"
    using y p(1) by (simp add: unat_word_ariths pixel_pos_def)
qed

lemma pixels_apart:
  assumes "canvas_wf c" and "x < WIDTH c" and "y < HEIGHT c" and "x' < WIDTH c" and "y' < HEIGHT c" and "(x, y) \<noteq> (x', y')"
  shows "pixel_pos c x y + pixel_size c \<le> pixel_pos c x' y' \<or> pixel_pos c x' y' + pixel_size c \<le> pixel_pos c x y"
proof -
  have row: "pixel_pos c x y + pixel_size c \<le> pixel_pos c x' y'" if "unat y < unat y'" "x < WIDTH c" "y < HEIGHT c" for x y x' y'
  proof -
    have "Suc (unat y) * unat (PITCH c) \<le> unat y' * unat (PITCH c)" using that(1) by (intro mult_le_mono1) simp
    then show ?thesis using pixel_bound(2) [OF assms(1) that(2,3)] by (simp add: pixel_pos_def)
  qed
  have col: "pixel_pos c x y + pixel_size c \<le> pixel_pos c x' y" if "unat x < unat x'" for x x' y
  proof -
    have "Suc (unat x) * pixel_size c \<le> unat x' * pixel_size c" using that by (intro mult_le_mono1) simp
    then show ?thesis by (simp add: pixel_pos_def)
  qed
  show ?thesis
  proof (cases "y = y'")
    case True
    then show ?thesis using col [of x x' y] col [of x' x y] assms(6) by (metis linorder_neqE_nat unsigned_word_eqI)
  next
    case False
    then show ?thesis using row [of y y' x x'] row [of y' y x' x] assms(2-5) by (metis linorder_neqE_nat unsigned_word_eqI)
  qed
qed

section \<open>Bytes of a pixel\<close>

lemma store_bytes_spec:
  "unat off + length bs \<le> length fb \<Longrightarrow> unat off + length bs < 2 ^ 32 \<Longrightarrow> store_bytes fb off bs = Inr (blit fb (unat off) bs)"
proof (induction bs arbitrary: fb off)
  case (Cons b bs)
  then have "unat (off + 1) = unat off + 1" by (simp add: unat_word_ariths)
  then show ?case using Cons blit_Cons [of "unat off" bs fb b] by simp
qed simp

fun bytes_word :: "nat \<Rightarrow> byte list \<Rightarrow> u32" where
  "bytes_word k [] = 0"
| "bytes_word k (b # bs) = push_bit (8 * k) (ucast b) OR bytes_word (Suc k) bs"

lemma load_bytes_spec:
  "unat off + k + n \<le> length fb \<Longrightarrow> unat off + k + n < 2 ^ 32 \<Longrightarrow>
   load_bytes fb off k n = Inr (bytes_word k (take n (drop (unat off + k) fb)))"
proof (induction n arbitrary: k)
  case (Suc n)
  then have "unat (off + word_of_nat k) = unat off + k" by (simp add: unat_word_ariths unat_of_nat_small)
  moreover have "take (Suc n) (drop (unat off + k) fb) = fb ! (unat off + k) # take n (drop (unat off + Suc k) fb)"
    using Suc.prems by (simp add: Cons_nth_drop_Suc [symmetric])
  ultimately show ?case using Suc by simp
qed simp

lemma bytes_word_3_4:
  "bytes_word 0 [a, b, c] = ucast a OR push_bit 8 (ucast b) OR push_bit 16 (ucast c)"
  "bytes_word 0 [a, b, c, d] = ucast a OR push_bit 8 (ucast b) OR push_bit 16 (ucast c) OR push_bit 24 (ucast d)"
proof -
  have s: "Suc 0 = 1" "Suc (Suc 0) = 2" "Suc (Suc (Suc 0)) = 3" by simp_all
  show "bytes_word 0 [a, b, c] = ucast a OR push_bit 8 (ucast b) OR push_bit 16 (ucast c)"
    "bytes_word 0 [a, b, c, d] = ucast a OR push_bit 8 (ucast b) OR push_bit 16 (ucast c) OR push_bit 24 (ucast d)"
    by (simp_all only: bytes_word.simps s) simp_all
qed

lemma word_of_color:
  "bytes_word 0 (color_bytes 4 w) = w" "bytes_word 0 (color_bytes 3 w) = take_bit 24 w"
proof -
  have u: "[0..<4] = [0, 1, 2, 3]" "[0..<3] = [0, 1, 2 :: nat]" by (simp_all add: upt_rec)
  show "bytes_word 0 (color_bytes 4 w) = w"
  proof (rule bit_word_eqI)
    fix n assume "n < LENGTH(32)"
    then consider "n < 8" | "8 \<le> n" "n < 16" | "16 \<le> n" "n < 24" | "24 \<le> n" "n < 32" by fastforce
    then show "bit (bytes_word 0 (color_bytes 4 w)) n = bit w n"
      by cases (auto simp: color_bytes_def u bytes_word_3_4 bit_simps)
  qed
  show "bytes_word 0 (color_bytes 3 w) = take_bit 24 w"
  proof (rule bit_word_eqI)
    fix n assume "n < LENGTH(32)"
    then consider "n < 8" | "8 \<le> n" "n < 16" | "16 \<le> n" "n < 24" | "24 \<le> n" "n < 32" by fastforce
    then show "bit (bytes_word 0 (color_bytes 3 w)) n = bit (take_bit 24 w) n"
      by cases (auto simp: color_bytes_def u bytes_word_3_4 bit_simps)
  qed
qed

definition pixel_value :: "'a canvas_scheme \<Rightarrow> u32 \<Rightarrow> u32" where
  "pixel_value c color = (if BPP c = 32 then color else take_bit 24 color)"

lemma get_pixel_spec:
  assumes "canvas_wf c" and "x < WIDTH c" and "y < HEIGHT c"
  shows "fb_get_pixel c x y = Inr (bytes_word 0 (take (pixel_size c) (drop (pixel_pos c x y) (FRAMEBUFFER c))))"
proof -
  have b: "pixel_pos c x y + pixel_size c \<le> length (FRAMEBUFFER c)" "pixel_pos c x y + pixel_size c < 2 ^ 32"
    using pixel_bound(1) [OF assms] assms(1) by (auto simp: canvas_wf_def)
  have "load_bytes (FRAMEBUFFER c) (y * PITCH c + x * BPP c div 8) 0 (pixel_size c)
      = Inr (bytes_word 0 (take (pixel_size c) (drop (pixel_pos c x y) (FRAMEBUFFER c))))"
    using load_bytes_spec [of "y * PITCH c + x * BPP c div 8" 0 "pixel_size c" "FRAMEBUFFER c"] b pixel_offset(1) [OF assms] by simp
  moreover have "BPP c = 32 \<or> BPP c = 24" using assms(1) by (auto simp: canvas_wf_def)
  ultimately show ?thesis
    using canvas_sizes(1) [OF assms(1)] assms(2,3) by (auto simp: fb_get_pixel_def)
qed

lemma draw_pixel_spec:
  assumes "canvas_wf c" and "x < WIDTH c" and "y < HEIGHT c"
  shows "fb_draw_pixel c x y color
    = Inr (c\<lparr>FRAMEBUFFER := blit (FRAMEBUFFER c) (pixel_pos c x y) (color_bytes (pixel_size c) color)\<rparr>)"
proof -
  have b: "pixel_pos c x y + pixel_size c \<le> length (FRAMEBUFFER c)" "pixel_pos c x y + pixel_size c < 2 ^ 32"
    using pixel_bound(1) [OF assms] assms(1) by (auto simp: canvas_wf_def)
  have "length (color_bytes (pixel_size c) color) = pixel_size c" by (simp add: color_bytes_def)
  then have "store_bytes (FRAMEBUFFER c) (y * PITCH c + x * BPP c div 8) (color_bytes (pixel_size c) color)
      = Inr (blit (FRAMEBUFFER c) (pixel_pos c x y) (color_bytes (pixel_size c) color))"
    using store_bytes_spec [of "y * PITCH c + x * BPP c div 8" "color_bytes (pixel_size c) color" "FRAMEBUFFER c"] b
      pixel_offset(1) [OF assms] by simp
  moreover have "BPP c = 32 \<or> BPP c = 24" using assms(1) by (auto simp: canvas_wf_def)
  ultimately show ?thesis
    using canvas_sizes(1) [OF assms(1)] assms(2,3) by (auto simp: fb_draw_pixel_def paint_def)
qed

lemma draw_pixel_paints:
  assumes wf: "canvas_wf c" and x: "x < WIDTH c" and y: "y < HEIGHT c"
  shows "\<exists>c'. fb_draw_pixel c x y color = Inr c' \<and> canvas_wf c' \<and> WIDTH c' = WIDTH c \<and> HEIGHT c' = HEIGHT c \<and> BPP c' = BPP c
    \<and> (\<forall>x' y'. fb_get_pixel c' x' y' = (if (x', y') = (x, y) then Inr (pixel_value c color) else fb_get_pixel c x' y'))"
proof -
  let ?n = "pixel_size c" and ?p = "pixel_pos c x y"
  let ?bs = "color_bytes ?n color"
  let ?c = "c\<lparr>FRAMEBUFFER := blit (FRAMEBUFFER c) ?p ?bs\<rparr>"
  have b: "?p + ?n \<le> length (FRAMEBUFFER c)" using pixel_bound(1) [OF wf x y] wf by (auto simp: canvas_wf_def)
  have l: "length ?bs = ?n" by (simp add: color_bytes_def)
  have "length (blit (FRAMEBUFFER c) ?p ?bs) = length (FRAMEBUFFER c)" using b l by simp
  then have wf': "canvas_wf ?c" using wf canvas_wf_FRAMEBUFFER by metis
  have s: "pixel_size ?c = ?n" "pixel_pos ?c = pixel_pos c" by (simp_all add: pixel_size_def pixel_pos_def fun_eq_iff)
  have same: "fb_get_pixel ?c x y = Inr (pixel_value c color)"
    using get_pixel_spec [OF wf', of x y] x y s b l canvas_sizes(1) [OF wf] wf word_of_color [of color]
    by (auto simp: pixel_value_def blit_def canvas_wf_def)
  have other: "fb_get_pixel ?c x' y' = fb_get_pixel c x' y'" if ne: "(x', y') \<noteq> (x, y)" for x' y'
  proof (cases "x' < WIDTH c \<and> y' < HEIGHT c")
    case True
    let ?q = "pixel_pos c x' y'"
    have q: "?q + ?n \<le> length (FRAMEBUFFER c)" using pixel_bound(1) [OF wf, of x' y'] True wf by (auto simp: canvas_wf_def)
    have "?q + ?n \<le> ?p \<or> ?p + ?n \<le> ?q" using pixels_apart [OF wf _ _ x y, of x' y'] True ne by auto
    then have "take ?n (drop ?q (blit (FRAMEBUFFER c) ?p ?bs)) = take ?n (drop ?q (FRAMEBUFFER c))"
      using q b l by (intro nth_equalityI) (auto simp: nth_blit)
    then show ?thesis using get_pixel_spec [OF wf', of x' y'] get_pixel_spec [OF wf, of x' y'] True s by simp
  qed (auto simp: fb_get_pixel_def not_less)
  show ?thesis using draw_pixel_spec [OF wf x y, of color] wf' same other by (intro exI [of _ ?c]) auto
qed

text \<open>Pixels outside the screen are clipped.\<close>

lemma draw_pixels_paint:
  assumes "canvas_wf c"
  shows "\<exists>c'. draw_pixels fb_draw_pixel c ps color = Inr c' \<and> canvas_wf c' \<and> WIDTH c' = WIDTH c \<and> HEIGHT c' = HEIGHT c
    \<and> BPP c' = BPP c
    \<and> (\<forall>x y. fb_get_pixel c' x y = (if (x, y) \<in> set ps \<and> x < WIDTH c \<and> y < HEIGHT c then Inr (pixel_value c color)
         else fb_get_pixel c x y))"
  using assms
proof (induction ps arbitrary: c)
  case Nil
  then show ?case by auto
next
  case (Cons p ps)
  obtain x y where p: "p = (x, y)" by fastforce
  show ?case
  proof (cases "x < WIDTH c \<and> y < HEIGHT c")
    case True
    obtain c1 where c1: "fb_draw_pixel c x y color = Inr c1" "canvas_wf c1" "WIDTH c1 = WIDTH c" "HEIGHT c1 = HEIGHT c" "BPP c1 = BPP c"
      "\<forall>x' y'. fb_get_pixel c1 x' y' = (if (x', y') = (x, y) then Inr (pixel_value c color) else fb_get_pixel c x' y')"
      using draw_pixel_paints [of c x y color] Cons.prems True by auto
    have v: "pixel_value c1 color = pixel_value c color" using c1(5) by (simp add: pixel_value_def)
    from Cons.IH [OF c1(2)] show ?thesis using c1 v p True by (auto 0 3)
  next
    case False
    then have "fb_draw_pixel c x y color = Inr c" by (auto simp: fb_draw_pixel_def)
    moreover from Cons.IH [OF Cons.prems] obtain c' where "draw_pixels fb_draw_pixel c ps color = Inr c'" "canvas_wf c'"
      "WIDTH c' = WIDTH c" "HEIGHT c' = HEIGHT c" "BPP c' = BPP c"
      "\<forall>x y. fb_get_pixel c' x y = (if (x, y) \<in> set ps \<and> x < WIDTH c \<and> y < HEIGHT c then Inr (pixel_value c color)
         else fb_get_pixel c x y)" by blast
    ultimately show ?thesis using p False by (intro exI [of _ c']) auto
  qed
qed

section \<open>Characters\<close>

text \<open>Whether the cell of a character shows a dot \<open>dx\<close> to the right and \<open>dy\<close> below its corner.\<close>

definition glyph_dot :: "byte list \<Rightarrow> u32 \<Rightarrow> u32 \<Rightarrow> bool" where
  "glyph_dot rows dx dy = (dx < 16 \<and> dy < 16 \<and> bit (rows ! (unat dy div 2)) (7 - unat dx div 2))"

lemma glyph_pixels_set:
  "(px, py) \<in> set (glyph_pixels sc x y rows) \<longleftrightarrow> (\<exists>r<8. \<exists>cl<8. \<exists>xS < sc. \<exists>yS < sc. bit (rows ! r) (7 - cl)
     \<and> px = x + word_of_nat (sc * cl + xS) \<and> py = y + word_of_nat (sc * r + yS))"
  (is "?l = ?r")
proof
  show ?r if ?l
    using that unfolding glyph_pixels_def
    by (simp del: of_nat_add of_nat_mult split: if_splits)
      (elim bexE imageE, simp only: Int_iff mem_Collect_eq atLeastLessThan_iff prod.inject, blast)
  show ?l if ?r
  proof -
    from that obtain r cl xS yS where *: "r < 8" "cl < 8" "xS < sc" "yS < sc" "bit (rows ! r) (7 - cl)"
      "px = x + word_of_nat (sc * cl + xS)" "py = y + word_of_nat (sc * r + yS)" by blast
    then show ?thesis unfolding glyph_pixels_def
      by (simp del: of_nat_add of_nat_mult)
        (intro bexI [of _ r] bexI [of _ cl] bexI [of _ xS] image_eqI [of _ _ yS]; simp)
  qed
qed

lemma glyph_pixels_iff: "(px, py) \<in> set (glyph_pixels 2 x y rows) \<longleftrightarrow> glyph_dot rows (px - x) (py - y)"
proof
  assume "(px, py) \<in> set (glyph_pixels 2 x y rows)"
  then obtain r cl a b where *: "r < 8" "cl < 8" "bit (rows ! r) (7 - cl)" "a < 2" "b < 2"
    "px = x + word_of_nat (2 * cl + a)" "py = y + word_of_nat (2 * r + b)"
    unfolding glyph_pixels_set by blast
  have "unat (px - x) = 2 * cl + a" "unat (py - y) = 2 * r + b"
    using *(1,2,4,5) unfolding *(6,7) by (simp_all add: unat_of_nat_small del: of_nat_add of_nat_mult)
  then show "glyph_dot rows (px - x) (py - y)"
    using * by (simp add: glyph_dot_def word_less_nat_alt)
next
  assume d: "glyph_dot rows (px - x) (py - y)"
  let ?a = "unat (px - x)" and ?b = "unat (py - y)"
  have h: "?a < 16" "?b < 16" "bit (rows ! (?b div 2)) (7 - ?a div 2)" using d by (simp_all add: glyph_dot_def word_less_nat_alt)
  have e: "px = x + word_of_nat (2 * (?a div 2) + ?a mod 2)" "py = y + word_of_nat (2 * (?b div 2) + ?b mod 2)"
    by (simp_all only: mult_div_mod_eq) simp_all
  have "?b div 2 < 8" "?a div 2 < 8" "?a mod 2 < 2" "?b mod 2 < 2" using h by auto
  with h(3) e show "(px, py) \<in> set (glyph_pixels 2 x y rows)" unfolding glyph_pixels_set by blast
qed

lemma glyph_printable: "0x20 \<le> ch \<Longrightarrow> ch < 0x80 \<Longrightarrow> glyph ch = Inr (font ! (unat ch - 0x20))"
proof -
  assume a: "0x20 \<le> ch" "ch < 0x80"
  then have u: "32 \<le> unat ch" "unat ch < 128" by (simp_all add: word_le_nat_alt word_less_nat_alt)
  have "sint ch = int (unat ch)"
  proof -
    have "0 \<le> uint ch" "uint ch < 128" using a(2) by (simp_all add: word_less_def)
    then have "- (2 ^ 7) \<le> uint ch" "uint ch < 2 ^ 7" by (simp_all add: order_trans [of _ 0])
    then have "signed_take_bit 7 (uint ch) = uint ch" by (rule signed_take_bit_int_eq_self)
    then show ?thesis by (simp add: sint_uint)
  qed
  moreover have "length font = 128" by (simp add: font_def font_glyphs_def)
  ultimately show ?thesis using u by (simp add: glyph_def rd_def Let_def nat_diff_distrib del: of_nat_unat)
qed

lemma draw_char_paints:
  assumes "canvas_wf c" and "0x20 \<le> ch" and "ch < 0x80"
  shows "\<exists>c'. fb_draw_char c x y ch color = Inr c' \<and> canvas_wf c' \<and> WIDTH c' = WIDTH c \<and> HEIGHT c' = HEIGHT c \<and> BPP c' = BPP c
    \<and> (\<forall>px py. fb_get_pixel c' px py
         = (if glyph_dot (font ! (unat ch - 0x20)) (px - x) (py - y) \<and> px < WIDTH c \<and> py < HEIGHT c
            then Inr (pixel_value c color) else fb_get_pixel c px py))"
  using draw_pixels_paint [OF assms(1), of "glyph_pixels 2 x y (font ! (unat ch - 0x20))" color]
  by (simp add: fb_draw_char_def draw_glyph_def glyph_printable [OF assms(2,3)] glyph_pixels_iff)

section \<open>Scrolling\<close>

lemma canvas_scroll_spec:
  assumes wf: "canvas_wf c" and s: "unat amount * 16 \<le> unat (HEIGHT c)"
  defines "rows \<equiv> unat amount * 16"
  defines "kept \<equiv> unat (PITCH c) * (unat (HEIGHT c) - rows)"
  shows "fb_scroll_screen c amount = Inr (c\<lparr>FRAMEBUFFER := blit (blit (FRAMEBUFFER c) 0
    (take kept (drop (unat (PITCH c) * rows) (FRAMEBUFFER c)))) kept (replicate (unat (PITCH c) * rows) 0)\<rparr>)"
    and "unat (PITCH c) * rows + kept = unat (PITCH c) * unat (HEIGHT c)"
proof -
  let ?P = "unat (PITCH c)" and ?H = "unat (HEIGHT c)"
  have tot: "?P * ?H < 2 ^ 32" "?P * ?H \<le> length (FRAMEBUFFER c)" by (rule canvas_room [OF wf])+
  have "rows < 2 ^ 32" using s unsigned_less [of "HEIGHT c", where 'a = nat] by (simp add: rows_def)
  then have r: "unat (amount * 16) = rows" by (simp add: unat_mult_small rows_def)
  then have le: "amount * 16 \<le> HEIGHT c" using s by (simp add: word_le_nat_alt rows_def)
  show sum: "?P * rows + kept = ?P * ?H" using s by (simp add: kept_def rows_def flip: distrib_left)
  have k: "unat (PITCH c * (HEIGHT c - amount * 16)) = kept"
    using tot(1) sum r unat_sub [OF le] by (subst unat_mult_small) (simp_all add: kept_def)
  have m: "unat (PITCH c * (amount * 16)) = ?P * rows" using tot(1) sum r by (subst unat_mult_small) simp_all
  have "memcpy_within (FRAMEBUFFER c) 0 (?P * rows) kept
      = Inr (blit (FRAMEBUFFER c) 0 (take kept (drop (?P * rows) (FRAMEBUFFER c))))"
    using sum tot(2) by (simp add: memcpy_within_def memcpy_within_loop_spec)
  moreover have "kept + ?P * rows \<le> length (blit (FRAMEBUFFER c) 0 (take kept (drop (?P * rows) (FRAMEBUFFER c))))"
    using sum tot(2) by (subst length_blit) simp_all
  ultimately show "fb_scroll_screen c amount = Inr (c\<lparr>FRAMEBUFFER := blit (blit (FRAMEBUFFER c) 0
    (take kept (drop (?P * rows) (FRAMEBUFFER c)))) kept (replicate (?P * rows) 0)\<rparr>)"
    by (simp add: fb_scroll_screen_def scroll_canvas_def k m memset_spec)
qed

lemma bytes_word_zero: "bytes_word k (replicate n 0) = 0"
  by (induction n arbitrary: k) simp_all

lemma scroll_moves:
  assumes wf: "canvas_wf c" and s: "unat amount * 16 \<le> unat (HEIGHT c)"
  shows "\<exists>c'. fb_scroll_screen c amount = Inr c' \<and> canvas_wf c' \<and> cursor_x c' = cursor_x c \<and> cursor_y c' = cursor_y c
    \<and> (\<forall>x y. fb_get_pixel c' x y = (if HEIGHT c - 16 * amount \<le> y then Inr 0 else fb_get_pixel c x (y + 16 * amount)))"
proof -
  let ?P = "unat (PITCH c)" and ?H = "unat (HEIGHT c)" and ?r = "unat amount * 16" and ?n = "pixel_size c"
  let ?k = "?P * (?H - ?r)"
  let ?fb = "blit (blit (FRAMEBUFFER c) 0 (take ?k (drop (?P * ?r) (FRAMEBUFFER c)))) ?k (replicate (?P * ?r) 0)"
  let ?c = "c\<lparr>FRAMEBUFFER := ?fb\<rparr>"
  note spec = canvas_scroll_spec [OF wf s]
  have tot: "?P * ?H \<le> length (FRAMEBUFFER c)" by (rule canvas_room(2) [OF wf])
  have l: "length ?fb = length (FRAMEBUFFER c)" using spec(2) tot by simp
  then have wf': "canvas_wf ?c" using wf canvas_wf_FRAMEBUFFER by metis
  have z: "pixel_size ?c = ?n" "pixel_pos ?c = pixel_pos c" by (simp_all add: pixel_size_def pixel_pos_def fun_eq_iff)
  have r16: "unat (16 * amount) = ?r" using s unsigned_less [of "HEIGHT c", where 'a = nat] by (subst unat_mult_small) simp_all
  then have hr: "unat (HEIGHT c - 16 * amount) = ?H - ?r" using s by (subst unat_sub) (simp_all add: word_le_nat_alt)
  have "fb_get_pixel ?c x y = (if HEIGHT c - 16 * amount \<le> y then Inr 0 else fb_get_pixel c x (y + 16 * amount))" for x y
  proof (cases "x < WIDTH c \<and> y < HEIGHT c")
    case True
    let ?p = "pixel_pos c x y"
    have b: "?p + ?n \<le> ?P * ?H" "unat x * ?n + ?n \<le> ?P" using pixel_bound [OF wf, of x y] True by simp_all
    show ?thesis
    proof (cases "HEIGHT c - 16 * amount \<le> y")
      case low: True
      then have "?P * (?H - ?r) \<le> ?P * unat y" using hr by (intro mult_le_mono2) (simp add: word_le_nat_alt)
      then have "?k \<le> ?p" unfolding pixel_pos_def by (simp only: mult.commute [of "unat y"])
      then have "take ?n (drop ?p ?fb) = replicate ?n 0"
        using b(1) spec(2) tot l by (intro nth_equalityI) (simp_all add: nth_blit)
      then show ?thesis using get_pixel_spec [OF wf', of x y] True low z by (simp add: bytes_word_zero)
    next
      case high: False
      then have y: "unat y + ?r < ?H" using hr by (simp add: word_less_nat_alt not_le)
      then have u: "unat (y + 16 * amount) = unat y + ?r" using unsigned_less [of "HEIGHT c", where 'a = nat] r16
        by (subst unat_add_small) simp_all
      then have in': "y + 16 * amount < HEIGHT c" using y by (simp add: word_less_nat_alt)
      let ?q = "pixel_pos c x (y + 16 * amount)"
      have q: "?q = ?P * ?r + ?p" using u by (simp add: pixel_pos_def algebra_simps)
      have "Suc (unat y) * ?P \<le> (?H - ?r) * ?P" using y by (intro mult_le_mono1) simp
      then have k: "?p + ?n \<le> ?k" using b(2) by (simp add: pixel_pos_def mult.commute)
      have "take ?n (drop ?p ?fb) = take ?n (drop ?q (FRAMEBUFFER c))"
        using b(1) spec(2) tot l k q by (intro nth_equalityI) (simp_all add: nth_blit add.assoc)
      then show ?thesis using get_pixel_spec [OF wf', of x y] get_pixel_spec [OF wf, of x "y + 16 * amount"] True high in' z by simp
    qed
  next
    case False
    moreover have "HEIGHT c - 16 * amount \<le> y" if "HEIGHT c \<le> y" using that hr by (simp add: word_le_nat_alt)
    ultimately show ?thesis by (auto simp: fb_get_pixel_def not_less)
  qed
  then show ?thesis using spec(1) wf' by (intro exI [of _ ?c]) simp
qed

section \<open>The fourth byte\<close>

lemma color_bytes_split: "color_bytes 4 color = color_bytes 3 color @ [ucast (drop_bit 24 color)]"
  by (simp add: color_bytes_def upt_rec)

lemma store_bytes_append:
  "store_bytes fb off (bs @ cs) = cbind (store_bytes fb off bs) (\<lambda>fb'. store_bytes fb' (off + word_of_nat (length bs)) cs)"
  by (induction bs arbitrary: fb off) (auto simp: cbind_assoc algebra_simps)

lemma vbe_spills_next:
  assumes wf: "canvas_wf c" and "BPP c = 24" and x: "x + 1 < WIDTH c" "x < WIDTH c" and y: "y < HEIGHT c"
  shows "\<exists>c'. vbe_draw_pixel c x y color = Inr c' \<and> fb_get_pixel c' x y = Inr (take_bit 24 color)
    \<and> (\<exists>p. fb_get_pixel c (x + 1) y = Inr p \<and> fb_get_pixel c' (x + 1) y = Inr ((p AND NOT 0xFF) OR drop_bit 24 color))"
proof -
  let ?p = "pixel_pos c x y" and ?fb = "FRAMEBUFFER c"
  have n: "pixel_size c = 3" using canvas_sizes(1) [OF wf] assms(2) by simp
  have w: "unat x < unat (WIDTH c)" "unat (WIDTH c) * 32 < 2 ^ 32"
    using x(2) wf by (simp_all add: word_less_nat_alt canvas_wf_def)
  then have s: "unat (x + 1) = unat x + 1" by (subst unat_add_small) simp_all
  let ?q = "pixel_pos c (x + 1) y"
  have q: "?q = ?p + 3" using s n by (simp add: pixel_pos_def)
  have b: "?q + 3 \<le> length ?fb" "?q + 3 < 2 ^ 32"
    using pixel_bound(1) [OF wf x(1) y] canvas_room [OF wf] n by simp_all
  let ?bs = "color_bytes 4 color"
  let ?c = "c\<lparr>FRAMEBUFFER := blit ?fb ?p ?bs\<rparr>"
  have l: "length ?bs = 4" by (simp add: color_bytes_def)
  have d: "vbe_draw_pixel c x y color = Inr ?c"
    using assms(2) x y store_bytes_spec [of "y * PITCH c + x * (BPP c div 8)" ?bs ?fb] pixel_offset(2) [OF wf x(2) y] b q l
    by (simp add: vbe_draw_pixel_def paint_def)
  have "length (blit ?fb ?p ?bs) = length ?fb" using b q l by simp
  then have wf': "canvas_wf ?c" using wf canvas_wf_FRAMEBUFFER by metis
  have z: "pixel_size ?c = 3" "pixel_pos ?c = pixel_pos c" using n by (simp_all add: pixel_size_def pixel_pos_def fun_eq_iff)
  have "take 3 (drop ?p (blit ?fb ?p ?bs)) = color_bytes 3 color"
    using b q l by (simp add: blit_def color_bytes_def upt_rec)
  then have same: "fb_get_pixel ?c x y = Inr (take_bit 24 color)"
    using get_pixel_spec [OF wf', of x y] x y z word_of_color(2) [of color] by simp
  have t3: "take 3 (drop k xs) = [xs ! k, xs ! (k + 1), xs ! (k + 2)]" if "k + 3 \<le> length xs" for k and xs :: "byte list"
  proof -
    have "drop k xs = xs ! k # xs ! Suc k # xs ! Suc (Suc k) # drop (Suc (Suc (Suc k))) xs"
      using that by (simp add: Cons_nth_drop_Suc)
    then show ?thesis by simp
  qed
  let ?b = "\<lambda>k. ?fb ! (?q + k)"
  have old: "fb_get_pixel c (x + 1) y = Inr (bytes_word 0 [?b 0, ?b 1, ?b 2])"
    using get_pixel_spec [OF wf x(1) y] n t3 [OF b(1)] by simp
  have new: "fb_get_pixel ?c (x + 1) y = Inr (bytes_word 0 [ucast (drop_bit 24 color), ?b 1, ?b 2])"
    using get_pixel_spec [OF wf', of "x + 1" y] x y z t3 [of ?q "blit ?fb ?p ?bs"] b q l
    by (simp add: nth_blit color_bytes_def)
  have "bytes_word 0 [ucast (drop_bit 24 color), b1, b2] = (bytes_word 0 [b0, b1, b2] AND NOT 0xFF) OR drop_bit 24 color"
    for b0 b1 b2 :: byte
  proof (rule bit_word_eqI)
    fix k :: nat assume "k < LENGTH(32)"
    moreover have "(0xFF :: u32) = mask 8" by (simp add: mask_eq_exp_minus_1)
    then have "bit (0xFF :: u32) k \<longleftrightarrow> k < 8" by (simp only: bit_mask_iff) auto
    ultimately show "bit (bytes_word 0 [ucast (drop_bit 24 color), b1, b2]) k
        = bit ((bytes_word 0 [b0, b1, b2] AND NOT 0xFF) OR drop_bit 24 color) k"
      unfolding bytes_word_3_4 by (auto simp: bit_simps dest: bit_imp_le_length)
  qed
  from new [unfolded this [of "?b 1" "?b 2" "?b 0"]] show ?thesis using old d same by blast
qed

lemma vbe_last_pixel:
  assumes wf: "canvas_wf c" and "BPP c = 24" and x: "x + 1 = WIDTH c" "x < WIDTH c" and y: "y + 1 = HEIGHT c" "y < HEIGHT c"
    and "length (FRAMEBUFFER c) = unat (PITCH c) * unat (HEIGHT c)"
  shows "vbe_draw_pixel c x y color = Inl Bad_Write"
proof -
  let ?p = "pixel_pos c x y" and ?fb = "FRAMEBUFFER c"
  have n: "pixel_size c = 3" using canvas_sizes(1) [OF wf] assms(2) by simp
  have "1 + x \<noteq> 0" "1 + y \<noteq> 0" using x y by (auto simp: add.commute)
  then have s: "unat (WIDTH c) = Suc (unat x)" "unat (HEIGHT c) = Suc (unat y)"
    using unatSuc x(1) y(1) by (metis add.commute)+
  have e: "?p + 3 = length ?fb" unfolding assms(7) canvas_sizes(3) [OF wf] s n pixel_pos_def by (simp add: algebra_simps)
  have o: "unat (y * PITCH c + x * (BPP c div 8)) = ?p" by (rule pixel_offset(2) [OF wf x(2) y(2)])
  have m: "?p + 3 < 2 ^ 32" using e canvas_room [OF wf] assms(7) by simp
  then have "unat (y * PITCH c + x * (BPP c div 8) + 3) = ?p + 3" using o by (subst unat_add_small) simp_all
  moreover have "store_bytes ?fb (y * PITCH c + x * (BPP c div 8)) (color_bytes 3 color) = Inr (blit ?fb ?p (color_bytes 3 color))"
    using store_bytes_spec [of "y * PITCH c + x * (BPP c div 8)" "color_bytes 3 color" ?fb] o e m by (simp add: color_bytes_def)
  ultimately have "store_bytes ?fb (y * PITCH c + x * (BPP c div 8)) (color_bytes 4 color) = Inl Bad_Write"
    using e o by (simp add: color_bytes_split store_bytes_append wr_def) (simp add: color_bytes_def wr_def)
  moreover have "\<not> (WIDTH c \<le> x \<or> HEIGHT c \<le> y)" using x y by (simp add: not_le)
  ultimately show ?thesis using assms(2) by (simp add: vbe_draw_pixel_def paint_def)
qed

section \<open>Properties\<close>

text \<open>Drawing a pixel and reading it back with the userland library gives the colour that was drawn (its low 24 bits on a
  24-bit screen), and no other pixel changes.\<close>

theorem pixel_roundtrip:
  assumes "canvas_wf c" and "x < WIDTH c" and "y < HEIGHT c"
  shows "\<exists>c'. fb_draw_pixel c x y color = Inr c' \<and> canvas_wf c'
    \<and> (\<forall>x' y'. fb_get_pixel c' x' y'
         = (if (x', y') = (x, y) then Inr (if BPP c = 32 then color else take_bit 24 color) else fb_get_pixel c x' y'))"
  using draw_pixel_paints [OF assms, of color] by (auto simp: pixel_value_def)

definition sample_canvas :: framebuffer_graphics where
  "sample_canvas = \<lparr>FRAMEBUFFER = replicate 4096 7, WIDTH = 32, HEIGHT = 32, BPP = 32, PITCH = 128, cursor_x = 0, cursor_y = 0,
     text_color = 0xAAAAAA\<rparr>"

lemma sample_canvas_wf: "canvas_wf sample_canvas"
  by (simp add: canvas_wf_def sample_canvas_def)

theorem pixel_roundtrip_witness:
  "\<exists>c'. fb_draw_pixel sample_canvas 3 2 0xAABBCC = Inr c' \<and> fb_get_pixel c' 3 2 = Inr 0xAABBCC \<and> fb_get_pixel c' 40 2 = Inr 0"
proof -
  obtain c' where "fb_draw_pixel sample_canvas 3 2 0xAABBCC = Inr c'"
    "\<forall>x' y'. fb_get_pixel c' x' y' = (if (x', y') = (3, 2) then Inr 0xAABBCC else fb_get_pixel sample_canvas x' y')"
    using pixel_roundtrip [OF sample_canvas_wf, of 3 2 "0xAABBCC"] by (auto simp: sample_canvas_def)
  moreover have "fb_get_pixel sample_canvas 40 2 = Inr 0" by (simp add: sample_canvas_def fb_get_pixel_def)
  ultimately show ?thesis by auto
qed

text \<open>C17: Drawing a printable character paints exactly the dots of its glyph, each doubled in both directions, clipped to the screen;
  every other pixel keeps its colour.\<close>

theorem char_painted:
  assumes "canvas_wf c" and "0x20 \<le> ch" and "ch < 0x80"
  shows "\<exists>c'. fb_draw_char c x y ch color = Inr c' \<and> canvas_wf c'
    \<and> (\<forall>px py. fb_get_pixel c' px py
         = (if px < WIDTH c \<and> py < HEIGHT c \<and> px - x < 16 \<and> py - y < 16
              \<and> bit (font ! (unat ch - 0x20) ! (unat (py - y) div 2)) (7 - unat (px - x) div 2)
            then Inr (if BPP c = 32 then color else take_bit 24 color) else fb_get_pixel c px py))"
  using draw_char_paints [OF assms, of x y color] by (auto simp: pixel_value_def glyph_dot_def)

theorem char_painted_witness:
  "\<exists>c'. fb_draw_char sample_canvas 4 4 0x5F 0xFF = Inr c' \<and> fb_get_pixel c' 4 4 = fb_get_pixel sample_canvas 4 4"
proof -
  obtain c' where "fb_draw_char sample_canvas 4 4 0x5F 0xFF = Inr c'"
    and p: "\<forall>px py. fb_get_pixel c' px py = (if px < WIDTH sample_canvas \<and> py < HEIGHT sample_canvas \<and> px - 4 < 16 \<and> py - 4 < 16
      \<and> bit (font ! (unat (0x5F :: byte) - 0x20) ! (unat (py - 4) div 2)) (7 - unat (px - 4) div 2)
      then Inr (if BPP sample_canvas = 32 then 0xFF else take_bit 24 0xFF) else fb_get_pixel sample_canvas px py)"
    using char_painted [OF sample_canvas_wf, of "0x5F" 4 4 "0xFF"] by auto
  moreover have "\<not> bit (font ! 63 ! 0) (7 :: nat)" by (simp add: font_def font_glyphs_def)
  ultimately show ?thesis by auto
qed

text \<open>Scrolling by lines of text moves every pixel up by sixteen rows a line and leaves black rows at the bottom.\<close>

theorem screen_scrolls:
  assumes "canvas_wf c" and "unat amount * 16 \<le> unat (HEIGHT c)"
  shows "\<exists>c'. fb_scroll_screen c amount = Inr c' \<and> canvas_wf c'
    \<and> (\<forall>x y. fb_get_pixel c' x y = (if HEIGHT c - 16 * amount \<le> y then Inr 0 else fb_get_pixel c x (y + 16 * amount)))"
  using scroll_moves [OF assms] by auto

theorem screen_scrolls_witness:
  "\<exists>c'. fb_scroll_screen sample_canvas 1 = Inr c' \<and> fb_get_pixel c' 5 20 = Inr 0
    \<and> fb_get_pixel c' 5 3 = fb_get_pixel sample_canvas 5 19"
  using screen_scrolls [OF sample_canvas_wf, of 1] by (auto simp: sample_canvas_def)

text \<open>On a 24-bit screen the kernel's driver stores four bytes for a pixel: the top byte of the colour replaces the blue of
  the pixel to the right, and the last pixel of a framebuffer of exactly the screen's size is written past its bound.\<close>

theorem vbe_24_spills:
  assumes "canvas_wf c" and "BPP c = 24" and "x < WIDTH c" and "y < HEIGHT c"
  shows "(x + 1 < WIDTH c \<longrightarrow> (\<exists>c' p. vbe_draw_pixel c x y color = Inr c' \<and> fb_get_pixel c' x y = Inr (take_bit 24 color)
      \<and> fb_get_pixel c (x + 1) y = Inr p \<and> fb_get_pixel c' (x + 1) y = Inr ((p AND NOT 0xFF) OR drop_bit 24 color)))
    \<and> (x + 1 = WIDTH c \<and> y + 1 = HEIGHT c \<and> length (FRAMEBUFFER c) = unat (PITCH c) * unat (HEIGHT c)
      \<longrightarrow> vbe_draw_pixel c x y color = Inl Bad_Write)"
  using vbe_spills_next [OF assms(1,2) _ assms(3,4), of color] vbe_last_pixel [OF assms(1,2) _ assms(3) _ assms(4), of color]
  by blast

definition sample_vbe :: vbe where
  "sample_vbe = \<lparr>FRAMEBUFFER = replicate 24 7, WIDTH = 4, HEIGHT = 2, BPP = 24, PITCH = 12, cursor_x = 0, cursor_y = 0,
     current_color = GREY, m_setup = True\<rparr>"

theorem vbe_24_spills_witness:
  "vbe_draw_pixel sample_vbe 3 1 0 = Inl Bad_Write
    \<and> (\<exists>c'. vbe_draw_pixel sample_vbe 0 0 0 = Inr c' \<and> fb_get_pixel c' 1 0 = Inr 0x070700)"
proof -
  have wf: "canvas_wf sample_vbe" by (simp add: canvas_wf_def sample_vbe_def)
  have "vbe_draw_pixel sample_vbe 3 1 0 = Inl Bad_Write"
    using vbe_24_spills [OF wf, of 3 1 0] by (simp add: sample_vbe_def)
  moreover have "fb_get_pixel sample_vbe 1 0 = Inr 0x070707" by code_simp
  then have "\<exists>c'. vbe_draw_pixel sample_vbe 0 0 0 = Inr c' \<and> fb_get_pixel c' 1 0 = Inr 0x070700"
    using vbe_24_spills [OF wf, of 0 0 0] by (auto simp: sample_vbe_def)
  ultimately show ?thesis ..
qed

end
