(* ===== verification/Boot.thy ===== *)
theory Boot
  imports Canvas
begin

text \<open>
  The boot protocols, \<^verbatim>\<open>src/src/kernel/bootloaders\<close>: the information that a Multiboot 2 loader or the loader of the
  repository leaves in memory, and what the kernel takes from it: the region for its heap and the framebuffer.  The
  information is read from memory by addresses as the code does; what a tag or a map entry is in bytes is written out
  separately, and the parser is proved against it.
\<close>

section \<open>Constants\<close>

definition MULTIBOOT2_HEADER_MAGIC :: u32 where "MULTIBOOT2_HEADER_MAGIC = 0xe85250d6"
definition MULTIBOOT2_BOOTLOADER_MAGIC :: u32 where "MULTIBOOT2_BOOTLOADER_MAGIC = 0x36d76289"

definition MULTIBOOT_TAG_TYPE_END :: u32 where "MULTIBOOT_TAG_TYPE_END = 0"
definition MULTIBOOT_TAG_TYPE_CMDLINE :: u32 where "MULTIBOOT_TAG_TYPE_CMDLINE = 1"
definition MULTIBOOT_TAG_TYPE_BOOT_LOADER_NAME :: u32 where "MULTIBOOT_TAG_TYPE_BOOT_LOADER_NAME = 2"
definition MULTIBOOT_TAG_TYPE_MMAP :: u32 where "MULTIBOOT_TAG_TYPE_MMAP = 6"
definition MULTIBOOT_TAG_TYPE_FRAMEBUFFER :: u32 where "MULTIBOOT_TAG_TYPE_FRAMEBUFFER = 8"
definition MULTIBOOT_HEADER_TAG_FRAMEBUFFER :: u16 where "MULTIBOOT_HEADER_TAG_FRAMEBUFFER = 5"
definition MULTIBOOT_MEMORY_AVAILABLE :: u32 where "MULTIBOOT_MEMORY_AVAILABLE = 1"

lemmas multiboot_constants =
  MULTIBOOT_TAG_TYPE_END_def MULTIBOOT_TAG_TYPE_CMDLINE_def MULTIBOOT_TAG_TYPE_BOOT_LOADER_NAME_def
  MULTIBOOT_TAG_TYPE_MMAP_def MULTIBOOT_TAG_TYPE_FRAMEBUFFER_def MULTIBOOT_MEMORY_AVAILABLE_def

section \<open>The header in the image\<close>

record multiboot_header_tag_framebuffer =
  hf_type :: u16
  hf_flags :: u16
  hf_size :: u32
  hf_width :: u32
  hf_height :: u32
  hf_depth :: u32

record multiboot2_header =
  h_magic :: u32
  h_architecture :: u32
  header_length :: u32
  h_checksum :: u32
  framebuffer_tag :: multiboot_header_tag_framebuffer

definition m_mb2_header :: multiboot2_header where
  "m_mb2_header = \<lparr>h_magic = MULTIBOOT2_HEADER_MAGIC, h_architecture = 0, header_length = 36,
     h_checksum = - (MULTIBOOT2_HEADER_MAGIC + 0 + 36),
     framebuffer_tag = \<lparr>hf_type = MULTIBOOT_HEADER_TAG_FRAMEBUFFER, hf_flags = 0, hf_size = 20, hf_width = 1024,
       hf_height = 768, hf_depth = 32\<rparr>\<rparr>"

section \<open>Multiboot\<close>

definition load64 :: "(u32 \<Rightarrow> byte) \<Rightarrow> u32 \<Rightarrow> u64" where
  "load64 m a = ucast (load32 m a) OR push_bit 32 (ucast (load32 m (a + 4)))"

record multiboot =
  m_cmdline :: u32
  m_bootloader_name :: u32
  m_is_multiboot :: bool
  m_base_address :: u64
  m_len :: u64

record multiboot_mmap_entry =
  e_addr :: u64
  e_len :: u64
  e_type :: u32
  e_zero :: u32

definition get_mmap_entry :: "(u32 \<Rightarrow> byte) \<Rightarrow> u32 \<Rightarrow> multiboot_mmap_entry" where
  "get_mmap_entry m a = \<lparr>e_addr = load64 m a, e_len = load64 m (a + 8), e_type = load32 m (a + 16), e_zero = load32 m (a + 20)\<rparr>"

primrec mmap_loop :: "(u32 \<Rightarrow> byte) \<Rightarrow> u32 \<Rightarrow> u32 \<Rightarrow> nat \<Rightarrow> multiboot \<Rightarrow> multiboot" where
  "mmap_loop m entry entry_size 0 b = b"
| "mmap_loop m entry entry_size (Suc n) b =
     (let e = get_mmap_entry m entry;
          b' = (if e_type e = MULTIBOOT_MEMORY_AVAILABLE \<and> m_len b < e_len e
                then b\<lparr>m_base_address := e_addr e, m_len := e_len e\<rparr> else b)
      in mmap_loop m (entry + entry_size) entry_size n b')"

text \<open>The macro \<open>kdebug\<close>: three calls of \<open>kprintf\<close>.  The name of the source file is a string of the build.\<close>

definition kdebug :: "'d ports \<Rightarrow> byte list \<Rightarrow> u32 \<Rightarrow> byte list \<Rightarrow> u32 list \<Rightarrow> 'd \<Rightarrow> fault + 'd" where
  "kdebug io file_name line_no fmt as d =
     cbind (kprintf_serial io (\<lambda>_. file_name) (lit ''%s:%d: '') [0, line_no] d) (\<lambda>d1.
     cbind (kprintf_serial io (\<lambda>_. []) fmt as d1) (\<lambda>d2. kprintf_serial io (\<lambda>_. []) [10, 0] [] d2))"

text \<open>One round of \<open>parse_tags\<close> without the step to the next tag; the truth value says that it was the last.  The memory
  that a framebuffer address leads to is an object of its own, given by \<open>video\<close>.\<close>

definition parse_tag :: "'d ports \<Rightarrow> byte list \<Rightarrow> (u32 \<Rightarrow> byte list) \<Rightarrow> (u32 \<Rightarrow> byte) \<Rightarrow> u32 \<Rightarrow> multiboot \<times> vbe \<times> 'd
    \<Rightarrow> fault + (bool \<times> multiboot \<times> vbe \<times> 'd)" where
  "parse_tag io file_name video m tag = (\<lambda>(b, v, d).
     let type = load32 m tag in
     if type = MULTIBOOT_TAG_TYPE_CMDLINE then Inr (False, b\<lparr>m_cmdline := tag + 8\<rparr>, v, d)
     else if type = MULTIBOOT_TAG_TYPE_BOOT_LOADER_NAME then Inr (False, b\<lparr>m_bootloader_name := tag + 8\<rparr>, v, d)
     else if type = MULTIBOOT_TAG_TYPE_FRAMEBUFFER
     then let framebuffer_addr = load64 m (tag + 8); framebuffer_width = load32 m (tag + 20);
              framebuffer_height = load32 m (tag + 24); framebuffer_bpp = m (tag + 28)
          in cbind (kdebug io file_name 84 (lit ''Multiboot: Initializing framebuffer: %dx%dx%d'')
                      [framebuffer_width, framebuffer_height, ucast framebuffer_bpp] d) (\<lambda>d1.
             cbind (vbe_setup io v (video (ucast framebuffer_addr)) (ucast framebuffer_bpp) framebuffer_width framebuffer_height d1)
               (\<lambda>(v1, d2). cbind (vbe_clear_screen v1) (\<lambda>v2. Inr (False, b, v2, d2))))
     else if type = MULTIBOOT_TAG_TYPE_MMAP
     then let tag_size = load32 m (tag + 4); entry_size = load32 m (tag + 8)
          in if entry_size = 0 then Inl Div_By_Zero
             else Inr (False, mmap_loop m (tag + 16) entry_size (unat ((tag_size - 16) div entry_size)) b, v, d)
     else if type = MULTIBOOT_TAG_TYPE_END then Inr (True, b, v, d)
     else cbind (kdebug io file_name 112 (lit ''Unknown Multiboot2 tag type: %d'') [type] d) (\<lambda>d'. Inr (False, b, v, d')))"

definition next_tag :: "(u32 \<Rightarrow> byte) \<Rightarrow> u32 \<Rightarrow> u32" where
  "next_tag m tag = tag + ((load32 m (tag + 4) + 7) AND NOT 7)"

partial_function (option) parse_tags :: "'d ports \<Rightarrow> byte list \<Rightarrow> (u32 \<Rightarrow> byte list) \<Rightarrow> (u32 \<Rightarrow> byte) \<Rightarrow> u32 \<Rightarrow> multiboot \<times> vbe \<times> 'd
    \<Rightarrow> (fault + (multiboot \<times> vbe \<times> 'd)) option" where
  "parse_tags io file_name video m tag s =
     (case parse_tag io file_name video m tag s of
        Inl e \<Rightarrow> Some (Inl e)
      | Inr (end_tag, s') \<Rightarrow> if end_tag then Some (Inr s') else parse_tags io file_name video m (next_tag m tag) s')"

text \<open>Whether the object registers itself as the loader, and the states.\<close>

definition multiboot_init :: "'d ports \<Rightarrow> byte list \<Rightarrow> (u32 \<Rightarrow> byte list) \<Rightarrow> (u32 \<Rightarrow> byte) \<Rightarrow> u32 \<Rightarrow> u32 \<Rightarrow> multiboot \<times> vbe \<times> 'd
    \<Rightarrow> (fault + (bool \<times> multiboot \<times> vbe \<times> 'd)) option" where
  "multiboot_init io file_name video m magic info_ptr = (\<lambda>(b, v, d).
     if magic \<noteq> MULTIBOOT2_BOOTLOADER_MAGIC then Some (Inr (False, b\<lparr>m_is_multiboot := False\<rparr>, v, d))
     else let info_size = load32 m info_ptr; info_reserved = load32 m (info_ptr + 4) in
       case kdebug io file_name 42 (lit ''Multiboot2 size: %d, reserved: %d'') [info_size, info_reserved] d of
         Inl e \<Rightarrow> Some (Inl e)
       | Inr d' \<Rightarrow> map_option (\<lambda>r. cbind r (\<lambda>s. Inr (True, s)))
                    (parse_tags io file_name video m (info_ptr + 8) (b\<lparr>m_is_multiboot := True\<rparr>, v, d')))"

section \<open>The loader of the repository\<close>

record gitboot =
  g_base_address :: u64
  g_len :: u64

record memory_map_entry =
  map_base_address :: u64
  length_in_bytes :: u64
  map_type :: u32

definition bios_memory_map :: "(u32 \<Rightarrow> byte) \<Rightarrow> nat \<Rightarrow> memory_map_entry" where
  "bios_memory_map m idx = (let a = 0x500 + 20 * word_of_nat idx in
     \<lparr>map_base_address = load64 m a, length_in_bytes = load64 m (a + 8), map_type = load32 m (a + 16)\<rparr>)"

text \<open>\<open>long\<close> has 32 bits.\<close>

definition print_map_entry :: "'d ports \<Rightarrow> memory_map_entry \<Rightarrow> 'd \<Rightarrow> fault + 'd" where
  "print_map_entry io e d =
     kprintf_serial io (\<lambda>_. []) (chars ''0x%p -> 0x%p, Size: %ldKB'' @ [10, 0])
       [ucast (map_base_address e), ucast (map_base_address e) + ucast (length_in_bytes e),
        word_of_int (sint (ucast (length_in_bytes e) :: u32) sdiv 1024)] d"

partial_function (option) memory_map_loop :: "'d ports \<Rightarrow> (u32 \<Rightarrow> byte) \<Rightarrow> nat \<Rightarrow> memory_map_entry \<Rightarrow> 'd
    \<Rightarrow> (fault + (memory_map_entry \<times> 'd)) option" where
  "memory_map_loop io m idx heap_entry d =
     (let e = bios_memory_map m idx in
      if length_in_bytes e = 0 then Some (Inr (heap_entry, d))
      else if map_type e \<noteq> 1 then memory_map_loop io m (Suc idx) heap_entry d
      else case print_map_entry io e d of
          Inl f \<Rightarrow> Some (Inl f)
        | Inr d' \<Rightarrow> memory_map_loop io m (Suc idx) (if length_in_bytes heap_entry < length_in_bytes e then e else heap_entry) d')"

text \<open>The fields of the mode information at 0x2000 that are used.\<close>

record vbe_mode_info =
  xRes :: u16
  yRes :: u16
  mode_bpp :: byte
  mode_framebuffer :: u32

definition mode_info :: "(u32 \<Rightarrow> byte) \<Rightarrow> vbe_mode_info" where
  "mode_info m = \<lparr>xRes = ucast (load32 m 0x2012), yRes = ucast (load32 m 0x2014), mode_bpp = m 0x2019,
     mode_framebuffer = load32 m 0x2028\<rparr>"

definition gitboot_screen :: "'d ports \<Rightarrow> (u32 \<Rightarrow> byte list) \<Rightarrow> (u32 \<Rightarrow> byte) \<Rightarrow> vbe \<Rightarrow> 'd \<Rightarrow> fault + (vbe \<times> 'd)" where
  "gitboot_screen io video m v d =
     (let modeInfo = mode_info m; framebuffer = mode_framebuffer modeInfo in
      if framebuffer = 0 then Inr (v, d)
      else cbind (vbe_setup io v (video framebuffer) (ucast (mode_bpp modeInfo)) (ucast (xRes modeInfo)) (ucast (yRes modeInfo)) d)
             (\<lambda>(v1, d1). cbind (vbe_clear_screen v1) (\<lambda>v2. Inr (v2, d1))))"

definition gitboot_init :: "'d ports \<Rightarrow> (u32 \<Rightarrow> byte list) \<Rightarrow> (u32 \<Rightarrow> byte) \<Rightarrow> u32 \<Rightarrow> gitboot \<times> vbe \<times> 'd
    \<Rightarrow> (fault + (bool \<times> gitboot \<times> vbe \<times> 'd)) option" where
  "gitboot_init io video m magic = (\<lambda>(g, v, d).
     if magic \<noteq> 1337 then Some (Inr (False, g, v, d))
     else case kprintf_serial io (\<lambda>_. []) (chars ''Found GitBoot'' @ [10, 0]) [] d of Inl e \<Rightarrow> Some (Inl e)
     | Inr d1 \<Rightarrow> (case kprintf_serial io (\<lambda>_. []) (chars ''Usable memory map:'' @ [10, 0]) [] d1 of Inl e \<Rightarrow> Some (Inl e)
     | Inr d2 \<Rightarrow> map_option (\<lambda>r. cbind r (\<lambda>(heap_entry, d3).
         cbind (gitboot_screen io video m v d3) (\<lambda>(v', d4).
           Inr (True, \<lparr>g_base_address = map_base_address heap_entry, g_len = length_in_bytes heap_entry\<rparr>, v', d4))))
         (memory_map_loop io m 0 \<lparr>map_base_address = 0, length_in_bytes = 0, map_type = 0\<rparr> d2)))"

section \<open>The loader that was found\<close>

text \<open>\<open>Bootloader::the()\<close> and its two operations that the kernel uses; a loader that did not register is a null pointer.\<close>

datatype bootloader = From_Multiboot multiboot | From_GitBoot gitboot

primrec get_heap_base_address :: "bootloader \<Rightarrow> u64" where
  "get_heap_base_address (From_Multiboot b) = m_base_address b"
| "get_heap_base_address (From_GitBoot g) = g_base_address g"

primrec get_heap_size :: "bootloader \<Rightarrow> u64" where
  "get_heap_size (From_Multiboot b) = m_len b"
| "get_heap_size (From_GitBoot g) = g_len g"

section \<open>Printing\<close>

lemma kprintf_serial_sends:
  assumes "uart io COM1 sent busy" and "0 \<notin> set cs" and "parse_format cs = Some ds" and "format_text strs ds as = Some t"
    and "length t < 1024"
  shows "\<exists>d'. kprintf_serial io strs (cs @ 0 # rest) as d = Inr d' \<and> sent d' = sent d @ cstr t"
proof -
  obtain b where b: "kprintf strs (replicate 1024 0) (replicate 512 0) (cs @ 0 # rest) as = Inr b" "has_nul b" "cstr b = cstr t"
    using kprintf_text [OF assms(2-5), of "replicate 512 0" "replicate 1024 0"] by auto
  then show ?thesis
    using print_loop_sends [OF assms(1), of "cstr t" d] cstr_take [of b]
    by (auto simp: kprintf_serial_def ser_PrintString_def strlen_spec)
qed

text \<open>Numbers that \<open>%d\<close> can print, and the formats of this theory.\<close>

lemma kdebug_formats:
  "parse_format (chars ''%s:%d: '') = Some [String, Literal 58, Word32 100, Literal 58, Literal 32]"
  "parse_format [10] = Some [Literal 10]"
  "0 \<notin> set (chars ''%s:%d: '')"
  by code_simp+

lemma kdebug_ok:
  assumes u: "uart io COM1 sent busy" and f: "has_nul file_name" "length (cstr file_name) < 1000" and n: "line_no \<noteq> 0x80000000"
    and fmt: "0 \<notin> set cs" "parse_format cs = Some ds" "format_text (\<lambda>_. []) ds as = Some t" "length t < 1024"
  shows "\<exists>d'. kdebug io file_name line_no (cs @ [0]) as d = Inr d'"
proof -
  have "length (decimal (sint line_no)) \<le> 11" by (rule decimal_length)
  then have l: "length (cstr file_name @ 58 # decimal (sint line_no) @ [58, 32]) < 1024" using f(2) by simp
  have t: "format_text (\<lambda>_. file_name) [String, Literal 58, Word32 100, Literal 58, Literal 32] [0, line_no]
      = Some (cstr file_name @ 58 # decimal (sint line_no) @ [58, 32])"
    using f(1) n by (simp add: is_number_conv_def number_text_def)
  obtain d1 where d1: "kprintf_serial io (\<lambda>_. file_name) (chars ''%s:%d: '' @ [0]) [0, line_no] d = Inr d1"
    using kprintf_serial_sends [OF u kdebug_formats(3) kdebug_formats(1) t l, of "[]" d] by blast
  obtain d2 where d2: "kprintf_serial io (\<lambda>_. []) (cs @ [0]) as d1 = Inr d2"
    using kprintf_serial_sends [OF u fmt, of "[]" d1] by blast
  obtain d3 where "kprintf_serial io (\<lambda>_. []) ([10] @ [0]) [] d2 = Inr d3"
    using kprintf_serial_sends [OF u _ kdebug_formats(2), of "\<lambda>_. []" "[]" "[10]" "[]" d2] by auto
  then show ?thesis using d1 d2 by (simp add: kdebug_def lit_def)
qed

section \<open>A screen with 32 bits a pixel\<close>

lemma vbe_draw_pixel_32:
  assumes "canvas_wf c" and "BPP c = 32"
  shows "\<exists>fb. vbe_draw_pixel c x y color = Inr (c\<lparr>FRAMEBUFFER := fb\<rparr>) \<and> length fb = length (FRAMEBUFFER c)"
proof (cases "x < WIDTH c \<and> y < HEIGHT c")
  case True
  let ?off = "y * PITCH c + x * (BPP c div 8)" and ?bs = "color_bytes 3 color"
  have "length ?bs = 3" "pixel_size c = 4" using canvas_sizes(1) [OF assms(1)] assms(2) by (simp_all add: color_bytes_def)
  moreover have "pixel_pos c x y + pixel_size c \<le> unat (PITCH c) * unat (HEIGHT c)" using pixel_bound(1) [OF assms(1)] True by blast
  moreover have "unat ?off = pixel_pos c x y" using pixel_offset(2) [OF assms(1)] True by blast
  ultimately have r: "unat ?off + length ?bs \<le> length (FRAMEBUFFER c)" "unat ?off + length ?bs < 2 ^ 32"
    using canvas_room [OF assms(1)] by simp_all
  have "vbe_draw_pixel c x y color = Inr (c\<lparr>FRAMEBUFFER := blit (FRAMEBUFFER c) (unat ?off) ?bs\<rparr>)"
    using store_bytes_spec [OF r] True assms(2) by (auto simp: vbe_draw_pixel_def paint_def not_le)
  then show ?thesis using r(1) length_blit by blast
next
  case False
  then have "vbe_draw_pixel c x y color = Inr (c\<lparr>FRAMEBUFFER := FRAMEBUFFER c\<rparr>)" by (auto simp: vbe_draw_pixel_def not_less)
  then show ?thesis by blast
qed

lemma vbe_draw_pixels_32:
  "canvas_wf c \<Longrightarrow> BPP c = 32 \<Longrightarrow>
   \<exists>fb. draw_pixels vbe_draw_pixel c ps color = Inr (c\<lparr>FRAMEBUFFER := fb\<rparr>) \<and> length fb = length (FRAMEBUFFER c)"
proof (induction ps arbitrary: c)
  case Nil
  have "draw_pixels vbe_draw_pixel c [] color = Inr (c\<lparr>FRAMEBUFFER := FRAMEBUFFER c\<rparr>)" by simp
  then show ?case by blast
next
  case (Cons p ps)
  obtain x y where p: "p = (x, y)" by fastforce
  obtain fb where fb: "vbe_draw_pixel c x y color = Inr (c\<lparr>FRAMEBUFFER := fb\<rparr>)" "length fb = length (FRAMEBUFFER c)"
    using vbe_draw_pixel_32 [OF Cons.prems] by blast
  have "canvas_wf (c\<lparr>FRAMEBUFFER := fb\<rparr>)" using Cons.prems(1) fb(2) canvas_wf_FRAMEBUFFER by metis
  from Cons.IH [OF this] obtain fb' where "draw_pixels vbe_draw_pixel (c\<lparr>FRAMEBUFFER := fb\<rparr>) ps color = Inr (c\<lparr>FRAMEBUFFER := fb'\<rparr>)"
    "length fb' = length (FRAMEBUFFER c)" using fb(2) Cons.prems(2) by auto
  then show ?case using fb(1) p by auto
qed

section \<open>Bytes in memory\<close>

definition holds :: "(u32 \<Rightarrow> byte) \<Rightarrow> u32 \<Rightarrow> byte list \<Rightarrow> bool" where
  "holds m a bs = (\<forall>i<length bs. m (a + word_of_nat i) = bs ! i)"

lemma holds_Nil [simp]: "holds m a []"
  by (simp add: holds_def)

lemma holds_Cons [simp]: "holds m a (b # bs) \<longleftrightarrow> m a = b \<and> holds m (a + 1) bs"
proof
  assume h: "holds m a (b # bs)"
  have "m (a + 1 + word_of_nat i) = bs ! i" if "i < length bs" for i
    using h [unfolded holds_def, rule_format, of "Suc i"] that by (simp add: add.assoc)
  moreover have "m a = b" using h [unfolded holds_def, rule_format, of 0] by simp
  ultimately show "m a = b \<and> holds m (a + 1) bs" by (simp add: holds_def)
next
  assume "m a = b \<and> holds m (a + 1) bs"
  then show "holds m a (b # bs)" by (auto simp: holds_def nth_Cons add.assoc split: nat.split)
qed

lemma holds_append: "holds m a (xs @ ys) \<longleftrightarrow> holds m a xs \<and> holds m (a + word_of_nat (length xs)) ys"
  by (induction xs arbitrary: a) (simp_all add: add.assoc)

definition enc64 :: "u64 \<Rightarrow> byte list" where
  "enc64 w = enc32 (ucast w) @ enc32 (ucast (drop_bit 32 w))"

lemma length_enc64 [simp]: "length (enc64 w) = 8"
  by (simp add: enc64_def)

lemma load32_holds: "holds m a (enc32 w) \<Longrightarrow> load32 m a = w"
  using join_bytes32 [of w] by (simp add: enc32_def load32_def or.assoc add.assoc)

lemma load64_holds: "holds m a (enc64 w) \<Longrightarrow> load64 m a = w"
proof -
  assume "holds m a (enc64 w)"
  then have "load32 m a = ucast w" "load32 m (a + 4) = ucast (drop_bit 32 w)"
    by (simp_all add: enc64_def holds_append load32_holds)
  moreover have "ucast (ucast w :: u32) OR push_bit 32 (ucast (ucast (drop_bit 32 w) :: u32)) = w" (is "?l = w")
  proof (rule bit_word_eqI)
    fix n assume "n < LENGTH(64)"
    then show "bit ?l n = bit w n" by (cases "n < 32") (auto simp: bit_simps)
  qed
  ultimately show ?thesis by (simp add: load64_def)
qed

section \<open>Tags\<close>

text \<open>The tags of the information structure as the protocol has them.\<close>

datatype boot_tag =
    Cmdline "byte list"
  | Loader_name "byte list"
  | Memory_map u32 "multiboot_mmap_entry list"
  | Framebuffer u64 u32 u32 u32 byte "byte list"
  | Other_tag u32 "byte list"

definition mmap_entry_bytes :: "multiboot_mmap_entry \<Rightarrow> byte list" where
  "mmap_entry_bytes e = enc64 (e_addr e) @ enc64 (e_len e) @ enc32 (e_type e) @ enc32 (e_zero e)"

primrec tag_type :: "boot_tag \<Rightarrow> u32" where
  "tag_type (Cmdline s) = 1" | "tag_type (Loader_name s) = 2" | "tag_type (Memory_map v es) = 6"
| "tag_type (Framebuffer a p w h n bs) = 8" | "tag_type (Other_tag ty bs) = ty"

primrec tag_payload :: "boot_tag \<Rightarrow> byte list" where
  "tag_payload (Cmdline s) = s"
| "tag_payload (Loader_name s) = s"
| "tag_payload (Memory_map v es) = enc32 24 @ enc32 v @ concat (map mmap_entry_bytes es)"
| "tag_payload (Framebuffer a p w h n bs) = enc64 a @ enc32 p @ enc32 w @ enc32 h @ n # bs"
| "tag_payload (Other_tag ty bs) = bs"

definition tag_bytes :: "boot_tag \<Rightarrow> byte list" where
  "tag_bytes t = enc32 (tag_type t) @ enc32 (8 + word_of_nat (length (tag_payload t))) @ tag_payload t"

text \<open>Tags one after the other, each from a multiple of 8 on, and the end tag.\<close>

primrec tags_at :: "(u32 \<Rightarrow> byte) \<Rightarrow> u32 \<Rightarrow> boot_tag list \<Rightarrow> bool" where
  "tags_at m a [] = holds m a (enc32 0 @ enc32 8)"
| "tags_at m a (t # ts) = (holds m a (tag_bytes t) \<and> tags_at m (a + word_of_nat ((length (tag_bytes t) + 7) div 8 * 8)) ts)"

lemma next_tag_eq:
  assumes "holds m a (tag_bytes t)" and "length (tag_bytes t) + 7 < 2 ^ 32"
  shows "next_tag m a = a + word_of_nat ((length (tag_bytes t) + 7) div 8 * 8)"
proof -
  let ?n = "length (tag_bytes t) + 7"
  have "load32 m (a + 4) = 8 + word_of_nat (length (tag_payload t))"
    using assms(1) by (simp add: tag_bytes_def holds_append load32_holds)
  then have l: "load32 m (a + 4) + 7 = word_of_nat ?n" by (simp add: tag_bytes_def)
  have "(w :: u32) AND NOT 7 = w div 8 * 8" for w
  proof -
    have "(7 :: u32) = mask 3" by (simp add: mask_eq_exp_minus_1)
    then have "w AND NOT 7 = push_bit 3 (drop_bit 3 w)" by (simp add: bit_eq_iff bit_simps) auto
    then show ?thesis by (simp add: push_bit_eq_mult drop_bit_eq_div)
  qed
  moreover have "(word_of_nat ?n :: u32) div 8 * 8 = word_of_nat (?n div 8 * 8)"
  proof -
    have "unat (word_of_nat ?n :: u32) = ?n" using assms(2) by (simp add: unat_of_nat_small del: of_nat_add)
    then have "(word_of_nat ?n :: u32) div 8 = word_of_nat (?n div 8)" by (simp add: word_arith_nat_div del: of_nat_add)
    then show ?thesis by (simp del: of_nat_add)
  qed
  ultimately show ?thesis unfolding next_tag_def l by simp
qed

section \<open>The largest region\<close>

definition pick :: "multiboot \<Rightarrow> multiboot_mmap_entry \<Rightarrow> multiboot" where
  "pick b e = (if e_type e = MULTIBOOT_MEMORY_AVAILABLE \<and> m_len b < e_len e
     then b\<lparr>m_base_address := e_addr e, m_len := e_len e\<rparr> else b)"

lemma get_mmap_entry_holds: "holds m a (mmap_entry_bytes e) \<Longrightarrow> get_mmap_entry m a = e"
  by (simp add: mmap_entry_bytes_def holds_append get_mmap_entry_def load32_holds load64_holds add.assoc)

lemma mmap_loop_spec:
  "holds m a (concat (map mmap_entry_bytes es)) \<Longrightarrow> mmap_loop m a 24 (length es) b = foldl pick b es"
proof (induction es arbitrary: a b)
  case (Cons e es)
  have "length (mmap_entry_bytes e) = 24" by (simp add: mmap_entry_bytes_def)
  then have "holds m a (mmap_entry_bytes e)" "holds m (a + 24) (concat (map mmap_entry_bytes es))"
    using Cons.prems by (simp_all add: holds_append)
  then show ?case using Cons.IH [of "a + 24"] by (simp add: get_mmap_entry_holds pick_def Let_def)
qed simp

lemma pick_fields:
  "m_cmdline (foldl pick b es) = m_cmdline b" "m_bootloader_name (foldl pick b es) = m_bootloader_name b"
  "m_is_multiboot (foldl pick b es) = m_is_multiboot b"
  by (induction es arbitrary: b) (simp_all add: pick_def)

lemma pick_largest:
  "(\<forall>e\<in>set es. e_type e = 1 \<longrightarrow> e_len e \<le> m_len (foldl pick b es)) \<and> m_len b \<le> m_len (foldl pick b es)
    \<and> (m_len (foldl pick b es) = m_len b \<and> m_base_address (foldl pick b es) = m_base_address b
       \<or> m_len b < m_len (foldl pick b es) \<and> (\<exists>e. find (\<lambda>e. e_type e = 1 \<and> e_len e = m_len (foldl pick b es)) es = Some e
            \<and> m_base_address (foldl pick b es) = e_addr e))"
proof (induction es arbitrary: b)
  case (Cons e es)
  let ?b = "pick b e"
  let ?r = "foldl pick ?b es"
  have p: "m_len b \<le> m_len ?b" "e_type e = 1 \<Longrightarrow> e_len e \<le> m_len ?b"
    "m_len ?b = m_len b \<and> m_base_address ?b = m_base_address b
     \<or> m_len b < m_len ?b \<and> e_type e = 1 \<and> m_len ?b = e_len e \<and> m_base_address ?b = e_addr e"
    by (auto simp: pick_def MULTIBOOT_MEMORY_AVAILABLE_def)
  note IH = Cons.IH [of ?b]
  show ?case
  proof (cases "m_len ?b = m_len ?r")
    case True
    then have "m_base_address ?r = m_base_address ?b" using IH by auto
    then show ?thesis using IH p True by auto
  next
    case False
    then have lt: "m_len ?b < m_len ?r" using IH by simp
    moreover have "\<not> (e_type e = 1 \<and> e_len e = m_len ?r)" using p(2) lt by auto
    ultimately show ?thesis using IH p False by auto
  qed
qed simp

section \<open>One tag\<close>

fun tag_ok :: "(u32 \<Rightarrow> byte list) \<Rightarrow> boot_tag \<Rightarrow> bool" where
  "tag_ok video (Framebuffer a p w h n bs) = (n = 32 \<and> unat w * 32 < 2 ^ 32 \<and> h \<noteq> 0x80000000
     \<and> unat w * 4 * unat h < 2 ^ 32 \<and> unat w * 4 * unat h \<le> length (video (ucast a)))"
| "tag_ok video (Other_tag ty bs) = (ty \<notin> {0, 1, 2, 6, 8, 0x80000000})"
| "tag_ok video _ = True"

primrec tag_effect :: "u32 \<Rightarrow> boot_tag \<Rightarrow> multiboot \<Rightarrow> multiboot" where
  "tag_effect a (Cmdline s) b = b\<lparr>m_cmdline := a + 8\<rparr>"
| "tag_effect a (Loader_name s) b = b\<lparr>m_bootloader_name := a + 8\<rparr>"
| "tag_effect a (Memory_map v es) b = foldl pick b es"
| "tag_effect a (Framebuffer x p w h n bs) b = b"
| "tag_effect a (Other_tag ty bs) b = b"

primrec tag_screen :: "boot_tag \<Rightarrow> (u32 \<times> u32) option" where
  "tag_screen (Cmdline s) = None" | "tag_screen (Loader_name s) = None" | "tag_screen (Memory_map v es) = None"
| "tag_screen (Framebuffer x p w h n bs) = Some (w, h)" | "tag_screen (Other_tag ty bs) = None"

text \<open>The screen is as it was, or as one with a framebuffer of the given size.\<close>

definition shown :: "(u32 \<times> u32) option \<Rightarrow> vbe \<Rightarrow> vbe \<Rightarrow> bool" where
  "shown r v v' = (case r of None \<Rightarrow> v' = v
     | Some (w, h) \<Rightarrow> m_setup v' \<and> canvas_wf v' \<and> WIDTH v' = w \<and> HEIGHT v' = h \<and> BPP v' = 32)"

lemma boot_formats:
  "parse_format (chars ''Multiboot: Initializing framebuffer: %dx%dx%d'')
     = Some (map Literal (chars ''Multiboot: Initializing framebuffer: '') @ [Word32 100, Literal 120, Word32 100, Literal 120, Word32 100])"
  "parse_format (chars ''VBEGraphics set up: %dx%dx%d'' @ [13, 10])
     = Some (map Literal (chars ''VBEGraphics set up: '') @ [Word32 100, Literal 120, Word32 100, Literal 120, Word32 100, Literal 13, Literal 10])"
  "parse_format (chars ''Unknown Multiboot2 tag type: %d'') = Some (map Literal (chars ''Unknown Multiboot2 tag type: '') @ [Word32 100])"
  "parse_format (chars ''Multiboot2 size: %d, reserved: %d'') = Some (map Literal (chars ''Multiboot2 size: '') @ [Word32 100]
     @ map Literal (chars '', reserved: '') @ [Word32 100])"
  "0 \<notin> set (chars ''Multiboot: Initializing framebuffer: %dx%dx%d'')" "0 \<notin> set (chars ''VBEGraphics set up: %dx%dx%d'' @ [13, 10])"
  "0 \<notin> set (chars ''Unknown Multiboot2 tag type: %d'')" "0 \<notin> set (chars ''Multiboot2 size: %d, reserved: %d'')"
  by code_simp+

lemma format_text_literals:
  "format_text strs (map Literal cs @ ds) as = map_option (append cs) (format_text strs ds as)"
  by (induction cs) (simp_all add: option.map_comp comp_def option.map_ident)

lemma format_text_decimal:
  "a \<noteq> 0x80000000 \<Longrightarrow> format_text strs (Word32 100 # ds) (a # as) = map_option (append (decimal (sint a))) (format_text strs ds as)"
  by (simp add: is_number_conv_def number_text_def)

lemma format_text_literal: "format_text strs (Literal c # ds) as = map_option (Cons c) (format_text strs ds as)"
  by (cases "format_text strs ds as") simp_all

lemmas format_text_eqs = format_text_literals format_text_decimal format_text_literal

lemma vbe_setup_ok:
  assumes u: "uart io COM1 sent busy" and w: "unat w * 32 < 2 ^ 32" and h: "h \<noteq> 0x80000000"
    and fb: "unat w * 4 * unat h < 2 ^ 32" "unat w * 4 * unat h \<le> length fb"
  shows "\<exists>v1 d1. vbe_setup io v fb 32 w h d = Inr (v1, d1) \<and> canvas_wf v1 \<and> m_setup v1 \<and> WIDTH v1 = w \<and> HEIGHT v1 = h \<and> BPP v1 = 32"
proof -
  have w31: "w \<noteq> 0x80000000" using w by auto
  let ?t = "chars ''VBEGraphics set up: '' @ decimal (sint w) @ 120 # decimal (sint h) @ 120 # decimal (sint (32 :: u32)) @ [13, 10]"
  have t: "format_text (\<lambda>_. []) (map Literal (chars ''VBEGraphics set up: '') @ [Word32 100, Literal 120, Word32 100, Literal 120, Word32 100,
      Literal 13, Literal 10]) [w, h, 32] = Some ?t"
    using w31 h by (simp add: format_text_eqs del: format_text.simps(2))
  have "length ?t < 1024"
    using decimal_length [of w] decimal_length [of h] decimal_length [of 32] by (simp add: chars_def)
  then obtain d1 where d1: "kprintf_serial io (\<lambda>_. []) ((chars ''VBEGraphics set up: %dx%dx%d'' @ [13, 10]) @ [0]) [w, h, 32] d = Inr d1"
    using kprintf_serial_sends [OF u boot_formats(6,2) t, of "[]" d] by blast
  have p: "unat (w * 32 div 8) = unat w * 4" using w by (simp add: unat_div unat_mult_small)
  let ?v = "v\<lparr>FRAMEBUFFER := fb, BPP := 32, WIDTH := w, HEIGHT := h, PITCH := w * 32 div 8, m_setup := True\<rparr>"
  have "canvas_wf ?v" using p w fb by (simp add: canvas_wf_def)
  then show ?thesis using d1 by (simp add: vbe_setup_def)
qed


lemma parse_tag_step:
  assumes u: "uart io COM1 sent busy" and f: "has_nul file_name" "length (cstr file_name) < 900"
    and h: "holds m a (tag_bytes t)" and ok: "tag_ok video t" and len: "length (tag_bytes t) + 7 < 2 ^ 32"
  shows "\<exists>v' d'. parse_tag io file_name video m a (b, v, d) = Inr (False, tag_effect a t b, v', d') \<and> shown (tag_screen t) v v'"
proof -
  have ty: "load32 m a = tag_type t" and sz: "load32 m (a + 4) = 8 + word_of_nat (length (tag_payload t))"
    and pay: "holds m (a + 8) (tag_payload t)"
    using h by (simp_all add: tag_bytes_def holds_append load32_holds add.assoc)
  show ?thesis
  proof (cases t)
    case (Memory_map w es)
    have "entry_size = 24 \<Longrightarrow> length (mmap_entry_bytes e) = entry_size" for e entry_size by (simp add: mmap_entry_bytes_def)
    then have l: "length (concat (map mmap_entry_bytes es)) = 24 * length es" by (induction es) simp_all
    then have n: "16 + 24 * length es < 2 ^ 32" using len Memory_map by (simp add: tag_bytes_def)
    have es: "load32 m (a + 8) = 24" "holds m (a + 16) (concat (map mmap_entry_bytes es))"
      using pay Memory_map by (simp_all add: holds_append load32_holds add.assoc)
    have "load32 m (a + 4) - 16 = word_of_nat (24 * length es)"
      using sz Memory_map l by (simp add: algebra_simps)
    moreover have "unat ((word_of_nat (24 * length es) :: u32) div 24) = length es"
      using n by (simp add: unat_div unat_of_nat_small del: of_nat_mult)
    ultimately have c: "unat ((load32 m (a + 4) - 16) div 24) = length es" by simp
    show ?thesis using ty es c Memory_map
      by (simp add: parse_tag_def multiboot_constants mmap_loop_spec shown_def)
  next
    case (Framebuffer x p w h n bs)
    note ok = ok [unfolded Framebuffer tag_ok.simps]
    have fields: "load64 m (a + 8) = x" "load32 m (a + 20) = w" "load32 m (a + 24) = h" "m (a + 28) = n"
      using pay Framebuffer by (simp_all add: holds_append load32_holds load64_holds add.assoc)
    have w31: "w \<noteq> 0x80000000" using ok by auto
    let ?t = "chars ''Multiboot: Initializing framebuffer: '' @ decimal (sint w) @ 120 # decimal (sint h) @ 120 # decimal (sint (32 :: u32))"
    have ft: "format_text (\<lambda>_. []) (map Literal (chars ''Multiboot: Initializing framebuffer: '')
        @ [Word32 100, Literal 120, Word32 100, Literal 120, Word32 100]) [w, h, 32] = Some ?t"
      using w31 ok by (simp add: format_text_eqs del: format_text.simps(2))
    have "length ?t < 1024" using decimal_length [of w] decimal_length [of h] decimal_length [of 32] by (simp add: chars_def)
    then obtain d1 where d1: "kdebug io file_name 84 (chars ''Multiboot: Initializing framebuffer: %dx%dx%d'' @ [0]) [w, h, 32] d = Inr d1"
      using kdebug_ok [OF u f(1) _ _ boot_formats(5,1) ft, of 84 d] f(2) by auto
    obtain v1 d2 where v1: "vbe_setup io v (video (ucast x)) 32 w h d1 = Inr (v1, d2)" "canvas_wf v1" "m_setup v1" "WIDTH v1 = w"
      "HEIGHT v1 = h" "BPP v1 = 32"
      using vbe_setup_ok [OF u, of w h "video (ucast x)" v d1] ok by auto
    obtain fb where fb: "vbe_clear_screen v1 = Inr (v1\<lparr>FRAMEBUFFER := fb\<rparr>)" "length fb = length (FRAMEBUFFER v1)"
      using vbe_draw_pixels_32 [OF v1(2,6)] by (auto simp: vbe_clear_screen_def)
    have "canvas_wf (v1\<lparr>FRAMEBUFFER := fb\<rparr>)" using v1(2) fb(2) canvas_wf_FRAMEBUFFER by metis
    then have "shown (tag_screen t) v (v1\<lparr>FRAMEBUFFER := fb\<rparr>)" using v1 Framebuffer by (simp add: shown_def)
    moreover have "parse_tag io file_name video m a (b, v, d) = Inr (False, tag_effect a t b, v1\<lparr>FRAMEBUFFER := fb\<rparr>, d2)"
      using ty fields d1 v1(1) fb(1) ok Framebuffer by (simp add: parse_tag_def multiboot_constants lit_def)
    ultimately show ?thesis by blast
  next
    case (Other_tag ty' bs)
    note ok = ok [unfolded Other_tag tag_ok.simps]
    let ?t = "chars ''Unknown Multiboot2 tag type: '' @ decimal (sint ty')"
    have ft: "format_text (\<lambda>_. []) (map Literal (chars ''Unknown Multiboot2 tag type: '') @ [Word32 100]) [ty'] = Some ?t"
      using ok by (simp add: format_text_eqs del: format_text.simps(2))
    have "length ?t < 1024" using decimal_length [of ty'] by (simp add: chars_def)
    then obtain d1 where "kdebug io file_name 112 (chars ''Unknown Multiboot2 tag type: %d'' @ [0]) [ty'] d = Inr d1"
      using kdebug_ok [OF u f(1) _ _ boot_formats(7,3) ft, of 112 d] f(2) by auto
    then show ?thesis using ty ok Other_tag by (simp add: parse_tag_def multiboot_constants lit_def shown_def)
  qed (use ty in \<open>simp_all add: parse_tag_def multiboot_constants shown_def\<close>)
qed

section \<open>All tags\<close>

primrec last_of :: "('a \<Rightarrow> 'b option) \<Rightarrow> 'a list \<Rightarrow> 'b option" where
  "last_of f [] = None"
| "last_of f (x # xs) = (case last_of f xs of None \<Rightarrow> f x | r \<Rightarrow> r)"

primrec tag_cmdline :: "boot_tag \<Rightarrow> byte list option" where
  "tag_cmdline (Cmdline s) = Some s" | "tag_cmdline (Loader_name s) = None" | "tag_cmdline (Memory_map v es) = None"
| "tag_cmdline (Framebuffer x p w h n bs) = None" | "tag_cmdline (Other_tag ty bs) = None"

primrec tag_regions :: "boot_tag \<Rightarrow> multiboot_mmap_entry list" where
  "tag_regions (Cmdline s) = []" | "tag_regions (Loader_name s) = []" | "tag_regions (Memory_map v es) = es"
| "tag_regions (Framebuffer x p w h n bs) = []" | "tag_regions (Other_tag ty bs) = []"

lemma shown_trans: "shown r v v1 \<Longrightarrow> shown r' v1 v2 \<Longrightarrow> shown (case r' of None \<Rightarrow> r | x \<Rightarrow> x) v v2"
  by (auto simp: shown_def split: option.splits)

lemma pick_congr:
  "m_len b1 = m_len b2 \<Longrightarrow> m_base_address b1 = m_base_address b2 \<Longrightarrow>
   m_len (foldl pick b1 es) = m_len (foldl pick b2 es) \<and> m_base_address (foldl pick b1 es) = m_base_address (foldl pick b2 es)"
proof (induction es arbitrary: b1 b2)
  case (Cons e es)
  have "m_len (pick b1 e) = m_len (pick b2 e)" "m_base_address (pick b1 e) = m_base_address (pick b2 e)"
    using Cons.prems by (simp_all add: pick_def)
  from Cons.IH [OF this] show ?case by simp
qed simp

lemma parse_tags_spec:
  assumes u: "uart io COM1 sent busy" and f: "has_nul file_name" "length (cstr file_name) < 900"
  shows "tags_at m a ts \<Longrightarrow> \<forall>t\<in>set ts. tag_ok video t \<and> length (tag_bytes t) + 7 < 2 ^ 32 \<Longrightarrow>
    \<exists>b' v' d'. parse_tags io file_name video m a (b, v, d) = Some (Inr (b', v', d')) \<and> shown (last_of tag_screen ts) v v'
      \<and> m_is_multiboot b' = m_is_multiboot b
      \<and> (case last_of tag_cmdline ts of None \<Rightarrow> m_cmdline b' = m_cmdline b | Some s \<Rightarrow> holds m (m_cmdline b') s)
      \<and> m_len b' = m_len (foldl pick b (concat (map tag_regions ts)))
      \<and> m_base_address b' = m_base_address (foldl pick b (concat (map tag_regions ts)))"
proof (induction ts arbitrary: a b v d)
  case Nil
  then have "load32 m a = 0" by (simp add: holds_append load32_holds)
  then show ?case by (subst parse_tags.simps) (simp add: parse_tag_def multiboot_constants shown_def)
next
  case (Cons t ts)
  have t: "holds m a (tag_bytes t)" "tag_ok video t" "length (tag_bytes t) + 7 < 2 ^ 32"
    and ts: "tags_at m (next_tag m a) ts" and ok: "\<forall>t\<in>set ts. tag_ok video t \<and> length (tag_bytes t) + 7 < 2 ^ 32"
    using Cons.prems next_tag_eq by auto
  obtain v1 d1 where s: "parse_tag io file_name video m a (b, v, d) = Inr (False, tag_effect a t b, v1, d1)" "shown (tag_screen t) v v1"
    using parse_tag_step [OF u f t] by blast
  let ?b = "tag_effect a t b"
  obtain b' v' d' where r: "parse_tags io file_name video m (next_tag m a) (?b, v1, d1) = Some (Inr (b', v', d'))"
    "shown (last_of tag_screen ts) v1 v'" "m_is_multiboot b' = m_is_multiboot ?b"
    "case last_of tag_cmdline ts of None \<Rightarrow> m_cmdline b' = m_cmdline ?b | Some s \<Rightarrow> holds m (m_cmdline b') s"
    "m_len b' = m_len (foldl pick ?b (concat (map tag_regions ts)))"
    "m_base_address b' = m_base_address (foldl pick ?b (concat (map tag_regions ts)))"
    using Cons.IH [OF ts ok, of ?b v1 d1] by blast
  have eff: "m_is_multiboot ?b = m_is_multiboot b"
    "m_cmdline ?b = (case tag_cmdline t of None \<Rightarrow> m_cmdline b | Some s \<Rightarrow> a + 8)"
    by (cases t; simp add: pick_fields)+
  have same: "m_len (foldl pick ?b es) = m_len (foldl pick b (tag_regions t @ es))
    \<and> m_base_address (foldl pick ?b es) = m_base_address (foldl pick b (tag_regions t @ es))" for es
  proof -
    show ?thesis using pick_congr [of ?b b es] by (cases t) simp_all
  qed
  have "holds m (a + 8) s" if "tag_cmdline t = Some s" for s
    using that t(1) by (cases t) (simp_all add: tag_bytes_def holds_append add.assoc)
  then have "case last_of tag_cmdline (t # ts) of None \<Rightarrow> m_cmdline b' = m_cmdline b | Some s \<Rightarrow> holds m (m_cmdline b') s"
    using r(4) eff(2) by (auto split: option.splits)
  moreover have "parse_tags io file_name video m a (b, v, d) = Some (Inr (b', v', d'))"
    using s(1) r(1) by (subst parse_tags.simps) simp
  moreover have "shown (last_of tag_screen (t # ts)) v v'" using shown_trans [OF s(2) r(2)] by simp
  moreover have "m_is_multiboot b' = m_is_multiboot b" using r(3) eff(1) by simp
  moreover have "m_len b' = m_len (foldl pick b (concat (map tag_regions (t # ts))))"
    "m_base_address b' = m_base_address (foldl pick b (concat (map tag_regions (t # ts))))"
    using r(5,6) same [of "concat (map tag_regions ts)"] by simp_all
  ultimately show ?case by blast
qed

section \<open>The memory map of the own loader\<close>

definition region_of :: "memory_map_entry \<Rightarrow> multiboot_mmap_entry" where
  "region_of e = \<lparr>e_addr = map_base_address e, e_len = length_in_bytes e, e_type = map_type e, e_zero = 0\<rparr>"

lemma find_region:
  "find (\<lambda>e. e_type e = 1 \<and> e_len e = n) (map region_of es) = map_option region_of (find (\<lambda>e. map_type e = 1 \<and> length_in_bytes e = n) es)"
  by (induction es) (simp_all add: region_of_def)

text \<open>The map at 0x500: its entries, and the one without length that ends it.\<close>

definition map_at :: "(u32 \<Rightarrow> byte) \<Rightarrow> nat \<Rightarrow> memory_map_entry list \<Rightarrow> bool" where
  "map_at m k es = ((\<forall>i<length es. bios_memory_map m (k + i) = es ! i \<and> length_in_bytes (es ! i) \<noteq> 0)
     \<and> length_in_bytes (bios_memory_map m (k + length es)) = 0)"

lemma map_at_Cons: "map_at m k (e # es) \<longleftrightarrow> bios_memory_map m k = e \<and> length_in_bytes e \<noteq> 0 \<and> map_at m (Suc k) es"
  by (auto simp: map_at_def nth_Cons split: nat.splits)

lemma gitboot_formats:
  "parse_format (chars ''0x%p -> 0x%p, Size: %ldKB'' @ [10]) = Some (map Literal (chars ''0x'') @ Word32 112 # map Literal (chars '' -> 0x'')
     @ Word32 112 # map Literal (chars '', Size: '') @ Word32 100 # map Literal (chars ''KB'' @ [10]))"
  "parse_format (chars ''Found GitBoot'' @ [10]) = Some (map Literal (chars ''Found GitBoot'' @ [10]) @ [])"
  "parse_format (chars ''Usable memory map:'' @ [10]) = Some (map Literal (chars ''Usable memory map:'' @ [10]) @ [])"
  "0 \<notin> set (chars ''0x%p -> 0x%p, Size: %ldKB'' @ [10])" "0 \<notin> set (chars ''Found GitBoot'' @ [10])" "0 \<notin> set (chars ''Usable memory map:'' @ [10])"
  by code_simp+

lemma format_text_hex:
  "format_text strs (Word32 112 # ds) (a # as) = map_option (append (unsigned_text 16 a)) (format_text strs ds as)"
  by (simp add: is_number_conv_def number_text_def)

lemma unsigned_length: "length (unsigned_text 16 a) \<le> 32"
  using num_chars_length_32 [of 16 "unat a"] unsigned_less [of a, where 'a = nat] by (simp add: unsigned_text_def)

lemma quotient_not_min: "(word_of_int (sint (n :: u32) sdiv 1024) :: u32) \<noteq> 0x80000000"
proof
  let ?x = "sint n sdiv 1024"
  assume a: "(word_of_int ?x :: u32) = 0x80000000"
  have "\<bar>sint n\<bar> \<le> 2 ^ 31" using sint_greater_eq [of n] sint_lt [of n] by simp
  then have "\<bar>sint n\<bar> div 1024 \<le> 2 ^ 31 div 1024" by (intro zdiv_mono1) simp_all
  moreover have "\<bar>?x\<bar> = \<bar>sint n\<bar> div 1024 \<or> ?x = 0" by (auto simp: signed_divide_int_def abs_mult sgn_if)
  ultimately have r: "\<bar>?x\<bar> \<le> 2097152" by auto
  then have "- 2147483648 \<le> ?x" "?x < 2147483648" by linarith+
  then have "- (2 ^ 31) \<le> ?x" "?x < 2 ^ 31" by simp_all
  then have "signed_take_bit 31 ?x = ?x" by (rule signed_take_bit_int_eq_self)
  then have "sint (word_of_int ?x :: u32) = ?x" by (simp add: signed_of_int)
  then show False using a r by simp
qed

lemma print_map_entry_ok:
  assumes u: "uart io COM1 sent busy"
  shows "\<exists>d'. print_map_entry io e d = Inr d'"
proof -
  let ?a = "ucast (map_base_address e) :: u32" and ?n = "ucast (length_in_bytes e) :: u32"
  let ?k = "word_of_int (sint ?n sdiv 1024) :: u32"
  have "?k \<noteq> 0x80000000" by (rule quotient_not_min)
  then have ft: "format_text (\<lambda>_. []) (map Literal (chars ''0x'') @ Word32 112 # map Literal (chars '' -> 0x'')
     @ Word32 112 # map Literal (chars '', Size: '') @ Word32 100 # map Literal (chars ''KB'' @ [10])) [?a, ?a + ?n, ?k]
     = Some (chars ''0x'' @ unsigned_text 16 ?a @ chars '' -> 0x'' @ unsigned_text 16 (?a + ?n) @ chars '', Size: '' @ decimal (sint ?k) @ chars ''KB'' @ [10])" (is "_ = Some ?t")
    using format_text_literals [of "\<lambda>_. []" "chars ''KB'' @ [10]" "[]" "[]"]
    by (simp add: format_text_eqs format_text_hex del: format_text.simps(2) map_append)
  have "length ?t < 1024" using decimal_length [of ?k] unsigned_length [of ?a] unsigned_length [of "?a + ?n"] by (simp add: chars_def)
  then show ?thesis using kprintf_serial_sends [OF u gitboot_formats(4,1) ft, of "[]" d]
    by (auto simp: print_map_entry_def)
qed


lemma memory_map_loop_spec:
  assumes u: "uart io COM1 sent busy"
  shows "map_at m k es \<Longrightarrow> m_len b = length_in_bytes h \<Longrightarrow> m_base_address b = map_base_address h \<Longrightarrow>
    \<exists>h' d'. memory_map_loop io m k h d = Some (Inr (h', d'))
      \<and> length_in_bytes h' = m_len (foldl pick b (map region_of es)) \<and> map_base_address h' = m_base_address (foldl pick b (map region_of es))"
proof (induction es arbitrary: k h b d)
  case Nil
  then show ?case by (subst memory_map_loop.simps) (simp add: map_at_def)
next
  case (Cons e es)
  have e: "bios_memory_map m k = e" "length_in_bytes e \<noteq> 0" "map_at m (Suc k) es"
    using Cons.prems(1) by (simp_all add: map_at_Cons)
  show ?case
  proof (cases "map_type e = 1")
    case True
    obtain d1 where d1: "print_map_entry io e d = Inr d1" using print_map_entry_ok [OF u] by blast
    let ?h = "if length_in_bytes h < length_in_bytes e then e else h"
    have "m_len (pick b (region_of e)) = length_in_bytes ?h" "m_base_address (pick b (region_of e)) = map_base_address ?h"
      using Cons.prems(2,3) True by (simp_all add: pick_def region_of_def MULTIBOOT_MEMORY_AVAILABLE_def)
    from Cons.IH [OF e(3) this, of d1] show ?thesis
      using e(1,2) True d1 by (subst memory_map_loop.simps) simp
  next
    case False
    then have "pick b (region_of e) = b" by (simp add: pick_def region_of_def MULTIBOOT_MEMORY_AVAILABLE_def)
    with Cons.IH [OF e(3) Cons.prems(2,3), of d] False e(1,2) show ?thesis by (subst memory_map_loop.simps) simp
  qed
qed

text \<open>The mode is one with 32 bits a pixel, and the framebuffer is large enough for it.\<close>

definition mode_ok :: "(u32 \<Rightarrow> byte list) \<Rightarrow> vbe_mode_info \<Rightarrow> bool" where
  "mode_ok video i = (mode_framebuffer i = 0 \<or> mode_bpp i = 32
     \<and> unat (xRes i) * 4 * unat (yRes i) \<le> length (video (mode_framebuffer i)) \<and> unat (xRes i) * 4 * unat (yRes i) < 2 ^ 32)"

lemma unat_ucast_16: "unat (ucast (x :: u16) :: u32) = unat x" "unat x < 65536"
proof -
  show s: "unat x < 65536" using unsigned_less [of x, where 'a = nat] by simp
  show "unat (ucast x :: u32) = unat x" using s by (simp add: unsigned_ucast_eq take_bit_nat_eq_self)
qed

lemma gitboot_screen_ok:
  assumes u: "uart io COM1 sent busy"
    and "mode_ok video (mode_info m)"
  shows "\<exists>v' d'. gitboot_screen io video m v d = Inr (v', d')
    \<and> shown (if mode_framebuffer (mode_info m) = 0 then None else Some (ucast (xRes (mode_info m)), ucast (yRes (mode_info m)))) v v'"
proof (cases "mode_framebuffer (mode_info m) = 0")
  case True
  then show ?thesis by (simp add: gitboot_screen_def shown_def)
next
  case False
  let ?w = "ucast (xRes (mode_info m)) :: u32" and ?h = "ucast (yRes (mode_info m)) :: u32"
  note ok = assms(2) [unfolded mode_ok_def] and u16 = unat_ucast_16
  have r: "unat ?w * 32 < 2 ^ 32" "unat ?w * 4 * unat ?h < 2 ^ 32" "unat ?w * 4 * unat ?h \<le> length (video (mode_framebuffer (mode_info m)))"
    using u16(2) [of "xRes (mode_info m)"] ok False unfolding u16(1) by simp_all
  have "?h \<noteq> 0x80000000"
  proof
    assume "?h = 0x80000000"
    then have "unat ?h = 2147483648" by simp
    then show False using u16 [of "yRes (mode_info m)"] by simp
  qed
  from vbe_setup_ok [OF u r(1) this r(2,3)] obtain v1 d1 where
    v1: "vbe_setup io v (video (mode_framebuffer (mode_info m))) 32 ?w ?h d = Inr (v1, d1)" "canvas_wf v1" "m_setup v1" "WIDTH v1 = ?w"
      "HEIGHT v1 = ?h" "BPP v1 = 32" by blast
  obtain fb where fb: "vbe_clear_screen v1 = Inr (v1\<lparr>FRAMEBUFFER := fb\<rparr>)" "length fb = length (FRAMEBUFFER v1)"
    using vbe_draw_pixels_32 [OF v1(2,6)] by (auto simp: vbe_clear_screen_def)
  have "canvas_wf (v1\<lparr>FRAMEBUFFER := fb\<rparr>)" using v1(2) fb(2) canvas_wf_FRAMEBUFFER by metis
  then show ?thesis using v1 fb(1) False ok by (simp add: gitboot_screen_def shown_def Let_def)
qed


section \<open>Properties\<close>

text \<open>C10: Whatever tags a Multiboot 2 loader leaves, in any order and with unknown ones among them, the kernel reads them to the
  end: it takes the first of the largest available regions of all memory maps, points to the last command line, and sets
  its screen up with the last framebuffer.\<close>

theorem multiboot_reads_tags:
  assumes "uart io COM1 sent busy" and "has_nul file_name" and "length (cstr file_name) < 900"
    and "tags_at m (info_ptr + 8) ts" and "\<forall>t\<in>set ts. tag_ok video t \<and> length (tag_bytes t) + 7 < 2 ^ 32"
    and "load32 m info_ptr \<noteq> 0x80000000" and "load32 m (info_ptr + 4) \<noteq> 0x80000000"
    and "m_len b = 0" and "m_base_address b = 0"
  shows "\<exists>b' v' d'. multiboot_init io file_name video m 0x36d76289 info_ptr (b, v, d) = Some (Inr (True, b', v', d'))
    \<and> m_is_multiboot b'
    \<and> (let es = concat (map tag_regions ts) in
         (\<forall>e\<in>set es. e_type e = 1 \<longrightarrow> e_len e \<le> m_len b')
         \<and> (m_len b' = 0 \<and> m_base_address b' = 0
            \<or> (\<exists>e. find (\<lambda>e. e_type e = 1 \<and> e_len e = m_len b') es = Some e \<and> m_base_address b' = e_addr e)))
    \<and> (case last_of tag_cmdline ts of None \<Rightarrow> m_cmdline b' = m_cmdline b | Some s \<Rightarrow> holds m (m_cmdline b') s)
    \<and> (case last_of tag_screen ts of None \<Rightarrow> v' = v
       | Some (w, h) \<Rightarrow> m_setup v' \<and> canvas_wf v' \<and> WIDTH v' = w \<and> HEIGHT v' = h \<and> BPP v' = 32)"
proof -
  let ?i = "load32 m info_ptr" and ?r = "load32 m (info_ptr + 4)"
  let ?t = "chars ''Multiboot2 size: '' @ decimal (sint ?i) @ chars '', reserved: '' @ decimal (sint ?r)"
  have ft: "format_text (\<lambda>_. []) (map Literal (chars ''Multiboot2 size: '') @ [Word32 100]
     @ map Literal (chars '', reserved: '') @ [Word32 100]) [?i, ?r] = Some ?t"
    using assms(6,7) by (simp add: format_text_eqs del: format_text.simps(2))
  have "length ?t < 1024" using decimal_length [of ?i] decimal_length [of ?r] by (simp add: chars_def)
  then obtain d1 where d1: "kdebug io file_name 42 (chars ''Multiboot2 size: %d, reserved: %d'' @ [0]) [?i, ?r] d = Inr d1"
    using kdebug_ok [OF assms(1,2) _ _ boot_formats(8,4) ft, of 42 d] assms(3) by auto
  obtain b' v' d' where r: "parse_tags io file_name video m (info_ptr + 8) (b\<lparr>m_is_multiboot := True\<rparr>, v, d1) = Some (Inr (b', v', d'))"
    "shown (last_of tag_screen ts) v v'" "m_is_multiboot b' = m_is_multiboot (b\<lparr>m_is_multiboot := True\<rparr>)"
    "case last_of tag_cmdline ts of None \<Rightarrow> m_cmdline b' = m_cmdline (b\<lparr>m_is_multiboot := True\<rparr>) | Some s \<Rightarrow> holds m (m_cmdline b') s"
    "m_len b' = m_len (foldl pick (b\<lparr>m_is_multiboot := True\<rparr>) (concat (map tag_regions ts)))"
    "m_base_address b' = m_base_address (foldl pick (b\<lparr>m_is_multiboot := True\<rparr>) (concat (map tag_regions ts)))"
    using parse_tags_spec [OF assms(1-5), of "b\<lparr>m_is_multiboot := True\<rparr>" v d1] by blast
  have "multiboot_init io file_name video m 0x36d76289 info_ptr (b, v, d) = Some (Inr (True, b', v', d'))"
    using d1 r(1) by (simp add: multiboot_init_def MULTIBOOT2_BOOTLOADER_MAGIC_def lit_def Let_def)
  moreover have "let es = concat (map tag_regions ts) in (\<forall>e\<in>set es. e_type e = 1 \<longrightarrow> e_len e \<le> m_len b')
      \<and> (m_len b' = 0 \<and> m_base_address b' = 0
         \<or> (\<exists>e. find (\<lambda>e. e_type e = 1 \<and> e_len e = m_len b') es = Some e \<and> m_base_address b' = e_addr e))"
    using pick_largest [of "concat (map tag_regions ts)" "b\<lparr>m_is_multiboot := True\<rparr>"] assms(8,9)
    unfolding Let_def r(5,6) by auto
  moreover have "m_is_multiboot b'" using r(3) by simp
  moreover have "case last_of tag_cmdline ts of None \<Rightarrow> m_cmdline b' = m_cmdline b | Some s \<Rightarrow> holds m (m_cmdline b') s"
    using r(4) by (simp split: option.splits)
  ultimately show ?thesis using r(2) unfolding shown_def by blast
qed

text \<open>A loader's memory: a command line, an unknown tag and two memory maps.\<close>

definition memory_with :: "u32 \<Rightarrow> byte list \<Rightarrow> u32 \<Rightarrow> byte" where
  "memory_with a bs = (\<lambda>x. let i = unat (x - a) in if i < length bs then bs ! i else 0)"

definition sample_tags :: "boot_tag list" where
  "sample_tags = [Cmdline [107, 0], Other_tag 4 (enc32 640 @ enc32 64512),
     Memory_map 0 [\<lparr>e_addr = 0, e_len = 0x9FC00, e_type = 1, e_zero = 0\<rparr>, \<lparr>e_addr = 0x100000, e_len = 0x3F00000, e_type = 1, e_zero = 0\<rparr>,
       \<lparr>e_addr = 0xC0000000, e_len = 0x40000000, e_type = 2, e_zero = 0\<rparr>]]"

primrec layout :: "boot_tag list \<Rightarrow> byte list" where
  "layout [] = enc32 0 @ enc32 8"
| "layout (t # ts) = tag_bytes t @ replicate ((8 - length (tag_bytes t) mod 8) mod 8) 0 @ layout ts"

definition sample_memory :: "u32 \<Rightarrow> byte" where
  "sample_memory = memory_with 0x9000 (enc32 128 @ enc32 0 @ layout sample_tags)"

lemma holds_memory:
  assumes "length (pre @ xs @ post) < 2 ^ 32"
  shows "holds (memory_with a (pre @ xs @ post)) (a + word_of_nat (length pre)) xs"
proof -
  have "unat (a + word_of_nat (length pre) + word_of_nat i - a) = length pre + i" if "i < length xs" for i
  proof -
    have "a + word_of_nat (length pre) + word_of_nat i - a = word_of_nat (length pre + i)" by simp
    then show ?thesis using assms that by (simp add: unat_of_nat_small del: of_nat_add)
  qed
  then show ?thesis by (simp add: holds_def memory_with_def nth_append)
qed

lemma layout_tags_at:
  "length (pre @ layout ts @ post) < 2 ^ 32 \<Longrightarrow> tags_at (memory_with a (pre @ layout ts @ post)) (a + word_of_nat (length pre)) ts"
proof (induction ts arbitrary: pre)
  case Nil
  then show ?case using holds_memory [of pre "layout []" post a] by simp
next
  case (Cons t ts)
  let ?pad = "replicate ((8 - length (tag_bytes t) mod 8) mod 8) (0 :: byte)"
  let ?pre = "pre @ tag_bytes t @ ?pad"
  have "(n + 7) div 8 * 8 = n + (8 - n mod 8) mod 8" for n :: nat
  proof -
    obtain q r where n: "n = 8 * q + r" "r < 8" using mult_div_mod_eq [of 8 n] by (metis mod_less_divisor zero_less_numeral)
    then have "r = 0 \<or> r = 1 \<or> r = 2 \<or> r = 3 \<or> r = 4 \<or> r = 5 \<or> r = 6 \<or> r = 7" by linarith
    moreover have "(8 * q + r) mod 8 = r" "(8 * q + r + 7) div 8 = q + (r + 7) div 8" using n(2) by simp_all
    ultimately show ?thesis unfolding n(1) by auto
  qed
  then have l: "length ?pre = length pre + (length (tag_bytes t) + 7) div 8 * 8" by simp
  have e: "pre @ layout (t # ts) @ post = ?pre @ layout ts @ post" by simp
  have "tags_at (memory_with a (pre @ layout (t # ts) @ post)) (a + word_of_nat (length ?pre)) ts"
    using Cons.IH [of ?pre] Cons.prems unfolding e by simp
  moreover have "holds (memory_with a (pre @ layout (t # ts) @ post)) (a + word_of_nat (length pre)) (tag_bytes t)"
    using holds_memory [of pre "tag_bytes t" "?pad @ layout ts @ post" a] Cons.prems by simp
  ultimately show ?case unfolding l by (simp add: add.assoc)
qed

lemma sample_tags_at:
  "tags_at sample_memory 0x9008 sample_tags" "\<forall>t\<in>set sample_tags. tag_ok (\<lambda>_. []) t \<and> length (tag_bytes t) + 7 < 2 ^ 32"
  "load32 sample_memory 0x9000 = 128" "load32 sample_memory 0x9004 = 0"
proof -
  have len: "length (enc32 128 @ enc32 0 @ layout sample_tags) < 2 ^ 32"
    by (simp add: sample_tags_def tag_bytes_def mmap_entry_bytes_def)
  show "tags_at sample_memory 0x9008 sample_tags"
    using layout_tags_at [of "enc32 128 @ enc32 0" sample_tags "[]" "0x9000"] len by (simp add: sample_memory_def)
  show "\<forall>t\<in>set sample_tags. tag_ok (\<lambda>_. []) t \<and> length (tag_bytes t) + 7 < 2 ^ 32"
    by (simp add: sample_tags_def tag_bytes_def mmap_entry_bytes_def)
  have "holds sample_memory 0x9000 (enc32 128)" "holds sample_memory 0x9004 (enc32 0)"
    using holds_memory [of "[]" "enc32 128" "enc32 0 @ layout sample_tags" "0x9000"]
      holds_memory [of "enc32 128" "enc32 0" "layout sample_tags" "0x9000"] len by (simp_all add: sample_memory_def)
  then show "load32 sample_memory 0x9000 = 128" "load32 sample_memory 0x9004 = 0" by (simp_all add: load32_holds)
qed

theorem multiboot_reads_tags_witness:
  "\<exists>b' v' d'. multiboot_init slow_uart [107, 46, 99, 0] (\<lambda>_. []) sample_memory 0x36d76289 0x9000
      (\<lparr>m_cmdline = 0, m_bootloader_name = 0, m_is_multiboot = False, m_base_address = 0, m_len = 0\<rparr>, sample_vbe, ([], 0)) 
      = Some (Inr (True, b', v', d'))
    \<and> m_len b' = 0x3F00000 \<and> m_base_address b' = 0x100000 \<and> holds sample_memory (m_cmdline b') [107, 0] \<and> v' = sample_vbe"
proof -
  let ?b = "\<lparr>m_cmdline = 0, m_bootloader_name = 0, m_is_multiboot = False, m_base_address = 0, m_len = 0\<rparr>"
  have s: "concat (map tag_regions sample_tags) = [\<lparr>e_addr = 0, e_len = 0x9FC00, e_type = 1, e_zero = 0\<rparr>,
      \<lparr>e_addr = 0x100000, e_len = 0x3F00000, e_type = 1, e_zero = 0\<rparr>, \<lparr>e_addr = 0xC0000000, e_len = 0x40000000, e_type = 2, e_zero = 0\<rparr>]"
    "last_of tag_cmdline sample_tags = Some [107, 0]" "last_of tag_screen sample_tags = None"
    by (simp_all add: sample_tags_def)
  have "has_nul [107, 46, 99, 0 :: byte]" "length (cstr [107, 46, 99, 0 :: byte]) < 900" by (simp_all add: has_nul_def cstr_def)
  from multiboot_reads_tags [OF slow_uart_ok this, of sample_memory "0x9000" sample_tags "\<lambda>_. []" ?b sample_vbe "([], 0)"]
  obtain b' v' d' where r: "multiboot_init slow_uart [107, 46, 99, 0] (\<lambda>_. []) sample_memory 0x36d76289 0x9000 (?b, sample_vbe, ([], 0))
      = Some (Inr (True, b', v', d'))" "v' = sample_vbe" "holds sample_memory (m_cmdline b') [107, 0]"
    "0x9FC00 \<le> m_len b'" "0x3F00000 \<le> m_len b'"
    "m_len b' = 0x9FC00 \<and> m_base_address b' = 0 \<or> m_len b' = 0x3F00000 \<and> m_base_address b' = 0x100000"
    using sample_tags_at s by (auto split: if_splits)
  then have "m_len b' = 0x3F00000 \<and> m_base_address b' = 0x100000" by auto
  then show ?thesis using r(1-3) by blast
qed
text \<open>C28: The loader of the repository: the first of the longest usable entries of the map at 0x500 becomes the region for the heap,
  and the screen is set up if the mode information names a framebuffer.\<close>

theorem gitboot_reads_map:
  assumes "uart io COM1 sent busy" and "map_at m 0 es"
    and "mode_ok video (mode_info m)"
  shows "\<exists>g' v' d'. gitboot_init io video m 1337 (g, v, d) = Some (Inr (True, g', v', d'))
    \<and> (\<forall>e\<in>set es. map_type e = 1 \<longrightarrow> length_in_bytes e \<le> g_len g')
    \<and> (g_len g' = 0 \<and> g_base_address g' = 0
       \<or> (\<exists>e. find (\<lambda>e. map_type e = 1 \<and> length_in_bytes e = g_len g') es = Some e \<and> g_base_address g' = map_base_address e))
    \<and> (if mode_framebuffer (mode_info m) = 0 then v' = v
       else m_setup v' \<and> canvas_wf v' \<and> WIDTH v' = ucast (xRes (mode_info m)) \<and> HEIGHT v' = ucast (yRes (mode_info m)))"
proof -
  obtain d1 where d1: "kprintf_serial io (\<lambda>_. []) (chars ''Found GitBoot'' @ [10, 0]) [] d = Inr d1"
    using kprintf_serial_sends [OF assms(1) gitboot_formats(5,2), of "\<lambda>_. []" "[]" "chars ''Found GitBoot'' @ [10]" "[]" d]
    by (auto simp: format_text_literals chars_def)
  obtain d2 where d2: "kprintf_serial io (\<lambda>_. []) (chars ''Usable memory map:'' @ [10, 0]) [] d1 = Inr d2"
    using kprintf_serial_sends [OF assms(1) gitboot_formats(6,3), of "\<lambda>_. []" "[]" "chars ''Usable memory map:'' @ [10]" "[]" d1]
    by (auto simp: format_text_literals chars_def)
  define b where "b = \<lparr>m_cmdline = 0, m_bootloader_name = 0, m_is_multiboot = False, m_base_address = 0, m_len = 0\<rparr>"
  let ?r = "foldl pick b (map region_of es)"
  obtain h' d3 where h': "memory_map_loop io m 0 \<lparr>map_base_address = 0, length_in_bytes = 0, map_type = 0\<rparr> d2 = Some (Inr (h', d3))"
    "length_in_bytes h' = m_len ?r" "map_base_address h' = m_base_address ?r"
    using memory_map_loop_spec [OF assms(1,2), of b "\<lparr>map_base_address = 0, length_in_bytes = 0, map_type = 0\<rparr>" d2] by (auto simp: b_def)
  obtain v' d4 where v': "gitboot_screen io video m v d3 = Inr (v', d4)"
    "shown (if mode_framebuffer (mode_info m) = 0 then None else Some (ucast (xRes (mode_info m)), ucast (yRes (mode_info m)))) v v'"
    using gitboot_screen_ok [OF assms(1,3), of v d3] by blast
  let ?g = "\<lparr>g_base_address = map_base_address h', g_len = length_in_bytes h'\<rparr>"
  have i: "gitboot_init io video m 1337 (g, v, d) = Some (Inr (True, ?g, v', d4))"
    using d1 d2 h'(1) v'(1) by (simp add: gitboot_init_def)
  have "\<forall>e\<in>set es. map_type e = 1 \<longrightarrow> length_in_bytes e \<le> m_len ?r"
    using pick_largest [of "map region_of es" b] by (simp add: region_of_def)
  moreover have "m_len ?r = 0 \<and> m_base_address ?r = 0
      \<or> (\<exists>e. find (\<lambda>e. map_type e = 1 \<and> length_in_bytes e = m_len ?r) es = Some e \<and> m_base_address ?r = map_base_address e)"
    using pick_largest [of "map region_of es" b] find_region [of "m_len ?r" es] by (auto simp: b_def region_of_def)
  ultimately show ?thesis using i h'(2,3) v'(2) unfolding shown_def
    by (intro exI [of _ ?g] exI [of _ v'] exI [of _ d4]) (auto split: if_splits)
qed

definition sample_map :: "u32 \<Rightarrow> byte" where
  "sample_map = memory_with 0x500 [0, 0, 16, 0, 0, 0, 0, 0, 0, 0, 240, 3, 0, 0, 0, 0, 1, 0, 0, 0]"

lemma sample_map_entries:
  "bios_memory_map sample_map 0 = \<lparr>map_base_address = 0x100000, length_in_bytes = 0x3F00000, map_type = 1\<rparr>"
  "length_in_bytes (bios_memory_map sample_map 1) = 0" "mode_framebuffer (mode_info sample_map) = 0"
  by (simp_all add: sample_map_def memory_with_def bios_memory_map_def load64_def load32_def mode_info_def)

theorem gitboot_reads_map_witness:
  "\<exists>g' v' d'. gitboot_init slow_uart (\<lambda>_. []) sample_map 1337 (\<lparr>g_base_address = 7, g_len = 7\<rparr>, sample_vbe, ([], 0))
      = Some (Inr (True, g', v', d')) \<and> g_len g' = 0x3F00000 \<and> g_base_address g' = 0x100000 \<and> v' = sample_vbe"
proof -
  have m: "map_at sample_map 0 [\<lparr>map_base_address = 0x100000, length_in_bytes = 0x3F00000, map_type = 1\<rparr>]"
    using sample_map_entries by (simp add: map_at_def)
  have o: "mode_ok (\<lambda>_. []) (mode_info sample_map)" using sample_map_entries by (simp add: mode_ok_def)
  show ?thesis
    using gitboot_reads_map [OF slow_uart_ok m o, of "\<lparr>g_base_address = 7, g_len = 7\<rparr>" sample_vbe "([], 0)"] sample_map_entries
    by (auto split: if_splits)
qed

end
