(* ===== verification/KernelMain.thy ===== *)
theory KernelMain
  imports Boot ObjectSizes Mouse
begin

text \<open>
  \<^verbatim>\<open>src/src/kernel/kernel.cpp\<close>: the choice of the screen, the handler of processor exceptions, panics, the task state
  segment (\<^verbatim>\<open>task/tss.h\<close>) and \<open>kernel_main\<close>, which composes the other components in the order of the code.
\<close>

section \<open>State\<close>

text \<open>The machine with its two screens, the object of the mouse and the registers the processor sets on an exception.\<close>

record ('w, 'd) booted = "('w, 'd) system" +
  text_screen :: text_mode
  vbe_screen :: vbe
  mouse :: PS2Mouse
  mouse_pipe_at :: u32
  cr0 :: u32
  cr2 :: u32

section \<open>The screen that is in use\<close>

definition is_vbe :: "('w, 'd, 'a) booted_scheme \<Rightarrow> bool" where
  "is_vbe s = m_setup (vbe_screen s)"

text \<open>The operations on \<open>get_graphics()\<close>.\<close>

definition gfx_print_string_color :: "('w, 'd, 'a) booted_scheme \<Rightarrow> byte list \<Rightarrow> TEXT_MODE_COLOR \<Rightarrow> fault + ('w, 'd, 'a) booted_scheme" where
  "gfx_print_string_color s str color =
     (if is_vbe s then cbind (vbe_print_string_color (vbe_screen s) str color) (\<lambda>v. Inr (s\<lparr>vbe_screen := v\<rparr>))
      else cbind (text_print_string_color (text_screen s) str color) (\<lambda>t. Inr (s\<lparr>text_screen := t\<rparr>)))"

definition gfx_print_string :: "('w, 'd, 'a) booted_scheme \<Rightarrow> byte list \<Rightarrow> fault + ('w, 'd, 'a) booted_scheme" where
  "gfx_print_string s str =
     (if is_vbe s then cbind (vbe_print_string (vbe_screen s) str) (\<lambda>v. Inr (s\<lparr>vbe_screen := v\<rparr>))
      else cbind (text_print_string (text_screen s) str) (\<lambda>t. Inr (s\<lparr>text_screen := t\<rparr>)))"

definition gfx_set_text_color :: "('w, 'd, 'a) booted_scheme \<Rightarrow> TEXT_MODE_COLOR \<Rightarrow> ('w, 'd, 'a) booted_scheme" where
  "gfx_set_text_color s color =
     (if is_vbe s then s\<lparr>vbe_screen := vbe_set_text_color (vbe_screen s) color\<rparr>
      else s\<lparr>text_screen := text_set_text_color (text_screen s) color\<rparr>)"

definition gfx_clear_screen :: "('w, 'd, 'a) booted_scheme \<Rightarrow> fault + ('w, 'd, 'a) booted_scheme" where
  "gfx_clear_screen s =
     (if is_vbe s then cbind (vbe_clear_screen (vbe_screen s)) (\<lambda>v. Inr (s\<lparr>vbe_screen := v\<rparr>))
      else cbind (text_clear_screen (text_screen s)) (\<lambda>t. Inr (s\<lparr>text_screen := t\<rparr>)))"

text \<open>\<open>ser_PrintString\<close> on the console port.\<close>

definition ser_print :: "'d ports \<Rightarrow> ('w, 'd, 'a) booted_scheme \<Rightarrow> byte list \<Rightarrow> fault + ('w, 'd, 'a) booted_scheme" where
  "ser_print io s str = cbind (ser_PrintString io COM1 str (device s)) (\<lambda>d. Inr (s\<lparr>device := d\<rparr>))"

text \<open>A text formatted into a buffer of \<open>n\<close> zeros.\<close>

definition formatted :: "nat \<Rightarrow> (u32 \<Rightarrow> byte list) \<Rightarrow> byte list \<Rightarrow> u32 list \<Rightarrow> fault + byte list" where
  "formatted n strs fmt as = ksprintf strs (replicate n 0) 0 (replicate 512 0) fmt as"

section \<open>Exceptions\<close>

definition print_interrupt_frame :: "'d ports \<Rightarrow> interrupt_frame \<Rightarrow> ('w, 'd, 'a) booted_scheme \<Rightarrow> fault + ('w, 'd, 'a) booted_scheme" where
  "print_interrupt_frame io frame s =
     cbind (formatted 512 (\<lambda>_. [])
        (chars ''Interrupt frame:'' @ 10 # chars ''edi: %d (0x%x)'' @ 10 # chars ''esi: %d (0x%x)'' @ 10 # chars ''ebp: %d (0x%x)'' @
         10 # chars ''ebx: %d (0x%x)'' @ 10 # chars ''edx: %d (0x%x)'' @ 10 # chars ''ecx: %d (0x%x)'' @ 10 # chars ''eax: %d (0x%x)'' @
         10 # chars ''ip: 0x%x'' @ 10 # chars ''flags: 0b%b'' @ 10 # chars ''esp: 0x%x'' @ 10 # chars ''cs: 0x%x'' @ 10 #
         chars ''ss: 0x%x'' @ 10 # chars ''error: %d'' @ [10, 0])
        [f_edi frame, f_edi frame, f_esi frame, f_esi frame, f_ebp frame, f_ebp frame, f_ebx frame, f_ebx frame,
         f_edx frame, f_edx frame, f_ecx frame, f_ecx frame, f_eax frame, f_eax frame, f_ip frame, f_flags frame, f_esp frame,
         f_cs frame, f_ss frame, f_error_code frame]) (\<lambda>internal_buf.
     cbind (gfx_print_string_color s internal_buf GREY) (\<lambda>s1. ser_print io s1 internal_buf))"

text \<open>The loop over the saved frame pointers; it reads the memory they lead to and need not end.\<close>

definition print_return_address :: "'d ports \<Rightarrow> u32 \<Rightarrow> ('w, 'd, 'a) booted_scheme \<Rightarrow> fault + ('w, 'd, 'a) booted_scheme" where
  "print_return_address io ebp s =
     cbind (formatted 1024 (\<lambda>_. []) (chars ''0x%x'' @ [10, 0]) [load32 (ram s) (ebp + 4)]) (\<lambda>internal_buf.
     cbind (gfx_print_string s internal_buf) (\<lambda>s1. ser_print io s1 internal_buf))"

partial_function (option) stack_trace :: "'d ports \<Rightarrow> u32 \<Rightarrow> ('w, 'd, 'a) booted_scheme
    \<Rightarrow> (fault + ('w, 'd, 'a) booted_scheme) option" where
  "stack_trace io ebp s =
     (if ebp = 0 then Some (Inr s)
      else case print_return_address io ebp s of
          Inl e \<Rightarrow> Some (Inl e)
        | Inr s1 \<Rightarrow> stack_trace io (load32 (ram s1) ebp) s1)"

definition exception_name :: "int \<Rightarrow> fault + byte list" where
  "exception_name int_no = (if int_no < 0 then Inl Bad_Read else cbind (rd idt_InterruptLayoutString (nat int_no)) (\<lambda>name. Inr (lit name)))"

definition crash_text :: "int \<Rightarrow> interrupt_frame \<Rightarrow> ('w, 'd, 'a) booted_scheme \<Rightarrow> fault + byte list" where
  "crash_text int_no frame s =
     (if f_cs frame AND 3 = 3
      then cbind (calling_process s) (\<lambda>a. cbind (get_process s a) (\<lambda>p. cbind (exception_name int_no) (\<lambda>name.
             formatted 1024 (\<lambda>q. if q = 0 then p_filename p else name)
               (10 # 10 # chars ''Process %s crashed! Exception thrown by CPU: %s'' @ [10, 0]) [0, 1])))
      else cbind (exception_name int_no) (\<lambda>name.
             formatted 1024 (\<lambda>_. name) (10 # 10 # chars ''Kernel panic! Exception thrown by CPU: %s'' @ [10, 0]) [0]))"

text \<open>What is printed; then the process ends, or the kernel halts.\<close>

definition print_crash :: "'d ports \<Rightarrow> int \<Rightarrow> interrupt_frame \<Rightarrow> ('w, 'd, 'a) booted_scheme \<Rightarrow> fault + ('w, 'd, 'a) booted_scheme" where
  "print_crash io int_no frame s0 =
     (let s = gfx_set_text_color s0 LIGHT_RED in
      cbind (crash_text int_no frame s) (\<lambda>internal_buf.
      cbind (ser_print io s internal_buf) (\<lambda>s1. cbind (gfx_print_string s1 internal_buf) (\<lambda>s2.
      cbind (print_interrupt_frame io frame s2) (\<lambda>s3. let s4 = gfx_set_text_color s3 GREY in
      cbind (formatted 1024 (\<lambda>_. []) (chars ''cr0: 0b%b'' @ 10 # chars ''cr2: %d (0x%x)'' @ [10, 10, 0]) [cr0 s, cr2 s, cr2 s]) (\<lambda>internal_buf.
      cbind (gfx_print_string s4 internal_buf) (\<lambda>s5. cbind (ser_print io s5 internal_buf) (\<lambda>s6.
      cbind (diverging (stack_trace io (f_ebp frame) s6)) id))))))))"

definition kernel_exception :: "'d ports \<Rightarrow> ('w, 'd, 'a) booted_scheme isr" where
  "kernel_exception io int_no frame s =
     cbind (print_crash io int_no frame s) (\<lambda>s1.
       if f_cs frame AND 3 = 3
       then cbind (calling_process s1) (\<lambda>a. cbind (process_terminate s1 a) (\<lambda>s2.
            cbind (get_process s2 (process_current s2)) (\<lambda>p. cbind (task_switch s2 (p_task p)) (\<lambda>(_, s3).
            cbind (task_return s3 (task_current s3)) (\<lambda>(regs, s4). Inr (Resumed regs s4))))))
       else cbind (ser_print io s1 (lit ''GitOS halted.'')) (\<lambda>s2. cbind (gfx_print_string s2 (lit ''GitOS halted.'')) (\<lambda>_. Inl Panic)))"

text \<open>\<open>kernel_panic\<close> up to \<open>kernel_halt\<close>: the state in which the kernel stops.  Elsewhere a call of it is the fault \<open>Panic\<close>.\<close>

definition kernel_panic :: "'d ports \<Rightarrow> (u32 \<Rightarrow> byte list) \<Rightarrow> byte list \<Rightarrow> u32 list \<Rightarrow> ('w, 'd, 'a) booted_scheme
    \<Rightarrow> fault + ('w, 'd, 'a) booted_scheme" where
  "kernel_panic io strs fmt as s =
     cbind (kvsprintf strs (replicate 1024 0) 0 (replicate 512 0) fmt as) (\<lambda>internal_buf.
     cbind (ser_print io s (chars ''Kernel panic!'' @ [13, 10, 0])) (\<lambda>s1. cbind (ser_print io s1 internal_buf) (\<lambda>s2.
     cbind (gfx_print_string_color s2 (chars ''Kernel panic!'' @ [13, 10, 0]) LIGHT_RED) (\<lambda>s3.
       gfx_print_string_color s3 internal_buf LIGHT_RED))))"

text \<open>The interrupt of the mouse.\<close>

definition mouse_isr :: "'d ports \<Rightarrow> byte list \<Rightarrow> ('b driver_state_scheme, 'd, 'a) booted_scheme isr" where
  "mouse_isr io padding int_no frame s =
     cbind (ps2mouse_irq_handler io padding (mouse_pipe_at s) (mouse s) (drivers (files s)) (device s)) (\<lambda>(m, w, d).
       Inr (Returned (s\<lparr>mouse := m, files := (files s)\<lparr>drivers := w\<rparr>, device := d\<rparr>)))"

section \<open>The task state segment\<close>

record tss =
  tss_link :: u32
  tss_esp0 :: u32
  tss_ss0 :: u32
  tss_esp1 :: u32
  tss_ss1 :: u32
  tss_esp2 :: u32
  tss_ss2 :: u32
  tss_sr3 :: u32
  tss_eip :: u32
  tss_eflags :: u32
  tss_eax :: u32
  tss_ecx :: u32
  tss_edx :: u32
  tss_ebx :: u32
  tss_esp :: u32
  tss_ebp :: u32
  tss_esi :: u32
  tss_edi :: u32
  tss_es :: u32
  tss_cs :: u32
  tss_ss :: u32
  tss_ds :: u32
  tss_fs :: u32
  tss_gs :: u32
  tss_ldtr :: u32
  tss_iopb :: u32
  tss_ssp :: u32

definition kernel_tss :: tss where
  "kernel_tss = \<lparr>tss_link = 0, tss_esp0 = 0x600000, tss_ss0 = 0x10, tss_esp1 = 0, tss_ss1 = 0, tss_esp2 = 0, tss_ss2 = 0, tss_sr3 = 0,
     tss_eip = 0, tss_eflags = 0, tss_eax = 0, tss_ecx = 0, tss_edx = 0, tss_ebx = 0, tss_esp = 0, tss_ebp = 0, tss_esi = 0,
     tss_edi = 0, tss_es = 0, tss_cs = 0, tss_ss = 0, tss_ds = 0, tss_fs = 0, tss_gs = 0, tss_ldtr = 0, tss_iopb = 0, tss_ssp = 0\<rparr>"

section \<open>The start of the kernel\<close>

text \<open>What the kernel finds when it starts: the memory the loader leaves, the framebuffers behind addresses, the contents of the
  memory of the heap's table, and what only the build knows: addresses of objects and strings.\<close>

record 'w environment =
  boot_memory :: "u32 \<Rightarrow> byte"
  video_memory :: "u32 \<Rightarrow> byte list"
  heap_table_memory :: "byte list"
  fat16_filesystem :: "'w filesystem"
  source_file :: "byte list"
  build_date :: "byte list"
  build_time :: "byte list"
  tss_address :: u32
  gdt_address :: u32
  idt_address :: u32
  entry_points :: "nat \<Rightarrow> u32"
  syscall_wrapper :: u32
  argument_strings :: "u32 \<times> u32"
  mouse_padding :: "byte list"

definition say :: "'d ports \<Rightarrow> byte list \<Rightarrow> ('w, 'd, 'a) booted_scheme \<Rightarrow> fault + ('w, 'd, 'a) booted_scheme" where
  "say io str s = sys_print io s (\<lambda>_. []) str []"

definition OK_line :: "byte list" where "OK_line = chars ''OK'' @ [13, 10, 0]"

definition start_console :: "'d ports \<Rightarrow> 'e environment \<Rightarrow> u32 \<Rightarrow> u32 \<Rightarrow> multiboot \<Rightarrow> gitboot \<Rightarrow> ('w, 'd, 'a) booted_scheme
    \<Rightarrow> fault + (bootloader option \<times> ('w, 'd, 'a) booted_scheme)" where
  "start_console io env magic info_ptr multiboot gitboot s =
     cbind (diverging (ser_Init io COM1 1 (device s))) (\<lambda>(res, d). cbind (cassert (res = 0)) (\<lambda>_.
     cbind (cbind (diverging (multiboot_init io (source_file env) (video_memory env) (boot_memory env) magic info_ptr
                                (multiboot, vbe_screen s, d))) id) (\<lambda>(is_mb, b, v, d1).
     cbind (cbind (diverging (gitboot_init io (video_memory env) (boot_memory env) magic (gitboot, v, d1))) id) (\<lambda>(is_gb, g, v', d2).
     let loader = (if is_gb then Some (From_GitBoot g) else if is_mb then Some (From_Multiboot b) else None);
         s1 = s\<lparr>vbe_screen := v', device := d2, screen_width := WIDTH v', screen_height := HEIGHT v', screen_bpp := BPP v',
           framebuffer_bytes := get_framebuffer_size v'\<rparr>
     in cbind (gfx_clear_screen s1) (\<lambda>s2. let s3 = gfx_set_text_color s2 GREY in
        cbind (sys_print io s3 (\<lambda>p. if p = 0 then build_date env else build_time env)
          (chars ''GitOS - operating system as exercise.'' @ 10 # chars ''Created by Pawel Reich. BUILD %s %s'' @ [10, 0]) [0, 1])
          (\<lambda>s4. Inr (loader, s4)))))))"

definition start_segments :: "'d ports \<Rightarrow> 'e environment \<Rightarrow> ('w, 'd, 'a) booted_scheme
    \<Rightarrow> fault + (byte list \<times> ('w, 'd, 'a) booted_scheme)" where
  "start_segments io env s =
     cbind (say io (lit ''Initializing GDT..'') s) (\<lambda>s1.
     cbind (gdt_structured_to_gdt (replicate 48 0) (gdt_table (tss_address env) 108) 6) (\<lambda>gdt_real.
     cbind (sys_print io s1 (\<lambda>_. []) (lit '' GDTR pointing at %x '') [gdt_address env]) (\<lambda>s2.
     cbind (say io OK_line s2) (\<lambda>s3. Inr (gdt_real, s3)))))"

primrec set_exceptions :: "'s isr \<Rightarrow> nat \<Rightarrow> 's idt \<Rightarrow> 's idt" where
  "set_exceptions handler 0 t = t"
| "set_exceptions handler (Suc i) t = snd (idt_SetHandler (set_exceptions handler i t) (int i) (Some handler))"

definition start_interrupts :: "'d ports \<Rightarrow> 'e environment \<Rightarrow> ('w, 'd, 'a) booted_scheme
    \<Rightarrow> fault + (('w, 'd, 'a) booted_scheme idt \<times> ('w, 'd, 'a) booted_scheme)" where
  "start_interrupts io env s =
     cbind (say io (lit ''Initializing IDT..'') s) (\<lambda>s1.
     cbind (idt_Init (entry_points env) (idt_address env) empty_idt) (\<lambda>t.
     let t1 = snd (idt_SetHandler (set_exceptions (kernel_exception io) 0x20 t) 0x20 (Some (timer_interrupt io)))
     in cbind (idt_SetDescriptor (idt_descriptors t1) 0x80 (syscall_wrapper env)) (\<lambda>descs.
        cbind (say io OK_line s1) (\<lambda>s2. Inr (t1\<lparr>idt_descriptors := descs\<rparr>, s2)))))"

definition start_tss :: "'d ports \<Rightarrow> ('w, 'd, 'a) booted_scheme \<Rightarrow> fault + (tss \<times> ('w, 'd, 'a) booted_scheme)" where
  "start_tss io s =
     cbind (say io (lit ''Initializing TSS..'') s) (\<lambda>s1. cbind (say io (chars ''OK'' @ [10, 0]) s1) (\<lambda>s2. Inr (kernel_tss, s2)))"

text \<open>The region in 64 bits; the heap takes the low 32 bits of its address and of its size.\<close>

definition start_heap :: "'d ports \<Rightarrow> 'e environment \<Rightarrow> bootloader option \<Rightarrow> ('w, 'd, 'a) booted_scheme
    \<Rightarrow> fault + ('w, 'd, 'a) booted_scheme" where
  "start_heap io env loader s =
     (case loader of None \<Rightarrow> Inl Null_Deref | Some l \<Rightarrow>
      let length_in_bytes = get_heap_size l; kernel_size = 0x100000
      in if length_in_bytes < kernel_size then Inl Panic
         else let base_address = get_heap_base_address l + kernel_size; length_in_bytes' = length_in_bytes - kernel_size;
                  kb = length_in_bytes' div 1024
              in cbind (sys_print io s (\<lambda>_. []) (chars ''Heap address: 0x%llp, Size: %lldKB'' @ [13, 10, 0])
                          [ucast base_address, ucast (drop_bit 32 base_address), ucast kb, ucast (drop_bit 32 kb)]) (\<lambda>s1.
                 cbind (kheap_init (kernel_heap s1) (heap_table_memory env) (ucast base_address) (ucast length_in_bytes')) (\<lambda>(res, h).
                   if res < 0 then Inl Panic else Inr (s1\<lparr>kernel_heap := h\<rparr>))))"

definition start_paging :: "'d ports \<Rightarrow> ('w, 'd, 'a) booted_scheme \<Rightarrow> fault + ('w, 'd, 'a) booted_scheme" where
  "start_paging io s =
     cbind (say io (lit ''Enabling paging..'') s) (\<lambda>s1.
     cbind (paging_new_directory (PAGING_IS_WRITEABLE OR PAGING_IS_PRESENT OR PAGING_ACCESS_FROM_ALL) s1) (\<lambda>(chunk, s2).
       say io OK_line (paging_switch (s2\<lparr>kernel_paging_chunk := chunk\<rparr>) chunk)))"

definition start_pic :: "'d ports \<Rightarrow> ('w, 'd, 'a) booted_scheme \<Rightarrow> fault + ('w, 'd, 'a) booted_scheme" where
  "start_pic io s =
     cbind (say io (lit ''Remapping PIC..'') s) (\<lambda>s1. cbind (pic_SetHz io 1000 (device s1)) (\<lambda>d.
       say io (chars '' OK'' @ [13, 10, 0]) (s1\<lparr>device := pic_Remap io 0x20 0x28 d\<rparr>)))"

text \<open>The memory file of the framebuffer is an object of 12 bytes.\<close>

definition start_files :: "'b driver_state_scheme environment \<Rightarrow> ('b driver_state_scheme, 'd, 'a) booted_scheme
    \<Rightarrow> fault + ('b driver_state_scheme, 'd, 'a) booted_scheme" where
  "start_files env s =
     cbind (fs_insert_filesystem (fs_init (files s)) (Some (fat16_filesystem env))) (\<lambda>v.
     cbind (disk_search_and_init v) (\<lambda>(_, _, v1).
     cbind (kzalloc s 12) (\<lambda>(a, s1). cbind (mount_fb (vbe_screen s1) a v1) (\<lambda>v2. Inr (s1\<lparr>files := v2\<rparr>)))))"

definition start_drivers :: "'d ports \<Rightarrow> 'e environment \<Rightarrow> ('b driver_state_scheme, 'd, 'a) booted_scheme idt
    \<Rightarrow> ('b driver_state_scheme, 'd, 'a) booted_scheme
    \<Rightarrow> fault + (('b driver_state_scheme, 'd, 'a) booted_scheme idt \<times> ('b driver_state_scheme, 'd, 'a) booted_scheme)" where
  "start_drivers io env t s =
     cbind (ps2keyboard_setup io t s) (\<lambda>(_, t1, s1).
     cbind (kzalloc s1 20) (\<lambda>(a, s2). cbind (if a = 0 then Inr (0, s2) else kzalloc s2 (12 * 128)) (\<lambda>(buf, s3).
     cbind (PS2Mouse_setup io (buf \<noteq> 0) a (mouse_isr io (mouse_padding env)) t1 (files s3) (device s3)) (\<lambda>(m, t2, v, d).
       Inr (t2, s3\<lparr>mouse := m, mouse_pipe_at := a, files := v, device := d\<rparr>)))))"

definition start_syscalls :: "'d ports \<Rightarrow> ('b driver_state_scheme, 'd, 'a) booted_scheme
    \<Rightarrow> fault + (('b driver_state_scheme, 'd, 'a) booted_scheme SYSCALL option list \<times> ('b driver_state_scheme, 'd, 'a) booted_scheme)" where
  "start_syscalls io s =
     cbind (say io (lit ''Initializing syscalls..'') s) (\<lambda>s1.
     cbind (syscall_init io (replicate MAX_SYSCALLS None)) (\<lambda>tab. cbind (say io OK_line s1) (\<lambda>s2. Inr (tab, s2))))"

text \<open>The array of arguments is a null pointer: it lies at address 0.\<close>

definition start_shell :: "'d ports \<Rightarrow> 'e environment \<Rightarrow> ('w, 'd, 'a) booted_scheme
    \<Rightarrow> fault + ('w, 'd, 'a) booted_scheme" where
  "start_shell io env s =
     cbind (say io (lit ''Loading zofia.elf..'') s) (\<lambda>s1. cbind (process_new s1) (\<lambda>(process, s2).
     cbind (process_load_switch s2 (lit ''0:/shell.elf'') process) (\<lambda>(res, s3). cbind (get_process s3 process) (\<lambda>p.
     let (zofia, hello) = argument_strings env;
         m = store32 (store32 (ram s3) 0 zofia) 4 hello;
         s4 = put_process process (p\<lparr>argc := 2, argv := [zofia, hello]\<rparr>) (s3\<lparr>ram := m\<rparr>)
     in if res \<noteq> 0 then Inl Panic
        else cbind (say io OK_line s4) (\<lambda>s5. say io (chars ''Running task..'' @ [13, 10, 0]) s5)))))"

text \<open>All of it; the processor goes on in user mode with the registers.\<close>

definition kernel_main :: "'d ports \<Rightarrow> 'b driver_state_scheme environment \<Rightarrow> u32 \<Rightarrow> u32 \<Rightarrow> multiboot \<Rightarrow> gitboot
    \<Rightarrow> ('b driver_state_scheme, 'd, 'a) booted_scheme
    \<Rightarrow> fault + (registers \<times> byte list \<times> tss \<times> ('b driver_state_scheme, 'd, 'a) booted_scheme idt
       \<times> ('b driver_state_scheme, 'd, 'a) booted_scheme SYSCALL option list \<times> ('b driver_state_scheme, 'd, 'a) booted_scheme)" where
  "kernel_main io env magic info_ptr multiboot gitboot s =
     cbind (start_console io env magic info_ptr multiboot gitboot s) (\<lambda>(loader, s1).
     cbind (start_segments io env s1) (\<lambda>(gdt_real, s2).
     cbind (start_interrupts io env s2) (\<lambda>(t, s3).
     cbind (start_tss io s3) (\<lambda>(tss, s4).
     cbind (start_heap io env loader s4) (\<lambda>s5.
     cbind (start_paging io s5) (\<lambda>s6.
     cbind (start_pic io s6) (\<lambda>s7.
     cbind (start_files env s7) (\<lambda>s8.
     cbind (start_drivers io env t s8) (\<lambda>(t', s9).
     cbind (start_syscalls io s9) (\<lambda>(tab, s10).
     cbind (start_shell io env s10) (\<lambda>s11.
     cbind (task_run_first_ever_task s11) (\<lambda>(regs, s12). Inr (regs, gdt_real, tss, t', tab, s12)))))))))))))"

end
