(* ===== verification/KernelStart.thy ===== *)
theory KernelStart
  imports KernelMain
begin

text \<open>
  What \<open>kernel_main\<close> has when it is done with memory and interrupts (\<^verbatim>\<open>src/src/kernel/kernel.cpp\<close>): the stages of \<open>KernelMain\<close>
  composed, from the region the boot loader reports to the heap and the first address space.
\<close>

section \<open>Memory\<close>

lemma say_ok:
  assumes u: "uart io COM1 sent busy" and "0 \<notin> set cs" and "37 \<notin> set cs" and "length cs < 1024"
  shows "\<exists>d. say io (cs @ [0]) s = Inr (s\<lparr>device := d\<rparr>)"
proof -
  have "parse_format cs = Some (map Literal cs @ [])" using assms(3) by (induction cs) auto
  moreover have "format_text strs (map Literal cs @ []) [] = Some cs" for strs
    by (simp only: format_text_literals) simp
  ultimately obtain d where "kprintf_serial io (\<lambda>_. []) (cs @ [0]) [] (device s) = Inr d"
    using kprintf_serial_sends [OF u assms(2), of _ "\<lambda>_. []" "[]" cs "[]" "device s"] assms(4) by blast
  then show ?thesis by (intro exI [of _ d]) (simp add: say_def sys_print_def)
qed

lemma texts_plain:
  "\<forall>t\<in>{''Enabling paging..'', ''Initializing IDT..'', ''Initializing TSS..'', ''GitOS halted.''}. 0 \<notin> set (chars t) \<and> 37 \<notin> set (chars t) \<and> length (chars t) < 1024"
  by code_simp

lemma OK_line: "OK_line = (chars ''OK'' @ [13, 10]) @ [0]" "0 \<notin> set (chars ''OK'' @ [13, 10])" "37 \<notin> set (chars ''OK'' @ [13, 10])"
  by (simp add: OK_line_def) code_simp+

lemma heap_format:
  "parse_format (chars ''Heap address: 0x%llp, Size: %lldKB'' @ [13, 10]) = Some (map Literal (chars ''Heap address: 0x'') @ Word64 112 #
     map Literal (chars '', Size: '') @ Word64 100 # map Literal (chars ''KB'' @ [13, 10]) @ [])"
  "0 \<notin> set (chars ''Heap address: 0x%llp, Size: %lldKB'' @ [13, 10])"
  by code_simp+

lemma format_text_64:
  "format_text strs (Word64 112 # ds) (lo # hi # as) = map_option (append (unsigned_text 16 lo)) (format_text strs ds as)"
  "lo \<noteq> 0x80000000 \<Longrightarrow> format_text strs (Word64 100 # ds) (lo # hi # as) = map_option (append (decimal (sint lo))) (format_text strs ds as)"
  by (simp_all add: is_number_conv_def number_text_def)

lemma heap_line_ok:
  assumes u: "uart io COM1 sent busy" and "(ucast kb :: u32) \<noteq> 0x80000000"
  shows "\<exists>d. sys_print io s (\<lambda>_. []) (chars ''Heap address: 0x%llp, Size: %lldKB'' @ [13, 10, 0])
    [ucast (b :: u64), ucast (drop_bit 32 b), ucast (kb :: u64), ucast (drop_bit 32 kb)] = Inr (s\<lparr>device := d\<rparr>)"
proof -
  let ?t = "chars ''Heap address: 0x'' @ unsigned_text 16 (ucast b) @ chars '', Size: '' @ decimal (sint (ucast kb :: u32)) @ (chars ''KB'' @ [13, 10]) @ []"
  have ft: "format_text (\<lambda>_. []) (map Literal (chars ''Heap address: 0x'') @ Word64 112 #
     map Literal (chars '', Size: '') @ Word64 100 # map Literal (chars ''KB'' @ [13, 10]) @ [])
     [ucast b, ucast (drop_bit 32 b), ucast kb, ucast (drop_bit 32 kb)] = Some ?t"
    by (simp only: format_text_literals format_text_64 assms(2) not_False_eq_True format_text.simps(1) option.map)
  have "length ?t < 1024" using decimal_length [of "ucast kb"] unsigned_length [of "ucast b"] by (simp add: chars_def)
  then show ?thesis using kprintf_serial_sends [OF u heap_format(2,1) ft, of "[]" "device s"]
    by (auto simp: sys_print_def)
qed

lemma new_directory_maps:
  assumes "kmem_inv s" and "1026 \<le> kmem_room s"
  shows "\<exists>chunk pd pts s'. paging_new_directory fl s = Inr (chunk, s') \<and> kmem_inv s' \<and> address_space (ram s') chunk pd pts
    \<and> same_place s s' \<and> same_kernel s s' \<and> (\<forall>v. page v \<longrightarrow> paging_get_page (ram s') pd v = v OR ucast fl)"
proof -
  obtain chunk pd pts s' where s': "new_directory kzalloc fl s = Inr (chunk, s')" "kp.directory_built s fl chunk pd pts s'"
    using kp.new_directory_spec [OF assms] by blast
  moreover have "paging_new_directory fl s = Inr (chunk, s')" using s'(1) by (simp add: paging_new_directory_def)
  ultimately show ?thesis using new_directory_place [OF s'(1)] paging_new_directory_same by (auto simp: kp.directory_built_def) blast
qed

lemma kheap_init_total: "kheap_init h0 tab a n = Inr (0, h) \<Longrightarrow> total (table h) = n div 4096"
  by (auto simp: kheap_init_def heap_create_def Let_def cbind_eq_Inr EINVARG_def split: if_splits)

text \<open>The heap lies in the loader's region, behind the first MiB.\<close>

definition heap_start :: "bootloader \<Rightarrow> u32" where
  "heap_start l = ucast (get_heap_base_address l + 0x100000)"

lemma start_heap_ok:
  assumes u: "uart io COM1 sent busy" and len: "0x100000 + 4096 \<le> unat (get_heap_size l)" "unat (get_heap_size l) \<le> 2 ^ 31 + 0x100000"
    and al: "unat (get_heap_size l) mod 4096 = 0" "unat (heap_start l) mod 4096 = 0"
    and r: "0 < unat (heap_start l)" "unat (heap_start l) + (unat (get_heap_size l) - 0x100000) < 2 ^ 32"
    and tab: "length (heap_table_memory env) = (unat (get_heap_size l) - 0x100000) div 4096"
  shows "\<exists>d h. start_heap io env (Some l) s = Inr (s\<lparr>device := d, kernel_heap := h\<rparr>) \<and> heap_wf h \<and> heap_owned h = {}
    \<and> start_address h = heap_start l \<and> heap_room h = (unat (get_heap_size l) - 0x100000) div 4096
    \<and> unat (total (table h)) = (unat (get_heap_size l) - 0x100000) div 4096"
proof -
  let ?n = "get_heap_size l - 0x100000"
  have le: "0x100000 \<le> get_heap_size l" using len(1) by (simp add: word_le_nat_alt)
  then have n: "unat ?n = unat (get_heap_size l) - 0x100000" by (simp add: unat_sub)
  then have n32: "unat (ucast ?n :: u32) = unat (get_heap_size l) - 0x100000"
    using len(2) by (simp add: unsigned_ucast_eq take_bit_nat_eq_self)
  have k: "unat (ucast (?n div 1024) :: u32) = unat ?n div 1024" "unat ?n div 1024 < 2 ^ 31"
    using n len(2) by (simp_all add: unsigned_ucast_eq take_bit_nat_eq_self unat_div)
  have "(ucast (?n div 1024) :: u32) \<noteq> 0x80000000"
  proof
    assume "(ucast (?n div 1024) :: u32) = 0x80000000"
    then have "unat (ucast (?n div 1024) :: u32) = 2147483648" by simp
    then show False using k by simp
  qed
  then obtain d where d: "sys_print io s (\<lambda>_. []) (chars ''Heap address: 0x%llp, Size: %lldKB'' @ [13, 10, 0])
      [ucast (get_heap_base_address l + 0x100000), ucast (drop_bit 32 (get_heap_base_address l + 0x100000)), ucast (?n div 1024),
       ucast (drop_bit 32 (?n div 1024))] = Inr (s\<lparr>device := d\<rparr>)"
    using heap_line_ok [OF u] by blast
  have al': "(unat (get_heap_size l) - 0x100000) mod 4096 = 0"
  proof -
    have "4096 dvd unat (get_heap_size l)" "4096 dvd (0x100000 :: nat)" using al(1) by (simp_all add: dvd_eq_mod_eq_0)
    then have "4096 dvd unat (get_heap_size l) - 0x100000" by (rule dvd_diff_nat)
    then show ?thesis by simp
  qed
  have p: "unat (heap_start l) + unat (ucast ?n :: u32) < 2 ^ 32" "unat (ucast ?n :: u32) \<le> 2 ^ 31"
    "length (heap_table_memory env) = unat (ucast ?n :: u32) div 4096" using n32 r(2) len tab by simp_all
  obtain h where h: "kheap_init (kernel_heap s) (heap_table_memory env) (heap_start l) (ucast ?n) = Inr (0, h)" "heap_wf h" "heap_owned h = {}"
    "start_address h = heap_start l" "heap_room h = (unat (get_heap_size l) - 0x100000) div 4096"
    using kheap_init_result [OF p(1) r(1) p(2,3), of "kernel_heap s"] al(2) al' unfolding n32 by auto
  have "unat (total (table h)) = (unat (get_heap_size l) - 0x100000) div 4096"
    using kheap_init_total [OF h(1)] n32 by (simp add: unat_div)
  then show ?thesis using h d le
    by (intro exI [of _ d] exI [of _ h]) (simp add: start_heap_def heap_start_def Let_def not_less)
qed

lemma start_paging_ok:
  assumes u: "uart io COM1 sent busy" and "kmem_inv s" and "1026 \<le> kmem_room s"
  shows "\<exists>s' pd pts. start_paging io s = Inr s' \<and> kmem_inv s' \<and> address_space (ram s') (kernel_paging_chunk s') pd pts \<and> cr3 s' = pd
    \<and> same_place s s' \<and> (\<forall>v. page v \<longrightarrow> paging_get_page (ram s') pd v = v OR 7)"
proof -
  let ?fl = "PAGING_IS_WRITEABLE OR PAGING_IS_PRESENT OR PAGING_ACCESS_FROM_ALL"
  have fl: "ucast ?fl = (7 :: u32)" by (simp add: PAGING_IS_WRITEABLE_def PAGING_IS_PRESENT_def PAGING_ACCESS_FROM_ALL_def)
  obtain d1 where d1: "say io (chars ''Enabling paging..'' @ [0]) s = Inr (s\<lparr>device := d1\<rparr>)"
    using say_ok [OF u, of "chars ''Enabling paging..''" s] texts_plain by auto
  let ?s = "s\<lparr>device := d1\<rparr>"
  have "kmem_inv ?s" "1026 \<le> kmem_room ?s" using assms(2,3) by (simp_all add: kmem_inv_def kmem_room_def)
  from new_directory_maps [OF this, of ?fl] obtain chunk pd pts s2 where s2: "paging_new_directory ?fl ?s = Inr (chunk, s2)" "kmem_inv s2"
    "address_space (ram s2) chunk pd pts" "same_place ?s s2" "\<forall>v. page v \<longrightarrow> paging_get_page (ram s2) pd v = v OR ucast ?fl"
    by blast
  let ?s3 = "paging_switch (s2\<lparr>kernel_paging_chunk := chunk\<rparr>) chunk"
  obtain d2 where d2: "say io OK_line ?s3 = Inr (?s3\<lparr>device := d2\<rparr>)"
    using say_ok [OF u OK_line(2,3), of ?s3] by (auto simp: OK_line(1) chars_def)
  have pd: "load32 (ram s2) chunk = pd" using s2(3) by (simp add: address_space_def)
  have "start_paging io s = Inr (?s3\<lparr>device := d2\<rparr>)"
    using d1 s2(1) d2 by (simp add: start_paging_def lit_def)
  then show ?thesis using s2(2-5) pd fl
    by (intro exI [of _ "?s3\<lparr>device := d2\<rparr>"] exI [of _ pd] exI [of _ pts])
      (simp add: paging_switch_def paging_load_directory_def kmem_inv_def same_place_def)
qed

text \<open>The kernel keeps the low half of the region's address.\<close>

lemma ucast_add_64: "(ucast (a + b :: u64) :: u32) = ucast a + ucast b"
proof transfer
  fix a b :: int
  have "(take_bit 64 a + take_bit 64 b) mod 2 ^ 32 = (take_bit 64 a mod 2 ^ 32 + take_bit 64 b mod 2 ^ 32) mod 2 ^ 32" by (rule mod_add_eq [symmetric])
  also have "\<dots> = (a + b) mod 2 ^ 32" by (simp add: take_bit_eq_mod mod_mod_cancel mod_add_eq)
  finally show "take_bit LENGTH(32) (take_bit LENGTH(64) (a + b)) = take_bit LENGTH(32) (take_bit LENGTH(64) a + take_bit LENGTH(64) b)"
    by (simp add: take_bit_eq_mod mod_mod_cancel)
qed

lemma low_half: "(ucast (4296015872 + ucast (low :: u32) :: u64) :: u32) = low + 0x100000"
proof -
  have "(ucast (ucast low :: u64) :: u32) = low" by transfer simp
  then show ?thesis by (simp add: ucast_add_64)
qed

text \<open>Everything the heap hands out lies in its range.\<close>

lemma owned_in_heap:
  assumes "heap_wf h" and "(p, n) \<in> heap_owned h" and "a \<in> region p n"
  shows "unat (start_address h) \<le> unat a \<and> unat a < unat (start_address h) + 4096 * unat (total (table h))"
proof -
  obtain k where k: "p = block_ptr h k" "is_alloc (entries (table h)) k n" using assms(2) by (auto simp: heap_owned_def)
  note b = alloc_bounds [OF k(2)]
  have "unat p = unat (start_address h) + 4096 * k" using block_ptr_unat [OF assms(1)] k(1) b by simp
  moreover have "length (entries (table h)) = unat (total (table h))" using assms(1) by (simp add: heap_wf_def)
  then have "4096 * (k + n) \<le> 4096 * unat (total (table h))" using b by simp
  ultimately show ?thesis using assms(3) by (simp add: region_def)
qed

section \<open>Properties\<close>

text \<open>C14: From a page-aligned region below 4 GiB with room for the page tables, the kernel gets a heap and an address space of its
  own: everything the heap hands out lies in the region, behind the first MiB where the kernel is, and the directory that
  is switched to maps every page to itself.\<close>

theorem boot_memory_ready:
  assumes "uart io COM1 sent busy" and "unat (get_heap_base_address l) + unat (get_heap_size l) < 2 ^ 32"
    and "unat (get_heap_base_address l) mod 4096 = 0" and "unat (get_heap_size l) mod 4096 = 0"
    and "0x100000 + 1026 * 4096 \<le> unat (get_heap_size l)" and "unat (get_heap_size l) \<le> 2 ^ 31 + 0x100000"
    and "length (heap_table_memory env) = (unat (get_heap_size l) - 0x100000) div 4096"
  shows "\<exists>s1 s2 pd pts. start_heap io env (Some l) s = Inr s1 \<and> start_paging io s1 = Inr s2 \<and> kmem_inv s2
    \<and> (\<forall>(p, n)\<in>kmem_owned s2. \<forall>a\<in>region p n. unat (get_heap_base_address l) + 0x100000 \<le> unat a
         \<and> unat a < unat (get_heap_base_address l) + unat (get_heap_size l))
    \<and> address_space (ram s2) (kernel_paging_chunk s2) pd pts \<and> cr3 s2 = pd
    \<and> (\<forall>v. unat v mod 4096 = 0 \<longrightarrow> paging_get_page (ram s2) pd v = v OR 7)"
proof -
  let ?b = "get_heap_base_address l" and ?len = "get_heap_size l"
  have "unat (?b + 0x100000) = unat ?b + 0x100000" using assms(2,5) by (simp add: unat_word_ariths)
  then have hs: "unat (heap_start l) = unat ?b + 0x100000"
    using assms(2,5) by (simp add: heap_start_def unsigned_ucast_eq take_bit_nat_eq_self)
  have al: "unat (heap_start l) mod 4096 = 0" using hs assms(3) by (simp add: mod_add_eq [symmetric, of "unat ?b"])
  have len: "0x100000 + 4096 \<le> unat ?len" "0 < unat (heap_start l)" "unat (heap_start l) + (unat ?len - 0x100000) < 2 ^ 32"
    using assms(2,5) hs by simp_all
  obtain d h where h: "start_heap io env (Some l) s = Inr (s\<lparr>device := d, kernel_heap := h\<rparr>)" "heap_wf h" "heap_owned h = {}"
    "start_address h = heap_start l" "heap_room h = (unat ?len - 0x100000) div 4096"
    "unat (total (table h)) = (unat ?len - 0x100000) div 4096"
    using start_heap_ok [OF assms(1) len(1) assms(6,4) al len(2,3) assms(7), of s] by blast
  let ?s = "s\<lparr>device := d, kernel_heap := h\<rparr>"
  have "1026 * 4096 div 4096 \<le> (unat ?len - 0x100000) div 4096" using assms(5) by (intro div_le_mono) simp
  then have inv: "kmem_inv ?s" "1026 \<le> kmem_room ?s" using h(2,5) by (simp_all add: kmem_inv_def kmem_room_def)
  obtain s2 pd pts where s2: "start_paging io ?s = Inr s2" "kmem_inv s2" "address_space (ram s2) (kernel_paging_chunk s2) pd pts"
    "cr3 s2 = pd" "same_place ?s s2" "\<forall>v. page v \<longrightarrow> paging_get_page (ram s2) pd v = v OR 7"
    using start_paging_ok [OF assms(1) inv] by blast
  have tot: "4096 * unat (total (table h)) \<le> unat ?len - 0x100000" using h(6) by simp
  have "\<forall>a\<in>region p n. unat ?b + 0x100000 \<le> unat a \<and> unat a < unat ?b + unat ?len" if "(p, n) \<in> kmem_owned s2" for p n
  proof
    fix a assume a: "a \<in> region p n"
    have "heap_wf (kernel_heap s2)" "(p, n) \<in> heap_owned (kernel_heap s2)" using s2(2) that by (simp_all add: kmem_inv_def kmem_owned_def)
    from owned_in_heap [OF this a] have "unat ?b + 0x100000 \<le> unat a" "unat a < unat ?b + 0x100000 + 4096 * unat (total (table h))"
      using s2(5) h(4) hs by (simp_all add: same_place_def)
    then show "unat ?b + 0x100000 \<le> unat a \<and> unat a < unat ?b + unat ?len" using tot len(1) by linarith
  qed
  then show ?thesis using h(1) s2 by (intro exI [of _ ?s] exI [of _ s2] exI [of _ pd] exI [of _ pts]) (auto simp: page_def)
qed

text \<open>A region that starts at 4 GiB or above is not reached: the heap is built at the low 32 bits of its address, and the
  largest region is one like that on a machine with much memory.  For the region at 4 GiB itself the heap starts at 1 MiB,
  where the kernel was loaded.\<close>

theorem boot_region_above_4g:
  assumes "uart io COM1 sent busy" and "get_heap_base_address l = 0x100000000 + ucast low"
    and "unat (low :: u32) mod 4096 = 0" and "unat (get_heap_size l) mod 4096 = 0"
    and "0x100000 + 4096 \<le> unat (get_heap_size l)" and "unat (get_heap_size l) \<le> 2 ^ 31 + 0x100000"
    and "unat low + unat (get_heap_size l) < 2 ^ 32"
    and "length (heap_table_memory env) = (unat (get_heap_size l) - 0x100000) div 4096"
  shows "\<exists>s'. start_heap io env (Some l) s = Inr s' \<and> kmem_inv s' \<and> start_address (kernel_heap s') = low + 0x100000"
proof -
  have hs: "heap_start l = low + 0x100000" by (simp add: heap_start_def assms(2) low_half)
  have ge: "0x100000 \<le> unat (low + 0x100000)" "unat (low + 0x100000) = unat low + 0x100000"
    using assms(5,7) by (simp_all add: unat_word_ariths)
  have al: "unat (heap_start l) mod 4096 = 0" using hs ge(2) assms(3) by (simp add: mod_add_eq [symmetric, of "unat low"])
  have r: "0 < unat (heap_start l)" "unat (heap_start l) + (unat (get_heap_size l) - 0x100000) < 2 ^ 32"
    using hs ge assms(5,7) by simp_all
  obtain d h where h: "start_heap io env (Some l) s = Inr (s\<lparr>device := d, kernel_heap := h\<rparr>)" "heap_wf h" "start_address h = heap_start l"
    using start_heap_ok [OF assms(1,5,6,4) al r assms(8), of s] by blast
  then show ?thesis using hs by (intro exI [of _ "s\<lparr>device := d, kernel_heap := h\<rparr>"]) (simp add: kmem_inv_def)
qed

section \<open>Witnesses\<close>

definition sample_booted :: "(driver_state, byte list \<times> nat) booted" where
  "sample_booted = system.extend sample_system (booted.fields (TextModeGraphics (replicate 4000 0))
     (sample_vbe\<lparr>m_setup := False\<rparr>) \<lparr>mouse_cycle = 0, mouse_byte = [], mouse_pipe = PipeFS True 1536\<rparr> 0 0 0)"

text \<open>A machine with 64 MiB, and one with 63 MiB above 4 GiB.\<close>

definition sample_loader :: "u64 \<Rightarrow> bootloader" where
  "sample_loader b = From_Multiboot \<lparr>m_cmdline = 0, m_bootloader_name = 0, m_is_multiboot = True, m_base_address = b,
     m_len = 0x3F00000\<rparr>"

definition sample_environment :: "unit environment" where
  "sample_environment = \<lparr>boot_memory = (\<lambda>_. 0), video_memory = (\<lambda>_. []), heap_table_memory = replicate 15872 7,
     fat16_filesystem = echo_driver, source_file = lit ''kernel.cpp'', build_date = lit ''Jan'', build_time = lit ''12:00'',
     tss_address = 0x120000, gdt_address = 0x121000, idt_address = 0x122000, entry_points = (\<lambda>i. 0x110000 + word_of_nat (16 * i)),
     syscall_wrapper = 0x111800, argument_strings = (0x123000, 0x123010), mouse_padding = [0, 0, 0]\<rparr>"

theorem boot_memory_ready_witness:
  "\<exists>s1 s2. start_heap slow_uart sample_environment (Some (sample_loader 0x100000)) sample_booted = Inr s1
    \<and> start_paging slow_uart s1 = Inr s2 \<and> kmem_inv s2 \<and> paging_get_page (ram s2) (cr3 s2) 0x5000 = 0x5007"
proof -
  have "unat (0x5000 :: u32) mod 4096 = 0" by simp
  then show ?thesis
    using boot_memory_ready [OF slow_uart_ok, of "sample_loader 0x100000" sample_environment sample_booted]
    by (auto simp: sample_loader_def sample_environment_def)
qed

theorem boot_region_above_4g_witness:
  "\<exists>s1. start_heap slow_uart sample_environment (Some (sample_loader 0x100000000)) sample_booted = Inr s1
    \<and> start_address (kernel_heap s1) = 0x100000"
  using boot_region_above_4g [OF slow_uart_ok, of "sample_loader 0x100000000" 0 sample_environment sample_booted]
  by (auto simp: sample_loader_def sample_environment_def)

section \<open>Interrupts\<close>

lemma set_exceptions_spec:
  "n \<le> 32 \<Longrightarrow> length (interrupt_handlers t) = 256 \<Longrightarrow>
   interrupt_handlers (set_exceptions h n t) = replicate n (Some h) @ drop n (interrupt_handlers t)
   \<and> idt_descriptors (set_exceptions h n t) = idt_descriptors t \<and> idtr_descriptor (set_exceptions h n t) = idtr_descriptor t"
proof (induction n)
  case (Suc n)
  have "(replicate n (Some h) @ drop n (interrupt_handlers t))[n := Some h] = replicate (Suc n) (Some h) @ drop (Suc n) (interrupt_handlers t)"
  proof -
    have "drop n (interrupt_handlers t) = interrupt_handlers t ! n # drop (Suc n) (interrupt_handlers t)"
      using Suc.prems Cons_nth_drop_Suc [of n "interrupt_handlers t"] by simp
    moreover have "replicate (Suc n) (Some h) = replicate n (Some h) @ [Some h]" by (simp add: replicate_append_same)
    ultimately show ?thesis by (simp only: list_update_append length_replicate less_irrefl if_False diff_self_eq_0 list_update_code append_assoc append_Cons append_Nil)
  qed
  then show ?case using Suc by (simp add: idt_SetHandler_def MAX_INTERRUPTS_def)
qed simp



end
