(* ===== verification/Crash.thy ===== *)
theory Crash
  imports KernelStart
begin

text \<open>
  Processor exceptions, \<open>kernel_exception\<close> of \<^verbatim>\<open>src/src/kernel/kernel.cpp\<close>: what is printed, as text and on the screen, and what
  becomes of the process that caused the exception.  The definitions here are specifications (texts, the chain of frame
  pointers); the model of the code is in \<open>KernelMain\<close>.
\<close>

section \<open>Texts\<close>

text \<open>What an exception prints, as text.\<close>

definition hex :: "u32 \<Rightarrow> byte list" where "hex v = unsigned_text 16 v"

definition register_line :: "string \<Rightarrow> u32 \<Rightarrow> byte list" where
  "register_line name v = chars name @ chars '': '' @ decimal (sint v) @ chars '' (0x'' @ hex v @ chars '')'' @ [10]"

definition hex_line :: "string \<Rightarrow> u32 \<Rightarrow> byte list" where
  "hex_line name v = chars name @ chars '': 0x'' @ hex v @ [10]"

definition frame_text :: "interrupt_frame \<Rightarrow> byte list" where
  "frame_text f = chars ''Interrupt frame:'' @ 10 # register_line ''edi'' (f_edi f) @ register_line ''esi'' (f_esi f) @
     register_line ''ebp'' (f_ebp f) @ register_line ''ebx'' (f_ebx f) @ register_line ''edx'' (f_edx f) @
     register_line ''ecx'' (f_ecx f) @ register_line ''eax'' (f_eax f) @ hex_line ''ip'' (f_ip f) @
     chars ''flags: 0b'' @ unsigned_text 2 (f_flags f) @ 10 # hex_line ''esp'' (f_esp f) @ hex_line ''cs'' (f_cs f) @
     hex_line ''ss'' (f_ss f) @ chars ''error: '' @ decimal (sint (f_error_code f)) @ [10]"

definition control_text :: "u32 \<Rightarrow> u32 \<Rightarrow> byte list" where
  "control_text c0 c2 = chars ''cr0: 0b'' @ unsigned_text 2 c0 @ 10 # register_line ''cr2'' c2 @ [10]"

definition trace_text :: "u32 list \<Rightarrow> byte list" where
  "trace_text as = concat (map (\<lambda>a. chars ''0x'' @ hex a @ [10]) as)"

definition crash_heading :: "byte list \<Rightarrow> nat \<Rightarrow> byte list" where
  "crash_heading name n = 10 # 10 # chars ''Process '' @ name @ chars '' crashed! Exception thrown by CPU: ''
     @ chars (idt_InterruptLayoutString ! n) @ [10]"

text \<open>Registers that \<open>%d\<close> can print.\<close>

definition printable :: "interrupt_frame \<Rightarrow> bool" where
  "printable f = (0x80000000 \<notin> {f_edi f, f_esi f, f_ebp f, f_ebx f, f_edx f, f_ecx f, f_eax f, f_error_code f})"

lemma text_bounds:
  "length (hex v) \<le> 8" "length (unsigned_text 2 v) \<le> 32" "0 \<notin> set (hex v)" "0 \<notin> set (unsigned_text 2 v)"
proof -
  have l: "unat v < 16 ^ 8" "unat v < 2 ^ 32" using unsigned_less [of v, where 'a = nat] by simp_all
  show "length (hex v) \<le> 8" "length (unsigned_text 2 v) \<le> 32"
    using num_chars_length [OF _ l(1)] num_chars_length [OF _ l(2)] by (simp_all add: hex_def unsigned_text_def)
  show "0 \<notin> set (hex v)" "0 \<notin> set (unsigned_text 2 v)"
    using uitoa_internal(2) [of 16] uitoa_internal(2) [of 2] by (simp_all add: hex_def)
qed

lemma decimal_no_nul: "v \<noteq> 0x80000000 \<Longrightarrow> 0 \<notin> set (decimal (sint (v :: u32)))"
  by (rule itoa_internal(2))

lemma chars_no_nul: "0 \<notin> set (chars [])"
  "0 \<notin> set (chars (c # cs)) \<longleftrightarrow> of_char c \<noteq> (0 :: byte) \<and> 0 \<notin> set (chars cs)"
  by (auto simp: chars_def)

lemma length_chars [simp]: "length (chars cs) = length cs"
  by (simp add: chars_def)

lemma register_line_bounds:
  "length (register_line name v) \<le> length name + 27"
  "v \<noteq> 0x80000000 \<Longrightarrow> 0 \<notin> set (chars name) \<Longrightarrow> 0 \<notin> set (register_line name v)"
  using decimal_length [of v] text_bounds [of v] decimal_no_nul [of v]
  by (simp_all add: register_line_def) (simp add: chars_def)

lemma hex_line_bounds:
  "length (hex_line name v) \<le> length name + 13"
  "0 \<notin> set (chars name) \<Longrightarrow> 0 \<notin> set (hex_line name v)"
  using text_bounds [of v] by (simp_all add: hex_line_def) (simp add: chars_def)

lemma frame_text_bounds:
  assumes "printable f"
  shows "length (frame_text f) < 512" "0 \<notin> set (frame_text f)"
proof -
  note b = register_line_bounds(1) [of "''edi''" "f_edi f"] register_line_bounds(1) [of "''esi''" "f_esi f"]
    register_line_bounds(1) [of "''ebp''" "f_ebp f"] register_line_bounds(1) [of "''ebx''" "f_ebx f"]
    register_line_bounds(1) [of "''edx''" "f_edx f"] register_line_bounds(1) [of "''ecx''" "f_ecx f"]
    register_line_bounds(1) [of "''eax''" "f_eax f"] hex_line_bounds(1) [of "''ip''" "f_ip f"]
    hex_line_bounds(1) [of "''esp''" "f_esp f"] hex_line_bounds(1) [of "''cs''" "f_cs f"]
    hex_line_bounds(1) [of "''ss''" "f_ss f"] text_bounds(2) [of "f_flags f"] decimal_length [of "f_error_code f"]
  show "length (frame_text f) < 512" unfolding frame_text_def using b by simp
  show "0 \<notin> set (frame_text f)" using assms
    by (auto simp: frame_text_def printable_def register_line_bounds(2) hex_line_bounds(2) text_bounds chars_no_nul decimal_no_nul)
qed

lemma control_text_bounds:
  assumes "c2 \<noteq> 0x80000000"
  shows "length (control_text c0 c2) < 1024" "0 \<notin> set (control_text c0 c2)"
  using register_line_bounds(1) [of "''cr2''" c2] register_line_bounds(2) [of c2 "''cr2''"] text_bounds [of c0] assms
  by (auto simp: control_text_def chars_no_nul)

lemma layout_names:
  "length idt_InterruptLayoutString = 32"
  "\<forall>name\<in>set idt_InterruptLayoutString. length name < 40 \<and> 0 \<notin> set (chars name)"
  by code_simp+

section \<open>Formats\<close>

definition frame_format :: "byte list" where
  "frame_format = chars ''Interrupt frame:'' @ 10 # chars ''edi: %d (0x%x)'' @ 10 # chars ''esi: %d (0x%x)'' @ 10 # chars ''ebp: %d (0x%x)'' @
     10 # chars ''ebx: %d (0x%x)'' @ 10 # chars ''edx: %d (0x%x)'' @ 10 # chars ''ecx: %d (0x%x)'' @ 10 # chars ''eax: %d (0x%x)'' @
     10 # chars ''ip: 0x%x'' @ 10 # chars ''flags: 0b%b'' @ 10 # chars ''esp: 0x%x'' @ 10 # chars ''cs: 0x%x'' @ 10 #
     chars ''ss: 0x%x'' @ 10 # chars ''error: %d'' @ [10]"

definition register_line_format :: "string \<Rightarrow> directive list" where
  "register_line_format name = map Literal (chars name) @ map Literal (chars '': '') @ Word32 100 # map Literal (chars '' (0x'') @ Word32 120 # map Literal (chars '')'') @ [Literal 10]"

definition hex_line_format :: "string \<Rightarrow> directive list" where
  "hex_line_format name = map Literal (chars name) @ map Literal (chars '': 0x'') @ Word32 120 # [Literal 10]"

lemma frame_format_parses:
  "parse_format frame_format = Some (map Literal (chars ''Interrupt frame:'') @ Literal 10 # register_line_format ''edi'' @
     register_line_format ''esi'' @ register_line_format ''ebp'' @ register_line_format ''ebx'' @ register_line_format ''edx'' @
     register_line_format ''ecx'' @ register_line_format ''eax'' @ hex_line_format ''ip'' @ map Literal (chars ''flags: 0b'') @ Word32 98 #
     Literal 10 # hex_line_format ''esp'' @ hex_line_format ''cs'' @ hex_line_format ''ss'' @ map Literal (chars ''error: '') @ Word32 100 # [Literal 10])"
  "0 \<notin> set frame_format"
  by code_simp+

lemma control_format_parses:
  "parse_format (chars ''cr0: 0b%b'' @ 10 # chars ''cr2: %d (0x%x)'' @ [10, 10]) = Some (map Literal (chars ''cr0: 0b'') @ Word32 98 # Literal 10 #
     register_line_format ''cr2'' @ [Literal 10])"
  "0 \<notin> set (chars ''cr0: 0b%b'' @ 10 # chars ''cr2: %d (0x%x)'' @ [10, 10])"
  by code_simp+

lemma crash_format_parses:
  "parse_format (10 # 10 # chars ''Process %s crashed! Exception thrown by CPU: %s'' @ [10]) = Some (Literal 10 # Literal 10 # map Literal (chars ''Process '') @
     String # map Literal (chars '' crashed! Exception thrown by CPU: '') @ String # [Literal 10])"
  "0 \<notin> set (10 # 10 # chars ''Process %s crashed! Exception thrown by CPU: %s'' @ [10])"
  by code_simp+

lemma trace_format_parses:
  "parse_format (chars ''0x%x'' @ [10]) = Some (map Literal (chars ''0x'') @ Word32 120 # [Literal 10])" "0 \<notin> set (chars ''0x%x'' @ [10])"
  by code_simp+

lemma format_text_numbers:
  "format_text strs (Word32 120 # ds) (a # as) = map_option (append (hex a)) (format_text strs ds as)"
  "format_text strs (Word32 98 # ds) (a # as) = map_option (append (unsigned_text 2 a)) (format_text strs ds as)"
  "has_nul (strs a) \<Longrightarrow> format_text strs (String # ds) (a # as) = map_option (append (cstr (strs a))) (format_text strs ds as)"
  by (simp_all add: is_number_conv_def number_text_def hex_def)

lemma format_text_lines:
  "a \<noteq> 0x80000000 \<Longrightarrow> format_text strs (register_line_format name @ ds) (a # a # as) = map_option (append (register_line name a)) (format_text strs ds as)"
  "format_text strs (hex_line_format name @ ds) (a # as) = map_option (append (hex_line name a)) (format_text strs ds as)"
  by (cases "format_text strs ds as"; simp add: register_line_format_def hex_line_format_def register_line_def hex_line_def
      format_text_eqs format_text_numbers option.map_comp comp_def del: format_text.simps(2))+

lemma formatted_text:
  assumes "0 \<notin> set cs" and "parse_format cs = Some ds" and "format_text strs ds as = Some t" and "length t < n" and "0 \<notin> set t"
  shows "\<exists>b. formatted n strs (cs @ [0]) as = Inr b \<and> has_nul b \<and> cstr b = t"
proof -
  have "formatted n strs (cs @ [0]) as = Inr (blit (replicate n 0) 0 t)"
    using kvsprintf_loop_run [OF assms(1-3), of 0 "replicate n 0" "replicate 512 0" "[]"] assms(4)
    by (simp add: formatted_def ksprintf_def)
  moreover have "blit (replicate n 0) 0 t = t @ 0 # replicate (n - length t - 1) 0"
    using assms(4) by (simp add: blit_def flip: replicate_Suc)
  ultimately show ?thesis using cstr_append_nul [OF assms(5)] by (auto simp: has_nul_def)
qed
lemma frame_formatted:
  assumes "printable f"
  shows "\<exists>b. formatted 512 (\<lambda>_. []) (frame_format @ [0]) [f_edi f, f_edi f, f_esi f, f_esi f, f_ebp f, f_ebp f, f_ebx f, f_ebx f,
      f_edx f, f_edx f, f_ecx f, f_ecx f, f_eax f, f_eax f, f_ip f, f_flags f, f_esp f, f_cs f, f_ss f, f_error_code f] = Inr b
    \<and> has_nul b \<and> cstr b = frame_text f"
proof -
  have p: "0x80000000 \<notin> {f_edi f, f_esi f, f_ebp f, f_ebx f, f_edx f, f_ecx f, f_eax f, f_error_code f}"
    using assms by (simp add: printable_def)
  have "format_text (\<lambda>_. []) (the (parse_format frame_format)) [f_edi f, f_edi f, f_esi f, f_esi f, f_ebp f, f_ebp f, f_ebx f, f_ebx f,
      f_edx f, f_edx f, f_ecx f, f_ecx f, f_eax f, f_eax f, f_ip f, f_flags f, f_esp f, f_cs f, f_ss f, f_error_code f] = Some (frame_text f)"
    using p by (simp add: frame_format_parses format_text_eqs format_text_numbers format_text_lines frame_text_def del: format_text.simps(2))
  from formatted_text [OF frame_format_parses(2) _ this frame_text_bounds [OF assms]]
  show ?thesis by (simp add: frame_format_parses)
qed

lemma control_formatted:
  assumes "c2 \<noteq> 0x80000000"
  shows "\<exists>b. formatted 1024 (\<lambda>_. []) (chars ''cr0: 0b%b'' @ 10 # chars ''cr2: %d (0x%x)'' @ [10, 10, 0]) [c0, c2, c2] = Inr b
    \<and> has_nul b \<and> cstr b = control_text c0 c2"
proof -
  have "format_text (\<lambda>_. []) (map Literal (chars ''cr0: 0b'') @ Word32 98 # Literal 10 # register_line_format ''cr2'' @ [Literal 10]) [c0, c2, c2]
      = Some (control_text c0 c2)"
    using assms by (simp add: format_text_eqs format_text_numbers format_text_lines control_text_def del: format_text.simps(2))
  from formatted_text [OF control_format_parses(2,1) this control_text_bounds [OF assms]]
  show ?thesis by simp
qed

lemma trace_formatted:
  "\<exists>b. formatted 1024 (\<lambda>_. []) (chars ''0x%x'' @ [10, 0]) [a] = Inr b \<and> has_nul b \<and> cstr b = chars ''0x'' @ hex a @ [10]"
proof -
  let ?t = "chars ''0x'' @ hex a @ [10]"
  have f: "format_text (\<lambda>_. []) (map Literal (chars ''0x'') @ Word32 120 # [Literal 10]) [a] = Some ?t"
    by (simp add: format_text_eqs format_text_numbers del: format_text.simps(2))
  have t: "length ?t < 1024" "0 \<notin> set ?t" using text_bounds [of a] by (simp_all add: chars_no_nul)
  from formatted_text [OF trace_format_parses(2,1) f t] show ?thesis by simp
qed

lemma crash_formatted:
  assumes "has_nul file_name" and "length (cstr file_name) \<le> 900" and "n < 32"
  shows "\<exists>b. formatted 1024 (\<lambda>q. if q = 0 then file_name else lit (idt_InterruptLayoutString ! n))
      (10 # 10 # chars ''Process %s crashed! Exception thrown by CPU: %s'' @ [10, 0]) [0, 1] = Inr b
    \<and> has_nul b \<and> cstr b = crash_heading (cstr file_name) n"
proof -
  let ?name = "idt_InterruptLayoutString ! n" and ?t = "crash_heading (cstr file_name) n"
  have "?name \<in> set idt_InterruptLayoutString" using assms(3) layout_names(1) by simp
  then have n: "length ?name < 40" "0 \<notin> set (chars ?name)" using layout_names(2) by blast+
  have h: "has_nul (lit ?name)" "cstr (lit ?name) = chars ?name" using n(2) by (simp_all add: lit_def has_nul_def cstr_append_nul)
  have f: "format_text (\<lambda>q. if q = 0 then file_name else lit ?name) (Literal 10 # Literal 10 # map Literal (chars ''Process '') @
     String # map Literal (chars '' crashed! Exception thrown by CPU: '') @ String # [Literal 10]) [0, 1] = Some ?t"
    using assms(1) h by (simp add: format_text_eqs format_text_numbers crash_heading_def del: format_text.simps(2))
  have t: "length ?t < 1024" "0 \<notin> set ?t"
    using n assms(2) cstr_no_nul [of file_name] by (auto simp: crash_heading_def chars_no_nul)
  from formatted_text [OF crash_format_parses(2,1) f t] show ?thesis by simp
qed
section \<open>Printing\<close>

text \<open>\<open>s\<close> differs from \<open>s0\<close> by what was printed since: \<open>t\<close> on the serial port; the screen shows the paper \<open>p\<close>.\<close>

definition console :: "('d \<Rightarrow> byte list) \<Rightarrow> ('w, 'd, 'a) booted_scheme \<Rightarrow> ('w, 'd, 'a) booted_scheme \<Rightarrow> byte list \<Rightarrow> TEXT_MODE_COLOR
    \<Rightarrow> paper \<Rightarrow> bool" where
  "console sent s0 s t c p = (\<not> is_vbe s \<and> s = s0\<lparr>text_screen := text_screen s, device := device s\<rparr> \<and> sent (device s) = sent (device s0) @ t
     \<and> shows_paper (text_screen s) p \<and> current_fg (text_screen s) = c)"

lemma console_start:
  "\<not> is_vbe s \<Longrightarrow> shows_paper (text_screen s) p \<Longrightarrow> console sent s (gfx_set_text_color s c) [] c p"
  by (simp add: console_def gfx_set_text_color_def is_vbe_def text_set_text_color_def shows_paper_def)

lemma console_color:
  "console sent s0 s t c p \<Longrightarrow> console sent s0 (gfx_set_text_color s c') t c' p"
  by (cases s0; cases s) (simp add: console_def gfx_set_text_color_def is_vbe_def text_set_text_color_def shows_paper_def)

lemma console_text:
  assumes "console sent s0 s t c p" and "text_print_string_color (text_screen s) b c' = Inr u"
    and "shows_paper u q" and "current_fg u = c"
  shows "console sent s0 (s\<lparr>text_screen := u\<rparr>) t c q"
  using assms by (cases s0; cases s) (simp add: console_def is_vbe_def)

lemma gfx_print_color_ok:
  assumes "console sent s0 s t c p" and "has_nul b"
  shows "\<exists>s'. gfx_print_string_color s b c' = Inr s' \<and> console sent s0 s' t c (foldl (typeset c') p (cstr b))"
proof -
  have s: "\<not> is_vbe s" "shows_paper (text_screen s) p" "current_fg (text_screen s) = c" using assms(1) by (simp_all add: console_def)
  obtain u where "text_print_string_color (text_screen s) b c' = Inr u" "shows_paper u (foldl (typeset c') p (cstr b))"
    "current_fg u = current_fg (text_screen s)"
    using print_loop_shows [OF s(2) assms(2), of 0 c'] by (auto simp: text_print_string_color_def)
  then show ?thesis using console_text [OF assms(1)] s by (auto simp: gfx_print_string_color_def)
qed

lemma gfx_print_ok:
  assumes "console sent s0 s t c p" and "has_nul b"
  shows "\<exists>s'. gfx_print_string s b = Inr s' \<and> console sent s0 s' t c (foldl (typeset c) p (cstr b))"
proof -
  have "gfx_print_string s b = gfx_print_string_color s b c"
    using assms(1) by (simp add: gfx_print_string_def gfx_print_string_color_def text_print_string_def console_def)
  then show ?thesis using gfx_print_color_ok [OF assms] by simp
qed

lemma ser_print_ok:
  assumes "uart io COM1 sent busy" and "console sent s0 s t c p" and "has_nul b"
  shows "\<exists>s'. ser_print io s b = Inr s' \<and> console sent s0 s' (t @ cstr b) c p"
proof -
  obtain d where d: "ser_PrintString io COM1 b (device s) = Inr d" "sent d = sent (device s) @ cstr b"
    using print_loop_sends [OF assms(1), of "cstr b" "device s"] assms(3) by (auto simp: ser_PrintString_def strlen_spec cstr_take)
  then have "ser_print io s b = Inr (s\<lparr>device := d\<rparr>)" by (simp add: ser_print_def)
  moreover have "console sent s0 (s\<lparr>device := d\<rparr>) (t @ cstr b) c p"
    using assms(2) d(2) by (cases s0; cases s) (simp add: console_def is_vbe_def)
  ultimately show ?thesis by blast
qed

lemma console_same:
  assumes "console sent s0 s t c p"
  shows "ram s = ram s0" "cr0 s = cr0 s0" "cr2 s = cr2 s0" "tasks s = tasks s0" "processes_at s = processes_at s0"
    "current_task s = current_task s0" "kernel_heap s = kernel_heap s0" "elf_files s = elf_files s0" "task_head s = task_head s0"
    "task_tail s = task_tail s0" "processes s = processes s0" "current_process s = current_process s0"
proof -
  have "s = s0\<lparr>text_screen := text_screen s, device := device s\<rparr>" using assms by (simp add: console_def)
  then show "ram s = ram s0" "cr0 s = cr0 s0" "cr2 s = cr2 s0" "tasks s = tasks s0" "processes_at s = processes_at s0"
    "current_task s = current_task s0" "kernel_heap s = kernel_heap s0" "elf_files s = elf_files s0" "task_head s = task_head s0"
    "task_tail s = task_tail s0" "processes s = processes s0" "current_process s = current_process s0" by (cases s0; cases s; simp)+
qed

lemma print_interrupt_frame_ok:
  assumes "uart io COM1 sent busy" and "console sent s0 s t c p" and "printable f"
  shows "\<exists>s'. print_interrupt_frame io f s = Inr s' \<and> console sent s0 s' (t @ frame_text f) c (foldl (typeset GREY) p (frame_text f))"
proof -
  obtain b where b: "formatted 512 (\<lambda>_. []) (frame_format @ [0]) [f_edi f, f_edi f, f_esi f, f_esi f, f_ebp f, f_ebp f, f_ebx f, f_ebx f,
      f_edx f, f_edx f, f_ecx f, f_ecx f, f_eax f, f_eax f, f_ip f, f_flags f, f_esp f, f_cs f, f_ss f, f_error_code f] = Inr b"
    "has_nul b" "cstr b = frame_text f" using frame_formatted [OF assms(3)] by blast
  obtain s1 where s1: "gfx_print_string_color s b GREY = Inr s1" "console sent s0 s1 t c (foldl (typeset GREY) p (frame_text f))"
    using gfx_print_color_ok [OF assms(2) b(2), of GREY] b(3) by auto
  obtain s2 where s2: "ser_print io s1 b = Inr s2" "console sent s0 s2 (t @ frame_text f) c (foldl (typeset GREY) p (frame_text f))"
    using ser_print_ok [OF assms(1) s1(2) b(2)] b(3) by auto
  have "print_interrupt_frame io f s = cbind (formatted 512 (\<lambda>_. []) (frame_format @ [0]) [f_edi f, f_edi f, f_esi f, f_esi f, f_ebp f, f_ebp f,
      f_ebx f, f_ebx f, f_edx f, f_edx f, f_ecx f, f_ecx f, f_eax f, f_eax f, f_ip f, f_flags f, f_esp f, f_cs f, f_ss f, f_error_code f])
      (\<lambda>b. cbind (gfx_print_string_color s b GREY) (\<lambda>s1. ser_print io s1 b))"
    by (simp add: print_interrupt_frame_def frame_format_def)
  then have "print_interrupt_frame io f s = Inr s2" using s1(1) s2(1) unfolding b(1) cbind_simps by simp
  then show ?thesis using s2(2) by simp
qed

text \<open>The chain of saved frame pointers, with the return addresses on it.\<close>

primrec backtrace :: "(u32 \<Rightarrow> byte) \<Rightarrow> u32 \<Rightarrow> u32 list \<Rightarrow> bool" where
  "backtrace m ebp [] = (ebp = 0)"
| "backtrace m ebp (a # as) = (ebp \<noteq> 0 \<and> load32 m (ebp + 4) = a \<and> backtrace m (load32 m ebp) as)"

lemma print_return_address_ok:
  assumes "uart io COM1 sent busy" and "console sent s0 s t c p"
  shows "\<exists>s'. print_return_address io ebp s = Inr s' \<and> console sent s0 s' (t @ trace_text [load32 (ram s) (ebp + 4)]) c
    (foldl (typeset c) p (trace_text [load32 (ram s) (ebp + 4)]))"
proof -
  let ?a = "load32 (ram s) (ebp + 4)"
  obtain b where b: "formatted 1024 (\<lambda>_. []) (chars ''0x%x'' @ [10, 0]) [?a] = Inr b" "has_nul b" "cstr b = chars ''0x'' @ hex ?a @ [10]"
    using trace_formatted by blast
  obtain s1 where s1: "gfx_print_string s b = Inr s1" "console sent s0 s1 t c (foldl (typeset c) p (cstr b))"
    using gfx_print_ok [OF assms(2) b(2)] by auto
  obtain s2 where s2: "ser_print io s1 b = Inr s2" "console sent s0 s2 (t @ cstr b) c (foldl (typeset c) p (cstr b))"
    using ser_print_ok [OF assms(1) s1(2) b(2)] by auto
  have "cstr b = trace_text [?a]" using b(3) by (simp add: trace_text_def)
  then show ?thesis using b(1) s1(1) s2 by (simp add: print_return_address_def)
qed

lemma trace_text_Cons: "trace_text (a # as) = trace_text [a] @ trace_text as"
  by (simp add: trace_text_def)

lemma stack_trace_ok:
  assumes u: "uart io COM1 sent busy"
  shows "console sent s0 s t c p \<Longrightarrow> backtrace (ram s) ebp as \<Longrightarrow>
    \<exists>s'. stack_trace io ebp s = Some (Inr s') \<and> console sent s0 s' (t @ trace_text as) c (foldl (typeset c) p (trace_text as))"
proof (induction as arbitrary: s ebp t p)
  case Nil
  then show ?case by (simp add: stack_trace.simps trace_text_def)
next
  case (Cons a as)
  obtain s1 where s1: "print_return_address io ebp s = Inr s1" "console sent s0 s1 (t @ trace_text [a]) c (foldl (typeset c) p (trace_text [a]))"
    using print_return_address_ok [OF u Cons.prems(1), of ebp] Cons.prems(2) by auto
  have r: "ram s1 = ram s" using console_same(1) [OF s1(2)] console_same(1) [OF Cons.prems(1)] by simp
  then obtain s' where "stack_trace io (load32 (ram s) ebp) s1 = Some (Inr s')"
    "console sent s0 s' ((t @ trace_text [a]) @ trace_text as) c (foldl (typeset c) (foldl (typeset c) p (trace_text [a])) (trace_text as))"
    using Cons.IH [OF s1(2), of "load32 (ram s) ebp"] Cons.prems(2) by auto
  then show ?case using s1(1) Cons.prems(2) r
    by (subst stack_trace.simps) (simp add: trace_text_Cons [of a as])
qed

definition crash_report :: "interrupt_frame \<Rightarrow> u32 \<Rightarrow> u32 \<Rightarrow> u32 list \<Rightarrow> byte list" where
  "crash_report f c0 c2 as = frame_text f @ control_text c0 c2 @ trace_text as"

lemma print_crash_runs:
  assumes u: "uart io COM1 sent busy" and v: "\<not> is_vbe s" and p: "shows_paper (text_screen s) p"
    and b: "crash_text n f (gfx_set_text_color s LIGHT_RED) = Inr b" "has_nul b"
    and r: "printable f" "cr2 s \<noteq> 0x80000000"
  shows "\<exists>s6. print_crash io n f s = cbind (diverging (stack_trace io (f_ebp f) s6)) id
    \<and> console sent s s6 (cstr b @ frame_text f @ control_text (cr0 s) (cr2 s)) GREY
    (foldl (typeset GREY) (foldl (typeset LIGHT_RED) p (cstr b)) (frame_text f @ control_text (cr0 s) (cr2 s)))"
proof -
  let ?s = "gfx_set_text_color s LIGHT_RED"
  note c = console_start [OF v p, of sent LIGHT_RED]
  obtain s1 where s1: "ser_print io ?s b = Inr s1" "console sent s s1 (cstr b) LIGHT_RED p"
    using ser_print_ok [OF u c b(2)] by auto
  obtain s2 where s2: "gfx_print_string s1 b = Inr s2" "console sent s s2 (cstr b) LIGHT_RED (foldl (typeset LIGHT_RED) p (cstr b))"
    using gfx_print_ok [OF s1(2) b(2)] by auto
  obtain s3 where s3: "print_interrupt_frame io f s2 = Inr s3" "console sent s s3 (cstr b @ frame_text f) LIGHT_RED
      (foldl (typeset GREY) (foldl (typeset LIGHT_RED) p (cstr b)) (frame_text f))"
    using print_interrupt_frame_ok [OF u s2(2) r(1)] by auto
  note c3 = console_color [OF s3(2), of GREY]
  obtain b2 where b2: "formatted 1024 (\<lambda>_. []) (chars ''cr0: 0b%b'' @ 10 # chars ''cr2: %d (0x%x)'' @ [10, 10, 0]) [cr0 s, cr2 s, cr2 s] = Inr b2"
    "has_nul b2" "cstr b2 = control_text (cr0 s) (cr2 s)" using control_formatted [OF r(2)] by blast
  obtain s5 where s5: "gfx_print_string (gfx_set_text_color s3 GREY) b2 = Inr s5" "console sent s s5 (cstr b @ frame_text f) GREY
      (foldl (typeset GREY) (foldl (typeset GREY) (foldl (typeset LIGHT_RED) p (cstr b)) (frame_text f)) (cstr b2))"
    using gfx_print_ok [OF c3 b2(2)] by auto
  obtain s6 where s6: "ser_print io s5 b2 = Inr s6" "console sent s s6 ((cstr b @ frame_text f) @ cstr b2) GREY
      (foldl (typeset GREY) (foldl (typeset GREY) (foldl (typeset LIGHT_RED) p (cstr b)) (frame_text f)) (cstr b2))"
    using ser_print_ok [OF u s5(2) b2(2)] by auto
  have k: "cr0 ?s = cr0 s" "cr2 ?s = cr2 s" using console_same [OF c] by simp_all
  have "print_crash io n f s = cbind (diverging (stack_trace io (f_ebp f) s6)) id"
    unfolding print_crash_def Let_def b(1) cbind_simps s1(1) s2(1) s3(1) k b2(1) s5(1) s6(1) by simp
  then show ?thesis using s6(2) b2(3) by auto
qed

lemma print_crash_ok:
  assumes u: "uart io COM1 sent busy" and v: "\<not> is_vbe s" and p: "shows_paper (text_screen s) p"
    and b: "crash_text n f (gfx_set_text_color s LIGHT_RED) = Inr b" "has_nul b"
    and r: "printable f" "cr2 s \<noteq> 0x80000000" "backtrace (ram s) (f_ebp f) as"
  shows "\<exists>s'. print_crash io n f s = Inr s' \<and> console sent s s' (cstr b @ crash_report f (cr0 s) (cr2 s) as) GREY
    (foldl (typeset GREY) (foldl (typeset LIGHT_RED) p (cstr b)) (crash_report f (cr0 s) (cr2 s) as))"
proof -
  obtain s6 where s6: "print_crash io n f s = cbind (diverging (stack_trace io (f_ebp f) s6)) id"
    "console sent s s6 (cstr b @ frame_text f @ control_text (cr0 s) (cr2 s)) GREY
    (foldl (typeset GREY) (foldl (typeset LIGHT_RED) p (cstr b)) (frame_text f @ control_text (cr0 s) (cr2 s)))"
    using print_crash_runs [OF u v p b r(1,2)] by blast
  have "backtrace (ram s6) (f_ebp f) as" using console_same(1) [OF s6(2)] r(3) by simp
  from stack_trace_ok [OF u s6(2) this] show ?thesis using s6(1) by (auto simp: diverging_def crash_report_def)
qed
section \<open>The end of the process\<close>

lemma crash_text_ok:
  assumes "f_cs fr AND 3 = 3" and "tasks s (current_task s) = Some ct" and "processes_at s (t_process ct) = Some p"
    and "has_nul (p_filename p)" and "length (cstr (p_filename p)) \<le> 900" and "n < 32"
  shows "\<exists>b. crash_text (int n) fr (gfx_set_text_color s c) = Inr b \<and> has_nul b \<and> cstr b = crash_heading (cstr (p_filename p)) n"
proof -
  have "exception_name (int n) = Inr (lit (idt_InterruptLayoutString ! n))"
    using assms(6) layout_names(1) by (simp add: exception_name_def)
  then show ?thesis using crash_formatted [OF assms(4-6)] assms(1-3)
    by (simp add: crash_text_def calling_process_def task_current_def get_task_def get_process_def gfx_set_text_color_def)
qed

lemma first_process_mem: "first_process ps = Some q \<Longrightarrow> q \<in> set ps \<and> q \<noteq> 0"
  by (induction ps rule: first_process.induct) (auto split: if_splits)

lemma same_screens:
  assumes "os.more (s :: ('w, 'd, 'a) booted_scheme) = os.more s'"
  shows "device s = device s'" "text_screen s = text_screen s'"
  using assms by (cases s; cases s'; simp)+

lemma kernel_exception_user:
  assumes "f_cs fr AND 3 = 3" and "print_crash io n fr s = Inr s1" and "calling_process s1 = Inr a"
    and "process_terminate s1 a = Inr s2" and "processes_at s2 (current_process s2) = Some r" and "task_regs s2 (p_task r) = Some (regs, dir)"
  shows "\<exists>s'. kernel_exception io n fr s = Inr (Resumed regs s') \<and> current_task s' = p_task r \<and> cr3 s' = load32 (ram s2) dir
    \<and> processes_at s' = processes_at s2 \<and> tasks s' = tasks s2 \<and> kernel_heap s' = kernel_heap s2 \<and> os.more s' = os.more s2
    \<and> current_process s' = current_process s2"
proof -
  obtain t where t: "tasks s2 (p_task r) = Some t" "registers t = regs" "page_directory t = dir"
    using assms(6) by (auto simp: task_regs_def)
  then show ?thesis using assms(1-5)
    by (simp add: kernel_exception_def get_process_def process_current_def task_switch_def get_task_def task_return_def task_current_def
        paging_switch_def paging_load_directory_def)
qed

lemma endless_trace:
  assumes u: "uart io COM1 sent busy" and C: "0 \<notin> C" "\<forall>x\<in>C. load32 (ram s0) x \<in> C"
  shows "console sent s0 s t c p \<Longrightarrow> ebp \<in> C \<Longrightarrow> stack_trace io ebp s = None"
proof -
  let ?P = "\<lambda>io' ebp s (r :: fault + ('b, 'a, 'c) booted_scheme). io' = io \<longrightarrow> (\<forall>t p. console sent s0 s t c p \<longrightarrow> ebp \<notin> C)"
  have "?P io ebp s r" if "stack_trace io ebp s = Some r" for r
  proof (rule stack_trace.raw_induct [where P = ?P, OF _ that])
    fix f io' ebp s r
    assume ih: "\<And>io' ebp s r. f io' ebp s = Some r \<Longrightarrow> ?P io' ebp s r"
      and b: "(if ebp = 0 then Some (Inr s) else case print_return_address io' ebp s of Inl e \<Rightarrow> Some (Inl e)
        | Inr s1 \<Rightarrow> f io' (load32 (ram s1) ebp) s1) = Some r"
    show "?P io' ebp s r"
    proof (intro impI allI notI)
      fix t p assume io: "io' = io" and c: "console sent s0 s t c p" and e: "ebp \<in> C"
      obtain s1 where s1: "print_return_address io ebp s = Inr s1" "console sent s0 s1 (t @ trace_text [load32 (ram s) (ebp + 4)]) c
          (foldl (typeset c) p (trace_text [load32 (ram s) (ebp + 4)]))"
        using print_return_address_ok [OF u c, of ebp] by blast
      have "ebp \<noteq> 0" using e C(1) by blast
      then have "f io (load32 (ram s1) ebp) s1 = Some r" using b s1(1) io by simp
      moreover have "load32 (ram s1) ebp \<in> C" using console_same(1) [OF s1(2)] e C(2) by simp
      ultimately show False using ih s1(2) by blast
    qed
  qed
  then show "console sent s0 s t c p \<Longrightarrow> ebp \<in> C \<Longrightarrow> stack_trace io ebp s = None" by (cases "stack_trace io ebp s") blast+
qed
section \<open>Properties\<close>


text \<open>C38: A crash of a program whose saved frame pointers never lead to 0 is never done: the loop over them goes on for ever, the
  process is not ended and no other task is resumed.\<close>

theorem crash_backtrace_hangs:
  assumes "uart io COM1 sent busy" and "\<not> is_vbe s" and "shows_paper (text_screen s) paper"
    and "f_cs fr AND 3 = 3" and "n < 32" and "printable fr" and "cr2 s \<noteq> 0x80000000"
    and "tasks s (current_task s) = Some ct" and "processes_at s (t_process ct) = Some p" and "has_nul (p_filename p)"
    and "length (cstr (p_filename p)) \<le> 900"
    and "f_ebp fr \<in> C" and "0 \<notin> C" and "\<forall>x\<in>C. load32 (ram s) x \<in> C"
  shows "kernel_exception io (int n) fr s = Inl Diverges"
proof -
  obtain b where b: "crash_text (int n) fr (gfx_set_text_color s LIGHT_RED) = Inr b" "has_nul b"
    using crash_text_ok [OF assms(4,8,9,10,11,5)] by blast
  obtain s6 t c q where s6: "print_crash io (int n) fr s = cbind (diverging (stack_trace io (f_ebp fr) s6)) id" "console sent s s6 t c q"
    using print_crash_runs [OF assms(1-3) b assms(6,7)] by blast
  have "stack_trace io (f_ebp fr) s6 = None" by (rule endless_trace [OF assms(1,13,14) s6(2) assms(12)])
  then show ?thesis using s6(1) by (simp add: kernel_exception_def diverging_def)
qed

section \<open>Witnesses\<close>

definition with_screens :: "unit os \<Rightarrow> (unit, byte list \<times> nat) booted" where
  "with_screens s = system.extend (machine.extend (os.extend s (machine.fields ([], 0) \<lparr>ps2keyboard_capslock = False, ps2keyboard_shift = False\<rparr>))
     (system.fields 800 600 32)) (booted.fields (TextModeGraphics (replicate 4000 0)) (sample_vbe\<lparr>m_setup := False\<rparr>)
     \<lparr>mouse_cycle = 0, mouse_byte = [], mouse_pipe = PipeFS True 1536\<rparr> 0 0 0)"

lemma with_screens:
  "kernel_heap (with_screens s) = kernel_heap s" "ram (with_screens s) = ram s" "tasks (with_screens s) = tasks s"
  "processes_at (with_screens s) = processes_at s" "elf_files (with_screens s) = elf_files s" "task_head (with_screens s) = task_head s"
  "task_tail (with_screens s) = task_tail s" "current_task (with_screens s) = current_task s" "processes (with_screens s) = processes s"
  "current_process (with_screens s) = current_process s" "device (with_screens s) = ([], 0)" "cr0 (with_screens s) = 0" "cr2 (with_screens s) = 0"
  "\<not> is_vbe (with_screens s)" "text_screen (with_screens s) = TextModeGraphics (replicate 4000 0)"
  by (simp_all add: with_screens_def system.defs machine.defs os.defs booted.defs is_vbe_def)

lemma blank_screen: "shows_paper (TextModeGraphics (replicate 4000 0)) clean_paper"
  using blank_window by (simp add: TextModeGraphics_def shows_paper_def clean_paper_def paper_wf_def)

text \<open>A program that raised a page fault without frames on its stack.\<close>

definition fault_frame :: interrupt_frame where
  "fault_frame = sample_frame\<lparr>f_error_code := 4\<rparr>"

lemma fault_frame: "f_cs fault_frame AND 3 = 3" "printable fault_frame" "f_ebp fault_frame = 0"
  by (simp_all add: fault_frame_def sample_frame_def printable_def)


theorem crash_backtrace_hangs_witness:
  "kernel_exception slow_uart 14 (fault_frame\<lparr>f_ebp := 0x5000\<rparr>) (sample_booted\<lparr>ram := (\<lambda>_. 0)(0x5001 := 0x50)\<rparr>) = Inl Diverges"
proof -
  let ?s = "sample_booted\<lparr>ram := (\<lambda>_. 0)(0x5001 := 0x50)\<rparr>" and ?f = "fault_frame\<lparr>f_ebp := 0x5000\<rparr>"
  have s: "\<not> is_vbe ?s" "text_screen ?s = TextModeGraphics (replicate 4000 0)" "cr2 ?s \<noteq> 0x80000000"
    "tasks ?s (current_task ?s) = Some (zero_task\<lparr>t_process := 0x900000\<rparr>)" "processes_at ?s (t_process (zero_task\<lparr>t_process := 0x900000\<rparr>)) = Some (zero_process\<lparr>p_id := 3\<rparr>)"
    by (simp_all add: sample_booted_def system.defs booted.defs is_vbe_def sample_system_def)
  have f: "f_cs ?f AND 3 = 3" "printable ?f" "f_ebp ?f \<in> {0x5000}" "(0 :: u32) \<notin> {0x5000}" "(14 :: nat) < 32"
    by (simp_all add: fault_frame_def sample_frame_def printable_def)
  have p: "has_nul (p_filename (zero_process\<lparr>p_id := 3\<rparr>))" "length (cstr (p_filename (zero_process\<lparr>p_id := 3\<rparr>))) \<le> 900"
    by (simp_all add: zero_process_def has_nul_def cstr_def MAX_PATH_def)
  have "load32 (ram ?s) 0x5000 = 0x5000" by (simp add: load32_def)
  then have c: "\<forall>x\<in>{0x5000}. load32 (ram ?s) x \<in> {0x5000}" by simp
  have "shows_paper (text_screen ?s) clean_paper" by (simp only: s(2) blank_screen)
  from crash_backtrace_hangs [OF slow_uart_ok s(1) this f(1,5,2) s(3,4,5) p f(3,4) c] show ?thesis by simp
qed

end
