(* ===== verification/Bmp.thy ===== *)
theory Bmp
  imports Canvas
begin

text \<open>
  Bitmap files, \<^verbatim>\<open>src/src/userland/stdlib/format/bmp/BMPFile.cpp\<close>: the constructor and the pixels.  The specification is the
  file of a picture, byte by byte; reading it gives the picture back.
\<close>

section \<open>Files\<close>

text \<open>A call of \<open>debug_printf\<close>: the format and the arguments.\<close>

type_synonym report = "byte list \<times> u32 list"

text \<open>The pointers are positions in the data; they are not set when the constructor returns early.\<close>

record BMPFile =
  bmp_data :: "byte list"
  m_file_header :: "u32 option"
  m_info_header :: "u32 option"
  m_color_table :: "u32 option"
  m_raster_data :: "u32 option"

definition pointed :: "u32 option \<Rightarrow> fault + nat" where
  "pointed p = (case p of None \<Rightarrow> Inl Bad_Read | Some a \<Rightarrow> Inr (unat a))"

text \<open>The fields of \<open>BITMAPFILEHEADER\<close> and \<open>BITMAPINFOHEADER\<close> that are read, by their offsets.\<close>

definition file_size_field :: "BMPFile \<Rightarrow> fault + u32" where
  "file_size_field f = cbind (pointed (m_file_header f)) (\<lambda>p. le32 (bmp_data f) (p + 2))"

definition signature_field :: "BMPFile \<Rightarrow> nat \<Rightarrow> fault + byte" where
  "signature_field f i = cbind (pointed (m_file_header f)) (\<lambda>p. rd (bmp_data f) (p + i))"

definition width_field :: "BMPFile \<Rightarrow> fault + u32" where
  "width_field f = cbind (pointed (m_info_header f)) (\<lambda>p. le32 (bmp_data f) (p + 4))"

definition height_field :: "BMPFile \<Rightarrow> fault + u32" where
  "height_field f = cbind (pointed (m_info_header f)) (\<lambda>p. le32 (bmp_data f) (p + 8))"

definition bit_count_field :: "BMPFile \<Rightarrow> fault + u16" where
  "bit_count_field f = cbind (pointed (m_info_header f)) (\<lambda>p. le16 (bmp_data f) (p + 14))"

definition compression_field :: "BMPFile \<Rightarrow> fault + u32" where
  "compression_field f = cbind (pointed (m_info_header f)) (\<lambda>p. le32 (bmp_data f) (p + 16))"

text \<open>The constructor, with what it reports.  The color table is \<open>size\<close> headers behind the header, not \<open>size\<close> bytes.\<close>

definition BMPFile_new :: "byte list \<Rightarrow> u32 \<Rightarrow> fault + (BMPFile \<times> report list)" where
  "BMPFile_new data sz =
     (if sz < 14 + 40
      then Inr (\<lparr>bmp_data = data, m_file_header = None, m_info_header = None, m_color_table = None, m_raster_data = None\<rparr>,
                [(chars ''BMPFile::BMPFile(): invalid size'' @ [10, 0], [])])
      else cbind (le32 data 14) (\<lambda>header_size. cbind (le32 data 10) (\<lambda>raster.
        let f = \<lparr>bmp_data = data, m_file_header = Some 0, m_info_header = Some 14, m_color_table = Some (14 + 40 * header_size),
                 m_raster_data = Some raster\<rparr>
        in cbind (signature_field f 0) (\<lambda>s0. cbind (if s0 \<noteq> 66 then Inr True else cbind (signature_field f 1) (\<lambda>s1. Inr (s1 \<noteq> 77))) (\<lambda>bad_signature.
           cbind (file_size_field f) (\<lambda>file_size. cbind (compression_field f) (\<lambda>compression. cbind (bit_count_field f) (\<lambda>bit_count.
             Inr (f, (if bad_signature then [(chars ''BMPFile::BMPFile(): invalid signature'' @ [10, 0], [])] else [])
               @ (if file_size \<noteq> sz then [(lit ''BMPFile::BMPFile(): invalid size: real %d, expected %d'', [sz, file_size])] else [])
               @ (if compression \<noteq> 0 \<and> compression \<noteq> 3
                  then [(chars ''BMPFile::BMPFile(): invalid compression: %d'' @ [10, 0], [compression])] else [])
               @ (if bit_count \<notin> {1, 4, 8, 24, 32} then [(lit ''BMPFile::BMPFile(): invalid bit_count: %d'', [ucast bit_count])] else []))))))))))"

definition has_color_table :: "BMPFile \<Rightarrow> fault + bool" where
  "has_color_table f = cbind (bit_count_field f) (\<lambda>n. Inr (n \<le> 8))"

definition get_raster :: "BMPFile \<Rightarrow> fault + nat" where
  "get_raster f = pointed (m_raster_data f)"

definition get_pixel :: "BMPFile \<Rightarrow> u32 \<Rightarrow> u32 \<Rightarrow> fault + (u32 \<times> report list)" where
  "get_pixel f x y =
     cbind (width_field f) (\<lambda>width.
     cbind (if width \<le> x then Inr True else cbind (height_field f) (\<lambda>height. Inr (height \<le> y))) (\<lambda>outside.
     if outside then Inr (0, [(chars ''BMPFile::BMPFile(): invalid pixel coordinate: %d %d'' @ [10, 0], [x, y])])
     else cbind (height_field f) (\<lambda>height. cbind (bit_count_field f) (\<lambda>bit_count. cbind (get_raster f) (\<lambda>raster.
       let row = height - 1 - y in
       if bit_count = 24
       then let row_stride = (width * 3 + 3) AND NOT 3; p = raster + unat (row * row_stride) + unat (x * 3)
            in cbind (rd (bmp_data f) p) (\<lambda>blue. cbind (rd (bmp_data f) (p + 1)) (\<lambda>green. cbind (rd (bmp_data f) (p + 2)) (\<lambda>red.
               Inr (push_bit 24 0xFF OR push_bit 16 (ucast red) OR push_bit 8 (ucast green) OR ucast blue, []))))
       else if bit_count = 32
       then cbind (le32 (bmp_data f) (raster + 4 * unat (row * width + x))) (\<lambda>c. Inr (c, []))
       else Inr (0, []))))))"

definition get_width :: "BMPFile \<Rightarrow> fault + u32" where "get_width = width_field"

definition get_height :: "BMPFile \<Rightarrow> fault + u32" where "get_height = height_field"

section \<open>Pictures\<close>

text \<open>A picture as the format has it: rows from the bottom up, each filled to a multiple of four bytes, a pixel as blue,
  green and red.\<close>

definition stride :: "nat \<Rightarrow> nat" where "stride w = 4 * ((3 * w + 3) div 4)"

definition pixel_bytes :: "byte \<times> byte \<times> byte \<Rightarrow> byte list" where
  "pixel_bytes c = (case c of (r, g, b) \<Rightarrow> [b, g, r])"

definition row_bytes :: "nat \<Rightarrow> (nat \<Rightarrow> byte \<times> byte \<times> byte) \<Rightarrow> byte list" where
  "row_bytes w scan = concat (map (\<lambda>x. pixel_bytes (scan x)) [0..<w]) @ replicate (stride w - 3 * w) 0"

definition bmp_header :: "nat \<Rightarrow> nat \<Rightarrow> byte list" where
  "bmp_header w h = [66, 77] @ enc32 (word_of_nat (54 + h * stride w)) @ enc32 0 @ enc32 54 @ enc32 40 @ enc32 (word_of_nat w)
     @ enc32 (word_of_nat h) @ enc16 1 @ enc16 24 @ enc32 0 @ enc32 (word_of_nat (h * stride w)) @ enc32 0 @ enc32 0 @ enc32 0 @ enc32 0"

definition bmp_bytes :: "nat \<Rightarrow> nat \<Rightarrow> (nat \<Rightarrow> nat \<Rightarrow> byte \<times> byte \<times> byte) \<Rightarrow> byte list" where
  "bmp_bytes w h picture = bmp_header w h @ concat (map (\<lambda>k. row_bytes w (\<lambda>x. picture x (h - 1 - k))) [0..<h])"

lemma length_bmp_header [simp]: "length (bmp_header w h) = 54"
  by (simp add: bmp_header_def)

lemma length_pixel_bytes [simp]: "length (pixel_bytes c) = 3"
  by (simp add: pixel_bytes_def split: prod.splits)

lemma stride_ge: "3 * w \<le> stride w"
  by (simp add: stride_def)

lemma length_concat_blocks: "\<forall>b\<in>set bs. length b = n \<Longrightarrow> length (concat bs) = n * length bs"
  by (induction bs) simp_all

lemma nth_concat_blocks:
  "\<forall>b\<in>set bs. length b = n \<Longrightarrow> k < length bs \<Longrightarrow> j < n \<Longrightarrow> concat bs ! (n * k + j) = bs ! k ! j"
proof (induction bs arbitrary: k)
  case (Cons b bs)
  then show ?case by (cases k) (auto simp: nth_append algebra_simps)
qed simp

lemma length_row_bytes [simp]: "length (row_bytes w scan) = stride w"
proof -
  have "length (concat (map (\<lambda>x. pixel_bytes (scan x)) [0..<w])) = 3 * w"
    by (subst length_concat_blocks [where n = 3]) auto
  then show ?thesis using stride_ge [of w] by (simp add: row_bytes_def)
qed

lemma length_bmp_bytes: "length (bmp_bytes w h picture) = 54 + h * stride w"
proof -
  have "length (concat (map (\<lambda>k. row_bytes w (\<lambda>x. picture x (h - 1 - k))) [0..<h])) = stride w * h"
    by (subst length_concat_blocks [where n = "stride w"]) auto
  then show ?thesis by (simp add: bmp_bytes_def)
qed

lemma bmp_nth:
  assumes "x < w" and "y < h" and "c < 3"
  shows "bmp_bytes w h picture ! (54 + (h - 1 - y) * stride w + 3 * x + c) = pixel_bytes (picture x y) ! c"
proof -
  let ?rows = "map (\<lambda>k. row_bytes w (\<lambda>x. picture x (h - 1 - k))) [0..<h]"
  have k: "h - 1 - y < h" "h - 1 - (h - 1 - y) = y" using assms(2) by simp_all
  have j: "3 * x + c < 3 * w" using assms(1,3) by simp
  have "bmp_bytes w h picture ! (54 + (h - 1 - y) * stride w + 3 * x + c) = concat ?rows ! (stride w * (h - 1 - y) + (3 * x + c))"
    by (simp add: bmp_bytes_def nth_append algebra_simps)
  also have "\<dots> = ?rows ! (h - 1 - y) ! (3 * x + c)"
    using k(1) j stride_ge [of w] by (intro nth_concat_blocks) auto
  also have "\<dots> = row_bytes w (\<lambda>x. picture x y) ! (3 * x + c)" using k by simp
  also have "\<dots> = concat (map (\<lambda>x. pixel_bytes (picture x y)) [0..<w]) ! (3 * x + c)"
    using j length_concat_blocks [of "map (\<lambda>x. pixel_bytes (picture x y)) [0..<w]" 3] by (simp add: row_bytes_def nth_append)
  also have "\<dots> = pixel_bytes (picture x y) ! c"
    using assms(1,3) nth_concat_blocks [of "map (\<lambda>x. pixel_bytes (picture x y)) [0..<w]" 3 x c] by auto
  finally show ?thesis .
qed

section \<open>Reading a picture back\<close>

lemma le32_at: "ds = xs @ enc32 w @ ys \<Longrightarrow> n = length xs \<Longrightarrow> le32 ds n = Inr w"
  using le32_enc32 by simp

lemma le16_at: "ds = xs @ enc16 w @ ys \<Longrightarrow> n = length xs \<Longrightarrow> le16 ds n = Inr w"
  using le16_enc16 by simp

lemma bmp_fields:
  "le32 (bmp_bytes w h picture) 2 = Inr (word_of_nat (54 + h * stride w))" "le32 (bmp_bytes w h picture) 10 = Inr 54"
  "le32 (bmp_bytes w h picture) 14 = Inr 40" "le32 (bmp_bytes w h picture) 18 = Inr (word_of_nat w)"
  "le32 (bmp_bytes w h picture) 22 = Inr (word_of_nat h)" "le16 (bmp_bytes w h picture) 28 = Inr 24"
  "le32 (bmp_bytes w h picture) 30 = Inr 0" "rd (bmp_bytes w h picture) 0 = Inr 66" "rd (bmp_bytes w h picture) 1 = Inr 77"
proof -
  define hd1 where "hd1 = [66, 77 :: byte]"
  have l: "length hd1 = 2" by (simp add: hd1_def)
  note d = bmp_bytes_def bmp_header_def hd1_def [symmetric]
  show "le32 (bmp_bytes w h picture) 2 = Inr (word_of_nat (54 + h * stride w))"
    by (rule le32_at [where xs = hd1]) (simp_all only: d append_assoc, simp_all add: l)
  show "le32 (bmp_bytes w h picture) 10 = Inr 54"
    by (rule le32_at [where xs = "hd1 @ enc32 (word_of_nat (54 + h * stride w)) @ enc32 0"]) (simp_all only: d append_assoc, simp_all add: l)
  show "le32 (bmp_bytes w h picture) 14 = Inr 40"
    by (rule le32_at [where xs = "hd1 @ enc32 (word_of_nat (54 + h * stride w)) @ enc32 0 @ enc32 54"]) (simp_all only: d append_assoc, simp_all add: l)
  show "le32 (bmp_bytes w h picture) 18 = Inr (word_of_nat w)"
    by (rule le32_at [where xs = "hd1 @ enc32 (word_of_nat (54 + h * stride w)) @ enc32 0 @ enc32 54 @ enc32 40"])
      (simp_all only: d append_assoc, simp_all add: l)
  show "le32 (bmp_bytes w h picture) 22 = Inr (word_of_nat h)"
    by (rule le32_at [where xs = "hd1 @ enc32 (word_of_nat (54 + h * stride w)) @ enc32 0 @ enc32 54 @ enc32 40 @ enc32 (word_of_nat w)"])
      (simp_all only: d append_assoc, simp_all add: l)
  show "le16 (bmp_bytes w h picture) 28 = Inr 24"
    by (rule le16_at [where xs = "hd1 @ enc32 (word_of_nat (54 + h * stride w)) @ enc32 0 @ enc32 54 @ enc32 40 @ enc32 (word_of_nat w)
        @ enc32 (word_of_nat h) @ enc16 1"]) (simp_all only: d append_assoc, simp_all add: l)
  show "le32 (bmp_bytes w h picture) 30 = Inr 0"
    by (rule le32_at [where xs = "hd1 @ enc32 (word_of_nat (54 + h * stride w)) @ enc32 0 @ enc32 54 @ enc32 40 @ enc32 (word_of_nat w)
        @ enc32 (word_of_nat h) @ enc16 1 @ enc16 24"]) (simp_all only: d append_assoc, simp_all add: l)
  show "rd (bmp_bytes w h picture) 0 = Inr 66" "rd (bmp_bytes w h picture) 1 = Inr 77"
    by (simp_all add: bmp_bytes_def bmp_header_def rd_def)
qed

lemma and_not_3: "unat ((a :: u32) AND NOT 3) = 4 * (unat a div 4)"
proof -
  have m: "(3 :: u32) = mask 2" by (simp add: mask_eq_exp_minus_1)
  have "a AND NOT 3 = push_bit 2 (drop_bit 2 a)"
    unfolding m
  proof (rule bit_word_eqI)
    fix n assume "n < LENGTH(32)"
    then show "bit (a AND NOT (mask 2)) n = bit (push_bit 2 (drop_bit 2 a)) n"
      by (cases "n < 2") (auto simp: bit_simps not_less le_iff_add)
  qed
  moreover have "unat (drop_bit 2 a) = unat a div 4" by (simp add: drop_bit_eq_div unat_div)
  moreover have "4 * (unat a div 4) < 2 ^ 32" using unsigned_less [of a, where 'a = nat] by (simp add: less_mult_imp_div_less mult.commute)
  ultimately show ?thesis by (simp add: push_bit_eq_mult unat_word_ariths mult.commute)
qed

definition picture_color :: "byte \<times> byte \<times> byte \<Rightarrow> u32" where
  "picture_color c = (case c of (r, g, b) \<Rightarrow> push_bit 24 0xFF OR push_bit 16 (ucast r) OR push_bit 8 (ucast g) OR ucast b)"

definition bmp_file :: "byte list \<Rightarrow> BMPFile" where
  "bmp_file data = \<lparr>bmp_data = data, m_file_header = Some 0, m_info_header = Some 14, m_color_table = Some 1614, m_raster_data = Some 54\<rparr>"

lemma bmp_new:
  assumes "54 + h * stride w < 2 ^ 32"
  shows "BMPFile_new (bmp_bytes w h picture) (word_of_nat (54 + h * stride w)) = Inr (bmp_file (bmp_bytes w h picture), [])"
proof -
  have "\<not> (word_of_nat (54 + h * stride w) :: u32) < 54"
    using assms unat_of_nat_small [OF assms] by (simp add: word_less_nat_alt del: of_nat_add of_nat_mult)
  then show ?thesis
    by (simp add: BMPFile_new_def bmp_fields bmp_fields(1,9) [unfolded One_nat_def numeral_2_eq_2] signature_field_def file_size_field_def compression_field_def bit_count_field_def pointed_def bmp_file_def
        del: of_nat_add of_nat_mult)
qed

lemma bmp_pixel:
  assumes s: "54 + h * stride w < 2 ^ 32" "3 * w + 3 < 2 ^ 32" and xy: "x < w" "y < h"
  shows "get_pixel (bmp_file (bmp_bytes w h picture)) (word_of_nat x) (word_of_nat y) = Inr (picture_color (picture x y), [])"
proof -
  let ?d = "bmp_bytes w h picture" let ?w = "word_of_nat w :: u32" let ?h = "word_of_nat h :: u32"
  have hs: "h \<le> h * stride w" using stride_ge [of w] xy(1) by (cases "stride w") auto
  then have b: "w < 2 ^ 32" "h < 2 ^ 32" "x < 2 ^ 32" "y < 2 ^ 32" using s xy by linarith+
  note u = unat_of_nat_small [OF b(1)] unat_of_nat_small [OF b(2)] unat_of_nat_small [OF b(3)] unat_of_nat_small [OF b(4)]
  have c: "\<not> ?w \<le> word_of_nat x" "\<not> ?h \<le> word_of_nat y" using u xy by (simp_all add: word_le_nat_alt)
  have f: "width_field (bmp_file ?d) = Inr ?w" "height_field (bmp_file ?d) = Inr ?h" "bit_count_field (bmp_file ?d) = Inr 24"
    "get_raster (bmp_file ?d) = Inr 54"
    by (simp_all add: width_field_def height_field_def bit_count_field_def get_raster_def pointed_def bmp_file_def bmp_fields)
  have "?h - 1 - word_of_nat y = (word_of_nat (h - 1 - y) :: u32)" using xy(2) by (simp add: of_nat_diff)
  then have row: "unat (?h - 1 - word_of_nat y) = h - 1 - y" using b(2) by (simp add: unat_of_nat_small)
  have st: "unat ((?w * 3 + 3) AND NOT 3) = stride w"
    by (subst and_not_3) (use s(2) u(1) in \<open>simp add: stride_def unat_word_ariths mult.commute\<close>)
  have "(h - 1 - y) * stride w + stride w \<le> h * stride w"
  proof -
    have "Suc (h - 1 - y) \<le> h" using xy(2) by arith
    from mult_le_mono1 [OF this, of "stride w"] show ?thesis by simp
  qed
  then have rs: "unat ((?h - 1 - word_of_nat y) * ((?w * 3 + 3) AND NOT 3)) = (h - 1 - y) * stride w"
    and room: "54 + (h - 1 - y) * stride w + 3 * x + 2 < length ?d"
    using s(1) row st stride_ge [of w] xy(1) by (simp_all add: unat_word_ariths length_bmp_bytes)
  have x3: "unat (word_of_nat x * 3 :: u32) = 3 * x" using s(2) u(3) xy(1) by (simp add: unat_word_ariths mult.commute)
  let ?p = "54 + (h - 1 - y) * stride w + 3 * x"
  obtain r g bl where p: "picture x y = (r, g, bl)" by (cases "picture x y") auto
  have px: "?d ! ?p = bl" "?d ! (?p + 1) = g" "?d ! (?p + 2) = r"
    using bmp_nth [OF xy, of 0 picture] bmp_nth [OF xy, of 1 picture] bmp_nth [OF xy, of 2 picture] p by (simp_all add: pixel_bytes_def)
  have "rd ?d ?p = Inr bl" "rd ?d (?p + 1) = Inr g" "rd ?d (?p + 2) = Inr r" using room px by (simp_all only: rd_def) simp_all
  then show ?thesis unfolding get_pixel_def f cbind_simps Let_def
    using c rs x3 p by (simp add: bmp_file_def picture_color_def f)
qed

section \<open>Properties\<close>

text \<open>C32: A 24-bit picture reads back: the constructor accepts the file of any picture without a report, and every pixel comes back
  with its color, opaque, although the rows are stored from the bottom up and filled to four bytes.\<close>

theorem bmp_roundtrip:
  assumes "54 + h * stride w < 2 ^ 32" and "3 * w + 3 < 2 ^ 32"
  shows "\<exists>f. BMPFile_new (bmp_bytes w h picture) (word_of_nat (54 + h * stride w)) = Inr (f, [])
    \<and> get_width f = Inr (word_of_nat w) \<and> get_height f = Inr (word_of_nat h)
    \<and> (\<forall>x<w. \<forall>y<h. get_pixel f (word_of_nat x) (word_of_nat y) = Inr (picture_color (picture x y), []))"
  using bmp_new [OF assms(1)] bmp_pixel [OF assms]
  by (auto simp: get_width_def get_height_def width_field_def height_field_def pointed_def bmp_fields bmp_file_def)

theorem bmp_roundtrip_witness:
  "\<exists>f. BMPFile_new (bmp_bytes 3 2 (\<lambda>x y. (word_of_nat x, word_of_nat y, 7))) 78 = Inr (f, []) \<and> get_pixel f 2 1 = Inr (0xFF020107, [])"
proof -
  have s: "54 + 2 * stride 3 = 78" by (simp add: stride_def)
  obtain f where f: "BMPFile_new (bmp_bytes 3 2 (\<lambda>x y. (word_of_nat x, word_of_nat y, 7))) (word_of_nat (54 + 2 * stride 3)) = Inr (f, [])"
    "\<forall>x<3. \<forall>y<2. get_pixel f (word_of_nat x) (word_of_nat y) = Inr (picture_color (word_of_nat x, word_of_nat y, 7), [])"
    using bmp_roundtrip [of 2 3 "\<lambda>x y. (word_of_nat x, word_of_nat y, 7)"] s by auto
  have "(2 :: nat) < 3" "(1 :: nat) < 2" by simp_all
  then have "get_pixel f (word_of_nat 2) (word_of_nat 1) = Inr (picture_color (word_of_nat 2, word_of_nat 1, 7), [])" using f(2) by blast
  then have "get_pixel f 2 1 = Inr (0xFF020107, [])" by (simp add: picture_color_def)
  then show ?thesis using f(1) unfolding s by auto
qed

end
