(* ===== verification/Screen.thy ===== *)
theory Screen
  imports Canvas
begin

text \<open>
  Printing on the screen of a program: a screen with room for a character stays one, and printing what the keyboard can type, or
  a new line, never leaves the frame buffer.
\<close>

section \<open>Screens\<close>

text \<open>A screen with room for a character.\<close>

definition screen_ok :: "framebuffer_graphics \<Rightarrow> bool" where
  "screen_ok fb = (canvas_wf fb \<and> 16 \<le> WIDTH fb \<and> 16 \<le> HEIGHT fb)"

definition same_screen :: "framebuffer_graphics \<Rightarrow> framebuffer_graphics \<Rightarrow> bool" where
  "same_screen fb fb' = (WIDTH fb' = WIDTH fb \<and> HEIGHT fb' = HEIGHT fb \<and> BPP fb' = BPP fb \<and> text_color fb' = text_color fb)"

lemma same_screen_refl [simp]: "same_screen fb fb"
  by (simp add: same_screen_def)

lemma same_screen_trans: "same_screen a b \<Longrightarrow> same_screen b c \<Longrightarrow> same_screen a c"
  by (simp add: same_screen_def)

definition on_keyboard :: "byte \<Rightarrow> bool" where
  "on_keyboard c = (0x20 \<le> c \<and> c < 0x80)"

lemma screen_ok_cursor [simp]:
  "screen_ok (fb\<lparr>cursor_x := a\<rparr>) = screen_ok fb" "screen_ok (fb\<lparr>cursor_y := a\<rparr>) = screen_ok fb"
  "screen_ok (fb\<lparr>cursor_y := a, cursor_x := b\<rparr>) = screen_ok fb" "screen_ok (fb\<lparr>cursor_x := b, cursor_y := a\<rparr>) = screen_ok fb"
  by (simp_all add: screen_ok_def canvas_wf_def)

lemma scroll_ok:
  assumes "screen_ok fb"
  shows "\<exists>fb'. scroll_canvas 2 fb 1 = Inr fb' \<and> screen_ok fb' \<and> same_screen fb fb'"
proof -
  have wf: "canvas_wf fb" "16 \<le> WIDTH fb" "16 \<le> HEIGHT fb" using assms by (simp_all add: screen_ok_def)
  then have "unat (1 :: u32) * 16 \<le> unat (HEIGHT fb)" by (simp add: word_le_nat_alt)
  from scroll_moves [OF wf(1) this] obtain fb' where fb': "scroll_canvas 2 fb 1 = Inr fb'" "canvas_wf fb'" by (auto simp: fb_scroll_screen_def)
  then have "same_screen fb fb'" by (auto simp: scroll_canvas_def same_screen_def Let_def cbind_eq_Inr)
  then show ?thesis using fb' wf by (auto simp: screen_ok_def same_screen_def)
qed

lemma draw_pixels_framebuffer: "draw_pixels fb_draw_pixel c ps color = Inr c' \<Longrightarrow> \<exists>fb. c' = c\<lparr>FRAMEBUFFER := fb\<rparr>"
proof (induction ps arbitrary: c)
  case Nil
  then have "c' = c\<lparr>FRAMEBUFFER := FRAMEBUFFER c\<rparr>" by simp
  then show ?case ..
next
  case (Cons p ps)
  obtain px py where p: "p = (px, py)" by fastforce
  then obtain c1 where c1: "fb_draw_pixel c px py color = Inr c1" "draw_pixels fb_draw_pixel c1 ps color = Inr c'"
    using Cons.prems by (auto simp: cbind_eq_Inr)
  have "c1 = c\<lparr>FRAMEBUFFER := FRAMEBUFFER c1\<rparr>"
    using c1(1) by (auto simp: fb_draw_pixel_def paint_def Let_def cbind_eq_Inr split: if_splits)
  moreover obtain fb where "c' = c1\<lparr>FRAMEBUFFER := fb\<rparr>" using Cons.IH [OF c1(2)] by blast
  ultimately have "c' = c\<lparr>FRAMEBUFFER := fb\<rparr>" by (metis canvas.fold_congs(1) canvas.update_convs(1) canvas.surjective)
  then show ?case ..
qed

lemma putc_ok:
  assumes "screen_ok fb" and "on_keyboard c \<or> c = 10"
  shows "\<exists>fb'. fb_print_char_color fb c color = Inr fb' \<and> screen_ok fb' \<and> same_screen fb fb'"
proof -
  define c1 where "c1 = (if c = 13 then fb\<lparr>cursor_x := 0\<rparr> else if c = 10 then fb\<lparr>cursor_y := cursor_y fb + 1, cursor_x := 0\<rparr> else fb)"
  define c2 where "c2 = (if WIDTH c1 div 16 \<le> cursor_x c1 then c1\<lparr>cursor_x := 0, cursor_y := cursor_y c1 + 1\<rparr> else c1)"
  have k: "screen_ok c2" "same_screen fb c2" using assms(1) by (simp_all add: c2_def c1_def same_screen_def)
  then have k': "screen_ok (c2\<lparr>cursor_y := HEIGHT c2 div 16 - 1, cursor_x := 0\<rparr>)" by simp
  obtain c3 where c3: "(if HEIGHT c2 div 16 \<le> cursor_y c2 then scroll_canvas 2 (c2\<lparr>cursor_y := HEIGHT c2 div 16 - 1, cursor_x := 0\<rparr>) 1 else Inr c2) = Inr c3"
    "screen_ok c3" "same_screen fb c3"
    using scroll_ok [OF k'] k by (cases "HEIGHT c2 div 16 \<le> cursor_y c2") (auto simp: same_screen_def)
  have p: "fb_print_char_color fb c color = (if c = 10 \<or> c = 13 then Inr c3
      else cbind (draw_glyph fb_draw_pixel 2 c3 (cursor_x c3 * 8 * 2) (cursor_y c3 * 8 * 2) c color) (\<lambda>c4. Inr (c4\<lparr>cursor_x := cursor_x c4 + 1\<rparr>)))"
    using c3(1) unfolding fb_print_char_color_def print_on_def by (simp add: c1_def [symmetric] c2_def [symmetric])
  show ?thesis
  proof (cases "c = 10")
    case True
    then show ?thesis using p c3 by simp
  next
    case False
    then have c: "0x20 \<le> c" "c < 0x80" "c \<noteq> 13" using assms(2) by (auto simp: on_keyboard_def)
    have wf: "canvas_wf c3" using c3(2) by (simp add: screen_ok_def)
    obtain c4 where c4: "fb_draw_char c3 (cursor_x c3 * 8 * 2) (cursor_y c3 * 8 * 2) c color = Inr c4" "canvas_wf c4"
      "WIDTH c4 = WIDTH c3" "HEIGHT c4 = HEIGHT c3" "BPP c4 = BPP c3"
      using draw_char_paints [OF wf c(1,2), of "cursor_x c3 * 8 * 2" "cursor_y c3 * 8 * 2" color] by blast
    then have "text_color c4 = text_color c3"
      by (auto simp: fb_draw_char_def draw_glyph_def cbind_eq_Inr dest!: draw_pixels_framebuffer)
    then show ?thesis using p False c(3) c4 c3 by (auto simp: fb_draw_char_def screen_ok_def canvas_wf_def same_screen_def)
  qed
qed

lemma puts_ok:
  "screen_ok fb \<Longrightarrow> \<forall>c\<in>set cs. on_keyboard c \<or> c = 10 \<Longrightarrow>
   \<exists>fb'. fb_print_string_color fb (cs @ 0 # rest) color = Inr fb' \<and> screen_ok fb' \<and> same_screen fb fb'"
proof (induction cs arbitrary: fb)
  case (Cons c cs)
  obtain fb1 where fb1: "fb_print_char_color fb c color = Inr fb1" "screen_ok fb1" "same_screen fb fb1"
    using putc_ok [OF Cons.prems(1), of c color] Cons.prems(2) by auto
  obtain fb2 where fb2: "fb_print_string_color fb1 (cs @ 0 # rest) color = Inr fb2" "screen_ok fb2" "same_screen fb1 fb2"
    using Cons.IH [OF fb1(2)] Cons.prems(2) by auto
  have "c \<noteq> 0" using Cons.prems(2) by (auto simp: on_keyboard_def)
  then have "fb_print_string_color fb ((c # cs) @ 0 # rest) color = Inr fb2"
    using fb1(1) fb2(1) by (simp add: fb_print_string_color_def fb_print_char_color_def)
  then show ?case using fb2(2) same_screen_trans [OF fb1(3) fb2(3)] by blast
qed (simp add: fb_print_string_color_def)

text \<open>A new screen.\<close>

lemma new_screen_ok:
  assumes "16 \<le> w" and "16 \<le> h" and "unat w * 32 < 2 ^ 32" and "unat w * 3 * unat h < 2 ^ 32" and "unat w * 3 * unat h \<le> length mem"
  shows "\<exists>fb. FramebufferGraphics mem w h 24 = Inr fb \<and> screen_ok fb \<and> WIDTH fb = w \<and> HEIGHT fb = h \<and> BPP fb = 24"
proof -
  let ?c = "\<lparr>FRAMEBUFFER = mem, WIDTH = w, HEIGHT = h, BPP = 24, PITCH = w * 24 div 8, cursor_x = 0, cursor_y = 0, text_color = 0xAAAAAA\<rparr> :: framebuffer_graphics"
  have "unat (w * 24 div 8) = unat w * 3" using assms(3) by (simp add: unat_div unat_word_ariths)
  then have wf: "canvas_wf ?c" using assms by (simp add: canvas_wf_def)
  obtain c' where c': "draw_pixels fb_draw_pixel ?c (all_pixels ?c) 0 = Inr c'" "canvas_wf c'" "WIDTH c' = w" "HEIGHT c' = h" "BPP c' = 24"
    using draw_pixels_paint [OF wf, of "all_pixels ?c" 0] by auto
  then have "FramebufferGraphics mem w h 24 = Inr (c'\<lparr>cursor_x := 0, cursor_y := 0, text_color := 0xAAAAAA\<rparr>)"
    by (simp add: FramebufferGraphics_def fb_clear_screen_def)
  then show ?thesis using c' assms(1,2) by (auto simp: screen_ok_def canvas_wf_def)
qed

end
