(* ===== verification/Shell.thy ===== *)
theory Shell
  imports Bmp
begin

text \<open>
  The window manager, \<^verbatim>\<open>src/src/userland/shell/shell.cpp\<close>, its messages
  \<^verbatim>\<open>src/src/userland/stdlib/window/window.h\<close> and the program that opens a window,
  \<^verbatim>\<open>src/src/userland/wintest/wintest.cpp\<close>.  The variables of \<open>main\<close> are a record; the system calls are a parameter.  The
  theories \<open>ShellCursor\<close> and \<open>ShellMessages\<close> hold what is proved of it.
\<close>

section \<open>The system as a program sees it\<close>

text \<open>The library's system calls are assembly stubs: what they do is a parameter, on a world of its own.  A read gives the
  result and the bytes that arrived at the start of the buffer, \<open>malloc\<close> the memory or nothing.\<close>

record 'w user_calls =
  u_fopen :: "byte list \<Rightarrow> byte list \<Rightarrow> 'w \<Rightarrow> int \<times> 'w"
  u_fread :: "u32 \<Rightarrow> u32 \<Rightarrow> int \<Rightarrow> 'w \<Rightarrow> int \<times> byte list \<times> 'w"
  u_fwrite :: "byte list \<Rightarrow> u32 \<Rightarrow> u32 \<Rightarrow> int \<Rightarrow> 'w \<Rightarrow> int \<times> 'w"
  u_fstat :: "int \<Rightarrow> 'w \<Rightarrow> int \<times> u32 option \<times> 'w"
  u_fseek :: "int \<Rightarrow> int \<Rightarrow> u32 \<Rightarrow> 'w \<Rightarrow> int \<times> 'w"
  u_malloc :: "u32 \<Rightarrow> 'w \<Rightarrow> byte list option \<times> 'w"
  u_free :: "byte list \<Rightarrow> 'w \<Rightarrow> 'w"
  u_open_ipc :: "byte list \<Rightarrow> u32 \<Rightarrow> u32 \<Rightarrow> 'w \<Rightarrow> 'w"
  u_execprocess :: "byte list \<Rightarrow> 'w \<Rightarrow> 'w"
  u_getpid :: "'w \<Rightarrow> u32 \<times> 'w"
  u_debug :: "report \<Rightarrow> 'w \<Rightarrow> 'w"
  u_framebuffer_info :: "'w \<Rightarrow> (byte list \<times> u32 \<times> u32 \<times> u32) \<times> 'w"

definition reports :: "'w user_calls \<Rightarrow> report list \<Rightarrow> 'w \<Rightarrow> 'w" where
  "reports calls rs w = foldl (\<lambda>w r. u_debug calls r w) w rs"

text \<open>The size of a file; a file that cannot be asked has the size the variable was set to, 0.\<close>

definition file_length :: "'w user_calls \<Rightarrow> int \<Rightarrow> 'w \<Rightarrow> u32 \<times> 'w" where
  "file_length calls fd w = (case u_fstat calls fd w of (res, n, w') \<Rightarrow> (case n of None \<Rightarrow> 0 | Some k \<Rightarrow> k, w'))"

text \<open>\<open>fread\<close> into an object.\<close>

definition read_into :: "'w user_calls \<Rightarrow> byte list \<Rightarrow> u32 \<Rightarrow> int \<Rightarrow> 'w \<Rightarrow> fault + (byte list \<times> 'w)" where
  "read_into calls buf sz fd w =
     (case u_fread calls sz 1 fd w of (res, bs, w') \<Rightarrow> if length bs \<le> length buf then Inr (blit buf 0 bs, w') else Inl Bad_Write)"

text \<open>A loop over the elements of a list.\<close>

primrec each :: "('i \<Rightarrow> 's \<Rightarrow> fault + 's) \<Rightarrow> 'i list \<Rightarrow> 's \<Rightarrow> fault + 's" where
  "each body [] s = Inr s"
| "each body (i # is) s = cbind (body i s) (each body is)"

definition below :: "u32 \<Rightarrow> u32 list" where "below n = map word_of_nat [0..<unat n]"

definition slice :: "byte list \<Rightarrow> nat \<Rightarrow> nat \<Rightarrow> fault + byte list" where
  "slice xs i n = (if i + n \<le> length xs then Inr (take n (drop i xs)) else Inl Bad_Read)"

section \<open>Messages\<close>

datatype WINDOW_MESSAGE = REGISTER | SET_SIZE | FRAMEBUFFER_DATA | CLOSE

primrec message_code :: "WINDOW_MESSAGE \<Rightarrow> u32" where
  "message_code REGISTER = 0" | "message_code SET_SIZE = 1" | "message_code FRAMEBUFFER_DATA = 2" | "message_code CLOSE = 3"

definition window_message_preamble :: "u32 \<Rightarrow> WINDOW_MESSAGE \<Rightarrow> byte list" where
  "window_message_preamble pid t = enc32 pid @ enc32 (message_code t)"

definition window_message_set_size :: "u32 \<Rightarrow> u32 \<Rightarrow> byte list" where
  "window_message_set_size height width = enc32 height @ enc32 width"

section \<open>State\<close>

record shell_window =
  w_pid :: u32
  w_width :: u32
  w_height :: u32
  w_x :: u32
  w_y :: u32
  w_fd :: "byte list option"
  w_name :: "byte list option"
  w_dirty :: bool
  w_old_x :: u32
  w_old_y :: u32
  w_moving :: bool
  w_finished_moving :: bool

text \<open>The variables of \<open>main\<close>; the objects that \<open>fread\<close> fills are kept as bytes.\<close>

record shell =
  fbg :: framebuffer_graphics
  background :: BMPFile
  cursor :: BMPFile
  under_cursor_buffer :: "u32 list"
  mouse_x :: u32
  mouse_y :: u32
  windows :: "shell_window list"
  packet :: "byte list"
  preamble :: "byte list"
  set_size :: "byte list"
  tmp_char :: byte
  ipc_fd :: int
  framebuffer_fd :: int
  mouse_fd :: int

definition title_bar_sz :: u32 where "title_bar_sz = 24"

section \<open>Drawing\<close>

text \<open>A row of the framebuffer to the file of the screen: a seek and a write of \<open>n\<close> bytes from \<open>off\<close> on.\<close>

definition write_row :: "'w user_calls \<Rightarrow> u32 \<Rightarrow> u32 \<Rightarrow> shell \<times> 'w \<Rightarrow> fault + (shell \<times> 'w)" where
  "write_row calls off n sw = (case sw of (s, w) \<Rightarrow>
     cbind (slice (FRAMEBUFFER (fbg s)) (unat off) (unat n)) (\<lambda>bs.
       let (_, w1) = u_fseek calls (framebuffer_fd s) (sint off) 0 w; (_, w2) = u_fwrite calls bs n 1 (framebuffer_fd s) w1
       in Inr (s, w2)))"

definition draw_on :: "u32 \<Rightarrow> u32 \<Rightarrow> u32 \<Rightarrow> shell \<times> 'w \<Rightarrow> fault + (shell \<times> 'w)" where
  "draw_on x y color sw = (case sw of (s, w) \<Rightarrow> cbind (fb_draw_pixel (fbg s) x y color) (\<lambda>c. Inr (s\<lparr>fbg := c\<rparr>, w)))"

text \<open>A pixel of a picture, reported when it is outside.\<close>

definition picture_pixel :: "'w user_calls \<Rightarrow> BMPFile \<Rightarrow> u32 \<Rightarrow> u32 \<Rightarrow> 'w \<Rightarrow> fault + (u32 \<times> 'w)" where
  "picture_pixel calls f x y w = cbind (get_pixel f x y) (\<lambda>(c, rs). Inr (c, reports calls rs w))"

text \<open>Keeping the color under the cursor: the row length of the buffer is the height of the cursor.\<close>

definition keep_pixel :: "u32 \<Rightarrow> u32 \<Rightarrow> u32 \<Rightarrow> u32 \<Rightarrow> shell \<times> 'w \<Rightarrow> fault + (shell \<times> 'w)" where
  "keep_pixel mx my y x sw = (case sw of (s, w) \<Rightarrow>
     cbind (fb_get_pixel (fbg s) (mx + x) (my + y)) (\<lambda>c. cbind (get_height (cursor s)) (\<lambda>h.
     cbind (wr (under_cursor_buffer s) (unat (y * h + x)) c) (\<lambda>u. Inr (s\<lparr>under_cursor_buffer := u\<rparr>, w)))))"

definition cursor_pixel :: "'w user_calls \<Rightarrow> u32 \<Rightarrow> u32 \<Rightarrow> u32 \<Rightarrow> u32 \<Rightarrow> shell \<times> 'w \<Rightarrow> fault + (shell \<times> 'w)" where
  "cursor_pixel calls mx my y x sw =
     cbind (keep_pixel mx my y x sw) (\<lambda>(s, w). cbind (picture_pixel calls (cursor s) x y w) (\<lambda>(col, w').
       if col AND 0xFF000000 = 0 then Inr (s, w') else draw_on (mx + x) (my + y) col (s, w')))"

definition row_size :: "shell \<Rightarrow> u32 \<Rightarrow> u32" where "row_size s width = BPP (fbg s) div 8 * width"

definition cursor_row :: "'w user_calls \<Rightarrow> u32 \<Rightarrow> u32 \<Rightarrow> u32 \<Rightarrow> u32 \<Rightarrow> shell \<times> 'w \<Rightarrow> fault + (shell \<times> 'w)" where
  "cursor_row calls width mx my y sw =
     cbind (each (cursor_pixel calls mx my y) (below width) sw) (\<lambda>(s, w).
       write_row calls (get_offset (fbg s) mx (my + y)) (width * BPP (fbg s) div 8) (s, w))"

definition draw_cursor :: "'w user_calls \<Rightarrow> u32 \<Rightarrow> u32 \<Rightarrow> shell \<times> 'w \<Rightarrow> fault + (shell \<times> 'w)" where
  "draw_cursor calls mx my sw =
     cbind (get_height (cursor (fst sw))) (\<lambda>h. cbind (get_width (cursor (fst sw))) (\<lambda>wd. each (cursor_row calls wd mx my) (below h) sw))"

definition restore_pixel :: "u32 \<Rightarrow> u32 \<Rightarrow> u32 \<Rightarrow> u32 \<Rightarrow> shell \<times> 'w \<Rightarrow> fault + (shell \<times> 'w)" where
  "restore_pixel mx my y x sw =
     cbind (get_height (cursor (fst sw))) (\<lambda>h. cbind (rd (under_cursor_buffer (fst sw)) (unat (y * h + x))) (\<lambda>c.
       draw_on (mx + x) (my + y) c sw))"

definition restore_row :: "'w user_calls \<Rightarrow> u32 \<Rightarrow> u32 \<Rightarrow> u32 \<Rightarrow> u32 \<Rightarrow> shell \<times> 'w \<Rightarrow> fault + (shell \<times> 'w)" where
  "restore_row calls width mx my y sw =
     cbind (each (restore_pixel mx my y) (below width) sw) (\<lambda>(s, w).
       write_row calls (get_offset (fbg s) mx (my + y)) (row_size s width) (s, w))"

definition restore_cursor :: "'w user_calls \<Rightarrow> u32 \<Rightarrow> u32 \<Rightarrow> shell \<times> 'w \<Rightarrow> fault + (shell \<times> 'w)" where
  "restore_cursor calls mx my sw =
     cbind (get_height (cursor (fst sw))) (\<lambda>h. cbind (get_width (cursor (fst sw))) (\<lambda>wd. each (restore_row calls wd mx my) (below h) sw))"

section \<open>Messages of the clients\<close>

text \<open>The name of a window byte by byte up to the terminator; there is room for 255.\<close>

function name_loop :: "'w user_calls \<Rightarrow> int \<Rightarrow> byte list \<Rightarrow> nat \<Rightarrow> byte \<Rightarrow> 'w \<Rightarrow> fault + (byte list \<times> byte \<times> 'w)" where
  "name_loop calls fd name ctr c w =
     cbind (read_into calls [c] 1 fd w) (\<lambda>(buf, w'). let c' = hd buf in cbind (wr name ctr c') (\<lambda>name'.
       if c' \<noteq> 0 then name_loop calls fd name' (Suc ctr) c' w' else Inr (name', c', w')))"
  by pat_completeness auto
termination
  by (relation "measure (\<lambda>(calls, fd, name, ctr, c, w). length name - ctr)") (auto simp: wr_eq_Inr)

declare name_loop.simps [simp del]

definition put_window :: "nat \<Rightarrow> shell_window \<Rightarrow> shell \<Rightarrow> shell" where
  "put_window i v s = s\<lparr>windows := (windows s)[i := v]\<rparr>"

text \<open>A name is an array of 255 characters: what \<open>new\<close> leaves in it is overwritten up to the terminator.\<close>

definition register_window :: "'w user_calls \<Rightarrow> nat \<Rightarrow> shell \<times> 'w \<Rightarrow> fault + (shell \<times> 'w)" where
  "register_window calls i sw = (case sw of (s, w) \<Rightarrow> cbind (rd (windows s) i) (\<lambda>v.
     case u_malloc calls 255 w of (None, w1) \<Rightarrow> Inl Null_Deref
     | (Some m, w1) \<Rightarrow> cbind (name_loop calls (ipc_fd s) m 0 (tmp_char s) w1) (\<lambda>(name, c, w2).
         Inr (put_window i (v\<lparr>w_name := Some name\<rparr>) (s\<lparr>tmp_char := c\<rparr>), w2))))"

definition set_window_size :: "'w user_calls \<Rightarrow> nat \<Rightarrow> shell \<times> 'w \<Rightarrow> fault + (shell \<times> 'w)" where
  "set_window_size calls i sw = (case sw of (s, w) \<Rightarrow>
     cbind (read_into calls (set_size s) 8 (ipc_fd s) w) (\<lambda>(m, w1). cbind (rd (windows s) i) (\<lambda>v.
     cbind (le32 m 0) (\<lambda>height. cbind (le32 m 4) (\<lambda>width.
       let w2 = (case w_fd v of None \<Rightarrow> w1 | Some old \<Rightarrow> u_free calls old w1); (fd, w3) = u_malloc calls (width * height * 3) w2
       in Inr (put_window i (v\<lparr>w_height := height, w_width := width, w_fd := fd\<rparr>) (s\<lparr>set_size := m\<rparr>), w3))))))"

definition window_data :: "'w user_calls \<Rightarrow> nat \<Rightarrow> shell \<times> 'w \<Rightarrow> fault + (shell \<times> 'w)" where
  "window_data calls i sw = (case sw of (s, w) \<Rightarrow> cbind (rd (windows s) i) (\<lambda>v.
     case w_fd v of None \<Rightarrow> Inl Null_Deref
     | Some old \<Rightarrow> cbind (read_into calls old (w_width v * w_height v * 3) (ipc_fd s) w) (\<lambda>(m, w1).
         Inr (put_window i (v\<lparr>w_fd := Some m, w_dirty := True\<rparr>) s, w1))))"

definition close_window :: "'w user_calls \<Rightarrow> nat \<Rightarrow> shell \<times> 'w \<Rightarrow> fault + (shell \<times> 'w)" where
  "close_window calls i sw = (case sw of (s, w) \<Rightarrow> cbind (rd (windows s) i) (\<lambda>v.
     case w_fd v of None \<Rightarrow> Inl Diverges
     | Some old \<Rightarrow> Inr (put_window i (v\<lparr>w_fd := None\<rparr>) s, u_free calls old w)))"

definition handle_message :: "'w user_calls \<Rightarrow> shell \<times> 'w \<Rightarrow> fault + (shell \<times> 'w)" where
  "handle_message calls sw = (case sw of (s, w) \<Rightarrow>
     cbind (read_into calls (preamble s) 8 (ipc_fd s) w) (\<lambda>(m, w1). cbind (le32 m 0) (\<lambda>pid. cbind (le32 m 4) (\<lambda>t.
       let s1 = s\<lparr>preamble := m\<rparr>; i = unat pid in
       if t = message_code REGISTER then register_window calls i (s1, w1)
       else if t = message_code SET_SIZE then set_window_size calls i (s1, w1)
       else if t = message_code FRAMEBUFFER_DATA then window_data calls i (s1, w1)
       else if t = message_code CLOSE then close_window calls i (s1, w1)
       else Inr (s1, w1)))))"

section \<open>Windows on the screen\<close>

text \<open>A row of the title bar; the whole title is drawn again for every row.\<close>

definition title_row :: "'w user_calls \<Rightarrow> shell_window \<Rightarrow> u32 \<Rightarrow> shell \<times> 'w \<Rightarrow> fault + (shell \<times> 'w)" where
  "title_row calls v y sw =
     cbind (each (\<lambda>x. draw_on (w_x v + x) (w_y v + y) 0xffffffff) (below (w_width v)) sw) (\<lambda>(s, w).
     cbind (case w_name v of None \<Rightarrow> Inl Bad_Read | Some name \<Rightarrow> fb_draw_string (fbg s) (w_x v) (w_y v) name 0x00ff00ff) (\<lambda>c.
     let s1 = s\<lparr>fbg := c\<rparr> in write_row calls (get_offset (fbg s1) (w_x v) (w_y v + y)) (row_size s1 (w_width v)) (s1, w)))"

text \<open>A row of the contents, three bytes for a pixel whatever the screen has.\<close>

definition contents_row :: "'w user_calls \<Rightarrow> shell_window \<Rightarrow> byte list \<Rightarrow> u32 \<Rightarrow> shell \<times> 'w \<Rightarrow> fault + (shell \<times> 'w)" where
  "contents_row calls v fd y sw = (case sw of (s, w) \<Rightarrow>
     let off = get_offset (fbg s) (w_x v) (w_y v + title_bar_sz + y) in
     cbind (slice fd (unat (y * w_width v * 3)) (unat (w_width v * 3))) (\<lambda>bs.
     cbind (u_memcpy (FRAMEBUFFER (fbg s)) (unat off) bs 0 (unat (w_width v * 3))) (\<lambda>fb.
     let s1 = s\<lparr>fbg := (fbg s)\<lparr>FRAMEBUFFER := fb\<rparr>\<rparr>
     in write_row calls off (row_size s1 (w_width v)) (s1, w))))"

definition draw_window :: "'w user_calls \<Rightarrow> nat \<Rightarrow> shell \<times> 'w \<Rightarrow> fault + (shell \<times> 'w)" where
  "draw_window calls i sw = cbind (rd (windows (fst sw)) i) (\<lambda>v.
     case w_fd v of None \<Rightarrow> Inr sw
     | Some fd \<Rightarrow> if \<not> w_dirty v \<or> w_moving v then Inr sw
         else cbind (each (title_row calls v) (below title_bar_sz) sw) (\<lambda>sw1.
              cbind (each (contents_row calls v fd) (below (w_height v)) sw1) (\<lambda>(s, w).
              Inr (put_window i (v\<lparr>w_dirty := False\<rparr>) s, w))))"

section \<open>The mouse\<close>

definition packet_x :: "shell \<Rightarrow> fault + u32" where "packet_x s = le32 (packet s) 0"
definition packet_y :: "shell \<Rightarrow> fault + u32" where "packet_y s = le32 (packet s) 4"
definition packet_buttons :: "shell \<Rightarrow> fault + byte" where "packet_buttons s = rd (packet s) 8"

text \<open>Where the pointer is on the title bar of a window.\<close>

definition on_title :: "shell \<Rightarrow> shell_window \<Rightarrow> bool" where
  "on_title s v = (w_x v < mouse_x s \<and> mouse_x s - w_x v < w_width v \<and> w_y v < mouse_y s \<and> mouse_y s - w_y v < title_bar_sz)"

definition drag_window :: "u32 \<Rightarrow> u32 \<Rightarrow> byte \<Rightarrow> shell \<Rightarrow> shell_window \<Rightarrow> shell_window" where
  "drag_window dx dy buttons s v =
     (if buttons AND 1 = 1 \<and> on_title s v
      then (let v1 = (if w_moving v then v else v\<lparr>w_old_x := w_x v, w_old_y := w_y v, w_moving := True\<rparr>)
            in v1\<lparr>w_x := w_x v1 + dx, w_y := w_y v1 + dy\<rparr>)
      else if buttons AND 1 = 0 \<and> w_moving v then v\<lparr>w_moving := False, w_finished_moving := True\<rparr> else v)"

definition background_row :: "'w user_calls \<Rightarrow> shell_window \<Rightarrow> u32 \<Rightarrow> shell \<times> 'w \<Rightarrow> fault + (shell \<times> 'w)" where
  "background_row calls v y sw =
     cbind (each (\<lambda>x sw. cbind (picture_pixel calls (background (fst sw)) (w_old_x v + x) (w_old_y v + y) (snd sw)) (\<lambda>(c, w).
        draw_on (w_old_x v + x) (w_old_y v + y) c (fst sw, w))) (below (w_width v)) sw) (\<lambda>(s, w).
       write_row calls (get_offset (fbg s) (w_old_x v) (w_old_y v + y)) (row_size s (w_width v)) (s, w))"

text \<open>After a move the old place gets the background, and the colors under the cursor are taken from there.\<close>

definition clear_old_place :: "'w user_calls \<Rightarrow> shell_window \<Rightarrow> shell \<times> 'w \<Rightarrow> fault + (shell \<times> 'w)" where
  "clear_old_place calls v sw =
     cbind (each (background_row calls v) (below (w_height v + title_bar_sz)) sw) (\<lambda>sw1.
     cbind (get_height (cursor (fst sw1))) (\<lambda>h. cbind (get_width (cursor (fst sw1))) (\<lambda>wd.
       each (\<lambda>y. each (keep_pixel (w_old_x v) (w_old_y v) y) (below wd)) (below h) sw1)))"

definition move_window :: "'w user_calls \<Rightarrow> nat \<Rightarrow> shell \<times> 'w \<Rightarrow> fault + (shell \<times> 'w)" where
  "move_window calls i sw = (case sw of (s, w) \<Rightarrow> cbind (rd (windows s) i) (\<lambda>v.
     if w_fd v = None then Inr sw
     else cbind (packet_buttons s) (\<lambda>buttons. cbind (packet_x s) (\<lambda>dx. cbind (packet_y s) (\<lambda>dy.
       let v1 = drag_window dx dy buttons s v; s1 = put_window i v1 s in
       if \<not> w_finished_moving v1 then Inr (s1, w)
       else cbind (clear_old_place calls v1 (s1, w)) (\<lambda>(s2, w2). Inr (put_window i (v1\<lparr>w_finished_moving := False\<rparr>) s2, w2)))))))"

text \<open>A coordinate of the pointer after a movement, as signed numbers.\<close>

definition new_position :: "u32 \<Rightarrow> u32 \<Rightarrow> u32 \<Rightarrow> u32" where
  "new_position m d edge =
     (let n = m + d; n1 = (if sint n < 1 then 1 else n) in if sint edge \<le> sint n1 then edge else n1)"

definition move_cursor :: "'w user_calls \<Rightarrow> shell \<times> 'w \<Rightarrow> fault + (shell \<times> 'w)" where
  "move_cursor calls sw =
     cbind (restore_cursor calls (mouse_x (fst sw)) (mouse_y (fst sw)) sw) (\<lambda>(s, w).
     cbind (packet_x s) (\<lambda>dx. cbind (packet_y s) (\<lambda>dy.
       let nx = new_position (mouse_x s) dx (WIDTH (fbg s)); ny = new_position (mouse_y s) dy (HEIGHT (fbg s))
       in cbind (draw_cursor calls nx ny (s, w)) (\<lambda>(s1, w1). Inr (s1\<lparr>mouse_x := nx, mouse_y := ny\<rparr>, w1)))))"

section \<open>The program\<close>

definition shell_step :: "'w user_calls \<Rightarrow> shell \<times> 'w \<Rightarrow> fault + (shell \<times> 'w)" where
  "shell_step calls sw = (case sw of (s, w) \<Rightarrow>
     let (ipc_size, w1) = file_length calls (ipc_fd s) w; (mouse_size, w2) = file_length calls (mouse_fd s) w1 in
     cbind (if 0 < ipc_size then handle_message calls (s, w2) else Inr (s, w2)) (\<lambda>sw1.
     cbind (each (draw_window calls) [0..<32] sw1) (\<lambda>(s2, w3).
       if mouse_size = 0 then Inr (s2, w3)
       else cbind (read_into calls (packet s2) 12 (mouse_fd s2) w3) (\<lambda>(m, w4).
            cbind (each (move_window calls) [0..<32] (s2\<lparr>packet := m\<rparr>, w4)) (move_cursor calls)))))"

text \<open>A picture from a file; the memory for it is not checked for null.\<close>

definition load_picture :: "'w user_calls \<Rightarrow> byte list \<Rightarrow> 'w \<Rightarrow> fault + (BMPFile \<times> 'w)" where
  "load_picture calls path w =
     (let (fd, w1) = u_fopen calls path (lit ''r'') w; (n, w2) = file_length calls fd w1; (m, w3) = u_malloc calls n w2
      in cbind (read_into calls (case m of None \<Rightarrow> [] | Some b \<Rightarrow> b) n fd w3) (\<lambda>(bs, w4). cbind (BMPFile_new bs n) (\<lambda>(f, rs).
           Inr (f, reports calls rs w4))))"

definition draw_background :: "'w user_calls \<Rightarrow> shell \<times> 'w \<Rightarrow> fault + (shell \<times> 'w)" where
  "draw_background calls sw =
     cbind (get_height (background (fst sw))) (\<lambda>h. cbind (get_width (background (fst sw))) (\<lambda>wd.
       each (\<lambda>y. each (\<lambda>x sw. cbind (picture_pixel calls (background (fst sw)) x y (snd sw)) (\<lambda>(c, w).
         draw_on x y c (fst sw, w))) (below wd)) (below h) sw))"

text \<open>What \<open>main\<close> does before its loop.  The objects of the messages and the windows are new: their contents are an argument.\<close>

definition shell_start :: "'w user_calls \<Rightarrow> shell_window list \<Rightarrow> byte list \<times> byte list \<times> byte list \<times> byte \<Rightarrow> 'w
    \<Rightarrow> fault + (shell \<times> 'w)" where
  "shell_start calls new_windows objects w0 =
     (let w1 = u_debug calls (chars ''Starting GitOS Graphical Shell..'' @ [10, 0], []) w0;
          w2 = u_open_ipc calls (lit ''WindowServer'') (1024 * 512) 1 w1;
          (ipc, w3) = u_fopen calls (lit ''0:/ipc/WindowServer'') (lit ''rw'') w2;
          w4 = u_execprocess calls (lit ''0:/wintest.elf'') w3;
          ((fb, width, height, bpp), w5) = u_framebuffer_info calls w4
      in cbind (FramebufferGraphics fb width height bpp) (\<lambda>g.
         let (fb_fd, w6) = u_fopen calls (lit ''0:/fb'') (lit ''rw'') w5; (m_fd, w7) = u_fopen calls (lit ''0:/mouse'') (lit ''r'') w6
         in cbind (load_picture calls (lit ''0:/sys/bg.bmp'') w7) (\<lambda>(bg, w8).
         let (p, q, r, c) = objects;
             s = \<lparr>fbg = g, background = bg, cursor = bg, under_cursor_buffer = [], mouse_x = WIDTH g div 2, mouse_y = HEIGHT g div 2,
                  windows = new_windows, packet = p, preamble = q, set_size = r, tmp_char = c, ipc_fd = ipc, framebuffer_fd = fb_fd,
                  mouse_fd = m_fd\<rparr>
         in cbind (draw_background calls (s, w8)) (\<lambda>(s1, w9).
            cbind (fb_print_string_color (fbg s1) (lit ''GitOS Shell'') 0xffff0000) (\<lambda>g1.
            cbind (load_picture calls (lit ''0:/sys/cursor.bmp'') w9) (\<lambda>(cur, w10).
            cbind (get_width cur) (\<lambda>wd. cbind (get_height cur) (\<lambda>h.
            let s2 = s1\<lparr>fbg := g1, cursor := cur, under_cursor_buffer := replicate (unat (wd * h * 4)) 0\<rparr>
            in cbind (each (\<lambda>y. each (cursor_pixel calls (mouse_x s2) (mouse_y s2) y) (below wd)) (below h) (s2, w10)) (\<lambda>(s3, w11).
               cbind (slice (FRAMEBUFFER (fbg s3)) 0 (unat (get_buffer_size (fbg s3)))) (\<lambda>bs.
                 Inr (s3, snd (u_fwrite calls bs (get_buffer_size (fbg s3)) 1 fb_fd w11))))))))))))"

text \<open>The loop has no end: \<open>n\<close> rounds of it.\<close>

primrec shell_rounds :: "'w user_calls \<Rightarrow> nat \<Rightarrow> shell \<times> 'w \<Rightarrow> fault + (shell \<times> 'w)" where
  "shell_rounds calls 0 sw = Inr sw"
| "shell_rounds calls (Suc n) sw = cbind (shell_step calls sw) (shell_rounds calls n)"

section \<open>A client\<close>

text \<open>\<^verbatim>\<open>src/src/userland/wintest/wintest.cpp\<close>: the program that opens a window; the messages it writes.\<close>

definition announce_window :: "'w user_calls \<Rightarrow> int \<Rightarrow> u32 \<Rightarrow> framebuffer_graphics \<Rightarrow> 'w \<Rightarrow> 'w" where
  "announce_window calls ws_fd pid fb w =
     (let w1 = snd (u_fwrite calls (window_message_preamble pid REGISTER) 8 1 ws_fd w);
          w2 = snd (u_fwrite calls (lit ''Window Test'') 1 12 ws_fd w1);
          w3 = snd (u_fwrite calls (window_message_preamble pid SET_SIZE) 8 1 ws_fd w2)
      in snd (u_fwrite calls (window_message_set_size (HEIGHT fb) (WIDTH fb)) 8 1 ws_fd w3))"

definition send_frame :: "'w user_calls \<Rightarrow> int \<Rightarrow> u32 \<Rightarrow> framebuffer_graphics \<Rightarrow> 'w \<Rightarrow> fault + (framebuffer_graphics \<times> 'w)" where
  "send_frame calls ws_fd pid fb w =
     cbind (fb_print_string_color fb (lit ''i'') 0xffff0000) (\<lambda>fb1.
     cbind (slice (FRAMEBUFFER fb1) 0 (unat (get_buffer_size fb1))) (\<lambda>bs.
       Inr (fb1, snd (u_fwrite calls (window_message_preamble pid FRAMEBUFFER_DATA @ bs) (8 + get_buffer_size fb1) 1 ws_fd w))))"

definition wintest_start :: "'w user_calls \<Rightarrow> byte list \<Rightarrow> 'w \<Rightarrow> fault + (int \<times> u32 \<times> framebuffer_graphics \<times> 'w)" where
  "wintest_start calls fb_memory w =
     (let (ws_fd, w1) = u_fopen calls (lit ''0:/ipc/WindowServer'') (lit ''rw'') w
      in cbind (FramebufferGraphics fb_memory 200 200 24) (\<lambda>fb. cbind (fb_print_string_color fb (lit ''h'') 0xffff0000) (\<lambda>fb1.
         let (pid, w2) = u_getpid calls w1 in Inr (ws_fd, pid, fb1, announce_window calls ws_fd pid fb1 w2))))"

section \<open>Loops over a rectangle\<close>

lemma each_steps:
  assumes "\<And>i s. i < length is \<Longrightarrow> P i s \<Longrightarrow> \<exists>s'. body (is ! i) s = Inr s' \<and> P (Suc i) s'"
  shows "P k s \<Longrightarrow> k \<le> length is \<Longrightarrow> \<exists>s'. each body (drop k is) s = Inr s' \<and> P (length is) s'"
proof (induction "length is - k" arbitrary: k s)
  case 0
  then show ?case by simp
next
  case (Suc n)
  then have k: "k < length is" by simp
  obtain s1 where s1: "body (is ! k) s = Inr s1" "P (Suc k) s1" using assms [OF k Suc.prems(1)] by blast
  have n: "n = length is - Suc k" "Suc k \<le> length is" using Suc.hyps(2) k by simp_all
  obtain s' where "each body (drop (Suc k) is) s1 = Inr s'" "P (length is) s'" using Suc.hyps(1) [OF n(1) s1(2) n(2)] by blast
  moreover have "drop k is = is ! k # drop (Suc k) is" using k by (simp add: Cons_nth_drop_Suc)
  ultimately show ?case using s1(1) by simp
qed

lemma each_below:
  assumes "\<And>i s. i < unat n \<Longrightarrow> P i s \<Longrightarrow> \<exists>s'. body (word_of_nat i) s = Inr s' \<and> P (Suc i) s'" and "P 0 s"
  shows "\<exists>s'. each body (below n) s = Inr s' \<and> P (unat n) s'"
  using each_steps [of "below n" P body 0 s] assms by (simp add: below_def)

lemma below_nth: "i < unat (n :: u32) \<Longrightarrow> unat (word_of_nat i :: u32) = i \<and> (word_of_nat i :: u32) < n"
  using unsigned_less [of n, where 'a = nat] by (simp add: word_less_nat_alt unat_of_nat_small)

text \<open>Rows of pixels: \<open>I D\<close> holds when the pixels of \<open>D\<close> are done.\<close>

lemma each_grid:
  fixes wd h :: u32
  assumes pixel: "\<And>D x y s. x < wd \<Longrightarrow> y < h \<Longrightarrow> (x, y) \<notin> D \<Longrightarrow> I D s \<Longrightarrow> \<exists>s'. pixel y x s = Inr s' \<and> I (insert (x, y) D) s'"
    and finish: "\<And>D y s. y < h \<Longrightarrow> I D s \<Longrightarrow> \<exists>s'. finish y s = Inr s' \<and> I D s'"
    and row: "\<And>y s. row y s = cbind (each (pixel y) (below wd) s) (finish y)"
    and start: "I {} s"
  shows "\<exists>s'. each row (below h) s = Inr s' \<and> I {(x, y). x < wd \<and> y < h} s'"
proof -
  define R where "R n = {(x, y :: u32). x < wd \<and> unat y < n}" for n :: nat
  define Q where "Q n m = R n \<union> {(x, y). unat x < m \<and> x < wd \<and> unat y = n}" for n m :: nat
  have "\<exists>s'. row (word_of_nat n) s = Inr s' \<and> I (R (Suc n)) s'" if n: "n < unat h" and s: "I (R n) s" for n s
  proof -
    note y = below_nth [OF n]
    have "\<exists>s'. each (pixel (word_of_nat n)) (below wd) s = Inr s' \<and> I (Q n (unat wd)) s'"
    proof (rule each_below)
      fix m s assume m: "m < unat wd" and s: "I (Q n m) s"
      note x = below_nth [OF m]
      have "(word_of_nat m, word_of_nat n) \<notin> Q n m" using x y by (simp add: Q_def R_def)
      moreover have "insert (word_of_nat m, word_of_nat n) (Q n m) = Q n (Suc m)"
        using x y by (auto simp: Q_def R_def less_Suc_eq word_unat_eq_iff)
      ultimately show "\<exists>s'. pixel (word_of_nat n) (word_of_nat m) s = Inr s' \<and> I (Q n (Suc m)) s'"
        using pixel [OF _ _ _ s, of "word_of_nat m" "word_of_nat n"] x y by metis
    qed (use s in \<open>simp add: Q_def\<close>)
    then obtain s1 where s1: "each (pixel (word_of_nat n)) (below wd) s = Inr s1" "I (Q n (unat wd)) s1" by blast
    have "Q n (unat wd) = R (Suc n)" by (auto simp: Q_def R_def word_less_nat_alt less_Suc_eq)
    then show ?thesis using finish [OF _ s1(2), of "word_of_nat n"] y s1(1) row by simp
  qed
  moreover have "R 0 = {}" "R (unat h) = {(x, y). x < wd \<and> y < h}" by (auto simp: R_def word_less_nat_alt)
  ultimately show ?thesis using each_below [of h "\<lambda>n. I (R n)" row s] start by simp
qed

section \<open>The cursor\<close>

definition colors :: "'a canvas_scheme \<Rightarrow> u32 \<Rightarrow> u32 \<Rightarrow> u32" where
  "colors c px py = (case fb_get_pixel c px py of Inl _ \<Rightarrow> 0 | Inr v \<Rightarrow> v)"

lemma get_colors: "canvas_wf c \<Longrightarrow> fb_get_pixel c px py = Inr (colors c px py)"
  using get_pixel_spec [of c px py] by (cases "px < WIDTH c \<and> py < HEIGHT c") (auto simp: colors_def fb_get_pixel_def not_less)

lemma take_bit_color: "take_bit 24 (ucast a OR push_bit 8 (ucast b) OR push_bit 16 (ucast (c :: byte)) :: u32)
    = ucast (a :: byte) OR push_bit 8 (ucast (b :: byte)) OR push_bit 16 (ucast c)"
  by (rule bit_word_eqI) (auto simp: bit_simps dest: bit_imp_le_length)

lemma colors_value: "canvas_wf c \<Longrightarrow> pixel_value c (colors c px py) = colors c px py"
proof (cases "px < WIDTH c \<and> py < HEIGHT c")
  case True
  assume wf: "canvas_wf c"
  show ?thesis
  proof (cases "BPP c = 32")
    case False
    let ?bs = "take (pixel_size c) (drop (pixel_pos c px py) (FRAMEBUFFER c))"
    have "pixel_size c = 3" using canvas_sizes(1) [OF wf] False by simp
    moreover have "pixel_pos c px py + pixel_size c \<le> length (FRAMEBUFFER c)"
      using pixel_bound(1) [OF wf, of px py] True canvas_room [OF wf] by simp
    ultimately have "length ?bs = 3" by simp
    then obtain a b d where "?bs = [a, b, d]" using length_3 by blast
    then show ?thesis using get_pixel_spec [OF wf, of px py] True False by (simp add: colors_def pixel_value_def bytes_word_3_4 take_bit_color del: take_bit_or)
  qed (simp add: pixel_value_def)
qed (auto simp: colors_def fb_get_pixel_def not_less pixel_value_def)

lemma draw_colors:
  assumes "canvas_wf c" and "x < WIDTH c" and "y < HEIGHT c"
  shows "\<exists>c'. fb_draw_pixel c x y color = Inr c' \<and> canvas_wf c' \<and> WIDTH c' = WIDTH c \<and> HEIGHT c' = HEIGHT c \<and> BPP c' = BPP c
    \<and> colors c' = (\<lambda>px py. if px = x \<and> py = y then pixel_value c color else colors c px py)"
proof -
  obtain c' where c': "fb_draw_pixel c x y color = Inr c'" "canvas_wf c'" "WIDTH c' = WIDTH c" "HEIGHT c' = HEIGHT c" "BPP c' = BPP c"
    "\<forall>x' y'. fb_get_pixel c' x' y' = (if (x', y') = (x, y) then Inr (pixel_value c color) else fb_get_pixel c x' y')"
    using draw_pixel_paints [OF assms, of color] by blast
  then have "colors c' = (\<lambda>px py. if px = x \<and> py = y then pixel_value c color else colors c px py)"
    by (intro ext) (simp add: colors_def)
  then show ?thesis using c' by blast
qed

text \<open>A cursor picture that is not wider than high; its color at a place, and whether it hides what is below.\<close>

definition cursor_picture :: "BMPFile \<Rightarrow> u32 \<Rightarrow> u32 \<Rightarrow> bool" where
  "cursor_picture f wd h = (get_width f = Inr wd \<and> get_height f = Inr h \<and> wd \<le> h \<and> unat h * unat h < 2 ^ 32
     \<and> (\<forall>x<wd. \<forall>y<h. \<exists>c rs. get_pixel f x y = Inr (c, rs)))"

definition picture_at :: "BMPFile \<Rightarrow> u32 \<Rightarrow> u32 \<Rightarrow> u32" where
  "picture_at f x y = (case get_pixel f x y of Inl _ \<Rightarrow> 0 | Inr (c, _) \<Rightarrow> c)"

definition hides :: "BMPFile \<Rightarrow> u32 \<Rightarrow> u32 \<Rightarrow> bool" where
  "hides f x y = (picture_at f x y AND 0xFF000000 \<noteq> 0)"

text \<open>A rectangle that is all on the screen.\<close>

definition fits :: "'a canvas_scheme \<Rightarrow> u32 \<Rightarrow> u32 \<Rightarrow> u32 \<Rightarrow> u32 \<Rightarrow> bool" where
  "fits c x y wd h = (unat x + unat wd \<le> unat (WIDTH c) \<and> unat y + unat h \<le> unat (HEIGHT c))"

text \<open>The places of the cursor in the buffer are different ones.\<close>

lemma under_index:
  assumes "wd \<le> h" and "unat h * unat h < 2 ^ 32" and "x < wd" and "y < (h :: u32)"
  shows "unat (y * h + x) = unat y * unat h + unat x" "unat (y * h + x) < unat h * unat h"
proof -
  have b: "unat x < unat h" "unat y < unat h" using assms(1,3,4) by (simp_all add: word_less_nat_alt word_le_nat_alt)
  have "Suc (unat y) * unat h \<le> unat h * unat h" using b(2) by (intro mult_le_mono1) simp
  then have l: "unat y * unat h + unat x < unat h * unat h" using b(1) by simp
  then show "unat (y * h + x) = unat y * unat h + unat x" using assms(2) by (simp add: unat_word_ariths)
  then show "unat (y * h + x) < unat h * unat h" using l by simp
qed

lemma under_apart:
  assumes "wd \<le> h" and "unat h * unat h < 2 ^ 32" and "x < wd" and "y < h" and "x' < wd" and "y' < h"
    and "unat (y * h + x) = unat (y' * h + (x' :: u32))"
  shows "(x, y) = (x', y')"
proof -
  have e: "unat y * unat h + unat x = unat y' * unat h + unat x'"
    using under_index(1) [OF assms(1,2,3,4)] under_index(1) [OF assms(1,2,5,6)] assms(7) by simp
  have b: "unat x < unat h" "unat x' < unat h" using assms(1,3,5) by (simp_all add: word_less_nat_alt word_le_nat_alt)
  have "unat y = (unat y * unat h + unat x) div unat h" using b by simp
  also have "\<dots> = unat y'" using b e by simp
  finally have y: "unat y = unat y'" .
  then have "unat x = unat x'" using e by simp
  with y show ?thesis by (simp add: word_unat_eq_iff)
qed

lemma each_same: "length xs = length ys \<Longrightarrow> each (\<lambda>_. b) xs s = each (\<lambda>_. b) ys s"
proof (induction xs ys arbitrary: s rule: list_induct2)
  case (Cons x xs y ys)
  then show ?case by (cases "b s") simp_all
qed simp

lemma each_stops:
  assumes "\<And>i s. i < k \<Longrightarrow> I s \<Longrightarrow> \<exists>s'. body (xs ! i) s = Inr s' \<and> I s'" and "\<And>s. I s \<Longrightarrow> body (xs ! k) s = Inl e" and "k < length xs" and "I s"
  shows "each body xs s = Inl e"
  using assms
proof (induction k arbitrary: xs s)
  case 0
  then show ?case by (cases xs) simp_all
next
  case (Suc k)
  then obtain i js where j: "xs = i # js" by (cases xs) auto
  obtain s1 where s1: "body i s = Inr s1" "I s1" using Suc.prems(1) [of 0] Suc.prems(4) j by auto
  have p: "\<exists>s'. body (js ! n) s = Inr s' \<and> I s'" if "n < k" "I s" for n s using Suc.prems(1) [of "Suc n" s] that j by simp
  have "each body js s1 = Inl e" by (rule Suc.IH [OF p _ _ s1(2)]) (use Suc.prems(2,3) j in auto)
  then show ?case using s1 j by simp
qed

lemma each_keeps:
  assumes "\<And>i s s'. body i s = Inr s' \<Longrightarrow> f s' = f s"
  shows "each body xs s = Inr s' \<Longrightarrow> f s' = f s"
proof (induction xs arbitrary: s)
  case (Cons x xs)
  then obtain s1 where "body x s = Inr s1" "each body xs s1 = Inr s'" by (auto simp: cbind_eq_Inr)
  then show ?case using Cons.IH assms by metis
qed simp

section \<open>Samples\<close>

text \<open>A machine on which nothing happens, and a small screen with a picture on it.\<close>

definition quiet_calls :: "unit user_calls" where
  "quiet_calls = \<lparr>u_fopen = (\<lambda>_ _ w. (1, w)), u_fread = (\<lambda>_ _ _ w. (0, [], w)), u_fwrite = (\<lambda>_ _ _ _ w. (1, w)), u_fstat = (\<lambda>_ w. (0, None, w)),
     u_fseek = (\<lambda>_ _ _ w. (0, w)), u_malloc = (\<lambda>n w. (Some (replicate (unat n) 0), w)), u_free = (\<lambda>_ w. w), u_open_ipc = (\<lambda>_ _ _ w. w),
     u_execprocess = (\<lambda>_ w. w), u_getpid = (\<lambda>w. (1, w)), u_debug = (\<lambda>_ w. w), u_framebuffer_info = (\<lambda>w. (([], 0, 0, 0), w))\<rparr>"

definition small_cursor :: BMPFile where
  "small_cursor = bmp_file (bmp_bytes 2 2 (\<lambda>x y. (255, word_of_nat x, word_of_nat y)))"

definition small_shell :: "u32 \<Rightarrow> u32 \<Rightarrow> shell" where
  "small_shell x y = \<lparr>fbg = \<lparr>FRAMEBUFFER = map word_of_nat [0..<60], WIDTH = 5, HEIGHT = 4, BPP = 24, PITCH = 15, cursor_x = 0, cursor_y = 0,
     text_color = 0\<rparr>, background = small_cursor, cursor = small_cursor, under_cursor_buffer = replicate 16 0, mouse_x = x, mouse_y = y,
     windows = [], packet = replicate 12 0, preamble = replicate 8 0, set_size = replicate 8 0, tmp_char = 0, ipc_fd = 1, framebuffer_fd = 2,
     mouse_fd = 3\<rparr>"

definition new_window :: shell_window where
  "new_window = \<lparr>w_pid = 0, w_width = 0, w_height = 0, w_x = 0, w_y = 0, w_fd = None, w_name = None, w_dirty = False, w_old_x = 0, w_old_y = 0,
     w_moving = False, w_finished_moving = False\<rparr>"

end
