(* ===== verification/ShellCursor.thy ===== *)
theory ShellCursor
  imports Shell
begin

text \<open>
  The cursor of the window manager: what is under it comes back (an invariant over the loops of a rectangle, with the picture below as
  the abstraction), what happens at the lower edge, and that the pointer stays on the screen.
\<close>

text \<open>The states of the shell that differ in the screen and the buffer only.\<close>

definition same_shell :: "shell \<Rightarrow> shell \<Rightarrow> bool" where
  "same_shell s0 s = (s = s0\<lparr>fbg := fbg s, under_cursor_buffer := under_cursor_buffer s\<rparr> \<and> canvas_wf (fbg s)
     \<and> WIDTH (fbg s) = WIDTH (fbg s0) \<and> HEIGHT (fbg s) = HEIGHT (fbg s0) \<and> BPP (fbg s) = BPP (fbg s0)
     \<and> length (under_cursor_buffer s) = length (under_cursor_buffer s0))"

lemma same_shell_fields:
  assumes "same_shell s0 s"
  shows "cursor s = cursor s0" "mouse_x s = mouse_x s0" "mouse_y s = mouse_y s0" "packet s = packet s0" "framebuffer_fd s = framebuffer_fd s0"
proof -
  have "s = s0\<lparr>fbg := fbg s, under_cursor_buffer := under_cursor_buffer s\<rparr>" using assms by (simp add: same_shell_def)
  then show "cursor s = cursor s0" "mouse_x s = mouse_x s0" "mouse_y s = mouse_y s0" "packet s = packet s0" "framebuffer_fd s = framebuffer_fd s0"
    by (cases s0; cases s; simp)+
qed

lemma same_shell_step:
  "same_shell s0 s \<Longrightarrow> canvas_wf c \<Longrightarrow> WIDTH c = WIDTH (fbg s) \<Longrightarrow> HEIGHT c = HEIGHT (fbg s) \<Longrightarrow> BPP c = BPP (fbg s) \<Longrightarrow> same_shell s0 (s\<lparr>fbg := c\<rparr>)"
  "same_shell s0 s \<Longrightarrow> length u = length (under_cursor_buffer s) \<Longrightarrow> same_shell s0 (s\<lparr>under_cursor_buffer := u\<rparr>)"
  by (cases s0; cases s; simp add: same_shell_def)+

lemma same_shell_refl: "canvas_wf (fbg s) \<Longrightarrow> same_shell s s"
  by (simp add: same_shell_def)

lemma same_shell_trans: "same_shell s0 s1 \<Longrightarrow> same_shell s1 s2 \<Longrightarrow> same_shell s0 s2"
  by (cases s0; cases s1; cases s2; simp add: same_shell_def)

lemma pixel_value_same: "BPP c = BPP c' \<Longrightarrow> pixel_value c v = pixel_value c' v"
  by (simp add: pixel_value_def)

lemma fits_pixel:
  assumes "fits c mx my wd h" and "x < wd" and "y < h"
  shows "mx + x < WIDTH c" "my + y < HEIGHT c"
proof -
  have "unat x < unat wd" "unat y < unat h" using assms(2,3) by (simp_all add: word_less_nat_alt)
  moreover have "unat (WIDTH c) < 2 ^ 32" "unat (HEIGHT c) < 2 ^ 32" using unsigned_less [of "WIDTH c", where 'a = nat] unsigned_less [of "HEIGHT c", where 'a = nat] by simp_all
  ultimately show "mx + x < WIDTH c" "my + y < HEIGHT c"
    using assms(1) by (simp_all add: word_less_nat_alt fits_def unat_word_ariths)
qed

text \<open>A row that is on the screen is in the buffer.\<close>

lemma write_row_ok:
  assumes wf: "canvas_wf (fbg s)" and f: "fits (fbg s) mx my wd h" and y: "y < h" and wd: "0 < unat wd"
    and n: "unat n = unat wd * pixel_size (fbg s)"
  shows "\<exists>w'. write_row calls (get_offset (fbg s) mx (my + y)) n (s, w) = Inr (s, w')"
proof -
  let ?c = "fbg s"
  note sz = canvas_sizes [OF wf]
  have yy: "my + y < HEIGHT ?c"
    using y f unsigned_less [of "HEIGHT ?c", where 'a = nat] by (simp add: word_less_nat_alt fits_def unat_word_ariths)
  have rows: "Suc (unat (my + y)) * unat (PITCH ?c) \<le> unat (HEIGHT ?c) * unat (PITCH ?c)"
    using yy by (intro mult_le_mono1) (simp add: word_less_nat_alt)
  have room: "unat (my + y) * unat (PITCH ?c) + (unat mx + unat wd) * pixel_size ?c \<le> length (FRAMEBUFFER ?c)"
    using rows f sz(3) canvas_room(2) [OF wf] mult_le_mono1 [of "unat mx + unat wd" "unat (WIDTH ?c)" "pixel_size ?c"]
    by (simp add: fits_def algebra_simps)
  have "slice (FRAMEBUFFER ?c) (unat (get_offset ?c mx (my + y))) (unat n) = Inr (take (unat n) (drop (unat (get_offset ?c mx (my + y))) (FRAMEBUFFER ?c)))"
  proof -
    have "mx < WIDTH ?c" using f wd by (simp add: fits_def word_less_nat_alt)
    then have "unat (get_offset ?c mx (my + y)) = pixel_pos ?c mx (my + y)"
      using pixel_offset(1) [OF wf _ yy, of mx] by (simp add: get_offset_def mult.commute)
    then show ?thesis using room n by (simp add: slice_def pixel_pos_def algebra_simps)
  qed
  then show ?thesis by (simp add: write_row_def split: prod.splits)
qed

text \<open>The cursor at a place over the picture \<open>g\<close>: drawn where \<open>D\<close> says, with what is below in the buffer.\<close>

definition cursor_over :: "(u32 \<Rightarrow> u32 \<Rightarrow> u32) \<Rightarrow> u32 \<Rightarrow> u32 \<Rightarrow> u32 \<Rightarrow> (u32 \<times> u32) set \<Rightarrow> shell \<Rightarrow> bool" where
  "cursor_over g mx my h D s = (colors (fbg s) = (\<lambda>px py. if (px - mx, py - my) \<in> D \<and> hides (cursor s) (px - mx) (py - my)
       then pixel_value (fbg s) (picture_at (cursor s) (px - mx) (py - my)) else g px py)
     \<and> (\<forall>(x, y)\<in>D. under_cursor_buffer s ! unat (y * h + x) = g (mx + x) (my + y)))"

lemma cursor_over_elsewhere [simp]:
  "cursor_over g mx my h D (s\<lparr>mouse_x := a, mouse_y := b\<rparr>) = cursor_over g mx my h D s"
  "cursor_over g mx my h D (s\<lparr>packet := m\<rparr>) = cursor_over g mx my h D s"
  by (simp_all add: cursor_over_def cong: if_cong)

lemma row_length:
  assumes "canvas_wf c" and "unat n * 32 < 2 ^ 32"
  shows "unat (n * BPP c div 8) = unat n * pixel_size c"
proof -
  note sz = canvas_sizes [OF assms(1)]
  have "unat n * unat (BPP c) \<le> unat n * 32" using sz(1,2) by (intro mult_le_mono2) simp
  then have "unat n * unat (BPP c) < 2 ^ 32" using assms(2) by (rule le_less_trans)
  then show ?thesis using sz(2) by (simp add: unat_div unat_mult_small)
qed

lemma draw_cursor_over:
  assumes wf: "canvas_wf (fbg s0)" and cur: "cursor_picture (cursor s0) wd h" and f: "fits (fbg s0) mx my wd h" and wd: "0 < unat wd"
    and u: "unat h * unat h \<le> length (under_cursor_buffer s0)"
  shows "\<exists>s1 w1. draw_cursor calls mx my (s0, w) = Inr (s1, w1) \<and> same_shell s0 s1
    \<and> cursor_over (colors (fbg s0)) mx my h {(x, y). x < wd \<and> y < h} s1"
proof -
  let ?g = "colors (fbg s0)" let ?I = "\<lambda>D (sw :: shell \<times> 'a). same_shell s0 (fst sw) \<and> D \<subseteq> {(x, y). x < wd \<and> y < h} \<and> cursor_over ?g mx my h D (fst sw)"
  have c: "get_width (cursor s0) = Inr wd" "get_height (cursor s0) = Inr h" "wd \<le> h" "unat h * unat h < 2 ^ 32"
    "\<And>x y. x < wd \<Longrightarrow> y < h \<Longrightarrow> \<exists>c rs. get_pixel (cursor s0) x y = Inr (c, rs)"
    using cur unfolding cursor_picture_def by blast+
  have pixel: "\<exists>sw'. cursor_pixel calls mx my y x sw = Inr sw' \<and> ?I (insert (x, y) D) sw'"
    if xy: "x < wd" "y < h" "(x, y) \<notin> D" and I: "?I D sw" for D x y sw
  proof -
    obtain s w where sw: "sw = (s, w)" by fastforce
    note same = same_shell_fields [of s0 s]
    have i: "same_shell s0 s" "D \<subseteq> {(x, y). x < wd \<and> y < h}" "cursor_over ?g mx my h D s" using I sw by simp_all
    have cs: "cursor s = cursor s0" "canvas_wf (fbg s)" "WIDTH (fbg s) = WIDTH (fbg s0)" "HEIGHT (fbg s) = HEIGHT (fbg s0)"
      "length (under_cursor_buffer s) = length (under_cursor_buffer s0)"
      using same [OF i(1)] i(1) by (simp_all add: same_shell_def)
    have on: "mx + x < WIDTH (fbg s)" "my + y < HEIGHT (fbg s)" using fits_pixel [OF f xy(1,2)] cs by simp_all
    have g: "fb_get_pixel (fbg s) (mx + x) (my + y) = Inr (?g (mx + x) (my + y))"
      using get_colors [OF cs(2)] i(3) xy(3) by (simp add: cursor_over_def)
    let ?i = "unat (y * h + x)" let ?u = "(under_cursor_buffer s)[?i := ?g (mx + x) (my + y)]"
    have idx: "?i < length (under_cursor_buffer s)" using under_index(2) [OF c(3,4) xy(1,2)] u cs(5) by simp
    let ?s1 = "s\<lparr>under_cursor_buffer := ?u\<rparr>"
    have k: "keep_pixel mx my y x (s, w) = Inr (?s1, w)" using g c(2) cs(1) idx by (simp add: keep_pixel_def)
    have same1: "same_shell s0 ?s1" using same_shell_step(2) [OF i(1)] by simp
    have buf: "\<forall>(x', y')\<in>insert (x, y) D. ?u ! unat (y' * h + x') = ?g (mx + x') (my + y')"
    proof (intro ballI)
      fix z assume z: "z \<in> insert (x, y) D"
      obtain x' y' where z': "z = (x', y')" by fastforce
      show "case z of (x', y') \<Rightarrow> ?u ! unat (y' * h + x') = ?g (mx + x') (my + y')"
      proof (cases "z = (x, y)")
        case False
        then have d: "(x', y') \<in> D" using z z' by auto
        then have "?i \<noteq> unat (y' * h + x')" using under_apart [OF c(3,4) xy(1,2), of x' y'] i(2) False z' by auto
        then show ?thesis using i(3) d z' by (auto simp: cursor_over_def)
      qed (use idx z' in simp)
    qed
    obtain col rs where p: "get_pixel (cursor s0) x y = Inr (col, rs)" using c(5) [OF xy(1,2)] by blast
    then have pa: "picture_at (cursor s0) x y = col" by (simp add: picture_at_def)
    have pp: "picture_pixel calls (cursor ?s1) x y w = Inr (col, reports calls rs w)" using p cs(1) by (simp add: picture_pixel_def)
    show ?thesis
    proof (cases "hides (cursor s0) x y")
      case False
      then have "cursor_pixel calls mx my y x sw = Inr (?s1, reports calls rs w)"
        using k pp pa sw by (simp add: cursor_pixel_def hides_def)
      moreover have "cursor_over ?g mx my h (insert (x, y) D) ?s1"
        using i(3) buf False cs(1) by (auto simp: cursor_over_def fun_eq_iff)
      ultimately show ?thesis using same1 i(2) xy by auto
    next
      case True
      obtain c' where d: "fb_draw_pixel (fbg s) (mx + x) (my + y) col = Inr c'" "canvas_wf c'" "WIDTH c' = WIDTH (fbg s)"
        "HEIGHT c' = HEIGHT (fbg s)" "BPP c' = BPP (fbg s)"
        "colors c' = (\<lambda>px py. if px = mx + x \<and> py = my + y then pixel_value (fbg s) col else colors (fbg s) px py)"
        using draw_colors [OF cs(2) on, of col] by blast
      let ?s2 = "?s1\<lparr>fbg := c'\<rparr>"
      have "cursor_pixel calls mx my y x sw = Inr (?s2, reports calls rs w)"
        using k pp pa sw True d(1) by (simp add: cursor_pixel_def hides_def draw_on_def)
      moreover have "same_shell s0 ?s2" using same_shell_step(1) [OF same1 d(2)] d(3-5) by simp
      moreover have "cursor_over ?g mx my h (insert (x, y) D) ?s2"
      proof -
        have v: "pixel_value c' = pixel_value (fbg s)" using pixel_value_same [OF d(5)] by blast
        have e: "px = mx + x \<longleftrightarrow> px - mx = x" "py = my + y \<longleftrightarrow> py - my = y" for px py by (auto simp: algebra_simps)
        show ?thesis using i(3) buf True cs(1) pa xy(3) d(6) v by (auto simp: cursor_over_def fun_eq_iff e)
      qed
      ultimately show ?thesis using i(2) xy by auto
    qed
  qed
  have finish: "\<exists>sw'. (\<lambda>(s, w). write_row calls (get_offset (fbg s) mx (my + y)) (wd * BPP (fbg s) div 8) (s, w)) sw = Inr sw' \<and> ?I D sw'"
    if y: "y < h" and I: "?I D sw" for D y sw
  proof -
    obtain s w where sw: "sw = (s, w)" by fastforce
    have i: "canvas_wf (fbg s)" "fits (fbg s) mx my wd h" "wd \<le> WIDTH (fbg s)" using I sw f by (auto simp: same_shell_def fits_def word_le_nat_alt)
    have "unat wd * 32 < 2 ^ 32" using i(1,3) by (simp add: canvas_wf_def word_le_nat_alt)
    from row_length [OF i(1) this] have "unat (wd * BPP (fbg s) div 8) = unat wd * pixel_size (fbg s)" .
    then show ?thesis using write_row_ok [OF i(1,2) y wd, of _ calls w] I sw by fastforce
  qed
  have "\<exists>sw'. each (cursor_row calls wd mx my) (below h) (s0, w) = Inr sw' \<and> ?I {(x, y). x < wd \<and> y < h} sw'"
    by (rule each_grid [where pixel = "\<lambda>y x. cursor_pixel calls mx my y x"
        and finish = "\<lambda>y (s, w). write_row calls (get_offset (fbg s) mx (my + y)) (wd * BPP (fbg s) div 8) (s, w)" and I = ?I])
      (use pixel finish wf in \<open>auto simp: cursor_row_def same_shell_refl cursor_over_def\<close>)
  then show ?thesis using c(1,2) by (auto simp: draw_cursor_def)
qed

lemma restore_cursor_over:
  assumes wf: "canvas_wf (fbg s0)" and cur: "cursor_picture (cursor s0) wd h" and f: "fits (fbg s0) mx my wd h" and wd: "0 < unat wd"
    and u: "unat h * unat h \<le> length (under_cursor_buffer s0)" and over: "cursor_over g mx my h {(x, y). x < wd \<and> y < h} s0"
    and gv: "\<And>px py. pixel_value (fbg s0) (g px py) = g px py"
  shows "\<exists>s1 w1. restore_cursor calls mx my (s0, w) = Inr (s1, w1) \<and> same_shell s0 s1 \<and> colors (fbg s1) = g"
proof -
  let ?A = "{(x, y). x < wd \<and> y < h}"
  let ?I = "\<lambda>D (sw :: shell \<times> 'a). same_shell s0 (fst sw) \<and> under_cursor_buffer (fst sw) = under_cursor_buffer s0
    \<and> colors (fbg (fst sw)) = (\<lambda>px py. if (px - mx, py - my) \<in> D then g px py else colors (fbg s0) px py)"
  have c: "get_width (cursor s0) = Inr wd" "get_height (cursor s0) = Inr h" "wd \<le> h" "unat h * unat h < 2 ^ 32"
    using cur unfolding cursor_picture_def by blast+
  have pixel: "\<exists>sw'. restore_pixel mx my y x sw = Inr sw' \<and> ?I (insert (x, y) D) sw'"
    if xy: "x < wd" "y < h" and I: "?I D sw" for D x y sw
  proof -
    obtain s w where sw: "sw = (s, w)" by fastforce
    have i: "same_shell s0 s" "under_cursor_buffer s = under_cursor_buffer s0"
      "colors (fbg s) = (\<lambda>px py. if (px - mx, py - my) \<in> D then g px py else colors (fbg s0) px py)" using I sw by simp_all
    have cs: "cursor s = cursor s0" "canvas_wf (fbg s)" "WIDTH (fbg s) = WIDTH (fbg s0)" "HEIGHT (fbg s) = HEIGHT (fbg s0)"
      "BPP (fbg s) = BPP (fbg s0)"
      using same_shell_fields [OF i(1)] i(1) by (simp_all add: same_shell_def)
    have on: "mx + x < WIDTH (fbg s)" "my + y < HEIGHT (fbg s)" using fits_pixel [OF f xy] cs by simp_all
    have r: "rd (under_cursor_buffer s) (unat (y * h + x)) = Inr (g (mx + x) (my + y))"
      using under_index(2) [OF c(3,4) xy] u i(2) over xy by (auto simp: cursor_over_def)
    obtain c' where d: "fb_draw_pixel (fbg s) (mx + x) (my + y) (g (mx + x) (my + y)) = Inr c'" "canvas_wf c'" "WIDTH c' = WIDTH (fbg s)"
      "HEIGHT c' = HEIGHT (fbg s)" "BPP c' = BPP (fbg s)"
      "colors c' = (\<lambda>px py. if px = mx + x \<and> py = my + y then pixel_value (fbg s) (g (mx + x) (my + y)) else colors (fbg s) px py)"
      using draw_colors [OF cs(2) on] by blast
    have "restore_pixel mx my y x sw = Inr (s\<lparr>fbg := c'\<rparr>, w)"
      using c(2) cs(1) r d(1) sw by (simp add: restore_pixel_def draw_on_def)
    moreover have "same_shell s0 (s\<lparr>fbg := c'\<rparr>)" using same_shell_step(1) [OF i(1) d(2)] d(3-5) by simp
    moreover have "colors c' = (\<lambda>px py. if (px - mx, py - my) \<in> insert (x, y) D then g px py else colors (fbg s0) px py)"
    proof -
      have v: "pixel_value (fbg s) (g px py) = g px py" for px py using pixel_value_same [OF cs(5)] gv by simp
      have e: "px = mx + x \<longleftrightarrow> px - mx = x" "py = my + y \<longleftrightarrow> py - my = y" for px py by (auto simp: algebra_simps)
      show ?thesis using d(6) i(3) v by (auto simp: fun_eq_iff e)
    qed
    ultimately show ?thesis using i(2) by auto
  qed
  have finish: "\<exists>sw'. (\<lambda>(s, w). write_row calls (get_offset (fbg s) mx (my + y)) (row_size s wd) (s, w)) sw = Inr sw' \<and> ?I D sw'"
    if y: "y < h" and I: "?I D sw" for D y sw
  proof -
    obtain s w where sw: "sw = (s, w)" by fastforce
    have i: "canvas_wf (fbg s)" "fits (fbg s) mx my wd h" "wd \<le> WIDTH (fbg s)" using I sw f by (auto simp: same_shell_def fits_def word_le_nat_alt)
    note sz = canvas_sizes [OF i(1)]
    have b: "unat (BPP (fbg s) div 8) = pixel_size (fbg s)" using sz(2) by (simp add: unat_div)
    have "unat wd * pixel_size (fbg s) \<le> unat (WIDTH (fbg s)) * 32"
      using i(3) sz(1) by (intro mult_le_mono) (simp_all add: word_le_nat_alt)
    then have "pixel_size (fbg s) * unat wd < 2 ^ 32" using i(1) by (simp add: canvas_wf_def mult.commute)
    then have "unat (row_size s wd) = unat wd * pixel_size (fbg s)" using b by (simp add: row_size_def unat_mult_small mult.commute)
    then show ?thesis using write_row_ok [OF i(1,2) y wd, of _ calls w] I sw by fastforce
  qed
  have "\<exists>sw'. each (restore_row calls wd mx my) (below h) (s0, w) = Inr sw' \<and> ?I ?A sw'"
    by (rule each_grid [where pixel = "\<lambda>y x. restore_pixel mx my y x"
        and finish = "\<lambda>y (s, w). write_row calls (get_offset (fbg s) mx (my + y)) (row_size s wd) (s, w)" and I = ?I])
      (use pixel finish wf in \<open>auto simp: restore_row_def same_shell_refl fun_eq_iff\<close>)
  then obtain s1 w1 where r: "each (restore_row calls wd mx my) (below h) (s0, w) = Inr (s1, w1)" "?I ?A (s1, w1)" by fastforce
  have "colors (fbg s1) = g" using r(2) over by (auto simp: cursor_over_def fun_eq_iff)
  then show ?thesis using r c(1,2) by (auto simp: restore_cursor_def)
qed

text \<open>The screen shows \<open>g\<close> with the cursor on it.\<close>

definition shows_cursor :: "(u32 \<Rightarrow> u32 \<Rightarrow> u32) \<Rightarrow> u32 \<Rightarrow> u32 \<Rightarrow> shell \<Rightarrow> bool" where
  "shows_cursor g wd h s = (canvas_wf (fbg s) \<and> cursor_picture (cursor s) wd h \<and> fits (fbg s) (mouse_x s) (mouse_y s) wd h \<and> 0 < unat wd
     \<and> unat h * unat h \<le> length (under_cursor_buffer s) \<and> (\<forall>px py. pixel_value (fbg s) (g px py) = g px py)
     \<and> cursor_over g (mouse_x s) (mouse_y s) h {(x, y). x < wd \<and> y < h} s)"

lemma draw_shows:
  assumes "canvas_wf (fbg s0)" and "cursor_picture (cursor s0) wd h" and "fits (fbg s0) mx my wd h" and "0 < unat wd"
    and "unat h * unat h \<le> length (under_cursor_buffer s0)"
  shows "\<exists>s1 w1. draw_cursor calls mx my (s0, w) = Inr (s1, w1) \<and> same_shell s0 s1
    \<and> shows_cursor (colors (fbg s0)) wd h (s1\<lparr>mouse_x := mx, mouse_y := my\<rparr>)"
proof -
  obtain s1 w1 where s1: "draw_cursor calls mx my (s0, w) = Inr (s1, w1)" "same_shell s0 s1"
    "cursor_over (colors (fbg s0)) mx my h {(x, y). x < wd \<and> y < h} s1"
    using draw_cursor_over [OF assms, of calls w] by blast
  have f: "canvas_wf (fbg s1)" "WIDTH (fbg s1) = WIDTH (fbg s0)" "HEIGHT (fbg s1) = HEIGHT (fbg s0)" "BPP (fbg s1) = BPP (fbg s0)"
    "length (under_cursor_buffer s1) = length (under_cursor_buffer s0)" "cursor s1 = cursor s0"
    using s1(2) same_shell_fields(1) [OF s1(2)] by (simp_all add: same_shell_def)
  have "pixel_value (fbg s1) (colors (fbg s0) px py) = colors (fbg s0) px py" for px py
    using colors_value [OF assms(1)] pixel_value_same [OF f(4)] by simp
  then have "shows_cursor (colors (fbg s0)) wd h (s1\<lparr>mouse_x := mx, mouse_y := my\<rparr>)"
    using assms s1(3) f by (simp add: shows_cursor_def fits_def)
  then show ?thesis using s1(1,2) by blast
qed

lemma move_cursor_shows:
  assumes sh: "shows_cursor g wd h s" and p: "packet_x s = Inr dx" "packet_y s = Inr dy"
    and nx: "nx = new_position (mouse_x s) dx (WIDTH (fbg s))" and ny: "ny = new_position (mouse_y s) dy (HEIGHT (fbg s))"
    and f: "fits (fbg s) nx ny wd h"
  shows "\<exists>s' w'. move_cursor calls (s, w) = Inr (s', w') \<and> mouse_x s' = nx \<and> mouse_y s' = ny \<and> shows_cursor g wd h s'
    \<and> packet s' = packet s \<and> windows s' = windows s \<and> WIDTH (fbg s') = WIDTH (fbg s) \<and> HEIGHT (fbg s') = HEIGHT (fbg s)"
proof -
  have s: "canvas_wf (fbg s)" "cursor_picture (cursor s) wd h" "fits (fbg s) (mouse_x s) (mouse_y s) wd h" "0 < unat wd"
    "unat h * unat h \<le> length (under_cursor_buffer s)" "\<And>px py. pixel_value (fbg s) (g px py) = g px py"
    "cursor_over g (mouse_x s) (mouse_y s) h {(x, y). x < wd \<and> y < h} s"
    using sh by (simp_all add: shows_cursor_def)
  obtain s1 w1 where s1: "restore_cursor calls (mouse_x s) (mouse_y s) (s, w) = Inr (s1, w1)" "same_shell s s1" "colors (fbg s1) = g"
    using restore_cursor_over [OF s(1-5,7,6), of calls w] by blast
  note e = same_shell_fields [OF s1(2)]
  have c1: "canvas_wf (fbg s1)" "WIDTH (fbg s1) = WIDTH (fbg s)" "HEIGHT (fbg s1) = HEIGHT (fbg s)"
    "length (under_cursor_buffer s1) = length (under_cursor_buffer s)" using s1(2) by (simp_all add: same_shell_def)
  have w: "windows s1 = windows s"
  proof -
    have "s1 = s\<lparr>fbg := fbg s1, under_cursor_buffer := under_cursor_buffer s1\<rparr>" using s1(2) by (simp add: same_shell_def)
    then show ?thesis by (cases s; cases s1; simp)
  qed
  have pre: "cursor_picture (cursor s1) wd h" "fits (fbg s1) nx ny wd h" "unat h * unat h \<le> length (under_cursor_buffer s1)"
    using s(2,5) f c1 e by (simp_all add: fits_def)
  obtain s2 w2 where s2: "draw_cursor calls nx ny (s1, w1) = Inr (s2, w2)" "same_shell s1 s2"
    "shows_cursor (colors (fbg s1)) wd h (s2\<lparr>mouse_x := nx, mouse_y := ny\<rparr>)"
    using draw_shows [OF c1(1) pre(1,2) s(4) pre(3), of calls w1] by blast
  have p1: "packet_x s1 = Inr dx" "packet_y s1 = Inr dy" using p e by (simp_all add: packet_x_def packet_y_def)
  have m: "move_cursor calls (s, w) = Inr (s2\<lparr>mouse_x := nx, mouse_y := ny\<rparr>, w2)"
    using s1(1) p1 s2(1) nx ny e c1 by (simp add: move_cursor_def)
  have w2: "windows s2 = windows s1"
  proof -
    have "s2 = s1\<lparr>fbg := fbg s2, under_cursor_buffer := under_cursor_buffer s2\<rparr>" using s2(2) by (simp add: same_shell_def)
    then show ?thesis by (cases s1; cases s2; simp)
  qed
  show ?thesis using m s2(3) s1(3) w w2 e same_shell_fields [OF s2(2)] s2(2) c1
    by (intro exI [of _ "s2\<lparr>mouse_x := nx, mouse_y := ny\<rparr>"] exI [of _ w2]) (simp add: same_shell_def)
qed

text \<open>Any number of packets of the mouse, as far as the cursor stays on the screen.\<close>

primrec mouse_moves :: "'w user_calls \<Rightarrow> byte list list \<Rightarrow> shell \<times> 'w \<Rightarrow> fault + (shell \<times> 'w)" where
  "mouse_moves calls [] sw = Inr sw"
| "mouse_moves calls (m # ms) sw = cbind (move_cursor calls ((fst sw)\<lparr>packet := m\<rparr>, snd sw)) (mouse_moves calls ms)"

definition moved :: "u32 \<Rightarrow> u32 \<Rightarrow> byte list \<Rightarrow> u32 \<times> u32 \<Rightarrow> u32 \<times> u32" where
  "moved width height m p = (new_position (fst p) (projr (le32 m 0)) width, new_position (snd p) (projr (le32 m 4)) height)"

lemma mouse_moves_show:
  "shows_cursor g wd h s \<Longrightarrow> \<forall>m\<in>set ms. length m = 12 \<Longrightarrow>
   \<forall>k\<le>length ms. case foldl (\<lambda>p m. moved (WIDTH (fbg s)) (HEIGHT (fbg s)) m p) (mouse_x s, mouse_y s) (take k ms) of (x, y) \<Rightarrow> fits (fbg s) x y wd h \<Longrightarrow>
   \<exists>s' w'. mouse_moves calls ms (s, w) = Inr (s', w') \<and> shows_cursor g wd h s'
     \<and> (mouse_x s', mouse_y s') = foldl (\<lambda>p m. moved (WIDTH (fbg s)) (HEIGHT (fbg s)) m p) (mouse_x s, mouse_y s) ms"
proof (induction ms arbitrary: s w)
  case (Cons m ms)
  let ?s = "s\<lparr>packet := m\<rparr>"
  have l: "length m = 12" using Cons.prems(2) by simp
  then have p: "packet_x ?s = Inr (projr (le32 m 0))" "packet_y ?s = Inr (projr (le32 m 4))" by (simp_all add: packet_x_def packet_y_def le32_def)
  have sh: "shows_cursor g wd h ?s" using Cons.prems(1) by (simp add: shows_cursor_def)
  let ?p = "moved (WIDTH (fbg s)) (HEIGHT (fbg s)) m (mouse_x s, mouse_y s)"
  have f: "fits (fbg ?s) (fst ?p) (snd ?p) wd h" using Cons.prems(3) [rule_format, of 1] by (simp add: case_prod_beta)
  have n: "fst ?p = new_position (mouse_x ?s) (projr (le32 m 0)) (WIDTH (fbg ?s))" "snd ?p = new_position (mouse_y ?s) (projr (le32 m 4)) (HEIGHT (fbg ?s))"
    by (simp_all add: moved_def)
  obtain s1 w1 where s1: "move_cursor calls (?s, w) = Inr (s1, w1)" "mouse_x s1 = fst ?p" "mouse_y s1 = snd ?p" "shows_cursor g wd h s1"
    "WIDTH (fbg s1) = WIDTH (fbg s)" "HEIGHT (fbg s1) = HEIGHT (fbg s)"
    using move_cursor_shows [OF sh p n f, of calls w] by auto
  have x: "\<forall>k\<le>length ms. case foldl (\<lambda>p m. moved (WIDTH (fbg s1)) (HEIGHT (fbg s1)) m p) (mouse_x s1, mouse_y s1) (take k ms) of (x, y) \<Rightarrow> fits (fbg s1) x y wd h"
  proof (intro allI impI)
    fix k assume "k \<le> length ms"
    then have "case foldl (\<lambda>p m. moved (WIDTH (fbg s)) (HEIGHT (fbg s)) m p) (mouse_x s, mouse_y s) (take (Suc k) (m # ms)) of (x, y) \<Rightarrow> fits (fbg s) x y wd h"
      using Cons.prems(3) [rule_format, of "Suc k"] by simp
    then show "case foldl (\<lambda>p m. moved (WIDTH (fbg s1)) (HEIGHT (fbg s1)) m p) (mouse_x s1, mouse_y s1) (take k ms) of (x, y) \<Rightarrow> fits (fbg s1) x y wd h"
      using s1 by (simp add: fits_def)
  qed
  have l': "\<forall>m\<in>set ms. length m = 12" using Cons.prems(2) by simp
  obtain s' w' where "mouse_moves calls ms (s1, w1) = Inr (s', w')" "shows_cursor g wd h s'"
    "(mouse_x s', mouse_y s') = foldl (\<lambda>p m. moved (WIDTH (fbg s1)) (HEIGHT (fbg s1)) m p) (mouse_x s1, mouse_y s1) ms"
    using Cons.IH [OF s1(4) l' x, of w1] by blast
  then show ?case using s1 by simp
qed auto

section \<open>The lower edge\<close>

lemma cursor_pixel_runs:
  assumes cur: "cursor_picture (cursor s0) wd h" and u: "unat h * unat h \<le> length (under_cursor_buffer s0)"
    and xy: "x < wd" "y < h" and s: "same_shell s0 s"
  shows "\<exists>s' w'. cursor_pixel calls mx my y x (s, w) = Inr (s', w') \<and> same_shell s0 s'"
proof -
  have c: "get_height (cursor s0) = Inr h" "wd \<le> h" "unat h * unat h < 2 ^ 32" "\<exists>c rs. get_pixel (cursor s0) x y = Inr (c, rs)"
    using cur xy unfolding cursor_picture_def by blast+
  have cs: "cursor s = cursor s0" "canvas_wf (fbg s)" "length (under_cursor_buffer s) = length (under_cursor_buffer s0)"
    using same_shell_fields [OF s] s by (simp_all add: same_shell_def)
  let ?i = "unat (y * h + x)" let ?u = "(under_cursor_buffer s)[?i := colors (fbg s) (mx + x) (my + y)]" let ?s1 = "s\<lparr>under_cursor_buffer := ?u\<rparr>"
  have "?i < length (under_cursor_buffer s)" using under_index(2) [OF c(2,3) xy] u cs(3) by simp
  then have k: "keep_pixel mx my y x (s, w) = Inr (?s1, w)" using get_colors [OF cs(2)] c(1) cs(1) by (simp add: keep_pixel_def)
  have same1: "same_shell s0 ?s1" using same_shell_step(2) [OF s] by simp
  obtain col rs where p: "get_pixel (cursor s0) x y = Inr (col, rs)" using c(4) by blast
  then have pp: "picture_pixel calls (cursor ?s1) x y w = Inr (col, reports calls rs w)" using cs(1) by (simp add: picture_pixel_def)
  obtain c' where d: "fb_draw_pixel (fbg s) (mx + x) (my + y) col = Inr c'" "canvas_wf c'" "WIDTH c' = WIDTH (fbg s)"
    "HEIGHT c' = HEIGHT (fbg s)" "BPP c' = BPP (fbg s)"
  proof (cases "mx + x < WIDTH (fbg s) \<and> my + y < HEIGHT (fbg s)")
    case True
    then show thesis using draw_colors [OF cs(2), of "mx + x" "my + y" col] that by blast
  next
    case False
    then have "fb_draw_pixel (fbg s) (mx + x) (my + y) col = Inr (fbg s)" by (auto simp: fb_draw_pixel_def)
    then show thesis using cs(2) that by blast
  qed
  have "same_shell s0 (?s1\<lparr>fbg := c'\<rparr>)" using same_shell_step(1) [OF same1 d(2)] d(3-5) by simp
  then show ?thesis using k pp d(1) same1 by (cases "col AND 0xFF000000 = 0") (simp_all add: cursor_pixel_def draw_on_def)
qed

lemma fb_draw_length:
  assumes "fb_draw_pixel c x y color = Inr c'"
  shows "length (FRAMEBUFFER c') = length (FRAMEBUFFER c)"
proof -
  have s: "store_bytes fb off bs = Inr fb' \<Longrightarrow> length fb' = length fb" for fb fb' off bs
    by (induction fb off bs arbitrary: fb' rule: store_bytes.induct) (auto simp: cbind_eq_Inr wr_eq_Inr)
  show ?thesis using assms s by (auto simp: fb_draw_pixel_def paint_def Let_def cbind_eq_Inr split: if_splits)
qed

text \<open>A row below the screen is not in the frame buffer.\<close>

lemma draw_cursor_below:
  assumes wf: "canvas_wf (fbg s0)" and cur: "cursor_picture (cursor s0) wd h" and wd: "0 < unat wd"
    and u: "unat h * unat h \<le> length (under_cursor_buffer s0)" and x: "unat mx + unat wd \<le> unat (WIDTH (fbg s0))"
    and y: "unat my \<le> unat (HEIGHT (fbg s0))" "unat (HEIGHT (fbg s0)) < unat my + unat h"
    and fb: "length (FRAMEBUFFER (fbg s0)) = unat (PITCH (fbg s0)) * unat (HEIGHT (fbg s0))"
    and small: "unat (PITCH (fbg s0)) * (unat (HEIGHT (fbg s0)) + 1) < 2 ^ 32"
  shows "draw_cursor calls mx my (s0, w) = Inl Bad_Read"
proof -
  let ?k = "unat (HEIGHT (fbg s0)) - unat my"
  let ?I = "\<lambda>(sw :: shell \<times> 'a). same_shell s0 (fst sw) \<and> length (FRAMEBUFFER (fbg (fst sw))) = length (FRAMEBUFFER (fbg s0))"
  have c: "get_width (cursor s0) = Inr wd" "get_height (cursor s0) = Inr h" using cur unfolding cursor_picture_def by blast+
  have k: "?k < unat h" using y by simp
  have pixels: "\<exists>sw'. each (cursor_pixel calls mx my (word_of_nat i)) (below wd) sw = Inr sw' \<and> ?I sw'" if i: "i < unat h" and I: "?I sw" for i sw
  proof (rule each_below [where P = "\<lambda>_. ?I"])
    fix j sw assume j: "j < unat wd" and s: "?I sw"
    obtain s w where sw: "sw = (s, w)" by fastforce
    obtain s' w' where s': "cursor_pixel calls mx my (word_of_nat i) (word_of_nat j) (s, w) = Inr (s', w')" "same_shell s0 s'"
      using cursor_pixel_runs [OF cur u _ _, of "word_of_nat j" "word_of_nat i" s calls mx my w] below_nth [OF i] below_nth [OF j] s sw by auto
    have "length (FRAMEBUFFER (fbg s')) = length (FRAMEBUFFER (fbg s))"
      using s'(1) fb_draw_length by (auto simp: cursor_pixel_def keep_pixel_def draw_on_def cbind_eq_Inr split: if_splits)
    then show "\<exists>sw'. cursor_pixel calls mx my (word_of_nat i) (word_of_nat j) sw = Inr sw' \<and> ?I sw'" using s' s sw by auto
  qed (use I in simp)
  have row: "\<exists>s w'. cursor_row calls wd mx my (word_of_nat i) sw = write_row calls (get_offset (fbg s) mx (my + word_of_nat i)) (wd * BPP (fbg s) div 8) (s, w')
    \<and> ?I (s, w')" if i: "i < unat h" and I: "?I sw" for i sw
  proof -
    obtain s w' where "each (cursor_pixel calls mx my (word_of_nat i)) (below wd) sw = Inr (s, w')" "?I (s, w')" using pixels [OF i I] by fastforce
    then show ?thesis by (intro exI [of _ s] exI [of _ w']) (simp add: cursor_row_def)
  qed
  have n: "unat (wd * BPP (fbg s) div 8) = unat wd * pixel_size (fbg s0)" "pixel_size (fbg s) = pixel_size (fbg s0)" "PITCH (fbg s) = PITCH (fbg s0)"
    if "same_shell s0 s" for s
  proof -
    have e: "canvas_wf (fbg s)" "BPP (fbg s) = BPP (fbg s0)" "WIDTH (fbg s) = WIDTH (fbg s0)" using that by (simp_all add: same_shell_def)
    show p: "pixel_size (fbg s) = pixel_size (fbg s0)" "PITCH (fbg s) = PITCH (fbg s0)" using e wf by (simp_all add: pixel_size_def canvas_wf_def)
    have "unat wd * 32 < 2 ^ 32" using x wf by (simp add: canvas_wf_def)
    then show "unat (wd * BPP (fbg s) div 8) = unat wd * pixel_size (fbg s0)" using row_length [OF e(1), of wd] p(1) by simp
  qed
  have above: "\<exists>sw'. cursor_row calls wd mx my (below h ! i) sw = Inr sw' \<and> ?I sw'" if i: "i < ?k" and I: "?I sw" for i sw
  proof -
    have ih: "i < unat h" using i k by simp
    obtain s w' where r: "cursor_row calls wd mx my (word_of_nat i) sw = write_row calls (get_offset (fbg s) mx (my + word_of_nat i)) (wd * BPP (fbg s) div 8) (s, w')"
      "?I (s, w')" using row [OF ih I] by blast
    have s: "same_shell s0 s" "canvas_wf (fbg s)" "WIDTH (fbg s) = WIDTH (fbg s0)" "HEIGHT (fbg s) = HEIGHT (fbg s0)" using r(2) by (simp_all add: same_shell_def)
    have f: "fits (fbg s) mx my wd (word_of_nat ?k)" "word_of_nat i < (word_of_nat ?k :: u32)"
      using x y(1) s i k below_nth [OF ih] unat_sub [of my "HEIGHT (fbg s0)"] by (simp_all add: fits_def word_less_nat_alt word_le_nat_alt)
    show ?thesis using write_row_ok [OF s(2) f wd, of "wd * BPP (fbg s) div 8" calls w'] n [OF s(1)] r ih by (auto simp: below_def)
  qed
  have last: "cursor_row calls wd mx my (below h ! ?k) sw = Inl Bad_Read" if I: "?I sw" for sw
  proof -
    obtain s w' where r: "cursor_row calls wd mx my (word_of_nat ?k) sw = write_row calls (get_offset (fbg s) mx (my + word_of_nat ?k)) (wd * BPP (fbg s) div 8) (s, w')"
      "?I (s, w')" using row [OF k I] by blast
    have s: "same_shell s0 s" "canvas_wf (fbg s)" using r(2) by (simp_all add: same_shell_def)
    have "my + word_of_nat ?k = HEIGHT (fbg s0)" using y(1) by (simp add: of_nat_diff)
    moreover have "unat (get_offset (fbg s) mx (HEIGHT (fbg s0))) = unat (PITCH (fbg s0)) * unat (HEIGHT (fbg s0)) + unat mx * pixel_size (fbg s0)"
    proof -
      have "unat mx * 32 < 2 ^ 32" using x wf by (simp add: canvas_wf_def)
      then have "unat (mx * BPP (fbg s) div 8) = unat mx * pixel_size (fbg s0)" using row_length [OF s(2), of mx] n [OF s(1)] by simp
      moreover have "unat mx * pixel_size (fbg s0) \<le> unat (PITCH (fbg s0))"
        using x canvas_sizes(3) [OF wf] by (simp add: mult_le_mono1)
      ultimately show ?thesis using small n [OF s(1)] by (simp add: get_offset_def unat_word_ariths)
    qed
    moreover have "0 < pixel_size (fbg s0)" using canvas_sizes(1) [OF wf] by simp
    ultimately show ?thesis using r fb wd n [OF s(1)] k by (simp add: write_row_def slice_def below_def)
  qed
  have start: "?I (s0, w)" using same_shell_refl [OF wf] by simp
  have "each (cursor_row calls wd mx my) (below h) (s0, w) = Inl Bad_Read"
    by (rule each_stops [where I = ?I and k = ?k and xs = "below h" and body = "cursor_row calls wd mx my", OF above last _ start]) (use k in \<open>simp_all add: below_def\<close>)
  then show ?thesis using c by (simp add: draw_cursor_def)
qed

section \<open>The pointer stays on the screen\<close>

lemma draw_pixel_size: "fb_draw_pixel c x y color = Inr c' \<Longrightarrow> WIDTH c' = WIDTH c \<and> HEIGHT c' = HEIGHT c"
  by (auto simp: fb_draw_pixel_def paint_def Let_def cbind_eq_Inr split: if_splits)

lemma draw_string_size: "fb_draw_string c x y str color = Inr c' \<Longrightarrow> WIDTH c' = WIDTH c \<and> HEIGHT c' = HEIGHT c"
proof -
  have ps: "draw_pixels fb_draw_pixel c ps color = Inr c' \<Longrightarrow> WIDTH c' = WIDTH c \<and> HEIGHT c' = HEIGHT c" for c c' :: framebuffer_graphics and ps
  proof (induction ps arbitrary: c)
    case (Cons p ps)
    obtain px py where p: "p = (px, py)" by fastforce
    obtain c1 where c1: "fb_draw_pixel c px py color = Inr c1" "draw_pixels fb_draw_pixel c1 ps color = Inr c'"
      using Cons.prems p by (auto simp: cbind_eq_Inr)
    show ?case using Cons.IH [OF c1(2)] draw_pixel_size [OF c1(1)] by simp
  qed simp
  have "draw_text fb_draw_pixel 2 c x y str color = Inr c' \<Longrightarrow> WIDTH c' = WIDTH c \<and> HEIGHT c' = HEIGHT c" for c :: framebuffer_graphics
  proof (induction str arbitrary: c x)
    case (Cons ch str)
    show ?case
    proof (cases "ch = 0")
      case False
      then obtain c1 where c1: "draw_glyph fb_draw_pixel 2 c x y ch color = Inr c1" "draw_text fb_draw_pixel 2 c1 (x + 8 * word_of_nat 2) y str color = Inr c'"
        using Cons.prems by (auto simp: cbind_eq_Inr)
      have "WIDTH c1 = WIDTH c \<and> HEIGHT c1 = HEIGHT c" using c1(1) ps by (auto simp: draw_glyph_def cbind_eq_Inr)
      then show ?thesis using Cons.IH [OF c1(2)] by simp
    qed (use Cons.prems in simp)
  qed simp
  then show "fb_draw_string c x y str color = Inr c' \<Longrightarrow> WIDTH c' = WIDTH c \<and> HEIGHT c' = HEIGHT c" by (simp add: fb_draw_string_def)
qed

text \<open>The pointer and the size of the screen.\<close>

definition pointer :: "shell \<times> 'w \<Rightarrow> u32 \<times> u32 \<times> u32 \<times> u32" where
  "pointer sw = (mouse_x (fst sw), mouse_y (fst sw), WIDTH (fbg (fst sw)), HEIGHT (fbg (fst sw)))"

lemma draw_on_pointer: "draw_on x y color sw = Inr sw' \<Longrightarrow> pointer sw' = pointer sw"
  by (auto simp: draw_on_def pointer_def cbind_eq_Inr dest: draw_pixel_size split: prod.splits)

lemma write_row_pointer: "write_row calls off n sw = Inr sw' \<Longrightarrow> pointer sw' = pointer sw"
  by (cases sw) (auto simp: write_row_def pointer_def cbind_eq_Inr Let_def case_prod_beta)

lemma keep_pixel_pointer: "keep_pixel mx my y x sw = Inr sw' \<Longrightarrow> pointer sw' = pointer sw"
  by (auto simp: keep_pixel_def pointer_def cbind_eq_Inr split: prod.splits)

lemma cursor_pixel_pointer: "cursor_pixel calls mx my y x sw = Inr sw' \<Longrightarrow> pointer sw' = pointer sw"
  by (auto simp: cursor_pixel_def cbind_eq_Inr split: if_splits dest!: keep_pixel_pointer draw_on_pointer) (auto simp: pointer_def)

lemma restore_pixel_pointer: "restore_pixel mx my y x sw = Inr sw' \<Longrightarrow> pointer sw' = pointer sw"
  by (auto simp: restore_pixel_def cbind_eq_Inr dest: draw_on_pointer)

lemma cursor_row_pointer:
  assumes "cursor_row calls wd mx my y sw = Inr sw'"
  shows "pointer sw' = pointer sw"
proof -
  obtain sw1 where sw1: "each (cursor_pixel calls mx my y) (below wd) sw = Inr sw1"
    "write_row calls (get_offset (fbg (fst sw1)) mx (my + y)) (wd * BPP (fbg (fst sw1)) div 8) sw1 = Inr sw'"
    using assms by (auto simp: cursor_row_def cbind_eq_Inr case_prod_beta)
  have "pointer sw1 = pointer sw" by (rule each_keeps [OF _ sw1(1)]) (rule cursor_pixel_pointer)
  then show ?thesis using write_row_pointer [OF sw1(2)] by simp
qed

lemma restore_row_pointer:
  assumes "restore_row calls wd mx my y sw = Inr sw'"
  shows "pointer sw' = pointer sw"
proof -
  obtain sw1 where sw1: "each (restore_pixel mx my y) (below wd) sw = Inr sw1"
    "write_row calls (get_offset (fbg (fst sw1)) mx (my + y)) (row_size (fst sw1) wd) sw1 = Inr sw'"
    using assms by (auto simp: restore_row_def cbind_eq_Inr case_prod_beta)
  have "pointer sw1 = pointer sw" by (rule each_keeps [OF _ sw1(1)]) (rule restore_pixel_pointer)
  then show ?thesis using write_row_pointer [OF sw1(2)] by simp
qed

lemma draw_cursor_pointer:
  assumes "draw_cursor calls mx my sw = Inr sw'"
  shows "pointer sw' = pointer sw"
proof -
  obtain wd h where e: "each (cursor_row calls wd mx my) (below h) sw = Inr sw'"
    using assms by (auto simp: draw_cursor_def cbind_eq_Inr)
  show ?thesis by (rule each_keeps [OF _ e]) (rule cursor_row_pointer)
qed

lemma restore_cursor_pointer:
  assumes "restore_cursor calls mx my sw = Inr sw'"
  shows "pointer sw' = pointer sw"
proof -
  obtain wd h where e: "each (restore_row calls wd mx my) (below h) sw = Inr sw'"
    using assms by (auto simp: restore_cursor_def cbind_eq_Inr)
  show ?thesis by (rule each_keeps [OF _ e]) (rule restore_row_pointer)
qed

lemma register_window_pointer: "register_window calls i sw = Inr sw' \<Longrightarrow> pointer sw' = pointer sw"
  by (auto simp: register_window_def cbind_eq_Inr pointer_def put_window_def case_prod_beta split: option.splits)

lemma set_window_size_pointer: "set_window_size calls i sw = Inr sw' \<Longrightarrow> pointer sw' = pointer sw"
  by (auto simp: set_window_size_def cbind_eq_Inr pointer_def put_window_def Let_def case_prod_beta)

lemma window_data_pointer: "window_data calls i sw = Inr sw' \<Longrightarrow> pointer sw' = pointer sw"
  by (auto simp: window_data_def cbind_eq_Inr pointer_def put_window_def split: prod.splits option.splits)

lemma close_window_pointer: "close_window calls i sw = Inr sw' \<Longrightarrow> pointer sw' = pointer sw"
  by (auto simp: close_window_def cbind_eq_Inr pointer_def put_window_def split: prod.splits option.splits)

lemma handle_message_pointer:
  assumes "handle_message calls sw = Inr sw'"
  shows "pointer sw' = pointer sw"
proof -
  obtain s w where sw: "sw = (s, w)" by fastforce
  obtain m w1 i where h: "register_window calls i (s\<lparr>preamble := m\<rparr>, w1) = Inr sw' \<or> set_window_size calls i (s\<lparr>preamble := m\<rparr>, w1) = Inr sw'
    \<or> window_data calls i (s\<lparr>preamble := m\<rparr>, w1) = Inr sw' \<or> close_window calls i (s\<lparr>preamble := m\<rparr>, w1) = Inr sw' \<or> (s\<lparr>preamble := m\<rparr>, w1) = sw'"
    using assms sw by (auto simp: handle_message_def cbind_eq_Inr Let_def split: if_splits)
  have "pointer (s\<lparr>preamble := m\<rparr>, w1) = pointer sw" using sw by (simp add: pointer_def)
  then show ?thesis using h register_window_pointer set_window_size_pointer window_data_pointer close_window_pointer by metis
qed

lemma title_row_pointer:
  assumes "title_row calls v y sw = Inr sw'"
  shows "pointer sw' = pointer sw"
proof -
  obtain s w where sw1: "each (\<lambda>x. draw_on (w_x v + x) (w_y v + y) 0xffffffff) (below (w_width v)) sw = Inr (s, w)"
    "cbind (case w_name v of None \<Rightarrow> Inl Bad_Read | Some name \<Rightarrow> fb_draw_string (fbg s) (w_x v) (w_y v) name 0x00ff00ff) (\<lambda>c.
     let s1 = s\<lparr>fbg := c\<rparr> in write_row calls (get_offset (fbg s1) (w_x v) (w_y v + y)) (row_size s1 (w_width v)) (s1, w)) = Inr sw'"
    using assms by (auto simp: title_row_def cbind_eq_Inr)
  have "pointer (s, w) = pointer sw" by (rule each_keeps [OF _ sw1(1)]) (rule draw_on_pointer)
  moreover have "pointer sw' = pointer (s, w)"
    using sw1(2) by (auto simp: cbind_eq_Inr Let_def pointer_def split: option.splits dest!: draw_string_size write_row_pointer)
  ultimately show ?thesis by simp
qed

lemma contents_row_pointer: "contents_row calls v fd y sw = Inr sw' \<Longrightarrow> pointer sw' = pointer sw"
  by (auto simp: contents_row_def cbind_eq_Inr Let_def split: prod.splits dest!: write_row_pointer) (auto simp: pointer_def)

lemma draw_window_pointer:
  assumes "draw_window calls i sw = Inr sw'"
  shows "pointer sw' = pointer sw"
proof -
  obtain v where v: "rd (windows (fst sw)) i = Inr v" using assms by (auto simp: draw_window_def cbind_eq_Inr)
  consider "sw' = sw" | fd sw1 s w where "each (title_row calls v) (below title_bar_sz) sw = Inr sw1"
    "each (contents_row calls v fd) (below (w_height v)) sw1 = Inr (s, w)" "sw' = (put_window i (v\<lparr>w_dirty := False\<rparr>) s, w)"
    using assms v by (auto simp: draw_window_def cbind_eq_Inr split: option.splits if_splits)
  then show ?thesis
  proof cases
    case 2
    have "pointer sw1 = pointer sw" by (rule each_keeps [OF _ 2(1)]) (rule title_row_pointer)
    moreover have "pointer (s, w) = pointer sw1" by (rule each_keeps [OF _ 2(2)]) (rule contents_row_pointer)
    ultimately show ?thesis using 2(3) by (simp add: pointer_def put_window_def)
  qed simp
qed

lemma background_row_pointer:
  assumes "background_row calls v y sw = Inr sw'"
  shows "pointer sw' = pointer sw"
proof -
  let ?p = "\<lambda>x sw. cbind (picture_pixel calls (background (fst sw)) (w_old_x v + x) (w_old_y v + y) (snd sw)) (\<lambda>(c, w).
        draw_on (w_old_x v + x) (w_old_y v + y) c (fst sw, w))"
  obtain s w where sw1: "each ?p (below (w_width v)) sw = Inr (s, w)"
    "write_row calls (get_offset (fbg s) (w_old_x v) (w_old_y v + y)) (row_size s (w_width v)) (s, w) = Inr sw'"
    using assms by (auto simp: background_row_def cbind_eq_Inr)
  have "pointer (s, w) = pointer sw"
    by (rule each_keeps [OF _ sw1(1)]) (auto simp: cbind_eq_Inr pointer_def dest!: draw_on_pointer)
  then show ?thesis using write_row_pointer [OF sw1(2)] by simp
qed

lemma clear_old_place_pointer:
  assumes "clear_old_place calls v sw = Inr sw'"
  shows "pointer sw' = pointer sw"
proof -
  obtain sw1 h wd where sw1: "each (background_row calls v) (below (w_height v + title_bar_sz)) sw = Inr sw1"
    "each (\<lambda>y. each (keep_pixel (w_old_x v) (w_old_y v) y) (below wd)) (below h) sw1 = Inr sw'"
    using assms by (auto simp: clear_old_place_def cbind_eq_Inr)
  have "pointer sw1 = pointer sw" by (rule each_keeps [OF _ sw1(1)]) (rule background_row_pointer)
  moreover have "pointer sw' = pointer sw1"
    by (rule each_keeps [OF _ sw1(2)]) (rule each_keeps, rule keep_pixel_pointer)
  ultimately show ?thesis by simp
qed

lemma move_window_pointer: "move_window calls i sw = Inr sw' \<Longrightarrow> pointer sw' = pointer sw"
  by (auto simp: move_window_def cbind_eq_Inr Let_def split: prod.splits if_splits dest!: clear_old_place_pointer) (auto simp: pointer_def put_window_def)

text \<open>The pointer is on the screen, as signed numbers.\<close>

definition pointer_on_screen :: "shell \<Rightarrow> bool" where
  "pointer_on_screen s = (1 \<le> sint (mouse_x s) \<and> sint (mouse_x s) \<le> sint (WIDTH (fbg s)) \<and> 1 \<le> sint (mouse_y s) \<and> sint (mouse_y s) \<le> sint (HEIGHT (fbg s)))"

lemma pointer_on_screen_cong: "pointer (s, w) = pointer (s', w') \<Longrightarrow> pointer_on_screen s = pointer_on_screen s'"
  by (simp add: pointer_def pointer_on_screen_def)

lemma new_position_bounds: "1 \<le> sint edge \<Longrightarrow> 1 \<le> sint (new_position m d edge) \<and> sint (new_position m d edge) \<le> sint edge"
  by (auto simp: new_position_def Let_def)

lemma move_cursor_on_screen:
  assumes "move_cursor calls sw = Inr (s', w')" and "1 \<le> sint (WIDTH (fbg (fst sw)))" and "1 \<le> sint (HEIGHT (fbg (fst sw)))"
  shows "pointer_on_screen s' \<and> WIDTH (fbg s') = WIDTH (fbg (fst sw)) \<and> HEIGHT (fbg s') = HEIGHT (fbg (fst sw))"
proof -
  obtain s w dx dy s1 w1 where s: "restore_cursor calls (mouse_x (fst sw)) (mouse_y (fst sw)) sw = Inr (s, w)"
    "draw_cursor calls (new_position (mouse_x s) dx (WIDTH (fbg s))) (new_position (mouse_y s) dy (HEIGHT (fbg s))) (s, w) = Inr (s1, w1)"
    "s' = s1\<lparr>mouse_x := new_position (mouse_x s) dx (WIDTH (fbg s)), mouse_y := new_position (mouse_y s) dy (HEIGHT (fbg s))\<rparr>"
    using assms(1) by (auto simp: move_cursor_def cbind_eq_Inr Let_def)
  have "WIDTH (fbg s) = WIDTH (fbg (fst sw))" "HEIGHT (fbg s) = HEIGHT (fbg (fst sw))" "WIDTH (fbg s1) = WIDTH (fbg s)" "HEIGHT (fbg s1) = HEIGHT (fbg s)"
    using restore_cursor_pointer [OF s(1)] draw_cursor_pointer [OF s(2)] by (simp_all add: pointer_def)
  then show ?thesis using s(3) assms(2,3) new_position_bounds by (simp add: pointer_on_screen_def)
qed

lemma shell_step_on_screen:
  assumes "shell_step calls sw = Inr (s', w')" and "pointer_on_screen (fst sw)"
  shows "pointer_on_screen s'"
proof -
  obtain s w where sw: "sw = (s, w)" by fastforce
  obtain ipc w1 mouse w2 where f: "file_length calls (ipc_fd s) w = (ipc, w1)" "file_length calls (mouse_fd s) w1 = (mouse, w2)" by fastforce
  obtain sw1 s2 w3 where s1: "(if 0 < ipc then handle_message calls (s, w2) else Inr (s, w2)) = Inr sw1" "each (draw_window calls) [0..<32] sw1 = Inr (s2, w3)"
    "(if mouse = 0 then Inr (s2, w3) else cbind (read_into calls (packet s2) 12 (mouse_fd s2) w3) (\<lambda>(m, w4).
            cbind (each (move_window calls) [0..<32] (s2\<lparr>packet := m\<rparr>, w4)) (move_cursor calls))) = Inr (s', w')"
    using assms(1) sw f by (auto simp: shell_step_def cbind_eq_Inr)
  have "pointer sw1 = pointer (s, w)" using s1(1) by (auto split: if_splits dest!: handle_message_pointer simp: pointer_def)
  moreover have "pointer (s2, w3) = pointer sw1" by (rule each_keeps [OF _ s1(2)]) (rule draw_window_pointer)
  ultimately have p: "pointer (s2, w3) = pointer (s, w)" by simp
  then have o2: "pointer_on_screen s2" using assms(2) sw pointer_on_screen_cong by fastforce
  show ?thesis
  proof (cases "mouse = 0")
    case True
    then show ?thesis using s1(3) o2 by simp
  next
    case False
    then obtain m w4 sw3 where s3: "each (move_window calls) [0..<32] (s2\<lparr>packet := m\<rparr>, w4) = Inr sw3" "move_cursor calls sw3 = Inr (s', w')"
      using s1(3) by (auto simp: cbind_eq_Inr)
    have "pointer sw3 = pointer (s2\<lparr>packet := m\<rparr>, w4)" by (rule each_keeps [OF _ s3(1)]) (rule move_window_pointer)
    then have "WIDTH (fbg (fst sw3)) = WIDTH (fbg s2)" "HEIGHT (fbg (fst sw3)) = HEIGHT (fbg s2)" by (simp_all add: pointer_def)
    then show ?thesis using move_cursor_on_screen [OF s3(2)] o2 by (auto simp: pointer_on_screen_def)
  qed
qed

section \<open>Properties\<close>

lemma small_shell_simps:
  "canvas_wf (fbg (small_shell x y))" "cursor (small_shell x y) = small_cursor" "length (under_cursor_buffer (small_shell x y)) = 16"
  "WIDTH (fbg (small_shell x y)) = 5" "HEIGHT (fbg (small_shell x y)) = 4" "PITCH (fbg (small_shell x y)) = 15"
  "length (FRAMEBUFFER (fbg (small_shell x y))) = 60" "mouse_x (small_shell x y) = x" "mouse_y (small_shell x y) = y"
  by (simp_all add: small_shell_def canvas_wf_def)

lemma small_cursor_picture: "cursor_picture small_cursor 2 2"
proof -
  let ?p = "\<lambda>x y. (255, word_of_nat x, word_of_nat y)"
  have "\<exists>c rs. get_pixel small_cursor x y = Inr (c, rs)" if "x < 2" "y < 2" for x y
  proof -
    have "unat x < 2" "unat y < 2" using that by (simp_all add: word_less_nat_alt)
    then show ?thesis using bmp_pixel [of 2 2 "unat x" "unat y" ?p] by (auto simp: small_cursor_def stride_def)
  qed
  then show ?thesis
    by (simp add: cursor_picture_def small_cursor_def get_width_def get_height_def width_field_def height_field_def pointed_def bmp_file_def bmp_fields)
qed

text \<open>C12: The cursor leaves no trace: drawn, moved by any number of packets of the mouse as long as it stays on the screen, and
  taken away again, it leaves every pixel of the screen as it was.\<close>

theorem cursor_leaves_no_trace:
  assumes "canvas_wf (fbg s)" and "cursor_picture (cursor s) wd h" and "0 < unat wd" and "unat h * unat h \<le> length (under_cursor_buffer s)"
    and "\<forall>m\<in>set ms. length m = 12"
    and "\<forall>k\<le>length ms. case foldl (\<lambda>p m. moved (WIDTH (fbg s)) (HEIGHT (fbg s)) m p) (mouse_x s, mouse_y s) (take k ms) of (x, y) \<Rightarrow> fits (fbg s) x y wd h"
  shows "\<exists>s' w'. cbind (draw_cursor calls (mouse_x s) (mouse_y s) (s, w)) (\<lambda>sw1. cbind (mouse_moves calls ms sw1) (\<lambda>sw2.
      restore_cursor calls (mouse_x (fst sw2)) (mouse_y (fst sw2)) sw2)) = Inr (s', w')
    \<and> (\<forall>px py. fb_get_pixel (fbg s') px py = fb_get_pixel (fbg s) px py)"
proof -
  let ?g = "colors (fbg s)"
  have f: "fits (fbg s) (mouse_x s) (mouse_y s) wd h" using assms(6) [rule_format, of 0] by simp
  obtain s1 w1 where s1: "draw_cursor calls (mouse_x s) (mouse_y s) (s, w) = Inr (s1, w1)" "same_shell s s1"
    "shows_cursor ?g wd h (s1\<lparr>mouse_x := mouse_x s, mouse_y := mouse_y s\<rparr>)"
    using draw_shows [OF assms(1,2) f assms(3,4), of calls w] by blast
  note e = same_shell_fields [OF s1(2)]
  have e1: "s1\<lparr>mouse_x := mouse_x s, mouse_y := mouse_y s\<rparr> = s1" using e by simp
  have z: "WIDTH (fbg s1) = WIDTH (fbg s)" "HEIGHT (fbg s1) = HEIGHT (fbg s)" using s1(2) by (simp_all add: same_shell_def)
  have m: "\<forall>k\<le>length ms. case foldl (\<lambda>p m. moved (WIDTH (fbg s1)) (HEIGHT (fbg s1)) m p) (mouse_x s1, mouse_y s1) (take k ms) of (x, y) \<Rightarrow> fits (fbg s1) x y wd h"
    using assms(6) z e by (simp add: fits_def)
  obtain s2 w2 where s2: "mouse_moves calls ms (s1, w1) = Inr (s2, w2)" "shows_cursor ?g wd h s2"
    using mouse_moves_show [OF s1(3) [unfolded e1] assms(5) m, of calls w1] by blast
  have sh: "canvas_wf (fbg s2)" "cursor_picture (cursor s2) wd h" "fits (fbg s2) (mouse_x s2) (mouse_y s2) wd h" "0 < unat wd"
    "unat h * unat h \<le> length (under_cursor_buffer s2)" "cursor_over ?g (mouse_x s2) (mouse_y s2) h {(x, y). x < wd \<and> y < h} s2"
    "\<And>px py. pixel_value (fbg s2) (?g px py) = ?g px py"
    using s2(2) by (simp_all add: shows_cursor_def)
  obtain s3 w3 where s3: "restore_cursor calls (mouse_x s2) (mouse_y s2) (s2, w2) = Inr (s3, w3)" "same_shell s2 s3" "colors (fbg s3) = ?g"
    using restore_cursor_over [OF sh, of calls w2] by blast
  have "canvas_wf (fbg s3)" using s3(2) by (simp add: same_shell_def)
  then have "fb_get_pixel (fbg s3) px py = fb_get_pixel (fbg s) px py" for px py
    using get_colors [of "fbg s3"] get_colors [OF assms(1)] s3(3) by simp
  then show ?thesis using s1(1) s2(1) s3(1) by auto
qed

definition sample_packets :: "byte list list" where
  "sample_packets = [enc32 1 @ enc32 (- 1) @ [0, 0, 0, 0], enc32 (- 2) @ enc32 1 @ [1, 0, 0, 0]]"

theorem cursor_leaves_no_trace_witness:
  "\<exists>s' w'. cbind (draw_cursor quiet_calls 2 2 (small_shell 2 2, ())) (\<lambda>sw1. cbind (mouse_moves quiet_calls sample_packets sw1) (\<lambda>sw2.
      restore_cursor quiet_calls (mouse_x (fst sw2)) (mouse_y (fst sw2)) sw2)) = Inr (s', w')
    \<and> fb_get_pixel (fbg s') 3 3 = fb_get_pixel (fbg (small_shell 2 2)) 3 3"
proof -
  have p: "\<forall>m\<in>set sample_packets. length m = 12" by (simp add: sample_packets_def)
  have m: "moved 5 4 (enc32 1 @ enc32 (- 1) @ [0, 0, 0, 0]) (2, 2) = (3, 1)" "moved 5 4 (enc32 (- 2) @ enc32 1 @ [1, 0, 0, 0]) (3, 1) = (1, 2)"
    by (simp_all add: moved_def new_position_def le32_enc32 [of "[]", simplified] le32_enc32 [of "enc32 a" for a, simplified])
  have f: "\<forall>k\<le>length sample_packets. case foldl (\<lambda>p m. moved (WIDTH (fbg (small_shell 2 2))) (HEIGHT (fbg (small_shell 2 2))) m p)
      (mouse_x (small_shell 2 2), mouse_y (small_shell 2 2)) (take k sample_packets) of (x, y) \<Rightarrow> fits (fbg (small_shell 2 2)) x y 2 2"
  proof (intro allI impI)
    fix k assume "k \<le> length sample_packets"
    then have "k = 0 \<or> k = 1 \<or> k = 2" by (auto simp: sample_packets_def)
    then show "case foldl (\<lambda>p m. moved (WIDTH (fbg (small_shell 2 2))) (HEIGHT (fbg (small_shell 2 2))) m p)
      (mouse_x (small_shell 2 2), mouse_y (small_shell 2 2)) (take k sample_packets) of (x, y) \<Rightarrow> fits (fbg (small_shell 2 2)) x y 2 2"
      using m by (auto simp: sample_packets_def small_shell_simps fits_def)
  qed
  have c: "cursor_picture (cursor (small_shell 2 2)) 2 2" "0 < unat (2 :: u32)" "unat (2 :: u32) * unat (2 :: u32) \<le> length (under_cursor_buffer (small_shell 2 2))"
    by (simp_all add: small_shell_simps small_cursor_picture)
  show ?thesis using cursor_leaves_no_trace [OF small_shell_simps(1) c p f, of quiet_calls "()"] by (auto simp: small_shell_simps)
qed

text \<open>C40: A cursor that reaches below the last row of the screen is drawn on the rows that are there, and then the shell hands the
  system memory behind the frame buffer: the position of the cursor is bounded, its picture is not.\<close>

theorem cursor_bottom_overrun:
  assumes "canvas_wf (fbg s)" and "cursor_picture (cursor s) wd h" and "0 < unat wd"
    and "unat h * unat h \<le> length (under_cursor_buffer s)" and "unat mx + unat wd \<le> unat (WIDTH (fbg s))"
    and "unat my \<le> unat (HEIGHT (fbg s))" and "unat (HEIGHT (fbg s)) < unat my + unat h"
    and "length (FRAMEBUFFER (fbg s)) = unat (PITCH (fbg s)) * unat (HEIGHT (fbg s))"
    and "unat (PITCH (fbg s)) * (unat (HEIGHT (fbg s)) + 1) < 2 ^ 32"
  shows "draw_cursor calls mx my (s, w) = Inl Bad_Read"
  by (rule draw_cursor_below [OF assms])

theorem cursor_bottom_overrun_witness:
  "draw_cursor quiet_calls 2 3 (small_shell 2 2, ()) = Inl Bad_Read"
  by (rule cursor_bottom_overrun [where wd = 2 and h = 2]) (simp_all add: small_shell_simps small_cursor_picture)



end
