(* ===== verification/ShellMessages.thy ===== *)
theory ShellMessages
  imports Shell Screen
begin

text \<open>
  The messages between the programs and the window manager.  A client tells the name, the size and the frames of its window; what the
  window manager keeps of a window refines what was told (\<open>window_view\<close>).  The channel is an interface, the locales
  \<open>message_channel\<close> and \<open>message_pipe\<close>; the pipe of the kernel is one.
\<close>

section \<open>Messages and windows\<close>

datatype client_message = Register "byte list" | Set_Size u32 u32 | Frame "byte list" | Close

primrec encode_message :: "u32 \<Rightarrow> client_message \<Rightarrow> byte list" where
  "encode_message pid (Register name) = window_message_preamble pid REGISTER @ name @ [0]"
| "encode_message pid (Set_Size height width) = window_message_preamble pid SET_SIZE @ window_message_set_size height width"
| "encode_message pid (Frame bs) = window_message_preamble pid FRAMEBUFFER_DATA @ bs"
| "encode_message pid Close = window_message_preamble pid CLOSE"

text \<open>What a client has told the shell of its window.\<close>

record view =
  v_name :: "byte list option"
  v_size :: "(u32 \<times> u32) option"
  v_frame :: "byte list option"

primrec tell :: "client_message \<Rightarrow> view \<Rightarrow> view" where
  "tell (Register name) a = a\<lparr>v_name := Some name\<rparr>"
| "tell (Set_Size height width) a = a\<lparr>v_size := Some (height, width), v_frame := None\<rparr>"
| "tell (Frame bs) a = a\<lparr>v_frame := Some bs\<rparr>"
| "tell Close a = a\<lparr>v_size := None, v_frame := None\<rparr>"

primrec can_tell :: "client_message \<Rightarrow> view \<Rightarrow> bool" where
  "can_tell (Register name) a = (0 \<notin> set name \<and> length name < 255)"
| "can_tell (Set_Size height width) a = True"
| "can_tell (Frame bs) a = (case v_size a of None \<Rightarrow> False | Some (height, width) \<Rightarrow> length bs = unat (width * height * 3))"
| "can_tell Close a = (v_size a \<noteq> None)"

definition window_view :: "shell_window \<Rightarrow> view \<Rightarrow> bool" where
  "window_view v a = ((\<forall>n. v_name a = Some n \<longrightarrow> (\<exists>m. w_name v = Some m \<and> has_nul m \<and> cstr m = n))
     \<and> (case v_size a of None \<Rightarrow> w_fd v = None
        | Some (height, width) \<Rightarrow> w_height v = height \<and> w_width v = width \<and> (\<exists>m. w_fd v = Some m \<and> length m = unat (width * height * 3)))
     \<and> (\<forall>bs. v_frame a = Some bs \<longrightarrow> w_fd v = Some bs \<and> w_dirty v))"

lemma le32_enc_pair: "le32 (enc32 a @ enc32 b) 0 = Inr a" "le32 (enc32 a @ enc32 b) 4 = Inr b"
  using le32_enc32 [of "[]" a "enc32 b"] le32_enc32 [of "enc32 a" b "[]"] by simp_all

text \<open>Many messages of many clients.\<close>

fun tell_all :: "(u32 \<times> client_message) list \<Rightarrow> (nat \<Rightarrow> view) \<Rightarrow> nat \<Rightarrow> view" where
  "tell_all [] a = a"
| "tell_all ((pid, m) # ms) a = tell_all ms (a(unat pid := tell m (a (unat pid))))"

fun can_tell_all :: "(u32 \<times> client_message) list \<Rightarrow> (nat \<Rightarrow> view) \<Rightarrow> bool" where
  "can_tell_all [] a = True"
| "can_tell_all ((pid, m) # ms) a = (can_tell m (a (unat pid)) \<and> can_tell_all ms (a(unat pid := tell m (a (unat pid)))))"

definition encode_all :: "(u32 \<times> client_message) list \<Rightarrow> byte list" where
  "encode_all ms = concat (map (\<lambda>(pid, m). encode_message pid m) ms)"

definition handle_messages :: "'w user_calls \<Rightarrow> nat \<Rightarrow> shell \<times> 'w \<Rightarrow> fault + (shell \<times> 'w)" where
  "handle_messages calls n = each (\<lambda>_. handle_message calls) [0..<n]"

section \<open>The channel\<close>

text \<open>What the system promises of the pipe between the clients and the shell, and of memory: \<open>queue\<close> is what was written and not
  read yet; a read of bytes that are there takes them from its front, and \<open>malloc\<close> gives memory of the size.\<close>

locale message_channel =
  fixes calls :: "'w user_calls"
    and fd :: int
    and inv :: "'w \<Rightarrow> bool"
    and queue :: "'w \<Rightarrow> byte list"
  assumes channel_reads: "inv w \<Longrightarrow> unat n \<le> length (queue w) \<Longrightarrow>
      \<exists>res w'. u_fread calls n 1 fd w = (res, take (unat n) (queue w), w') \<and> inv w' \<and> queue w' = drop (unat n) (queue w)"
    and channel_malloc: "inv w \<Longrightarrow> \<exists>m w'. u_malloc calls n w = (Some m, w') \<and> length m = unat n \<and> inv w' \<and> queue w' = queue w"
    and channel_free: "inv w \<Longrightarrow> inv (u_free calls m w) \<and> queue (u_free calls m w) = queue w"
begin

lemma read_message:
  assumes "inv w" and "queue w = bs @ rest" and "length bs = unat n" and "length buf = unat n"
  shows "\<exists>w'. read_into calls buf n fd w = Inr (bs, w') \<and> inv w' \<and> queue w' = rest"
proof -
  obtain res w' where "u_fread calls n 1 fd w = (res, bs, w')" "inv w'" "queue w' = rest"
    using channel_reads [OF assms(1), of n] assms(2,3) by auto
  then show ?thesis using assms(3,4) by (simp add: read_into_def blit_full)
qed

lemma name_loop_ok:
  "inv w \<Longrightarrow> queue w = cs @ 0 # rest \<Longrightarrow> 0 \<notin> set cs \<Longrightarrow> k + length cs < length name \<Longrightarrow>
    \<exists>w'. name_loop calls fd name k c w = Inr (blit name k (cs @ [0]), 0, w') \<and> inv w' \<and> queue w' = rest"
proof (induction cs arbitrary: w name k c)
  case Nil
  obtain w' where w': "read_into calls [c] 1 fd w = Inr ([0], w')" "inv w'" "queue w' = rest"
    using read_message [OF Nil.prems(1), of "[0]" rest 1 "[c]"] Nil.prems(2) by auto
  then show ?case using Nil.prems(4) blit_snoc [of k "[]" name 0] by (subst name_loop.simps) simp
next
  case (Cons a cs)
  obtain w' where w': "read_into calls [c] 1 fd w = Inr ([a], w')" "inv w'" "queue w' = cs @ 0 # rest"
    using read_message [OF Cons.prems(1), of "[a]" "cs @ 0 # rest" 1 "[c]"] Cons.prems(2) by auto
  have l: "Suc k + length cs < length (name[k := a])" using Cons.prems(4) by simp
  obtain w2 where w2: "name_loop calls fd (name[k := a]) (Suc k) a w' = Inr (blit (name[k := a]) (Suc k) (cs @ [0]), 0, w2)" "inv w2" "queue w2 = rest"
    using Cons.IH [OF w'(2,3) _ l, of a] Cons.prems(3) by auto
  have "blit (name[k := a]) (Suc k) (cs @ [0]) = blit name k ((a # cs) @ [0])" using blit_Cons [of k "cs @ [0]" name a] Cons.prems(4) by simp
  then show ?case using w'(1) w2 Cons.prems(3,4) by (subst name_loop.simps) auto
qed

text \<open>One message.\<close>

lemma handle_message_ok:
  assumes p: "ipc_fd s = fd" "inv w" and q: "queue w = encode_message pid m @ rest" and i: "unat pid < length (windows s)"
    and bufs: "length (preamble s) = 8" "length (set_size s) = 8" and v: "window_view (windows s ! unat pid) a" and m: "can_tell m a"
  shows "\<exists>s' w' v'. handle_message calls (s, w) = Inr (s', w') \<and> inv w' \<and> queue w' = rest \<and> windows s' = (windows s)[unat pid := v']
    \<and> window_view v' (tell m a) \<and> ipc_fd s' = ipc_fd s \<and> length (preamble s') = 8 \<and> length (set_size s') = 8"
proof -
  obtain t rest1 where t: "encode_message pid m = window_message_preamble pid t @ rest1"
    "t = (case m of Register _ \<Rightarrow> REGISTER | Set_Size _ _ \<Rightarrow> SET_SIZE | Frame _ \<Rightarrow> FRAMEBUFFER_DATA | Close \<Rightarrow> CLOSE)"
    by (cases m) auto
  let ?p = "window_message_preamble pid t" let ?s1 = "s\<lparr>preamble := ?p\<rparr>" let ?v = "windows s ! unat pid" let ?i = "unat pid"
  have lp: "length ?p = unat (8 :: u32)" "length (preamble s) = unat (8 :: u32)" using bufs by (simp_all add: window_message_preamble_def)
  obtain w1 where w1: "read_into calls (preamble s) 8 (ipc_fd s) w = Inr (?p, w1)" "inv w1" "queue w1 = rest1 @ rest"
    using read_message [OF p(2) _ lp, of "rest1 @ rest"] q t(1) p(1) by auto
  have l: "le32 ?p 0 = Inr pid" "le32 ?p 4 = Inr (message_code t)" by (simp_all add: window_message_preamble_def le32_enc_pair)
  have r: "rd (windows ?s1) ?i = Inr ?v" "rd (windows s) ?i = Inr ?v" using i by simp_all
  have h: "handle_message calls (s, w) = (case t of REGISTER \<Rightarrow> register_window calls ?i (?s1, w1) | SET_SIZE \<Rightarrow> set_window_size calls ?i (?s1, w1)
      | FRAMEBUFFER_DATA \<Rightarrow> window_data calls ?i (?s1, w1) | CLOSE \<Rightarrow> close_window calls ?i (?s1, w1))"
    using w1(1) l by (cases t) (simp_all add: handle_message_def)
  have fin: ?thesis if "handle_message calls (s, w) = Inr (put_window ?i v' (?s1\<lparr>set_size := b, tmp_char := c\<rparr>), w')" "inv w'" "queue w' = rest"
    "window_view v' (tell m a)" "length b = 8" for v' b c w'
    using that bufs by (intro exI [of _ "put_window ?i v' (?s1\<lparr>set_size := b, tmp_char := c\<rparr>)"] exI [of _ w'] exI [of _ v'])
      (simp add: put_window_def window_message_preamble_def)
  show ?thesis
  proof (cases m)
    case (Register name)
    have "rest1 = name @ [0]" "t = REGISTER" using t Register by simp_all
    then have q1: "queue w1 = name @ 0 # rest" using w1(3) by simp
    obtain m0 w2 where w2: "u_malloc calls 255 w1 = (Some m0, w2)" "length m0 = 255" "inv w2" "queue w2 = queue w1"
      using channel_malloc [OF w1(2), of 255] by auto
    have n: "0 \<notin> set name" "0 + length name < length m0" using m Register w2(2) by simp_all
    obtain w3 where w3: "name_loop calls (ipc_fd s) m0 0 (tmp_char s) w2 = Inr (blit m0 0 (name @ [0]), 0, w3)" "inv w3" "queue w3 = rest"
      using name_loop_ok [OF w2(3) _ n(1) n(2), of rest "tmp_char s"] q1 w2(4) p(1) by auto
    let ?n = "blit m0 0 (name @ [0])"
    have b: "?n = name @ 0 # drop (length name + 1) m0" by (simp add: blit_def)
    have "handle_message calls (s, w) = Inr (put_window ?i (?v\<lparr>w_name := Some ?n\<rparr>) (?s1\<lparr>set_size := set_size s, tmp_char := 0\<rparr>), w3)"
      using h \<open>t = REGISTER\<close> r(1) w2(1) w3(1) by (simp add: register_window_def)
    moreover have "window_view (?v\<lparr>w_name := Some ?n\<rparr>) (tell m a)"
      using v Register cstr_append_nul [OF n(1)] b by (auto simp: window_view_def split: option.splits)
    ultimately show ?thesis using fin [where v' = "?v\<lparr>w_name := Some ?n\<rparr>" and b = "set_size s" and c = 0 and w' = w3] w3(2,3) bufs(2) by blast
  next
    case (Set_Size height width)
    let ?m = "window_message_set_size height width"
    have x: "rest1 = ?m" "t = SET_SIZE" using t Set_Size by simp_all
    have lm: "length ?m = unat (8 :: u32)" "length (set_size s) = unat (8 :: u32)" using bufs by (simp_all add: window_message_set_size_def)
    obtain w2 where w2: "read_into calls (set_size s) 8 (ipc_fd s) w1 = Inr (?m, w2)" "inv w2" "queue w2 = rest"
      using read_message [OF w1(2) _ lm, of rest] w1(3) x(1) p(1) by auto
    define w3 where "w3 = (case w_fd ?v of None \<Rightarrow> w2 | Some old \<Rightarrow> u_free calls old w2)"
    have q3: "inv w3" "queue w3 = rest" using w2(2,3) channel_free by (auto simp: w3_def split: option.splits)
    obtain m0 w4 where w4: "u_malloc calls (width * height * 3) w3 = (Some m0, w4)" "length m0 = unat (width * height * 3)" "inv w4" "queue w4 = rest"
      using channel_malloc [OF q3(1), of "width * height * 3"] q3(2) by auto
    let ?v' = "?v\<lparr>w_height := height, w_width := width, w_fd := Some m0\<rparr>"
    have e: "le32 ?m 0 = Inr height" "le32 ?m 4 = Inr width" by (simp_all add: window_message_set_size_def le32_enc_pair)
    have "handle_message calls (s, w) = Inr (put_window ?i ?v' (?s1\<lparr>set_size := ?m, tmp_char := tmp_char s\<rparr>), w4)"
      using h x(2) r(1) w2(1) e w4(1) by (simp add: set_window_size_def w3_def [symmetric])
    moreover have "window_view ?v' (tell m a)" using v Set_Size w4(2) by (simp add: window_view_def)
    ultimately show ?thesis using fin [where v' = ?v' and b = ?m and c = "tmp_char s" and w' = w4] w4(3,4) lm(1) by simp
  next
    case (Frame bs)
    obtain height width where a: "v_size a = Some (height, width)" "length bs = unat (width * height * 3)" using m Frame by (auto split: option.splits)
    obtain old where o: "w_fd ?v = Some old" "length old = unat (width * height * 3)" "w_height ?v = height" "w_width ?v = width"
      using v a(1) by (auto simp: window_view_def)
    have x: "rest1 = bs" "t = FRAMEBUFFER_DATA" using t Frame by simp_all
    obtain w2 where w2: "read_into calls old (width * height * 3) (ipc_fd s) w1 = Inr (bs, w2)" "inv w2" "queue w2 = rest"
      using read_message [OF w1(2) _ a(2) o(2), of rest] w1(3) x(1) p(1) by auto
    let ?v' = "?v\<lparr>w_fd := Some bs, w_dirty := True\<rparr>"
    have "handle_message calls (s, w) = Inr (put_window ?i ?v' (?s1\<lparr>set_size := set_size s, tmp_char := tmp_char s\<rparr>), w2)"
      using h x(2) r(1) o w2(1) by (simp add: window_data_def)
    moreover have "window_view ?v' (tell m a)" using v Frame a o by (simp add: window_view_def)
    ultimately show ?thesis using fin [where v' = ?v' and b = "set_size s" and c = "tmp_char s" and w' = w2] w2(2,3) bufs(2) by blast
  next
    case Close
    have x: "rest1 = []" "t = CLOSE" using t Close by simp_all
    obtain old where o: "w_fd ?v = Some old" using v m Close by (auto simp: window_view_def split: option.splits)
    let ?v' = "?v\<lparr>w_fd := None\<rparr>"
    have "handle_message calls (s, w) = Inr (put_window ?i ?v' (?s1\<lparr>set_size := set_size s, tmp_char := tmp_char s\<rparr>), u_free calls old w1)"
      using h x(2) r(1) o by (simp add: close_window_def)
    moreover have "inv (u_free calls old w1)" "queue (u_free calls old w1) = rest" using w1(2,3) x(1) channel_free by auto
    moreover have "window_view ?v' (tell m a)" using v Close by (simp add: window_view_def)
    ultimately show ?thesis using fin [where v' = ?v' and b = "set_size s" and c = "tmp_char s"] bufs(2) by blast
  qed
qed

lemma handle_messages_ok:
  "ipc_fd s = fd \<Longrightarrow> inv w \<Longrightarrow> queue w = encode_all ms @ rest \<Longrightarrow> \<forall>(pid, m)\<in>set ms. unat pid < length (windows s) \<Longrightarrow>
   length (preamble s) = 8 \<Longrightarrow> length (set_size s) = 8 \<Longrightarrow> \<forall>i<length (windows s). window_view (windows s ! i) (a i) \<Longrightarrow> can_tell_all ms a \<Longrightarrow>
   \<exists>s' w'. each (\<lambda>_. handle_message calls) ms (s, w) = Inr (s', w') \<and> inv w' \<and> queue w' = rest \<and> length (windows s') = length (windows s)
     \<and> (\<forall>i<length (windows s). window_view (windows s' ! i) (tell_all ms a i))"
proof (induction ms arbitrary: s w a)
  case (Cons pm ms)
  obtain pid m where pm: "pm = (pid, m)" by fastforce
  have q: "queue w = encode_message pid m @ encode_all ms @ rest" using Cons.prems(3) pm by (simp add: encode_all_def)
  have i: "unat pid < length (windows s)" using Cons.prems(4) pm by simp
  have v: "window_view (windows s ! unat pid) (a (unat pid))" and c: "can_tell m (a (unat pid))" using Cons.prems(7,8) i pm by simp_all
  obtain s1 w1 v' where s1: "handle_message calls (s, w) = Inr (s1, w1)" "inv w1" "queue w1 = encode_all ms @ rest" "windows s1 = (windows s)[unat pid := v']"
    "window_view v' (tell m (a (unat pid)))" "ipc_fd s1 = ipc_fd s" "length (preamble s1) = 8" "length (set_size s1) = 8"
    using handle_message_ok [OF Cons.prems(1,2) q i Cons.prems(5,6) v c] by blast
  let ?a = "a(unat pid := tell m (a (unat pid)))"
  have pre: "ipc_fd s1 = fd" "\<forall>(pid, m)\<in>set ms. unat pid < length (windows s1)"
    "\<forall>i<length (windows s1). window_view (windows s1 ! i) (?a i)" "can_tell_all ms ?a"
    using Cons.prems s1 i pm by (auto simp: nth_list_update)
  obtain s' w' where "each (\<lambda>_. handle_message calls) ms (s1, w1) = Inr (s', w')" "inv w'" "queue w' = rest" "length (windows s') = length (windows s1)"
    "\<forall>i<length (windows s1). window_view (windows s' ! i) (tell_all ms ?a i)"
    using Cons.IH [OF pre(1) s1(2,3) pre(2) s1(7,8) pre(3,4)] by blast
  then show ?case using s1 pm by simp
qed (simp add: encode_all_def)

text \<open>The three messages of a new window.\<close>

lemma new_window_messages:
  assumes "ipc_fd s = fd" and "inv w" and i: "unat pid < length (windows s)" and "length (preamble s) = 8" and "length (set_size s) = 8"
    and q: "queue w = encode_all [(pid, Register name), (pid, Set_Size height width), (pid, Frame bs)]"
    and "w_fd (windows s ! unat pid) = None" and "0 \<notin> set name" and "length name < 255" and "length bs = unat (width * height * 3)"
  shows "\<exists>s' w' v. handle_messages calls 3 (s, w) = Inr (s', w') \<and> queue w' = [] \<and> windows s' = (windows s)[unat pid := v]
    \<and> map_option cstr (w_name v) = Some name \<and> w_width v = width \<and> w_height v = height \<and> w_fd v = Some bs \<and> w_dirty v"
proof -
  let ?i = "unat pid" let ?a0 = "\<lparr>v_name = None, v_size = None, v_frame = None\<rparr>"
  let ?a1 = "tell (Register name) ?a0" let ?a2 = "tell (Set_Size height width) ?a1"
  let ?q2 = "encode_message pid (Frame bs) @ []" let ?q1 = "encode_message pid (Set_Size height width) @ ?q2"
  have q0: "queue w = encode_message pid (Register name) @ ?q1" using q by (simp add: encode_all_def)
  have a0: "window_view (windows s ! ?i) ?a0" "can_tell (Register name) ?a0" using assms(7-9) by (simp_all add: window_view_def)
  obtain s1 w1 v1 where s1: "handle_message calls (s, w) = Inr (s1, w1)" "inv w1" "queue w1 = ?q1" "windows s1 = (windows s)[?i := v1]"
    "window_view v1 ?a1" "ipc_fd s1 = ipc_fd s" "length (preamble s1) = 8" "length (set_size s1) = 8"
    using handle_message_ok [OF assms(1,2) q0 i assms(4,5) a0] by blast
  have i1: "ipc_fd s1 = fd" "?i < length (windows s1)" "window_view (windows s1 ! ?i) ?a1" "can_tell (Set_Size height width) ?a1"
    using s1(4-6) i assms(1) by simp_all
  obtain s2 w2 v2 where s2: "handle_message calls (s1, w1) = Inr (s2, w2)" "inv w2" "queue w2 = ?q2" "windows s2 = (windows s1)[?i := v2]"
    "window_view v2 ?a2" "ipc_fd s2 = ipc_fd s1" "length (preamble s2) = 8" "length (set_size s2) = 8"
    using handle_message_ok [OF i1(1) s1(2,3) i1(2) s1(7,8) i1(3,4)] by blast
  have i2: "ipc_fd s2 = fd" "?i < length (windows s2)" "window_view (windows s2 ! ?i) ?a2" "can_tell (Frame bs) ?a2"
    using s2(4-6) i1(1,2) assms(10) by (simp_all add: mult.commute)
  obtain s3 w3 v3 where s3: "handle_message calls (s2, w2) = Inr (s3, w3)" "queue w3 = []" "windows s3 = (windows s2)[?i := v3]"
    "window_view v3 (tell (Frame bs) ?a2)"
    using handle_message_ok [OF i2(1) s2(2,3) i2(2) s2(7,8) i2(3,4)] by blast
  have "handle_messages calls 3 (s, w) = Inr (s3, w3)" using s1(1) s2(1) s3(1) by (simp add: handle_messages_def eval_nat_numeral)
  moreover have "windows s3 = (windows s)[?i := v3]" using s1(4) s2(4) s3(3) by simp
  moreover have "map_option cstr (w_name v3) = Some name \<and> w_width v3 = width \<and> w_height v3 = height \<and> w_fd v3 = Some bs \<and> w_dirty v3"
    using s3(4) by (auto simp: window_view_def)
  ultimately show ?thesis using s3(2) by blast
qed

end

text \<open>A channel that the clients write to as well, with room for \<open>capacity\<close> bytes.\<close>

locale message_pipe = message_channel calls fd inv queue
  for calls :: "'w user_calls" and fd :: int and inv :: "'w \<Rightarrow> bool" and queue :: "'w \<Rightarrow> byte list" +
  fixes capacity :: "'w \<Rightarrow> nat"
  assumes channel_writes: "inv w \<Longrightarrow> unat n * unat k = length bs \<Longrightarrow> length (queue w) + length bs \<le> capacity w \<Longrightarrow>
      \<exists>r w'. u_fwrite calls bs n k fd w = (r, w') \<and> inv w' \<and> capacity w' = capacity w \<and> queue w' = queue w @ bs"
begin

lemma write_message:
  assumes "inv w" and "unat n * unat k = length bs" and "length (queue w) + length bs \<le> capacity w"
  shows "inv (snd (u_fwrite calls bs n k fd w))" "capacity (snd (u_fwrite calls bs n k fd w)) = capacity w"
    "queue (snd (u_fwrite calls bs n k fd w)) = queue w @ bs"
  using channel_writes [OF assms] by auto

lemma announcement_written:
  assumes "inv w" and "length (queue w) + 36 \<le> capacity w"
  shows "inv (announce_window calls fd pid fb w)" "capacity (announce_window calls fd pid fb w) = capacity w"
    "queue (announce_window calls fd pid fb w) = queue w @ encode_all [(pid, Register (chars ''Window Test'')), (pid, Set_Size (HEIGHT fb) (WIDTH fb))]"
proof -
  have l: "length (window_message_preamble pid t) = 8" "length (lit ''Window Test'') = 12" "length (window_message_set_size a b) = 8" for t a b
    by (simp_all add: lit_def chars_def window_message_preamble_def window_message_set_size_def)
  define w1 where "w1 = snd (u_fwrite calls (window_message_preamble pid REGISTER) 8 1 fd w)"
  define w2 where "w2 = snd (u_fwrite calls (lit ''Window Test'') 1 12 fd w1)"
  define w3 where "w3 = snd (u_fwrite calls (window_message_preamble pid SET_SIZE) 8 1 fd w2)"
  have 1: "inv w1" "capacity w1 = capacity w" "queue w1 = queue w @ window_message_preamble pid REGISTER"
    unfolding w1_def using assms l by (intro write_message; simp)+
  have 2: "inv w2" "capacity w2 = capacity w" "queue w2 = queue w1 @ lit ''Window Test''"
    unfolding w2_def 1(2) [symmetric] using 1 assms(2) l by (intro write_message; simp)+
  have 3: "inv w3" "capacity w3 = capacity w" "queue w3 = queue w2 @ window_message_preamble pid SET_SIZE"
    unfolding w3_def 2(2) [symmetric] using 1 2 assms(2) l by (intro write_message; simp)+
  have a: "announce_window calls fd pid fb w = snd (u_fwrite calls (window_message_set_size (HEIGHT fb) (WIDTH fb)) 8 1 fd w3)"
    by (simp add: announce_window_def w1_def w2_def w3_def Let_def)
  have 4: "length (queue w3) + 8 \<le> capacity w3" using 1 2 3 assms(2) l by simp
  show "inv (announce_window calls fd pid fb w)" "capacity (announce_window calls fd pid fb w) = capacity w"
    unfolding a 3(2) [symmetric] using 3(1) 4 l by (intro write_message; simp)+
  have "queue (announce_window calls fd pid fb w) = queue w3 @ window_message_set_size (HEIGHT fb) (WIDTH fb)"
    unfolding a using 3(1) 4 l by (intro write_message; simp)
  then show "queue (announce_window calls fd pid fb w) = queue w @ encode_all [(pid, Register (chars ''Window Test'')), (pid, Set_Size (HEIGHT fb) (WIDTH fb))]"
    using 1 2 3 by (simp add: encode_all_def lit_def)
qed

lemma frame_written:
  assumes "inv w" and "fb_print_string_color fb (lit ''i'') 0xffff0000 = Inr fb'" and "unat (get_buffer_size fb') \<le> length (FRAMEBUFFER fb')"
    and "unat (get_buffer_size fb') < 2 ^ 31" and "length (queue w) + 8 + unat (get_buffer_size fb') \<le> capacity w"
  shows "\<exists>w'. send_frame calls fd pid fb w = Inr (fb', w') \<and> inv w' \<and> capacity w' = capacity w
    \<and> queue w' = queue w @ encode_all [(pid, Frame (take (unat (get_buffer_size fb')) (FRAMEBUFFER fb')))]"
proof -
  let ?m = "window_message_preamble pid FRAMEBUFFER_DATA @ take (unat (get_buffer_size fb')) (FRAMEBUFFER fb')"
  have l: "length ?m = 8 + unat (get_buffer_size fb')" using assms(3) by (simp add: window_message_preamble_def)
  have n: "unat (8 + get_buffer_size fb') = 8 + unat (get_buffer_size fb')" using assms(4) by (simp add: unat_word_ariths)
  have "unat (8 + get_buffer_size fb') * unat (1 :: u32) = length ?m" "length (queue w) + length ?m \<le> capacity w" using l n assms(5) by simp_all
  note wr = write_message [OF assms(1) this]
  have "send_frame calls fd pid fb w = Inr (fb', snd (u_fwrite calls ?m (8 + get_buffer_size fb') 1 fd w))"
    using assms(2,3) by (simp add: send_frame_def slice_def)
  then show ?thesis using wr by (simp add: encode_all_def)
qed

end

section \<open>The pipe of the kernel\<close>

text \<open>The calls of the programs on a pipe of the kernel: blocks are written and read by the driver \<open>Pipe\<close>.\<close>

definition kernel_pipe_calls :: "u32 \<Rightarrow> pipe user_calls" where
  "kernel_pipe_calls pid = \<lparr>u_fopen = (\<lambda>_ _ p. (1, p)),
     u_fread = (\<lambda>n k _ p. case pipe_get p (unat n) of Inl _ \<Rightarrow> (- 1, [], p) | Inr (r, p') \<Rightarrow> (sint k, case r of None \<Rightarrow> [] | Some bs \<Rightarrow> bs, p')),
     u_fwrite = (\<lambda>bs n k _ p. case pipe_write p n k bs of Inl _ \<Rightarrow> (- 1, p) | Inr (r, p') \<Rightarrow> (r, p')),
     u_fstat = (\<lambda>_ p. case pipe_stat p of Inl _ \<Rightarrow> (- 1, None, p) | Inr (r, st) \<Rightarrow> (r, Some (st_filesize st), p)),
     u_fseek = (\<lambda>_ _ _ p. (- 1, p)), u_malloc = (\<lambda>n p. (Some (replicate (unat n) 0), p)), u_free = (\<lambda>_ p. p), u_open_ipc = (\<lambda>_ _ _ p. p),
     u_execprocess = (\<lambda>_ p. p), u_getpid = (\<lambda>p. (pid, p)), u_debug = (\<lambda>_ p. p), u_framebuffer_info = (\<lambda>p. (([], 0, 0, 0), p))\<rparr>"

lemma pipe_write_loop_fits:
  "pipe_wf p \<Longrightarrow> s + n * unat sz \<le> length data \<Longrightarrow> length (pipe_contents p) + n * unat sz \<le> pipe_capacity p \<Longrightarrow>
   \<exists>p'. pipe_write_loop p sz data s n = Inr p' \<and> pipe_wf p' \<and> pipe_capacity p' = pipe_capacity p
     \<and> pipe_contents p' = pipe_contents p @ take (n * unat sz) (drop s data)"
proof (induction n arbitrary: p s)
  case (Suc n)
  have w: "length (pipe_contents p) = unat (m_count p)" "unat (m_buffer_write_idx p) \<le> pipe_capacity p" "pipe_capacity p < 2 ^ 31"
    using Suc.prems(1) pq.contents_bound [OF Suc.prems(1)] by (auto simp: pipe_wf_def pipe_capacity_def)
  have d: "s + unat sz \<le> length data" "unat sz < 2 ^ 31" "unat (m_buffer_write_idx p) + unat sz \<le> 2 * pipe_capacity p"
    using Suc.prems(2,3) w by simp_all
  obtain p1 where p1: "PipeFS_write p data s sz = Inr (int (unat sz), p1)" "pipe_wf p1" "pipe_capacity p1 = pipe_capacity p"
    "pipe_contents p1 = pipe_contents p @ take (unat sz) (drop s data)"
    using PipeFS_write_spec [OF Suc.prems(1) d] w(1) Suc.prems(3) by auto
  have l: "length (pipe_contents p1) = length (pipe_contents p) + unat sz" using p1(4) d(1) by simp
  have "s + unat sz + n * unat sz \<le> length data" "length (pipe_contents p1) + n * unat sz \<le> pipe_capacity p1"
    using Suc.prems(2,3) l p1(3) by (simp_all add: add.assoc)
  then obtain p' where "pipe_write_loop p1 sz data (s + unat sz) n = Inr p'" "pipe_wf p'" "pipe_capacity p' = pipe_capacity p1"
    "pipe_contents p' = pipe_contents p1 @ take (n * unat sz) (drop (s + unat sz) data)"
    using Suc.IH [OF p1(2), of "s + unat sz"] by blast
  moreover have "take (unat sz) (drop s data) @ take (n * unat sz) (drop (s + unat sz) data) = take (Suc n * unat sz) (drop s data)"
    by (simp add: take_add add.commute)
  ultimately show ?case using p1 by simp
qed simp

interpretation kc: message_pipe "kernel_pipe_calls pid" fd pipe_wf pipe_contents pipe_capacity
proof unfold_locales
  fix p and n :: u32 assume "pipe_wf p" and "unat n \<le> length (pipe_contents p)"
  then show "\<exists>res p'. u_fread (kernel_pipe_calls pid) n 1 fd p = (res, take (unat n) (pipe_contents p), p') \<and> pipe_wf p'
      \<and> pipe_contents p' = drop (unat n) (pipe_contents p)"
    using pq.get_takes [of p "unat n"] by (auto simp: kernel_pipe_calls_def)
next
  fix p and n k :: u32 and bs :: "byte list"
  assume p: "pipe_wf p" and l: "unat n * unat k = length bs" "length (pipe_contents p) + length bs \<le> pipe_capacity p"
  have "0 + unat k * unat n \<le> length bs" "length (pipe_contents p) + unat k * unat n \<le> pipe_capacity p" using l by (simp_all add: mult.commute)
  then obtain p' where "pipe_write_loop p n bs 0 (unat k) = Inr p'" "pipe_wf p'" "pipe_capacity p' = pipe_capacity p"
    "pipe_contents p' = pipe_contents p @ bs"
    using pipe_write_loop_fits [OF p, of 0 "unat k" n bs] l(1) by (auto simp: mult.commute)
  then show "\<exists>r p'. u_fwrite (kernel_pipe_calls pid) bs n k fd p = (r, p') \<and> pipe_wf p' \<and> pipe_capacity p' = pipe_capacity p
      \<and> pipe_contents p' = pipe_contents p @ bs"
    by (simp add: kernel_pipe_calls_def pipe_write_def)
qed (simp_all add: kernel_pipe_calls_def)

lemma print_keyboard:
  assumes "screen_ok fb" and "on_keyboard c"
  shows "\<exists>fb'. fb_print_string_color fb [c, 0] color = Inr fb' \<and> screen_ok fb' \<and> same_screen fb fb'"
  using puts_ok [OF assms(1), of "[c]" "[]" color] assms(2) by auto

lemma window_screen:
  assumes "screen_ok fb" and "WIDTH fb = 200" and "HEIGHT fb = 200" and "BPP fb = 24"
  shows "get_buffer_size fb = 120000" "120000 \<le> length (FRAMEBUFFER fb)"
  using assms by (auto simp: get_buffer_size_def screen_ok_def canvas_wf_def)

lemma wintest_written:
  assumes "pipe_wf p" and "pipe_contents p = []" and "120044 \<le> pipe_capacity p" and "120000 \<le> length mem"
  shows "\<exists>fb p1 fb' p2. wintest_start (kernel_pipe_calls pid) mem p = Inr (1, pid, fb, p1)
    \<and> send_frame (kernel_pipe_calls pid) 1 pid fb p1 = Inr (fb', p2) \<and> pipe_wf p2 \<and> 120000 \<le> length (FRAMEBUFFER fb')
    \<and> pipe_contents p2 = encode_all [(pid, Register (chars ''Window Test'')), (pid, Set_Size 200 200), (pid, Frame (take 120000 (FRAMEBUFFER fb')))]"
proof -
  let ?c = "kernel_pipe_calls pid" let ?k = "0xffff0000 :: u32"
  obtain fb0 where fb0: "FramebufferGraphics mem 200 200 24 = Inr fb0" "screen_ok fb0" "WIDTH fb0 = 200" "HEIGHT fb0 = 200" "BPP fb0 = 24"
    using new_screen_ok [of 200 200 mem] assms(4) by auto
  have on: "on_keyboard 104" "on_keyboard 105" by (simp_all add: on_keyboard_def)
  obtain fb where fb: "fb_print_string_color fb0 [104, 0] ?k = Inr fb" "screen_ok fb" "same_screen fb0 fb" using print_keyboard [OF fb0(2) on(1)] by blast
  obtain fb' where fb': "fb_print_string_color fb [105, 0] ?k = Inr fb'" "screen_ok fb'" "same_screen fb fb'" using print_keyboard [OF fb(2) on(2)] by blast
  have z: "get_buffer_size fb' = 120000" "120000 \<le> length (FRAMEBUFFER fb')" "WIDTH fb = 200" "HEIGHT fb = 200"
    using window_screen [OF fb'(2)] fb0(3-5) fb(3) fb'(3) by (simp_all add: same_screen_def)
  let ?bs = "take 120000 (FRAMEBUFFER fb')" let ?n = "chars ''Window Test''"
  define p1 where "p1 = announce_window ?c 1 pid fb p"
  have p1: "pipe_wf p1" "pipe_capacity p1 = pipe_capacity p" "pipe_contents p1 = encode_all [(pid, Register ?n), (pid, Set_Size 200 200)]"
    using kc.announcement_written [OF assms(1), of pid 1 pid fb] assms(2,3) z by (simp_all add: p1_def)
  have start: "wintest_start ?c mem p = Inr (1, pid, fb, p1)"
    using fb0(1) fb(1) by (simp add: wintest_start_def kernel_pipe_calls_def [of pid] p1_def lit_def chars_def)
  have "length (pipe_contents p1) = 36"
    by (simp add: p1(3) encode_all_def window_message_preamble_def window_message_set_size_def chars_def)
  then have room: "length (pipe_contents p1) + 8 + unat (get_buffer_size fb') \<le> pipe_capacity p1" using p1(2) assms(3) z(1) by simp
  have i: "fb_print_string_color fb (lit ''i'') ?k = Inr fb'" using fb'(1) by (simp add: lit_def chars_def)
  obtain p2 where p2: "send_frame ?c 1 pid fb p1 = Inr (fb', p2)" "pipe_wf p2"
    "pipe_contents p2 = pipe_contents p1 @ encode_all [(pid, Frame (take (unat (get_buffer_size fb')) (FRAMEBUFFER fb')))]"
    using kc.frame_written [OF p1(1) i _ _ room, of pid 1 pid] z by auto
  have "pipe_contents p2 = encode_all [(pid, Register ?n), (pid, Set_Size 200 200), (pid, Frame ?bs)]"
    using p2(3) p1(3) z(1) by (simp add: encode_all_def)
  then show ?thesis using start p2(1,2) z(2) by blast
qed

section \<open>Properties\<close>

text \<open>C6: Whatever the clients write, the shell follows: after as many messages as there are in the channel, in any order of the
  clients, every window has the name, the size and the last frame that its client told; what is behind them stays in the channel.\<close>

theorem windows_follow_messages:
  assumes "message_channel calls (ipc_fd s) good queue" and "good w" and "queue w = encode_all ms @ rest"
    and "\<forall>(pid, m)\<in>set ms. unat pid < length (windows s)" and "length (preamble s) = 8" and "length (set_size s) = 8"
    and "\<forall>i<length (windows s). window_view (windows s ! i) (a i)" and "can_tell_all ms a"
  shows "\<exists>s' w'. handle_messages calls (length ms) (s, w) = Inr (s', w') \<and> good w' \<and> queue w' = rest
    \<and> length (windows s') = length (windows s) \<and> (\<forall>i<length (windows s). window_view (windows s' ! i) (tell_all ms a i))"
  using message_channel.handle_messages_ok [OF assms(1) refl assms(2-8)] each_same [of "[0..<length ms]" ms "handle_message calls" "(s, w)"]
  by (auto simp: handle_messages_def)

definition sample_messages :: "(u32 \<times> client_message) list" where
  "sample_messages = [(1, Register (chars ''one'')), (2, Set_Size 1 1), (1, Set_Size 1 2), (2, Frame [9, 8, 7]), (1, Frame [1, 2, 3, 4, 5, 6]), (2, Close)]"

lemma new_pipe:
  assumes "0 < unat n" and "unat n < 2 ^ 31"
  shows "pipe_wf (PipeFS True n)" "pipe_contents (PipeFS True n) = []" "pipe_capacity (PipeFS True n) = unat n"
  using assms by (simp_all add: PipeFS_def pipe_wf_def pipe_contents_def pipe_capacity_def ring_def)

theorem windows_follow_messages_witness:
  "\<exists>p s' p'. pipe_contents p = encode_all sample_messages
    \<and> handle_messages (kernel_pipe_calls 1) 6 ((small_shell 2 2)\<lparr>windows := replicate 4 new_window\<rparr>, p) = Inr (s', p')
    \<and> pipe_contents p' = [] \<and> w_fd (windows s' ! 1) = Some [1, 2, 3, 4, 5, 6] \<and> w_fd (windows s' ! 2) = None"
proof -
  let ?s = "(small_shell 2 2)\<lparr>windows := replicate 4 new_window\<rparr>" let ?a = "\<lambda>_ :: nat. \<lparr>v_name = None, v_size = None, v_frame = None\<rparr>"
  let ?p = "PipeFS True 1000"
  have n: "pipe_wf ?p" "pipe_contents ?p = []" "pipe_capacity ?p = 1000" using new_pipe [of 1000] by simp_all
  have l: "length sample_messages = 6" "length (encode_all sample_messages) = 77"
    by (simp_all add: sample_messages_def encode_all_def window_message_preamble_def window_message_set_size_def chars_def)
  obtain r p where p: "u_fwrite (kernel_pipe_calls 1) (encode_all sample_messages) 77 1 1 ?p = (r, p)" "pipe_wf p" "pipe_contents p = encode_all sample_messages"
    using kc.channel_writes [OF n(1), of 77 1 "encode_all sample_messages" 1 1] n l by auto
  have c: "message_channel (kernel_pipe_calls 1) (ipc_fd ?s) pipe_wf pipe_contents" by (rule kc.message_channel_axioms)
  have q: "pipe_contents p = encode_all sample_messages @ []" using p(3) by simp
  have pre: "\<forall>(pid, m)\<in>set sample_messages. unat pid < length (windows ?s)" "length (preamble ?s) = 8" "length (set_size ?s) = 8"
    "\<forall>i<length (windows ?s). window_view (windows ?s ! i) (?a i)" "can_tell_all sample_messages ?a"
    by (simp_all add: sample_messages_def small_shell_def window_view_def new_window_def chars_def)
  obtain s' p' where s': "handle_messages (kernel_pipe_calls 1) 6 (?s, p) = Inr (s', p')" "pipe_contents p' = []"
    "\<forall>i<4. window_view (windows s' ! i) (tell_all sample_messages ?a i)"
    using windows_follow_messages [OF c p(2) q pre] l(1) by auto
  have "window_view (windows s' ! 1) (tell_all sample_messages ?a 1)" "window_view (windows s' ! 2) (tell_all sample_messages ?a 2)"
    using s'(3) [rule_format, of 1] s'(3) [rule_format, of 2] by simp_all
  then have "w_fd (windows s' ! 1) = Some [1, 2, 3, 4, 5, 6]" "w_fd (windows s' ! 2) = None"
    by (simp_all add: sample_messages_def window_view_def)
  then show ?thesis using s' p(3) by blast
qed

text \<open>C7: A window from the program to the screen: the test program, started with an empty pipe of the kernel, announces its window and
  sends a frame, nothing of it is lost in the pipe, and the window manager then has a window of that name and size with exactly the
  pixels the program drew, to be drawn in its next round.\<close>

theorem wintest_shows_window:
  assumes "pipe_wf p" and "pipe_contents p = []" and "120044 \<le> pipe_capacity p" and "120000 \<le> length mem"
    and "unat pid < length (windows s)" and "w_fd (windows s ! unat pid) = None" and "length (preamble s) = 8" and "length (set_size s) = 8"
  shows "\<exists>fd fb p1 fb' p2 s' p3 v. wintest_start (kernel_pipe_calls pid) mem p = Inr (fd, pid, fb, p1)
    \<and> send_frame (kernel_pipe_calls pid) fd pid fb p1 = Inr (fb', p2) \<and> handle_messages (kernel_pipe_calls pid) 3 (s, p2) = Inr (s', p3)
    \<and> pipe_contents p3 = [] \<and> windows s' = (windows s)[unat pid := v] \<and> map_option cstr (w_name v) = Some (chars ''Window Test'')
    \<and> w_width v = 200 \<and> w_height v = 200 \<and> w_fd v = Some (take 120000 (FRAMEBUFFER fb')) \<and> w_dirty v"
proof -
  obtain fb p1 fb' p2 where w: "wintest_start (kernel_pipe_calls pid) mem p = Inr (1, pid, fb, p1)"
    "send_frame (kernel_pipe_calls pid) 1 pid fb p1 = Inr (fb', p2)" "pipe_wf p2" "120000 \<le> length (FRAMEBUFFER fb')"
    "pipe_contents p2 = encode_all [(pid, Register (chars ''Window Test'')), (pid, Set_Size 200 200), (pid, Frame (take 120000 (FRAMEBUFFER fb')))]"
    using wintest_written [OF assms(1-4), of pid] by blast
  have n: "0 \<notin> set (chars ''Window Test'')" "length (chars ''Window Test'') < 255" by (simp_all add: chars_def)
  have l: "length (take 120000 (FRAMEBUFFER fb')) = unat (200 * 200 * 3 :: u32)" using w(4) by simp
  show ?thesis using w(1,2) kc.new_window_messages [OF refl w(3) assms(5,7,8) w(5) assms(6) n l] by blast
qed

theorem wintest_shows_window_witness:
  "\<exists>fd fb p1 fb' p2 s' p3. wintest_start (kernel_pipe_calls 3) (replicate 120000 7) (PipeFS True (1024 * 512)) = Inr (fd, 3, fb, p1)
    \<and> send_frame (kernel_pipe_calls 3) fd 3 fb p1 = Inr (fb', p2)
    \<and> handle_messages (kernel_pipe_calls 3) 3 ((small_shell 2 2)\<lparr>windows := replicate 32 new_window\<rparr>, p2) = Inr (s', p3)
    \<and> w_width (windows s' ! 3) = 200 \<and> w_fd (windows s' ! 2) = None"
proof -
  let ?s = "(small_shell 2 2)\<lparr>windows := replicate 32 new_window\<rparr>" let ?p = "PipeFS True (1024 * 512)"
  have n: "pipe_wf ?p" "pipe_contents ?p = []" "120044 \<le> pipe_capacity ?p" using new_pipe [of "1024 * 512"] by simp_all
  have m: "120000 \<le> length (replicate 120000 (7 :: byte))" by simp
  have s: "unat (3 :: u32) < length (windows ?s)" "w_fd (windows ?s ! unat (3 :: u32)) = None" "length (preamble ?s) = 8" "length (set_size ?s) = 8"
    by (simp_all add: small_shell_def new_window_def nth_replicate)
  obtain fd fb p1 fb' p2 s' p3 v where r: "wintest_start (kernel_pipe_calls 3) (replicate 120000 7) ?p = Inr (fd, 3, fb, p1)"
    "send_frame (kernel_pipe_calls 3) fd 3 fb p1 = Inr (fb', p2)" "handle_messages (kernel_pipe_calls 3) 3 (?s, p2) = Inr (s', p3)"
    "windows s' = (windows ?s)[unat (3 :: u32) := v]" "w_width v = 200"
    using wintest_shows_window [OF n m s] by blast
  have "w_width (windows s' ! 3) = 200" "w_fd (windows s' ! 2) = None"
    using r(4,5) by (simp_all add: new_window_def nth_list_update nth_replicate)
  then show ?thesis using r(1-3) by blast
qed

end
