(* ===== verification/Zofia.thy ===== *)
theory Zofia
  imports Shell Screen
begin

text \<open>
  The command line, \<^verbatim>\<open>src/src/userland/zofia/zofia.cpp\<close>: the line editor, the commands, and the programs it runs.  The
  system calls are a parameter; the screen is the one of \<open>Canvas\<close>, the strings are those of \<open>UString\<close>.  The editor refines the
  editing of a line as a list of characters.
\<close>

section \<open>The system as the command line sees it\<close>

text \<open>\<open>getc\<close> gives 0 when there is no key; \<open>int $3\<close> is what the system makes of it.\<close>

record 'w terminal_calls = "'w user_calls" +
  u_getc :: "'w \<Rightarrow> byte \<times> 'w"
  u_fclose :: "int \<Rightarrow> 'w \<Rightarrow> int \<times> 'w"
  u_int3 :: "'w \<Rightarrow> 'w"

definition get_cwd :: "byte list" where "get_cwd = lit ''0:/''"

text \<open>A pointer to a string, as the system reads it.\<close>

definition string_at :: "byte list \<Rightarrow> fault + byte list" where
  "string_at m = (if has_nul m then Inr (cstr m @ [0]) else Inl Bad_Read)"

text \<open>What \<open>printf\<close> and the formatting find on the stack is an argument; its arguments that are strings are addresses of their
  own.\<close>

definition screen_printf :: "byte list \<times> byte list \<Rightarrow> (u32 \<Rightarrow> byte list) \<Rightarrow> byte list \<Rightarrow> u32 list \<Rightarrow> framebuffer_graphics
    \<Rightarrow> fault + framebuffer_graphics" where
  "screen_printf junk strs fmt as fb = u_printf strs fb (fst junk) (snd junk) fmt as"

section \<open>Commands\<close>

definition same_command :: "string \<Rightarrow> byte list \<Rightarrow> fault + bool" where
  "same_command name str = cbind (u_strcmp (lit name) str) (\<lambda>r. Inr (r = 0))"

definition red_screen :: "framebuffer_graphics \<Rightarrow> fault + framebuffer_graphics" where
  "red_screen fb = draw_pixels fb_draw_pixel fb [(word_of_nat x, word_of_nat y). x \<leftarrow> [0..<1024], y \<leftarrow> [0..<768]] 0xff0000"

text \<open>The command \<^verbatim>\<open>cat\<close>: whether the program goes on, with the screen and the world.  The result of \<open>malloc\<close> is not checked,
  and the data is printed as a string.\<close>

definition quoted :: "string \<Rightarrow> string \<Rightarrow> byte list" where
  "quoted before behind = chars before @ [34] @ chars ''%s'' @ [34] @ chars behind @ [10, 0]"

definition cat_command :: "'w terminal_calls \<Rightarrow> byte list \<times> byte list \<Rightarrow> byte list \<Rightarrow> framebuffer_graphics \<times> 'w
    \<Rightarrow> fault + (bool \<times> framebuffer_graphics \<times> 'w)" where
  "cat_command calls junk str fw = (case fw of (fb, w) \<Rightarrow>
     let file_name = drop 4 str; fail = (\<lambda>fmt as w. cbind (screen_printf junk (\<lambda>_. file_name) fmt as fb) (\<lambda>fb'. Inr (False, fb', w)))
     in cbind (string_at file_name) (\<lambda>path.
        let (fd, w1) = u_fopen calls path (lit ''r'') w in
        if fd < 0 then fail (quoted ''Error while opening '' []) [0] w1
        else case u_fstat calls fd w1 of (res, n, w2) \<Rightarrow>
        if res < 0 then fail (quoted ''Error while stating '' '': %d'') [0, word_of_int res] w2
        else case n of None \<Rightarrow> Inl Bad_Read
        | Some k \<Rightarrow> let (m, w3) = u_malloc calls k w2 in (case u_fread calls k 1 fd w3 of (res, bs, w4) \<Rightarrow>
          let old = (case m of None \<Rightarrow> [] | Some b \<Rightarrow> b) in
          if \<not> length bs \<le> length old then Inl Bad_Write
          else let content = blit old 0 bs in
               if res < 0 then fail (quoted ''Error while reading '' '': %d'') [0, word_of_int res] w4
               else cbind (u_puts fb content) (\<lambda>fb1. cbind (u_putc fb1 10) (\<lambda>fb2.
                    let (res, w6) = u_fclose calls fd (u_free calls content w4) in
                    if res < 0 then cbind (screen_printf junk (\<lambda>_. file_name) (lit ''Error while closing %s: %d'') [0, word_of_int res] fb2)
                                      (\<lambda>fb3. Inr (False, fb3, w6))
                    else Inr (True, fb2, w6))))))"

text \<open>A line that is no command is a program; so is one that is \<^verbatim>\<open>red\<close>, \<^verbatim>\<open>clear\<close> or \<^verbatim>\<open>cat\<close>.\<close>

definition run_program :: "'w terminal_calls \<Rightarrow> byte list \<Rightarrow> framebuffer_graphics \<times> 'w \<Rightarrow> fault + (framebuffer_graphics \<times> 'w)" where
  "run_program calls str fw = (case fw of (fb, w) \<Rightarrow>
     cbind (u_strlen get_cwd) (\<lambda>len. cbind (u_strcpy (replicate 1024 0) 0 get_cwd) (\<lambda>buf. cbind (u_strcpy buf len str) (\<lambda>buf'.
     cbind (string_at buf') (\<lambda>path. Inr (fb, u_execprocess calls path w))))))"

definition process_command :: "'w terminal_calls \<Rightarrow> byte list \<times> byte list \<Rightarrow> byte list \<Rightarrow> framebuffer_graphics \<times> 'w
    \<Rightarrow> fault + (framebuffer_graphics \<times> 'w)" where
  "process_command calls junk str fw = (case fw of (fb, w) \<Rightarrow>
     cbind (same_command ''int3'' str) (\<lambda>int3. if int3 then Inr (fb, u_int3 calls w) else
     cbind (same_command ''ping'' str) (\<lambda>ping. if ping then cbind (u_puts fb (chars ''pong'' @ [10, 0])) (\<lambda>fb'. Inr (fb', w)) else
     cbind (same_command ''red'' str) (\<lambda>red. cbind (if red then red_screen fb else Inr fb) (\<lambda>fb1.
     cbind (same_command ''clear'' str) (\<lambda>clear. cbind (if clear then fb_clear_screen fb1 else Inr fb1) (\<lambda>fb2.
     cbind (u_strncmp (lit ''cat '') str 4) (\<lambda>r. cbind (if r = 0 then cat_command calls junk str (fb2, w) else Inr (True, fb2, w)) (\<lambda>(goes_on, fw').
       if goes_on then run_program calls str fw' else Inr fw')))))))))"

section \<open>Lines\<close>

text \<open>Waiting for a key may not end.\<close>

partial_function (option) next_key :: "('w \<Rightarrow> byte \<times> 'w) \<Rightarrow> 'w \<Rightarrow> (byte \<times> 'w) option" where
  [code]: "next_key getc w = (case getc w of (c, w') \<Rightarrow> if c = 0 then next_key getc w' else Some (c, w'))"

partial_function (option) read_line :: "'w terminal_calls \<Rightarrow> framebuffer_graphics \<Rightarrow> byte list \<Rightarrow> nat \<Rightarrow> 'w
    \<Rightarrow> (fault + (framebuffer_graphics \<times> byte list \<times> nat \<times> 'w)) option" where
  [code]: "read_line calls fb buffer idx w =
     (if 1024 \<le> idx then Some (Inr (fb, buffer, idx, w))
      else case next_key (u_getc calls) w of None \<Rightarrow> None
      | Some (c, w1) \<Rightarrow>
        if c = 8 then (if idx = 0 then read_line calls fb buffer idx w1 else read_line calls fb (buffer[idx - 1 := 0]) (idx - 1) w1)
        else if c = 13 then Some (Inr (fb, buffer, idx, w1))
        else (case cbind (wr buffer idx c) (\<lambda>b. cbind (u_putc fb c) (\<lambda>fb'. Inr (b, fb'))) of Inl e \<Rightarrow> Some (Inl e)
              | Inr (b, fb') \<Rightarrow> read_line calls fb' b (Suc idx) w1))"

text \<open>A round of the loop of \<open>main\<close>: the prompt, the line, the command.\<close>

definition command_round :: "'w terminal_calls \<Rightarrow> byte list \<times> byte list \<Rightarrow> framebuffer_graphics \<Rightarrow> byte list \<Rightarrow> 'w
    \<Rightarrow> (fault + (framebuffer_graphics \<times> byte list \<times> 'w)) option" where
  "command_round calls junk fb buffer w =
     (case cbind (u_memset buffer 0 0 1024) (\<lambda>b. cbind (screen_printf junk (\<lambda>_. get_cwd) (lit ''%s $'') [0] fb) (\<lambda>fb'. Inr (b, fb'))) of
        Inl e \<Rightarrow> Some (Inl e)
      | Inr (b, fb1) \<Rightarrow> (case read_line calls fb1 b 0 w of None \<Rightarrow> None
        | Some r \<Rightarrow> Some (cbind r (\<lambda>(fb2, b2, idx, w2). cbind (wr b2 idx 0) (\<lambda>b3. cbind (u_putc fb2 10) (\<lambda>fb3.
            cbind (process_command calls junk b3 (fb3, w2)) (\<lambda>(fb4, w4). Inr (fb4, b3, w4))))))))"

text \<open>What \<open>main\<close> prints before its loop: the day and time of the build and its arguments.\<close>

definition zofia_start :: "byte list \<times> byte list \<Rightarrow> byte list \<times> byte list \<Rightarrow> byte list list \<Rightarrow> framebuffer_graphics
    \<Rightarrow> fault + framebuffer_graphics" where
  "zofia_start junk build arguments fb =
     cbind (screen_printf junk (\<lambda>a. if a = 0 then fst build else snd build) (chars ''GitOS Zofia - Build %s %s'' @ [10, 0]) [0, 1] fb) (\<lambda>fb1.
     cbind (screen_printf junk (\<lambda>_. []) (chars ''argc = %d'' @ [10, 0]) [word_of_nat (length arguments)] fb1) (\<lambda>fb2.
     foldl (\<lambda>r i. cbind r (screen_printf junk (\<lambda>_. arguments ! i) (chars ''argv[%d] = %s'' @ [10, 0]) [word_of_nat i, 0])) (Inr fb2) [0..<length arguments]))"

section \<open>Editing\<close>

text \<open>What a line is: keys are added at its end, a backspace takes the last away.\<close>

definition edit :: "byte \<Rightarrow> byte list \<Rightarrow> byte list" where
  "edit c line_text = (if c = 8 then butlast line_text else line_text @ [c])"

definition typed :: "byte list \<Rightarrow> byte list" where
  "typed ks = fold edit ks []"

text \<open>The keys that come from the keyboard, and where that leaves the world.\<close>

primrec keys_come :: "'w terminal_calls \<Rightarrow> 'w \<Rightarrow> byte list \<Rightarrow> 'w \<Rightarrow> bool" where
  "keys_come calls w [] w' = (w = w')"
| "keys_come calls w (k # ks) w' = (case next_key (u_getc calls) w of None \<Rightarrow> False | Some (c, w1) \<Rightarrow> c = k \<and> keys_come calls w1 ks w')"

definition buffer_with :: "byte list \<Rightarrow> byte list" where
  "buffer_with l = l @ replicate (1024 - length l) 0"

lemma buffer_edit:
  assumes "length l < 1024"
  shows "(buffer_with l)[length l := c] = buffer_with (l @ [c])" "(buffer_with (l @ [c]))[length l := 0] = buffer_with l"
    "length (buffer_with l) = 1024" "(buffer_with l)[length l := 0] = buffer_with l"
proof -
  obtain n where n: "1024 - length l = Suc n" "1024 - Suc (length l) = n" using assms by (cases "1024 - length l") auto
  show "(buffer_with l)[length l := c] = buffer_with (l @ [c])" "(buffer_with (l @ [c]))[length l := 0] = buffer_with l"
    "length (buffer_with l) = 1024" "(buffer_with l)[length l := 0] = buffer_with l"
    using n assms by (simp_all add: buffer_with_def list_update_append)
qed

lemma edit_simps [simp]: "edit 8 l = butlast l" "k \<noteq> 8 \<Longrightarrow> edit k l = l @ [k]"
  by (simp_all add: edit_def)

lemma read_line_types:
  "keys_come calls w (ks @ [13]) w' \<Longrightarrow> \<forall>k\<in>set ks. on_keyboard k \<or> k = 8 \<Longrightarrow> \<forall>n\<le>length ks. length (fold edit (take n ks) l) < 1024 \<Longrightarrow> screen_ok fb \<Longrightarrow>
   \<exists>fb'. read_line calls fb (buffer_with l) (length l) w = Some (Inr (fb', buffer_with (fold edit ks l), length (fold edit ks l), w'))
     \<and> screen_ok fb' \<and> same_screen fb fb'"
proof (induction ks arbitrary: l w fb)
  case Nil
  then show ?case using Nil.prems(3) [rule_format, of 0] by (subst read_line.simps) (auto split: option.splits)
next
  case (Cons k ks)
  obtain w1 where w1: "next_key (u_getc calls) w = Some (k, w1)" "keys_come calls w1 (ks @ [13]) w'"
    using Cons.prems(1) by (auto split: option.splits)
  have l: "length l < 1024" using Cons.prems(3) [rule_format, of 0] by simp
  have next_l: "\<forall>n\<le>length ks. length (fold edit (take n ks) (edit k l)) < 1024"
    using Cons.prems(3) [rule_format, of "Suc n" for n] by auto
  have ks: "\<forall>k\<in>set ks. on_keyboard k \<or> k = 8" using Cons.prems(2) by simp
  note IH = Cons.IH [OF w1(2) ks next_l]
  show ?case
  proof (cases "k = 8")
    case True
    show ?thesis
    proof (cases l rule: rev_cases)
      case Nil
      then show ?thesis using IH [OF Cons.prems(4)] w1(1) True by (subst read_line.simps) simp
    next
      case (snoc l' c)
      then have "(buffer_with l)[length l - 1 := 0] = buffer_with l'" using buffer_edit(2) [of l' c] l by simp
      then show ?thesis using IH [OF Cons.prems(4)] w1(1) True snoc l by (subst read_line.simps) simp
    qed
  next
    case False
    then have k: "on_keyboard k" using Cons.prems(2) by simp
    then have k13: "k \<noteq> 13" by (auto simp: on_keyboard_def)
    obtain fb1 where fb1: "u_putc fb k = Inr fb1" "screen_ok fb1" "same_screen fb fb1"
      using putc_ok [OF Cons.prems(4), of k "text_color fb"] k by (auto simp: u_putc_def fb_print_char_def)
    have "wr (buffer_with l) (length l) k = Inr (buffer_with (l @ [k]))"
      using buffer_edit(1,3) [OF l] l by (simp add: wr_def)
    moreover obtain fb2 where "read_line calls fb1 (buffer_with (l @ [k])) (Suc (length l)) w1 = Some (Inr (fb2, buffer_with (fold edit ks (l @ [k])),
        length (fold edit ks (l @ [k])), w'))" "screen_ok fb2" "same_screen fb1 fb2"
      using IH [OF fb1(2)] False by auto
    ultimately show ?thesis using w1(1) False k13 l fb1 same_screen_trans [OF fb1(3), of fb2] by (subst read_line.simps) simp
  qed
qed

lemma read_line_full:
  "keys_come calls w ks w' \<Longrightarrow> \<forall>k\<in>set ks. on_keyboard k \<Longrightarrow> length l + length ks = 1024 \<Longrightarrow> screen_ok fb \<Longrightarrow>
   \<exists>fb'. read_line calls fb (buffer_with l) (length l) w = Some (Inr (fb', l @ ks, 1024, w'))"
proof (induction ks arbitrary: l w fb)
  case Nil
  then show ?case by (subst read_line.simps) (simp add: buffer_with_def)
next
  case (Cons k ks)
  obtain w1 where w1: "next_key (u_getc calls) w = Some (k, w1)" "keys_come calls w1 ks w'"
    using Cons.prems(1) by (auto split: option.splits)
  have l: "length l < 1024" "length (l @ [k]) + length ks = 1024" using Cons.prems(3) by simp_all
  have k: "on_keyboard k" "\<forall>k\<in>set ks. on_keyboard k" using Cons.prems(2) by simp_all
  then have k13: "k \<noteq> 13" "k \<noteq> 8" by (auto simp: on_keyboard_def)
  obtain fb1 where fb1: "u_putc fb k = Inr fb1" "screen_ok fb1"
    using putc_ok [OF Cons.prems(4), of k "text_color fb"] k by (auto simp: u_putc_def fb_print_char_def)
  have "wr (buffer_with l) (length l) k = Inr (buffer_with (l @ [k]))"
    using buffer_edit(1,3) [OF l(1)] l(1) by (simp add: wr_def)
  then show ?case using Cons.IH [OF w1(2) k(2) l(2) fb1(2)] w1(1) k13 l(1) fb1 by (subst read_line.simps) simp
qed

lemma prompt_ok:
  assumes "screen_ok fb" and "length (fst junk) = 1024" and "length (snd junk) = 512"
  shows "\<exists>fb'. screen_printf junk (\<lambda>_. get_cwd) (lit ''%s $'') [0] fb = Inr fb' \<and> screen_ok fb' \<and> same_screen fb fb'"
proof -
  let ?t = "[48, 58, 47, 32, 36]" let ?z = "replicate 1024 0 :: byte list"
  have m: "u_memset (fst junk) 0 0 1024 = Inr ?z" using memset_full [of "fst junk" 0] assms(2) by (simp add: u_memset_eq)
  have "u_vsprintf (\<lambda>_. get_cwd) ?z 0 (snd junk) (chars ''%s $'' @ 0 # []) [0] = kvsprintf (\<lambda>_. get_cwd) ?z 0 (snd junk) (chars ''%s $'' @ 0 # []) [0]"
    using u_vsprintf_loop_eq [of 0 "chars ''%s $'' @ 0 # []" "chars ''%s $''" "[]"] by (simp add: u_vsprintf_def kvsprintf_def chars_def)
  also have "\<dots> = Inr (blit ?z 0 ?t)"
    by (rule kvsprintf_loop_run [where ds = "[String, Literal 32, Literal 36]"]) (use assms(3) in \<open>simp_all add: chars_def get_cwd_def lit_def has_nul_def cstr_def\<close>)
  also have "blit ?z 0 ?t = ?t @ 0 # replicate 1018 0" by (simp add: blit_def eval_nat_numeral)
  finally have "u_vsprintf (\<lambda>_. get_cwd) ?z 0 (snd junk) (lit ''%s $'') [0] = Inr (?t @ 0 # replicate 1018 0)" by (simp add: lit_def)
  then have "screen_printf junk (\<lambda>_. get_cwd) (lit ''%s $'') [0] fb = fb_print_string_color fb (?t @ 0 # replicate 1018 0) (text_color fb)"
    using m by (simp add: screen_printf_def u_printf_def fb_print_string_def)
  moreover have "\<forall>c\<in>set ?t. on_keyboard c \<or> c = 10" by (simp add: on_keyboard_def)
  ultimately show ?thesis using puts_ok [OF assms(1), of ?t] by metis
qed

text \<open>The names of the commands are compared with the start of the line only.\<close>

definition starts_command :: "byte list \<Rightarrow> bool" where
  "starts_command l = list_ex (\<lambda>name. take (length name) l = chars name) [''int3'', ''ping'', ''red'', ''clear'', ''cat '']"

lemma line_string:
  assumes "0 \<notin> set l" and "length l < 1024"
  shows "has_nul (buffer_with l)" "cstr (buffer_with l) = l"
proof -
  obtain n where "1024 - length l = Suc n" using assms(2) by (cases "1024 - length l") auto
  then have "buffer_with l = l @ 0 # replicate n 0" by (simp add: buffer_with_def)
  then show "has_nul (buffer_with l)" "cstr (buffer_with l) = l" using cstr_append_nul [OF assms(1)] by (simp_all add: has_nul_def)
qed

lemma u_string_eq:
  "u_strcpy dest d src = strcpy dest d src" "u_strncmp s t n = strncmp s t (int n)" "u_strcmp s t = strcmp s t"
  by (simp_all add: u_strcpy_def strcpy_def u_strncmp_def strncmp_def u_strcmp_def strcmp_def u_strcpy_loop_eq u_strncmp_loop_eq u_strlen_eq)

lemma same_command_line:
  assumes "0 \<notin> set l" and "length l < 1024" and "0 \<notin> set (chars name)"
  shows "same_command name (buffer_with l) = Inr (take (length name) l = chars name)"
proof -
  note s = line_string [OF assms(1,2)]
  have n: "has_nul (lit name)" "cstr (lit name) = chars name" using cstr_append_nul [OF assms(3), of "[]"] by (simp_all add: lit_def has_nul_def)
  obtain r where "strcmp (lit name) (buffer_with l) = Inr r" "r = 0 \<longleftrightarrow> take (length (chars name)) l = chars name"
    using strcmp_spec [OF n(1) s(1)] n(2) s(2) by metis
  then show ?thesis by (simp add: same_command_def u_string_eq chars_def)
qed

lemma cat_line:
  assumes "0 \<notin> set l" and "length l < 1024"
  shows "\<exists>r. u_strncmp (lit ''cat '') (buffer_with l) 4 = Inr r \<and> (r = 0 \<longleftrightarrow> take 4 l = chars ''cat '')"
proof -
  note s = line_string [OF assms]
  have n: "has_nul (lit ''cat '')" "cstr (lit ''cat '') = chars ''cat ''" "length (chars ''cat '') = 4"
    by (simp_all add: lit_def has_nul_def cstr_def chars_def)
  obtain r where "strncmp (lit ''cat '') (buffer_with l) 4 = Inr r" "r = 0 \<longleftrightarrow> take (nat 4) (chars ''cat '') = take (nat 4) l"
    using strncmp_spec [of "lit ''cat ''" 4 "buffer_with l"] n s by metis
  then show ?thesis using n(3) by (auto simp: u_string_eq)
qed

lemma run_program_line:
  assumes "0 \<notin> set l" and "length l < 1021"
  shows "run_program calls (buffer_with l) (fb, w) = Inr (fb, u_execprocess calls (chars ''0:/'' @ l @ [0]) w)"
proof -
  have l: "length l < 1024" using assms(2) by simp
  note s = line_string [OF assms(1) l]
  have c: "has_nul get_cwd" "cstr get_cwd = chars ''0:/''" "length (chars ''0:/'') = 3" "0 \<notin> set (chars ''0:/'')"
    by (simp_all add: get_cwd_def lit_def has_nul_def cstr_def chars_def)
  let ?z = "replicate 1024 0 :: byte list"
  let ?b = "blit ?z 0 (chars ''0:/'' @ [0])"
  have lb: "length ?b = 1024" using c(3) by simp
  have r: "u_strlen get_cwd = Inr 3" "u_strcpy ?z 0 get_cwd = Inr ?b" "u_strcpy ?b 3 (buffer_with l) = Inr (blit ?b 3 (l @ [0]))"
    using strlen_spec [of get_cwd] strcpy_spec [OF c(1), of 0 ?z] strcpy_spec [OF s(1), of 3 ?b] c assms(2) lb s(2)
    by (simp_all add: u_strlen_eq u_string_eq)
  have "take 3 ?b = chars ''0:/''" using c(3) by (simp add: blit_def)
  then have "blit ?b 3 (l @ [0]) = (chars ''0:/'' @ l) @ 0 # drop (3 + (length l + 1)) ?b" by (simp add: blit_def)
  moreover have "0 \<notin> set (chars ''0:/'' @ l)" using c(4) assms(1) by simp
  ultimately have "string_at (blit ?b 3 (l @ [0])) = Inr (chars ''0:/'' @ l @ [0])"
    using cstr_append_nul [of "chars ''0:/'' @ l"] by (simp add: string_at_def has_nul_def)
  then show ?thesis using r by (simp add: run_program_def)
qed

lemma process_line:
  assumes "0 \<notin> set l" and "length l < 1021" and "\<not> starts_command l"
  shows "process_command calls junk (buffer_with l) (fb, w) = Inr (fb, u_execprocess calls (chars ''0:/'' @ l @ [0]) w)"
proof -
  have l: "length l < 1024" using assms(2) by simp
  have n: "0 \<notin> set (chars ''int3'')" "0 \<notin> set (chars ''ping'')" "0 \<notin> set (chars ''red'')" "0 \<notin> set (chars ''clear'')" by (simp_all add: chars_def)
  obtain r where r: "u_strncmp (lit ''cat '') (buffer_with l) 4 = Inr r" "r \<noteq> 0" using cat_line [OF assms(1) l] assms(3) by (auto simp: starts_command_def eval_nat_numeral)
  have "same_command ''int3'' (buffer_with l) = Inr False" "same_command ''ping'' (buffer_with l) = Inr False"
    "same_command ''red'' (buffer_with l) = Inr False" "same_command ''clear'' (buffer_with l) = Inr False"
    using assms(3) n by (simp_all add: same_command_line [OF assms(1) l] starts_command_def)
  then show ?thesis using r run_program_line [OF assms(1,2)] by (simp add: process_command_def)
qed

lemma typed_keyboard: "\<forall>k\<in>set ks. on_keyboard k \<or> k = 8 \<Longrightarrow> \<forall>c\<in>set l. on_keyboard c \<Longrightarrow> \<forall>c\<in>set (fold edit ks l). on_keyboard c"
proof (induction ks arbitrary: l)
  case (Cons k ks)
  have "\<forall>c\<in>set (edit k l). on_keyboard c" using Cons.prems by (auto simp: edit_def dest: in_set_butlastD)
  then show ?case using Cons.IH Cons.prems(1) by simp
qed simp

section \<open>Properties\<close>

text \<open>C15: A line that is typed is the program that runs: whatever is typed and taken back with the backspace, at the end of the line the
  system is asked to run the program of the edited line in the root directory, once and with the whole name, when the line does not
  start with the name of a command; the editor never leaves its buffer as long as the line is shorter than it.\<close>

theorem zofia_runs_line:
  assumes "screen_ok fb" and "length buffer = 1024" and "length (fst junk) = 1024" and "length (snd junk) = 512"
    and "keys_come calls w (ks @ [13]) w'" and "\<forall>k\<in>set ks. on_keyboard k \<or> k = 8"
    and "\<forall>n\<le>length ks. length (typed (take n ks)) < 1024" and "length (typed ks) < 1021" and "\<not> starts_command (typed ks)"
  shows "\<exists>fb' buffer'. command_round calls junk fb buffer w = Some (Inr (fb', buffer', u_execprocess calls (chars ''0:/'' @ typed ks @ [0]) w'))
    \<and> screen_ok fb'"
proof -
  have z: "buffer_with [] = replicate 1024 0" by (simp add: buffer_with_def)
  have m: "u_memset buffer 0 0 1024 = Inr (buffer_with [])" using memset_full [of buffer 0] assms(2) z by (simp add: u_memset_eq)
  obtain fb1 where fb1: "screen_printf junk (\<lambda>_. get_cwd) (lit ''%s $'') [0] fb = Inr fb1" "screen_ok fb1"
    using prompt_ok [OF assms(1,3,4)] by blast
  have n: "\<forall>n\<le>length ks. length (fold edit (take n ks) []) < 1024" using assms(7) by (simp add: typed_def)
  obtain fb2 where fb2: "read_line calls fb1 (buffer_with []) 0 w = Some (Inr (fb2, buffer_with (typed ks), length (typed ks), w'))" "screen_ok fb2"
    using read_line_types [OF assms(5,6) n fb1(2)] by (auto simp: typed_def)
  have k: "\<forall>c\<in>set (typed ks). on_keyboard c" using typed_keyboard [OF assms(6), of "[]"] by (simp add: typed_def)
  then have z0: "0 \<notin> set (typed ks)" by (auto simp: on_keyboard_def)
  obtain fb3 where fb3: "u_putc fb2 10 = Inr fb3" "screen_ok fb3"
    using putc_ok [OF fb2(2), of 10 "text_color fb2"] by (auto simp: u_putc_def fb_print_char_def)
  have "wr (buffer_with (typed ks)) (length (typed ks)) 0 = Inr (buffer_with (typed ks))"
    using buffer_edit(3,4) [of "typed ks"] assms(8) by (simp add: wr_def)
  then show ?thesis using m fb1 fb2 fb3 process_line [OF z0 assms(8,9), of calls junk fb3 w'] by (simp add: command_round_def)
qed

text \<open>A world of keys, and what was run.\<close>

definition key_calls :: "(byte list \<times> byte list list) terminal_calls" where
  "key_calls = \<lparr>u_fopen = (\<lambda>_ _ w. (1, w)), u_fread = (\<lambda>_ _ _ w. (0, [], w)), u_fwrite = (\<lambda>_ _ _ _ w. (1, w)), u_fstat = (\<lambda>_ w. (0, None, w)),
     u_fseek = (\<lambda>_ _ _ w. (0, w)), u_malloc = (\<lambda>n w. (Some (replicate (unat n) 0), w)), u_free = (\<lambda>_ w. w), u_open_ipc = (\<lambda>_ _ _ w. w),
     u_execprocess = (\<lambda>p (ks, ps). (ks, ps @ [p])), u_getpid = (\<lambda>w. (1, w)), u_debug = (\<lambda>_ w. w), u_framebuffer_info = (\<lambda>w. (([], 0, 0, 0), w)),
     u_getc = (\<lambda>(ks, ps). case ks of [] \<Rightarrow> (0, [], ps) | k # ks' \<Rightarrow> (k, ks', ps)), u_fclose = (\<lambda>_ w. (0, w)), u_int3 = (\<lambda>w. w)\<rparr>"

definition terminal_screen :: framebuffer_graphics where
  "terminal_screen = \<lparr>FRAMEBUFFER = replicate 768 0, WIDTH = 16, HEIGHT = 16, BPP = 24, PITCH = 48, cursor_x = 0, cursor_y = 0, text_color = 0xAAAAAA\<rparr>"

lemma terminal_screen_ok: "screen_ok terminal_screen"
  by (simp add: screen_ok_def terminal_screen_def canvas_wf_def)

lemma key_calls_keys: "0 \<notin> set ks \<Longrightarrow> keys_come key_calls (ks @ rest, ps) ks (rest, ps)"
proof (induction ks)
  case (Cons k ks)
  have "next_key (u_getc key_calls) ((k # ks) @ rest, ps) = Some (k, ks @ rest, ps)"
    using Cons.prems by (subst next_key.simps) (simp add: key_calls_def)
  then show ?case using Cons by simp
qed simp

text \<open>The keys \<^verbatim>\<open>l\<close>, \<^verbatim>\<open>x\<close>, backspace, \<^verbatim>\<open>s\<close> and the end of the line.\<close>

theorem zofia_runs_line_witness:
  "\<exists>fb' buffer'. command_round key_calls (replicate 1024 7, replicate 512 7) terminal_screen (replicate 1024 9) ([108, 120, 8, 115, 13, 1], [])
    = Some (Inr (fb', buffer', ([1], [[48, 58, 47, 108, 115, 0]])))"
proof -
  let ?ks = "[108, 120, 8, 115] :: byte list"
  have k: "keys_come key_calls ((?ks @ [13]) @ [1], []) (?ks @ [13]) ([1], [])" by (rule key_calls_keys) simp
  have t: "typed ?ks = [108, 115]" by (simp add: typed_def)
  have n: "\<forall>n\<le>length ?ks. length (typed (take n ?ks)) < 1024"
  proof (intro allI impI)
    fix n assume "n \<le> length ?ks"
    then have "n \<in> {0, 1, 2, 3, 4}" by auto
    then show "length (typed (take n ?ks)) < 1024" by (auto simp: typed_def)
  qed
  have s: "\<not> starts_command (typed ?ks)" by (simp add: t starts_command_def chars_def)
  have o: "\<forall>k\<in>set ?ks. on_keyboard k \<or> k = 8" by (simp add: on_keyboard_def)
  from zofia_runs_line [OF terminal_screen_ok _ _ _ k o n _ s, of "replicate 1024 9" "(replicate 1024 7, replicate 512 7)"]
  obtain fb' buffer' where "command_round key_calls (replicate 1024 7, replicate 512 7) terminal_screen (replicate 1024 9) ((?ks @ [13]) @ [1], [])
    = Some (Inr (fb', buffer', u_execprocess key_calls (chars ''0:/'' @ [108, 115] @ [0]) ([1], [])))"
    using t by auto
  then show ?thesis by (simp add: key_calls_def chars_def)
qed

text \<open>1024 characters without an end of the line fill the buffer and the terminator is stored behind it.\<close>

theorem zofia_line_overruns:
  assumes "screen_ok fb" and "length buffer = 1024" and "length (fst junk) = 1024" and "length (snd junk) = 512"
    and "keys_come calls w ks w'" and "\<forall>k\<in>set ks. on_keyboard k" and "length ks = 1024"
  shows "command_round calls junk fb buffer w = Some (Inl Bad_Write)"
proof -
  have z: "buffer_with [] = replicate 1024 0" by (simp add: buffer_with_def)
  have m: "u_memset buffer 0 0 1024 = Inr (buffer_with [])" using memset_full [of buffer 0] assms(2) z by (simp add: u_memset_eq)
  obtain fb1 where fb1: "screen_printf junk (\<lambda>_. get_cwd) (lit ''%s $'') [0] fb = Inr fb1" "screen_ok fb1"
    using prompt_ok [OF assms(1,3,4)] by blast
  obtain fb2 where "read_line calls fb1 (buffer_with []) 0 w = Some (Inr (fb2, ks, 1024, w'))"
    using read_line_full [OF assms(5,6) _ fb1(2), of "[]"] assms(7) by auto
  then show ?thesis using m fb1 assms(7) by (simp add: command_round_def wr_def)
qed

theorem zofia_line_overruns_witness:
  "command_round key_calls (replicate 1024 7, replicate 512 7) terminal_screen (replicate 1024 9) (replicate 1024 97, []) = Some (Inl Bad_Write)"
proof -
  have k: "keys_come key_calls (replicate 1024 97 @ [], []) (replicate 1024 97) ([], [])" by (rule key_calls_keys) simp
  show ?thesis by (rule zofia_line_overruns [OF terminal_screen_ok _ _ _ k [simplified append_Nil2]]) (simp_all add: on_keyboard_def)
qed

end
