(* ===== verification/Spec2Isabelle.thy ===== *)
theory Spec2Isabelle
  imports KHeap KPrintf Paging Fat16 Pipe MemFs Vfs UString Ports Gdt Task Elf Process ProcessMemory Keyboard Interrupts Drivers Mouse
    Syscall ObjectSizes TextMode Canvas Boot KernelMain KernelStart Crash Bmp Screen Shell ShellCursor ShellMessages Zofia
begin

text \<open>
  A verification development for GitOS, a small operating system for 32-bit x86: a kernel in C and C++ (\<^verbatim>\<open>src/src/kernel\<close>) that starts
  from its own loader or from a Multiboot 2 one, keeps memory, tasks, processes, files and devices, and serves system calls; and user
  programs in C++ (\<^verbatim>\<open>src/src/userland\<close>) with their library, among them a window manager and a command line.

  \<^bold>\<open>The program and how its parts interact.\<close>  \<open>kernel_main\<close> (\<^verbatim>\<open>kernel.cpp\<close>) takes the memory map from the boot protocol, makes the heap
  on the largest region and a page directory, fills the segment and interrupt tables, remaps the interrupt controller, mounts the disk
  and the device files, registers the system calls and loads the first program.  From then on interrupts drive the system: the timer
  switches to the next task of a ring, the keyboard puts characters into the queue of the process in the foreground, the mouse puts
  packets into a pipe, interrupt 0x80 runs a system call, and an exception ends the process that caused it.  Files are behind a table
  of mounts, each with a driver (FAT16 on the disk, pipes, blocks of memory).  The programs see the kernel only through system calls:
  the window manager reads messages from a pipe, draws windows and the cursor into the file of the screen; the command line edits a
  line and runs programs.

  \<^bold>\<open>The theories\<close>, in the order the program has its parts.  Every definition has the name of the function, type or field it models
  (a loop has the name of its function and \<open>_loop\<close>; a method the name of its class in front where the name alone is not clear; the
  functions of the user library have \<open>u_\<close> in front).

    \<^item> \<open>GitPrelude\<close>: the machine types, the status codes of \<^verbatim>\<open>common/status.h\<close>, \<open>cassert\<close> of \<^verbatim>\<open>common/assert.h\<close>, faults, reading and
      writing of objects, little-endian words, the lemmas on lists and words that the rest shares.
    \<^item> \<open>Memory\<close> (\<^verbatim>\<open>memory/memory.c\<close>), \<open>KString\<close> and \<open>KPrintf\<close> (\<^verbatim>\<open>common/string.c\<close>): blocks, strings, numbers, formatted output.  The
      specification of \<open>kvsprintf\<close> parses the format and gives the text it stands for.
    \<^item> \<open>KHeap\<close> (\<^verbatim>\<open>memory/heap/heap.c\<close>, \<^verbatim>\<open>hkeap.c\<close>): the table of 4096-byte blocks and the kernel heap on it.  Its invariant is that taken
      blocks are exactly the allocations; the inductive relation \<open>heap_reachable\<close> runs any sequence of calls.  The interface is the
      locale \<open>page_allocator\<close>, interpreted by \<open>kzalloc\<close>.
    \<^item> \<open>Paging\<close> (\<^verbatim>\<open>memory/paging/paging.c\<close>): directories and tables as memory; what they mean is the partial map the processor sees.
      It is built on \<open>page_allocator\<close> by the locales \<open>kernel_pages\<close> and \<open>page_freeing\<close>.
    \<^item> \<open>Disk\<close> (\<^verbatim>\<open>drivers/disk/disk.c\<close>, \<^verbatim>\<open>disk_streamer.c\<close>), \<open>FileApi\<close> and \<open>Vfs\<close> (\<^verbatim>\<open>fs/file.h\<close>, \<^verbatim>\<open>fs/file.c\<close>), \<open>Path\<close> (\<^verbatim>\<open>fs/Path.cpp\<close>), \<open>Fat16\<close>
      (\<^verbatim>\<open>fs/fat16/fat16.c\<close>), \<open>Pipe\<close> (\<^verbatim>\<open>fs/pipe/PipeFS.cpp\<close>), \<open>MemFs\<close> (\<^verbatim>\<open>fs/memory/MemoryFS.cpp\<close>), \<open>Drivers\<close>: files.  A pipe refines a bounded
      queue (locale \<open>byte_fifo\<close>); the drivers behind the file layer are instances of the locale \<open>channel_driver\<close>.
    \<^item> \<open>Ports\<close> (\<^verbatim>\<open>drivers/serial/serial.c\<close>, \<^verbatim>\<open>drivers/pic/pic.c\<close>), \<open>Gdt\<close> (\<^verbatim>\<open>gdt/gdt.c\<close>), \<open>Interrupts\<close> (\<^verbatim>\<open>idt/idt.c\<close> and the interrupt
      routines), \<open>Keyboard\<close> (\<^verbatim>\<open>drivers/ps2keyboard\<close>), \<open>Mouse\<close> (\<^verbatim>\<open>drivers/ps2mouse\<close>), \<open>TextMode\<close> and \<open>Canvas\<close> (\<^verbatim>\<open>drivers/graphics\<close>,
      \<^verbatim>\<open>stdlib/graphics/framebuffer.cpp\<close>): devices.  The text screen refines a sheet of paper on which text is set; a canvas is what its
      pixels read back as.
    \<^item> \<open>Task\<close> (\<^verbatim>\<open>task/task.c\<close>), \<open>Elf\<close> (\<^verbatim>\<open>formats/elf/ELFFile.cpp\<close>), \<open>Process\<close> and \<open>ProcessMemory\<close> (\<^verbatim>\<open>task/process.cpp\<close>), \<open>Syscall\<close> and
      \<open>ObjectSizes\<close> (\<^verbatim>\<open>syscall/syscall.cpp\<close>): tasks, program files, processes and what they own, system calls, and the sizes every
      one of them keeps.
    \<^item> \<open>Boot\<close> (\<^verbatim>\<open>bootloaders\<close>), \<open>KernelMain\<close> and \<open>KernelStart\<close> (\<^verbatim>\<open>kernel.cpp\<close>), \<open>Crash\<close> (\<open>kernel_exception\<close>): the start, and the end of a
      process that crashes.
    \<^item> \<open>UString\<close> (\<^verbatim>\<open>stdlib/string.c\<close>), \<open>Bmp\<close> (\<^verbatim>\<open>stdlib/format/bmp\<close>), \<open>Screen\<close>, \<open>Shell\<close>, \<open>ShellCursor\<close> and \<open>ShellMessages\<close>
      (\<^verbatim>\<open>shell/shell.cpp\<close>, \<^verbatim>\<open>stdlib/window/window.h\<close>, \<^verbatim>\<open>wintest/wintest.cpp\<close>), \<open>Zofia\<close> (\<^verbatim>\<open>zofia/zofia.cpp\<close>): the programs.  The locales
      \<open>message_channel\<close> and \<open>message_pipe\<close> state what a program relies on in its channel; the pipe of the kernel is one, so that
      what is sent by one program and shown by the other is proved through the driver.

  \<^bold>\<open>State and effects.\<close>  A structure is a record, an object that is used by index a list of bytes, and the machine is a record that grows
  with the parts (\<open>kmem\<close>, the kernel, the processes, the devices), so an operation of one part runs in the state of any part above.
  Memory at an address is a function \<open>ram\<close> from addresses to bytes where addresses matter (heap, paging, boot protocols).  Machine
  integers are words of their width, with their wrap-around; a signed \<open>int\<close> is read with \<open>sint\<close>.  A function that can fail in C gives
  \<open>fault + ...\<close>: reads and writes out of an object, null pointers, divisions by zero, failed assertions, panics and endless loops are
  values, and an operation is only proved to give a result by proving that it is \<open>Inr\<close>.  A loop that may not end is a
  \<open>partial_function (option)\<close>, where not ending is \<open>None\<close>; that it ends is always part of the statement.  No model has fuel; the
  endless loop of the window manager is stated for any number \<open>n\<close> of rounds (\<open>shell_rounds\<close>), the one of the command line for a round.

  \<^bold>\<open>What is a parameter, and what is assumed of it.\<close>  The ports of the devices (\<open>'d ports\<close>) with a state of their own; the drive, a
  function from the bytes written to its ports to the values of its status and data registers; the instructions that load a table or read a control register, which are
  fields of the state; and the system calls as the programs see them (\<open>user_calls\<close>).  The assumptions are named: \<open>uart\<close> (the serial port
  gets ready after finitely many polls and sends what is written to it), \<open>ata_serves\<close> (the drive gets ready
  after finitely many polls and gives the bytes of its sectors), \<open>message_channel\<close> (what is written
  to a channel is read from it in order), \<open>keys_come\<close> (which keys the keyboard gives).  Each has a concrete instance in a witness.

  \<^bold>\<open>What the lemmas show.\<close>  Invariants: the heap table, page directories, the ring of tasks, the queue of a pipe, the cached cluster of
  a file, the sizes of all objects, the pointer on the screen.  Refinements: a pipe and a bounded queue, the text screen and a
  typeset text, the timer and a round-robin schedule, the windows and what the clients told, the typed line and its editing.
  Functional behaviour of every operation on its branches, errors included; round trips of encodings (segments, gates, numbers, paths,
  pictures); agreement of the two string libraries; and where the code goes wrong, a theorem that says when and how.

  \<^bold>\<open>Bounds.\<close>  Lengths are below 2^31 or 2^32 where the code computes with \<open>int\<close> or \<open>uint32_t\<close>; each is a hypothesis of the theorem that
  needs it.  The names in a crash report are at most 900 characters, so that the report fits the 1024 bytes of its buffer; a line of
  the command line is shorter than the 1024 bytes of its buffer and, to be run, than the 1021 bytes behind the path.  A theorem about the
  cursor supposes a picture that is not wider than high, as the index into the buffer below it needs.

  \<^bold>\<open>Not modelled\<close>, and why.  The loader, the entry stubs and context switch of the kernel and the system call stubs of the programs
  (\<^verbatim>\<open>src/src/boot\<close>, all files \<^verbatim>\<open>*.asm\<close>): assembly.  \<^verbatim>\<open>common/io.c\<close>: single instructions.  \<open>operator new\<close> and \<open>delete\<close> and
  \<^verbatim>\<open>stdlib/memory.cpp\<close>: calls of the allocator.  \<^verbatim>\<open>stdlib/crt0.c\<close>, \<^verbatim>\<open>blank\<close> and \<^verbatim>\<open>crasher\<close>: no behaviour of their own.  Getters, which are the
  fields of the records, and the accessors of single objects (\<open>the\<close>, \<open>instance\<close>, \<open>disk_get\<close>).  Structures that no function reads (of the
  ELF and Multiboot headers).  Build files and scripts.  Of timing nothing is stated, and interrupts happen between operations, as they
  are switched off in the kernel.
\<close>

end
